(* ===== verification/Prelude.thy ===== *)
theory Prelude
  imports Main "HOL-Library.AList" "HOL-Library.Word"
begin

text \<open>
  Shared vocabulary of the development: the types of times, bytes and hash maps, the
  collections of hints, the interface of a key-value store with its one implementation,
  and a transition-system locale from which every component takes "an invariant that
  each operation keeps holds after every run".

  Conventions. \<open>Instant\<close> and \<open>SystemTime\<close> are natural numbers of nanoseconds;
  \<open>Instant::duration_since\<close> saturates at zero, as subtraction on \<open>nat\<close> does. A Rust
  \<open>str\<close> is the list of its UTF-8 bytes (type \<open>string\<close>, whose characters are
  8 bits wide), so \<open>length\<close> is Rust's \<open>str::len\<close>. A \<open>HashMap\<close> is an association
  list with distinct keys; its order stands for one of the orders Rust may iterate in.
\<close>

section \<open>Types and hint collections\<close>

type_synonym instant = nat
type_synonym duration = nat
type_synonym ('k, 'v) hashmap = "('k \<times> 'v) list"

abbreviation nanos_per_sec :: nat where
  "nanos_per_sec \<equiv> 1000000000"

abbreviation secs :: "nat \<Rightarrow> duration" where
  "secs n \<equiv> n * 1000000000"

abbreviation millis :: "nat \<Rightarrow> duration" where
  "millis n \<equiv> n * 1000000"

named_theorems hashmap_simps \<open>lookups after updates of a hash map\<close>
named_theorems model_defs \<open>definitions of the operations of a component\<close>
named_theorems inv_intros \<open>an operation keeps the invariant of its component\<close>

section \<open>The interface of a key-value store\<close>

text \<open>
  What every component relies on when it keeps state in a \<open>HashMap\<close>: \<open>get\<close> after
  \<open>insert\<close>, \<open>remove\<close> and \<open>retain\<close>, and the well-formedness that they keep.
\<close>

locale kv_store =
  fixes get :: "'m \<Rightarrow> 'k \<Rightarrow> 'v option"
    and put :: "'k \<Rightarrow> 'v \<Rightarrow> 'm \<Rightarrow> 'm"
    and del :: "'k \<Rightarrow> 'm \<Rightarrow> 'm"
    and retain :: "('k \<Rightarrow> 'v \<Rightarrow> bool) \<Rightarrow> 'm \<Rightarrow> 'm"
    and wf :: "'m \<Rightarrow> bool"
  assumes get_put: "get (put k v m) k' = (if k' = k then Some v else get m k')"
    and get_del: "get (del k m) k' = (if k' = k then None else get m k')"
    and get_retain: "wf m \<Longrightarrow>
      get (retain p m) k = (case get m k of None \<Rightarrow> None | Some v \<Rightarrow> if p k v then Some v else None)"
    and wf_put: "wf m \<Longrightarrow> wf (put k v m)"
    and wf_del: "wf m \<Longrightarrow> wf (del k m)"
    and wf_retain: "wf m \<Longrightarrow> wf (retain p m)"
begin

lemma get_put_same: "get (put k v m) k = Some v"
  by (simp add: get_put)

lemma get_put_other: "k' \<noteq> k \<Longrightarrow> get (put k v m) k' = get m k'"
  by (simp add: get_put)

lemma get_del_other: "k' \<noteq> k \<Longrightarrow> get (del k m) k' = get m k'"
  by (simp add: get_del)

lemma get_retain_mono: "wf m \<Longrightarrow> get (retain p m) k = Some v \<Longrightarrow> get m k = Some v \<and> p k v"
  by (auto simp: get_retain split: option.splits if_splits)

lemma get_retain_keep: "wf m \<Longrightarrow> get m k = Some v \<Longrightarrow> p k v \<Longrightarrow> get (retain p m) k = Some v"
  by (simp add: get_retain)

end

section \<open>Hash maps as association lists\<close>

definition hget :: "('k, 'v) hashmap \<Rightarrow> 'k \<Rightarrow> 'v option" where
  "hget m k = map_of m k"

definition hput :: "'k \<Rightarrow> 'v \<Rightarrow> ('k, 'v) hashmap \<Rightarrow> ('k, 'v) hashmap" where
  "hput k v m = AList.update k v m"

definition hdel :: "'k \<Rightarrow> ('k, 'v) hashmap \<Rightarrow> ('k, 'v) hashmap" where
  "hdel k m = AList.delete k m"

definition hretain :: "('k \<Rightarrow> 'v \<Rightarrow> bool) \<Rightarrow> ('k, 'v) hashmap \<Rightarrow> ('k, 'v) hashmap" where
  "hretain p m = filter (\<lambda>(k, v). p k v) m"

definition hvals :: "('k, 'v) hashmap \<Rightarrow> 'v list" where
  "hvals m = map snd m"

definition hwf :: "('k, 'v) hashmap \<Rightarrow> bool" where
  "hwf m = distinct (map fst m)"

lemma map_of_filter_pair:
  "distinct (map fst m) \<Longrightarrow>
   map_of (filter (\<lambda>(k, v). p k v) m) k =
     (case map_of m k of None \<Rightarrow> None | Some v \<Rightarrow> if p k v then Some v else None)"
proof (induction m)
  case Nil
  then show ?case by simp
next
  case (Cons a m)
  obtain k' v' where a: "a = (k', v')" by (cases a)
  from Cons.prems a have "k = k' \<Longrightarrow> map_of m k = None"
    by (auto simp: map_of_eq_None_iff)
  with Cons a show ?case
    by (auto split: option.splits)
qed

lemma distinct_map_fst_filter: "distinct (map fst m) \<Longrightarrow> distinct (map fst (filter p m))"
  by (induction m) auto

interpretation hm: kv_store hget hput hdel hretain hwf
proof unfold_locales
  show "hget (hput k v m) k' = (if k' = k then Some v else hget m k')" for k v k' and m :: "('a, 'b) hashmap"
    by (simp add: hget_def hput_def update_conv')
  show "hget (hdel k m) k' = (if k' = k then None else hget m k')" for k k' and m :: "('a, 'b) hashmap"
    by (simp add: hget_def hdel_def delete_conv')
  show "hwf m \<Longrightarrow> hget (hretain p m) k =
      (case hget m k of None \<Rightarrow> None | Some v \<Rightarrow> if p k v then Some v else None)"
    for p k and m :: "('a, 'b) hashmap"
    by (simp add: hget_def hretain_def hwf_def map_of_filter_pair)
  show "hwf m \<Longrightarrow> hwf (hput k v m)" for k v and m :: "('a, 'b) hashmap"
    by (simp add: hwf_def hput_def distinct_update)
  show "hwf m \<Longrightarrow> hwf (hdel k m)" for k and m :: "('a, 'b) hashmap"
    by (simp add: hwf_def hdel_def distinct_delete)
  show "hwf m \<Longrightarrow> hwf (hretain p m)" for p and m :: "('a, 'b) hashmap"
    by (simp add: hwf_def hretain_def distinct_map_fst_filter)
qed

lemmas hashmap_laws [hashmap_simps] = hm.get_put hm.get_del hm.get_retain

lemma hwf_Nil [simp]: "hwf []"
  by (simp add: hwf_def)

lemma hget_Nil [simp]: "hget [] k = None"
  by (simp add: hget_def)

lemma hget_Cons: "hget ((k, v) # m) k' = (if k' = k then Some v else hget m k')"
  by (simp add: hget_def)

lemma hget_SomeD: "hget m k = Some v \<Longrightarrow> (k, v) \<in> set m"
  by (simp add: hget_def map_of_SomeD)

lemma hget_iff: "hwf m \<Longrightarrow> hget m k = Some v \<longleftrightarrow> (k, v) \<in> set m"
  by (simp add: hget_def hwf_def map_of_eq_Some_iff)

lemma hget_None_iff: "hget m k = None \<longleftrightarrow> k \<notin> fst ` set m"
  by (simp add: hget_def map_of_eq_None_iff)

lemma hvals_iff: "hwf m \<Longrightarrow> v \<in> set (hvals m) \<longleftrightarrow> (\<exists>k. hget m k = Some v)"
  by (force simp: hvals_def hget_iff)

text \<open>To evaluate an operation on a concrete map.\<close>

lemmas hashmap_eval = hget_def hput_def hdel_def hretain_def hvals_def hwf_def

section \<open>Early return on an error: Rust's question mark\<close>

definition tryE :: "'e + 'a \<Rightarrow> ('a \<Rightarrow> 'e + 'b) \<Rightarrow> 'e + 'b" where
  "tryE m f = (case m of Inl e \<Rightarrow> Inl e | Inr x \<Rightarrow> f x)"

lemma tryE_simps [simp]: "tryE (Inl e) f = Inl e" "tryE (Inr x) f = f x"
  by (simp_all add: tryE_def)

lemma tryE_cong [fundef_cong]:
  "m = n \<Longrightarrow> (\<And>x. n = Inr x \<Longrightarrow> f x = g x) \<Longrightarrow> tryE m f = tryE n g"
  by (auto simp: tryE_def split: sum.splits)

lemma tryE_eq_Inr: "tryE m f = Inr y \<longleftrightarrow> (\<exists>x. m = Inr x \<and> f x = Inr y)"
  by (auto simp: tryE_def split: sum.splits)

lemma tryE_eq_Inl: "tryE m f = Inl e \<longleftrightarrow> m = Inl e \<or> (\<exists>x. m = Inr x \<and> f x = Inl e)"
  by (auto simp: tryE_def split: sum.splits)

section \<open>Lists\<close>

lemma sorted_le_last: "sorted xs \<Longrightarrow> x \<in> set xs \<Longrightarrow> x \<le> last xs"
  by (induction xs) auto

section \<open>Decimal numbers\<close>

definition digit :: "nat \<Rightarrow> char" where
  "digit d = char_of (48 + d)"

text \<open>\<open>Display\<close> of an unsigned integer.\<close>

fun dec :: "nat \<Rightarrow> string" where
  "dec n = (if n < 10 then [digit n] else dec (n div 10) @ [digit (n mod 10)])"

declare dec.simps [simp del]

definition undec :: "string \<Rightarrow> nat" where
  "undec s = foldl (\<lambda>n c. n * 10 + (of_char c - 48)) 0 s"

lemma of_char_digit: "d < 10 \<Longrightarrow> of_char (digit d) = 48 + d"
  by (simp add: digit_def)

lemma undec_dec [simp]: "undec (dec n) = n"
proof (induction n rule: dec.induct)
  case (1 n)
  show ?case
  proof (cases "n < 10")
    case True
    then show ?thesis by (simp add: dec.simps undec_def of_char_digit)
  next
    case False
    with 1 have "undec (dec (n div 10)) = n div 10" by simp
    with False show ?thesis
      by (subst dec.simps) (simp add: undec_def of_char_digit)
  qed
qed

lemma dec_inj [simp]: "dec m = dec n \<longleftrightarrow> m = n"
  by (metis undec_dec)

lemma dec_not_Nil [simp]: "dec n \<noteq> []"
  by (subst dec.simps) simp

lemma dec_digits: "c \<in> set (dec n) \<Longrightarrow> 48 \<le> (of_char c :: nat) \<and> (of_char c :: nat) \<le> 57"
proof (induction n rule: dec.induct)
  case (1 n)
  have "(of_char (digit (n mod 10)) :: nat) = 48 + n mod 10" by (rule of_char_digit) simp
  moreover have "n mod 10 \<le> 9" using mod_less_divisor [of 10 n] by linarith
  ultimately show ?case
    using 1 by (cases "n < 10") (auto simp: dec.simps [of n] of_char_digit)
qed

section \<open>Machine integers\<close>

lemma unat_u8: "unat (b :: 8 word) < 256"
proof -
  have "unat b < 2 ^ LENGTH(8)" by (rule unsigned_less)
  then show ?thesis by simp
qed

lemma unat_u16: "unat (b :: 16 word) < 65536"
proof -
  have "unat b < 2 ^ LENGTH(16)" by (rule unsigned_less)
  then show ?thesis by simp
qed

lemma unat_u32: "unat (b :: 32 word) < 4294967296"
proof -
  have "unat b < 2 ^ LENGTH(32)" by (rule unsigned_less)
  then show ?thesis by simp
qed

section \<open>Transition systems: an invariant of every run\<close>

text \<open>
  A component is a step function on its state, driven by events that are enabled in it.
  The locale proves once that what every enabled step keeps holds after every run of
  enabled steps. Each component instantiates it with its own operations.
\<close>

fun valid_run :: "('s \<Rightarrow> 'e \<Rightarrow> 's) \<Rightarrow> ('s \<Rightarrow> 'e \<Rightarrow> bool) \<Rightarrow> 's \<Rightarrow> 'e list \<Rightarrow> bool" where
  "valid_run step enabled s [] = True"
| "valid_run step enabled s (e # es) = (enabled s e \<and> valid_run step enabled (step s e) es)"

lemma valid_run_append:
  "valid_run step enabled s (es @ fs) \<longleftrightarrow>
     valid_run step enabled s es \<and> valid_run step enabled (foldl step s es) fs"
  by (induction es arbitrary: s) auto

locale stepper =
  fixes step :: "'s \<Rightarrow> 'e \<Rightarrow> 's"
    and enabled :: "'s \<Rightarrow> 'e \<Rightarrow> bool"
    and inv :: "'s \<Rightarrow> bool"
  assumes inv_step: "inv s \<Longrightarrow> enabled s e \<Longrightarrow> inv (step s e)"
begin

lemma inv_run: "inv s \<Longrightarrow> valid_run step enabled s es \<Longrightarrow> inv (foldl step s es)"
  by (induction es arbitrary: s) (auto intro: inv_step)

end

end
