(* ===== verification/Limiter.thy ===== *)
theory Limiter
  imports Prelude
begin

text \<open>
  The failed-login limiter, \<open>backend/src/auth/limiter.rs\<close>. State: the attempts of
  each IP (a count and the time of the first failure) and the time of the last sweep.
  Operations: \<open>blocked\<close>, \<open>fail\<close> (which sweeps at most once per window) and
  \<open>success\<close>. The specification of one IP forgets the other IPs and never sweeps;
  the refinement says that the code's answers are the specification's.
\<close>

section \<open>The code\<close>

text \<open>\<open>Attempt.count\<close> is a \<open>u32\<close>; the release profile wraps it.\<close>

record attempt =
  at_count :: "32 word"
  at_first :: instant

record auth_limiter =
  attempts :: "(string, attempt) hashmap"
  last_sweep :: "instant option"
  lim_max :: "32 word"
  lim_window :: duration

definition new_limiter :: "32 word \<Rightarrow> duration \<Rightarrow> auth_limiter" where
  "new_limiter m w = \<lparr>attempts = [], last_sweep = None, lim_max = m, lim_window = w\<rparr>"

definition blocked_at :: "auth_limiter \<Rightarrow> string \<Rightarrow> instant \<Rightarrow> bool \<times> auth_limiter" where
  "blocked_at l ip now =
     (case hget (attempts l) ip of
        None \<Rightarrow> (False, l)
      | Some a \<Rightarrow>
          if now - at_first a > lim_window l
          then (False, l\<lparr>attempts := hdel ip (attempts l)\<rparr>)
          else (lim_max l \<le> at_count a, l))"

definition sweep_attempts :: "auth_limiter \<Rightarrow> instant \<Rightarrow> auth_limiter" where
  "sweep_attempts l now =
     (if (case last_sweep l of None \<Rightarrow> True | Some t \<Rightarrow> now - t \<ge> lim_window l)
      then l\<lparr>last_sweep := Some now,
             attempts := hretain (\<lambda>_ a. now - at_first a \<le> lim_window l) (attempts l)\<rparr>
      else l)"

definition fail_at :: "auth_limiter \<Rightarrow> string \<Rightarrow> instant \<Rightarrow> auth_limiter" where
  "fail_at l0 ip now =
     (let l = sweep_attempts l0 now;
          fresh = l\<lparr>attempts := hput ip \<lparr>at_count = 1, at_first = now\<rparr> (attempts l)\<rparr>
      in case hget (attempts l) ip of
           Some a \<Rightarrow>
             if now - at_first a \<le> lim_window l
             then l\<lparr>attempts := hput ip (a\<lparr>at_count := at_count a + 1\<rparr>) (attempts l)\<rparr>
             else fresh
         | None \<Rightarrow> fresh)"

definition success :: "auth_limiter \<Rightarrow> string \<Rightarrow> auth_limiter" where
  "success l ip = l\<lparr>attempts := hdel ip (attempts l)\<rparr>"

section \<open>Calls in time order\<close>

datatype lim_call = CBlocked string instant | CFail string instant | CSuccess string instant

fun call_time :: "lim_call \<Rightarrow> instant" where
  "call_time (CBlocked _ t) = t"
| "call_time (CFail _ t) = t"
| "call_time (CSuccess _ t) = t"

fun lim_step :: "auth_limiter \<Rightarrow> lim_call \<Rightarrow> auth_limiter" where
  "lim_step l (CBlocked ip t) = snd (blocked_at l ip t)"
| "lim_step l (CFail ip t) = fail_at l ip t"
| "lim_step l (CSuccess ip t) = success l ip"

section \<open>The specification of one IP\<close>

text \<open>The number of failures of the current window and when it began.\<close>

fun spec_step :: "duration \<Rightarrow> string \<Rightarrow> (32 word \<times> instant) option \<Rightarrow> lim_call \<Rightarrow> (32 word \<times> instant) option" where
  "spec_step w ip s (CBlocked _ _) = s"
| "spec_step w ip s (CFail ip' t) =
     (if ip' \<noteq> ip then s
      else case s of
        None \<Rightarrow> Some (1, t)
      | Some (c, f) \<Rightarrow> if t - f \<le> w then Some (c + 1, f) else Some (1, t))"
| "spec_step w ip s (CSuccess ip' _) = (if ip' = ip then None else s)"

definition spec_blocked :: "32 word \<Rightarrow> duration \<Rightarrow> (32 word \<times> instant) option \<Rightarrow> instant \<Rightarrow> bool" where
  "spec_blocked m w s t =
     (case s of None \<Rightarrow> False | Some (c, f) \<Rightarrow> t - f \<le> w \<and> m \<le> c)"

text \<open>
  At time \<open>t\<close> the code's table holds what the specification knows of the IP, or has
  forgotten a window that is over.
\<close>

definition lim_abs :: "auth_limiter \<Rightarrow> string \<Rightarrow> (32 word \<times> instant) option \<Rightarrow> instant \<Rightarrow> bool" where
  "lim_abs l ip s t \<longleftrightarrow>
     hwf (attempts l) \<and>
     (map_option (\<lambda>a. (at_count a, at_first a)) (hget (attempts l) ip) = s \<or>
      (hget (attempts l) ip = None \<and> (\<exists>c f. s = Some (c, f) \<and> t - f > lim_window l)))"

lemmas limiter_defs [model_defs] = blocked_at_def fail_at_def success_def sweep_attempts_def

lemma lim_step_config [simp]:
  "lim_max (lim_step l e) = lim_max l" "lim_window (lim_step l e) = lim_window l"
  by (cases e; auto simp: limiter_defs Let_def split: option.splits)+

lemma sweep_window [simp]: "lim_window (sweep_attempts l t) = lim_window l"
  by (simp add: sweep_attempts_def)

lemma lim_abs_later: "lim_abs l ip s t \<Longrightarrow> t \<le> t' \<Longrightarrow> lim_abs l ip s t'"
  by (auto simp: lim_abs_def)

lemma lim_abs_sweep: "lim_abs l ip s t \<Longrightarrow> lim_abs (sweep_attempts l t) ip s t"
  by (auto simp: lim_abs_def sweep_attempts_def hm.wf_retain hashmap_simps split: option.splits)

lemma lim_abs_blocked: "lim_abs l ip s t \<Longrightarrow> lim_abs (snd (blocked_at l ip' t)) ip s t"
  by (auto simp: lim_abs_def blocked_at_def hm.wf_del hashmap_simps split: option.splits)

lemma lim_abs_success:
  "lim_abs l ip s t \<Longrightarrow> lim_abs (success l ip') ip (if ip' = ip then None else s) t"
  by (auto simp: lim_abs_def success_def hm.wf_del hashmap_simps)

lemma lim_abs_fail:
  assumes "lim_abs l0 ip s t"
  shows "lim_abs (fail_at l0 ip' t) ip (spec_step (lim_window l0) ip s (CFail ip' t)) t"
proof -
  define l where "l = sweep_attempts l0 t"
  have abs: "lim_abs l ip s t" and w: "lim_window l = lim_window l0"
    using lim_abs_sweep [OF assms] by (simp_all add: l_def)
  show ?thesis
    using abs
    unfolding fail_at_def l_def [symmetric] Let_def w [symmetric]
    by (auto simp: lim_abs_def hm.wf_put hashmap_simps split: option.splits)
qed

lemma lim_abs_step:
  "lim_abs l ip s t \<Longrightarrow> t \<le> call_time e \<Longrightarrow>
   lim_abs (lim_step l e) ip (spec_step (lim_window l) ip s e) (call_time e)"
  by (cases e) (auto dest: lim_abs_later intro: lim_abs_blocked lim_abs_fail lim_abs_success
      simp del: spec_step.simps(2) split del: if_split)

lemma lim_abs_run:
  "lim_abs l ip s t \<Longrightarrow> sorted (t # map call_time es) \<Longrightarrow> last (t # map call_time es) \<le> now \<Longrightarrow>
   lim_abs (foldl lim_step l es) ip (foldl (spec_step (lim_window l) ip) s es) now"
proof (induction es arbitrary: l s t)
  case Nil
  then show ?case by (auto intro: lim_abs_later)
next
  case (Cons e es)
  from Cons.prems(1,2) have
    "lim_abs (lim_step l e) ip (spec_step (lim_window l) ip s e) (call_time e)"
    by (intro lim_abs_step) auto
  from Cons.IH [OF this] Cons.prems(2,3) show ?case
    by auto
qed

lemma lim_abs_answer:
  "lim_abs l ip s t \<Longrightarrow> fst (blocked_at l ip t) = spec_blocked (lim_max l) (lim_window l) s t"
  by (auto simp: lim_abs_def blocked_at_def spec_blocked_def split: option.splits)

lemma lim_abs_new: "lim_abs (new_limiter m w) ip None 0"
  by (simp add: lim_abs_def new_limiter_def)

lemma run_config [simp]:
  "lim_max (foldl lim_step l es) = lim_max l" "lim_window (foldl lim_step l es) = lim_window l"
  by (induction es arbitrary: l) simp_all

section \<open>Failures inside one window count\<close>

lemma spec_fails:
  "(\<And>t. t \<in> set ts \<Longrightarrow> t - f \<le> w) \<Longrightarrow>
   foldl (spec_step w ip) (Some (c, f)) (map (CFail ip) ts) = Some (c + of_nat (length ts), f)"
  by (induction ts arbitrary: c) (auto simp: algebra_simps)

section \<open>Properties\<close>

text \<open>
  C29. The answer of \<open>blocked\<close> for an IP after any sequence of calls in time order, on any
  IPs, is that of a specification that sees only this IP's calls and never sweeps: the
  throttled sweep, the lazy removal in \<open>blocked\<close> and the other IPs cannot be observed. The window of
  the specification is that of the code: it starts with the first failure and is fixed (the comment
  in the code calls it sliding), and the IP is blocked from the failure that makes them \<open>max\<close> until it ends.
\<close>
theorem limiter_refines_spec:
  assumes "sorted (map call_time es)" and "last (0 # map call_time es) \<le> now"
  shows "fst (blocked_at (foldl lim_step (new_limiter m w) es) ip now) =
         spec_blocked m w (foldl (spec_step w ip) None es) now"
proof -
  have "lim_abs (foldl lim_step (new_limiter m w) es) ip (foldl (spec_step w ip) None es) now"
    using lim_abs_run [OF lim_abs_new [where m = m and w = w and ip = ip], of es now] assms
    by (simp add: new_limiter_def)
  from lim_abs_answer [OF this] show ?thesis
    by (simp add: new_limiter_def)
qed

theorem limiter_refines_spec_witness:
  "sorted (map call_time [CFail ''a'' 5, CFail ''b'' 6, CFail ''a'' 7]) \<and>
   fst (blocked_at (foldl lim_step (new_limiter 2 10) [CFail ''a'' 5, CFail ''b'' 6, CFail ''a'' 7]) ''a'' 9) =
   spec_blocked 2 10 (foldl (spec_step 10 ''a'') None [CFail ''a'' 5, CFail ''b'' 6, CFail ''a'' 7]) 9"
  by (rule conjI [OF _ limiter_refines_spec]) simp_all

text \<open>
  After a first failure of an IP and further failures inside its window, the IP is blocked
  for the rest of that window exactly when the failures reach the maximum, whatever other
  IPs do meanwhile (below 2^32 failures, where the \<open>u32\<close> count would wrap).
\<close>
theorem limiter_blocks_at_max:
  assumes "sorted (map call_time es)" and "last (0 # map call_time es) \<le> now"
    and "filter (\<lambda>e. case e of CFail i _ \<Rightarrow> i = ip | CSuccess i _ \<Rightarrow> i = ip | CBlocked _ _ \<Rightarrow> False) es =
         map (CFail ip) (t0 # ts)"
    and "now - t0 \<le> w" and "length ts < 2 ^ 32 - 1"
  shows "fst (blocked_at (foldl lim_step (new_limiter m w) es) ip now) \<longleftrightarrow> unat m \<le> length (t0 # ts)"
proof -
  let ?own = "\<lambda>e. case e of CFail i _ \<Rightarrow> i = ip | CSuccess i _ \<Rightarrow> i = ip | CBlocked _ _ \<Rightarrow> False"
  have proj: "foldl (spec_step w ip) s es = foldl (spec_step w ip) s (filter ?own es)" for s
    by (induction es arbitrary: s) (auto split: lim_call.splits)
  have late: "t - t0 \<le> w" if "t \<in> set ts" for t
  proof -
    from that assms(3) have "CFail ip t \<in> set es"
      by (metis filter_is_subset imageI list.set_intros(2) list.set_map subsetD)
    then have "t \<in> set (map call_time es)" by force
    with assms(1) have "t \<le> last (map call_time es)"
      by (rule sorted_le_last)
    also have "last (map call_time es) \<le> now"
      using assms(2) \<open>t \<in> set (map call_time es)\<close> by (cases es) auto
    finally show ?thesis using assms(4) by linarith
  qed
  have "foldl (spec_step w ip) None es = Some (1 + of_nat (length ts), t0)"
    using spec_fails [of ts t0 w ip 1] late by (simp add: proj assms(3))
  moreover have "unat (1 + of_nat (length ts) :: 32 word) = length (t0 # ts)"
  proof -
    have "(1 + of_nat (length ts) :: 32 word) = of_nat (length (t0 # ts))" by simp
    then show ?thesis using assms(5) by (simp only: unat_of_nat) simp
  qed
  ultimately show ?thesis
    using limiter_refines_spec [OF assms(1,2)] assms(4)
    by (simp add: spec_blocked_def word_le_nat_alt)
qed

theorem limiter_blocks_at_max_witness:
  "fst (blocked_at (foldl lim_step (new_limiter 2 10) [CFail ''a'' 5, CFail ''b'' 6, CFail ''a'' 7]) ''a'' 9)
   \<longleftrightarrow> unat (2 :: 32 word) \<le> length [5::nat, 7]"
  by (rule limiter_blocks_at_max) simp_all

end
