(* ===== verification/FileStore.thy ===== *)
theory FileStore
  imports Prelude
begin

text \<open>
  The transient attachment store, \<open>backend/src/filestore.rs\<close>: entries by upload id with
  an expiry, a running byte total checked against a budget, \<open>touch\<close> that extends an
  expiry up to a hard cap, and the janitor's \<open>sweep\<close>. The disk is the contents by
  path; deleting swept files is taken to succeed. The upload id (\<open>ulid(now)\<close>, 80 random bits) is an argument of the step;
  the invariant asks that it is fresh.
\<close>

section \<open>The code\<close>

record file_entry =
  fe_upload_id :: string
  fe_room_id :: string
  fe_name :: string
  fe_mime :: string
  fe_size :: nat
  fe_temp_path :: string
  fe_created_at :: instant
  fe_expires_at :: instant

text \<open>\<open>max_total_bytes = 0\<close> means unbounded.\<close>

record fs_config =
  fc_ttl :: duration
  fc_ttl_hard_cap :: duration
  fc_max_upload_bytes :: nat
  fc_max_total_bytes :: nat

record file_store =
  fs_cfg :: fs_config
  fs_entries :: "(string, file_entry) hashmap"
  fs_total :: nat
  fs_disk :: "string \<rightharpoonup> string"

datatype store_error = BudgetExceeded

definition store_at ::
  "file_store \<Rightarrow> string \<Rightarrow> string \<Rightarrow> string \<Rightarrow> string \<Rightarrow> nat \<Rightarrow> string \<Rightarrow> instant \<Rightarrow>
   (store_error + file_entry) \<times> file_store" where
  "store_at st uid room name mime sz path now =
     (if fc_max_total_bytes (fs_cfg st) > 0 \<and> fs_total st + sz > fc_max_total_bytes (fs_cfg st)
      then (Inl BudgetExceeded, st)
      else let e = \<lparr>fe_upload_id = uid, fe_room_id = room, fe_name = name, fe_mime = mime, fe_size = sz,
                    fe_temp_path = path, fe_created_at = now, fe_expires_at = now + fc_ttl (fs_cfg st)\<rparr>
           in (Inr e, st\<lparr>fs_entries := hput uid e (fs_entries st), fs_total := fs_total st + sz\<rparr>))"

definition get_at :: "file_store \<Rightarrow> string \<Rightarrow> instant \<Rightarrow> file_entry option" where
  "get_at st uid now =
     (case hget (fs_entries st) uid of
        None \<Rightarrow> None
      | Some e \<Rightarrow> if now \<le> fe_expires_at e then Some e else None)"

definition touch_at :: "file_store \<Rightarrow> string \<Rightarrow> instant \<Rightarrow> file_store" where
  "touch_at st uid now =
     (case hget (fs_entries st) uid of
        None \<Rightarrow> st
      | Some e \<Rightarrow>
          if now > fe_expires_at e then st
          else let extended = min (now + fc_ttl (fs_cfg st)) (fe_created_at e + fc_ttl_hard_cap (fs_cfg st))
               in if extended > fe_expires_at e
                  then st\<lparr>fs_entries := hput uid (e\<lparr>fe_expires_at := extended\<rparr>) (fs_entries st)\<rparr>
                  else st)"

definition sweep :: "file_store \<Rightarrow> instant \<Rightarrow> file_store" where
  "sweep st now =
     (let stale = filter (\<lambda>e. now > fe_expires_at e) (hvals (fs_entries st));
          freed = sum_list (map fe_size stale)
      in st\<lparr>fs_entries := hretain (\<lambda>_ e. \<not> now > fe_expires_at e) (fs_entries st),
            fs_total := fs_total st - freed,
            fs_disk := fs_disk st |` (- set (map fe_temp_path stale))\<rparr>)"

datatype fs_call =
    FStore string string string string nat string instant
  | FTouch string instant
  | FSweep instant
  | FWriteTemp string string

fun fs_step :: "file_store \<Rightarrow> fs_call \<Rightarrow> file_store" where
  "fs_step st (FStore uid room name mime sz path now) = snd (store_at st uid room name mime sz path now)"
| "fs_step st (FTouch uid now) = touch_at st uid now"
| "fs_step st (FSweep now) = sweep st now"
| "fs_step st (FWriteTemp path data) = st\<lparr>fs_disk := (fs_disk st)(path \<mapsto> data)\<rparr>"

definition fs_init :: "fs_config \<Rightarrow> file_store" where
  "fs_init cfg = \<lparr>fs_cfg = cfg, fs_entries = [], fs_total = 0, fs_disk = Map.empty\<rparr>"

section \<open>The invariant\<close>

text \<open>
  The total is the sum of the sizes, within the budget; every entry is filed under its own
  id, and lives at most \<open>max ttl ttl_hard_cap\<close> from its creation.
\<close>

definition entries_total :: "(string, file_entry) hashmap \<Rightarrow> nat" where
  "entries_total m = sum_list (map fe_size (hvals m))"

definition fs_inv :: "file_store \<Rightarrow> bool" where
  "fs_inv st \<longleftrightarrow>
     hwf (fs_entries st) \<and>
     fs_total st = entries_total (fs_entries st) \<and>
     (fc_max_total_bytes (fs_cfg st) > 0 \<longrightarrow> fs_total st \<le> fc_max_total_bytes (fs_cfg st)) \<and>
     (\<forall>uid e. hget (fs_entries st) uid = Some e \<longrightarrow>
        fe_upload_id e = uid \<and>
        fe_expires_at e \<le> fe_created_at e + max (fc_ttl (fs_cfg st)) (fc_ttl_hard_cap (fs_cfg st)))"

fun fs_enabled :: "file_store \<Rightarrow> fs_call \<Rightarrow> bool" where
  "fs_enabled st (FStore uid _ _ _ _ _ _) = (hget (fs_entries st) uid = None)"
| "fs_enabled st _ = True"

lemmas filestore_defs [model_defs] = store_at_def get_at_def touch_at_def sweep_def

lemma hvals_put_fresh: "hget m k = None \<Longrightarrow> hvals (hput k v m) = hvals m @ [v]"
  by (induction m) (auto simp: hvals_def hput_def hget_def split: if_splits)

lemma total_put_fresh: "hget m k = None \<Longrightarrow> entries_total (hput k e m) = entries_total m + fe_size e"
  by (simp add: entries_total_def hvals_put_fresh)

lemma total_put_same_size:
  "hget m k = Some e \<Longrightarrow> fe_size e' = fe_size e \<Longrightarrow> entries_total (hput k e' m) = entries_total m"
  by (induction m) (auto simp: entries_total_def hvals_def hput_def hget_def split: if_splits)

lemma total_retain:
  "entries_total (hretain (\<lambda>_ e. \<not> p e) m) = entries_total m - sum_list (map fe_size (filter p (hvals m)))"
  "sum_list (map fe_size (filter p (hvals m))) \<le> entries_total m"
  by (induction m) (auto simp: entries_total_def hvals_def hretain_def)

lemma fs_inv_store:
  "fs_inv st \<Longrightarrow> hget (fs_entries st) uid = None \<Longrightarrow> fs_inv (snd (store_at st uid room name mime sz path now))"
  by (auto simp: fs_inv_def store_at_def Let_def hm.wf_put total_put_fresh hashmap_simps split: if_splits)

lemma fs_inv_touch: "fs_inv st \<Longrightarrow> fs_inv (touch_at st uid now)"
  by (auto simp: fs_inv_def touch_at_def Let_def hm.wf_put total_put_same_size hashmap_simps
      split: option.splits if_splits)

lemma fs_inv_sweep: "fs_inv st \<Longrightarrow> fs_inv (sweep st now)"
  by (auto simp: fs_inv_def sweep_def Let_def hm.wf_retain total_retain hashmap_simps
      split: option.splits if_splits)

lemma fs_inv_write: "fs_inv st \<Longrightarrow> fs_inv (st\<lparr>fs_disk := d\<rparr>)"
  by (auto simp: fs_inv_def)

lemmas fs_inv_ops [inv_intros] = fs_inv_store fs_inv_touch fs_inv_sweep

lemma fs_inv_step: "fs_inv st \<Longrightarrow> fs_enabled st e \<Longrightarrow> fs_inv (fs_step st e)"
  by (cases e) (auto intro: inv_intros fs_inv_write)

interpretation fs: stepper fs_step fs_enabled fs_inv
  by unfold_locales (rule fs_inv_step)

lemma fs_inv_init: "fs_inv (fs_init cfg)"
  by (simp add: fs_inv_def fs_init_def entries_total_def hvals_def)

lemma fs_step_cfg [simp]: "fs_cfg (fs_step st e) = fs_cfg st"
  by (cases e) (auto simp: filestore_defs Let_def split: option.splits)

lemma fs_run_cfg [simp]: "fs_cfg (foldl fs_step st es) = fs_cfg st"
  by (induction es arbitrary: st) simp_all

section \<open>What a download and the janitor see\<close>

text \<open>Sweeping is invisible to a later \<open>get\<close>: it removes what already reads as absent.\<close>

lemma get_sweep: "fs_inv st \<Longrightarrow> now \<le> later \<Longrightarrow> get_at (sweep st now) uid later = get_at st uid later"
  by (auto simp: get_at_def sweep_def Let_def hashmap_simps fs_inv_def split: option.splits)

lemma sweep_drops:
  "fs_inv st \<Longrightarrow> hget (fs_entries (sweep st now)) uid = None \<longleftrightarrow>
     (\<forall>e. hget (fs_entries st) uid = Some e \<longrightarrow> fe_expires_at e < now)"
  by (auto simp: fs_inv_def sweep_def Let_def hashmap_simps split: option.splits)

lemma sweep_deletes:
  "e \<in> set (hvals (fs_entries st)) \<Longrightarrow> fe_expires_at e < now \<Longrightarrow> fs_disk (sweep st now) (fe_temp_path e) = None"
  by (simp add: sweep_def Let_def)

lemma get_touch_mono:
  "get_at st uid now = Some e \<Longrightarrow> \<exists>e'. get_at (touch_at st uid' t) uid now = Some e' \<and> fe_expires_at e \<le> fe_expires_at e'"
  by (auto simp: get_at_def touch_at_def Let_def hashmap_simps split: option.splits if_splits)

section \<open>Properties\<close>

text \<open>
  C30. In every run from the empty store with fresh upload ids, the byte total is exactly the
  sum of the live entries' sizes, and it is within the configured budget when one is set:
  uploads are refused rather than admitted over the budget, and sweeping frees exactly what
  it removes.
\<close>
theorem filestore_budget:
  assumes "valid_run fs_step fs_enabled (fs_init cfg) es"
  shows "fs_total (foldl fs_step (fs_init cfg) es) = entries_total (fs_entries (foldl fs_step (fs_init cfg) es)) \<and>
         (fc_max_total_bytes cfg = 0 \<or> fs_total (foldl fs_step (fs_init cfg) es) \<le> fc_max_total_bytes cfg)"
  using fs.inv_run [OF fs_inv_init assms] by (auto simp: fs_inv_def fs_init_def)

theorem filestore_budget_witness:
  "fs_total (foldl fs_step (fs_init \<lparr>fc_ttl = 5, fc_ttl_hard_cap = 9, fc_max_upload_bytes = 7, fc_max_total_bytes = 10\<rparr>)
     [FStore ''u1'' ''r'' ''a'' ''m'' 6 ''p1'' 0, FStore ''u2'' ''r'' ''b'' ''m'' 6 ''p2'' 1, FTouch ''u1'' 4, FSweep 20,
      FStore ''u2'' ''r'' ''b'' ''m'' 4 ''p2'' 21]) \<le> 10"
proof -
  let ?cfg = "\<lparr>fc_ttl = 5, fc_ttl_hard_cap = 9, fc_max_upload_bytes = 7, fc_max_total_bytes = 10\<rparr>"
  let ?es = "[FStore ''u1'' ''r'' ''a'' ''m'' 6 ''p1'' 0, FStore ''u2'' ''r'' ''b'' ''m'' 6 ''p2'' 1, FTouch ''u1'' 4,
      FSweep 20, FStore ''u2'' ''r'' ''b'' ''m'' 4 ''p2'' 21]"
  have "valid_run fs_step fs_enabled (fs_init ?cfg) ?es"
    by (simp add: fs_init_def filestore_defs hashmap_eval Let_def)
  from filestore_budget [OF this] show ?thesis by simp
qed

text \<open>
  However often an upload is downloaded (which extends its expiry), nobody reads it later
  than \<open>max ttl ttl_hard_cap\<close> after it was created, and a read returns the entry filed under
  the id asked for.
\<close>
theorem filestore_lifetime:
  assumes "valid_run fs_step fs_enabled (fs_init cfg) es"
    and "get_at (foldl fs_step (fs_init cfg) es) uid now = Some e"
  shows "fe_upload_id e = uid \<and> now \<le> fe_created_at e + max (fc_ttl cfg) (fc_ttl_hard_cap cfg)"
proof -
  let ?st = "foldl fs_step (fs_init cfg) es"
  have "fs_inv ?st" by (rule fs.inv_run [OF fs_inv_init assms(1)])
  moreover from assms(2) have "hget (fs_entries ?st) uid = Some e" and "now \<le> fe_expires_at e"
    by (auto simp: get_at_def split: option.splits if_splits)
  ultimately show ?thesis
    by (fastforce simp: fs_inv_def fs_init_def)
qed

theorem filestore_lifetime_witness:
  "\<exists>e. get_at (foldl fs_step (fs_init \<lparr>fc_ttl = 5, fc_ttl_hard_cap = 9, fc_max_upload_bytes = 7, fc_max_total_bytes = 0\<rparr>)
     [FStore ''u1'' ''r'' ''a'' ''m'' 6 ''p1'' 0, FTouch ''u1'' 4]) ''u1'' 8 = Some e \<and>
     (8::nat) \<le> fe_created_at e + max 5 9"
proof -
  let ?cfg = "\<lparr>fc_ttl = 5, fc_ttl_hard_cap = 9, fc_max_upload_bytes = 7, fc_max_total_bytes = 0\<rparr>"
  let ?es = "[FStore ''u1'' ''r'' ''a'' ''m'' 6 ''p1'' 0, FTouch ''u1'' 4]"
  have "valid_run fs_step fs_enabled (fs_init ?cfg) ?es"
    by (simp add: fs_init_def filestore_defs hashmap_eval Let_def)
  moreover obtain e where "get_at (foldl fs_step (fs_init ?cfg) ?es) ''u1'' 8 = Some e"
    by (simp add: fs_init_def filestore_defs hashmap_eval Let_def)
  ultimately show ?thesis
    using filestore_lifetime [of ?cfg ?es "''u1''" 8 e] by auto
qed

text \<open>
  A sweep removes exactly the entries past their expiry: every later read answers as it
  would have without the sweep, the budget is reduced by the sizes removed, and the temp
  files of the removed entries are deleted.
\<close>
theorem sweep_reclaims_only_expired:
  assumes "valid_run fs_step fs_enabled (fs_init cfg) es"
    and "now \<le> later"
  defines "st \<equiv> foldl fs_step (fs_init cfg) es"
  shows "get_at (sweep st now) uid later = get_at st uid later \<and>
         (hget (fs_entries (sweep st now)) uid = None \<longleftrightarrow>
            (\<forall>e. hget (fs_entries st) uid = Some e \<longrightarrow> fe_expires_at e < now)) \<and>
         fs_total (sweep st now) = entries_total (fs_entries (sweep st now)) \<and>
         (\<forall>e \<in> set (hvals (fs_entries st)). fe_expires_at e < now \<longrightarrow> fs_disk (sweep st now) (fe_temp_path e) = None)"
proof -
  have inv: "fs_inv st" unfolding st_def by (rule fs.inv_run [OF fs_inv_init assms(1)])
  have "fs_inv (sweep st now)" by (rule fs_inv_sweep [OF inv])
  then have "fs_total (sweep st now) = entries_total (fs_entries (sweep st now))"
    by (simp add: fs_inv_def)
  then show ?thesis
    using get_sweep [OF inv assms(2)] sweep_drops [OF inv] sweep_deletes by blast
qed

theorem sweep_reclaims_only_expired_witness:
  "get_at (sweep (foldl fs_step (fs_init \<lparr>fc_ttl = 5, fc_ttl_hard_cap = 9, fc_max_upload_bytes = 7, fc_max_total_bytes = 0\<rparr>)
     [FStore ''u1'' ''r'' ''a'' ''m'' 6 ''p1'' 0]) 4) ''u1'' 5 =
   get_at (foldl fs_step (fs_init \<lparr>fc_ttl = 5, fc_ttl_hard_cap = 9, fc_max_upload_bytes = 7, fc_max_total_bytes = 0\<rparr>)
     [FStore ''u1'' ''r'' ''a'' ''m'' 6 ''p1'' 0]) ''u1'' 5"
  by (rule sweep_reclaims_only_expired [THEN conjunct1]) (simp_all add: fs_init_def)

end
