(* ===== verification/BitReader.thy ===== *)
theory BitReader
  imports Prelude
begin

unbundle bit_operations_syntax

text \<open>
  The bit reader of the AV1 dependency-descriptor parser, \<open>backend/src/sfu/dd.rs\<close>
  (\<open>BitReader\<close>). A read takes bits from several bytes, most significant bit first; the
  specification reads the buffer as one list of bits. A \<open>u32\<close> result is a natural number
  here: the reads of the parser are of at most 32 bits, and \<open>read_bound\<close> shows that the
  value then fits, so the shifts of the code never lose a bit.
\<close>

section \<open>The code\<close>

datatype dd_error = Eof | NoStructure | InvalidTemplate | TooManyTemplates

record bit_reader =
  br_buf :: "8 word list"
  br_pos :: nat

definition remaining :: "bit_reader \<Rightarrow> nat" where
  "remaining br = length (br_buf br) * 8 - br_pos br"

text \<open>The loop of \<open>read\<close>: position, bits left to read, value so far.\<close>

function read_loop :: "8 word list \<Rightarrow> nat \<Rightarrow> nat \<Rightarrow> nat \<Rightarrow> nat \<times> nat" where
  "read_loop buf pos n v =
     (if n = 0 then (v, pos)
      else let off = pos mod 8;
               left = 8 - off;
               tk = min left n;
               chunk = unat (drop_bit (left - tk) (buf ! (pos div 8)) AND mask tk)
           in read_loop buf (pos + tk) (n - tk) (push_bit tk v OR chunk))"
  by pat_completeness auto
termination
  by (relation "measure (\<lambda>(buf, pos, n, v). n)") auto

declare read_loop.simps [simp del]

definition read :: "bit_reader \<Rightarrow> nat \<Rightarrow> dd_error + nat \<times> bit_reader" where
  "read br n =
     (if n = 0 then Inr (0, br)
      else if remaining br < n then Inl Eof
      else case read_loop (br_buf br) (br_pos br) n 0 of (v, p) \<Rightarrow> Inr (v, br\<lparr>br_pos := p\<rparr>))"

definition read_bool :: "bit_reader \<Rightarrow> dd_error + bool \<times> bit_reader" where
  "read_bool br = (case read br 1 of Inl e \<Rightarrow> Inl e | Inr (v, br') \<Rightarrow> Inr (v \<noteq> 0, br'))"

text \<open>\<open>32 - n.leading_zeros()\<close>: the position of the highest set bit.\<close>

fun bit_width :: "nat \<Rightarrow> nat" where
  "bit_width n = (if n = 0 then 0 else Suc (bit_width (n div 2)))"

declare bit_width.simps [simp del]

definition ns :: "bit_reader \<Rightarrow> nat \<Rightarrow> dd_error + nat \<times> bit_reader" where
  "ns br n =
     (if n \<le> 1 then Inr (0, br)
      else let width = bit_width n; k = 2 ^ width - n
           in case read br (width - 1) of
                Inl e \<Rightarrow> Inl e
              | Inr (v, br1) \<Rightarrow>
                  if v < k then Inr (v, br1)
                  else case read br1 1 of
                         Inl e \<Rightarrow> Inl e
                       | Inr (extra, br2) \<Rightarrow> Inr (push_bit 1 v + extra - k, br2))"

section \<open>The specification: one list of bits\<close>

definition byte_bits :: "8 word \<Rightarrow> bool list" where
  "byte_bits b = map (bit b) (rev [0..<8])"

definition bits_of :: "8 word list \<Rightarrow> bool list" where
  "bits_of buf = concat (map byte_bits buf)"

definition bits_val :: "bool list \<Rightarrow> nat" where
  "bits_val bs = horner_sum of_bool 2 (rev bs)"

lemma length_byte_bits [simp]: "length (byte_bits b) = 8"
  by (simp add: byte_bits_def)

lemma length_bits_of [simp]: "length (bits_of buf) = 8 * length buf"
  by (induction buf) (simp_all add: bits_of_def)

lemma bits_val_Nil [simp]: "bits_val [] = 0"
  by (simp add: bits_val_def)

lemma bits_val_append: "bits_val (xs @ ys) = bits_val xs * 2 ^ length ys + bits_val ys"
  by (simp add: bits_val_def horner_sum_append)

lemma bits_val_single [simp]: "bits_val [b] = of_bool b"
  by (simp add: bits_val_def)

lemma bits_val_bound: "bits_val bs < 2 ^ length bs"
proof (induction bs rule: rev_induct)
  case Nil
  then show ?case by simp
next
  case (snoc b bs)
  then show ?case by (simp add: bits_val_append)
qed

lemma take_drop_bits_of:
  "pos div 8 < length buf \<Longrightarrow> pos mod 8 + tk \<le> 8 \<Longrightarrow>
   take tk (drop pos (bits_of buf)) = take tk (drop (pos mod 8) (byte_bits (buf ! (pos div 8))))"
proof (induction buf arbitrary: pos)
  case Nil
  then show ?case by simp
next
  case (Cons b buf)
  show ?case
  proof (cases "pos < 8")
    case True
    with Cons.prems show ?thesis by (simp add: bits_of_def)
  next
    case False
    then have "pos div 8 = Suc ((pos - 8) div 8)" and "(pos - 8) mod 8 = pos mod 8"
      by (auto simp: le_div_geq le_mod_geq not_less)
    with Cons.IH [of "pos - 8"] Cons.prems False show ?thesis
      by (simp add: bits_of_def)
  qed
qed

lemma chunk_val:
  assumes "off + tk \<le> 8"
  shows "bits_val (take tk (drop off (byte_bits b))) = unat (drop_bit (8 - off - tk) b AND mask tk)"
proof -
  have "take tk (drop off (byte_bits b)) = map (bit b) (rev [8 - off - tk..<8 - off])"
    using assms by (simp add: byte_bits_def take_map drop_map drop_rev take_rev)
  also have "rev \<dots> = map (bit (drop_bit (8 - off - tk) b)) [0..<tk]"
    using assms by (auto intro!: nth_equalityI simp: bit_simps rev_map add.commute)
  finally have eq: "rev (take tk (drop off (byte_bits b))) = map (bit (drop_bit (8 - off - tk) b)) [0..<tk]"
    by simp
  have bits: "map (bit w) [0..<tk] = map (bit (unat w)) [0..<tk]" for w :: "8 word"
    using assms by (auto simp: bit_unsigned_iff)
  have "bits_val (take tk (drop off (byte_bits b))) = take_bit tk (unat (drop_bit (8 - off - tk) b))"
    unfolding bits_val_def eq bits horner_sum_bit_eq_take_bit ..
  also have "\<dots> = unat (take_bit tk (drop_bit (8 - off - tk) b))"
    by (simp add: unsigned_take_bit_eq min_def)
  finally show ?thesis by (simp add: take_bit_eq_mask)
qed

lemma push_or_add: "c < 2 ^ k \<Longrightarrow> push_bit k v OR c = v * 2 ^ k + (c::nat)"
proof -
  assume "c < 2 ^ k"
  then have "c = take_bit k c" by (simp add: take_bit_nat_eq_self)
  then have c: "bit c i \<Longrightarrow> i < k" for i by (metis bit_take_bit_iff)
  have "push_bit k v AND c = 0"
    by (rule bit_eqI) (auto simp: bit_and_iff bit_push_bit_iff dest: c)
  from disjunctive_add_eq_or [OF this] show ?thesis
    by (simp add: push_bit_eq_mult)
qed

lemma read_loop_spec:
  "pos + n \<le> 8 * length buf \<Longrightarrow>
   read_loop buf pos n v = (v * 2 ^ n + bits_val (take n (drop pos (bits_of buf))), pos + n)"
proof (induction buf pos n v rule: read_loop.induct)
  case (1 buf pos n v)
  show ?case
  proof (cases "n = 0")
    case True
    then show ?thesis by (simp add: read_loop.simps)
  next
    case False
    define tk where "tk = min (8 - pos mod 8) n"
    define chunk where "chunk = unat (drop_bit (8 - pos mod 8 - tk) (buf ! (pos div 8)) AND mask tk)"
    have tk: "tk \<le> n" "pos mod 8 + tk \<le> 8" by (auto simp: tk_def)
    have idx: "pos div 8 < length buf" using "1.prems" False by linarith
    have chunk: "chunk = bits_val (take tk (drop pos (bits_of buf)))"
      using take_drop_bits_of [OF idx tk(2)] chunk_val [OF tk(2), of "buf ! (pos div 8)"]
      by (simp add: chunk_def)
    have "chunk < 2 ^ tk"
      unfolding chunk using bits_val_bound [of "take tk (drop pos (bits_of buf))"]
      by (rule order_less_le_trans) (simp add: power_increasing)
    note or = push_or_add [OF this, of v]
    have split: "take n (drop pos (bits_of buf)) =
      take tk (drop pos (bits_of buf)) @ take (n - tk) (drop (pos + tk) (bits_of buf))"
      using tk(1) by (metis add.commute drop_drop le_add_diff_inverse take_add)
    have len: "length (take (n - tk) (drop (pos + tk) (bits_of buf))) = n - tk"
      using "1.prems" tk(1) by simp
    have "read_loop buf pos n v = read_loop buf (pos + tk) (n - tk) (push_bit tk v OR chunk)"
      using False unfolding chunk_def tk_def by (subst read_loop.simps) (simp only: Let_def if_False)
    also have "\<dots> = read_loop buf (pos + tk) (n - tk) (v * 2 ^ tk + chunk)"
      by (simp only: or)
    also have "\<dots> = ((v * 2 ^ tk + chunk) * 2 ^ (n - tk) +
        bits_val (take (n - tk) (drop (pos + tk) (bits_of buf))), pos + tk + (n - tk))"
      using "1.IH" [OF False refl refl tk_def chunk_def] "1.prems" tk(1) or by simp
    moreover have "bits_val (take n (drop pos (bits_of buf))) =
        chunk * 2 ^ (n - tk) + bits_val (take (n - tk) (drop (pos + tk) (bits_of buf)))"
      by (simp only: split bits_val_append len chunk)
    ultimately show ?thesis
      using tk(1) by (simp add: algebra_simps flip: power_add)
  qed
qed

text \<open>The value of a read in terms of the list of bits; everything else uses only this.\<close>

lemma read_spec:
  "read br n =
     (if n = 0 then Inr (0, br)
      else if remaining br < n then Inl Eof
      else Inr (bits_val (take n (drop (br_pos br) (bits_of (br_buf br)))), br\<lparr>br_pos := br_pos br + n\<rparr>))"
  by (auto simp: read_def remaining_def read_loop_spec)

lemma read_bound: "read br n = Inr (v, br') \<Longrightarrow> v < 2 ^ n"
  using bits_val_bound [of "take n (drop (br_pos br) (bits_of (br_buf br)))"]
  by (auto simp: read_spec split: if_splits elim: order_less_le_trans)

lemma read_adv:
  "read br n = Inr (v, br') \<Longrightarrow>
   br_buf br' = br_buf br \<and> br_pos br' = br_pos br + n \<and> remaining br' + n = remaining br"
  by (auto simp: read_spec remaining_def split: if_splits)

lemma read_adv_less: "read br n = Inr (v, br') \<Longrightarrow> 0 < n \<Longrightarrow> remaining br' < remaining br"
  by (auto dest: read_adv)

lemma read_bool_adv:
  "read_bool br = Inr (b, br') \<Longrightarrow> br_buf br' = br_buf br \<and> remaining br' < remaining br"
  by (auto simp: read_bool_def split: sum.splits dest: read_adv)

lemma read_err: "read br n = Inl e \<Longrightarrow> e = Eof"
  by (auto simp: read_spec split: if_splits)

lemma bit_width_bounds: "0 < n \<Longrightarrow> 2 ^ (bit_width n - 1) \<le> n \<and> n < 2 ^ bit_width n \<and> 0 < bit_width n"
proof (induction n rule: bit_width.induct)
  case (1 n)
  show ?case
  proof (cases "n = 1")
    case True
    then show ?thesis by (simp add: bit_width.simps)
  next
    case False
    with "1.prems" have pos: "0 < n div 2" by linarith
    have w: "bit_width n = Suc (bit_width (n div 2))" using "1.prems" by (subst bit_width.simps) simp
    from "1.IH" [OF _ pos] "1.prems" have ih:
      "2 ^ (bit_width (n div 2) - 1) \<le> n div 2" "n div 2 < 2 ^ bit_width (n div 2)" "0 < bit_width (n div 2)"
      by auto
    then have "2 * 2 ^ (bit_width (n div 2) - 1) \<le> n" by linarith
    then have "2 ^ bit_width (n div 2) \<le> n"
      using ih(3) by (cases "bit_width (n div 2)") auto
    moreover have "n < 2 * 2 ^ bit_width (n div 2)" using ih(2) by linarith
    ultimately show ?thesis by (simp add: w)
  qed
qed

lemma ns_bound: "ns br n = Inr (v, br') \<Longrightarrow> 0 < n \<Longrightarrow> v < n"
proof -
  assume ret: "ns br n = Inr (v, br')" and n: "0 < n"
  show "v < n"
  proof (cases "n \<le> 1")
    case True
    with ret n show ?thesis by (simp add: ns_def)
  next
    case False
    let ?w = "bit_width n"
    let ?k = "2 ^ ?w - n"
    have w: "2 ^ (?w - 1) \<le> n" "n < 2 ^ ?w" "0 < ?w" using bit_width_bounds [OF n] by auto
    have dbl: "2 ^ ?w = 2 * (2::nat) ^ (?w - 1)" using w(3) by (cases ?w) auto
    from False ret obtain u br1 where u: "read br (?w - 1) = Inr (u, br1)"
      by (auto simp: ns_def Let_def split: sum.splits)
    then have ub: "u < 2 ^ (?w - 1)" by (rule read_bound)
    show ?thesis
    proof (cases "u < ?k")
      case True
      with False ret u have "v = u" by (simp add: ns_def Let_def)
      with True w dbl show ?thesis by linarith
    next
      case small: False
      with False ret u obtain x br2 where x: "read br1 1 = Inr (x, br2)" and v: "v = 2 * u + x - ?k"
        by (auto simp: ns_def Let_def push_bit_eq_mult split: sum.splits)
      from x have "x < 2 ^ 1" by (rule read_bound)
      then have "x \<le> 1" by simp
      with v ub small w dbl show ?thesis by linarith
    qed
  qed
qed

lemma ns_adv:
  "ns br n = Inr (v, br') \<Longrightarrow> br_buf br' = br_buf br \<and> remaining br' \<le> remaining br"
  by (auto simp: ns_def Let_def split: if_splits sum.splits dest!: read_adv)

section \<open>The non-symmetric code of AV1\<close>

definition to_bits :: "nat \<Rightarrow> nat \<Rightarrow> bool list" where
  "to_bits w x = map (bit x) (rev [0..<w])"

definition ns_code :: "nat \<Rightarrow> nat \<Rightarrow> bool list" where
  "ns_code n v =
     (if n \<le> 1 then []
      else let w = bit_width n; k = 2 ^ w - n
           in if v < k then to_bits (w - 1) v else to_bits w (v + k))"

lemma length_to_bits [simp]: "length (to_bits w x) = w"
  by (simp add: to_bits_def)

lemma bits_val_to_bits: "x < 2 ^ w \<Longrightarrow> bits_val (to_bits w x) = x"
  unfolding bits_val_def to_bits_def
  by (simp add: rev_map horner_sum_bit_eq_take_bit take_bit_nat_eq_self)

lemma to_bits_Suc: "to_bits (Suc w) x = to_bits w (x div 2) @ [odd x]"
proof -
  have "map (bit x) (rev [0..<Suc w]) = map (\<lambda>i. bit x (Suc i)) (rev [0..<w]) @ [bit x 0]"
    by (simp add: upt_conv_Cons map_Suc_upt [symmetric] rev_map del: upt_Suc)
  then show ?thesis
    by (simp add: to_bits_def bit_Suc bit_0)
qed

lemma read_takes:
  assumes "take (length bs) (drop (br_pos br) (bits_of (br_buf br))) = bs"
  shows "read br (length bs) = Inr (bits_val bs, br\<lparr>br_pos := br_pos br + length bs\<rparr>)"
proof (cases "bs = []")
  case True
  then show ?thesis by (simp add: read_spec)
next
  case False
  from assms have "length bs \<le> remaining br"
    by (metis length_bits_of length_drop length_take min.cobounded1 min.commute mult.commute remaining_def)
  with False assms show ?thesis by (simp add: read_spec)
qed

lemma take_split:
  assumes "take (w + m) (drop p xs) = as @ bs" and "length as = w" and "length bs = m"
  shows "take w (drop p xs) = as" and "take m (drop (p + w) xs) = bs"
proof -
  have "take w (take (w + m) (drop p xs)) = as" "drop w (take (w + m) (drop p xs)) = bs"
    unfolding assms(1) using assms(2) by simp_all
  then show "take w (drop p xs) = as" "take m (drop (p + w) xs) = bs"
    by (simp_all add: drop_take add.commute min_def)
qed

section \<open>Properties\<close>

text \<open>
  A read of \<open>n\<close> bits fails exactly when fewer than \<open>n\<close> are left, and otherwise returns the
  number written by the next \<open>n\<close> bits of the buffer, most significant first and across byte
  boundaries, and advances by \<open>n\<close>.
\<close>
theorem read_is_msb_first:
  "read br n =
     (if n = 0 then Inr (0, br)
      else if length (br_buf br) * 8 - br_pos br < n then Inl Eof
      else Inr (bits_val (take n (drop (br_pos br) (bits_of (br_buf br)))), br\<lparr>br_pos := br_pos br + n\<rparr>))"
  by (simp add: read_spec remaining_def)

text \<open>
  \<open>ns(n)\<close> decodes every value below \<open>n\<close> from its AV1 non-symmetric code word (\<open>w - 1\<close> bits for
  the \<open>2^w - n\<close> small values, \<open>w\<close> bits for the others) and consumes exactly that word.
\<close>
theorem ns_roundtrip:
  assumes "v < n"
    and "take (length (ns_code n v)) (drop (br_pos br) (bits_of (br_buf br))) = ns_code n v"
  shows "ns br n = Inr (v, br\<lparr>br_pos := br_pos br + length (ns_code n v)\<rparr>)"
proof (cases "n \<le> 1")
  case True
  with assms show ?thesis by (simp add: ns_def ns_code_def)
next
  case False
  define w where "w = bit_width n - 1"
  define k where "k = 2 ^ Suc w - n"
  have w: "bit_width n = Suc w" "2 ^ w \<le> n" "n < 2 ^ Suc w"
    using bit_width_bounds [of n] False by (auto simp: w_def)
  show ?thesis
  proof (cases "v < k")
    case True
    then have "v < 2 ^ w" using w by (simp add: k_def)
    moreover have code: "ns_code n v = to_bits w v"
      using False True by (simp add: ns_code_def Let_def w(1) k_def)
    ultimately show ?thesis
      using read_takes [OF assms(2)] False True
      by (simp add: ns_def Let_def w(1) k_def bits_val_to_bits)
  next
    case small: False
    define u where "u = (v + k) div 2"
    have "ns_code n v = to_bits (Suc w) (v + k)"
      using False small by (simp only: ns_code_def Let_def w(1) k_def if_False)
    then have code: "ns_code n v = to_bits w u @ [odd (v + k)]"
      by (simp only: to_bits_Suc u_def)
    have "v + k < 2 ^ Suc w" using assms(1) w by (simp add: k_def)
    then have u: "u < 2 ^ w" by (simp add: u_def)
    have ge: "\<not> u < k" using small by (simp add: u_def)
    let ?br1 = "br\<lparr>br_pos := br_pos br + w\<rparr>"
    from assms(2) have ab: "take (w + 1) (drop (br_pos br) (bits_of (br_buf br))) = to_bits w u @ [odd (v + k)]"
      unfolding code by simp
    then have a: "take w (drop (br_pos br) (bits_of (br_buf br))) = to_bits w u"
      and b: "take 1 (drop (br_pos ?br1) (bits_of (br_buf ?br1))) = [odd (v + k)]"
      using take_split [OF ab] by simp_all
    have r1: "read br w = Inr (u, ?br1)"
      using read_takes [of "to_bits w u" br] a u by (simp add: bits_val_to_bits)
    have r2: "read ?br1 1 = Inr (of_bool (odd (v + k)), ?br1\<lparr>br_pos := br_pos ?br1 + 1\<rparr>)"
      using read_takes [of "[odd (v + k)]" ?br1] b by simp
    have "push_bit 1 u + of_bool (odd (v + k)) = v + k"
      by (simp add: u_def push_bit_eq_mult) presburger
    moreover have "2 * 2 ^ w - n = k" by (simp add: k_def)
    ultimately show ?thesis
      using False ge r1 r2 by (simp add: ns_def Let_def w(1) code)
  qed
qed

theorem ns_roundtrip_witness:
  "ns \<lparr>br_buf = [188], br_pos = 2\<rparr> 5 = Inr (4, \<lparr>br_buf = [188], br_pos = 5\<rparr>)"
proof -
  have "bit_width 5 = 3" by (simp add: bit_width.simps)
  then have code: "ns_code 5 4 = [True, True, True]"
    by (simp add: ns_code_def Let_def to_bits_def upt_rec bit_iff_odd)
  have "take 3 (drop 2 (bits_of [188])) = [True, True, True]"
    by (simp add: bits_of_def byte_bits_def upt_rec)
  then show ?thesis
    using ns_roundtrip [of 4 5 "\<lparr>br_buf = [188], br_pos = 2\<rparr>"] by (simp add: code numeral_3_eq_3)
qed

end
