(* ===== verification/Dd.thy ===== *)
theory Dd
  imports BitReader
begin

text \<open>
  The AV1 dependency-descriptor parser, \<open>backend/src/sfu/dd.rs\<close>: \<open>parse_structure\<close> and
  \<open>Parser::parse\<close>, loop by loop, over the bit reader of theory \<open>BitReader\<close>. The parser
  keeps the last structure a packet attached. The \<open>u8\<close> and \<open>u16\<close> fields of the code are
  8- and 16-bit words.
\<close>

section \<open>The code\<close>

definition MAX_TEMPLATES :: nat where
  "MAX_TEMPLATES = 64"

record descriptor =
  d_frame_number :: "16 word"
  d_temporal_layer :: "8 word"
  d_is_keyframe :: bool
  d_attaches_structure :: bool
  d_chain_diffs :: "8 word list"

record template =
  tp_temporal :: "8 word"
  tp_fdiffs :: "8 word list"
  tp_chain_diffs :: "8 word list"

record dd_structure =
  ds_template_id_offset :: nat
  ds_num_decode_targets :: nat
  ds_num_chains :: nat
  ds_templates :: "template list"

type_synonym dd_parser = "dd_structure option"

text \<open>\<open>for _ in 0..k { br.read(w)?; }\<close> and \<open>(0..k).map(|_| br.read(w)).collect()\<close>.\<close>

fun skip_reads :: "nat \<Rightarrow> nat \<Rightarrow> bit_reader \<Rightarrow> dd_error + bit_reader" where
  "skip_reads 0 w br = Inr br"
| "skip_reads (Suc k) w br = tryE (read br w) (\<lambda>(_, br'). skip_reads k w br')"

fun collect_reads :: "nat \<Rightarrow> nat \<Rightarrow> bit_reader \<Rightarrow> dd_error + 8 word list \<times> bit_reader" where
  "collect_reads 0 w br = Inr ([], br)"
| "collect_reads (Suc k) w br =
     tryE (read br w) (\<lambda>(v, br1).
     tryE (collect_reads k w br1) (\<lambda>(vs, br2). Inr (of_nat v # vs, br2)))"

fun skip_ns :: "nat \<Rightarrow> nat \<Rightarrow> bit_reader \<Rightarrow> dd_error + bit_reader" where
  "skip_ns 0 n br = Inr br"
| "skip_ns (Suc k) n br = tryE (ns br n) (\<lambda>(_, br'). skip_ns k n br')"

text \<open>The first loop of \<open>parse_structure\<close>: one template per step, next-layer indications.\<close>

function template_loop ::
  "8 word \<Rightarrow> 8 word \<Rightarrow> template list \<Rightarrow> bit_reader \<Rightarrow> dd_error + template list \<times> 8 word \<times> bit_reader" where
  "template_loop spatial temporal ts br =
     (if length ts \<ge> MAX_TEMPLATES then Inl TooManyTemplates
      else let ts' = ts @ [\<lparr>tp_temporal = temporal, tp_fdiffs = [], tp_chain_diffs = []\<rparr>]
           in tryE (read br 2) (\<lambda>(idc, br').
                let temporal' = (if idc = 1 then temporal + 1 else if idc = 2 then 0 else temporal);
                    spatial' = (if idc = 2 then spatial + 1 else spatial)
                in if idc = 3 \<or> remaining br' = 0 then Inr (ts', spatial', br')
                   else template_loop spatial' temporal' ts' br'))"
  by pat_completeness auto
termination
  by (relation "measure (\<lambda>(s, t, ts, br). MAX_TEMPLATES - length ts)") auto

declare template_loop.simps [simp del]

text \<open>\<open>while br.bool()? { t.fdiffs.push(br.read(4)? as u8 + 1); }\<close>\<close>

function fdiff_loop :: "bit_reader \<Rightarrow> 8 word list \<Rightarrow> dd_error + 8 word list \<times> bit_reader" where
  "fdiff_loop br ds =
     tryE (read_bool br) (\<lambda>(more, br1).
       if \<not> more then Inr (ds, br1)
       else tryE (read br1 4) (\<lambda>(v, br2). fdiff_loop br2 (ds @ [of_nat v + 1])))"
  by pat_completeness auto
termination
  by (relation "measure (\<lambda>(br, ds). remaining br)") (auto dest!: read_bool_adv read_adv)

declare fdiff_loop.simps [simp del]

fun each_fdiffs :: "template list \<Rightarrow> bit_reader \<Rightarrow> dd_error + template list \<times> bit_reader" where
  "each_fdiffs [] br = Inr ([], br)"
| "each_fdiffs (t # ts) br =
     tryE (fdiff_loop br (tp_fdiffs t)) (\<lambda>(ds, br1).
     tryE (each_fdiffs ts br1) (\<lambda>(ts', br2). Inr (t\<lparr>tp_fdiffs := ds\<rparr> # ts', br2)))"

fun each_chain_diffs :: "nat \<Rightarrow> template list \<Rightarrow> bit_reader \<Rightarrow> dd_error + template list \<times> bit_reader" where
  "each_chain_diffs n [] br = Inr ([], br)"
| "each_chain_diffs n (t # ts) br =
     tryE (collect_reads n 4 br) (\<lambda>(cs, br1).
     tryE (each_chain_diffs n ts br1) (\<lambda>(ts', br2). Inr (t\<lparr>tp_chain_diffs := cs\<rparr> # ts', br2)))"

definition parse_structure :: "bit_reader \<Rightarrow> dd_error + dd_structure \<times> bit_reader" where
  "parse_structure br0 =
     tryE (read br0 6) (\<lambda>(template_id_offset, br1).
     tryE (read br1 5) (\<lambda>(ndt, br2).
     let num_decode_targets = ndt + 1 in
     tryE (template_loop 0 0 [] br2) (\<lambda>(templates, spatial, br3).
     let spatial_layers = unat spatial + 1 in
     tryE (skip_reads (length templates * num_decode_targets) 2 br3) (\<lambda>br4.
     tryE (each_fdiffs templates br4) (\<lambda>(templates1, br5).
     tryE (ns br5 (num_decode_targets + 1)) (\<lambda>(num_chains, br6).
     tryE (if num_chains > 0
           then tryE (skip_ns num_decode_targets num_chains br6) (\<lambda>br7. each_chain_diffs num_chains templates1 br7)
           else Inr (templates1, br6)) (\<lambda>(templates2, br8).
     tryE (read_bool br8) (\<lambda>(resolutions, br9).
     tryE (if resolutions then skip_reads (spatial_layers * 2) 16 br9 else Inr br9) (\<lambda>br10.
     Inr (\<lparr>ds_template_id_offset = template_id_offset, ds_num_decode_targets = num_decode_targets,
           ds_num_chains = num_chains, ds_templates = templates2\<rparr>, br10))))))))))"

text \<open>The custom frame diffs: \<open>loop { size = read(2)?; if size == 0 { break }; read(size * 4)?; n += 1 }\<close>.\<close>

function custom_fdiff_loop :: "bit_reader \<Rightarrow> nat \<Rightarrow> dd_error + nat \<times> bit_reader" where
  "custom_fdiff_loop br n =
     tryE (read br 2) (\<lambda>(sz, br1).
       if sz = 0 then Inr (n, br1)
       else tryE (read br1 (sz * 4)) (\<lambda>(_, br2). custom_fdiff_loop br2 (n + 1)))"
  by pat_completeness auto
termination
  by (relation "measure (\<lambda>(br, n). remaining br)") (auto dest!: read_adv)

declare custom_fdiff_loop.simps [simp del]

text \<open>The five flags and the optional structure, present when the extension has more than 3 bytes.\<close>

definition parse_extended ::
  "nat \<Rightarrow> bit_reader \<Rightarrow> dd_error + (bool \<times> bool \<times> bool \<times> bool \<times> dd_structure option) \<times> bit_reader" where
  "parse_extended len br =
     (if len > 3 then
        tryE (read_bool br) (\<lambda>(structure_present, br1).
        tryE (read_bool br1) (\<lambda>(active_dt_present, br2).
        tryE (read_bool br2) (\<lambda>(custom_dtis, br3).
        tryE (read_bool br3) (\<lambda>(custom_fdiffs, br4).
        tryE (read_bool br4) (\<lambda>(custom_chains, br5).
        if structure_present
        then tryE (parse_structure br5) (\<lambda>(s, br6).
               Inr ((active_dt_present, custom_dtis, custom_fdiffs, custom_chains, Some s), br6))
        else Inr ((active_dt_present, custom_dtis, custom_fdiffs, custom_chains, None), br5))))))
      else Inr ((False, False, False, False, None), br))"

text \<open>The part of \<open>parse\<close> after the structure is known.\<close>

definition parse_frame ::
  "dd_structure \<Rightarrow> nat \<Rightarrow> 16 word \<Rightarrow> bool \<times> bool \<times> bool \<times> bool \<Rightarrow> bool \<Rightarrow> bit_reader \<Rightarrow> dd_error + descriptor" where
  "parse_frame s template_id frame_number flags attaches br =
     (case flags of (active_dt_present, custom_dtis, custom_fdiffs, custom_chains) \<Rightarrow>
     tryE (if active_dt_present then read br (ds_num_decode_targets s) else Inr (0, br)) (\<lambda>(_, br1).
     let idx = (template_id + MAX_TEMPLATES - ds_template_id_offset s) mod MAX_TEMPLATES in
     if idx \<ge> length (ds_templates s) then Inl InvalidTemplate
     else let tmpl = ds_templates s ! idx in
     tryE (if custom_dtis then skip_reads (ds_num_decode_targets s) 2 br1 else Inr br1) (\<lambda>br2.
     tryE (if custom_fdiffs then custom_fdiff_loop br2 0 else Inr (length (tp_fdiffs tmpl), br2)) (\<lambda>(fdiff_count, br3).
     tryE (if custom_chains then collect_reads (ds_num_chains s) 8 br3 else Inr (tp_chain_diffs tmpl, br3)) (\<lambda>(cds, br4).
     Inr \<lparr>d_frame_number = frame_number, d_temporal_layer = tp_temporal tmpl, d_is_keyframe = (fdiff_count = 0),
          d_attaches_structure = attaches, d_chain_diffs = cds\<rparr>)))))"

text \<open>The part of \<open>parse\<close> before the structure is looked up.\<close>

definition parse_header ::
  "8 word list \<Rightarrow> dd_error + nat \<times> 16 word \<times> (bool \<times> bool \<times> bool \<times> bool) \<times> dd_structure option \<times> bit_reader" where
  "parse_header ext =
     tryE (read \<lparr>br_buf = ext, br_pos = 0\<rparr> 2) (\<lambda>(_, br1).
     tryE (read br1 6) (\<lambda>(template_id, br2).
     tryE (read br2 16) (\<lambda>(fn, br3).
     tryE (parse_extended (length ext) br3) (\<lambda>((a, d, f, c, attached), br4).
     Inr (template_id, of_nat fn, (a, d, f, c), attached, br4)))))"

text \<open>
  \<open>Parser::parse\<close>: the result and the new parser state. The structure is replaced as soon
  as it has parsed, also when the rest of the packet fails.
\<close>

definition parse :: "dd_parser \<Rightarrow> 8 word list \<Rightarrow> (dd_error + descriptor option) \<times> dd_parser" where
  "parse p ext =
     (if ext = [] then (Inr None, p)
      else case parse_header ext of
             Inl e \<Rightarrow> (Inl e, p)
           | Inr (template_id, fn, flags, attached, br) \<Rightarrow>
               let p' = (case attached of Some s \<Rightarrow> Some s | None \<Rightarrow> p)
               in (case p' of
                     None \<Rightarrow> Inl NoStructure
                   | Some s \<Rightarrow> tryE (parse_frame s template_id fn flags (attached \<noteq> None) br) (\<lambda>d. Inr (Some d)), p'))"

section \<open>What a parsed structure satisfies\<close>

definition wf_structure :: "dd_structure \<Rightarrow> bool" where
  "wf_structure s \<longleftrightarrow>
     ds_template_id_offset s < MAX_TEMPLATES
   \<and> 1 \<le> ds_num_decode_targets s \<and> ds_num_decode_targets s \<le> 32
   \<and> ds_num_chains s \<le> ds_num_decode_targets s
   \<and> ds_templates s \<noteq> [] \<and> length (ds_templates s) \<le> MAX_TEMPLATES
   \<and> (\<forall>t \<in> set (ds_templates s). length (tp_chain_diffs t) = ds_num_chains s \<and> unat (tp_temporal t) < MAX_TEMPLATES)"

definition wf_parser :: "dd_parser \<Rightarrow> bool" where
  "wf_parser p \<longleftrightarrow> (case p of None \<Rightarrow> True | Some s \<Rightarrow> wf_structure s)"

lemma collect_reads_length:
  "collect_reads k w br = Inr (vs, br') \<Longrightarrow> length vs = k"
  by (induction k arbitrary: br vs br') (auto simp: tryE_eq_Inr)

lemma template_loop_wf:
  assumes "template_loop spatial temporal ts br = Inr (ts', spatial', br')"
    and "unat temporal \<le> length ts" and "length ts \<le> MAX_TEMPLATES"
    and "\<forall>t \<in> set ts. tp_chain_diffs t = [] \<and> unat (tp_temporal t) < MAX_TEMPLATES"
  shows "ts' \<noteq> [] \<and> length ts' \<le> MAX_TEMPLATES \<and>
    (\<forall>t \<in> set ts'. tp_chain_diffs t = [] \<and> unat (tp_temporal t) < MAX_TEMPLATES)"
  using assms
proof (induction spatial temporal ts br rule: template_loop.induct)
  case (1 spatial temporal ts br)
  let ?ts1 = "ts @ [\<lparr>tp_temporal = temporal, tp_fdiffs = [], tp_chain_diffs = []\<rparr>]"
  from "1.prems"(1) have full: "length ts < MAX_TEMPLATES"
    by (subst (asm) template_loop.simps) (auto split: if_splits)
  with "1.prems" have ts1: "\<forall>t \<in> set ?ts1. tp_chain_diffs t = [] \<and> unat (tp_temporal t) < MAX_TEMPLATES"
    by auto
  from "1.prems"(1) full obtain idc br1 where idc: "read br 2 = Inr (idc, br1)"
    by (subst (asm) template_loop.simps) (auto simp: tryE_eq_Inr Let_def)
  show ?case
  proof (cases "idc = 3 \<or> remaining br1 = 0")
    case True
    with "1.prems"(1) full idc have "ts' = ?ts1"
      by (subst (asm) template_loop.simps) (auto simp: Let_def)
    with ts1 full show ?thesis by (metis Suc_leI append_is_Nil_conv length_append_singleton not_Cons_self2)
  next
    case False
    let ?t = "if idc = 1 then temporal + 1 else if idc = 2 then 0 else temporal"
    let ?s = "if idc = 2 then spatial + 1 else spatial"
    from "1.prems"(1) full idc False have rec: "template_loop ?s ?t ?ts1 br1 = Inr (ts', spatial', br')"
      by (subst (asm) template_loop.simps) (simp add: Let_def)
    have "unat (temporal + 1) \<le> Suc (unat temporal)"
      by (simp add: unat_word_ariths)
    with "1.prems"(2) have t: "unat ?t \<le> length ?ts1"
      by auto
    show ?thesis
      by (rule "1.IH" [OF _ refl idc refl refl refl _ rec t _ ts1]) (use full False in simp_all)
  qed
qed

lemma each_fdiffs_keeps:
  "each_fdiffs ts br = Inr (ts', br') \<Longrightarrow>
   map tp_temporal ts' = map tp_temporal ts \<and> map tp_chain_diffs ts' = map tp_chain_diffs ts"
  by (induction ts arbitrary: br ts' br') (auto simp: tryE_eq_Inr)

lemma each_chain_diffs_keeps:
  "each_chain_diffs n ts br = Inr (ts', br') \<Longrightarrow>
   map tp_temporal ts' = map tp_temporal ts \<and> (\<forall>t \<in> set ts'. length (tp_chain_diffs t) = n)"
proof (induction ts arbitrary: br ts' br')
  case Nil
  then show ?case by simp
next
  case (Cons t ts)
  then obtain cs br1 ts1 where
    "collect_reads n 4 br = Inr (cs, br1)" "each_chain_diffs n ts br1 = Inr (ts1, br')"
    "ts' = t\<lparr>tp_chain_diffs := cs\<rparr> # ts1"
    by (auto simp: tryE_eq_Inr)
  with Cons.IH [of br1 ts1 br'] collect_reads_length [of n 4 br cs br1] show ?case by simp
qed

lemma map_eq_transfer:
  "map f ts' = map f ts \<Longrightarrow> \<forall>t \<in> set ts. P (f t) \<Longrightarrow> \<forall>t \<in> set ts'. P (f t)"
  by (metis image_eqI imageE list.set_map)

lemma parse_structure_wf:
  assumes "parse_structure br = Inr (s, br')"
  shows "wf_structure s"
proof -
  from assms obtain off br1 ndt br2 ts spatial br3 br4 ts1 br5 nc br6 ts2 br8 res br9 where
    off: "read br 6 = Inr (off, br1)" and ndt: "read br1 5 = Inr (ndt, br2)"
    and loop: "template_loop 0 0 [] br2 = Inr (ts, spatial, br3)"
    and fds: "each_fdiffs ts br4 = Inr (ts1, br5)"
    and nc: "ns br5 (Suc (Suc ndt)) = Inr (nc, br6)"
    and chains: "(if nc > 0
           then tryE (skip_ns (Suc ndt) nc br6) (each_chain_diffs nc ts1)
           else Inr (ts1, br6)) = Inr (ts2, br8)"
    and s: "s = \<lparr>ds_template_id_offset = off, ds_num_decode_targets = ndt + 1,
           ds_num_chains = nc, ds_templates = ts2\<rparr>"
    by (auto simp: parse_structure_def tryE_eq_Inr Let_def)
  have wf: "ts \<noteq> [] \<and> length ts \<le> MAX_TEMPLATES \<and>
      (\<forall>t \<in> set ts. tp_chain_diffs t = [] \<and> unat (tp_temporal t) < MAX_TEMPLATES)"
    using template_loop_wf [OF loop] by (simp add: MAX_TEMPLATES_def)
  have keep: "map tp_temporal ts1 = map tp_temporal ts" "map tp_chain_diffs ts1 = map tp_chain_diffs ts"
    using each_fdiffs_keeps [OF fds] by auto
  have temp1: "map tp_temporal ts2 = map tp_temporal ts" and len: "\<forall>t \<in> set ts2. length (tp_chain_diffs t) = nc"
  proof -
    have "map tp_temporal ts2 = map tp_temporal ts1 \<and> (\<forall>t \<in> set ts2. length (tp_chain_diffs t) = nc)"
    proof (cases "nc > 0")
      case True
      with chains obtain br7 where "each_chain_diffs nc ts1 br7 = Inr (ts2, br8)"
        by (auto simp: tryE_eq_Inr)
      then show ?thesis by (rule each_chain_diffs_keeps)
    next
      case False
      with chains have "ts2 = ts1" "nc = 0" by auto
      with map_eq_transfer [OF keep(2), of "\<lambda>cs. length cs = 0"] wf show ?thesis by simp
    qed
    with keep show "map tp_temporal ts2 = map tp_temporal ts" "\<forall>t \<in> set ts2. length (tp_chain_diffs t) = nc"
      by auto
  qed
  have "length ts2 = length ts" using arg_cong [OF temp1, of length] by simp
  moreover have "\<forall>t \<in> set ts2. unat (tp_temporal t) < MAX_TEMPLATES"
    using map_eq_transfer [OF temp1, of "\<lambda>x. unat x < MAX_TEMPLATES"] wf by simp
  moreover have "off < MAX_TEMPLATES" "ndt < 32" "nc \<le> ndt + 1"
    using read_bound [OF off] read_bound [OF ndt] ns_bound [OF nc] by (auto simp: MAX_TEMPLATES_def)
  ultimately show ?thesis
    using wf len by (auto simp: wf_structure_def s)
qed

lemma parse_header_wf: "parse_header ext = Inr (tid, fn, flags, Some s, br) \<Longrightarrow> wf_structure s"
  by (auto simp: parse_header_def parse_extended_def tryE_eq_Inr dest!: parse_structure_wf split: if_splits)

lemma parse_state:
  "snd (parse p ext) = p \<or> (\<exists>s. snd (parse p ext) = Some s \<and> wf_structure s)"
proof (cases "ext = [] \<or> (\<exists>e. parse_header ext = Inl e)")
  case True
  then show ?thesis by (auto simp: parse_def)
next
  case False
  then obtain tid fn flags att br where "parse_header ext = Inr (tid, fn, flags, att, br)"
    by (cases "parse_header ext") auto
  with False parse_header_wf [of ext tid fn flags _ br] show ?thesis
    by (cases att) (auto simp: parse_def Let_def)
qed

lemma wf_parser_parse: "wf_parser p \<Longrightarrow> wf_parser (snd (parse p ext))"
  using parse_state [of p ext] by (auto simp: wf_parser_def)

interpretation dd: stepper "\<lambda>p ext. snd (parse p ext)" "\<lambda>_ _. True" wf_parser
  by unfold_locales (rule wf_parser_parse)

lemma valid_run_True: "valid_run step (\<lambda>_ _. True) s es"
  by (induction es arbitrary: s) auto

lemma parse_frame_Inr:
  assumes "parse_frame s tid fn (a, di, fd, cc) att br = Inr d"
  shows "\<exists>t cnt. t \<in> set (ds_templates s) \<and> d_frame_number d = fn \<and> d_attaches_structure d = att
     \<and> t = ds_templates s ! ((tid + MAX_TEMPLATES - ds_template_id_offset s) mod MAX_TEMPLATES)
     \<and> d_temporal_layer d = tp_temporal t \<and> (d_is_keyframe d \<longleftrightarrow> cnt = 0)
     \<and> (\<not> fd \<longrightarrow> cnt = length (tp_fdiffs t))
     \<and> (cc \<longrightarrow> length (d_chain_diffs d) = ds_num_chains s)
     \<and> (\<not> cc \<longrightarrow> d_chain_diffs d = tp_chain_diffs t)"
proof -
  define idx where "idx = (tid + MAX_TEMPLATES - ds_template_id_offset s) mod MAX_TEMPLATES"
  let ?t = "ds_templates s ! idx"
  from assms have idx: "idx < length (ds_templates s)"
    by (simp add: parse_frame_def tryE_eq_Inr Let_def idx_def [symmetric] not_le split: if_splits)
  with assms obtain br2 cnt br3 cds br4 where
    cnt: "(if fd then custom_fdiff_loop br2 0 else Inr (length (tp_fdiffs ?t), br2)) = Inr (cnt, br3)"
    and cds: "(if cc then collect_reads (ds_num_chains s) 8 br3 else Inr (tp_chain_diffs ?t, br3)) = Inr (cds, br4)"
    and d: "d = \<lparr>d_frame_number = fn, d_temporal_layer = tp_temporal ?t, d_is_keyframe = (cnt = 0),
          d_attaches_structure = att, d_chain_diffs = cds\<rparr>"
    unfolding parse_frame_def Let_def idx_def [symmetric] by (simp add: tryE_eq_Inr) blast
  from cnt have "\<not> fd \<longrightarrow> cnt = length (tp_fdiffs ?t)" by auto
  moreover from cds have "cc \<longrightarrow> length cds = ds_num_chains s" "\<not> cc \<longrightarrow> cds = tp_chain_diffs ?t"
    by (auto dest: collect_reads_length)
  ultimately show ?thesis
    using idx by (intro exI [of _ ?t] exI [of _ cnt]) (simp add: d idx_def [symmetric])
qed

lemma parse_Inr:
  assumes "fst (parse p ext) = Inr (Some d)"
  obtains s tid fn a di fd cc att br where "snd (parse p ext) = Some s"
    "parse_frame s tid fn (a, di, fd, cc) att br = Inr d" "att \<or> p = Some s"
proof -
  from assms have ne: "ext \<noteq> []" by (auto simp: parse_def)
  from assms ne obtain tid fn a di fd cc att br where h: "parse_header ext = Inr (tid, fn, (a, di, fd, cc), att, br)"
    by (cases "parse_header ext") (auto simp: parse_def)
  from assms ne h obtain s where s: "(case att of Some s \<Rightarrow> Some s | None \<Rightarrow> p) = Some s"
    by (cases "case att of Some s \<Rightarrow> Some s | None \<Rightarrow> p") (auto simp: parse_def Let_def)
  with assms ne h have "parse_frame s tid fn (a, di, fd, cc) (att \<noteq> None) br = Inr d"
    by (simp add: parse_def Let_def tryE_eq_Inr)
  moreover have "att \<noteq> None \<or> p = Some s" using s by (cases att) auto
  moreover have "snd (parse p ext) = Some s" using ne h s by (simp add: parse_def Let_def)
  ultimately show thesis using that by blast
qed

section \<open>Properties\<close>

text \<open>
  Whatever packets arrive, in whatever order and however malformed, the parser holds
  either no structure or a well-formed one: a template offset below 64, 1 to 32 decode
  targets, at most as many chains, 1 to 64 templates, one chain diff per chain in each
  template and temporal ids below 64. So the template index computed from the packet's id
  cannot underflow and the chain diffs of every template fit the chain count.
\<close>
theorem dd_parser_well_formed:
  "wf_parser (foldl (\<lambda>p ext. snd (parse p ext)) None exts)"
  by (rule dd.inv_run) (simp_all add: wf_parser_def valid_run_True)

text \<open>
  C23. Every descriptor the parser returns, after any packets, carries one chain diff per chain
  of the structure it then holds, a temporal layer below 64, and if the packet attaches no
  structure itself the one held is the one held before.
\<close>
theorem dd_descriptor_fits_structure:
  assumes "p = foldl (\<lambda>p ext. snd (parse p ext)) None exts"
    and "fst (parse p ext) = Inr (Some d)"
  shows "\<exists>s. snd (parse p ext) = Some s \<and> length (d_chain_diffs d) = ds_num_chains s
    \<and> unat (d_temporal_layer d) < MAX_TEMPLATES \<and> (d_attaches_structure d \<or> p = Some s)"
proof -
  have "wf_parser p" unfolding assms(1) by (rule dd.inv_run) (simp_all add: wf_parser_def valid_run_True)
  then have wf: "wf_parser (snd (parse p ext))" by (rule wf_parser_parse)
  from assms(2) obtain s tid fn a di fd cc att br where s: "snd (parse p ext) = Some s"
    and f: "parse_frame s tid fn (a, di, fd, cc) att br = Inr d" and att: "att \<or> p = Some s"
    by (rule parse_Inr)
  from wf s have ws: "wf_structure s" by (simp add: wf_parser_def)
  from parse_frame_Inr [OF f] obtain t where t: "t \<in> set (ds_templates s)"
    "d_temporal_layer d = tp_temporal t" "d_attaches_structure d = att"
    "cc \<longrightarrow> length (d_chain_diffs d) = ds_num_chains s" "\<not> cc \<longrightarrow> d_chain_diffs d = tp_chain_diffs t"
    by auto
  with ws have "length (d_chain_diffs d) = ds_num_chains s" "unat (d_temporal_layer d) < MAX_TEMPLATES"
    by (auto simp: wf_structure_def)
  with s t(3) att show ?thesis by auto
qed

text \<open>A smallest structure (one template, one chain) and a 3-byte packet that refers to it.\<close>

definition attach_ext :: "8 word list" where
  "attach_ext = [0xC0, 0x00, 0x01, 0x80, 0x00, 0xC4, 0x00]"

definition short_ext :: "8 word list" where
  "short_ext = [0xC0, 0x01, 0x02]"

lemma attach_ext_parses:
  "parse None attach_ext =
     (Inr (Some \<lparr>d_frame_number = 1, d_temporal_layer = 0, d_is_keyframe = True,
                d_attaches_structure = True, d_chain_diffs = [0]\<rparr>),
      Some \<lparr>ds_template_id_offset = 0, ds_num_decode_targets = 1, ds_num_chains = 1,
            ds_templates = [\<lparr>tp_temporal = 0, tp_fdiffs = [], tp_chain_diffs = [0]\<rparr>]\<rparr>)"
  by code_simp

theorem dd_descriptor_fits_structure_witness:
  "\<exists>s. snd (parse None attach_ext) = Some s \<and> 1 = ds_num_chains s"
  using dd_descriptor_fits_structure [of None "[]" attach_ext]
  by (auto simp: attach_ext_parses)

lemma bits_val_byte:
  assumes "off + tk \<le> 8"
  shows "bits_val (take tk (drop off (byte_bits b))) = unat (drop_bit (8 - off - tk) b) mod 2 ^ tk"
proof -
  have "bits_val (take tk (drop off (byte_bits b))) = unat (take_bit tk (drop_bit (8 - off - tk) b))"
    using assms by (simp only: chunk_val take_bit_eq_mask)
  also have "\<dots> = take_bit tk (unat (drop_bit (8 - off - tk) b))"
    using assms by (simp add: unsigned_take_bit_eq min_def)
  finally show ?thesis by (simp only: take_bit_eq_mod)
qed

lemma parse_header_short:
  "parse_header [b0, b1, b2] =
     Inr (unat b0 mod 64, of_nat (256 * unat b1 + unat b2), (False, False, False, False), None,
          \<lparr>br_buf = [b0, b1, b2], br_pos = 24\<rparr>)"
proof -
  let ?buf = "[b0, b1, b2]"
  have bits: "bits_of ?buf = byte_bits b0 @ byte_bits b1 @ byte_bits b2" by (simp add: bits_of_def)
  have id: "bits_val (take 6 (drop 2 (bits_of ?buf))) = unat b0 mod 64"
    using bits_val_byte [of 2 6 b0] by (simp add: bits)
  have b: "bits_val (byte_bits x) = unat x" for x
  proof -
    have "unat x < 2 ^ LENGTH(8)" by (rule unsigned_less)
    then show ?thesis using bits_val_byte [of 0 8 x] by simp
  qed
  have fn: "bits_val (take 16 (drop 8 (bits_of ?buf))) = 256 * unat b1 + unat b2"
    by (simp add: bits bits_val_append b)
  have r1: "read \<lparr>br_buf = ?buf, br_pos = 0\<rparr> 2 = Inr (bits_val (take 2 (drop 0 (bits_of ?buf))), \<lparr>br_buf = ?buf, br_pos = 2\<rparr>)"
    by (simp add: read_spec remaining_def)
  have r2: "read \<lparr>br_buf = ?buf, br_pos = 2\<rparr> 6 = Inr (unat b0 mod 64, \<lparr>br_buf = ?buf, br_pos = 8\<rparr>)"
    unfolding id [symmetric] by (simp add: read_spec remaining_def)
  have r3: "read \<lparr>br_buf = ?buf, br_pos = 8\<rparr> 16 = Inr (256 * unat b1 + unat b2, \<lparr>br_buf = ?buf, br_pos = 24\<rparr>)"
    unfolding fn [symmetric] by (simp add: read_spec remaining_def)
  show ?thesis
    by (simp add: parse_header_def parse_extended_def r1 r2 r3)
qed

text \<open>
  A 3-byte extension read while a structure is held: the template is the one whose id is
  the low six bits of the first byte, relative to the structure's offset modulo 64; the frame
  number is the big-endian number of the other two bytes; layer, chain diffs and keyframe flag
  are the template's; an id outside the templates is the error. The parser state is unchanged.
\<close>
theorem dd_short_form:
  "parse (Some s) [b0, b1, b2] =
     (let idx = (unat b0 mod 64 + MAX_TEMPLATES - ds_template_id_offset s) mod MAX_TEMPLATES
      in if length (ds_templates s) \<le> idx then Inl InvalidTemplate
         else Inr (Some \<lparr>d_frame_number = of_nat (256 * unat b1 + unat b2),
                d_temporal_layer = tp_temporal (ds_templates s ! idx),
                d_is_keyframe = (tp_fdiffs (ds_templates s ! idx) = []),
                d_attaches_structure = False,
                d_chain_diffs = tp_chain_diffs (ds_templates s ! idx)\<rparr>), Some s)"
  by (simp add: parse_def parse_header_short parse_frame_def Let_def)

text \<open>
  Before any structure has been attached a packet yields no descriptor, whatever its bytes,
  unless it attaches one: the parser reports an error, or for an empty extension that there is
  none.
\<close>
theorem dd_needs_structure:
  "snd (parse None ext) = None \<Longrightarrow> \<not> (\<exists>d. fst (parse None ext) = Inr (Some d))"
  by (auto elim: parse_Inr)

theorem dd_needs_structure_witness:
  "snd (parse None short_ext) = None \<and> \<not> (\<exists>d. fst (parse None short_ext) = Inr (Some d))"
proof -
  have "snd (parse None short_ext) = None"
    by (simp add: short_ext_def parse_def parse_header_short)
  with dd_needs_structure [of short_ext] show ?thesis by blast
qed

end
