(* ===== verification/Codec.thy ===== *)
theory Codec
  imports Dd
begin

text \<open>
  \<open>backend/src/sfu/codec.rs\<close>: the layer parsers behind one \<open>Adapter\<close> (AV1 through the
  dependency descriptor, VP9 through its RTP payload descriptor) and the \<open>ChainTracker\<close> that
  decides which frames a subscriber's decoder can use. The tracker's ring is the 32-byte array
  of the code; its abstraction is a set of frame numbers modulo 256.
\<close>

section \<open>The code: VP9 payload descriptor\<close>

datatype codec_error = DdErr dd_error | Vp9Short

definition get_byte :: "8 word list \<Rightarrow> nat \<Rightarrow> codec_error + 8 word" where
  "get_byte p i = (if i < length p then Inr (p ! i) else Inl Vp9Short)"

definition vp9_picture_id :: "8 word list \<Rightarrow> bool \<Rightarrow> nat \<Rightarrow> codec_error + 16 word \<times> nat" where
  "vp9_picture_id p i off =
     (if i then
        tryE (get_byte p off) (\<lambda>first.
        if first AND 0x80 \<noteq> 0
        then tryE (get_byte p (off + 1)) (\<lambda>second.
               Inr (push_bit 8 (ucast (first AND 0x7f)) OR ucast second, off + 2))
        else Inr (ucast (first AND 0x7f), off + 1))
      else Inr (0, off))"

definition vp9_tid :: "8 word list \<Rightarrow> bool \<Rightarrow> bool \<Rightarrow> nat \<Rightarrow> codec_error + 8 word" where
  "vp9_tid p l f off =
     (if l then
        tryE (get_byte p off) (\<lambda>b.
        if \<not> f then tryE (get_byte p (off + 1)) (\<lambda>_. Inr (drop_bit 5 b AND 0x07))
        else Inr (drop_bit 5 b AND 0x07))
      else Inr 0)"

definition parse_vp9 :: "8 word list \<Rightarrow> codec_error + descriptor" where
  "parse_vp9 p =
     tryE (get_byte p 0) (\<lambda>head.
     let i = (head AND 0x80 \<noteq> 0); pb = (head AND 0x40 \<noteq> 0); l = (head AND 0x20 \<noteq> 0);
         f = (head AND 0x10 \<noteq> 0); b = (head AND 0x08 \<noteq> 0)
     in tryE (vp9_picture_id p i 1) (\<lambda>(picture_id, off).
        tryE (vp9_tid p l f off) (\<lambda>tid.
        Inr \<lparr>d_frame_number = picture_id, d_temporal_layer = tid, d_is_keyframe = (\<not> pb \<and> b),
             d_attaches_structure = False, d_chain_diffs = []\<rparr>)))"

section \<open>The code: the adapter\<close>

datatype screen_video_codec = Av1C | Vp9C

datatype adapter = Av1 dd_parser | Vp9

fun new_adapter :: "screen_video_codec \<Rightarrow> adapter" where
  "new_adapter Av1C = Av1 None"
| "new_adapter Vp9C = Vp9"

fun adapter_name :: "adapter \<Rightarrow> string" where
  "adapter_name (Av1 _) = ''av1''"
| "adapter_name Vp9 = ''vp9''"

fun adapter_parse ::
  "adapter \<Rightarrow> 8 word list \<Rightarrow> 8 word list option \<Rightarrow> (codec_error + descriptor option) \<times> adapter" where
  "adapter_parse (Av1 p) payload dd_ext =
     (case dd_ext of
        Some ext \<Rightarrow> (case parse p ext of (r, p') \<Rightarrow> (map_sum DdErr id r, Av1 p'))
      | None \<Rightarrow> (Inr None, Av1 p))"
| "adapter_parse Vp9 payload dd_ext = (map_sum id Some (parse_vp9 payload), Vp9)"

section \<open>The code: the chain tracker\<close>

record chain_tracker =
  ct_chain :: nat
  ct_seen :: "8 word list"
  ct_broken :: bool
  ct_bootstrapped :: bool

definition new_tracker :: "nat \<Rightarrow> chain_tracker" where
  "new_tracker chain =
     \<lparr>ct_chain = chain, ct_seen = replicate 32 0, ct_broken = False, ct_bootstrapped = False\<rparr>"

definition tracker_reset :: "chain_tracker \<Rightarrow> chain_tracker" where
  "tracker_reset t = t\<lparr>ct_seen := replicate 32 0, ct_broken := False, ct_bootstrapped := False\<rparr>"

definition set_chain :: "nat \<Rightarrow> chain_tracker \<Rightarrow> chain_tracker" where
  "set_chain chain t = (if chain \<noteq> ct_chain t then tracker_reset (t\<lparr>ct_chain := chain\<rparr>) else t)"

definition ring_clear :: "nat \<Rightarrow> 8 word list \<Rightarrow> 8 word list" where
  "ring_clear i seen = seen[i div 8 := seen ! (i div 8) AND NOT (push_bit (i mod 8) 1)]"

definition ring_set :: "nat \<Rightarrow> 8 word list \<Rightarrow> 8 word list" where
  "ring_set i seen = seen[i div 8 := seen ! (i div 8) OR push_bit (i mod 8) 1]"

definition mark :: "16 word \<Rightarrow> 8 word list \<Rightarrow> 8 word list" where
  "mark fn seen = ring_set (unat (fn AND 0xff)) (ring_clear (unat ((fn - 128) AND 0xff)) seen)"

definition was_seen :: "16 word \<Rightarrow> 8 word list \<Rightarrow> bool" where
  "was_seen fn seen =
     (let f = unat (fn AND 0xff) in (seen ! (f div 8)) AND push_bit (f mod 8) 1 \<noteq> 0)"

text \<open>\<open>chain_diffs.get(chain)\<close>, as a number.\<close>

definition chain_diff :: "nat \<Rightarrow> descriptor \<Rightarrow> 16 word option" where
  "chain_diff chain d =
     (if chain < length (d_chain_diffs d) then Some (ucast (d_chain_diffs d ! chain)) else None)"

definition allow :: "descriptor option \<Rightarrow> chain_tracker \<Rightarrow> bool \<times> chain_tracker" where
  "allow desc t0 =
     (case desc of
        None \<Rightarrow> (True, t0)
      | Some d \<Rightarrow>
          let t = (if d_attaches_structure d \<or> d_is_keyframe d then tracker_reset t0 else t0)
          in if d_is_keyframe d
             then (True, t\<lparr>ct_bootstrapped := True, ct_seen := mark (d_frame_number d) (ct_seen t)\<rparr>)
             else if \<not> ct_bootstrapped t then (False, t\<lparr>ct_broken := True\<rparr>)
             else if ct_broken t then (False, t)
             else if (case chain_diff (ct_chain t) d of
                        Some diff \<Rightarrow> diff > 0 \<and> \<not> was_seen (d_frame_number d - diff) (ct_seen t)
                      | None \<Rightarrow> False)
             then (False, t\<lparr>ct_broken := True\<rparr>)
             else (True, t\<lparr>ct_seen := mark (d_frame_number d) (ct_seen t)\<rparr>))"

section \<open>The ring is a set of numbers below 256\<close>

definition slot :: "16 word \<Rightarrow> nat" where
  "slot fn = unat fn mod 256"

definition ring :: "8 word list \<Rightarrow> nat set" where
  "ring seen = {i. i < 256 \<and> bit (seen ! (i div 8)) (i mod 8)}"

lemma slot_less [simp]: "slot fn < 256"
  by (simp add: slot_def)

lemma unat_and_ff: "unat (w AND 0xff) = slot (w :: 16 word)"
proof -
  have "w AND 0xff = take_bit 8 w" by (simp add: take_bit_eq_mask mask_eq_exp_minus_1)
  then have "unat (w AND 0xff) = take_bit 8 (unat w)"
    by (simp only: unsigned_take_bit_eq)
  then show ?thesis
    by (simp only: slot_def take_bit_eq_mod) simp
qed

lemma bit_single: "bit ((2 :: 8 word) ^ n) m \<longleftrightarrow> m = n \<and> n < 8"
  by (auto simp: bit_simps)

lemma ring_set_spec: "length seen = 32 \<Longrightarrow> i < 256 \<Longrightarrow> ring (ring_set i seen) = insert i (ring seen)"
proof (rule set_eqI)
  fix j
  assume len: "length seen = 32" and i: "i < 256"
  show "j \<in> ring (ring_set i seen) \<longleftrightarrow> j \<in> insert i (ring seen)"
  proof (cases "j div 8 = i div 8")
    case True
    then have "j = i \<longleftrightarrow> j mod 8 = i mod 8" by (metis div_mult_mod_eq)
    with True i len show ?thesis
      by (auto simp: ring_def ring_set_def bit_or_iff bit_single)
  next
    case False
    then show ?thesis by (auto simp: ring_def ring_set_def)
  qed
qed

lemma ring_clear_spec: "length seen = 32 \<Longrightarrow> i < 256 \<Longrightarrow> ring (ring_clear i seen) = ring seen - {i}"
proof (rule set_eqI)
  fix j
  assume len: "length seen = 32" and i: "i < 256"
  show "j \<in> ring (ring_clear i seen) \<longleftrightarrow> j \<in> ring seen - {i}"
  proof (cases "j div 8 = i div 8")
    case True
    then have "j = i \<longleftrightarrow> j mod 8 = i mod 8" by (metis div_mult_mod_eq)
    with True i len show ?thesis
      by (auto simp: ring_def ring_clear_def bit_and_iff bit_not_iff bit_single)
  next
    case False
    then show ?thesis by (auto simp: ring_def ring_clear_def)
  qed
qed

lemma length_ring [simp]:
  "length (ring_set i seen) = length seen" "length (ring_clear i seen) = length seen"
  "length (mark fn seen) = length seen"
  by (simp_all add: ring_set_def ring_clear_def mark_def)

lemma ring_mark:
  "length seen = 32 \<Longrightarrow> ring (mark fn seen) = insert (slot fn) (ring seen - {slot (fn - 128)})"
  by (simp add: mark_def unat_and_ff ring_set_spec ring_clear_spec)

lemma ring_empty [simp]: "ring (replicate 32 0) = {}"
  by (auto simp: ring_def nth_replicate)

lemma was_seen_spec: "was_seen fn seen \<longleftrightarrow> slot fn \<in> ring seen"
proof -
  have "(w AND push_bit n 1 \<noteq> 0) = bit w n" if "n < 8" for w :: "8 word" and n
  proof -
    have "w AND push_bit n 1 = (if bit w n then push_bit n 1 else 0)"
      by (rule bit_eqI) (auto simp: bit_and_iff bit_single)
    moreover have "push_bit n (1 :: 8 word) \<noteq> 0"
      using bit_single [of n n] that by auto
    ultimately show ?thesis by simp
  qed
  then show ?thesis
    by (simp add: was_seen_def Let_def unat_and_ff ring_def)
qed

section \<open>What a tracker was shown\<close>

text \<open>
  The specification looks only at what a tracker was shown, never at the tracker: the chain it was
  last set to, and the frames with layer information since the last keyframe (most recent first),
  None when there is none or a structure or another chain has come since. Such frames are intact
  when each of them found the predecessor its chain names among the earlier ones. What the code
  means by finding is all of the ring that the specification knows: a number is remembered while no
  later frame overwrote its slot with the slot 128 numbers behind it.
\<close>

datatype tracker_event = Frame "descriptor option" | Retarget nat

fun tracker_step :: "chain_tracker \<Rightarrow> tracker_event \<Rightarrow> chain_tracker" where
  "tracker_step t (Frame desc) = snd (allow desc t)"
| "tracker_step t (Retarget c) = set_chain c t"

definition tracked :: "nat \<Rightarrow> tracker_event list \<Rightarrow> chain_tracker" where
  "tracked chain es = foldl tracker_step (new_tracker chain) es"

fun shown :: "nat \<times> descriptor list option \<Rightarrow> tracker_event \<Rightarrow> nat \<times> descriptor list option" where
  "shown (c, ds) (Retarget c') = (c', if c' = c then ds else None)"
| "shown (c, ds) (Frame None) = (c, ds)"
| "shown (c, ds) (Frame (Some d)) =
     (c, if d_is_keyframe d then Some [d] else if d_attaches_structure d then None
         else map_option (\<lambda>ds. d # ds) ds)"

definition past :: "nat \<Rightarrow> tracker_event list \<Rightarrow> nat \<times> descriptor list option" where
  "past chain es = foldl shown (chain, None) es"

fun remembered :: "16 word \<Rightarrow> descriptor list \<Rightarrow> bool" where
  "remembered x [] = False"
| "remembered x (f # fs) =
     (if slot (d_frame_number f) = slot x then True
      else if slot (d_frame_number f - 128) = slot x then False else remembered x fs)"

fun intact :: "nat \<Rightarrow> descriptor list \<Rightarrow> bool" where
  "intact c [] = True"
| "intact c (d # ds) \<longleftrightarrow> intact c ds \<and>
     (d_is_keyframe d \<or> (case chain_diff c d of
        None \<Rightarrow> True | Some diff \<Rightarrow> diff = 0 \<or> remembered (d_frame_number d - diff) ds))"

lemma remembered_in: "remembered x ds \<Longrightarrow> \<exists>f \<in> set ds. slot (d_frame_number f) = slot x"
  by (induction ds) (auto split: if_splits)

definition shown_inv :: "chain_tracker \<times> nat \<times> descriptor list option \<Rightarrow> bool" where
  "shown_inv = (\<lambda>(t, c, ds). length (ct_seen t) = 32 \<and> ct_chain t = c \<and>
     (case ds of
        Some ds \<Rightarrow> if intact c ds then ct_bootstrapped t \<and> \<not> ct_broken t \<and> (\<forall>x. slot x \<in> ring (ct_seen t) \<longleftrightarrow> remembered x ds)
                   else \<not> ct_bootstrapped t \<or> ct_broken t
      | None \<Rightarrow> \<not> ct_bootstrapped t \<or> ct_broken t))"

lemma remembered_mark:
  "length seen = 32 \<Longrightarrow> \<forall>x. slot x \<in> ring seen \<longleftrightarrow> remembered x ds \<Longrightarrow>
   slot x \<in> ring (mark (d_frame_number d) seen) \<longleftrightarrow> remembered x (d # ds)"
  by (auto simp: ring_mark)

lemma shown_inv_allow:
  assumes "shown_inv (t, c, ds)"
  shows "fst (allow (Some d) t) \<longleftrightarrow> d_is_keyframe d \<or>
    (\<not> d_attaches_structure d \<and> (\<exists>fs. ds = Some fs \<and> intact c (d # fs)))"
proof (cases "d_is_keyframe d \<or> d_attaches_structure d")
  case True
  then show ?thesis by (auto simp: allow_def Let_def tracker_reset_def)
next
  case False
  show ?thesis
  proof (cases "\<exists>fs. ds = Some fs \<and> intact c fs")
    case True
    then obtain fs where fs: "ds = Some fs" "intact c fs" by blast
    with assms have t: "ct_bootstrapped t" "\<not> ct_broken t" "ct_chain t = c"
      "\<And>x. was_seen x (ct_seen t) \<longleftrightarrow> remembered x fs" by (simp_all add: shown_inv_def was_seen_spec)
    show ?thesis using False fs by (auto simp: allow_def Let_def t word_gt_0 split: option.splits)
  next
    case dead: False
    then have "\<not> ct_bootstrapped t \<or> ct_broken t" using assms by (auto simp: shown_inv_def split: option.splits if_splits)
    with False dead show ?thesis by (auto simp: allow_def Let_def)
  qed
qed

lemma allow_shape:
  "fst (allow (Some d) t) \<Longrightarrow> ct_seen (snd (allow (Some d) t)) = mark (d_frame_number d) (if d_is_keyframe d then replicate 32 0 else ct_seen t)
     \<and> ct_bootstrapped (snd (allow (Some d) t)) \<and> \<not> ct_broken (snd (allow (Some d) t))"
  "\<not> fst (allow (Some d) t) \<Longrightarrow> (\<not> ct_bootstrapped (snd (allow (Some d) t)) \<or> ct_broken (snd (allow (Some d) t)))
     \<and> length (ct_seen (snd (allow (Some d) t))) = (if d_attaches_structure d then 32 else length (ct_seen t))"
  "ct_chain (snd (allow desc t)) = ct_chain t"
  by (auto simp: allow_def Let_def tracker_reset_def split: option.splits if_splits)

fun shown_step :: "chain_tracker \<times> nat \<times> descriptor list option \<Rightarrow> tracker_event \<Rightarrow> chain_tracker \<times> nat \<times> descriptor list option" where
  "shown_step (t, p) e = (tracker_step t e, shown p e)"

lemma shown_inv_step: "shown_inv tp \<Longrightarrow> shown_inv (shown_step tp e)"
proof -
  obtain t c ds where tp: "tp = (t, c, ds)" by (cases tp)
  assume inv: "shown_inv tp"
  consider c' where "e = Retarget c'" | "e = Frame None" | d where "e = Frame (Some d)"
    by (metis tracker_event.exhaust option.exhaust)
  then show ?thesis
  proof cases
    case 1
    with inv show ?thesis by (cases ds) (auto simp: tp shown_inv_def set_chain_def tracker_reset_def)
  next
    case 2
    with inv show ?thesis by (simp add: tp allow_def)
  next
    case (3 d)
    have c: "ct_chain t = c" and l: "length (ct_seen t) = 32" using inv by (simp_all add: tp shown_inv_def)
    note pass = shown_inv_allow [OF inv [unfolded tp], of d]
    show ?thesis
    proof (cases "fst (allow (Some d) t)")
      case True
      then consider "d_is_keyframe d" | fs where "\<not> d_is_keyframe d" "\<not> d_attaches_structure d" "ds = Some fs" "intact c (d # fs)"
        using pass by blast
      then show ?thesis
      proof cases
        case key: 1
        with 3 allow_shape(1) [OF True] allow_shape(3) c remembered_mark [of "replicate 32 0" "[]" _ d]
        show ?thesis by (simp add: tp shown_inv_def)
      next
        case delta: (2 fs)
        then have "intact c fs" "\<forall>x. slot x \<in> ring (ct_seen t) \<longleftrightarrow> remembered x fs"
          using inv by (simp_all add: tp shown_inv_def)
        with 3 allow_shape(1) [OF True] allow_shape(3) c l delta remembered_mark [of "ct_seen t" fs _ d]
        show ?thesis by (simp add: tp shown_inv_def)
      qed
    next
      case False
      with pass have "\<not> d_is_keyframe d" and cut: "d_attaches_structure d \<or> (\<forall>fs. ds = Some fs \<longrightarrow> \<not> intact c (d # fs))" by auto
      with 3 allow_shape(2) [OF False] allow_shape(3) c l
      show ?thesis by (auto simp: tp shown_inv_def split: option.split simp del: intact.simps)
    qed
  qed
qed

interpretation tracker: stepper shown_step "\<lambda>_ _. True" shown_inv
  by unfold_locales (rule shown_inv_step)

lemma shown_inv: "shown_inv (tracked chain es, past chain es)"
proof -
  have "foldl shown_step (t, p) es = (foldl tracker_step t es, foldl shown p es)" for t p
    by (induction es arbitrary: t p) auto
  then have run: "foldl shown_step (new_tracker chain, chain, None) es = (tracked chain es, past chain es)"
    by (simp add: tracked_def past_def)
  have "shown_inv (new_tracker chain, chain, None)" by (simp add: shown_inv_def new_tracker_def)
  from tracker.inv_run [OF this, of es] show ?thesis by (simp add: run valid_run_True)
qed

lemma int_slot_diff: "int (slot (a - b)) = (uint a - uint b) mod 256"
proof -
  have "int (slot (a - b)) = uint (a - b) mod 256"
    by (simp add: slot_def zmod_int)
  also have "\<dots> = (uint a - uint b) mod 2 ^ LENGTH(16) mod 256"
    by (simp only: uint_word_ariths)
  also have "\<dots> = (uint a - uint b) mod 256"
    by (simp add: mod_mod_cancel)
  finally show ?thesis .
qed

lemma uint_less_of_unat: "unat w < 256 \<Longrightarrow> uint w < 256"
proof -
  assume "unat w < 256"
  then have "int (unat w) < int 256" by (simp only: of_nat_less_iff)
  then show ?thesis by (simp only: uint_nat of_nat_numeral)
qed

lemma close_mod:
  fixes a x y :: int
  assumes "(a - x) mod 256 = (a - y) mod 256" and "0 \<le> x" "0 \<le> y" "x < 256" "y < 256"
  shows "x = y"
proof -
  from assms(1) have "256 dvd y - x" by (simp add: mod_eq_dvd_iff)
  then obtain k where k: "y - x = 256 * k" by (rule dvdE)
  with assms have "k < 1" "- 1 < k" by linarith+
  then have "k = 0" by simp
  with k show ?thesis by simp
qed

lemma slot_eq_close:
  assumes "slot f = slot (fn - diff)" and "unat (fn - f) < 256" and "unat diff < 256"
  shows "f = fn - diff"
proof -
  define x where "x = fn - f"
  have "slot (fn - x) = slot (fn - diff)" using assms(1) by (simp add: x_def)
  then have eq: "(uint fn - uint x) mod 256 = (uint fn - uint diff) mod 256"
    using int_slot_diff [of fn x] int_slot_diff [of fn diff] by simp
  from assms(2) have x: "uint x < 256" unfolding x_def by (rule uint_less_of_unat)
  from assms(3) have diff: "uint diff < 256" by (rule uint_less_of_unat)
  from eq have "uint x = uint diff"
    by (rule close_mod) (use x diff in simp_all)
  then have "x = diff" by (simp add: word_uint_eq_iff)
  then show ?thesis by (auto simp: x_def)
qed

lemma chain_diff_less: "chain_diff c d = Some diff \<Longrightarrow> unat diff < 256"
proof -
  assume "chain_diff c d = Some diff"
  then have "diff = ucast (d_chain_diffs d ! c)" by (auto simp: chain_diff_def split: if_splits)
  moreover have "unat (d_chain_diffs d ! c) < 2 ^ LENGTH(8)" by (rule unsigned_less)
  ultimately show ?thesis by (simp add: unsigned_ucast_eq take_bit_eq_mod)
qed

section \<open>Properties\<close>

text \<open>
  C7. A tracker decides as a specification that looks only at what the tracker was shown: after any
  frames and changes of chain, a frame with layer information passes exactly when it is a keyframe,
  or it attaches no structure, there was a keyframe, no structure without a keyframe and no other
  chain came since, and of all the frames since that keyframe, this one included, each one's chain
  predecessor (if it names one, in a chain it has) is remembered among the frames before it. So one
  cut chain stops everything until the next keyframe. A frame without layer information passes.
\<close>
theorem chain_allow_refines_history:
  "fst (allow desc (tracked chain es)) \<longleftrightarrow>
     (case desc of
        None \<Rightarrow> True
      | Some d \<Rightarrow> d_is_keyframe d \<or>
          (\<not> d_attaches_structure d \<and>
           (case past chain es of (c, Some fs) \<Rightarrow> intact c (d # fs) | (c, None) \<Rightarrow> False)))"
proof (cases desc)
  case None
  then show ?thesis by (simp add: allow_def)
next
  case (Some d)
  obtain c ds where p: "past chain es = (c, ds)" by (cases "past chain es")
  then have "shown_inv (tracked chain es, c, ds)" using shown_inv [of chain es] by simp
  from shown_inv_allow [OF this, of d] show ?thesis
    by (auto simp: Some p simp del: intact.simps split: option.splits)
qed

text \<open>
  No frame passes whose chain is cut: if every frame since the keyframe lies less than 256 numbers
  back, a passing delta frame with a chain predecessor has exactly that predecessor among them.
\<close>
lemma chain_predecessor_forwarded:
  assumes "past chain es = (c, Some fs)" and "fst (allow (Some d) (tracked chain es))" and "\<not> d_is_keyframe d"
    and "chain_diff c d = Some diff" and "diff \<noteq> 0"
    and "\<forall>f \<in> set fs. unat (d_frame_number d - d_frame_number f) < 256"
  shows "d_frame_number d - diff \<in> d_frame_number ` set fs"
proof -
  have "shown_inv (tracked chain es, c, Some fs)" using shown_inv [of chain es] by (simp add: assms(1))
  from shown_inv_allow [OF this, of d] assms(2-5) have "remembered (d_frame_number d - diff) fs" by auto
  then obtain f where f: "f \<in> set fs" "slot (d_frame_number f) = slot (d_frame_number d - diff)"
    using remembered_in by blast
  with slot_eq_close [OF f(2)] assms(6) chain_diff_less [OF assms(4)] show ?thesis by force
qed

text \<open>A descriptor of a delta or key frame with one chain.\<close>

definition frame :: "16 word \<Rightarrow> bool \<Rightarrow> 8 word list \<Rightarrow> descriptor" where
  "frame fn key cds =
     \<lparr>d_frame_number = fn, d_temporal_layer = 0, d_is_keyframe = key, d_attaches_structure = False,
      d_chain_diffs = cds\<rparr>"

fun delivered :: "chain_tracker \<Rightarrow> descriptor list \<Rightarrow> bool list" where
  "delivered t [] = []"
| "delivered t (d # ds) = fst (allow (Some d) t) # delivered (snd (allow (Some d) t)) ds"

lemma allow_dead:
  "ct_broken t \<or> \<not> ct_bootstrapped t \<Longrightarrow> \<forall>d. desc = Some d \<longrightarrow> \<not> d_is_keyframe d \<Longrightarrow>
   ct_broken (snd (allow desc t)) \<or> \<not> ct_bootstrapped (snd (allow desc t))"
  by (cases desc) (auto simp: allow_def Let_def tracker_reset_def)

text \<open>
  Once a frame with layer information is refused, every further frame with layer
  information is refused until a keyframe, whatever chains and structures they carry; a
  keyframe passes and leaves exactly itself in the ring.
\<close>
theorem chain_broken_until_keyframe:
  assumes "\<not> fst (allow (Some d0) t)"
    and "\<forall>d. Frame (Some d) \<in> set es \<longrightarrow> \<not> d_is_keyframe d"
    and "\<forall>e \<in> set es. \<exists>d. e = Frame d"
    and "t' = foldl tracker_step (snd (allow (Some d0) t)) es"
    and "\<not> d_is_keyframe d" and "d_is_keyframe k"
  shows "\<not> fst (allow (Some d) t') \<and> fst (allow (Some k) t') \<and>
    (length (ct_seen t') = 32 \<longrightarrow> ring (ct_seen (snd (allow (Some k) t'))) = {slot (d_frame_number k)})"
proof -
  let ?dead = "\<lambda>t. ct_broken t \<or> \<not> ct_bootstrapped t"
  have "?dead (snd (allow (Some d0) t))"
    using assms(1) by (auto simp: allow_def Let_def tracker_reset_def split: option.splits if_splits)
  then have dead: "?dead t'"
    using assms(2,3) unfolding assms(4)
  proof (induction es arbitrary: t d0 rule: rev_induct)
    case Nil
    then show ?case by simp
  next
    case (snoc e es)
    then have "?dead (foldl tracker_step (snd (allow (Some d0) t)) es)" by auto
    moreover obtain desc where "e = Frame desc" "\<forall>d. desc = Some d \<longrightarrow> \<not> d_is_keyframe d"
      using snoc.prems by auto
    ultimately show ?case
      using allow_dead [of "foldl tracker_step (snd (allow (Some d0) t)) es" desc] by simp
  qed
  have "\<not> fst (allow (Some d) t')"
    using dead assms(5) by (auto simp: allow_def Let_def tracker_reset_def split: option.splits)
  moreover have "fst (allow (Some k) t')"
    "ct_seen (snd (allow (Some k) t')) = mark (d_frame_number k) (replicate 32 0)"
    using assms(6) by (simp_all add: allow_def Let_def tracker_reset_def)
  ultimately show ?thesis by (simp add: ring_mark)
qed

theorem chain_broken_until_keyframe_witness:
  "\<not> fst (allow (Some (frame 12 False [1])) (snd (allow (Some (frame 10 False [1])) (new_tracker 0))))"
proof -
  have refused: "\<not> fst (allow (Some (frame 10 False [1])) (new_tracker 0))"
    by (simp add: frame_def allow_def new_tracker_def)
  have kinds: "\<not> d_is_keyframe (frame 12 False [1])" "d_is_keyframe (frame 13 True [])"
    by (simp_all add: frame_def)
  show ?thesis
    by (rule chain_broken_until_keyframe [OF refused _ _ _ kinds, of "[]", THEN conjunct1]) simp_all
qed

lemma delivered_key:
  "delivered t (frame fn True cds # ds) =
     True # delivered \<lparr>ct_chain = ct_chain t, ct_seen = mark fn (replicate 32 0), ct_broken = False,
       ct_bootstrapped = True\<rparr> ds"
  by (cases t) (simp add: allow_def frame_def tracker_reset_def)

lemma delivered_delta:
  "length seen = 32 \<Longrightarrow> slot (fn - ucast c) \<in> ring seen \<Longrightarrow>
   delivered \<lparr>ct_chain = 0, ct_seen = seen, ct_broken = False, ct_bootstrapped = True\<rparr> (frame fn False [c] # ds) =
     True # delivered \<lparr>ct_chain = 0, ct_seen = mark fn seen, ct_broken = False, ct_bootstrapped = True\<rparr> ds"
  by (simp add: allow_def frame_def chain_diff_def was_seen_spec)

text \<open>
  The limit of it. The window is not 128 frames: after the frames 0, 1, 128 and 250 have been forwarded,
  frame 258 passes although its chain names frame 257, which never arrived, because the ring
  still holds frame 1 in the same slot.
\<close>
lemma chain_window_stale:
  "delivered (new_tracker 0) [frame 0 True [0], frame 1 False [1], frame 128 False [127], frame 250 False [122],
     frame 258 False [1]] = [True, True, True, True, True]"
  by (simp only: delivered_key delivered_delta new_tracker_def chain_tracker.simps)
     (simp add: delivered_delta ring_mark slot_def del: delivered.simps(2))

text \<open>The number of bytes the flags of the first byte ask for.\<close>

definition vp9_length :: "8 word list \<Rightarrow> nat" where
  "vp9_length p =
     1 + (if bit (p ! 0) 7 then if 1 < length p \<and> bit (p ! 1) 7 then 2 else 1 else 0)
       + (if bit (p ! 0) 5 then if bit (p ! 0) 4 then 1 else 2 else 0)"

lemma and_single:
  assumes "m = push_bit n 1" and "n < 8"
  shows "(w AND m \<noteq> 0) = bit (w :: 8 word) n"
proof -
  have "w AND m = (if bit w n then push_bit n 1 else 0)"
    using assms by (auto intro!: bit_eqI simp: bit_and_iff bit_single)
  moreover have "push_bit n (1 :: 8 word) \<noteq> 0"
    using bit_single [of n n] assms by auto
  ultimately show ?thesis by simp
qed

lemma vp9_flags:
  "(w AND 0x80 \<noteq> 0) = bit (w :: 8 word) 7" "(w AND 0x40 \<noteq> 0) = bit w 6"
  "(w AND 0x20 \<noteq> 0) = bit w 5" "(w AND 0x10 \<noteq> 0) = bit w 4" "(w AND 0x08 \<noteq> 0) = bit w 3"
  by (rule and_single; simp)+

lemma get_byte_iff: "get_byte p i = Inr b \<longleftrightarrow> i < length p \<and> b = p ! i"
  by (auto simp: get_byte_def)

lemma low7: "unat (w AND 0x7f) < 128" for w :: "8 word"
proof -
  have "w AND 0x7f = take_bit 7 w" by (simp add: take_bit_eq_mask mask_eq_exp_minus_1)
  then have "unat (w AND 0x7f) = take_bit 7 (unat w)" by (simp only: unsigned_take_bit_eq)
  moreover have "take_bit 7 (unat w) < 2 ^ 7" by (rule take_bit_nat_less_exp)
  ultimately show ?thesis by simp
qed

lemma pid_bits:
  fixes a b :: "8 word"
  assumes "bit (push_bit 8 (ucast (a AND 0x7f)) OR ucast b :: 16 word) n"
  shows "n < 15"
proof -
  have seven: "(0x7f :: 8 word) = mask 7" by (simp add: mask_eq_exp_minus_1)
  from assms consider "bit (push_bit 8 (ucast (a AND 0x7f)) :: 16 word) n" | "bit (ucast b :: 16 word) n"
    unfolding bit_or_iff by blast
  then show ?thesis
  proof cases
    case 1
    then have "8 \<le> n" "bit (ucast (a AND 0x7f) :: 16 word) (n - 8)"
      by (simp_all only: bit_push_bit_iff)
    then have "8 \<le> n" "bit (a AND 0x7f) (n - 8)" by (simp_all add: bit_ucast_iff)
    then have "n - 8 < 7" unfolding seven by (simp add: bit_and_iff bit_mask_iff)
    then show ?thesis by arith
  next
    case 2
    then have "bit b n" by (simp add: bit_ucast_iff)
    then show ?thesis using bit_imp_le_length [of b n] by simp
  qed
qed

lemma unat_less_exp_bits:
  fixes w :: "16 word"
  assumes "\<And>n. bit w n \<Longrightarrow> n < k"
  shows "unat w < 2 ^ k"
proof -
  have "take_bit k (unat w) = unat w"
    by (rule bit_eqI) (auto simp: bit_take_bit_iff bit_unsigned_iff dest: assms)
  then show ?thesis by (metis take_bit_nat_less_exp)
qed

lemma pid_bound: "unat (push_bit 8 (ucast (a AND 0x7f)) OR ucast (b :: 8 word) :: 16 word) < 2 ^ 15"
  for a :: "8 word"
  by (rule unat_less_exp_bits) (rule pid_bits)

lemma ucast_bound: "unat (ucast (b :: 8 word) :: 16 word) = unat b"
  using unat_u8 [of b] by (simp add: unsigned_ucast_eq take_bit_nat_eq_self_iff)

lemma tid_bound: "unat (drop_bit 5 b AND 0x07) < 8" for b :: "8 word"
proof -
  have "drop_bit 5 b AND 7 = take_bit 3 (drop_bit 5 b)" by (simp add: take_bit_eq_mask mask_eq_exp_minus_1)
  then have "unat (drop_bit 5 b AND 7) = take_bit 3 (unat (drop_bit 5 b))" by (simp only: unsigned_take_bit_eq)
  moreover have "take_bit 3 (unat (drop_bit 5 b)) < 2 ^ 3" by (rule take_bit_nat_less_exp)
  ultimately show ?thesis by simp
qed

lemma vp9_picture_id_iff:
  "(\<exists>pid off. vp9_picture_id p i 1 = Inr (pid, off)) \<longleftrightarrow>
     (i \<longrightarrow> 1 < length p \<and> (bit (p ! 1) 7 \<longrightarrow> 2 < length p))"
  "vp9_picture_id p i 1 = Inr (pid, off) \<Longrightarrow>
     off = 1 + (if i then if bit (p ! 1) 7 then 2 else 1 else 0) \<and> off \<le> max 1 (length p) \<and> unat pid < 2 ^ 15"
proof -
  show "(\<exists>pid off. vp9_picture_id p i 1 = Inr (pid, off)) \<longleftrightarrow>
     (i \<longrightarrow> 1 < length p \<and> (bit (p ! 1) 7 \<longrightarrow> 2 < length p))"
    by (auto simp: vp9_picture_id_def tryE_eq_Inr get_byte_iff vp9_flags numeral_2_eq_2)
  assume r: "vp9_picture_id p i 1 = Inr (pid, off)"
  have "unat (a AND 0x7f) < 2 ^ 15" for a :: "8 word" using low7 [of a] by simp
  with r show "off = 1 + (if i then if bit (p ! 1) 7 then 2 else 1 else 0) \<and> off \<le> max 1 (length p) \<and> unat pid < 2 ^ 15"
    using pid_bound
    by (auto simp: vp9_picture_id_def tryE_eq_Inr get_byte_iff vp9_flags ucast_bound split: if_splits)
qed

lemma vp9_tid_iff:
  "(\<exists>t. vp9_tid p l f off = Inr t) \<longleftrightarrow> (l \<longrightarrow> off + (if f then 0 else 1) < length p)"
  "vp9_tid p l f off = Inr t \<Longrightarrow> unat t < 8"
  using tid_bound by (auto simp: vp9_tid_def tryE_eq_Inr get_byte_iff split: if_splits)

text \<open>
  VP9: a payload parses exactly when it holds the bytes its flags ask for (one or two
  picture-id bytes, then the layer byte and, without F, the TL0PICIDX byte). Then the layer
  is below 8, the picture id below \<open>2^15\<close>, the keyframe flag is "not P and B", and there are
  no chains, so the chain tracker only gates on keyframes.
\<close>
theorem vp9_parses_iff_long_enough:
  "case parse_vp9 p of
     Inl e \<Rightarrow> p = [] \<or> length p < vp9_length p
   | Inr d \<Rightarrow> p \<noteq> [] \<and> vp9_length p \<le> length p \<and> unat (d_temporal_layer d) < 8
       \<and> unat (d_frame_number d) < 2 ^ 15 \<and> d_is_keyframe d = (\<not> bit (p ! 0) 6 \<and> bit (p ! 0) 3)
       \<and> d_chain_diffs d = []"
proof (cases "p = []")
  case True
  then show ?thesis by (simp add: parse_vp9_def get_byte_def)
next
  case False
  then have head: "get_byte p 0 = Inr (p ! 0)" by (simp add: get_byte_def)
  note unf = parse_vp9_def head tryE_simps Let_def vp9_flags
  let ?i = "bit (p ! 0) 7" and ?l = "bit (p ! 0) 5" and ?f = "bit (p ! 0) 4"
  show ?thesis
  proof (cases "vp9_picture_id p ?i 1")
    case (Inl e)
    then have short: "\<not> (?i \<longrightarrow> 1 < length p \<and> (bit (p ! 1) 7 \<longrightarrow> 2 < length p))"
      using vp9_picture_id_iff(1) [of p ?i] by (metis sum.distinct(1))
    have "parse_vp9 p = Inl e" by (simp only: unf Inl)
    moreover have "length p < vp9_length p"
      using short by (cases "bit (p ! 1) 7") (auto simp: vp9_length_def)
    ultimately show ?thesis by simp
  next
    case (Inr r)
    then obtain pid off where r: "vp9_picture_id p ?i 1 = Inr (pid, off)" by (cases r) auto
    note off = vp9_picture_id_iff(2) [OF r]
    have ok: "?i \<longrightarrow> 1 < length p \<and> (bit (p ! 1) 7 \<longrightarrow> 2 < length p)"
      using vp9_picture_id_iff(1) [of p ?i] r by blast
    have len: "vp9_length p = off + (if ?l then if ?f then 1 else 2 else 0)" "off \<le> length p"
      using off ok False by (auto simp: vp9_length_def max_def Suc_le_eq split: if_splits)
    note tid = vp9_tid_iff(1) [of p ?l ?f off]
    show ?thesis
    proof (cases "vp9_tid p ?l ?f off")
      case (Inl e)
      have "parse_vp9 p = Inl e" by (simp only: unf r prod.case Inl)
      moreover have "length p < vp9_length p"
        using tid Inl len by (auto split: if_splits)
      ultimately show ?thesis by simp
    next
      case (Inr t)
      have "parse_vp9 p = Inr \<lparr>d_frame_number = pid, d_temporal_layer = t,
          d_is_keyframe = (\<not> bit (p ! 0) 6 \<and> bit (p ! 0) 3), d_attaches_structure = False, d_chain_diffs = []\<rparr>"
        by (simp only: unf r prod.case Inr)
      moreover have "vp9_length p \<le> length p"
        using tid Inr len by (auto split: if_splits)
      ultimately show ?thesis using off False vp9_tid_iff(2) [OF Inr] by simp
    qed
  qed
qed

end
