(* ===== verification/Audio.thy ===== *)
theory Audio
  imports Prelude "HOL-Library.Char_ord" "HOL-Library.List_Lexorder"
begin

text \<open>
  \<open>backend/src/sfu/audio.rs\<close>, the media path: the drops of a muted microphone (\<open>Skips\<close>), the
  mapping of an owner's packets onto a slot's stream (\<open>Sub::map\<close>), and the copy-on-write list
  of subscribers a track is forwarded to. The pool of slots is in theory \<open>AudioSlots\<close>.
  Sequence numbers are the extended 64-bit numbers of the code as naturals (subtractions are
  the code's \<open>saturating_sub\<close> and \<open>checked_sub\<close>); timestamps are 32-bit words and wrap.
\<close>

section \<open>The code: drops of muted silence\<close>

definition SAMPLES_PER_FRAME :: nat where
  "SAMPLES_PER_FRAME = 960"

definition MUTED_SILENCE_MAX :: nat where
  "MUTED_SILENCE_MAX = 40"

definition SKIPS_KEPT :: nat where
  "SKIPS_KEPT = 64"

record skips =
  sk_recent :: "nat list"
  sk_older :: nat
  sk_forwarded :: nat
  sk_resumed :: bool

definition no_skips :: skips where
  "no_skips = \<lparr>sk_recent = [], sk_older = 0, sk_forwarded = 0, sk_resumed = False\<rparr>"

text \<open>
  \<open>shift\<close>: the sequence number and marker as the slots see them. \<open>resumed\<close> is taken only when
  the packet's own marker is clear, since the code's \<open>||\<close> does not evaluate its right side.
\<close>

definition shift :: "nat \<Rightarrow> bool \<Rightarrow> skips \<Rightarrow> (nat \<times> bool) \<times> skips" where
  "shift seq marker sk =
     (let sk1 = sk\<lparr>sk_forwarded := max (sk_forwarded sk) seq\<rparr>;
          dropped = sk_older sk1 + length (filter (\<lambda>s. s < seq) (sk_recent sk1))
      in if marker then ((seq - dropped, True), sk1)
         else ((seq - dropped, sk_resumed sk1), sk1\<lparr>sk_resumed := False\<rparr>))"

definition skip :: "nat \<Rightarrow> skips \<Rightarrow> bool \<times> skips" where
  "skip seq sk =
     (if seq < sk_forwarded sk then (False, sk)
      else let recent = sk_recent sk @ [seq];
               sk1 = (if length recent > SKIPS_KEPT
                      then sk\<lparr>sk_recent := tl recent, sk_older := sk_older sk + 1\<rparr>
                      else sk\<lparr>sk_recent := recent\<rparr>)
           in (True, sk1\<lparr>sk_resumed := True\<rparr>))"

section \<open>The code: a slot's stream\<close>

text \<open>\<open>SlotStream\<close>: the last packet written into the slot, by whichever owner.\<close>

type_synonym slot_stream = "(nat \<times> 32 word \<times> instant) option"

record slot_base =
  sb_in_seq :: nat
  sb_in_ts :: "32 word"
  sb_out_seq :: nat
  sb_out_ts :: "32 word"

definition u32_max :: nat where
  "u32_max = 4294967295"

text \<open>The silence since the previous owner's packet, in samples, at least one frame.\<close>

definition silence_gap :: "instant \<Rightarrow> instant \<Rightarrow> 32 word" where
  "silence_gap now at =
     of_nat (max (min (((now - at) div 1000000) mod 2 ^ 32 * 48) u32_max) SAMPLES_PER_FRAME)"

definition first_base :: "slot_stream \<Rightarrow> nat \<Rightarrow> 32 word \<Rightarrow> instant \<Rightarrow> slot_base" where
  "first_base lst in_seq in_ts now =
     (case lst of
        Some (seq, ts, at) \<Rightarrow>
          \<lparr>sb_in_seq = in_seq, sb_in_ts = in_ts, sb_out_seq = seq + 1, sb_out_ts = ts + silence_gap now at\<rparr>
      | None \<Rightarrow> \<lparr>sb_in_seq = in_seq, sb_in_ts = in_ts, sb_out_seq = 1, sb_out_ts = 0\<rparr>)"

text \<open>
  \<open>Sub::map\<close>: the packet as the slot carries it (None: it predates the owner's first packet
  there), the base, set by the first packet, and the slot's last packet.
\<close>

definition map_packet ::
  "nat \<Rightarrow> 32 word \<Rightarrow> bool \<Rightarrow> instant \<Rightarrow> slot_base option \<times> slot_stream \<Rightarrow>
   (nat \<times> 32 word \<times> bool) option \<times> slot_base option \<times> slot_stream" where
  "map_packet in_seq in_ts marker now bs =
     (case bs of (base, lst) \<Rightarrow>
      let first = (base = None);
          b = (case base of Some b \<Rightarrow> b | None \<Rightarrow> first_base lst in_seq in_ts now)
      in if in_seq < sb_in_seq b then (None, Some b, lst)
         else let seq = sb_out_seq b + (in_seq - sb_in_seq b);
                  ts = sb_out_ts b + (in_ts - sb_in_ts b);
                  lst' = (case lst of
                             Some (s, _, _) \<Rightarrow> if seq > s then Some (seq, ts, now) else lst
                           | None \<Rightarrow> Some (seq, ts, now))
              in (Some (seq, ts, first \<or> marker), Some b, lst'))"

section \<open>The code: a track and its subscribers\<close>

text \<open>
  A subscriber entry names its PC, its m-line and, within that PC, its slot's stream by number;
  the streams are a store, since the slot and every subscription ever placed in it share one.
\<close>

record audio_sub =
  as_pc :: nat
  as_mid :: string
  as_out :: nat
  as_base :: "slot_base option"

record audio_track =
  at_owner :: string
  at_subs :: "audio_sub list"
  at_skips :: skips

type_synonym streams = "nat \<times> nat \<Rightarrow> slot_stream"

definition new_track :: "string \<Rightarrow> audio_track" where
  "new_track owner = \<lparr>at_owner = owner, at_subs = [], at_skips = no_skips\<rparr>"

definition add_sub :: "nat \<Rightarrow> string \<Rightarrow> nat \<Rightarrow> audio_track \<Rightarrow> audio_track" where
  "add_sub pc mid out t =
     t\<lparr>at_subs := at_subs t @ [\<lparr>as_pc = pc, as_mid = mid, as_out = out, as_base = None\<rparr>]\<rparr>"

definition remove_sub :: "nat \<Rightarrow> audio_track \<Rightarrow> audio_track" where
  "remove_sub pc t = t\<lparr>at_subs := filter (\<lambda>s. as_pc s \<noteq> pc) (at_subs t)\<rparr>"

record rtp_packet =
  rp_seq :: nat
  rp_ts :: "32 word"
  rp_marker :: bool
  rp_payload :: "8 word list"

text \<open>One packet written into a subscriber's PC: m-line, sequence number, timestamp, marker, payload.\<close>

type_synonym rtp_write = "nat \<times> string \<times> nat \<times> 32 word \<times> bool \<times> 8 word list"

fun forward_subs ::
  "(nat \<Rightarrow> bool) \<Rightarrow> instant \<Rightarrow> nat \<Rightarrow> bool \<Rightarrow> rtp_packet \<Rightarrow> audio_sub list \<Rightarrow> streams \<Rightarrow>
   rtp_write list \<times> audio_sub list \<times> streams" where
  "forward_subs closed now in_seq in_marker pkt [] outs = ([], [], outs)"
| "forward_subs closed now in_seq in_marker pkt (s # ss) outs =
     (if closed (as_pc s)
      then (case forward_subs closed now in_seq in_marker pkt ss outs of (ws, ss', outs') \<Rightarrow> (ws, s # ss', outs'))
      else case map_packet in_seq (rp_ts pkt) in_marker now (as_base s, outs (as_pc s, as_out s)) of
             (r, base, lst) \<Rightarrow>
               (case forward_subs closed now in_seq in_marker pkt ss (outs((as_pc s, as_out s) := lst)) of
                  (ws, ss', outs') \<Rightarrow>
                    ((case r of None \<Rightarrow> ws
                      | Some (seq, ts, marker) \<Rightarrow> (as_pc s, as_mid s, seq, ts, marker, rp_payload pkt) # ws),
                     s\<lparr>as_base := base\<rparr> # ss', outs')))"

definition forward ::
  "(nat \<Rightarrow> bool) \<Rightarrow> instant \<Rightarrow> rtp_packet \<Rightarrow> audio_track \<times> streams \<Rightarrow> rtp_write list \<times> audio_track \<times> streams" where
  "forward closed now pkt to =
     (case to of (t, outs) \<Rightarrow>
      case shift (rp_seq pkt) (rp_marker pkt) (at_skips t) of ((in_seq, in_marker), sk) \<Rightarrow>
      case forward_subs closed now in_seq in_marker pkt (at_subs t) outs of (ws, subs, outs') \<Rightarrow>
      let dead = (\<exists>s \<in> set (at_subs t). closed (as_pc s));
          subs' = (if dead then filter (\<lambda>s. \<not> closed (as_pc s)) subs else subs)
      in (ws, t\<lparr>at_skips := sk, at_subs := subs'\<rparr>, outs'))"

text \<open>
  \<open>AudioPeer::on_event\<close> for an RTP packet of a peer whose track exists: a muted peer's small
  packets are dropped, unless the drop is refused; everything else is forwarded.
\<close>

definition on_packet ::
  "(nat \<Rightarrow> bool) \<Rightarrow> instant \<Rightarrow> bool \<Rightarrow> rtp_packet \<Rightarrow> audio_track \<times> streams \<Rightarrow> rtp_write list \<times> audio_track \<times> streams" where
  "on_packet closed now muted pkt to =
     (case to of (t, outs) \<Rightarrow>
      if muted \<and> length (rp_payload pkt) \<le> MUTED_SILENCE_MAX
      then (case skip (rp_seq pkt) (at_skips t) of
              (True, sk) \<Rightarrow> ([], t\<lparr>at_skips := sk\<rparr>, outs)
            | (False, sk) \<Rightarrow> forward closed now pkt (t\<lparr>at_skips := sk\<rparr>, outs))
      else forward closed now pkt (t, outs))"

section \<open>Drops leave no gap\<close>

text \<open>
  An owner's packets, each forwarded or offered as a drop (and forwarded when the drop is
  refused). Beside the code's state runs the full list of drops and what was forwarded.
\<close>

datatype voice = Speech nat bool | Silence nat

fun voice_seq :: "voice \<Rightarrow> nat" where
  "voice_seq (Speech s m) = s"
| "voice_seq (Silence s) = s"

record voice_run =
  vr_skips :: skips
  vr_drops :: "nat list"
  vr_out :: "(nat \<times> nat) list"

definition send_voice :: "nat \<Rightarrow> bool \<Rightarrow> voice_run \<Rightarrow> voice_run" where
  "send_voice s m r =
     (case shift s m (vr_skips r) of ((o', _), sk) \<Rightarrow> r\<lparr>vr_skips := sk, vr_out := vr_out r @ [(s, o')]\<rparr>)"

fun voice_step :: "voice_run \<Rightarrow> voice \<Rightarrow> voice_run" where
  "voice_step r (Speech s m) = send_voice s m r"
| "voice_step r (Silence s) =
     (case skip s (vr_skips r) of
        (True, sk) \<Rightarrow> r\<lparr>vr_skips := sk, vr_drops := vr_drops r @ [s]\<rparr>
      | (False, sk) \<Rightarrow> send_voice s False (r\<lparr>vr_skips := sk\<rparr>))"

definition voice_start :: voice_run where
  "voice_start = \<lparr>vr_skips = no_skips, vr_drops = [], vr_out = []\<rparr>"

text \<open>
  What the code relies on: a sequence number comes once, and the drops that left the ring of
  the last 64 precede everything still in flight.
\<close>

definition in_window :: "voice_run \<Rightarrow> voice \<Rightarrow> bool" where
  "in_window r e \<longleftrightarrow>
     voice_seq e \<notin> set (vr_drops r) \<union> fst ` set (vr_out r)
   \<and> (\<forall>d \<in> set (take (sk_older (vr_skips r)) (vr_drops r)). d < voice_seq e)"

definition place :: "nat list \<Rightarrow> nat \<Rightarrow> nat" where
  "place ds s = s - length (filter (\<lambda>d. d < s) ds)"

definition voice_inv :: "voice_run \<Rightarrow> bool" where
  "voice_inv r \<longleftrightarrow>
     sk_recent (vr_skips r) = drop (sk_older (vr_skips r)) (vr_drops r)
   \<and> sk_older (vr_skips r) = length (vr_drops r) - SKIPS_KEPT
   \<and> distinct (vr_drops r)
   \<and> (\<forall>(s, o') \<in> set (vr_out r). s \<le> sk_forwarded (vr_skips r) \<and> o' = place (vr_drops r) s \<and> s \<notin> set (vr_drops r))"

lemma place_older:
  assumes "\<forall>d \<in> set (take k ds). d < s" and "k \<le> length ds"
  shows "k + length (filter (\<lambda>d. d < s) (drop k ds)) = length (filter (\<lambda>d. d < s) ds)"
proof -
  have "filter (\<lambda>d. d < s) (take k ds) = take k ds" using assms(1) by (rule filter_True [THEN HOL.trans]) simp
  then have "length (filter (\<lambda>d. d < s) (take k ds @ drop k ds)) = k + length (filter (\<lambda>d. d < s) (drop k ds))"
    using assms(2) by (simp del: append_take_drop_id)
  then show ?thesis by simp
qed

lemma voice_inv_send:
  assumes "voice_inv r" and "s \<notin> set (vr_drops r)"
    and "\<forall>d \<in> set (take (sk_older (vr_skips r)) (vr_drops r)). d < s"
  shows "voice_inv (send_voice s m r)"
proof -
  have "sk_older (vr_skips r) + length (filter (\<lambda>d. d < s) (drop (sk_older (vr_skips r)) (vr_drops r)))
      = length (filter (\<lambda>d. d < s) (vr_drops r))"
    using assms by (intro place_older) (auto simp: voice_inv_def)
  with assms show ?thesis
    by (auto simp: voice_inv_def send_voice_def shift_def Let_def place_def)
qed

lemma place_snoc: "s \<le> d \<Longrightarrow> place (ds @ [d]) s = place ds s"
  by (simp add: place_def)

lemma voice_inv_step: "voice_inv r \<Longrightarrow> in_window r e \<Longrightarrow> voice_inv (voice_step r e)"
proof (cases e)
  case (Speech s m)
  then show "voice_inv r \<Longrightarrow> in_window r e \<Longrightarrow> ?thesis"
    by (auto simp: in_window_def intro!: voice_inv_send)
next
  case (Silence s)
  assume inv: "voice_inv r" and win: "in_window r e"
  show ?thesis
  proof (cases "s < sk_forwarded (vr_skips r)")
    case True
    then have "voice_step r e = send_voice s False r"
      by (simp add: Silence skip_def)
    with inv win Silence show ?thesis
      by (auto simp: in_window_def intro!: voice_inv_send)
  next
    case False
    define ds where "ds = vr_drops r"
    define k where "k = sk_older (vr_skips r)"
    have st: "sk_recent (vr_skips r) = drop k ds" "k = length ds - SKIPS_KEPT" "distinct ds" "s \<notin> set ds"
      using inv win Silence by (auto simp: voice_inv_def in_window_def ds_def k_def)
    have out: "\<forall>(x, o') \<in> set (vr_out r). x \<le> sk_forwarded (vr_skips r) \<and> o' = place (ds @ [s]) x \<and> x \<notin> set (ds @ [s])"
    proof (clarify)
      fix x o'
      assume x: "(x, o') \<in> set (vr_out r)"
      then have "x \<le> sk_forwarded (vr_skips r)" "o' = place ds x" "x \<notin> set ds"
        using inv by (auto simp: voice_inv_def ds_def)
      moreover have "x \<noteq> s" using x win Silence by (force simp: in_window_def)
      ultimately show "x \<le> sk_forwarded (vr_skips r) \<and> o' = place (ds @ [s]) x \<and> x \<notin> set (ds @ [s])"
        using False by (simp add: place_snoc)
    qed
    have step: "voice_step r e = r\<lparr>vr_skips := snd (skip s (vr_skips r)), vr_drops := ds @ [s]\<rparr>"
      using False by (simp add: Silence skip_def ds_def Let_def)
    have sk: "sk_forwarded (snd (skip s (vr_skips r))) = sk_forwarded (vr_skips r)"
      using False by (simp add: skip_def Let_def)
    have "sk_older (snd (skip s (vr_skips r))) = length (ds @ [s]) - SKIPS_KEPT
        \<and> sk_recent (snd (skip s (vr_skips r))) = drop (length (ds @ [s]) - SKIPS_KEPT) (ds @ [s])"
    proof (cases "length ds < SKIPS_KEPT")
      case True
      with st False show ?thesis by (simp add: skip_def Let_def k_def [symmetric])
    next
      case big: False
      then have "length ds - k = SKIPS_KEPT" using st(2) by simp
      then have "drop k ds \<noteq> []" by (auto simp: SKIPS_KEPT_def)
      then have "tl (drop k ds @ [s]) = drop (Suc k) ds @ [s]" by (simp add: drop_Suc tl_drop)
      with big st False show ?thesis
        by (simp add: skip_def Let_def k_def [symmetric] Suc_diff_le) (simp add: SKIPS_KEPT_def)
    qed
    with out st sk step show ?thesis
      unfolding voice_inv_def by simp
  qed
qed

interpretation voice: stepper voice_step in_window voice_inv
  by unfold_locales (rule voice_inv_step)

lemma voice_inv_start: "voice_inv voice_start"
  by (simp add: voice_inv_def voice_start_def no_skips_def)

lemma length_filter_card: "distinct ds \<Longrightarrow> length (filter P ds) = card {d \<in> set ds. P d}"
  by (metis distinct_card distinct_filter set_filter)

lemma place_mono:
  assumes "distinct ds" and "x \<notin> set ds" and "x < (y :: nat)"
  shows "place ds x < place ds y"
proof -
  let ?low = "{d \<in> set ds. d < x}" and ?mid = "{d \<in> set ds. x < d \<and> d < y}"
  have split: "{d \<in> set ds. d < y} = ?low \<union> ?mid"
    using assms(2,3) by auto (metis linorder_neqE_nat)
  have "card {d \<in> set ds. d < y} = card ?low + card ?mid"
    unfolding split by (rule card_Un_disjoint) auto
  moreover have "card ?low \<le> card {0..<x}" by (rule card_mono) auto
  moreover have "card ?mid \<le> card {x<..<y}" by (rule card_mono) auto
  ultimately show ?thesis
    using assms by (simp add: place_def length_filter_card)
qed

section \<open>Properties of the drops\<close>

text \<open>
  Every forwarded packet of an owner goes out at its own number minus the number of drops
  before it, in any order of arrival inside the window of 64 drops: so later packets keep later
  numbers, no number is used twice, and a packet's number does not depend on when it arrived.
\<close>
theorem muted_drops_keep_order:
  assumes "valid_run voice_step in_window voice_start es"
    and "r = foldl voice_step voice_start es"
    and "(x, a) \<in> set (vr_out r)" and "(y, b) \<in> set (vr_out r)"
  shows "a = place (vr_drops r) x \<and> (x < y \<longrightarrow> a < b)"
proof -
  have inv: "voice_inv r"
    unfolding assms(2) by (rule voice.inv_run [OF voice_inv_start assms(1)])
  then have "a = place (vr_drops r) x" "b = place (vr_drops r) y" "x \<notin> set (vr_drops r)"
    using assms(3,4) by (auto simp: voice_inv_def)
  then show ?thesis using inv place_mono by (auto simp: voice_inv_def)
qed

theorem muted_drops_keep_order_witness:
  "(100 :: nat) = place [101] 100 \<and> (100 :: nat) < 101"
proof -
  let ?es = "[Speech 99 False, Silence 101, Speech 100 False, Speech 102 False]"
  define r where "r = foldl voice_step voice_start ?es"
  have run: "r = \<lparr>vr_skips = \<lparr>sk_recent = [101], sk_older = 0, sk_forwarded = 102, sk_resumed = False\<rparr>,
      vr_drops = [101], vr_out = [(99, 99), (100, 100), (102, 101)]\<rparr>"
    by (simp add: r_def voice_start_def no_skips_def send_voice_def shift_def skip_def Let_def SKIPS_KEPT_def)
  have ok: "valid_run voice_step in_window voice_start ?es"
    by (simp add: voice_start_def no_skips_def send_voice_def shift_def skip_def Let_def SKIPS_KEPT_def in_window_def)
  show ?thesis
    using muted_drops_keep_order [OF ok r_def, of 100 100 102 101] by (simp add: run)
qed

text \<open>A stream of consecutive packets from \<open>s\<close> on; True marks the ones a muted owner drops.\<close>

fun stream_from :: "nat \<Rightarrow> bool list \<Rightarrow> voice list" where
  "stream_from s [] = []"
| "stream_from s (b # bs) = (if b then Silence s else Speech s False) # stream_from (Suc s) bs"

lemma stream_step:
  assumes "length (vr_drops r) \<le> s" and "\<forall>d \<in> set (vr_drops r). d < s" and "sk_forwarded (vr_skips r) \<le> s"
    and "sk_older (vr_skips r) + length (sk_recent (vr_skips r)) = length (vr_drops r)"
    and "set (sk_recent (vr_skips r)) \<subseteq> set (vr_drops r)"
  shows "map snd (vr_out (foldl voice_step r (stream_from s bs))) =
    map snd (vr_out r) @ [s - length (vr_drops r)..<s - length (vr_drops r) + count_list bs False]"
  using assms
proof (induction bs arbitrary: r s)
  case Nil
  then show ?case by simp
next
  case (Cons b bs)
  let ?sk = "vr_skips r"
  show ?case
  proof (cases b)
    case True
    then have step: "foldl voice_step r (stream_from s (b # bs)) =
        foldl voice_step (r\<lparr>vr_skips := snd (skip s ?sk), vr_drops := vr_drops r @ [s]\<rparr>) (stream_from (Suc s) bs)"
      using Cons.prems(3) by (simp add: skip_def Let_def)
    let ?r1 = "r\<lparr>vr_skips := snd (skip s ?sk), vr_drops := vr_drops r @ [s]\<rparr>"
    have "length (vr_drops ?r1) \<le> Suc s" "\<forall>d \<in> set (vr_drops ?r1). d < Suc s"
      "sk_forwarded (vr_skips ?r1) \<le> Suc s"
      "sk_older (vr_skips ?r1) + length (sk_recent (vr_skips ?r1)) = length (vr_drops ?r1)"
      "set (sk_recent (vr_skips ?r1)) \<subseteq> set (vr_drops ?r1)"
      using Cons.prems by (auto simp: skip_def Let_def tl_append split: if_splits list.splits)
    from Cons.IH [OF this] True show ?thesis unfolding step by simp
  next
    case False
    have "filter (\<lambda>x. x < s) (sk_recent ?sk) = sk_recent ?sk"
      using Cons.prems(2,5) by (auto intro!: filter_True)
    then have out: "foldl voice_step r (stream_from s (b # bs)) =
        foldl voice_step (r\<lparr>vr_skips := ?sk\<lparr>sk_forwarded := max (sk_forwarded ?sk) s, sk_resumed := False\<rparr>,
          vr_out := vr_out r @ [(s, s - length (vr_drops r))]\<rparr>) (stream_from (Suc s) bs)"
      using False Cons.prems(4) by (simp add: send_voice_def shift_def Let_def add.commute)
    let ?r1 = "r\<lparr>vr_skips := ?sk\<lparr>sk_forwarded := max (sk_forwarded ?sk) s, sk_resumed := False\<rparr>,
          vr_out := vr_out r @ [(s, s - length (vr_drops r))]\<rparr>"
    have "length (vr_drops ?r1) \<le> Suc s" "\<forall>d \<in> set (vr_drops ?r1). d < Suc s"
      "sk_forwarded (vr_skips ?r1) \<le> Suc s"
      "sk_older (vr_skips ?r1) + length (sk_recent (vr_skips ?r1)) = length (vr_drops ?r1)"
      "set (sk_recent (vr_skips ?r1)) \<subseteq> set (vr_drops ?r1)"
      using Cons.prems by auto
    from Cons.IH [OF this] have "map snd (vr_out (foldl voice_step ?r1 (stream_from (Suc s) bs))) =
        map snd (vr_out r) @ (s - length (vr_drops r)) #
        [Suc s - length (vr_drops r)..<Suc s - length (vr_drops r) + count_list bs False]"
      by simp
    with False Cons.prems(1) show ?thesis
      unfolding out by (simp add: upt_conv_Cons Suc_diff_le del: upt_Suc)
  qed
qed

text \<open>
  Dropping muted silence leaves no hole: of a stream of consecutive packets, whichever of
  them are dropped, the forwarded ones go out under consecutive numbers.
\<close>
theorem muted_drops_leave_no_gap:
  "map snd (vr_out (foldl voice_step voice_start (stream_from s bs))) = [s..<s + count_list bs False]"
  using stream_step [of voice_start s bs] by (simp add: voice_start_def no_skips_def)

section \<open>One stream per slot\<close>

text \<open>
  A slot carries one owner after the other; each has its own base, and all of them share the
  slot's last packet. A talk is the list of packets one owner sends into the slot.
\<close>

record arrival =
  ar_seq :: nat
  ar_ts :: "32 word"
  ar_marker :: bool
  ar_at :: instant

fun talk :: "slot_base option \<times> slot_stream \<Rightarrow> arrival list \<Rightarrow> (nat \<times> nat) list \<times> slot_base option \<times> slot_stream" where
  "talk bs [] = ([], bs)"
| "talk bs (a # as) =
     (case map_packet (ar_seq a) (ar_ts a) (ar_marker a) (ar_at a) bs of
        (r, bs') \<Rightarrow> (case talk bs' as of (outs, bs'') \<Rightarrow>
          ((case r of None \<Rightarrow> outs | Some (seq, _, _) \<Rightarrow> (ar_seq a, seq) # outs), bs'')))"

fun talks :: "slot_stream \<Rightarrow> arrival list list \<Rightarrow> (nat \<times> nat) list list" where
  "talks lst [] = []"
| "talks lst (as # rest) =
     (case talk (None, lst) as of (outs, _, lst') \<Rightarrow> outs # talks lst' rest)"

definition last_seq :: "slot_stream \<Rightarrow> nat" where
  "last_seq lst = (case lst of None \<Rightarrow> 0 | Some (s, _, _) \<Rightarrow> s)"

lemma talk_fixed:
  assumes "talk (Some b, lst) as = (outs, bs', lst')"
  shows "(\<forall>(x, q) \<in> set outs. sb_in_seq b \<le> x \<and> q = sb_out_seq b + (x - sb_in_seq b) \<and> q \<le> last_seq lst')
    \<and> last_seq lst \<le> last_seq lst'"
  using assms
proof (induction as arbitrary: lst outs)
  case Nil
  then show ?case by simp
next
  case (Cons a as)
  define m where "m = map_packet (ar_seq a) (ar_ts a) (ar_marker a) (ar_at a) (Some b, lst)"
  have "fst (snd m) = Some b" by (simp add: m_def map_packet_def Let_def)
  then obtain r lst1 where m: "m = (r, Some b, lst1)" by (metis prod.collapse)
  obtain outs1 where rec: "talk (Some b, lst1) as = (outs1, bs', lst')"
    and outs: "outs = (case r of None \<Rightarrow> outs1 | Some (seq, _, _) \<Rightarrow> (ar_seq a, seq) # outs1)"
    using Cons.prems m by (auto simp: m_def [symmetric] split: prod.splits)
  have now: "last_seq lst \<le> last_seq lst1 \<and> (case r of None \<Rightarrow> True | Some (seq, _, _) \<Rightarrow>
      sb_in_seq b \<le> ar_seq a \<and> seq = sb_out_seq b + (ar_seq a - sb_in_seq b) \<and> seq \<le> last_seq lst1)"
    using m unfolding m_def map_packet_def
    by (auto simp: Let_def last_seq_def split: if_splits option.splits prod.splits)
  from Cons.IH [OF rec] now show ?case
    unfolding outs by (cases r) auto
qed

text \<open>All the numbers a talk writes into the slot follow from where the slot stood before it.\<close>

lemma talk_fresh:
  assumes "talk (None, lst) as = (outs, bs', lst')"
  shows "(\<forall>(x, q) \<in> set outs. ar_seq (hd as) \<le> x \<and> q = last_seq lst + 1 + (x - ar_seq (hd as)) \<and> q \<le> last_seq lst')
    \<and> last_seq lst \<le> last_seq lst'"
proof (cases as)
  case Nil
  with assms show ?thesis by simp
next
  case (Cons a as1)
  define b where "b = first_base lst (ar_seq a) (ar_ts a) (ar_at a)"
  have b: "sb_in_seq b = ar_seq a" "sb_out_seq b = last_seq lst + 1"
    by (auto simp: b_def first_base_def last_seq_def split: option.splits prod.splits)
  have "map_packet (ar_seq a) (ar_ts a) (ar_marker a) (ar_at a) (None, lst) =
      map_packet (ar_seq a) (ar_ts a) True (ar_at a) (Some b, lst)"
    by (simp add: map_packet_def b_def Let_def)
  then have "\<exists>as'. talk (None, lst) as = talk (Some b, lst) as' \<and> as' = a\<lparr>ar_marker := True\<rparr> # as1"
    by (auto simp: Cons split: prod.splits option.splits)
  then have "talk (Some b, lst) (a\<lparr>ar_marker := True\<rparr> # as1) = (outs, bs', lst')"
    using assms by simp
  from talk_fixed [OF this] show ?thesis by (simp add: b Cons)
qed

text \<open>
  One uninterrupted stream per slot: whatever a slot's owners send, in any order, each of
  a talk's packets gets the number after the last one written before the talk plus its distance
  from the talk's first packet. So numbers of one owner keep their order, and every number of a
  later owner is above every number of an earlier one.
\<close>
theorem slot_numbers_never_go_back:
  assumes "i < j" and "j < length ts"
    and "(x, a) \<in> set (talks lst ts ! i)" and "(y, b) \<in> set (talks lst ts ! j)"
  shows "a < b"
  using assms
proof (induction ts arbitrary: lst i j)
  case Nil
  then show ?case by simp
next
  case (Cons as rest)
  obtain outs bs' lst' where t: "talk (None, lst) as = (outs, bs', lst')"
    by (cases "talk (None, lst) as") auto
  have later: "last_seq l < q" if "(z, q) \<in> set (talks l rs ! k)" "k < length rs" for z q l rs k
    using that
  proof (induction rs arbitrary: l k)
    case Nil
    then show ?case by simp
  next
    case (Cons as rs)
    obtain o1 b1 l1 where t1: "talk (None, l) as = (o1, b1, l1)" by (cases "talk (None, l) as") auto
    show ?case
    proof (cases k)
      case 0
      with Cons.prems t1 have "(z, q) \<in> set o1" by simp
      with talk_fresh [OF t1] show ?thesis by auto
    next
      case (Suc k')
      with Cons.prems t1 have "(z, q) \<in> set (talks l1 rs ! k')" "k' < length rs" by auto
      with Cons.IH [of l1 k'] talk_fresh [OF t1] show ?thesis by simp
    qed
  qed
  show ?case
  proof (cases i)
    case 0
    with Cons.prems t have "(x, a) \<in> set outs" by simp
    with talk_fresh [OF t] have "a \<le> last_seq lst'" by auto
    moreover have "last_seq lst' < b"
      using later [of y b lst' rest "j - 1"] Cons.prems t by (cases j) auto
    ultimately show ?thesis by simp
  next
    case (Suc i')
    with Cons.prems t Cons.IH [of i' "j - 1" lst'] show ?thesis by (cases j) auto
  qed
qed

theorem slot_numbers_never_go_back_witness:
  "(2 :: nat) < 3"
proof -
  let ?p = "\<lambda>s t at. \<lparr>ar_seq = s, ar_ts = t, ar_marker = False, ar_at = at\<rparr>"
  let ?ts = "[[?p 70000 4000000000 0, ?p 70001 4000000960 0], [?p 5 123 100000000]]"
  have "talks None ?ts = [[(70000, 1), (70001, 2)], [(5, 3)]]"
    by (simp add: map_packet_def first_base_def Let_def)
  then show ?thesis
    using slot_numbers_never_go_back [of 0 1 ?ts 70001 2 None 5 3] by simp
qed

text \<open>
  The first packet of a new owner carries the marker, the next number of the slot, and the
  slot's last timestamp advanced by the silence between them: 48 samples per millisecond and
  one frame at least, so receivers see a pause and no jump.
\<close>
theorem new_owner_continues_slot:
  "map_packet in_seq in_ts marker now (None, Some (seq, ts, at)) =
     (Some (seq + 1, ts + silence_gap now at, True),
      Some \<lparr>sb_in_seq = in_seq, sb_in_ts = in_ts, sb_out_seq = seq + 1, sb_out_ts = ts + silence_gap now at\<rparr>,
      Some (seq + 1, ts + silence_gap now at, now))
   \<and> 960 \<le> unat (silence_gap now at)
   \<and> ((now - at) div 1000000 < 80000000 \<longrightarrow> unat (silence_gap now at) = max ((now - at) div 1000000 * 48) 960)"
proof -
  have small: "max (min (k mod 2 ^ 32 * 48) u32_max) SAMPLES_PER_FRAME < 2 ^ LENGTH(32)" for k
    by (simp add: u32_max_def SAMPLES_PER_FRAME_def)
  have g: "unat (silence_gap now at) = max (min ((now - at) div 1000000 mod 2 ^ 32 * 48) u32_max) SAMPLES_PER_FRAME"
    unfolding silence_gap_def using small by (simp only: unat_of_nat mod_less)
  show ?thesis
    by (simp add: map_packet_def first_base_def g Let_def) (simp add: u32_max_def SAMPLES_PER_FRAME_def)
qed

end
