(* ===== verification/AudioSlots.thy ===== *)
theory AudioSlots
  imports Audio "HOL-Library.Multiset"
begin

text \<open>
  \<open>backend/src/sfu/audio.rs\<close>, the signalling side: the pool of slots a peer's audio PC offers,
  and \<open>reconcile\<close>, which points the slots at the room's tracks. A track is its reference (the
  identity of its \<open>Arc\<close>) with its owner's id. What str0m decides is a parameter: the mid of
  the m-line added for a slot, whether \<open>apply\<close> yields an offer, whether an answer is accepted.
\<close>

section \<open>The code\<close>

definition INITIAL_SLOTS :: nat where
  "INITIAL_SLOTS = 8"

definition SLOT_GROWTH :: nat where
  "SLOT_GROWTH = 4"

type_synonym trk = "nat \<times> string"

abbreviation trk_id :: "trk \<Rightarrow> nat" where "trk_id \<equiv> fst"
abbreviation trk_owner :: "trk \<Rightarrow> string" where "trk_owner \<equiv> snd"

record slot =
  sl_mid :: string
  sl_stream_id :: string
  sl_track :: "trk option"
  sl_open :: bool
  sl_out :: nat

text \<open>\<open>SyncState\<close>; \<open>ss_next_out\<close> counts the slot streams allocated so far.\<close>

record sync_state =
  ss_pending :: bool
  ss_slots :: "slot list"
  ss_next_out :: nat

definition no_sync :: sync_state where
  "no_sync = \<lparr>ss_pending = False, ss_slots = [], ss_next_out = 0\<rparr>"

text \<open>What \<open>reconcile\<close> does outside its own state, in order.\<close>

datatype audio_act =
    RemoveSub nat
  | AudioSlotsMsg "(string \<times> string option) list"
  | AddSub nat string nat
  | OfferMsg nat

definition has_track :: "trk list \<Rightarrow> trk \<Rightarrow> bool" where
  "has_track want t \<longleftrightarrow> (\<exists>w \<in> set want. trk_id w = trk_id t)"

definition slot_carries :: "slot list \<Rightarrow> trk \<Rightarrow> bool" where
  "slot_carries slots t \<longleftrightarrow> (\<exists>s \<in> set slots. case sl_track s of Some a \<Rightarrow> trk_id a = trk_id t | None \<Rightarrow> False)"

text \<open>The first loop: slots of departed tracks fall silent. Yields the slots and the freed ones.\<close>

fun free_slots :: "trk list \<Rightarrow> slot list \<Rightarrow> slot list \<times> (string \<times> nat) list" where
  "free_slots want [] = ([], [])"
| "free_slots want (s # ss) =
     (case free_slots want ss of (ss', freed) \<Rightarrow>
      case sl_track s of
        None \<Rightarrow> (s # ss', freed)
      | Some t \<Rightarrow> if has_track want t then (s # ss', freed)
                  else (s\<lparr>sl_track := None\<rparr> # ss', (sl_stream_id s, trk_id t) # freed))"

text \<open>The second loop: new tracks into free slots, until either runs out.\<close>

fun place_tracks :: "slot list \<Rightarrow> trk list \<Rightarrow> slot list \<times> (slot \<times> trk) list \<times> trk list" where
  "place_tracks [] new = ([], [], new)"
| "place_tracks (s # ss) new =
     (if sl_track s = None
      then (case new of
              [] \<Rightarrow> (s # ss, [], [])
            | t # new' \<Rightarrow>
                (case place_tracks ss new' of (ss', placed, rest) \<Rightarrow>
                   (s\<lparr>sl_track := Some t\<rparr> # ss', (s, t) # placed, rest)))
      else (case place_tracks ss new of (ss', placed, rest) \<Rightarrow> (s # ss', placed, rest)))"

definition new_slot :: "(nat \<Rightarrow> string) \<Rightarrow> nat \<Rightarrow> nat \<Rightarrow> slot" where
  "new_slot mids out i =
     \<lparr>sl_mid = mids i, sl_stream_id = ''slot-'' @ dec i, sl_track = None, sl_open = False, sl_out = out\<rparr>"

definition div_ceil :: "nat \<Rightarrow> nat \<Rightarrow> nat" where
  "div_ceil a b = (a + b - 1) div b"

definition reconcile ::
  "string \<Rightarrow> (nat \<Rightarrow> string) \<Rightarrow> bool \<Rightarrow> bool \<Rightarrow> trk list \<Rightarrow> sync_state \<Rightarrow> sync_state \<times> audio_act list" where
  "reconcile peer_id mids live applied tracks st =
     (if \<not> live then (st, [])
      else
        let want = filter (\<lambda>t. trk_owner t \<noteq> peer_id) tracks;
            (slots1, freed) = free_slots want (ss_slots st);
            new = sort_key trk_owner (filter (\<lambda>t. \<not> slot_carries slots1 t) want);
            (slots2, placed, rest) = place_tracks slots1 new;
            assignments = map (\<lambda>(sid, _). (sid, None)) freed
                        @ map (\<lambda>(s, t). (sl_stream_id s, Some (trk_owner t))) placed;
            acts = map (\<lambda>(_, t). RemoveSub t) freed
                 @ (if assignments = [] then [] else [AudioSlotsMsg assignments])
                 @ map (\<lambda>(s, t). AddSub (trk_id t) (sl_mid s) (sl_out s)) placed;
            waiting = length rest;
            grow = (if slots2 = [] then max INITIAL_SLOTS waiting
                    else div_ceil waiting SLOT_GROWTH * SLOT_GROWTH)
        in if grow = 0 then (st\<lparr>ss_slots := slots2\<rparr>, acts)
           else let n = length slots2;
                    grown = map (\<lambda>k. new_slot mids (ss_next_out st + k) (n + k)) [0..<grow]
                in if \<not> applied
                   then (st\<lparr>ss_slots := filter sl_open (slots2 @ grown), ss_next_out := ss_next_out st + grow\<rparr>, acts)
                   else (st\<lparr>ss_slots := slots2 @ grown, ss_pending := True, ss_next_out := ss_next_out st + grow\<rparr>,
                         acts @ [OfferMsg grow]))"

definition sync ::
  "string \<Rightarrow> (nat \<Rightarrow> string) \<Rightarrow> bool \<Rightarrow> bool \<Rightarrow> trk list \<Rightarrow> sync_state \<Rightarrow> sync_state \<times> audio_act list" where
  "sync peer_id mids live applied tracks st =
     (if ss_pending st then (st, []) else reconcile peer_id mids live applied tracks st)"

definition accept_answer ::
  "string \<Rightarrow> (nat \<Rightarrow> string) \<Rightarrow> bool \<Rightarrow> bool \<Rightarrow> bool \<Rightarrow> trk list \<Rightarrow> sync_state \<Rightarrow> sync_state \<times> audio_act list" where
  "accept_answer peer_id mids live applied accepted tracks st =
     (if \<not> ss_pending st then (st, [])
      else reconcile peer_id mids live applied tracks
             (st\<lparr>ss_pending := False,
                 ss_slots := (if accepted then map (\<lambda>s. s\<lparr>sl_open := True\<rparr>) (ss_slots st)
                              else filter sl_open (ss_slots st))\<rparr>))"

text \<open>\<open>AudioPeer::close\<close>: the tracks in its slots lose this subscriber.\<close>

definition close_audio :: "sync_state \<Rightarrow> audio_act list" where
  "close_audio st = map (\<lambda>t. RemoveSub (trk_id t)) (List.map_filter sl_track (ss_slots st))"

section \<open>What the loops do\<close>

definition carried :: "slot list \<Rightarrow> trk list" where
  "carried ss = List.map_filter sl_track ss"

lemma carried_simps [simp]:
  "carried [] = []"
  "carried (s # ss) = (case sl_track s of None \<Rightarrow> carried ss | Some t \<Rightarrow> t # carried ss)"
  "carried (xs @ ys) = carried xs @ carried ys"
  by (simp_all add: carried_def List.map_filter_def split: option.splits)

lemma set_carried: "set (carried ss) = {t. \<exists>s \<in> set ss. sl_track s = Some t}"
  by (induction ss) (auto split: option.splits)

text \<open>A slot with its track forgotten: what no loop changes.\<close>

definition frame_of :: "slot \<Rightarrow> string \<times> string \<times> bool \<times> nat" where
  "frame_of s = (sl_mid s, sl_stream_id s, sl_open s, sl_out s)"

lemma frame_of_track [simp]: "frame_of (s\<lparr>sl_track := t\<rparr>) = frame_of s"
  by (simp add: frame_of_def)

lemma free_slots_spec:
  "free_slots want ss = (ss', freed) \<Longrightarrow>
   map frame_of ss' = map frame_of ss \<and> carried ss' = filter (has_track want) (carried ss)
   \<and> map snd freed = map trk_id (filter (\<lambda>t. \<not> has_track want t) (carried ss))"
proof (induction ss arbitrary: ss' freed)
  case Nil
  then show ?case by simp
next
  case (Cons s ss)
  obtain ss1 f1 where rec: "free_slots want ss = (ss1, f1)" by (cases "free_slots want ss") auto
  from Cons.IH [OF rec] Cons.prems rec show ?case
    by (cases "sl_track s") (auto split: if_splits)
qed

lemma length_carried: "length (carried ss) \<le> length ss"
  by (simp add: carried_def List.map_filter_def)

lemma place_tracks_spec:
  "place_tracks ss new = (ss', placed, rest) \<Longrightarrow>
   map frame_of ss' = map frame_of ss \<and> map snd placed @ rest = new
   \<and> mset (carried ss') = mset (carried ss) + mset (map snd placed)
   \<and> (rest \<noteq> [] \<longrightarrow> (\<forall>s \<in> set ss'. sl_track s \<noteq> None))
   \<and> length placed = min (length new) (length ss - length (carried ss))"
proof (induction ss new arbitrary: ss' placed rest rule: place_tracks.induct)
  case (1 new)
  then show ?case by simp
next
  case (2 s ss new)
  show ?case
  proof (cases "sl_track s")
    case None
    show ?thesis
    proof (cases new)
      case Nil
      with 2 None show ?thesis by auto
    next
      case (Cons t new')
      obtain ss1 p1 r1 where rec: "place_tracks ss new' = (ss1, p1, r1)" by (cases "place_tracks ss new'") auto
      from "2.IH"(1) [OF None Cons rec] "2.prems" rec None Cons length_carried [of ss]
      show ?thesis by (auto simp: Suc_diff_le)
    qed
  next
    case (Some t)
    obtain ss1 p1 r1 where rec: "place_tracks ss new = (ss1, p1, r1)" by (cases "place_tracks ss new") auto
    from "2.IH"(2) [OF _ rec] "2.prems" rec Some show ?thesis by auto
  qed
qed

section \<open>The invariant of the pool\<close>

definition slots_ok :: "string \<Rightarrow> slot list \<Rightarrow> bool" where
  "slots_ok me ss \<longleftrightarrow>
     (\<exists>k m. map sl_open ss = replicate k True @ replicate m False)
   \<and> map sl_stream_id ss = map (\<lambda>i. ''slot-'' @ dec i) [0..<length ss]
   \<and> distinct (map trk_id (carried ss))
   \<and> (\<forall>t \<in> set (carried ss). trk_owner t \<noteq> me)
   \<and> (\<forall>s \<in> set ss. \<not> sl_open s \<longrightarrow> sl_track s = None)"

definition sync_inv :: "string \<Rightarrow> sync_state \<Rightarrow> bool" where
  "sync_inv me st \<longleftrightarrow>
     slots_ok me (ss_slots st) \<and> (\<not> ss_pending st \<longrightarrow> (\<forall>s \<in> set (ss_slots st). sl_open s))"

lemma frame_of_sel:
  "map frame_of xs = map frame_of ys \<Longrightarrow> map sl_open xs = map sl_open ys \<and> map sl_stream_id xs = map sl_stream_id ys"
proof -
  assume eq: "map frame_of xs = map frame_of ys"
  have o: "map sl_open zs = map (\<lambda>(_, _, o', _). o') (map frame_of zs)"
    and i: "map sl_stream_id zs = map (\<lambda>(_, i, _, _). i) (map frame_of zs)" for zs
    by (simp_all add: frame_of_def)
  show ?thesis unfolding o i eq by simp
qed

text \<open>The middle of \<open>reconcile\<close>: the slots after both loops, and the tracks still waiting.\<close>

lemma loops:
  assumes "free_slots want slots = (slots1, freed)"
    and "place_tracks slots1 (sort_key trk_owner (filter (\<lambda>t. \<not> slot_carries slots1 t) want)) = (slots2, placed, rest)"
    and "distinct (map trk_id want)" and "distinct (map trk_id (carried slots))"
  shows "map frame_of slots2 = map frame_of slots"
    and "distinct (map trk_id (carried slots2))"
    and "set (carried slots2) \<subseteq> set want \<union> set (carried slots)"
    and "trk_id ` (set (carried slots2) \<union> set rest) = trk_id ` set want"
    and "rest \<noteq> [] \<longrightarrow> (\<forall>s \<in> set slots2. sl_track s \<noteq> None)"
    and "length rest = length want - length (carried slots2)"
proof -
  let ?new = "filter (\<lambda>t. \<not> slot_carries slots1 t) want"
  note f = free_slots_spec [OF assms(1)] and p = place_tracks_spec [OF assms(2)]
  from f p show "map frame_of slots2 = map frame_of slots" by simp
  from p show "rest \<noteq> [] \<longrightarrow> (\<forall>s \<in> set slots2. sl_track s \<noteq> None)" by blast
  have carr: "slot_carries slots1 t \<longleftrightarrow> trk_id t \<in> trk_id ` set (carried slots1)" for t
  proof -
    have "slot_carries slots1 t \<longleftrightarrow> (\<exists>s \<in> set slots1. \<exists>a. sl_track s = Some a \<and> trk_id a = trk_id t)"
      unfolding slot_carries_def by (rule bex_cong [OF refl]) (simp split: option.split)
    also have "\<dots> \<longleftrightarrow> (\<exists>a \<in> set (carried slots1). trk_id a = trk_id t)" unfolding set_carried by blast
    finally show ?thesis by (metis imageE imageI)
  qed
  have split: "mset (map snd placed) + mset rest = mset ?new"
    using p by (metis mset_append mset_sort)
  then have set_new: "set (map snd placed) \<union> set rest = set ?new"
    by (metis set_mset_mset set_mset_union)
  have m2: "mset (carried slots2) = mset (carried slots1) + mset (map snd placed)" using p by blast
  then have set2: "set (carried slots2) = set (carried slots1) \<union> set (map snd placed)"
    by (metis set_mset_mset set_mset_union)
  have c1: "carried slots1 = filter (has_track want) (carried slots)" using f by blast
  have keep: "trk_id ` set (carried slots1) \<subseteq> trk_id ` set want"
    by (force simp: c1 has_track_def)
  have "distinct (map trk_id (carried slots1))"
    unfolding c1 by (rule distinct_map_filter [OF assms(4)])
  moreover have dn: "distinct (map trk_id ?new)" by (rule distinct_map_filter [OF assms(3)])
  moreover have "trk_id ` set ?new \<inter> trk_id ` set (carried slots1) = {}" by (auto simp: carr)
  moreover have "mset (map trk_id (carried slots2)) + mset (map trk_id rest) =
      mset (map trk_id (carried slots1)) + mset (map trk_id ?new)"
    using m2 split by (metis ab_semigroup_add_class.add_ac(1) mset_map image_mset_union)
  ultimately have d: "distinct (map trk_id (carried slots2) @ map trk_id rest)"
    by (metis distinct_append list.set_map mset_append mset_eq_imp_distinct_iff inf_commute)
  then show "distinct (map trk_id (carried slots2))" by simp
  show sub: "set (carried slots2) \<subseteq> set want \<union> set (carried slots)"
    using set2 set_new by (auto simp: c1)
  have "trk_id ` (set (carried slots2) \<union> set rest) = trk_id ` (set (carried slots1) \<union> set ?new)"
    using set2 set_new by (metis Un_assoc)
  also have "\<dots> = trk_id ` set want" using keep by (auto simp: carr)
  finally show ids: "trk_id ` (set (carried slots2) \<union> set rest) = trk_id ` set want" .
  have "length (carried slots2) + length rest = card (trk_id ` (set (carried slots2) \<union> set rest))"
    using distinct_card [OF d] by (simp add: image_Un)
  also have "\<dots> = length want" unfolding ids using distinct_card [OF assms(3)] by simp
  finally show "length rest = length want - length (carried slots2)" by simp
qed

definition grow_by :: "slot list \<Rightarrow> nat \<Rightarrow> nat" where
  "grow_by slots waiting =
     (if slots = [] then max INITIAL_SLOTS waiting else div_ceil waiting SLOT_GROWTH * SLOT_GROWTH)"

lemma grow_by_enough: "waiting \<le> grow_by slots waiting"
proof -
  have "waiting \<le> (waiting + 3) div 4 * 4" by presburger
  then show ?thesis by (simp add: grow_by_def div_ceil_def SLOT_GROWTH_def add.commute)
qed

lemma grow_by_0: "grow_by slots waiting = 0 \<longleftrightarrow> slots \<noteq> [] \<and> waiting = 0"
proof -
  have "(waiting + 3) div 4 = 0 \<longleftrightarrow> waiting = 0" by presburger
  then show ?thesis by (simp add: grow_by_def div_ceil_def SLOT_GROWTH_def INITIAL_SLOTS_def add.commute)
qed

lemma reconcile_cases:
  assumes "distinct (map trk_id tracks)" and "distinct (map trk_id (carried (ss_slots st)))"
  obtains slots2 rest grown where
    "map frame_of slots2 = map frame_of (ss_slots st)"
    "distinct (map trk_id (carried slots2))"
    "\<forall>t \<in> set (carried slots2). t \<in> set tracks \<and> trk_owner t \<noteq> me \<or> t \<in> set (carried (ss_slots st))"
    "trk_id ` (set (carried slots2) \<union> set rest) = trk_id ` {t \<in> set tracks. trk_owner t \<noteq> me}"
    "length rest + length (carried slots2) = length (filter (\<lambda>t. trk_owner t \<noteq> me) tracks)"
    "rest \<noteq> [] \<longrightarrow> (\<forall>s \<in> set slots2. sl_track s \<noteq> None)"
    "grown = map (\<lambda>k. new_slot mids (ss_next_out st + k) (length slots2 + k)) [0..<grow_by slots2 (length rest)]"
    "ss_slots (fst (reconcile me mids True applied tracks st)) =
       (if applied \<or> grown = [] then slots2 @ grown else filter sl_open (slots2 @ grown))"
    "ss_pending (fst (reconcile me mids True applied tracks st)) = (ss_pending st \<or> applied \<and> grown \<noteq> [])"
proof -
  define want where "want = filter (\<lambda>t. trk_owner t \<noteq> me) tracks"
  obtain slots1 freed where f: "free_slots want (ss_slots st) = (slots1, freed)"
    by (cases "free_slots want (ss_slots st)") auto
  obtain slots2 placed rest where p: "place_tracks slots1
      (sort_key trk_owner (filter (\<lambda>t. \<not> slot_carries slots1 t) want)) = (slots2, placed, rest)"
    by (cases "place_tracks slots1 (sort_key trk_owner (filter (\<lambda>t. \<not> slot_carries slots1 t) want))") auto
  have dw: "distinct (map trk_id want)" unfolding want_def by (rule distinct_map_filter [OF assms(1)])
  note l = loops [OF f p dw assms(2)]
  have "length (carried slots2) \<le> length want"
  proof -
    have "length (carried slots2) = card (trk_id ` set (carried slots2))"
      using distinct_card [OF l(2)] by simp
    also have "\<dots> \<le> card (trk_id ` set want)" by (rule card_mono) (use l(4) in auto)
    also have "\<dots> = length want" using distinct_card [OF dw] by simp
    finally show ?thesis .
  qed
  then have len: "length rest + length (carried slots2) = length want" using l(6) by simp
  define grown where "grown = map (\<lambda>k. new_slot mids (ss_next_out st + k) (length slots2 + k)) [0..<grow_by slots2 (length rest)]"
  have r: "reconcile me mids True applied tracks st =
      (let assignments = map (\<lambda>(sid, _). (sid, None)) freed @ map (\<lambda>(s, t). (sl_stream_id s, Some (trk_owner t))) placed;
           acts = map (\<lambda>(_, t). RemoveSub t) freed
                 @ (if assignments = [] then [] else [AudioSlotsMsg assignments])
                 @ map (\<lambda>(s, t). AddSub (trk_id t) (sl_mid s) (sl_out s)) placed
       in if grow_by slots2 (length rest) = 0 then (st\<lparr>ss_slots := slots2\<rparr>, acts)
          else if \<not> applied
          then (st\<lparr>ss_slots := filter sl_open (slots2 @ grown), ss_next_out := ss_next_out st + grow_by slots2 (length rest)\<rparr>, acts)
          else (st\<lparr>ss_slots := slots2 @ grown, ss_pending := True, ss_next_out := ss_next_out st + grow_by slots2 (length rest)\<rparr>,
                acts @ [OfferMsg (grow_by slots2 (length rest))]))"
    by (simp only: reconcile_def grown_def grow_by_def Let_def want_def [symmetric] f p prod.case
      not_True_eq_False if_False)
  have empty: "grown = [] \<longleftrightarrow> grow_by slots2 (length rest) = 0" by (simp add: grown_def)
  show thesis
  proof (rule that [of slots2 rest grown])
    show "\<forall>t \<in> set (carried slots2). t \<in> set tracks \<and> trk_owner t \<noteq> me \<or> t \<in> set (carried (ss_slots st))"
      using l(3) by (auto simp: want_def)
    show "trk_id ` (set (carried slots2) \<union> set rest) = trk_id ` {t \<in> set tracks. trk_owner t \<noteq> me}"
      using l(4) by (simp add: want_def)
    show "length rest + length (carried slots2) = length (filter (\<lambda>t. trk_owner t \<noteq> me) tracks)"
      using len by (simp add: want_def)
    show "ss_slots (fst (reconcile me mids True applied tracks st)) =
       (if applied \<or> grown = [] then slots2 @ grown else filter sl_open (slots2 @ grown))"
      by (simp add: r Let_def empty)
    show "ss_pending (fst (reconcile me mids True applied tracks st)) = (ss_pending st \<or> applied \<and> grown \<noteq> [])"
      by (simp add: r Let_def empty)
  qed (use l in \<open>simp_all add: grown_def\<close>)
qed

lemma new_slot_simps [simp]:
  "sl_open (new_slot mids o' i) = False" "sl_track (new_slot mids o' i) = None"
  "sl_stream_id (new_slot mids o' i) = ''slot-'' @ dec i"
  by (simp_all add: new_slot_def)

lemma carried_none: "\<forall>s \<in> set ss. sl_track s = None \<Longrightarrow> carried ss = []"
  by (induction ss) auto

text \<open>The invariant of the slots of an answered pool, and of such a pool with new slots behind it.\<close>

definition opened_ok :: "string \<Rightarrow> slot list \<Rightarrow> bool" where
  "opened_ok me ss \<longleftrightarrow> (\<forall>s \<in> set ss. sl_open s)
   \<and> map sl_stream_id ss = map (\<lambda>i. ''slot-'' @ dec i) [0..<length ss]
   \<and> distinct (map trk_id (carried ss)) \<and> (\<forall>t \<in> set (carried ss). trk_owner t \<noteq> me)"

lemma opened_grown:
  assumes "opened_ok me ss"
    and "grown = map (\<lambda>k. new_slot mids (o' + k) (length ss + k)) [0..<g]"
  shows "slots_ok me (ss @ grown)" and "filter sl_open (ss @ grown) = ss"
proof -
  have "map sl_open ss = map (\<lambda>_. True) ss" using assms(1) by (simp add: opened_ok_def)
  then have o1: "map sl_open ss = replicate (length ss) True" by (simp add: map_replicate_const)
  have o2: "map sl_open grown = replicate g False" by (simp add: assms(2) comp_def map_replicate_const)
  have "map (\<lambda>k. ''slot-'' @ dec (length ss + k)) [0..<g] =
      map (\<lambda>i. ''slot-'' @ dec i) (map (\<lambda>k. k + length ss) [0..<g])" by (simp add: add.commute)
  also have "\<dots> = map (\<lambda>i. ''slot-'' @ dec i) [length ss..<length ss + g]"
    by (simp only: map_add_upt add.commute)
  finally have ids: "map sl_stream_id grown = map (\<lambda>i. ''slot-'' @ dec i) [length ss..<length ss + g]"
    by (simp add: assms(2) comp_def)
  have len: "length grown = g" by (simp add: assms(2))
  have "[0..<length ss + g] = [0..<length ss] @ [length ss..<length ss + g]"
    by (rule upt_add_eq_append) simp
  then have ids2: "map sl_stream_id (ss @ grown) = map (\<lambda>i. ''slot-'' @ dec i) [0..<length (ss @ grown)]"
    using ids assms(1) len by (simp add: opened_ok_def)
  have "carried grown = []" by (rule carried_none) (simp add: assms(2))
  then show "slots_ok me (ss @ grown)"
    using assms(1) ids2 o1 o2 unfolding slots_ok_def by (auto simp: opened_ok_def assms(2))
  show "filter sl_open (ss @ grown) = ss"
    using assms(1) by (auto simp: opened_ok_def assms(2))
qed

lemma sync_inv_opened:
  "\<not> ss_pending st \<Longrightarrow> sync_inv me st \<longleftrightarrow> opened_ok me (ss_slots st)"
proof
  assume "\<not> ss_pending st" "opened_ok me (ss_slots st)"
  then show "sync_inv me st"
    using opened_grown(1) [of me "ss_slots st" "[]" _ 0 0] by (simp add: sync_inv_def opened_ok_def)
qed (auto simp: sync_inv_def slots_ok_def opened_ok_def)

lemma reconcile_inv:
  assumes ok: "opened_ok me (ss_slots st)" and np: "\<not> ss_pending st" and d: "distinct (map trk_id tracks)"
  shows "sync_inv me (fst (reconcile me mids live applied tracks st))"
proof (cases live)
  case False
  with ok np show ?thesis by (simp add: reconcile_def sync_inv_opened)
next
  case True
  have dc: "distinct (map trk_id (carried (ss_slots st)))" using ok by (simp add: opened_ok_def)
  show ?thesis
  proof (rule reconcile_cases [OF d dc, of me mids applied])
  fix slots2 rest grown
  assume c:
    "map frame_of slots2 = map frame_of (ss_slots st)"
    "distinct (map trk_id (carried slots2))"
    "\<forall>t \<in> set (carried slots2). t \<in> set tracks \<and> trk_owner t \<noteq> me \<or> t \<in> set (carried (ss_slots st))"
    and grown: "grown = map (\<lambda>k. new_slot mids (ss_next_out st + k) (length slots2 + k)) [0..<grow_by slots2 (length rest)]"
    and slots: "ss_slots (fst (reconcile me mids True applied tracks st)) =
       (if applied \<or> grown = [] then slots2 @ grown else filter sl_open (slots2 @ grown))"
    and pend: "ss_pending (fst (reconcile me mids True applied tracks st)) = (ss_pending st \<or> applied \<and> grown \<noteq> [])"
  have len: "length slots2 = length (ss_slots st)" using arg_cong [OF c(1), of length] by simp
  have "set (map sl_open slots2) = set (map sl_open (ss_slots st))" using frame_of_sel [OF c(1)] by metis
  then have "\<forall>s \<in> set slots2. sl_open s" using ok by (auto simp: opened_ok_def)
  then have ok2: "opened_ok me slots2"
    using ok c frame_of_sel [OF c(1)] len by (auto simp: opened_ok_def)
  note g = opened_grown [OF ok2 grown]
  show ?thesis
  proof (cases "applied \<and> grown \<noteq> []")
    case True
    with pend slots g(1) \<open>live\<close> show ?thesis by (simp add: sync_inv_def)
  next
    case False
    then have "ss_slots (fst (reconcile me mids True applied tracks st)) = slots2" using slots g(2) by auto
    with False pend np ok2 \<open>live\<close> show ?thesis by (simp add: sync_inv_opened)
  qed
  qed
qed

section \<open>Every run keeps it\<close>

text \<open>A peer's PC is synced with the room's tracks, or its client answers the pending offer.\<close>

datatype pool_event =
    PoolSync "nat \<Rightarrow> string" bool bool "trk list"
  | PoolAnswer "nat \<Rightarrow> string" bool bool bool "trk list"

fun pool_step :: "string \<Rightarrow> sync_state \<Rightarrow> pool_event \<Rightarrow> sync_state" where
  "pool_step me st (PoolSync mids live applied tracks) = fst (sync me mids live applied tracks st)"
| "pool_step me st (PoolAnswer mids live applied accepted tracks) =
     fst (accept_answer me mids live applied accepted tracks st)"

fun pool_event_ok :: "pool_event \<Rightarrow> bool" where
  "pool_event_ok (PoolSync mids live applied tracks) = distinct (map trk_id tracks)"
| "pool_event_ok (PoolAnswer mids live applied accepted tracks) = distinct (map trk_id tracks)"

lemma carried_open [simp]: "carried (map (\<lambda>s. s\<lparr>sl_open := True\<rparr>) ss) = carried ss"
  by (induction ss) (auto split: option.splits)

lemma answered_ok:
  assumes "slots_ok me ss"
  shows "opened_ok me (map (\<lambda>s. s\<lparr>sl_open := True\<rparr>) ss)" and "opened_ok me (filter sl_open ss)"
proof -
  show "opened_ok me (map (\<lambda>s. s\<lparr>sl_open := True\<rparr>) ss)"
    using assms by (simp add: slots_ok_def opened_ok_def comp_def)
  from assms obtain k m where o': "map sl_open ss = replicate k True @ replicate m False"
    by (auto simp: slots_ok_def)
  have len: "length ss = k + m" using arg_cong [OF o', of length] by simp
  have "take k (map sl_open ss) = replicate k True" and "drop k (map sl_open ss) = replicate m False"
    by (simp_all add: o')
  then have "set (map sl_open (take k ss)) \<subseteq> {True}" and "set (map sl_open (drop k ss)) \<subseteq> {False}"
    by (auto simp only: take_map drop_map set_replicate_conv_if split: if_splits)
  then have opens: "\<forall>s \<in> set (take k ss). sl_open s" and "\<forall>s \<in> set (drop k ss). \<not> sl_open s"
    by auto
  then have "filter sl_open (take k ss @ drop k ss) = take k ss"
    unfolding filter_append by simp
  then have f: "filter sl_open ss = take k ss" by simp
  have "carried ss = carried (take k ss) @ carried (drop k ss)"
    by (metis append_take_drop_id carried_simps(3))
  moreover have "map sl_stream_id (take k ss) = map (\<lambda>i. ''slot-'' @ dec i) [0..<length (take k ss)]"
    using assms len by (simp add: slots_ok_def flip: take_map) (simp add: take_map)
  ultimately show "opened_ok me (filter sl_open ss)"
    using assms opens unfolding f by (simp add: slots_ok_def opened_ok_def)
qed

lemma pool_inv_step: "sync_inv me st \<Longrightarrow> pool_event_ok e \<Longrightarrow> sync_inv me (pool_step me st e)"
proof (cases e)
  case (PoolSync mids live applied tracks)
  then show "sync_inv me st \<Longrightarrow> pool_event_ok e \<Longrightarrow> ?thesis"
    using reconcile_inv [of me st tracks mids live applied]
    by (auto simp: sync_def sync_inv_opened)
next
  case (PoolAnswer mids live applied accepted tracks)
  assume inv: "sync_inv me st" and ok: "pool_event_ok e"
  let ?st = "st\<lparr>ss_pending := False, ss_slots := (if accepted then map (\<lambda>s. s\<lparr>sl_open := True\<rparr>) (ss_slots st)
                              else filter sl_open (ss_slots st))\<rparr>"
  have "opened_ok me (ss_slots ?st)"
    using inv answered_ok [of me "ss_slots st"] by (auto simp: sync_inv_def)
  then have "sync_inv me (fst (reconcile me mids live applied tracks ?st))"
    using ok PoolAnswer by (intro reconcile_inv) auto
  then show ?thesis using inv PoolAnswer by (simp add: accept_answer_def)
qed

interpretation pool: stepper "pool_step me" "\<lambda>_. pool_event_ok" "sync_inv me"
  by unfold_locales (rule pool_inv_step)

lemma sync_inv_start: "sync_inv me no_sync"
  by (simp add: sync_inv_opened no_sync_def opened_ok_def)

section \<open>Properties\<close>

text \<open>
  C24. Through any sequence of syncs and answers, accepted or refused, and whatever the room's
  tracks are at each: slot \<open>i\<close> is named \<open>slot-i\<close>, the answered slots come first, a slot the
  client has not answered carries no track, no track is in two slots, a peer never hears itself,
  and when no offer is in flight every slot is answered.
\<close>
theorem slot_pool_invariant:
  assumes "\<forall>e \<in> set es. pool_event_ok e"
  shows "sync_inv me (foldl (pool_step me) no_sync es)"
proof -
  have "valid_run (pool_step me) (\<lambda>_. pool_event_ok) st es" for st
    using assms by (induction es arbitrary: st) auto
  then show ?thesis by (rule pool.inv_run [OF sync_inv_start])
qed

definition demo_pool :: "pool_event list" where
  "demo_pool = [PoolSync dec True True [(7, ''bob'')], PoolAnswer dec True True True [(7, ''bob'')]]"

theorem slot_pool_invariant_witness:
  "sync_inv ''ann'' (foldl (pool_step ''ann'') no_sync demo_pool)"
  by (rule slot_pool_invariant) (simp add: demo_pool_def)

definition other_tracks :: "string \<Rightarrow> trk list \<Rightarrow> trk list" where
  "other_tracks me tracks = filter (\<lambda>t. trk_owner t \<noteq> me) tracks"

lemma all_tracked: "\<forall>s \<in> set ss. sl_track s \<noteq> None \<Longrightarrow> length (carried ss) = length ss"
  by (induction ss) auto

definition settle :: "string \<Rightarrow> (nat \<Rightarrow> string) \<Rightarrow> trk list \<Rightarrow> sync_state \<Rightarrow> sync_state" where
  "settle me mids tracks st =
     (let st1 = pool_step me st (PoolSync mids True True tracks)
      in if ss_pending st1 then pool_step me st1 (PoolAnswer mids True True True tracks) else st1)"

text \<open>
  C8. Everyone is heard after at most one round trip: syncing a pool with no offer in flight
  and, if that offers more slots, the client's answer while the tracks stay the same, leave no
  offer in flight and exactly the other peers' tracks in the slots, each once.
\<close>
theorem slots_settle_in_one_round:
  assumes "sync_inv me st" and "\<not> ss_pending st" and "distinct (map trk_id tracks)"
  shows "\<not> ss_pending (settle me mids tracks st)
    \<and> trk_id ` set (carried (ss_slots (settle me mids tracks st))) = trk_id ` set (other_tracks me tracks)
    \<and> length (carried (ss_slots (settle me mids tracks st))) = length (other_tracks me tracks)"
proof -
  have ok: "opened_ok me (ss_slots st)" using assms by (simp add: sync_inv_opened)
  then have dc: "distinct (map trk_id (carried (ss_slots st)))" by (simp add: opened_ok_def)
  let ?st1 = "fst (reconcile me mids True True tracks st)"
  have st1: "fst (sync me mids True True tracks st) = ?st1" using assms(2) by (simp add: sync_def)
  show ?thesis
  proof (rule reconcile_cases [OF assms(3) dc, of me mids True])
    fix slots2 rest grown
    assume c2: "distinct (map trk_id (carried slots2))"
      and ids: "trk_id ` (set (carried slots2) \<union> set rest) = trk_id ` {t \<in> set tracks. trk_owner t \<noteq> me}"
      and len: "length rest + length (carried slots2) = length (filter (\<lambda>t. trk_owner t \<noteq> me) tracks)"
      and grown: "grown = map (\<lambda>k. new_slot mids (ss_next_out st + k) (length slots2 + k)) [0..<grow_by slots2 (length rest)]"
      and slots: "ss_slots ?st1 = (if True \<or> grown = [] then slots2 @ grown else filter sl_open (slots2 @ grown))"
      and pend: "ss_pending ?st1 = (ss_pending st \<or> True \<and> grown \<noteq> [])"
    have cg: "carried grown = []" by (rule carried_none) (simp add: grown)
    show ?thesis
    proof (cases "grown = []")
      case True
      then have "rest = []" using grow_by_0 [of slots2 "length rest"] by (simp add: grown)
      with True ids len slots pend assms(2) show ?thesis
        by (simp add: settle_def Let_def st1 other_tracks_def)
    next
      case False
      let ?st2 = "?st1\<lparr>ss_pending := False, ss_slots := map (\<lambda>s. s\<lparr>sl_open := True\<rparr>) (ss_slots ?st1)\<rparr>"
      have dc2: "distinct (map trk_id (carried (ss_slots ?st2)))" using c2 slots cg by simp
      have settle: "settle me mids tracks st = fst (reconcile me mids True True tracks ?st2)"
        using False pend by (simp add: settle_def Let_def st1 accept_answer_def)
      show ?thesis
      proof (rule reconcile_cases [OF assms(3) dc2, of me mids True])
        fix slots3 rest3 grown3
        assume f3: "map frame_of slots3 = map frame_of (ss_slots ?st2)"
          and ids3: "trk_id ` (set (carried slots3) \<union> set rest3) = trk_id ` {t \<in> set tracks. trk_owner t \<noteq> me}"
          and len3: "length rest3 + length (carried slots3) = length (filter (\<lambda>t. trk_owner t \<noteq> me) tracks)"
          and full: "rest3 \<noteq> [] \<longrightarrow> (\<forall>s \<in> set slots3. sl_track s \<noteq> None)"
          and grown3: "grown3 = map (\<lambda>k. new_slot mids (ss_next_out ?st2 + k) (length slots3 + k)) [0..<grow_by slots3 (length rest3)]"
          and slots3: "ss_slots (fst (reconcile me mids True True tracks ?st2)) =
            (if True \<or> grown3 = [] then slots3 @ grown3 else filter sl_open (slots3 @ grown3))"
          and pend3: "ss_pending (fst (reconcile me mids True True tracks ?st2)) = (ss_pending ?st2 \<or> True \<and> grown3 \<noteq> [])"
        have l3: "length slots3 = length slots2 + length grown"
          using arg_cong [OF f3, of length] slots by simp
        have "rest3 = []"
        proof (rule ccontr)
          assume r3: "rest3 \<noteq> []"
          then have "length (carried slots3) = length slots2 + length grown"
            using full all_tracked l3 by metis
          moreover have "length rest \<le> length grown" using grow_by_enough by (simp add: grown)
          moreover have "length (carried slots2) \<le> length slots2" by (rule length_carried)
          ultimately have "length rest3 = 0" using len len3 by linarith
          then show False using r3 by simp
        qed
        moreover have "slots3 \<noteq> []" using l3 False by auto
        ultimately have g3: "grown3 = []" using grow_by_0 [of slots3 "length rest3"] grown3 by simp
        with \<open>rest3 = []\<close> ids3 len3 slots3 pend3 show ?thesis
          unfolding settle by (simp add: other_tracks_def)
      qed
    qed
  qed
qed

theorem slots_settle_in_one_round_witness:
  "trk_id ` set (carried (ss_slots (settle ''ann'' dec [(7, ''bob''), (9, ''ann'')] no_sync))) = {7}"
  using slots_settle_in_one_round [OF sync_inv_start, of "[(7, ''bob''), (9, ''ann'')]" "''ann''" dec]
  by (simp add: no_sync_def other_tracks_def)

end
