(* ===== verification/Text.thy ===== *)
theory Text
  imports Prelude
begin

text \<open>
  The operations on Rust strings that the code uses, on lists of UTF-8 bytes: characters,
  \<open>trim\<close>, \<open>split_whitespace\<close>, \<open>lines\<close>, \<open>split\<close> on a byte, \<open>strip_prefix\<close>, and \<open>parse\<close> of
  unsigned integers. White space is Unicode's, by the encodings of its 25 characters.
\<close>

section \<open>Bytes and characters\<close>

abbreviation byte_of :: "char \<Rightarrow> nat" where
  "byte_of c \<equiv> of_char c"

definition is_cont :: "char \<Rightarrow> bool" where
  "is_cont c \<longleftrightarrow> 128 \<le> byte_of c \<and> byte_of c < 192"

text \<open>A string cut into its characters: each starts at a byte that is no continuation byte.\<close>

function utf8_chars :: "string \<Rightarrow> string list" where
  "utf8_chars [] = []"
| "utf8_chars (c # cs) = (c # takeWhile is_cont cs) # utf8_chars (dropWhile is_cont cs)"
  by pat_completeness auto
termination
  by (relation "measure length") (auto simp: le_imp_less_Suc length_dropWhile_le)

lemma concat_utf8_chars [simp]: "concat (utf8_chars s) = s"
  by (induction s rule: utf8_chars.induct) simp_all

definition ascii :: "nat list \<Rightarrow> string" where
  "ascii ns = map char_of ns"

definition ws_chars :: "string list" where
  "ws_chars = map ascii
     ([[9], [10], [11], [12], [13], [32], [194, 133], [194, 160], [225, 154, 128]]
      @ map (\<lambda>b. [226, 128, b]) [128..<139]
      @ [[226, 128, 168], [226, 128, 169], [226, 128, 175], [226, 129, 159], [227, 128, 128]])"

definition is_ws :: "string \<Rightarrow> bool" where
  "is_ws c \<longleftrightarrow> c \<in> set ws_chars"

section \<open>Trimming and splitting\<close>

definition trim_chars :: "string list \<Rightarrow> string list" where
  "trim_chars cs = rev (dropWhile is_ws (rev (dropWhile is_ws cs)))"

definition trim :: "string \<Rightarrow> string" where
  "trim s = concat (trim_chars (utf8_chars s))"

fun split_by :: "('a \<Rightarrow> bool) \<Rightarrow> 'a list \<Rightarrow> 'a list list" where
  "split_by P [] = [[]]"
| "split_by P (x # xs) =
     (if P x then [] # split_by P xs
      else case split_by P xs of [] \<Rightarrow> [[x]] | ys # yss \<Rightarrow> (x # ys) # yss)"

definition split_on :: "char \<Rightarrow> string \<Rightarrow> string list" where
  "split_on c s = split_by (\<lambda>x. x = c) s"

definition split_whitespace :: "string \<Rightarrow> string list" where
  "split_whitespace s = filter (\<lambda>w. w \<noteq> []) (map concat (split_by is_ws (utf8_chars s)))"

definition nl :: char where "nl = char_of (10 :: nat)"
definition cr :: char where "cr = char_of (13 :: nat)"

definition strip_cr :: "string \<Rightarrow> string" where
  "strip_cr s = (if s \<noteq> [] \<and> last s = cr then butlast s else s)"

text \<open>\<open>str::lines\<close>: a final empty line is not yielded; a carriage return before the newline is dropped.\<close>

definition lines :: "string \<Rightarrow> string list" where
  "lines s =
     (let ls = split_on nl s
      in map strip_cr (butlast ls) @ (if last ls = [] then [] else [last ls]))"

definition strip_prefix :: "string \<Rightarrow> string \<Rightarrow> string option" where
  "strip_prefix p s = (if take (length p) s = p then Some (drop (length p) s) else None)"

definition starts_with :: "string \<Rightarrow> string \<Rightarrow> bool" where
  "starts_with p s \<longleftrightarrow> take (length p) s = p"

definition ends_with :: "string \<Rightarrow> string \<Rightarrow> bool" where
  "ends_with p s \<longleftrightarrow> length p \<le> length s \<and> drop (length s - length p) s = p"

definition strip_suffix :: "string \<Rightarrow> string \<Rightarrow> string option" where
  "strip_suffix p s = (if ends_with p s then Some (take (length s - length p) s) else None)"

text \<open>\<open>split_once\<close> at the first occurrence of a byte.\<close>

definition split_once :: "char \<Rightarrow> string \<Rightarrow> (string \<times> string) option" where
  "split_once c s =
     (if c \<in> set s then Some (takeWhile (\<lambda>x. x \<noteq> c) s, tl (dropWhile (\<lambda>x. x \<noteq> c) s)) else None)"

text \<open>\<open>rsplit_once\<close> at the last occurrence of a byte.\<close>

definition rsplit_once :: "char \<Rightarrow> string \<Rightarrow> (string \<times> string) option" where
  "rsplit_once c s = map_option (\<lambda>(b, a). (rev a, rev b)) (split_once c (rev s))"

text \<open>\<open>parse\<close> into an unsigned integer below a bound: one optional plus sign, then digits.\<close>

definition is_digit :: "char \<Rightarrow> bool" where
  "is_digit c \<longleftrightarrow> 48 \<le> byte_of c \<and> byte_of c \<le> 57"

definition parse_uint :: "nat \<Rightarrow> string \<Rightarrow> nat option" where
  "parse_uint bound s =
     (let ds = (case s of c # cs \<Rightarrow> if c = CHR ''+'' then cs else s | [] \<Rightarrow> [])
      in if ds \<noteq> [] \<and> list_all is_digit ds \<and> undec ds < bound then Some (undec ds) else None)"

text \<open>\<open>parse::<i64>\<close>: a sign, then digits, within range.\<close>

definition parse_i64 :: "string \<Rightarrow> int option" where
  "parse_i64 s =
     (case s of
        [] \<Rightarrow> None
      | c # cs \<Rightarrow>
          if c = CHR ''-''
          then (if cs \<noteq> [] \<and> list_all is_digit cs \<and> undec cs \<le> 2 ^ 63 then Some (- int (undec cs)) else None)
          else map_option int (parse_uint (2 ^ 63) s))"

definition dec_int :: "int \<Rightarrow> string" where
  "dec_int i = (if i < 0 then CHR ''-'' # dec (nat (- i)) else dec (nat i))"

text \<open>\<open>splitn\<close>: at most so many pieces, the last one whole.\<close>

fun splitn :: "nat \<Rightarrow> char \<Rightarrow> string \<Rightarrow> string list" where
  "splitn 0 c s = []"
| "splitn (Suc 0) c s = [s]"
| "splitn (Suc (Suc n)) c s =
     (case split_once c s of None \<Rightarrow> [s] | Some (a, b) \<Rightarrow> a # splitn (Suc n) c b)"

definition trim_matches :: "char \<Rightarrow> string \<Rightarrow> string" where
  "trim_matches c s = rev (dropWhile (\<lambda>x. x = c) (rev (dropWhile (\<lambda>x. x = c) s)))"

definition to_ascii_lower :: "string \<Rightarrow> string" where
  "to_ascii_lower s = map (\<lambda>c. if 65 \<le> byte_of c \<and> byte_of c \<le> 90 then char_of (byte_of c + 32) else c) s"

section \<open>Lemmas\<close>

lemma parse_uint_dec: "n < bound \<Longrightarrow> parse_uint bound (dec n) = Some n"
proof -
  assume n: "n < bound"
  have dg: "list_all is_digit (dec n)"
    using dec_digits by (auto simp: list_all_iff is_digit_def)
  have "hd (dec n) \<in> set (dec n)" by simp
  then have "hd (dec n) \<noteq> CHR ''+''"
    using dec_digits [of "hd (dec n)" n] by auto
  then have "(case dec n of c # cs \<Rightarrow> if c = CHR ''+'' then cs else dec n | [] \<Rightarrow> []) = dec n"
    by (cases "dec n") auto
  with n dg show ?thesis by (simp add: parse_uint_def)
qed

lemma parse_uint_bound: "parse_uint bound s = Some n \<Longrightarrow> n < bound"
  by (auto simp: parse_uint_def Let_def split: if_splits)

lemma split_by_not_Nil [simp]: "split_by P xs \<noteq> []"
  by (induction xs) (auto split: list.splits)

lemma split_by_pieces: "ys \<in> set (split_by P xs) \<Longrightarrow> y \<in> set ys \<Longrightarrow> y \<in> set xs \<and> \<not> P y"
proof (induction xs arbitrary: ys y)
  case Nil
  then show ?case by simp
next
  case (Cons x xs)
  obtain z zs where z: "split_by P xs = z # zs" by (cases "split_by P xs") auto
  show ?case
  proof (cases "P x")
    case True
    with Cons show ?thesis by fastforce
  next
    case False
    with Cons.prems z consider "ys = x # z" | "ys \<in> set (split_by P xs)" by auto
    then show ?thesis
    proof cases
      case 1
      then show ?thesis using Cons.IH [of z y] Cons.prems(2) z False by auto
    next
      case 2
      then show ?thesis using Cons.IH [of ys y] Cons.prems(2) by auto
    qed
  qed
qed

lemma split_once_append: "c \<notin> set a \<Longrightarrow> split_once c (a @ c # b) = Some (a, b)"
  by (induction a) (auto simp: split_once_def)

lemma split_once_None: "split_once c s = None \<longleftrightarrow> c \<notin> set s"
  by (simp add: split_once_def)

lemma split_once_SomeD: "split_once c s = Some (a, b) \<Longrightarrow> s = a @ c # b \<and> c \<notin> set a"
proof -
  assume a: "split_once c s = Some (a, b)"
  then have "c \<in> set s" by (auto simp: split_once_def split: if_splits)
  then obtain xs ys where s: "s = xs @ c # ys" "c \<notin> set xs" by (meson split_list_first)
  with a split_once_append [of c xs ys] show ?thesis by auto
qed

lemma rsplit_once_append: "c \<notin> set b \<Longrightarrow> rsplit_once c (a @ c # b) = Some (a, b)"
  using split_once_append [of c "rev b" "rev a"] by (simp add: rsplit_once_def)

lemma rsplit_once_SomeD: "rsplit_once c s = Some (a, b) \<Longrightarrow> s = a @ c # b \<and> c \<notin> set b"
  by (auto simp: rsplit_once_def dest!: split_once_SomeD) (metis append.assoc append_Cons append_Nil rev.simps(2) rev_append rev_rev_ident)

lemma strip_prefix_append [simp]: "strip_prefix p (p @ s) = Some s"
  by (simp add: strip_prefix_def)

lemma strip_prefix_SomeD: "strip_prefix p s = Some r \<Longrightarrow> s = p @ r"
  by (auto simp: strip_prefix_def split: if_splits) (metis append_take_drop_id)

lemma split_on_append: "c \<notin> set a \<Longrightarrow> split_on c (a @ c # b) = a # split_on c b"
  by (induction a) (auto simp: split_on_def)

lemma split_on_none: "c \<notin> set a \<Longrightarrow> split_on c a = [a]"
  by (induction a) (auto simp: split_on_def)

text \<open>Trimming removes white space only, and nothing in between.\<close>

lemma trim_chars_decomp:
  "\<exists>l r. cs = l @ trim_chars cs @ r \<and> (\<forall>c \<in> set l \<union> set r. is_ws c)"
proof -
  let ?d = "dropWhile is_ws cs"
  have "cs = takeWhile is_ws cs @ ?d" by simp
  moreover have "?d = rev (dropWhile is_ws (rev ?d)) @ rev (takeWhile is_ws (rev ?d))"
    by (metis rev_append rev_rev_ident takeWhile_dropWhile_id)
  ultimately have "cs = takeWhile is_ws cs @ trim_chars cs @ rev (takeWhile is_ws (rev ?d))"
    by (simp add: trim_chars_def)
  moreover have "\<forall>c \<in> set (takeWhile is_ws cs) \<union> set (rev (takeWhile is_ws (rev ?d))). is_ws c"
    by (auto dest: set_takeWhileD)
  ultimately show ?thesis by blast
qed

lemma trim_length: "length (trim s) \<le> length s"
proof -
  obtain l r where "utf8_chars s = l @ trim_chars (utf8_chars s) @ r"
    using trim_chars_decomp by blast
  then have "s = concat l @ trim s @ concat r"
    by (metis concat_append concat_utf8_chars trim_def)
  then have "length s = length (concat l) + length (trim s) + length (concat r)"
    by (metis add.assoc length_append)
  then show ?thesis by simp
qed

text \<open>ASCII text without white space is its own trimming.\<close>

definition graphic :: "char \<Rightarrow> bool" where
  "graphic c \<longleftrightarrow> 32 < byte_of c \<and> byte_of c < 128"

lemma utf8_chars_ascii: "list_all graphic s \<Longrightarrow> utf8_chars s = map (\<lambda>c. [c]) s"
proof (induction s rule: utf8_chars.induct)
  case (2 c cs)
  then have "takeWhile is_cont cs = []" "dropWhile is_cont cs = cs"
    by (cases cs; simp add: is_cont_def graphic_def)+
  with 2 show ?case by simp
qed simp

lemma graphic_not_ws: "graphic c \<Longrightarrow> \<not> is_ws [c]"
  by (auto simp: graphic_def is_ws_def ws_chars_def ascii_def)

lemma trim_graphic: "list_all graphic s \<Longrightarrow> trim s = s"
proof -
  assume g: "list_all graphic s"
  have id: "dropWhile is_ws (map (\<lambda>c. [c]) cs) = map (\<lambda>c. [c]) cs" if "list_all graphic cs" for cs
    using that by (cases cs) (auto simp: graphic_not_ws)
  have "list_all graphic (rev s)" using g by (simp add: list_all_iff)
  then have "trim_chars (map (\<lambda>c. [c]) s) = map (\<lambda>c. [c]) s"
    using id [OF g] id [of "rev s"] by (simp add: trim_chars_def rev_map)
  then show "trim s = s" by (simp add: trim_def utf8_chars_ascii [OF g])
qed

lemma utf8_chars_7bit: "list_all (\<lambda>c. byte_of c < 128) s \<Longrightarrow> utf8_chars s = map (\<lambda>c. [c]) s"
proof (induction s rule: utf8_chars.induct)
  case (2 c cs)
  then have "takeWhile is_cont cs = []" "dropWhile is_cont cs = cs"
    by (cases cs; simp add: is_cont_def)+
  with 2 show ?case by simp
qed simp

lemma split_by_singles: "split_by P (map (\<lambda>c. [c]) s) = map (map (\<lambda>c. [c])) (split_by (\<lambda>c. P [c]) s)"
  by (induction s) (auto split: list.splits)

lemma concat_singles: "concat (map (\<lambda>c. [c]) s) = s"
  by (induction s) simp_all

definition ascii_ws :: "char \<Rightarrow> bool" where
  "ascii_ws c \<longleftrightarrow> byte_of c \<in> {9, 10, 11, 12, 13, 32}"

lemma is_ws_single: "is_ws [c] \<longleftrightarrow> ascii_ws c"
proof -
  have i: "[c] = ascii [n] \<longleftrightarrow> byte_of c = n" if "n < 256" for n
    using that by (auto simp: ascii_def)
  have "is_ws [c] \<longleftrightarrow> [c] \<in> set (map ascii [[9], [10], [11], [12], [13], [32]])"
    unfolding is_ws_def ws_chars_def by (auto simp: ascii_def)
  then show ?thesis by (simp add: i ascii_ws_def)
qed

text \<open>On ASCII text the words are those between ASCII white space.\<close>

lemma split_whitespace_ascii:
  "list_all (\<lambda>c. byte_of c < 128) s \<Longrightarrow> split_whitespace s = filter (\<lambda>w. w \<noteq> []) (split_by ascii_ws s)"
  by (simp add: split_whitespace_def utf8_chars_7bit split_by_singles is_ws_single comp_def concat_singles)

lemma trim_matches_none: "c \<notin> set s \<Longrightarrow> trim_matches c s = s"
proof -
  assume c: "c \<notin> set s"
  have id: "dropWhile (\<lambda>x. x = c) xs = xs" if "c \<notin> set xs" for xs
    using that by (cases xs) auto
  show ?thesis using id [OF c] id [of "rev s"] c by (simp add: trim_matches_def)
qed

lemma parse_i64_dec: "- (2 ^ 63) \<le> i \<Longrightarrow> i < 2 ^ 63 \<Longrightarrow> parse_i64 (dec_int i) = Some i"
proof -
  assume i: "- (2 ^ 63) \<le> i" "i < 2 ^ 63"
  have dg: "list_all is_digit (dec n)" for n using dec_digits by (auto simp: list_all_iff is_digit_def)
  show ?thesis
  proof (cases "i < 0")
    case True
    then have "nat (- i) \<le> 2 ^ 63" using i by (simp add: nat_le_iff)
    with True dg show ?thesis by (simp add: parse_i64_def dec_int_def)
  next
    case False
    obtain c cs where d: "dec (nat i) = c # cs" using dec_not_Nil [of "nat i"] by (cases "dec (nat i)") auto
    have "c \<noteq> CHR ''-''" using dec_digits [of c "nat i"] d by auto
    moreover have "nat i < 2 ^ 63" using i False by (simp add: nat_less_iff)
    ultimately show ?thesis using False parse_uint_dec [of "nat i" "2 ^ 63"] d by (simp add: parse_i64_def dec_int_def)
  qed
qed

end
