(* ===== verification/ScreenMedia.thy ===== *)
theory ScreenMedia
  imports Codec Audio Text
begin

text \<open>
  \<open>backend/src/sfu/screen.rs\<close>, the media side of a screen share: the mode policies, the
  per-viewer layer control with its loss hysteresis (\<open>LayerCtl\<close>, \<open>eval_auto_downgrade\<close>), the
  forwarder of one viewer (\<open>ScreenSub::forward_video\<close>, \<open>forward_audio\<close>), the session's packet
  handler, and the reading of the negotiated answer. Atomics are fields. Nanosecond clocks are
  the \<open>i64\<close> values of the code as integers; the generation of the chain wraps at 32 bits.
\<close>

section \<open>The code: modes and policies\<close>

datatype share_mode = Sharp | Motion

fun mode_u8 :: "share_mode \<Rightarrow> 8 word" where
  "mode_u8 Sharp = 0"
| "mode_u8 Motion = 1"

definition decode_mode :: "8 word \<Rightarrow> share_mode" where
  "decode_mode v = (if v = mode_u8 Motion then Motion else Sharp)"

record mode_policy =
  mp_high_loss_pm :: nat
  mp_low_loss_pm :: nat
  mp_high_window :: duration
  mp_low_window :: duration
  mp_floor_temp :: int

definition SHARP :: mode_policy where
  "SHARP = \<lparr>mp_high_loss_pm = 50, mp_low_loss_pm = 10, mp_high_window = secs 2, mp_low_window = secs 4,
            mp_floor_temp = 0\<rparr>"

definition MOTION :: mode_policy where
  "MOTION = \<lparr>mp_high_loss_pm = 120, mp_low_loss_pm = 30, mp_high_window = secs 3, mp_low_window = secs 7,
             mp_floor_temp = 1\<rparr>"

fun policy :: "share_mode \<Rightarrow> mode_policy" where
  "policy Sharp = SHARP"
| "policy Motion = MOTION"

section \<open>The code: layer control\<close>

record layer_ctl =
  lc_target_temp :: int
  lc_chain_gen :: "32 word"
  lc_loss_per_mille :: nat
  lc_high_loss_since :: int
  lc_low_loss_since :: int

definition new_layer_ctl :: "int \<Rightarrow> layer_ctl" where
  "new_layer_ctl target =
     \<lparr>lc_target_temp = target, lc_chain_gen = 0, lc_loss_per_mille = 0, lc_high_loss_since = 0,
      lc_low_loss_since = 0\<rparr>"

definition set_target_temp :: "int \<Rightarrow> layer_ctl \<Rightarrow> layer_ctl" where
  "set_target_temp layer l = l\<lparr>lc_target_temp := layer, lc_chain_gen := lc_chain_gen l + 1\<rparr>"

text \<open>\<open>Duration::from_nanos((now_ns - since).max(0) as u64)\<close>.\<close>

definition since_window :: "int \<Rightarrow> int \<Rightarrow> duration" where
  "since_window now_ns since = nat (max (now_ns - since) 0)"

definition eval_auto_downgrade :: "int \<Rightarrow> mode_policy \<Rightarrow> layer_ctl \<Rightarrow> bool \<times> layer_ctl" where
  "eval_auto_downgrade now_ns p l =
     (let loss = lc_loss_per_mille l; target = lc_target_temp l
      in if loss \<ge> mp_high_loss_pm p then
           let l1 = l\<lparr>lc_low_loss_since := 0\<rparr>
           in if target \<le> mp_floor_temp p then (False, l1\<lparr>lc_high_loss_since := 0\<rparr>)
              else let since = lc_high_loss_since l1
                   in if since = 0 then (False, l1\<lparr>lc_high_loss_since := now_ns\<rparr>)
                      else if since_window now_ns since < mp_high_window p then (False, l1)
                      else (True, (set_target_temp (target - 1) l1)\<lparr>lc_high_loss_since := 0\<rparr>)
         else if loss \<le> mp_low_loss_pm p then
           let l1 = l\<lparr>lc_high_loss_since := 0\<rparr>
           in if target \<ge> 2 then (False, l1\<lparr>lc_low_loss_since := 0\<rparr>)
              else let since = lc_low_loss_since l1
                   in if since = 0 then (False, l1\<lparr>lc_low_loss_since := now_ns\<rparr>)
                      else if since_window now_ns since < mp_low_window p then (False, l1)
                      else (True, (set_target_temp (target + 1) l1)\<lparr>lc_low_loss_since := 0\<rparr>)
         else (False, l\<lparr>lc_high_loss_since := 0, lc_low_loss_since := 0\<rparr>))"

section \<open>The code: one viewer's forwarder\<close>

record sub_forward =
  sf_last_gen :: "32 word"
  sf_chain :: chain_tracker
  sf_seq :: nat

definition new_forward :: "int \<Rightarrow> nat \<Rightarrow> sub_forward" where
  "new_forward target r = \<lparr>sf_last_gen = 0, sf_chain = new_tracker (nat target), sf_seq = r\<rparr>"

text \<open>The decision of \<open>forward_video\<close>: the viewer's sequence number, or None when the frame is dropped.\<close>

definition forward_video :: "layer_ctl \<Rightarrow> descriptor option \<Rightarrow> sub_forward \<Rightarrow> nat option \<times> sub_forward" where
  "forward_video l desc f0 =
     (let g = lc_chain_gen l;
          f = (if g \<noteq> sf_last_gen f0
               then f0\<lparr>sf_last_gen := g, sf_chain := set_chain (nat (lc_target_temp l)) (sf_chain f0)\<rparr>
               else f0)
      in case desc of
           None \<Rightarrow> (Some (sf_seq f + 1), f\<lparr>sf_seq := sf_seq f + 1\<rparr>)
         | Some d \<Rightarrow>
             if int (unat (d_temporal_layer d)) > lc_target_temp l then (None, f)
             else case allow (Some d) (sf_chain f) of
                    (False, c) \<Rightarrow> (None, f\<lparr>sf_chain := c\<rparr>)
                  | (True, c) \<Rightarrow> (Some (sf_seq f + 1), f\<lparr>sf_chain := c, sf_seq := sf_seq f + 1\<rparr>))"

text \<open>\<open>rebase_roc\<close>: \<open>*seq & !0xffff\<close> fixes the base at the first packet.\<close>

definition rebase_roc :: "nat option \<Rightarrow> nat \<Rightarrow> nat \<times> nat option" where
  "rebase_roc base seq =
     (let b = (case base of Some b \<Rightarrow> b | None \<Rightarrow> seq - seq mod 65536) in (seq - b, Some b))"

text \<open>
  Whether a viewer's connection has the streams that \<open>stream_tx_by_mid\<close> looks up, and is open:
  not before they are negotiated, and not after it is closed, when \<open>Pc::write\<close> does nothing.
\<close>

datatype sub_stream = NotYet | Sending | Ended

record screen_sub =
  sb_peer_id :: string
  sb_pc :: nat
  sb_audio_mid :: bool
  sb_layer :: layer_ctl
  sb_fwd :: sub_forward
  sb_roc_base :: "nat option"
  sb_stream :: sub_stream

datatype screen_write = VideoTo nat nat rtp_packet | AudioTo nat nat rtp_packet | KeyframeToPublisher

definition sub_forward_video :: "rtp_packet \<Rightarrow> descriptor option \<Rightarrow> screen_sub \<Rightarrow> screen_write list \<times> screen_sub" where
  "sub_forward_video pkt desc s =
     (case forward_video (sb_layer s) desc (sb_fwd s) of (r, f) \<Rightarrow>
       ((case r of Some q \<Rightarrow> if sb_stream s = Sending then [VideoTo (sb_pc s) q pkt] else [] | None \<Rightarrow> []),
        s\<lparr>sb_fwd := f\<rparr>))"

definition sub_forward_audio :: "rtp_packet \<Rightarrow> screen_sub \<Rightarrow> screen_write list \<times> screen_sub" where
  "sub_forward_audio pkt s =
     (if \<not> sb_audio_mid s then ([], s)
      else case rebase_roc (sb_roc_base s) (rp_seq pkt) of (q, b) \<Rightarrow>
             (if sb_stream s = Sending then [AudioTo (sb_pc s) q pkt] else [], s\<lparr>sb_roc_base := b\<rparr>))"

definition each_sub :: "(screen_sub \<Rightarrow> screen_write list \<times> screen_sub) \<Rightarrow> screen_sub list \<Rightarrow> screen_write list \<times> screen_sub list" where
  "each_sub f ss = (concat (map (fst \<circ> f) ss), map (snd \<circ> f) ss)"

section \<open>The code: the session's packets\<close>

record screen_media =
  sm_video_pts :: "nat list"
  sm_audio_pts :: "nat list"
  sm_has_system_audio :: bool
  sm_adapter :: adapter
  sm_first_video :: bool
  sm_subs :: "screen_sub list"

text \<open>
  \<open>on_video\<close>: whether this is the session's first video packet (which then announces the share),
  the parsed layer information, and the packet to every viewer. A parse error counts as no
  layer information.
\<close>

definition on_video ::
  "rtp_packet \<Rightarrow> 8 word list option \<Rightarrow> screen_media \<Rightarrow> bool \<times> screen_write list \<times> screen_media" where
  "on_video pkt dd m =
     (case adapter_parse (sm_adapter m) (rp_payload pkt) dd of (r, a) \<Rightarrow>
      let desc = (case r of Inr d \<Rightarrow> d | Inl e \<Rightarrow> None)
      in case each_sub (sub_forward_video pkt desc) (sm_subs m) of (ws, subs) \<Rightarrow>
           (\<not> sm_first_video m, ws, m\<lparr>sm_first_video := True, sm_adapter := a, sm_subs := subs\<rparr>))"

definition session_on_packet ::
  "nat \<Rightarrow> rtp_packet \<Rightarrow> 8 word list option \<Rightarrow> screen_media \<Rightarrow> bool \<times> screen_write list \<times> screen_media" where
  "session_on_packet pt pkt dd m =
     (if rp_payload pkt = [] then (False, [], m)
      else if pt \<in> set (sm_video_pts m) then on_video pkt dd m
      else if pt \<in> set (sm_audio_pts m) \<and> sm_has_system_audio m
      then (case each_sub (sub_forward_audio pkt) (sm_subs m) of (ws, subs) \<Rightarrow> (False, ws, m\<lparr>sm_subs := subs\<rparr>))
      else (False, [], m))"

text \<open>One tick of \<open>auto_downgrade_loop\<close>: every viewer's hysteresis, one keyframe request at most.\<close>

definition auto_downgrade_tick :: "share_mode \<Rightarrow> int \<Rightarrow> screen_media \<Rightarrow> screen_write list \<times> screen_media" where
  "auto_downgrade_tick mode now_ns m =
     (let rs = map (\<lambda>s. eval_auto_downgrade now_ns (policy mode) (sb_layer s)) (sm_subs m);
          subs = map2 (\<lambda>s r. s\<lparr>sb_layer := snd r\<rparr>) (sm_subs m) rs
      in (if \<exists>r \<in> set rs. fst r then [KeyframeToPublisher] else [], m\<lparr>sm_subs := subs\<rparr>))"

section \<open>The code: the negotiated answer\<close>

record sdp_section =
  sec_kind :: string
  sec_mid :: string
  sec_pts :: "nat list"
  sec_rejected :: bool

definition sdp_line :: "string \<Rightarrow> sdp_section list \<Rightarrow> sdp_section list" where
  "sdp_line line out =
     (case strip_prefix ''m='' line of
        Some m \<Rightarrow>
          let f = split_whitespace m;
              kind = (case f of [] \<Rightarrow> '''' | k # _ \<Rightarrow> k);
              rejected = (case f of _ # port # _ \<Rightarrow> port = ''0'' | _ \<Rightarrow> False);
              pts = List.map_filter (parse_uint 256) (drop 3 f)
          in out @ [\<lparr>sec_kind = kind, sec_mid = '''', sec_pts = pts, sec_rejected = rejected\<rparr>]
      | None \<Rightarrow>
          (case strip_prefix ''a=mid:'' line of
             Some mid \<Rightarrow> if out = [] then out else butlast out @ [(last out)\<lparr>sec_mid := trim mid\<rparr>]
           | None \<Rightarrow> out))"

definition sections :: "string \<Rightarrow> sdp_section list" where
  "sections sdp = fold sdp_line (lines sdp) []"

datatype str0m_codec = OpusC | Av1S | Vp9S | OtherC

fun video_codec :: "str0m_codec \<Rightarrow> screen_video_codec option" where
  "video_codec Av1S = Some Av1C"
| "video_codec Vp9S = Some Vp9C"
| "video_codec _ = None"

record pub_media =
  pm_video_mid :: "string option"
  pm_video_pts :: "nat list"
  pm_audio_pts :: "nat list"

definition no_media :: pub_media where
  "no_media = \<lparr>pm_video_mid = None, pm_video_pts = [], pm_audio_pts = []\<rparr>"

text \<open>The loop of \<open>setup_screen_pub\<close> over the answer's sections; \<open>codec_of\<close> is the PC's codec table.\<close>

definition take_section ::
  "(nat \<Rightarrow> str0m_codec option) \<Rightarrow> sdp_section \<Rightarrow> str0m_codec option \<times> pub_media \<Rightarrow> str0m_codec option \<times> pub_media" where
  "take_section codec_of s cm =
     (case cm of (codec, m) \<Rightarrow>
      if sec_kind s = ''video'' \<and> pm_video_mid m = None
      then ((case sec_pts s of [] \<Rightarrow> None | pt # _ \<Rightarrow> codec_of pt),
            m\<lparr>pm_video_mid := Some (sec_mid s),
              pm_video_pts := filter (\<lambda>pt. (case codec_of pt of Some c \<Rightarrow> video_codec c | None \<Rightarrow> None) \<noteq> None) (sec_pts s)\<rparr>)
      else if sec_kind s = ''audio''
      then (codec, m\<lparr>pm_audio_pts := pm_audio_pts m @ filter (\<lambda>pt. codec_of pt = Some OpusC) (sec_pts s)\<rparr>)
      else (codec, m))"

definition negotiate ::
  "(nat \<Rightarrow> str0m_codec option) \<Rightarrow> string \<Rightarrow> (screen_video_codec \<times> pub_media) option" where
  "negotiate codec_of answer =
     (case fold (take_section codec_of) (filter (\<lambda>s. \<not> sec_rejected s) (sections answer)) (None, no_media) of
        (Some c, m) \<Rightarrow> map_option (\<lambda>v. (v, m)) (video_codec c)
      | (None, m) \<Rightarrow> None)"

section \<open>Runs of the layer control\<close>

text \<open>One viewer's control under samples: the clock, the mode's policy and the loss at that tick.\<close>

record sample =
  sp_now :: int
  sp_mode :: share_mode
  sp_loss :: nat

definition layer_step :: "layer_ctl \<Rightarrow> sample \<Rightarrow> layer_ctl" where
  "layer_step l s =
     snd (eval_auto_downgrade (sp_now s) (policy (sp_mode s)) (l\<lparr>lc_loss_per_mille := sp_loss s\<rparr>))"

definition layer_inv :: "layer_ctl \<Rightarrow> bool" where
  "layer_inv l \<longleftrightarrow> 0 \<le> lc_target_temp l \<and> lc_target_temp l \<le> 2"

lemma policy_floor: "0 \<le> mp_floor_temp (policy m) \<and> mp_floor_temp (policy m) \<le> 1"
  by (cases m) (simp_all add: SHARP_def MOTION_def)

lemma policy_gap: "mp_low_loss_pm (policy m) < mp_high_loss_pm (policy m)"
  by (cases m) (simp_all add: SHARP_def MOTION_def)

lemma eval_target:
  "lc_target_temp (snd (eval_auto_downgrade now p l)) =
     (if \<not> fst (eval_auto_downgrade now p l) then lc_target_temp l
      else if lc_loss_per_mille l \<ge> mp_high_loss_pm p then lc_target_temp l - 1 else lc_target_temp l + 1)"
  "fst (eval_auto_downgrade now p l) \<Longrightarrow>
     (lc_loss_per_mille l \<ge> mp_high_loss_pm p \<and> mp_floor_temp p < lc_target_temp l)
   \<or> (lc_loss_per_mille l < mp_high_loss_pm p \<and> lc_loss_per_mille l \<le> mp_low_loss_pm p \<and> lc_target_temp l < 2)"
  by (simp_all add: eval_auto_downgrade_def Let_def set_target_temp_def split: if_splits)

lemma layer_inv_step: "layer_inv l \<Longrightarrow> layer_inv (layer_step l s)"
  using eval_target [of "sp_now s" "policy (sp_mode s)" "l\<lparr>lc_loss_per_mille := sp_loss s\<rparr>"]
    policy_floor [of "sp_mode s"]
  by (auto simp: layer_inv_def layer_step_def split: if_splits)

interpretation layer: stepper layer_step "\<lambda>_ _. True" layer_inv
  by unfold_locales (rule layer_inv_step)

text \<open>What the two clocks of the hysteresis remember, against the samples so far.\<close>

definition streak :: "(sample \<Rightarrow> bool) \<Rightarrow> int \<Rightarrow> sample list \<Rightarrow> bool" where
  "streak P since ss \<longleftrightarrow>
     (\<exists>pre s post. ss = pre @ s # post \<and> sp_now s = since \<and> (\<forall>x \<in> set (s # post). P x))"

lemma streak_snoc: "streak P since ss \<Longrightarrow> P s \<Longrightarrow> streak P since (ss @ [s])"
  unfolding streak_def by (clarsimp, rename_tac pre x post, rule_tac x = pre in exI, rule_tac x = x in exI) auto

lemma streak_new: "P s \<Longrightarrow> streak P (sp_now s) (ss @ [s])"
  unfolding streak_def by (rule exI [of _ ss], rule exI [of _ s], rule exI [of _ "[]"]) simp

abbreviation high :: "share_mode \<Rightarrow> sample \<Rightarrow> bool" where
  "high m s \<equiv> mp_high_loss_pm (policy m) \<le> sp_loss s"

abbreviation low :: "share_mode \<Rightarrow> sample \<Rightarrow> bool" where
  "low m s \<equiv> sp_loss s \<le> mp_low_loss_pm (policy m)"

definition clocks_ok :: "share_mode \<Rightarrow> sample list \<Rightarrow> layer_ctl \<Rightarrow> bool" where
  "clocks_ok m ss l \<longleftrightarrow>
     (lc_high_loss_since l \<noteq> 0 \<longrightarrow> streak (high m) (lc_high_loss_since l) ss)
   \<and> (lc_low_loss_since l \<noteq> 0 \<longrightarrow> streak (low m) (lc_low_loss_since l) ss)"

lemma eval_clocks:
  "lc_high_loss_since (snd (eval_auto_downgrade now p l)) \<in>
     (if lc_loss_per_mille l \<ge> mp_high_loss_pm p then {0, now, lc_high_loss_since l} else {0})"
  "mp_low_loss_pm p < mp_high_loss_pm p \<Longrightarrow> lc_low_loss_since (snd (eval_auto_downgrade now p l)) \<in>
     (if lc_loss_per_mille l \<le> mp_low_loss_pm p then {0, now, lc_low_loss_since l} else {0})"
  by (auto simp: eval_auto_downgrade_def Let_def set_target_temp_def)

lemma clocks_step:
  assumes "clocks_ok m ss l" and "sp_mode s = m"
  shows "clocks_ok m (ss @ [s]) (layer_step l s)"
proof -
  let ?l = "l\<lparr>lc_loss_per_mille := sp_loss s\<rparr>"
  let ?r = "snd (eval_auto_downgrade (sp_now s) (policy m) ?l)"
  have "streak (high m) (lc_high_loss_since ?r) (ss @ [s])" if "lc_high_loss_since ?r \<noteq> 0"
    using eval_clocks(1) [of "sp_now s" "policy m" ?l] that assms(1)
    by (auto simp: clocks_ok_def split: if_splits intro: streak_new streak_snoc)
  moreover have "streak (low m) (lc_low_loss_since ?r) (ss @ [s])" if "lc_low_loss_since ?r \<noteq> 0"
    using eval_clocks(2) [of "policy m" "sp_now s" ?l, OF policy_gap] that assms(1)
    by (auto simp: clocks_ok_def split: if_splits intro: streak_new streak_snoc)
  ultimately show ?thesis by (simp add: clocks_ok_def layer_step_def assms(2))
qed

lemma clocks_run:
  "\<forall>s \<in> set ss. sp_mode s = m \<Longrightarrow> clocks_ok m ss (foldl layer_step (new_layer_ctl t) ss)"
proof (induction ss rule: rev_induct)
  case Nil
  then show ?case by (simp add: clocks_ok_def new_layer_ctl_def)
next
  case (snoc s ss)
  then show ?case using clocks_step [of m ss _ s] by simp
qed

section \<open>Properties\<close>

text \<open>
  Whatever losses are sampled, at whatever times and in whatever modes, the target stays a
  temporal layer 0 to 2, one tick moves it by at most one, a downgrade needs a loss at the
  mode's threshold and a target above the mode's floor (so Motion never drops below layer 1),
  and an upgrade needs a loss at most the lower threshold.
\<close>
theorem layer_target_bounds:
  assumes "0 \<le> t" and "t \<le> 2" and "l = foldl layer_step (new_layer_ctl t) ss"
  shows "0 \<le> lc_target_temp l \<and> lc_target_temp l \<le> 2
    \<and> (lc_target_temp (layer_step l s) = lc_target_temp l
      \<or> (lc_target_temp (layer_step l s) = lc_target_temp l - 1 \<and> high (sp_mode s) s
         \<and> mp_floor_temp (policy (sp_mode s)) < lc_target_temp l)
      \<or> (lc_target_temp (layer_step l s) = lc_target_temp l + 1 \<and> low (sp_mode s) s \<and> lc_target_temp l < 2))"
proof -
  have "layer_inv l"
    unfolding assms(3)
    by (rule layer.inv_run) (use assms in \<open>simp_all add: layer_inv_def new_layer_ctl_def valid_run_True\<close>)
  then have "0 \<le> lc_target_temp l \<and> lc_target_temp l \<le> 2" by (simp add: layer_inv_def)
  moreover have "lc_target_temp (layer_step l s) = lc_target_temp l
      \<or> (lc_target_temp (layer_step l s) = lc_target_temp l - 1 \<and> high (sp_mode s) s
         \<and> mp_floor_temp (policy (sp_mode s)) < lc_target_temp l)
      \<or> (lc_target_temp (layer_step l s) = lc_target_temp l + 1 \<and> low (sp_mode s) s \<and> lc_target_temp l < 2)"
    using eval_target [of "sp_now s" "policy (sp_mode s)" "l\<lparr>lc_loss_per_mille := sp_loss s\<rparr>"]
    by (auto simp: layer_step_def split: if_splits)
  ultimately show ?thesis by blast
qed

definition lossy :: "int \<Rightarrow> sample" where
  "lossy now = \<lparr>sp_now = now, sp_mode = Sharp, sp_loss = 120\<rparr>"

lemma lossy_run:
  "layer_step (foldl layer_step (new_layer_ctl 2) [lossy 1000000000]) (lossy 3000000000) =
     \<lparr>lc_target_temp = 1, lc_chain_gen = 1, lc_loss_per_mille = 120, lc_high_loss_since = 0, lc_low_loss_since = 0\<rparr>"
  by (simp add: layer_step_def lossy_def new_layer_ctl_def eval_auto_downgrade_def Let_def SHARP_def
    set_target_temp_def since_window_def)

theorem layer_target_bounds_witness:
  "0 \<le> lc_target_temp (foldl layer_step (new_layer_ctl 2) [lossy 1000000000])
   \<and> lc_target_temp (layer_step (foldl layer_step (new_layer_ctl 2) [lossy 1000000000]) (lossy 3000000000)) = 1"
  using layer_target_bounds [OF _ _ refl, of 2 "[lossy 1000000000]" "lossy 3000000000"]
  by (simp only: lossy_run) simp

text \<open>
  A viewer's layer changes only after a sustained streak: a downgrade at a tick means that
  every sample since some earlier tick, at least the mode's high window ago, was at or above the
  high threshold; an upgrade, that every sample since at least the low window was at or below
  the low one.
\<close>
theorem layer_change_needs_streak:
  assumes "\<forall>x \<in> set ss. sp_mode x = sp_mode s"
    and "l = foldl layer_step (new_layer_ctl t) ss"
    and "lc_target_temp (layer_step l s) \<noteq> lc_target_temp l"
  shows "\<exists>since. if lc_target_temp (layer_step l s) < lc_target_temp l
     then streak (high (sp_mode s)) since (ss @ [s]) \<and> int (mp_high_window (policy (sp_mode s))) \<le> sp_now s - since
     else streak (low (sp_mode s)) since (ss @ [s]) \<and> int (mp_low_window (policy (sp_mode s))) \<le> sp_now s - since"
proof -
  let ?p = "policy (sp_mode s)"
  let ?l = "l\<lparr>lc_loss_per_mille := sp_loss s\<rparr>"
  have ok: "clocks_ok (sp_mode s) ss l" using clocks_run [OF assms(1)] assms(2) by simp
  have pos: "0 < mp_high_window ?p" "0 < mp_low_window ?p"
    by (cases "sp_mode s"; simp add: SHARP_def MOTION_def)+
  consider (down) "lc_target_temp (layer_step l s) < lc_target_temp l" "high (sp_mode s) s"
      "lc_high_loss_since l \<noteq> 0" "\<not> since_window (sp_now s) (lc_high_loss_since l) < mp_high_window ?p"
    | (up) "\<not> lc_target_temp (layer_step l s) < lc_target_temp l" "low (sp_mode s) s"
      "lc_low_loss_since l \<noteq> 0" "\<not> since_window (sp_now s) (lc_low_loss_since l) < mp_low_window ?p"
    using assms(3) policy_gap [of "sp_mode s"]
    by (simp add: layer_step_def eval_auto_downgrade_def Let_def set_target_temp_def split: if_splits)
  then show ?thesis
  proof cases
    case down
    then have "int (mp_high_window ?p) \<le> sp_now s - lc_high_loss_since l"
      using pos by (simp add: since_window_def not_less)
    moreover have "streak (high (sp_mode s)) (lc_high_loss_since l) (ss @ [s])"
      using ok down by (auto simp: clocks_ok_def intro: streak_snoc)
    ultimately show ?thesis using down(1) by auto
  next
    case up
    then have "int (mp_low_window ?p) \<le> sp_now s - lc_low_loss_since l"
      using pos by (simp add: since_window_def not_less)
    moreover have "streak (low (sp_mode s)) (lc_low_loss_since l) (ss @ [s])"
      using ok up by (auto simp: clocks_ok_def intro: streak_snoc)
    ultimately show ?thesis using up(1) by auto
  qed
qed

theorem layer_change_needs_streak_witness:
  "\<exists>since. streak (high Sharp) since [lossy 1000000000, lossy 3000000000] \<and> 2000000000 \<le> 3000000000 - since"
proof -
  have m: "\<forall>x \<in> set [lossy 1000000000]. sp_mode x = sp_mode (lossy 3000000000)" by (simp add: lossy_def)
  have "lc_target_temp (foldl layer_step (new_layer_ctl 2) [lossy 1000000000]) = 2"
    by (simp add: layer_step_def lossy_def new_layer_ctl_def eval_auto_downgrade_def Let_def SHARP_def)
  with layer_change_needs_streak [OF m refl, of 2] show ?thesis
    unfolding lossy_run by (simp add: lossy_def SHARP_def)
qed

section \<open>Runs of a viewer's forwarder\<close>

text \<open>Loss samples and video frames (with their layer information) as one viewer meets them.\<close>

datatype viewer_event = Sampled sample | Video "descriptor option"

fun viewer_step :: "layer_ctl \<times> sub_forward \<times> (nat \<times> descriptor option) list \<Rightarrow> viewer_event \<Rightarrow>
    layer_ctl \<times> sub_forward \<times> (nat \<times> descriptor option) list" where
  "viewer_step (l, f, out) (Sampled s) = (layer_step l s, f, out)"
| "viewer_step (l, f, out) (Video desc) =
     (case forward_video l desc f of
        (Some q, f') \<Rightarrow> (l, f', out @ [(q, desc)])
      | (None, f') \<Rightarrow> (l, f', out))"

definition viewer_start :: "int \<Rightarrow> nat \<Rightarrow> layer_ctl \<times> sub_forward \<times> (nat \<times> descriptor option) list" where
  "viewer_start target r = (new_layer_ctl target, new_forward target r, [])"

definition viewer_inv :: "nat \<Rightarrow> layer_ctl \<times> sub_forward \<times> (nat \<times> descriptor option) list \<Rightarrow> bool" where
  "viewer_inv r v \<longleftrightarrow>
     (case v of (l, f, out) \<Rightarrow>
        layer_inv l \<and> map fst out = [Suc r..<Suc r + length out] \<and> sf_seq f = r + length out
        \<and> (\<forall>(q, desc) \<in> set out. \<forall>d. desc = Some d \<longrightarrow> unat (d_temporal_layer d) \<le> 2))"

lemma forward_video_result:
  "forward_video l desc f = (Some q, f') \<Longrightarrow> q = sf_seq f + 1 \<and> sf_seq f' = q
     \<and> (\<forall>d. desc = Some d \<longrightarrow> unat (d_temporal_layer d) \<le> nat (lc_target_temp l))"
  "forward_video l desc f = (None, f') \<Longrightarrow> sf_seq f' = sf_seq f"
proof -
  have le: "n \<le> nat t" if "\<not> int n > t" for n t using that by linarith
  show "forward_video l desc f = (Some q, f') \<Longrightarrow> q = sf_seq f + 1 \<and> sf_seq f' = q
     \<and> (\<forall>d. desc = Some d \<longrightarrow> unat (d_temporal_layer d) \<le> nat (lc_target_temp l))"
    by (cases desc) (auto simp only: forward_video_def Let_def le option.case option.inject prod.inject
        split: if_splits prod.splits bool.splits, simp_all add: le)
  show "forward_video l desc f = (None, f') \<Longrightarrow> sf_seq f' = sf_seq f"
    by (auto simp: forward_video_def Let_def split: option.splits if_splits prod.splits bool.splits)
qed

lemma viewer_inv_step: "viewer_inv r v \<Longrightarrow> viewer_inv r (viewer_step v e)"
proof (cases e)
  case (Sampled s)
  then show "viewer_inv r v \<Longrightarrow> ?thesis"
    by (cases v) (auto simp: viewer_inv_def intro: layer_inv_step)
next
  case (Video desc)
  assume inv: "viewer_inv r v"
  obtain l f out where v: "v = (l, f, out)" by (cases v)
  obtain o' f' where r: "forward_video l desc f = (o', f')" by (cases "forward_video l desc f")
  show ?thesis
  proof (cases o')
    case None
    with inv forward_video_result(2) [of l desc f f'] r show ?thesis
      by (simp add: v Video viewer_inv_def)
  next
    case (Some q)
    note res = forward_video_result(1) [OF r [unfolded Some]]
    have "\<forall>d. desc = Some d \<longrightarrow> unat (d_temporal_layer d) \<le> 2"
      using res inv by (fastforce simp: v viewer_inv_def layer_inv_def)
    with inv res r show ?thesis
      by (auto simp: v Video Some viewer_inv_def)
  qed
qed

interpretation viewer: stepper viewer_step "\<lambda>_ _. True" "viewer_inv r" for r
  by unfold_locales (rule viewer_inv_step)

text \<open>
  Deliberate drops never look like loss: whatever frames and loss samples a viewer meets,
  the frames forwarded to it are numbered consecutively from the number after the random start,
  and none is above temporal layer 2.
\<close>
theorem viewer_numbers_consecutive:
  assumes "0 \<le> target" and "target \<le> 2"
    and "foldl viewer_step (viewer_start target r) es = (l, f, out)"
  shows "map fst out = [Suc r..<Suc r + length out]
    \<and> (\<forall>(q, desc) \<in> set out. \<forall>d. desc = Some d \<longrightarrow> unat (d_temporal_layer d) \<le> 2)"
proof -
  have "viewer_inv r (viewer_start target r)"
    using assms(1,2) by (simp add: viewer_inv_def viewer_start_def layer_inv_def new_layer_ctl_def new_forward_def)
  then have "viewer_inv r (foldl viewer_step (viewer_start target r) es)"
    by (rule viewer.inv_run) (rule valid_run_True)
  then show ?thesis unfolding assms(3) by (simp add: viewer_inv_def)
qed

theorem viewer_numbers_consecutive_witness:
  "map fst [(8, None :: descriptor option), (9, None)] = [8..<10]"
proof -
  have "foldl viewer_step (viewer_start 2 7) [Video None, Video None] =
      (new_layer_ctl 2, \<lparr>sf_last_gen = 0, sf_chain = new_tracker 2, sf_seq = 9\<rparr>, [(8, None), (9, None)])"
    by (simp add: viewer_start_def new_forward_def forward_video_def new_layer_ctl_def)
  from viewer_numbers_consecutive [OF _ _ this] show ?thesis by simp
qed

text \<open>
  C28. After the viewer's layer has changed, the forwarder takes up the new chain: whatever was
  forwarded under the old layer, of the frames that are no keyframes it passes exactly those whose
  layer it cannot know (the packet has no layer information, or none that parses), and the next
  keyframe of the new layer or below passes.
\<close>
theorem layer_change_waits_for_keyframe:
  assumes "lc_chain_gen l \<noteq> sf_last_gen f" and "nat (lc_target_temp l) \<noteq> ct_chain (sf_chain f)"
    and "\<forall>d. Some d \<in> set ds \<longrightarrow> \<not> d_is_keyframe d"
    and "foldl viewer_step (l, f, []) (map Video ds) = (l', f', out)"
    and "d_is_keyframe k" and "int (unat (d_temporal_layer k)) \<le> lc_target_temp l"
  shows "map snd out = filter (\<lambda>desc. desc = None) ds
    \<and> (ds \<noteq> [] \<longrightarrow> ct_chain (sf_chain f') = nat (lc_target_temp l)) \<and> fst (forward_video l (Some k) f') \<noteq> None"
proof -
  let ?stale = "\<lambda>f. lc_chain_gen l \<noteq> sf_last_gen f \<and> nat (lc_target_temp l) \<noteq> ct_chain (sf_chain f)"
  let ?armed = "\<lambda>f. lc_chain_gen l = sf_last_gen f \<and> nat (lc_target_temp l) = ct_chain (sf_chain f)
    \<and> \<not> ct_bootstrapped (sf_chain f)"
  have step: "\<exists>f1 more. viewer_step (l, f, out) (Video desc) = (l, f1, out @ more) \<and> ?armed f1
      \<and> map snd more = filter (\<lambda>desc. desc = None) [desc]"
    if "\<forall>d. desc = Some d \<longrightarrow> \<not> d_is_keyframe d" "?stale f \<or> ?armed f" for f desc out
    using that
    by (cases desc) (auto simp: forward_video_def set_chain_def tracker_reset_def allow_def Let_def split: if_splits)
  have main: "\<exists>f1 more. foldl viewer_step (l, f, out) (map Video ds) = (l, f1, out @ more) \<and> (ds \<noteq> [] \<longrightarrow> ?armed f1)
      \<and> map snd more = filter (\<lambda>desc. desc = None) ds"
    if "?stale f \<or> ?armed f" for f out
    using that assms(3)
  proof (induction ds arbitrary: f out)
    case Nil
    then show ?case by auto
  next
    case (Cons desc ds)
    have "\<forall>d. desc = Some d \<longrightarrow> \<not> d_is_keyframe d" using Cons.prems(2) by auto
    from step [OF this Cons.prems(1), of out] obtain f1 m1 where
      f1: "viewer_step (l, f, out) (Video desc) = (l, f1, out @ m1)" "?armed f1" "map snd m1 = filter (\<lambda>desc. desc = None) [desc]" by blast
    from Cons.IH [of f1 "out @ m1"] f1(2) Cons.prems(2) obtain f2 m2 where
      f2: "foldl viewer_step (l, f1, out @ m1) (map Video ds) = (l, f2, out @ m1 @ m2)" "ds \<noteq> [] \<longrightarrow> ?armed f2"
        "map snd m2 = filter (\<lambda>desc. desc = None) ds" by auto
    have "foldl viewer_step (l, f, out) (map Video (desc # ds)) = (l, f2, out @ (m1 @ m2))" using f1(1) f2(1) by simp
    moreover have "?armed f2" using f1(2) f2 by (cases ds) auto
    moreover have "map snd (m1 @ m2) = filter (\<lambda>desc. desc = None) (desc # ds)"
      using f1(3) f2(3) by (cases desc) simp_all
    ultimately show ?case by blast
  qed
  from main [of f "[]"] assms(1,2) obtain f1 more where
    r: "foldl viewer_step (l, f, []) (map Video ds) = (l, f1, more)" "ds \<noteq> [] \<longrightarrow> ?armed f1"
      "map snd more = filter (\<lambda>desc. desc = None) ds" by auto
  have "fst (forward_video l (Some k) f1) \<noteq> None"
    using assms(5,6) by (simp add: forward_video_def allow_def Let_def)
  with r assms(4) show ?thesis by simp
qed

theorem layer_change_waits_for_keyframe_witness:
  "\<exists>out. snd (snd (foldl viewer_step ((new_layer_ctl 2)\<lparr>lc_target_temp := 1, lc_chain_gen := 1\<rparr>, new_forward 2 0, [])
     [Video (Some (frame 12 False [1])), Video None])) = out \<and> map snd out = [None]"
proof -
  let ?l = "(new_layer_ctl 2)\<lparr>lc_target_temp := 1, lc_chain_gen := 1\<rparr>" and ?f = "new_forward 2 0"
  let ?ds = "[Some (frame 12 False [1]), None]"
  obtain l' f' out where run: "foldl viewer_step (?l, ?f, []) (map Video ?ds) = (l', f', out)"
    by (cases "foldl viewer_step (?l, ?f, []) (map Video ?ds)") auto
  have "map snd out = [None]"
    using layer_change_waits_for_keyframe [OF _ _ _ run, of "frame 13 True []"]
    by (simp add: new_layer_ctl_def new_forward_def new_tracker_def frame_def)
  with run show ?thesis by simp
qed

text \<open>The first component of the session's packet handler over a list of packets.\<close>

fun announcements :: "screen_media \<Rightarrow> (nat \<times> rtp_packet \<times> 8 word list option) list \<Rightarrow> bool list" where
  "announcements m [] = []"
| "announcements m ((pt, pkt, dd) # ps) =
     fst (session_on_packet pt pkt dd m) # announcements (snd (snd (session_on_packet pt pkt dd m))) ps"

definition is_video :: "screen_media \<Rightarrow> nat \<times> rtp_packet \<times> 8 word list option \<Rightarrow> bool" where
  "is_video m p = (case p of (pt, pkt, dd) \<Rightarrow> rp_payload pkt \<noteq> [] \<and> pt \<in> set (sm_video_pts m))"

lemma session_on_packet_shape:
  "fst (session_on_packet pt pkt dd m) = (is_video m (pt, pkt, dd) \<and> \<not> sm_first_video m)"
  "sm_first_video (snd (snd (session_on_packet pt pkt dd m))) = (is_video m (pt, pkt, dd) \<or> sm_first_video m)"
  "sm_video_pts (snd (snd (session_on_packet pt pkt dd m))) = sm_video_pts m"
  by (auto simp: session_on_packet_def on_video_def is_video_def each_sub_def Let_def split: prod.splits)

lemma is_video_stable: "is_video (snd (snd (session_on_packet pt pkt dd m))) = is_video m"
  by (rule ext) (simp add: is_video_def session_on_packet_shape(3) split: prod.splits)

lemma announcements_after: "sm_first_video m \<Longrightarrow> announcements m ps = replicate (length ps) False"
  by (induction m ps rule: announcements.induct) (simp_all add: session_on_packet_shape)

text \<open>
  A session announces itself exactly once: over any packets of a session whose video has not
  started, the handler reports the first video packet exactly at the first non-empty packet with
  a negotiated video payload type, and never again.
\<close>
theorem share_announced_once:
  assumes "\<not> sm_first_video m" and "k = length (takeWhile (\<lambda>p. \<not> is_video m p) ps)"
  shows "announcements m ps =
    replicate k False @ (if k < length ps then True # replicate (length ps - k - 1) False else [])"
  using assms
proof (induction ps arbitrary: m k)
  case Nil
  then show ?case by simp
next
  case (Cons p ps)
  obtain pt pkt dd where p: "p = (pt, pkt, dd)" by (cases p)
  let ?m = "snd (snd (session_on_packet pt pkt dd m))"
  show ?case
  proof (cases "is_video m p")
    case True
    then have "announcements ?m ps = replicate (length ps) False"
      by (intro announcements_after) (simp add: p session_on_packet_shape)
    with True Cons.prems show ?thesis by (simp add: p session_on_packet_shape)
  next
    case False
    then have "\<not> sm_first_video ?m" using Cons.prems(1) by (simp add: p session_on_packet_shape)
    from Cons.IH [OF this refl] False Cons.prems show ?thesis
      by (simp add: p session_on_packet_shape is_video_stable)
  qed
qed

definition probe_packet :: "8 word list \<Rightarrow> nat \<times> rtp_packet \<times> 8 word list option" where
  "probe_packet bytes = (98, \<lparr>rp_seq = 1, rp_ts = 0, rp_marker = False, rp_payload = bytes\<rparr>, None)"

theorem share_announced_once_witness:
  "announcements \<lparr>sm_video_pts = [98], sm_audio_pts = [], sm_has_system_audio = False, sm_adapter = Vp9,
     sm_first_video = False, sm_subs = []\<rparr> [probe_packet [], probe_packet [8], probe_packet [8]] = [False, True, False]"
  by (subst share_announced_once [OF _ refl]) (simp_all add: is_video_def probe_packet_def)

text \<open>The numbers of a viewer's audio packets, from the first one on.\<close>

fun rebased :: "nat option \<Rightarrow> nat list \<Rightarrow> nat list" where
  "rebased b [] = []"
| "rebased b (s # ss) = (case rebase_roc b s of (q, b') \<Rightarrow> q # rebased b' ss)"

lemma rebased_from: "rebased (Some b) ss = map (\<lambda>s. s - b) ss"
  by (induction ss) (simp_all add: rebase_roc_def)

text \<open>
  A viewer's audio starts below the first rollover, as its receiver assumes, and keeps the
  wire sequence number: every packet at or after the first packet's rollover period keeps its
  number modulo \<open>2^16\<close>, and the distances between packets are the publisher's.
\<close>
theorem audio_rebase_keeps_wire_numbers:
  assumes "\<forall>x \<in> set ss. s - s mod 65536 \<le> x"
  shows "hd (rebased None (s # ss)) < 65536
    \<and> map (\<lambda>q. q mod 65536) (rebased None (s # ss)) = map (\<lambda>x. x mod 65536) (s # ss)
    \<and> map (\<lambda>q. q + (s - s mod 65536)) (rebased None (s # ss)) = s # ss"
proof -
  define b where "b = s - s mod 65536"
  have s: "s - b = s mod 65536" "b \<le> s" by (simp_all add: b_def)
  have dvd: "65536 dvd b" by (simp add: b_def dvd_minus_mod)
  have m: "(x - b) mod 65536 = x mod 65536" if "b \<le> x" for x
    using dvd that by (metis le_add_diff_inverse2 dvd_imp_mod_0 mod_add_right_eq add.right_neutral)
  have "rebased None (s # ss) = map (\<lambda>x. x - b) (s # ss)"
    by (simp add: rebase_roc_def rebased_from b_def Let_def)
  moreover have "map (\<lambda>q. q mod 65536) (map (\<lambda>x. x - b) (s # ss)) = map (\<lambda>x. x mod 65536) (s # ss)"
    using assms m s(2) by (auto simp: b_def)
  moreover have "map (\<lambda>q. q + b) (map (\<lambda>x. x - b) (s # ss)) = s # ss"
    using assms s(2) by (auto simp: b_def intro!: map_idI)
  moreover have "s - b < 65536" by (simp add: s(1))
  ultimately show ?thesis unfolding b_def by (simp only: list.map list.sel) 
qed

theorem audio_rebase_keeps_wire_numbers_witness:
  "map (\<lambda>q. q mod 65536) (rebased None [262143, 262146]) = [65535, 2]"
  using audio_rebase_keeps_wire_numbers [of "[262146]" 262143] by simp

end
