(* ===== verification/Protocol.thy ===== *)
theory Protocol
  imports ScreenMedia
begin

text \<open>
  \<open>backend/src/sfu/protocol.rs\<close>: the payloads of the signaling protocol as records, the server's
  messages as one datatype whose constructors carry them, and the client's messages as what the
  dispatcher sees after \<open>serde\<close>: the event and its payload, None when the payload does not
  parse. The JSON text itself is \<open>serde_json\<close>'s and is not modelled.
\<close>

section \<open>Payload types\<close>

datatype pc_kind = PcAudio | PcScreenPub | PcScreenSub

text \<open>The lenient mode field: unknown strings count as absent.\<close>

definition de_mode :: "string option \<Rightarrow> share_mode option" where
  "de_mode s =
     (if s = Some ''sharp'' then Some Sharp else if s = Some ''motion'' then Some Motion else None)"

record sdp_envelope =
  se_pc :: pc_kind
  se_publisher_id :: string
  se_kind :: string
  se_sdp :: string

record candidate_envelope =
  ce_pc :: pc_kind
  ce_publisher_id :: string
  ce_candidate :: string
  ce_sdp_mid :: "string option"
  ce_sdp_mline_index :: "16 word option"
  ce_username_fragment :: "string option"

record peer_info =
  pi_id :: string
  pi_display_name :: string
  pi_client_id :: string
  pi_self_muted :: bool
  pi_deafened :: bool
  pi_chat_only :: bool
  pi_screen_sharing :: bool
  pi_screen_sharing_has_audio :: bool
  pi_screen_sharing_video_codec :: "screen_video_codec option"

record hello =
  he_display_name :: string
  he_client_id :: string
  he_chat_only :: bool

definition CHAT_MAX_BYTES :: nat where "CHAT_MAX_BYTES = 2000"
definition CHAT_MAX_ATTACHMENTS :: nat where "CHAT_MAX_ATTACHMENTS = 10"

record attachment =
  att_upload_id :: string
  att_kind :: string
  att_name :: string
  att_mime :: string
  att_size :: int
  att_width :: int
  att_height :: int
  att_blur_thumb :: string

record chat_send =
  cs_text :: string
  cs_client_msg_id :: string
  cs_attachments :: "attachment list option"

record chat =
  ch_id :: string
  ch_from :: string
  ch_text :: string
  ch_ts :: int
  ch_client_msg_id :: string
  ch_sender_name :: string
  ch_attachments :: "attachment list"

datatype share_reason = NotFound | InvalidToken | AlreadyPublishing | InternalErr

record share_start =
  st_sdp :: string
  st_has_system_audio :: bool
  st_mode :: "share_mode option"

record share_subscribe =
  su_publisher_id :: string
  su_preferred_temporal_layer :: "8 word"

section \<open>Server messages\<close>

datatype server_msg =
    Welcome string "peer_info list"
  | PeerJoined peer_info
  | PeerInfoChanged peer_info
  | PeerLeft string
  | PeerState string bool bool
  | AudioSlots "(string \<times> string option) list"
  | PingServer string string
  | ChatMsg chat
  | ChatDeleted string
  | Offer sdp_envelope
  | Answer sdp_envelope
  | ShareStarted string
  | ShareAvailable string bool screen_video_codec share_mode
  | ShareEnded string
  | ShareError string share_reason
  | ShareModeChanged string share_mode
  | EncodePause
  | EncodeResume

fun event_name :: "server_msg \<Rightarrow> string" where
  "event_name (Welcome _ _) = ''welcome''"
| "event_name (PeerJoined _) = ''peer-joined''"
| "event_name (PeerInfoChanged _) = ''peer-info''"
| "event_name (PeerLeft _) = ''peer-left''"
| "event_name (PeerState _ _ _) = ''peer-state''"
| "event_name (AudioSlots _) = ''audio-slots''"
| "event_name (PingServer _ _) = ''ping''"
| "event_name (ChatMsg _) = ''chat''"
| "event_name (ChatDeleted _) = ''chat-deleted''"
| "event_name (Offer _) = ''offer''"
| "event_name (Answer _) = ''answer''"
| "event_name (ShareStarted _) = ''screen-share-started''"
| "event_name (ShareAvailable _ _ _ _) = ''screen-share-available''"
| "event_name (ShareEnded _) = ''screen-share-ended''"
| "event_name (ShareError _ _) = ''screen-share-error''"
| "event_name (ShareModeChanged _ _) = ''screen-share-mode-changed''"
| "event_name EncodePause = ''screen-share-encode-pause''"
| "event_name EncodeResume = ''screen-share-encode-resume''"

section \<open>Client messages\<close>

datatype client_msg =
    CPing "string option"
  | CChatSend "chat_send option"
  | CChatDelete "string option"
  | CAnswer "sdp_envelope option"
  | CCandidate "candidate_envelope option"
  | CSetDisplayName "string option"
  | CSetState "(bool \<times> bool) option"
  | CRenegotiate
  | COffer "sdp_envelope option"
  | CShareStart "share_start option"
  | CShareStop
  | CShareResume "string option"
  | CShareSubscribe "share_subscribe option"
  | CShareUnsubscribe "string option"
  | CShareModeChange "share_mode option option"
  | COther string

fun is_chat_msg :: "client_msg \<Rightarrow> bool" where
  "is_chat_msg (CChatSend _) = True"
| "is_chat_msg (CChatDelete _) = True"
| "is_chat_msg _ = False"

section \<open>Presence events\<close>

datatype presence_event =
    PresenceJoined string peer_info
  | PresenceLeft string string
  | PresenceUpdated string peer_info

end
