(* ===== verification/RoomState.thy ===== *)
theory RoomState
  imports Protocol AudioSlots
begin

text \<open>
  The state of a room, \<open>backend/src/sfu/mod.rs\<close> with the objects of \<open>audio.rs\<close> and \<open>screen.rs\<close>
  that it shares, and the operations every handler uses: queues, broadcasts, snapshots.

  Everything behind an \<open>Arc\<close> is a cell of a store, named by number (the \<open>Arc\<close>'s identity, so
  \<open>Arc::ptr_eq\<close> is equality of numbers). \<open>w_next\<close> is the next free number. What the code spawns
  (\<open>spawn_blocking\<close>, \<open>tokio::spawn\<close>) is a list of tasks that later steps run.
\<close>

section \<open>The code: constants and objects\<close>

definition PEER_OUT_BUF_LEN :: nat where "PEER_OUT_BUF_LEN = 1024"
definition PING_COOLDOWN :: duration where "PING_COOLDOWN = secs 10"
definition RENEGOTIATE_COOLDOWN :: duration where "RENEGOTIATE_COOLDOWN = millis 250"
definition GRACE_PERIOD :: duration where "GRACE_PERIOD = secs 5"

record peer_obj =
  po_id :: string
  po_client_id :: string
  po_chat_only :: bool
  po_out :: "server_msg list"
  po_cancelled :: bool
  po_rx_closed :: bool
  po_audio :: "nat option"

record audio_obj =
  ao_peer_id :: string
  ao_peer :: nat
  ao_pc :: nat
  ao_sync :: sync_state
  ao_track :: "nat option"
  ao_muted :: bool

record session_obj =
  so_publisher_id :: string
  so_token :: string
  so_has_system_audio :: bool
  so_video_codec :: screen_video_codec
  so_mode :: share_mode
  so_publisher_pc :: nat
  so_subscribers :: "(string, nat) hashmap"
  so_grace :: "nat option"
  so_closed :: bool
  so_first_video :: bool
  so_cancelled :: bool

record sub_obj =
  ss_peer_id :: string
  ss_pc :: nat
  ss_session :: nat
  ss_pending_offer :: bool
  ss_target :: int

datatype pc_owner = OfAudio nat | OfSession nat | OfSub nat

record pc_obj =
  px_closed :: bool
  px_owner :: pc_owner

record entry =
  en_peer :: nat
  en_display_name :: string
  en_self_muted :: bool
  en_deafened :: bool
  en_last_ping_received :: "instant option"
  en_last_renegotiate :: "instant option"
  en_screen_session :: "nat option"
  en_screen_subs :: "(string, nat) hashmap"

datatype room_task =
    SignalAllTask
  | EndSessionTask string
  | GraceTimer nat nat instant

record world =
  w_room_id :: string
  w_closed :: bool
  w_peers :: "(string, entry) hashmap"
  w_tracks :: "(string, nat) hashmap"
  w_sessions_by_token :: "(string, nat) hashmap"
  w_peer :: "nat \<Rightarrow> peer_obj"
  w_audio :: "nat \<Rightarrow> audio_obj"
  w_trk :: "nat \<Rightarrow> audio_track"
  w_session :: "nat \<Rightarrow> session_obj"
  w_sub :: "nat \<Rightarrow> sub_obj"
  w_pc :: "nat \<Rightarrow> pc_obj"
  w_cancelled_graces :: "nat list"
  w_tasks :: "room_task list"
  w_presence :: "presence_event list"
  w_next :: nat

text \<open>
  What str0m decides during a step, per audio PC: the mids of added m-lines, whether an offer
  comes out of \<open>apply\<close>, and its SDP for so many new slots.
\<close>

record rtc_env =
  re_mids :: "nat \<Rightarrow> nat \<Rightarrow> string"
  re_applied :: "nat \<Rightarrow> bool"
  re_offer_sdp :: "nat \<Rightarrow> nat \<Rightarrow> string"

section \<open>The code: reading the state\<close>

definition entry_info :: "world \<Rightarrow> entry \<Rightarrow> peer_info" where
  "entry_info w e =
     \<lparr>pi_id = po_id (w_peer w (en_peer e)),
      pi_display_name = en_display_name e,
      pi_client_id = po_client_id (w_peer w (en_peer e)),
      pi_self_muted = en_self_muted e,
      pi_deafened = en_deafened e,
      pi_chat_only = po_chat_only (w_peer w (en_peer e)),
      pi_screen_sharing = (en_screen_session e \<noteq> None),
      pi_screen_sharing_has_audio =
        (case en_screen_session e of None \<Rightarrow> False | Some s \<Rightarrow> so_has_system_audio (w_session w s)),
      pi_screen_sharing_video_codec = map_option (\<lambda>s. so_video_codec (w_session w s)) (en_screen_session e)\<rparr>"

definition room_peers :: "world \<Rightarrow> peer_info list" where
  "room_peers w = map (entry_info w) (hvals (w_peers w))"

definition peer_handle :: "world \<Rightarrow> string \<Rightarrow> nat option" where
  "peer_handle w pid = map_option en_peer (hget (w_peers w) pid)"

definition all_peers :: "world \<Rightarrow> nat list" where
  "all_peers w = map en_peer (hvals (w_peers w))"

definition other_peers :: "world \<Rightarrow> string \<Rightarrow> nat list" where
  "other_peers w exclude =
     map en_peer (filter (\<lambda>e. po_id (w_peer w (en_peer e)) \<noteq> exclude) (hvals (w_peers w)))"

section \<open>The code: queues and notifications\<close>

text \<open>\<open>Peer::send\<close>: never blocks; a full queue cancels the peer.\<close>

definition peer_send :: "nat \<Rightarrow> server_msg \<Rightarrow> world \<Rightarrow> world" where
  "peer_send r m w =
     (let p = w_peer w r
      in if po_cancelled p then w
         else if po_rx_closed p then w
         else if length (po_out p) \<ge> PEER_OUT_BUF_LEN
              then w\<lparr>w_peer := (w_peer w)(r := p\<lparr>po_cancelled := True\<rparr>)\<rparr>
              else w\<lparr>w_peer := (w_peer w)(r := p\<lparr>po_out := po_out p @ [m]\<rparr>)\<rparr>)"

definition cancel_peer :: "nat \<Rightarrow> world \<Rightarrow> world" where
  "cancel_peer r w = w\<lparr>w_peer := (w_peer w)(r := (w_peer w r)\<lparr>po_cancelled := True\<rparr>)\<rparr>"

definition broadcast :: "nat list \<Rightarrow> server_msg \<Rightarrow> world \<Rightarrow> world" where
  "broadcast rs m w = fold (\<lambda>r. peer_send r m) rs w"

definition send_to :: "string \<Rightarrow> server_msg \<Rightarrow> world \<Rightarrow> world" where
  "send_to pid m w = (case peer_handle w pid of None \<Rightarrow> w | Some r \<Rightarrow> peer_send r m w)"

definition presence :: "presence_event \<Rightarrow> world \<Rightarrow> world" where
  "presence ev w = w\<lparr>w_presence := w_presence w @ [ev]\<rparr>"

definition spawn_task :: "room_task \<Rightarrow> world \<Rightarrow> world" where
  "spawn_task t w = w\<lparr>w_tasks := w_tasks w @ [t]\<rparr>"

section \<open>The code: pointing the audio slots at the tracks\<close>

fun apply_audio_act :: "rtc_env \<Rightarrow> nat \<Rightarrow> audio_act \<Rightarrow> world \<Rightarrow> world" where
  "apply_audio_act env a (RemoveSub t) w =
     w\<lparr>w_trk := (w_trk w)(t := remove_sub (ao_pc (w_audio w a)) (w_trk w t))\<rparr>"
| "apply_audio_act env a (AddSub t mid out) w =
     w\<lparr>w_trk := (w_trk w)(t := add_sub (ao_pc (w_audio w a)) mid out (w_trk w t))\<rparr>"
| "apply_audio_act env a (AudioSlotsMsg as) w = send_to (ao_peer_id (w_audio w a)) (AudioSlots as) w"
| "apply_audio_act env a (OfferMsg n) w =
     send_to (ao_peer_id (w_audio w a))
       (Offer \<lparr>se_pc = PcAudio, se_publisher_id = '''', se_kind = ''offer'', se_sdp = re_offer_sdp env a n\<rparr>) w"

definition track_list :: "world \<Rightarrow> trk list" where
  "track_list w = map (\<lambda>(owner, t). (t, owner)) (w_tracks w)"

text \<open>\<open>AudioPeer::sync\<close> and \<open>accept_answer\<close> on the peer's own state, then what they do outside it.\<close>

definition audio_live :: "world \<Rightarrow> nat \<Rightarrow> bool" where
  "audio_live w a \<longleftrightarrow>
     \<not> px_closed (w_pc w (ao_pc (w_audio w a))) \<and> \<not> po_cancelled (w_peer w (ao_peer (w_audio w a)))"

definition run_audio :: "rtc_env \<Rightarrow> nat \<Rightarrow> sync_state \<times> audio_act list \<Rightarrow> world \<Rightarrow> world" where
  "run_audio env a r w =
     fold (apply_audio_act env a) (snd r) (w\<lparr>w_audio := (w_audio w)(a := (w_audio w a)\<lparr>ao_sync := fst r\<rparr>)\<rparr>)"

definition audio_sync :: "rtc_env \<Rightarrow> nat \<Rightarrow> world \<Rightarrow> world" where
  "audio_sync env a w =
     run_audio env a (sync (ao_peer_id (w_audio w a)) (re_mids env a) (audio_live w a) (re_applied env a)
       (track_list w) (ao_sync (w_audio w a))) w"

definition audio_answer :: "rtc_env \<Rightarrow> bool \<Rightarrow> nat \<Rightarrow> world \<Rightarrow> world" where
  "audio_answer env accepted a w =
     run_audio env a (accept_answer (ao_peer_id (w_audio w a)) (re_mids env a) (audio_live w a) (re_applied env a)
       accepted (track_list w) (ao_sync (w_audio w a))) w"

definition signal_all :: "rtc_env \<Rightarrow> world \<Rightarrow> world" where
  "signal_all env w =
     fold (audio_sync env) (List.map_filter (\<lambda>e. po_audio (w_peer w (en_peer e))) (hvals (w_peers w))) w"

definition publish_track :: "nat \<Rightarrow> world \<Rightarrow> world" where
  "publish_track t w = spawn_task SignalAllTask (w\<lparr>w_tracks := hput (at_owner (w_trk w t)) t (w_tracks w)\<rparr>)"

definition unpublish_track :: "nat \<Rightarrow> world \<Rightarrow> world" where
  "unpublish_track t w =
     (if hget (w_tracks w) (at_owner (w_trk w t)) = Some t
      then spawn_task SignalAllTask (w\<lparr>w_tracks := hdel (at_owner (w_trk w t)) (w_tracks w)\<rparr>)
      else w)"

text \<open>\<open>AudioPeer::close\<close>, after its PC is closed: unpublish the own track, leave the others' tracks.\<close>

definition audio_close :: "rtc_env \<Rightarrow> nat \<Rightarrow> world \<Rightarrow> world" where
  "audio_close env a w =
     (let ao = w_audio w a;
          w1 = (if px_closed (w_pc w (ao_pc ao)) then w
                else cancel_peer (ao_peer ao) (w\<lparr>w_pc := (w_pc w)(ao_pc ao := (w_pc w (ao_pc ao))\<lparr>px_closed := True\<rparr>)\<rparr>));
          w2 = (case ao_track (w_audio w1 a) of None \<Rightarrow> w1 | Some t \<Rightarrow> unpublish_track t w1)
      in fold (apply_audio_act env a) (close_audio (ao_sync (w_audio w2 a))) w2)"

text \<open>The first packet of a microphone publishes its track.\<close>

definition first_audio_packet :: "nat \<Rightarrow> world \<Rightarrow> world" where
  "first_audio_packet a w =
     (case ao_track (w_audio w a) of
        Some _ \<Rightarrow> w
      | None \<Rightarrow>
          let t = w_next w
          in publish_track t (w\<lparr>w_trk := (w_trk w)(t := new_track (ao_peer_id (w_audio w a))),
               w_audio := (w_audio w)(a := (w_audio w a)\<lparr>ao_track := Some t\<rparr>), w_next := t + 1\<rparr>))"

section \<open>What they leave alone\<close>

text \<open>
  The registry: everything the screen-share and membership invariants speak of. Sending,
  broadcasting, presence and the audio pool do not touch it.
\<close>

definition registry :: "world \<Rightarrow> (string, entry) hashmap \<times> (string, nat) hashmap \<times> (nat \<Rightarrow> session_obj) \<times>
    (nat \<Rightarrow> sub_obj) \<times> (nat \<Rightarrow> pc_obj) \<times> nat list \<times> room_task list \<times> nat" where
  "registry w = (w_peers w, w_sessions_by_token w, w_session w, w_sub w, w_pc w, w_cancelled_graces w, w_tasks w, w_next w)"

definition identities :: "world \<Rightarrow> nat \<Rightarrow> string \<times> string \<times> bool \<times> nat option" where
  "identities w r = (po_id (w_peer w r), po_client_id (w_peer w r), po_chat_only (w_peer w r), po_audio (w_peer w r))"

named_theorems quiet \<open>an operation leaves the registry and the peers' identities alone\<close>

definition same_registry :: "world \<Rightarrow> world \<Rightarrow> bool" where
  "same_registry w w' \<longleftrightarrow> registry w' = registry w \<and> identities w' = identities w"

lemma same_registry_refl [simp]: "same_registry w w"
  by (simp add: same_registry_def)

lemma same_registry_trans: "same_registry w w1 \<Longrightarrow> same_registry w1 w2 \<Longrightarrow> same_registry w w2"
  by (simp add: same_registry_def)

lemma same_registry_fold:
  "(\<And>x w. same_registry w (f x w)) \<Longrightarrow> same_registry w (fold f xs w)"
  by (induction xs arbitrary: w) (auto intro: same_registry_trans)

lemma peer_send_quiet [quiet]: "same_registry w (peer_send r m w)"
  by (auto simp: peer_send_def Let_def same_registry_def registry_def identities_def fun_eq_iff)

lemma cancel_peer_quiet [quiet]: "same_registry w (cancel_peer r w)"
  by (auto simp: cancel_peer_def same_registry_def registry_def identities_def fun_eq_iff)

lemma broadcast_quiet [quiet]: "same_registry w (broadcast rs m w)"
  unfolding broadcast_def by (rule same_registry_fold) (rule peer_send_quiet)

lemma send_to_quiet [quiet]: "same_registry w (send_to pid m w)"
  by (simp add: send_to_def peer_send_quiet split: option.split)

lemma presence_quiet [quiet]: "same_registry w (presence ev w)"
  by (simp add: presence_def same_registry_def registry_def identities_def fun_eq_iff)

lemma apply_audio_act_quiet [quiet]: "same_registry w (apply_audio_act env a act w)"
  by (cases act) (simp_all add: send_to_quiet, simp_all add: same_registry_def registry_def identities_def fun_eq_iff)

lemma run_audio_quiet [quiet]: "same_registry w (run_audio env a r w)"
proof -
  have "same_registry w (w\<lparr>w_audio := (w_audio w)(a := (w_audio w a)\<lparr>ao_sync := fst r\<rparr>)\<rparr>)"
    by (simp add: same_registry_def registry_def identities_def fun_eq_iff)
  moreover have "same_registry v (fold (apply_audio_act env a) (snd r) v)" for v
    by (rule same_registry_fold) (rule apply_audio_act_quiet)
  ultimately show ?thesis unfolding run_audio_def by (rule same_registry_trans)
qed

lemma signal_all_quiet [quiet]: "same_registry w (signal_all env w)"
  unfolding signal_all_def by (rule same_registry_fold) (simp add: audio_sync_def run_audio_quiet)

end
