(* ===== verification/ScreenShare.thy ===== *)
theory ScreenShare
  imports RoomState
begin

text \<open>
  The screen-share handlers of \<open>backend/src/sfu/screen.rs\<close>: start, mode change, stop, end,
  ICE restart, subscribe, answer, unsubscribe, the grace window and resume. A handler is taken
  from its first lock to its last send in one step; its critical sections and the calls between
  them are in the code's order. What str0m decides about an SDP is an argument.
\<close>

section \<open>The code: closing PeerConnections\<close>

definition send_encode :: "string \<Rightarrow> server_msg \<Rightarrow> world \<Rightarrow> world" where
  "send_encode publisher_id m w = send_to publisher_id m w"

definition mark_closed :: "nat \<Rightarrow> world \<Rightarrow> world" where
  "mark_closed pc w = w\<lparr>w_pc := (w_pc w)(pc := (w_pc w pc)\<lparr>px_closed := True\<rparr>)\<rparr>"

text \<open>\<open>only.is_none_or(|pc| Arc::ptr_eq(&s.pc, pc))\<close>\<close>

definition sub_matches :: "world \<Rightarrow> nat option \<Rightarrow> nat \<Rightarrow> bool" where
  "sub_matches w only sb = (case only of None \<Rightarrow> True | Some pc \<Rightarrow> ss_pc (w_sub w sb) = pc)"

definition set_entry :: "string \<Rightarrow> entry \<Rightarrow> world \<Rightarrow> world" where
  "set_entry pid e w = w\<lparr>w_peers := hput pid e (w_peers w)\<rparr>"

definition set_session :: "nat \<Rightarrow> session_obj \<Rightarrow> world \<Rightarrow> world" where
  "set_session s so w = w\<lparr>w_session := (w_session w)(s := so)\<rparr>"

text \<open>The first critical section of \<open>remove_screen_sub\<close>: the subscriber's entry lets go of the PC.\<close>

definition detach_sub :: "string \<Rightarrow> string \<Rightarrow> nat option \<Rightarrow> world \<Rightarrow> nat option \<times> world" where
  "detach_sub sub_id publisher_id only w =
     (case hget (w_peers w) sub_id of
        None \<Rightarrow> (None, w)
      | Some e \<Rightarrow>
          (case hget (en_screen_subs e) publisher_id of
             None \<Rightarrow> (None, w)
           | Some sb \<Rightarrow>
               if sub_matches w only sb
               then (Some sb, set_entry sub_id (e\<lparr>en_screen_subs := hdel publisher_id (en_screen_subs e)\<rparr>) w)
               else (None, w)))"

definition session_of :: "world \<Rightarrow> string \<Rightarrow> nat option" where
  "session_of w pid = (case hget (w_peers w) pid of None \<Rightarrow> None | Some e \<Rightarrow> en_screen_session e)"

text \<open>
  \<open>remove_screen_sub\<close>, with what \<open>s.pc.close()\<close> does as an argument: closing a subscriber's PC
  runs its \<open>on_closed\<close>, which calls this function again.
\<close>

definition remove_sub_with ::
  "(nat \<Rightarrow> world \<Rightarrow> world) \<Rightarrow> string \<Rightarrow> string \<Rightarrow> nat option \<Rightarrow> world \<Rightarrow> world" where
  "remove_sub_with close sub_id publisher_id only w =
     (case detach_sub sub_id publisher_id only w of (sub, w1) \<Rightarrow>
      let session = session_of w1 publisher_id;
          w2 = (case sub of None \<Rightarrow> w1 | Some sb \<Rightarrow> close (ss_pc (w_sub w1 sb)) w1)
      in case session of
           None \<Rightarrow> w2
         | Some s \<Rightarrow>
             let so = w_session w2 s
             in case hget (so_subscribers so) sub_id of
                  None \<Rightarrow> w2
                | Some sb \<Rightarrow>
                    if sub_matches w2 only sb
                    then let subs = hdel sub_id (so_subscribers so);
                             w3 = close (ss_pc (w_sub w2 sb)) (set_session s (so\<lparr>so_subscribers := subs\<rparr>) w2)
                         in if subs = [] then send_encode publisher_id EncodePause w3 else w3
                    else w2)"

text \<open>
  \<open>Pc::close\<close> of a subscriber PC, in the outer call and in the call its own \<open>on_closed\<close> makes.
  The inner call only meets the PC that is already closed, where \<open>close\<close> returns at once.
\<close>

definition close_again :: "nat \<Rightarrow> world \<Rightarrow> world" where
  "close_again pc w = (if px_closed (w_pc w pc) then w else mark_closed pc w)"

definition close_sub_pc :: "nat \<Rightarrow> world \<Rightarrow> world" where
  "close_sub_pc pc w =
     (if px_closed (w_pc w pc) then w
      else let w1 = mark_closed pc w
           in case px_owner (w_pc w pc) of
                OfSub sb \<Rightarrow>
                  let sub = w_sub w1 sb
                  in remove_sub_with close_again (ss_peer_id sub)
                       (so_publisher_id (w_session w1 (ss_session sub))) (Some pc) w1
              | _ \<Rightarrow> w1)"

definition remove_screen_sub :: "string \<Rightarrow> string \<Rightarrow> nat option \<Rightarrow> world \<Rightarrow> world" where
  "remove_screen_sub sub_id publisher_id only w = remove_sub_with close_sub_pc sub_id publisher_id only w"

text \<open>\<open>Pc::close\<close> of a publisher PC: its \<open>on_closed\<close> spawns the end of the session, by its token.\<close>

definition close_publisher_pc :: "nat \<Rightarrow> world \<Rightarrow> world" where
  "close_publisher_pc s w =
     (let pc = so_publisher_pc (w_session w s)
      in if px_closed (w_pc w pc) then w
         else spawn_task (EndSessionTask (so_token (w_session w s))) (mark_closed pc w))"

section \<open>The code: ending a session\<close>

definition drop_entry_sub :: "string \<Rightarrow> string \<Rightarrow> world \<Rightarrow> world" where
  "drop_entry_sub sub_id pub_id w =
     (case hget (w_peers w) sub_id of
        None \<Rightarrow> w
      | Some e \<Rightarrow> set_entry sub_id (e\<lparr>en_screen_subs := hdel pub_id (en_screen_subs e)\<rparr>) w)"

definition close_stale_sub :: "string \<Rightarrow> nat \<Rightarrow> world \<Rightarrow> world" where
  "close_stale_sub pub_id sb w =
     drop_entry_sub (ss_peer_id (w_sub w sb)) pub_id (close_sub_pc (ss_pc (w_sub w sb)) w)"

definition cancel_grace :: "nat option \<Rightarrow> world \<Rightarrow> world" where
  "cancel_grace g w =
     (case g of None \<Rightarrow> w | Some tok \<Rightarrow> w\<lparr>w_cancelled_graces := tok # w_cancelled_graces w\<rparr>)"

definition clear_owner :: "string \<Rightarrow> nat \<Rightarrow> world \<Rightarrow> world" where
  "clear_owner pub_id s w =
     (case hget (w_peers w) pub_id of
        None \<Rightarrow> w
      | Some e \<Rightarrow> if en_screen_session e = Some s then set_entry pub_id (e\<lparr>en_screen_session := None\<rparr>) w else w)"

definition end_screen_share_session :: "nat \<Rightarrow> world \<Rightarrow> world" where
  "end_screen_share_session s w =
     (let so = w_session w s
      in if so_closed so then w
         else let subs = hvals (so_subscribers so);
                  w1 = set_session s (so\<lparr>so_closed := True, so_subscribers := [], so_grace := None\<rparr>) w;
                  w2 = cancel_grace (so_grace so) w1;
                  w3 = close_publisher_pc s w2;
                  w4 = set_session s ((w_session w3 s)\<lparr>so_cancelled := True\<rparr>) w3;
                  pub_id = so_publisher_id (w_session w4 s);
                  w5 = fold (close_stale_sub pub_id) subs w4;
                  w6 = w5\<lparr>w_sessions_by_token := hdel (so_token so) (w_sessions_by_token w5)\<rparr>;
                  w7 = clear_owner pub_id s w6;
                  everyone = all_peers w7
              in case hget (w_peers w7) pub_id of
                   Some e \<Rightarrow>
                     let info = entry_info w7 e;
                         w8 = fold (\<lambda>r v. let v1 = peer_send r (ShareEnded pub_id) v
                                          in if po_id (w_peer v1 r) \<noteq> pi_id info
                                             then peer_send r (PeerInfoChanged info) v1 else v1) everyone w7
                     in presence (PresenceUpdated (w_room_id w8) info) w8
                 | None \<Rightarrow> broadcast everyone (ShareEnded pub_id) w7)"

section \<open>The code: starting a share\<close>

definition send_screen_error :: "nat \<Rightarrow> string \<Rightarrow> share_reason \<Rightarrow> world \<Rightarrow> world" where
  "send_screen_error r publisher_id reason w = peer_send r (ShareError publisher_id reason) w"

text \<open>
  What comes of the publisher's offer: it does not parse; or a PC answers it, and the answer is
  refused or names no usable video codec (\<open>negotiate\<close> of theory \<open>ScreenMedia\<close>), or it is the
  session's.
\<close>

datatype setup_result = BadOffer | Refused | Answered "str0m_codec option" string

definition setup_codec :: "setup_result \<Rightarrow> (screen_video_codec \<times> string) option" where
  "setup_codec r =
     (case r of Answered (Some c) sdp \<Rightarrow> map_option (\<lambda>v. (v, sdp)) (video_codec c) | _ \<Rightarrow> None)"

definition new_session :: "string \<Rightarrow> string \<Rightarrow> share_start \<Rightarrow> nat \<Rightarrow> screen_video_codec \<Rightarrow> session_obj" where
  "new_session pub_id token d pc codec =
     \<lparr>so_publisher_id = pub_id, so_token = token, so_has_system_audio = st_has_system_audio d,
      so_video_codec = codec, so_mode = (case st_mode d of Some m \<Rightarrow> m | None \<Rightarrow> Sharp),
      so_publisher_pc = pc, so_subscribers = [], so_grace = None, so_closed = False,
      so_first_video = False, so_cancelled = False\<rparr>"

text \<open>\<open>setup_screen_pub\<close>: the new session and its PC; a failed setup leaves its PC closed behind.\<close>

definition setup_screen_pub ::
  "nat \<Rightarrow> share_start \<Rightarrow> string \<Rightarrow> setup_result \<Rightarrow> world \<Rightarrow> (nat \<times> string) option \<times> world" where
  "setup_screen_pub r d token res w =
     (if res = BadOffer then (None, w)
      else let s = w_next w; pc = w_next w + 1;
               codec = (case setup_codec res of Some (c, _) \<Rightarrow> c | None \<Rightarrow> Vp9C);
               w1 = w\<lparr>w_session := (w_session w)(s := new_session (po_id (w_peer w r)) token d pc codec),
                      w_pc := (w_pc w)(pc := \<lparr>px_closed = False, px_owner = OfSession s\<rparr>), w_next := pc + 1\<rparr>
           in case setup_codec res of
                Some (c, sdp) \<Rightarrow> (Some (s, sdp), w1)
              | None \<Rightarrow> (None, close_publisher_pc s w1))"

definition handle_screen_share_start ::
  "nat \<Rightarrow> share_start \<Rightarrow> string \<Rightarrow> setup_result \<Rightarrow> world \<Rightarrow> world" where
  "handle_screen_share_start r d token res w =
     (let pid = po_id (w_peer w r)
      in if session_of w pid \<noteq> None then send_screen_error r '''' AlreadyPublishing w
         else case setup_screen_pub r d token res w of
                (None, w1) \<Rightarrow> send_screen_error r '''' InternalErr w1
              | (Some (s, sdp), w1) \<Rightarrow>
                  (case hget (w_peers w1) pid of
                     Some e \<Rightarrow>
                       if en_screen_session e = None
                       then let w2 = set_entry pid (e\<lparr>en_screen_session := Some s\<rparr>) w1;
                                w3 = w2\<lparr>w_sessions_by_token := hput token s (w_sessions_by_token w2)\<rparr>;
                                w4 = peer_send r (ShareStarted token) w3
                            in peer_send r (Answer \<lparr>se_pc = PcScreenPub, se_publisher_id = '''',
                                                    se_kind = ''answer'', se_sdp = sdp\<rparr>) w4
                       else close_publisher_pc s w1
                   | None \<Rightarrow> close_publisher_pc s w1))"

definition available_msg :: "session_obj \<Rightarrow> string \<Rightarrow> server_msg" where
  "available_msg so publisher_id =
     ShareAvailable publisher_id (so_has_system_audio so) (so_video_codec so) (so_mode so)"

text \<open>\<open>on_video\<close>'s first packet: \<open>first_video.swap(true)\<close>, then the announcement.\<close>

definition first_screen_video_ready :: "nat \<Rightarrow> world \<Rightarrow> world" where
  "first_screen_video_ready s w =
     (let so = w_session w s
      in if so_closed so then w
         else let pub_id = so_publisher_id so
              in case hget (w_peers w) pub_id of
                   None \<Rightarrow> w
                 | Some e \<Rightarrow>
                     let info = entry_info w e;
                         w1 = fold (\<lambda>r v. peer_send r (available_msg so pub_id) (peer_send r (PeerInfoChanged info) v))
                                (other_peers w pub_id) w;
                         w2 = presence (PresenceUpdated (w_room_id w1) info) w1
                     in if so_subscribers (w_session w2 s) = [] then send_encode pub_id EncodePause w2 else w2)"

definition screen_first_video :: "nat \<Rightarrow> world \<Rightarrow> world" where
  "screen_first_video s w =
     (if so_first_video (w_session w s) then w
      else first_screen_video_ready s (set_session s ((w_session w s)\<lparr>so_first_video := True\<rparr>) w))"

definition handle_screen_share_mode_change :: "nat \<Rightarrow> share_mode option \<Rightarrow> world \<Rightarrow> world" where
  "handle_screen_share_mode_change r m w =
     (case m of
        None \<Rightarrow> w
      | Some mode \<Rightarrow>
          let pid = po_id (w_peer w r)
          in case session_of w pid of
               None \<Rightarrow> send_screen_error r '''' NotFound w
             | Some s \<Rightarrow>
                 let so = w_session w s; w1 = set_session s (so\<lparr>so_mode := mode\<rparr>) w
                 in if so_mode so = mode then w1
                    else broadcast (other_peers w1 pid) (ShareModeChanged (so_publisher_id so) mode) w1)"

definition handle_screen_share_stop :: "nat \<Rightarrow> world \<Rightarrow> world" where
  "handle_screen_share_stop r w =
     (case session_of w (po_id (w_peer w r)) of
        None \<Rightarrow> w
      | Some s \<Rightarrow> end_screen_share_session s w)"

text \<open>Only the publisher's ICE restart; the answer of str0m (None: refused) is an argument.\<close>

definition handle_client_offer :: "nat \<Rightarrow> sdp_envelope \<Rightarrow> string option \<Rightarrow> world \<Rightarrow> world" where
  "handle_client_offer r env answer w =
     (if se_pc env \<noteq> PcScreenPub then w
      else case session_of w (po_id (w_peer w r)) of
             None \<Rightarrow> send_screen_error r '''' NotFound w
           | Some s \<Rightarrow>
               (case answer of
                  Some sdp \<Rightarrow> peer_send r (Answer \<lparr>se_pc = PcScreenPub, se_publisher_id = '''',
                                                   se_kind = ''answer'', se_sdp = sdp\<rparr>) w
                | None \<Rightarrow> send_screen_error r '''' InternalErr w))"

section \<open>The code: viewers\<close>

definition handle_screen_share_subscribe ::
  "nat \<Rightarrow> share_subscribe \<Rightarrow> string option \<Rightarrow> world \<Rightarrow> world" where
  "handle_screen_share_subscribe r d offer w =
     (let sid = po_id (w_peer w r); publisher_id = su_publisher_id d; session = session_of w publisher_id
      in if session \<noteq> None \<and> (case hget (w_peers w) sid of
                                 Some e \<Rightarrow> hget (en_screen_subs e) publisher_id \<noteq> None | None \<Rightarrow> False)
         then w
         else case session of
                None \<Rightarrow> send_screen_error r publisher_id NotFound w
              | Some s \<Rightarrow>
                  let pub_id = so_publisher_id (w_session w s);
                      target = min (int (unat (su_preferred_temporal_layer d))) 2;
                      sb = w_next w; pc = w_next w + 1;
                      w1 = w\<lparr>w_sub := (w_sub w)(sb := \<lparr>ss_peer_id = sid, ss_pc = pc, ss_session = s,
                                         ss_pending_offer = (offer \<noteq> None), ss_target = target\<rparr>),
                             w_pc := (w_pc w)(pc := \<lparr>px_closed = False, px_owner = OfSub sb\<rparr>), w_next := pc + 1\<rparr>
                  in case offer of
                       None \<Rightarrow> send_screen_error r pub_id InternalErr (close_sub_pc pc w1)
                     | Some sdp \<Rightarrow>
                         let so = w_session w1 s
                         in if so_closed so then send_screen_error r pub_id NotFound (close_sub_pc pc w1)
                            else let subs = hput sid sb (so_subscribers so);
                                     w2 = set_session s (so\<lparr>so_subscribers := subs\<rparr>) w1;
                                     first = (length subs = 1)
                                 in case hget (w_peers w2) sid of
                                      None \<Rightarrow> remove_screen_sub sid pub_id (Some pc) w2
                                    | Some e \<Rightarrow>
                                        let w3 = set_entry sid (e\<lparr>en_screen_subs := hput pub_id sb (en_screen_subs e)\<rparr>) w2;
                                            w4 = peer_send r (Offer \<lparr>se_pc = PcScreenSub, se_publisher_id = pub_id,
                                                                     se_kind = ''offer'', se_sdp = sdp\<rparr>) w3
                                        in if first then send_encode pub_id EncodeResume w4 else w4)"

text \<open>The viewer's answer takes the pending offer, whatever str0m makes of it.\<close>

definition screen_sub_answer :: "nat \<Rightarrow> string \<Rightarrow> world \<Rightarrow> world" where
  "screen_sub_answer r publisher_id w =
     (case hget (w_peers w) (po_id (w_peer w r)) of
        None \<Rightarrow> w
      | Some e \<Rightarrow>
          (case hget (en_screen_subs e) publisher_id of
             None \<Rightarrow> w
           | Some sb \<Rightarrow> w\<lparr>w_sub := (w_sub w)(sb := (w_sub w sb)\<lparr>ss_pending_offer := False\<rparr>)\<rparr>))"

section \<open>The code: the grace window and resume\<close>

definition start_screen_share_grace :: "nat \<Rightarrow> instant \<Rightarrow> world \<Rightarrow> world" where
  "start_screen_share_grace s now w =
     (let so = w_session w s; tok = w_next w
      in if so_closed so then w
         else let w1 = set_session s (so\<lparr>so_grace := Some tok\<rparr>) (w\<lparr>w_next := tok + 1\<rparr>)
              in spawn_task (GraceTimer s tok now) (cancel_grace (so_grace so) w1))"

definition handle_screen_share_resume :: "nat \<Rightarrow> string \<Rightarrow> world \<Rightarrow> world" where
  "handle_screen_share_resume r token w =
     (let pid = po_id (w_peer w r)
      in case hget (w_sessions_by_token w) token of
           None \<Rightarrow> send_screen_error r '''' InvalidToken w
         | Some s \<Rightarrow>
             let so = w_session w s; old = so_publisher_id so
             in if (case hget (w_peers w) old of Some e \<Rightarrow> en_peer e \<noteq> r | None \<Rightarrow> False)
                then send_screen_error r '''' InvalidToken w
                else case hget (w_peers w) pid of
                       None \<Rightarrow> w
                     | Some e \<Rightarrow>
                         if (case en_screen_session e of Some s' \<Rightarrow> s' \<noteq> s | None \<Rightarrow> False)
                         then send_screen_error r '''' AlreadyPublishing w
                         else if so_closed so then send_screen_error r '''' InvalidToken w
                         else let stale = hvals (so_subscribers so);
                                  w1 = set_session s (so\<lparr>so_publisher_id := pid, so_grace := None, so_subscribers := []\<rparr>) w;
                                  w2 = set_entry pid (e\<lparr>en_screen_session := Some s\<rparr>) w1;
                                  w3 = cancel_grace (so_grace so) w2;
                                  w4 = fold (close_stale_sub old) stale w3
                              in case hget (w_peers w4) pid of
                                   None \<Rightarrow> w4
                                 | Some e4 \<Rightarrow>
                                     let info = entry_info w4 e4;
                                         avail = available_msg (w_session w4 s) pid;
                                         w5 = fold (\<lambda>q v. peer_send q avail (peer_send q (ShareEnded old)
                                                        (peer_send q (PeerInfoChanged info) v))) (other_peers w4 pid) w4;
                                         w6 = presence (PresenceUpdated (w_room_id w5) info) w5
                                     in peer_send r (ShareStarted token) w6)"

end
