(* ===== verification/Room.thy ===== *)
theory Room
  imports ScreenShare
begin

text \<open>
  The room handlers of \<open>backend/src/sfu/mod.rs\<close>: joining (with eviction of a stale session of
  the same client), leaving, the dispatch of client messages, chat, pings, and the tasks the code
  spawned. \<open>room_step\<close> is one step of a room; a run is a list of events.
\<close>

section \<open>The code: hello and the peer object\<close>

text \<open>
  The first frame of a WebSocket as \<open>serve_ws\<close> sees it: none, late, not an envelope, or an
  envelope with its event and payload (absent, unparsable, or a \<open>hello\<close>).
\<close>

datatype hello_payload = NoData | BadData | HelloData hello

datatype first_frame = ConnectionClosed | HelloTimeout | BadJson | Envelope string hello_payload

definition default_hello :: hello where
  "default_hello = \<lparr>he_display_name = '''', he_client_id = '''', he_chat_only = False\<rparr>"

fun read_hello :: "first_frame \<Rightarrow> hello option" where
  "read_hello (Envelope ev d) =
     (if ev = ''hello''
      then Some (case d of HelloData h \<Rightarrow> h | BadData \<Rightarrow> default_hello | NoData \<Rightarrow> default_hello)
      else None)"
| "read_hello _ = None"

text \<open>\<open>Room::new\<close>: no peers, no tracks, no sessions. The stores hold no object yet; what a number not given out maps to does not matter.\<close>

definition new_room :: "string \<Rightarrow> world" where
  "new_room room_id =
     \<lparr>w_room_id = room_id, w_closed = False, w_peers = [], w_tracks = [], w_sessions_by_token = [],
      w_peer = (\<lambda>_. \<lparr>po_id = [], po_client_id = [], po_chat_only = False, po_out = [], po_cancelled = False,
                     po_rx_closed = False, po_audio = None\<rparr>),
      w_audio = (\<lambda>_. \<lparr>ao_peer_id = [], ao_peer = 0, ao_pc = 0, ao_sync = no_sync, ao_track = None, ao_muted = False\<rparr>),
      w_trk = (\<lambda>_. new_track []),
      w_session = (\<lambda>_. new_session [] [] \<lparr>st_sdp = [], st_has_system_audio = False, st_mode = None\<rparr> 0 Vp9C),
      w_sub = (\<lambda>_. \<lparr>ss_peer_id = [], ss_pc = 0, ss_session = 0, ss_pending_offer = False, ss_target = 0\<rparr>),
      w_pc = (\<lambda>_. \<lparr>px_closed = False, px_owner = OfAudio 0\<rparr>),
      w_cancelled_graces = [], w_tasks = [], w_presence = [], w_next = 0\<rparr>"

text \<open>The peer object and, unless it is a lurker, its audio PC (\<open>AudioPeer::new\<close>).\<close>

definition new_peer :: "string \<Rightarrow> hello \<Rightarrow> world \<Rightarrow> nat \<times> world" where
  "new_peer pid h w =
     (let r = w_next w; a = r + 1; pc = r + 2;
          p = \<lparr>po_id = pid, po_client_id = he_client_id h, po_chat_only = he_chat_only h, po_out = [],
               po_cancelled = False, po_rx_closed = False,
               po_audio = (if he_chat_only h then None else Some a)\<rparr>;
          w1 = w\<lparr>w_peer := (w_peer w)(r := p), w_next := r + 3\<rparr>
      in (r, if he_chat_only h then w1
             else w1\<lparr>w_audio := (w_audio w1)(a := \<lparr>ao_peer_id = pid, ao_peer = r, ao_pc = pc, ao_sync = no_sync,
                                                ao_track = None, ao_muted = False\<rparr>),
                     w_pc := (w_pc w1)(pc := \<lparr>px_closed = False, px_owner = OfAudio a\<rparr>)\<rparr>))"

section \<open>The code: joining and leaving\<close>

text \<open>The eviction loop: every entry of the same non-empty client id leaves the map, with its track.\<close>

definition evict :: "string \<Rightarrow> world \<Rightarrow> entry list \<times> world" where
  "evict client_id w =
     (if client_id = [] then ([], w)
      else let same = (\<lambda>e. po_client_id (w_peer w (en_peer e)) = client_id);
               ids = map (\<lambda>e. po_id (w_peer w (en_peer e))) (filter same (hvals (w_peers w)));
               evicted = List.map_filter (\<lambda>pid. hget (w_peers w) pid) ids
           in (evicted, w\<lparr>w_peers := fold hdel ids (w_peers w), w_tracks := fold hdel ids (w_tracks w)\<rparr>))"

definition new_entry :: "nat \<Rightarrow> string \<Rightarrow> entry" where
  "new_entry r name =
     \<lparr>en_peer = r, en_display_name = name, en_self_muted = False, en_deafened = False,
      en_last_ping_received = None, en_last_renegotiate = None, en_screen_session = None, en_screen_subs = []\<rparr>"

definition close_entry_subs :: "entry \<Rightarrow> world \<Rightarrow> world" where
  "close_entry_subs e w = fold (\<lambda>sb v. close_sub_pc (ss_pc (w_sub v sb)) v) (hvals (en_screen_subs e)) w"

definition dismiss :: "nat list \<Rightarrow> entry \<Rightarrow> world \<Rightarrow> world" where
  "dismiss others ev w =
     (let w1 = close_entry_subs ev (cancel_peer (en_peer ev) w)
      in broadcast others (PeerLeft (po_id (w_peer w1 (en_peer ev)))) w1)"

definition add_peer :: "rtc_env \<Rightarrow> nat \<Rightarrow> string \<Rightarrow> world \<Rightarrow> world" where
  "add_peer env r name w =
     (case evict (po_client_id (w_peer w r)) w of (evicted, w1) \<Rightarrow>
      let existing = room_peers w1;
          others = all_peers w1;
          e = new_entry r name;
          info = entry_info w1 e;
          w2 = set_entry (po_id (w_peer w1 r)) e w1;
          w3 = fold (dismiss others) evicted w2;
          w4 = peer_send r (Welcome (po_id (w_peer w3 r)) existing) w3;
          w5 = broadcast others (PeerJoined info) w4;
          w6 = (if evicted \<noteq> [] then signal_all env w5 else w5);
          w7 = fold (\<lambda>ev v. presence (PresenceLeft (w_room_id v) (po_id (w_peer v (en_peer ev)))) v) evicted w6
      in presence (PresenceJoined (w_room_id w7) info) w7)"

text \<open>\<open>serve_ws\<close> up to its message loop.\<close>

definition join :: "rtc_env \<Rightarrow> string \<Rightarrow> hello \<Rightarrow> world \<Rightarrow> world" where
  "join env pid h w =
     (case new_peer pid h w of (r, w1) \<Rightarrow>
      let w2 = add_peer env r (he_display_name h) w1
      in if he_chat_only h then w2 else signal_all env w2)"

definition remove_peer :: "rtc_env \<Rightarrow> instant \<Rightarrow> string \<Rightarrow> world \<Rightarrow> world" where
  "remove_peer env now pid w =
     (case hget (w_peers w) pid of
        None \<Rightarrow> w
      | Some e \<Rightarrow>
          let w1 = w\<lparr>w_peers := hdel pid (w_peers w), w_tracks := hdel pid (w_tracks w)\<rparr>;
              others = all_peers w1;
              w2 = close_entry_subs e w1;
              w3 = (case en_screen_session e of None \<Rightarrow> w2 | Some s \<Rightarrow> start_screen_share_grace s now w2);
              w4 = cancel_peer (en_peer e) w3;
              w5 = broadcast others (PeerLeft pid) w4;
              w6 = (if \<not> po_chat_only (w_peer w5 (en_peer e)) then signal_all env w5 else w5)
          in presence (PresenceLeft (w_room_id w6) pid) w6)"

text \<open>The end of \<open>serve_ws\<close>: the peer leaves, then its audio PC closes.\<close>

definition leave :: "rtc_env \<Rightarrow> instant \<Rightarrow> nat \<Rightarrow> world \<Rightarrow> world" where
  "leave env now r w =
     (let w1 = remove_peer env now (po_id (w_peer w r)) (cancel_peer r w)
      in case po_audio (w_peer w1 r) of None \<Rightarrow> w1 | Some a \<Rightarrow> audio_close env a w1)"

definition close_room :: "world \<Rightarrow> world" where
  "close_room w =
     (if w_closed w then w else fold cancel_peer (all_peers w) (w\<lparr>w_closed := True\<rparr>))"

section \<open>The code: a peer's own state\<close>

definition set_display_name :: "string \<Rightarrow> string \<Rightarrow> world \<Rightarrow> world" where
  "set_display_name pid name w =
     (case hget (w_peers w) pid of
        None \<Rightarrow> w
      | Some e \<Rightarrow>
          let e1 = e\<lparr>en_display_name := name\<rparr>;
              w1 = set_entry pid e1 w;
              info = entry_info w1 e1;
              w2 = broadcast (other_peers w1 pid) (PeerInfoChanged info) w1
          in presence (PresenceUpdated (w_room_id w2) info) w2)"

definition set_muted :: "nat option \<Rightarrow> bool \<Rightarrow> world \<Rightarrow> world" where
  "set_muted a muted w =
     (case a of None \<Rightarrow> w | Some a \<Rightarrow> w\<lparr>w_audio := (w_audio w)(a := (w_audio w a)\<lparr>ao_muted := muted\<rparr>)\<rparr>)"

definition set_state :: "string \<Rightarrow> bool \<Rightarrow> bool \<Rightarrow> world \<Rightarrow> world" where
  "set_state pid self_muted deafened w =
     (case hget (w_peers w) pid of
        None \<Rightarrow> w
      | Some e \<Rightarrow>
          let e1 = e\<lparr>en_self_muted := self_muted, en_deafened := deafened\<rparr>;
              w1 = set_muted (po_audio (w_peer w (en_peer e))) self_muted (set_entry pid e1 w);
              info = entry_info w1 e1;
              w2 = broadcast (other_peers w1 pid) (PeerState pid self_muted deafened) w1
          in presence (PresenceUpdated (w_room_id w2) info) w2)"

section \<open>The code: chat and pings\<close>

text \<open>\<open>files\<close> is the store's answer for an upload id: the room of the live entry.\<close>

definition attachments_valid :: "(string \<Rightarrow> string option) \<Rightarrow> string \<Rightarrow> attachment list \<Rightarrow> bool" where
  "attachments_valid files room_id atts =
     (if atts = [] then True
      else if length atts > CHAT_MAX_ATTACHMENTS then False
      else list_all (\<lambda>a. att_upload_id a \<noteq> [] \<and> att_mime a \<noteq> [] \<and> files (att_upload_id a) = Some room_id) atts)"

definition broadcast_chat ::
  "(string \<Rightarrow> string option) \<Rightarrow> string \<Rightarrow> int \<Rightarrow> nat \<Rightarrow> chat_send \<Rightarrow> world \<Rightarrow> world" where
  "broadcast_chat files chat_id ts sender cs w =
     (case hget (w_peers w) (po_id (w_peer w sender)) of
        None \<Rightarrow> w
      | Some e \<Rightarrow>
          let name = en_display_name e;
              everyone = all_peers w;
              text = trim (cs_text cs);
              atts = (case cs_attachments cs of Some as \<Rightarrow> as | None \<Rightarrow> [])
          in if name = [] then w
             else if text = [] \<and> atts = [] then w
             else if length text > CHAT_MAX_BYTES then w
             else if \<not> attachments_valid files (w_room_id w) atts then w
             else broadcast everyone
                    (ChatMsg \<lparr>ch_id = chat_id, ch_from = po_id (w_peer w sender), ch_text = text, ch_ts = ts,
                      ch_client_msg_id = cs_client_msg_id cs, ch_sender_name = name, ch_attachments = atts\<rparr>) w)"

definition broadcast_chat_delete :: "string \<Rightarrow> world \<Rightarrow> world" where
  "broadcast_chat_delete mid w =
     (if mid = [] then w else broadcast (all_peers w) (ChatDeleted mid) w)"

definition cooling :: "duration \<Rightarrow> instant \<Rightarrow> instant option \<Rightarrow> bool" where
  "cooling cooldown now prev = (case prev of None \<Rightarrow> False | Some at \<Rightarrow> now - at < cooldown)"

definition handle_ping :: "instant \<Rightarrow> nat \<Rightarrow> string \<Rightarrow> world \<Rightarrow> world" where
  "handle_ping now r to w =
     (let pid = po_id (w_peer w r)
      in if to = [] \<or> to = pid then w
         else let from_name = (case hget (w_peers w) pid of Some e \<Rightarrow> en_display_name e | None \<Rightarrow> [])
              in case hget (w_peers w) to of
                   None \<Rightarrow> w
                 | Some t \<Rightarrow>
                     if cooling PING_COOLDOWN now (en_last_ping_received t) then w
                     else peer_send (en_peer t) (PingServer pid from_name)
                            (set_entry to (t\<lparr>en_last_ping_received := Some now\<rparr>) w))"

definition handle_renegotiate :: "rtc_env \<Rightarrow> instant \<Rightarrow> nat \<Rightarrow> world \<Rightarrow> world" where
  "handle_renegotiate env now r w =
     (let pid = po_id (w_peer w r)
      in case hget (w_peers w) pid of
           None \<Rightarrow> w
         | Some e \<Rightarrow>
             if cooling RENEGOTIATE_COOLDOWN now (en_last_renegotiate e) then w
             else signal_all env (set_entry pid (e\<lparr>en_last_renegotiate := Some now\<rparr>) w))"

section \<open>The code: dispatch\<close>

text \<open>What one step is given beside the message: the clock, random ids, and the answers of str0m and the file store.\<close>

record step_ctx =
  cx_now :: instant
  cx_env :: rtc_env
  cx_accepted :: bool
  cx_token :: string
  cx_setup :: setup_result
  cx_offer :: "string option"
  cx_answer :: "string option"
  cx_chat_id :: string
  cx_chat_ts :: int
  cx_files :: "string \<Rightarrow> string option"

definition handle_answer :: "step_ctx \<Rightarrow> nat \<Rightarrow> sdp_envelope \<Rightarrow> world \<Rightarrow> world" where
  "handle_answer cx r e w =
     (case se_pc e of
        PcAudio \<Rightarrow> (case po_audio (w_peer w r) of
                      None \<Rightarrow> w | Some a \<Rightarrow> audio_answer (cx_env cx) (cx_accepted cx) a w)
      | PcScreenSub \<Rightarrow> screen_sub_answer r (se_publisher_id e) w
      | PcScreenPub \<Rightarrow> w)"

text \<open>The PC a remote candidate is added to, if any.\<close>

definition candidate_pc :: "nat \<Rightarrow> candidate_envelope \<Rightarrow> world \<Rightarrow> nat option" where
  "candidate_pc r e w =
     (case ce_pc e of
        PcAudio \<Rightarrow> map_option (\<lambda>a. ao_pc (w_audio w a)) (po_audio (w_peer w r))
      | PcScreenPub \<Rightarrow> map_option (\<lambda>s. so_publisher_pc (w_session w s)) (session_of w (po_id (w_peer w r)))
      | PcScreenSub \<Rightarrow>
          (case hget (w_peers w) (po_id (w_peer w r)) of
             None \<Rightarrow> None
           | Some en \<Rightarrow> map_option (\<lambda>sb. ss_pc (w_sub w sb)) (hget (en_screen_subs en) (ce_publisher_id e))))"

fun dispatch :: "step_ctx \<Rightarrow> nat \<Rightarrow> client_msg \<Rightarrow> world \<Rightarrow> world" where
  "dispatch cx r (CChatSend (Some cs)) w = broadcast_chat (cx_files cx) (cx_chat_id cx) (cx_chat_ts cx) r cs w"
| "dispatch cx r (CChatDelete (Some mid)) w = broadcast_chat_delete mid w"
| "dispatch cx r (CAnswer (Some e)) w = handle_answer cx r e w"
| "dispatch cx r (CSetDisplayName (Some n)) w = set_display_name (po_id (w_peer w r)) n w"
| "dispatch cx r (CSetState (Some (m, d))) w = set_state (po_id (w_peer w r)) m d w"
| "dispatch cx r CRenegotiate w = handle_renegotiate (cx_env cx) (cx_now cx) r w"
| "dispatch cx r (COffer (Some e)) w = handle_client_offer r e (cx_answer cx) w"
| "dispatch cx r (CShareStart (Some d)) w = handle_screen_share_start r d (cx_token cx) (cx_setup cx) w"
| "dispatch cx r CShareStop w = handle_screen_share_stop r w"
| "dispatch cx r (CShareResume (Some t)) w = handle_screen_share_resume r t w"
| "dispatch cx r (CShareSubscribe (Some d)) w = handle_screen_share_subscribe r d (cx_offer cx) w"
| "dispatch cx r (CShareUnsubscribe (Some p)) w = remove_screen_sub (po_id (w_peer w r)) p None w"
| "dispatch cx r (CShareModeChange (Some m)) w = handle_screen_share_mode_change r m w"
| "dispatch cx r _ w = w"

definition handle_client_message :: "step_ctx \<Rightarrow> nat \<Rightarrow> client_msg \<Rightarrow> world \<Rightarrow> world" where
  "handle_client_message cx r m w =
     (case m of
        CPing (Some to) \<Rightarrow> handle_ping (cx_now cx) r to w
      | CPing None \<Rightarrow> w
      | _ \<Rightarrow> if po_chat_only (w_peer w r) \<and> \<not> is_chat_msg m then w else dispatch cx r m w)"

section \<open>The code: spawned tasks and steps\<close>

definition run_task :: "step_ctx \<Rightarrow> room_task \<Rightarrow> world \<Rightarrow> world" where
  "run_task cx t w =
     (case t of
        SignalAllTask \<Rightarrow> signal_all (cx_env cx) w
      | EndSessionTask token \<Rightarrow>
          (case hget (w_sessions_by_token w) token of None \<Rightarrow> w | Some s \<Rightarrow> end_screen_share_session s w)
      | GraceTimer s tok at \<Rightarrow>
          if tok \<in> set (w_cancelled_graces w) then w else end_screen_share_session s w)"

text \<open>A grace timer is due after its period, or at once when it has been cancelled.\<close>

definition task_due :: "instant \<Rightarrow> world \<Rightarrow> room_task \<Rightarrow> bool" where
  "task_due now w t =
     (case t of GraceTimer s tok at \<Rightarrow> tok \<in> set (w_cancelled_graces w) \<or> at + GRACE_PERIOD \<le> now | _ \<Rightarrow> True)"

datatype room_event =
    Join string first_frame
  | Message nat client_msg
  | Leave nat
  | AudioStarted nat
  | VideoStarted nat
  | SubPcClosed nat
  | PublisherPcClosed nat
  | Task nat
  | Written nat
  | CloseRoom

fun room_step :: "step_ctx \<Rightarrow> room_event \<Rightarrow> world \<Rightarrow> world" where
  "room_step cx (Join pid f) w =
     (case read_hello f of None \<Rightarrow> w | Some h \<Rightarrow> join (cx_env cx) pid h w)"
| "room_step cx (Message r m) w = handle_client_message cx r m w"
| "room_step cx (Leave r) w = leave (cx_env cx) (cx_now cx) r w"
| "room_step cx (AudioStarted a) w = first_audio_packet a w"
| "room_step cx (VideoStarted s) w = screen_first_video s w"
| "room_step cx (SubPcClosed pc) w = close_sub_pc pc w"
| "room_step cx (PublisherPcClosed s) w = close_publisher_pc s w"
| "room_step cx (Task i) w =
     (if i < length (w_tasks w) \<and> task_due (cx_now cx) w (w_tasks w ! i)
      then run_task cx (w_tasks w ! i) (w\<lparr>w_tasks := take i (w_tasks w) @ drop (Suc i) (w_tasks w)\<rparr>)
      else w)"
| "room_step cx (Written r) w =
     w\<lparr>w_peer := (w_peer w)(r := (w_peer w r)\<lparr>po_out := tl (po_out (w_peer w r))\<rparr>)\<rparr>"
| "room_step cx CloseRoom w = close_room w"

end
