(* ===== verification/RoomKeeps.thy ===== *)
theory RoomKeeps
  imports Room
begin

text \<open>
  What most of a room's code leaves alone. A relation between a state and a later one that the
  primitive writes below keep is kept by sending, by the audio pool, by closing PeerConnections
  and by every handler that changes neither who is in the room nor what a member's entry and a
  session say of themselves, proved once along the code: locale \<open>hushed\<close> for the handlers that
  change no viewer, and \<open>keeps\<close>, of which it is a consequence, for those that do as well. \<open>keeps\<close> is
  interpreted for the core of the registry (theory \<open>RoomInv\<close>), for the tokens of the grace timers
  (\<open>RoomGrace\<close>) and for what the presence feed shows (\<open>RoomFeed\<close>), \<open>hushed\<close> for the viewers (\<open>Viewers\<close>).
\<close>

section \<open>What an entry and a session say of themselves\<close>

definition profile :: "entry \<Rightarrow> nat \<times> string \<times> bool \<times> bool \<times> nat option" where
  "profile e = (en_peer e, en_display_name e, en_self_muted e, en_deafened e, en_screen_session e)"

definition standing :: "session_obj \<Rightarrow> (string \<times> string \<times> bool \<times> nat option) \<times> bool \<times> screen_video_codec \<times> bool" where
  "standing so =
     ((so_publisher_id so, so_token so, so_closed so, so_grace so), so_has_system_audio so, so_video_codec so, so_first_video so)"

text \<open>What the writes of queues, tracks and tasks promise: the base of both interfaces.\<close>

locale inert =
  fixes R :: "world \<Rightarrow> world \<Rightarrow> bool"
  assumes refl: "R w w"
    and trans: "R w w1 \<Longrightarrow> R w1 w2 \<Longrightarrow> R w w2"
    and send: "R w (peer_send r m w)"
    and cancel: "R w (cancel_peer r w)"
    and cells: "R w (w\<lparr>w_tracks := a\<rparr>)" "R w (w\<lparr>w_audio := b\<rparr>)" "R w (w\<lparr>w_trk := c\<rparr>)" "R w (w\<lparr>w_closed := z\<rparr>)"
    and fresh: "w_next w \<le> n \<Longrightarrow> R w (w\<lparr>w_next := n\<rparr>)"
    and spawn: "\<forall>s tok at. t \<noteq> GraceTimer s tok at \<Longrightarrow> R w (spawn_task t w)"

text \<open>
  A relation of the handlers that do not change who watches what: PeerConnections are only closed,
  a viewer's answer is noted, entries and sessions keep their viewers.
\<close>

locale hushed = inert +
  assumes closes: "R w (mark_closed pc w)"
    and answered: "R w (w\<lparr>w_sub := (w_sub w)(sb := (w_sub w sb)\<lparr>ss_pending_offer := False\<rparr>)\<rparr>)"
    and entry_same: "hget (w_peers w) pid = Some e \<Longrightarrow> profile e' = profile e \<Longrightarrow> en_screen_subs e' = en_screen_subs e \<Longrightarrow>
      R w (set_entry pid e' w)"
    and session_same: "standing so = standing (w_session w s) \<Longrightarrow> so_subscribers so = so_subscribers (w_session w s) \<Longrightarrow>
      R w (set_session s so w)"
begin

lemma loop: "(\<And>x v. R v (f x v)) \<Longrightarrow> R w (fold f xs w)"
  by (induction xs arbitrary: w) (auto intro: refl trans)

lemma broadcast: "R w (broadcast rs m w)"
  unfolding broadcast_def by (rule loop) (rule send)

lemma send_to: "R w (send_to pid m w)"
  by (simp add: send_to_def send refl split: option.split)

lemma screen_error: "R w (send_screen_error r pid x w)"
  unfolding send_screen_error_def by (rule send)

lemma audio_act: "R w (apply_audio_act env a act w)"
  by (cases act) (simp_all add: send_to cells)

lemma run_audio: "R w (run_audio env a r w)"
  unfolding run_audio_def by (rule trans [OF cells(2) loop]) (rule audio_act)

lemma signal_all: "R w (signal_all env w)"
  unfolding signal_all_def audio_sync_def by (rule loop) (rule run_audio)

lemma unpublish_track: "R w (unpublish_track t w)"
  by (auto simp: unpublish_track_def intro!: refl trans [OF cells(1) spawn])

lemma audio_close: "R w (audio_close env a w)"
proof -
  define ao where "ao = w_audio w a"
  define w1 where "w1 = (if px_closed (w_pc w (ao_pc ao)) then w
      else cancel_peer (ao_peer ao) (mark_closed (ao_pc ao) w))"
  define w2 where "w2 = (case ao_track (w_audio w1 a) of None \<Rightarrow> w1 | Some t \<Rightarrow> unpublish_track t w1)"
  have "R w w1" unfolding w1_def by (auto intro: refl trans [OF closes cancel])
  moreover have "R w1 w2" by (simp add: w2_def unpublish_track refl split: option.split)
  ultimately have "R w w2" by (rule trans)
  then show ?thesis
    unfolding audio_close_def Let_def ao_def [symmetric] mark_closed_def [symmetric] w1_def [symmetric] w2_def [symmetric]
    by (rule trans) (rule loop, rule audio_act)
qed

lemma first_audio_packet: "R w (first_audio_packet a w)"
  by (auto simp: first_audio_packet_def publish_track_def Let_def split: option.split
    intro!: refl trans [OF cells(3) trans [OF cells(2) trans [OF fresh trans [OF cells(1) spawn]]]])

lemma close_publisher_pc: "R w (close_publisher_pc s w)"
  by (auto simp: close_publisher_pc_def Let_def intro!: refl trans [OF closes spawn])

section \<open>Handlers that change no viewer\<close>

lemma chat: "R w (broadcast_chat files cid ts r cs w)"
  unfolding broadcast_chat_def Let_def by (auto split: option.split intro: refl broadcast)

lemma chat_delete: "R w (broadcast_chat_delete mid w)"
  unfolding broadcast_chat_delete_def by (auto intro: refl broadcast)

lemma ping: "R w (handle_ping now r to w)"
  unfolding handle_ping_def Let_def
  by (auto split: option.split simp: profile_def intro!: refl trans [OF entry_same send])

lemma renegotiate: "R w (handle_renegotiate env now r w)"
  unfolding handle_renegotiate_def Let_def
  by (auto split: option.split simp: profile_def intro!: refl trans [OF entry_same signal_all])

lemma answer: "R w (handle_answer cx r e w)"
  unfolding handle_answer_def audio_answer_def screen_sub_answer_def
  by (auto split: option.split pc_kind.split intro: refl run_audio answered)

lemma mode_change: "R w (handle_screen_share_mode_change r m w)"
  unfolding handle_screen_share_mode_change_def Let_def
  by (auto split: option.split simp: standing_def intro!: refl screen_error session_same trans [OF session_same broadcast])

lemma client_offer: "R w (handle_client_offer r env answer w)"
  unfolding handle_client_offer_def
  by (auto split: option.split intro: refl screen_error send)

lemma close_room: "R w (close_room w)"
  unfolding close_room_def by (auto intro: refl trans [OF cells(4) loop] cancel)

end

text \<open>A relation that does not look at the viewers at all.\<close>

locale keeps = inert +
  assumes subs: "R w (w\<lparr>w_sub := d\<rparr>)" and pcs: "R w (w\<lparr>w_pc := p\<rparr>)"
    and entry: "hget (w_peers w) pid = Some e \<Longrightarrow> profile e' = profile e \<Longrightarrow> R w (set_entry pid e' w)"
    and session: "standing so = standing (w_session w s) \<Longrightarrow> R w (set_session s so w)"

sublocale keeps \<subseteq> hushed
proof unfold_locales
  show "R w (mark_closed pc w)" for w pc unfolding mark_closed_def by (rule pcs)
qed (rule subs entry session; assumption)+

context keeps
begin

section \<open>Closing viewers' connections\<close>

lemma detach_sub: "detach_sub sub_id pub_id only w = (r, w1) \<Longrightarrow> R w w1"
  by (auto simp: detach_sub_def profile_def split: option.splits if_splits intro!: refl entry)

lemma remove_sub_with:
  assumes close: "\<And>pc v. R v (close pc v)"
  shows "R w (remove_sub_with close sub_id pub_id only w)"
proof -
  obtain r w1 where d: "detach_sub sub_id pub_id only w = (r, w1)" by (cases "detach_sub sub_id pub_id only w")
  define w2 where "w2 = (case r of None \<Rightarrow> w1 | Some sb \<Rightarrow> close (ss_pc (w_sub w1 sb)) w1)"
  have "R w w1" using d by (rule detach_sub)
  moreover have "R w1 w2" by (simp add: w2_def close refl split: option.split)
  ultimately have w2: "R w w2" by (rule trans)
  have "R w2 (close pc (set_session s ((w_session w2 s)\<lparr>so_subscribers := subs\<rparr>) w2))" for pc s subs
    by (rule trans [OF session close]) (simp add: standing_def)
  from trans [OF w2 this] have w3: "R w (close pc (set_session s ((w_session w2 s)\<lparr>so_subscribers := subs\<rparr>) w2))" for pc s subs .
  then have "R w (send_encode pub_id EncodePause (close pc (set_session s ((w_session w2 s)\<lparr>so_subscribers := subs\<rparr>) w2)))" for pc s subs
    unfolding send_encode_def by (rule trans) (rule send_to)
  with w2 w3 show ?thesis
    unfolding remove_sub_with_def d Let_def prod.case w2_def [symmetric] by (simp split: option.split)
qed

lemma close_again: "R w (close_again pc w)"
  by (simp add: close_again_def closes refl)

lemma close_sub_pc: "R w (close_sub_pc pc w)"
  by (cases "px_owner (w_pc w pc)")
    (auto simp: close_sub_pc_def Let_def intro!: refl closes trans [OF closes remove_sub_with] close_again)

lemma remove_screen_sub: "R w (remove_screen_sub sub_id pub_id only w)"
  unfolding remove_screen_sub_def by (rule remove_sub_with) (rule close_sub_pc)

lemma drop_entry_sub: "R w (drop_entry_sub sub_id pub_id w)"
  by (auto simp: drop_entry_sub_def profile_def split: option.split intro!: refl entry)

lemma close_stale_sub: "R w (close_stale_sub pub_id sb w)"
  unfolding close_stale_sub_def by (rule trans [OF close_sub_pc drop_entry_sub])

lemma close_entry_subs: "R w (close_entry_subs e w)"
  unfolding close_entry_subs_def by (rule loop) (rule close_sub_pc)

lemma dismiss: "R w (dismiss others ev w)"
  unfolding dismiss_def Let_def by (rule trans [OF trans [OF cancel close_entry_subs] broadcast])

section \<open>Subscribing\<close>

lemma subscribe: "R w (handle_screen_share_subscribe r d offer w)"
proof (cases "session_of w (su_publisher_id d)")
  case None
  then show ?thesis by (simp add: handle_screen_share_subscribe_def Let_def screen_error)
next
  case (Some s)
  let ?sid = "po_id (w_peer w r)"
  define pub where "pub = so_publisher_id (w_session w s)"
  define sb where "sb = w_next w"
  define pc where "pc = sb + 1"
  define w1 where "w1 = w\<lparr>w_sub := (w_sub w)(sb := \<lparr>ss_peer_id = ?sid, ss_pc = pc, ss_session = s,
        ss_pending_offer = (offer \<noteq> None), ss_target = min (int (unat (su_preferred_temporal_layer d))) 2\<rparr>),
      w_pc := (w_pc w)(pc := \<lparr>px_closed = False, px_owner = OfSub sb\<rparr>), w_next := pc + 1\<rparr>"
  have c1: "R w w1"
    unfolding w1_def by (rule trans [OF subs trans [OF pcs fresh]]) (simp add: pc_def sb_def)
  have fail: "R w (send_screen_error r pub x (close_sub_pc pc w1))" for x
    by (rule trans [OF c1 trans [OF close_sub_pc screen_error]])
  define w2 where "w2 = set_session s ((w_session w1 s)\<lparr>so_subscribers := hput ?sid sb (so_subscribers (w_session w1 s))\<rparr>) w1"
  have c2: "R w w2" unfolding w2_def by (rule trans [OF c1 session]) (simp add: standing_def)
  have gone: "R w (remove_screen_sub ?sid pub (Some pc) w2)" by (rule trans [OF c2 remove_screen_sub])
  have told: "R w (peer_send r m (set_entry ?sid (e\<lparr>en_screen_subs := subs\<rparr>) w2))"
    if "hget (w_peers w2) ?sid = Some e" for e m subs
    by (rule trans [OF c2 trans [OF entry [OF that] send]]) (simp add: profile_def)
  have resumed: "R w (send_encode pub EncodeResume (peer_send r m (set_entry ?sid (e\<lparr>en_screen_subs := subs\<rparr>) w2)))"
    if "hget (w_peers w2) ?sid = Some e" for e m subs
    unfolding send_encode_def by (rule trans [OF told [OF that] send_to])
  show ?thesis
    unfolding handle_screen_share_subscribe_def Let_def Some option.case pub_def [symmetric] sb_def [symmetric]
      pc_def [symmetric] w1_def [symmetric] w2_def [symmetric]
    using refl fail gone told resumed by (auto split: option.split)
qed

end

end
