(* ===== verification/RoomInv.thy ===== *)
theory RoomInv
  imports RoomKeeps
begin

text \<open>
  The registry of a room keeps its shape: ids, clients, tokens, sessions and their owners. The
  part of the state the invariant speaks of is the \<open>core\<close>; most operations leave it alone.
\<close>

section \<open>The core of the registry\<close>

definition members :: "world \<Rightarrow> (string \<times> nat \<times> nat option) list" where
  "members w = map (\<lambda>(pid, e). (pid, en_peer e, en_screen_session e)) (w_peers w)"

definition session_core :: "world \<Rightarrow> nat \<Rightarrow> string \<times> string \<times> bool \<times> nat option" where
  "session_core w s =
     (so_publisher_id (w_session w s), so_token (w_session w s), so_closed (w_session w s), so_grace (w_session w s))"

text \<open>The sessions a grace timer waits for, with the timer's cancellation token.\<close>

definition timed :: "world \<Rightarrow> (nat \<times> nat) set" where
  "timed w = {(s, tok). \<exists>at. GraceTimer s tok at \<in> set (w_tasks w)}"

text \<open>A timer of an open session: the session is registered, and the timer is its own or cancelled.\<close>

definition timer_ok :: "world \<Rightarrow> nat \<Rightarrow> nat \<Rightarrow> bool" where
  "timer_ok w s tok \<longleftrightarrow> so_closed (w_session w s)
     \<or> (so_token (w_session w s), s) \<in> set (w_sessions_by_token w)
       \<and> (tok \<in> set (w_cancelled_graces w) \<or> so_grace (w_session w s) = Some tok)"

definition same_core :: "world \<Rightarrow> world \<Rightarrow> bool" where
  "same_core w w' \<longleftrightarrow>
     members w' = members w \<and> w_sessions_by_token w' = w_sessions_by_token w \<and> session_core w' = session_core w
   \<and> identities w' = identities w \<and> timed w' \<subseteq> timed w \<and> w_next w \<le> w_next w'
   \<and> set (w_cancelled_graces w) \<subseteq> set (w_cancelled_graces w')"

named_theorems core_intros \<open>an operation leaves the core alone\<close>

lemma same_core_refl [simp, core_intros]: "same_core w w"
  by (simp add: same_core_def)

lemma same_core_trans [trans]: "same_core w w1 \<Longrightarrow> same_core w1 w2 \<Longrightarrow> same_core w w2"
  by (auto simp: same_core_def)

lemma same_core_fold: "(\<And>x v. same_core v (f x v)) \<Longrightarrow> same_core w (fold f xs w)"
  by (induction xs arbitrary: w) (auto intro: same_core_trans)

lemma same_registry_core: "same_registry w w' \<Longrightarrow> same_core w w'"
  by (auto simp: same_registry_def registry_def same_core_def members_def timed_def session_core_def fun_eq_iff)

lemmas quiet_core [core_intros] = quiet [THEN same_registry_core]

lemma members_put:
  "hget m k = Some e \<Longrightarrow> f k e' = f k e \<Longrightarrow>
   map (\<lambda>(k, e). f k e) (hput k e' m) = map (\<lambda>(k, e). f k e) m"
  by (induction m) (auto simp: hget_def hput_def split: if_splits)

lemma set_entry_core:
  "hget (w_peers w) pid = Some e \<Longrightarrow> en_peer e' = en_peer e \<Longrightarrow> en_screen_session e' = en_screen_session e \<Longrightarrow>
   same_core w (set_entry pid e' w)"
  using members_put [of "w_peers w" pid e "\<lambda>pid e. (pid, en_peer e, en_screen_session e)" e']
  by (simp add: same_core_def timed_def members_def set_entry_def session_core_def identities_def fun_eq_iff)

lemma set_session_core:
  "so_publisher_id so = so_publisher_id (w_session w s) \<Longrightarrow> so_token so = so_token (w_session w s) \<Longrightarrow>
   so_closed so = so_closed (w_session w s) \<Longrightarrow> so_grace so = so_grace (w_session w s) \<Longrightarrow>
   same_core w (set_session s so w)"
  by (simp add: same_core_def timed_def members_def set_session_def session_core_def identities_def fun_eq_iff)

lemma mark_closed_core [core_intros]: "same_core w (mark_closed pc w)"
  by (simp add: same_core_def timed_def members_def mark_closed_def session_core_def identities_def fun_eq_iff)

lemma spawn_task_core: "\<forall>s tok at. t \<noteq> GraceTimer s tok at \<Longrightarrow> same_core w (spawn_task t w)"
  by (auto simp: same_core_def timed_def members_def spawn_task_def session_core_def identities_def fun_eq_iff)

lemma cancel_grace_core [core_intros]: "same_core w (cancel_grace g w)"
  by (auto simp: same_core_def timed_def members_def cancel_grace_def session_core_def identities_def fun_eq_iff split: option.split)

interpretation core: keeps same_core
proof unfold_locales
  show "same_core w w1 \<Longrightarrow> same_core w1 w2 \<Longrightarrow> same_core w w2" for w w1 w2 by (rule same_core_trans)
  show "same_core w (w\<lparr>w_tracks := a\<rparr>)" "same_core w (w\<lparr>w_audio := b\<rparr>)" "same_core w (w\<lparr>w_trk := c\<rparr>)"
    "same_core w (w\<lparr>w_sub := d\<rparr>)" "same_core w (w\<lparr>w_pc := p\<rparr>)" "same_core w (w\<lparr>w_closed := z\<rparr>)" for w a b c d p z
    by (simp_all add: same_core_def timed_def members_def session_core_def identities_def fun_eq_iff)
  show "w_next w \<le> n \<Longrightarrow> same_core w (w\<lparr>w_next := n\<rparr>)" for w n
    by (simp add: same_core_def timed_def members_def session_core_def identities_def fun_eq_iff)
  show "hget (w_peers w) pid = Some e \<Longrightarrow> profile e' = profile e \<Longrightarrow> same_core w (set_entry pid e' w)" for w pid e e'
    by (rule set_entry_core) (simp_all add: profile_def)
  show "standing so = standing (w_session w s) \<Longrightarrow> same_core w (set_session s so w)" for so w s
    by (rule set_session_core) (simp_all add: standing_def)
qed (rule core_intros spawn_task_core; assumption?)+

lemmas close_sub_pc_core [core_intros] = core.close_sub_pc
  and close_publisher_pc_core [core_intros] = core.close_publisher_pc
  and close_stale_sub_core [core_intros] = core.close_stale_sub
  and close_entry_subs_core [core_intros] = core.close_entry_subs
  and dismiss_core [core_intros] = core.dismiss
  and audio_close_core [core_intros] = core.audio_close

lemmas kept_core [core_intros] = core.remove_screen_sub core.first_audio_packet core.chat core.chat_delete core.ping
  core.renegotiate core.answer core.close_room core.mode_change core.client_offer core.subscribe

section \<open>The invariant\<close>

definition reg_inv :: "world \<Rightarrow> bool" where
  "reg_inv w \<longleftrightarrow>
     distinct (map fst (members w))
   \<and> (\<forall>pid r so. (pid, r, so) \<in> set (members w) \<longrightarrow> po_id (w_peer w r) = pid \<and> r < w_next w)
   \<and> (\<forall>p1 r1 s1 p2 r2 s2. (p1, r1, s1) \<in> set (members w) \<longrightarrow> (p2, r2, s2) \<in> set (members w) \<longrightarrow>
        p1 \<noteq> p2 \<longrightarrow> po_client_id (w_peer w r1) \<noteq> [] \<longrightarrow> po_client_id (w_peer w r1) \<noteq> po_client_id (w_peer w r2))
   \<and> hwf (w_sessions_by_token w)
   \<and> (\<forall>t s. (t, s) \<in> set (w_sessions_by_token w) \<longrightarrow>
        so_token (w_session w s) = t \<and> \<not> so_closed (w_session w s) \<and> s < w_next w)
   \<and> (\<forall>pid r s. (pid, r, Some s) \<in> set (members w) \<longrightarrow>
        so_publisher_id (w_session w s) = pid \<and> (so_token (w_session w s), s) \<in> set (w_sessions_by_token w))
   \<and> (\<forall>s tok. (s, tok) \<in> timed w \<longrightarrow> timer_ok w s tok)
   \<and> (\<forall>s tok. (s, tok) \<in> timed w \<longrightarrow> s < w_next w)"

lemma reg_invD:
  assumes "reg_inv w"
  shows "distinct (map fst (members w))"
    and "\<And>pid r so. (pid, r, so) \<in> set (members w) \<Longrightarrow> po_id (w_peer w r) = pid \<and> r < w_next w"
    and "\<And>p1 r1 s1 p2 r2 s2. (p1, r1, s1) \<in> set (members w) \<Longrightarrow> (p2, r2, s2) \<in> set (members w) \<Longrightarrow>
       p1 \<noteq> p2 \<Longrightarrow> po_client_id (w_peer w r1) \<noteq> [] \<Longrightarrow> po_client_id (w_peer w r1) \<noteq> po_client_id (w_peer w r2)"
    and "hwf (w_sessions_by_token w)"
    and "\<And>t s. (t, s) \<in> set (w_sessions_by_token w) \<Longrightarrow>
       so_token (w_session w s) = t \<and> \<not> so_closed (w_session w s) \<and> s < w_next w"
    and "\<And>pid r s. (pid, r, Some s) \<in> set (members w) \<Longrightarrow>
       so_publisher_id (w_session w s) = pid \<and> (so_token (w_session w s), s) \<in> set (w_sessions_by_token w)"
    and "\<And>s tok. (s, tok) \<in> timed w \<Longrightarrow> timer_ok w s tok"
    and "\<And>s tok. (s, tok) \<in> timed w \<Longrightarrow> s < w_next w"
  using assms unfolding reg_inv_def by blast+

lemma same_core_sel:
  assumes "same_core w w'"
  shows "members w' = members w" "w_sessions_by_token w' = w_sessions_by_token w"
    "so_publisher_id (w_session w' s) = so_publisher_id (w_session w s)"
    "so_token (w_session w' s) = so_token (w_session w s)" "so_closed (w_session w' s) = so_closed (w_session w s)"
    "po_id (w_peer w' r) = po_id (w_peer w r)" "po_client_id (w_peer w' r) = po_client_id (w_peer w r)"
    "po_chat_only (w_peer w' r) = po_chat_only (w_peer w r)" "po_audio (w_peer w' r) = po_audio (w_peer w r)"
    "w_next w \<le> w_next w'" "st \<in> timed w' \<Longrightarrow> st \<in> timed w"
    "so_grace (w_session w' s) = so_grace (w_session w s)"
    "set (w_cancelled_graces w) \<subseteq> set (w_cancelled_graces w')"
  using assms by (auto simp: same_core_def session_core_def identities_def fun_eq_iff)

lemma timer_ok_core: "same_core w w' \<Longrightarrow> timer_ok w s tok \<Longrightarrow> timer_ok w' s tok"
  using same_core_sel(2,4,5,12,13) [of w w'] unfolding timer_ok_def by (metis subsetD)

lemma reg_inv_core:
  assumes "same_core w w'" and "reg_inv w"
  shows "reg_inv w'"
proof -
  note i = reg_invD [OF assms(2)] and le_next = less_le_trans [OF _ same_core_sel(10) [OF assms(1)]]
    and timed = same_core_sel(11) [OF assms(1)]
  show ?thesis
    unfolding reg_inv_def same_core_sel(1-7) [OF assms(1)]
  proof (intro conjI allI impI)
    fix s tok assume "(s, tok) \<in> timed w'"
    then have "(s, tok) \<in> timed w" by (rule timed)
    from i(7) [OF this] i(8) [OF this] le_next timer_ok_core [OF assms(1)]
    show "timer_ok w' s tok" "s < w_next w'"
      by blast+
  qed (use i(1-6) le_next in blast)+
qed

lemma members_hget: "hwf (w_peers w) \<longleftrightarrow> distinct (map fst (members w))"
  by (simp add: hwf_def members_def comp_def case_prod_unfold)

lemma member_of: "hget (w_peers w) pid = Some e \<Longrightarrow> (pid, en_peer e, en_screen_session e) \<in> set (members w)"
  by (force simp: members_def dest: hget_SomeD)

lemma member_iff:
  "distinct (map fst (members w)) \<Longrightarrow>
   (pid, r, so) \<in> set (members w) \<longleftrightarrow> (\<exists>e. hget (w_peers w) pid = Some e \<and> en_peer e = r \<and> en_screen_session e = so)"
  using hget_iff [of "w_peers w"] by (auto simp: members_hget [symmetric]) (auto simp: members_def)

section \<open>Removing and adding members\<close>

lemma hdel_filter: "hdel k m = filter (\<lambda>(k', _). k' \<noteq> k) m"
  by (auto simp: hdel_def AList.delete_eq intro!: filter_cong)

lemma fold_hdel: "fold hdel ks m = filter (\<lambda>(k', _). k' \<notin> set ks) m"
  by (induction ks arbitrary: m) (auto simp: hdel_filter intro!: filter_cong)

lemma hput_fresh: "hget m k = None \<Longrightarrow> hput k v m = m @ [(k, v)]"
  by (induction m) (auto simp: hput_def hget_def split: if_splits)

lemma reg_inv_less_members:
  assumes "reg_inv w" and "set (members w') \<subseteq> set (members w)" and "distinct (map fst (members w'))"
    and "w_sessions_by_token w' = w_sessions_by_token w" and "session_core w' = session_core w"
    and "identities w' = identities w" and "w_next w \<le> w_next w'" and "timed w' \<subseteq> timed w"
    and "w_cancelled_graces w' = w_cancelled_graces w"
  shows "reg_inv w'"
proof -
  have "so_publisher_id (w_session w' s) = so_publisher_id (w_session w s)"
    "so_token (w_session w' s) = so_token (w_session w s)" "so_closed (w_session w' s) = so_closed (w_session w s)"
    "po_id (w_peer w' r) = po_id (w_peer w r)" "po_client_id (w_peer w' r) = po_client_id (w_peer w r)"
    "timer_ok w' s tok = timer_ok w s tok" for s r tok
    using assms(4,5,6,9) unfolding timer_ok_def by (auto simp: session_core_def identities_def fun_eq_iff)
  note sel = this
  note inv = reg_invD [OF assms(1)]
  have sub: "(p, r, so) \<in> set (members w') \<Longrightarrow> (p, r, so) \<in> set (members w)" for p r so
    using assms(2) by (rule subsetD)
  show ?thesis
    unfolding reg_inv_def sel assms(4)
  proof (intro conjI allI impI)
    fix p r so
    assume "(p, r, so) \<in> set (members w')"
    then have "(p, r, so) \<in> set (members w)" by (rule sub)
    from inv(2) [OF this] show "po_id (w_peer w r) = p" "r < w_next w'" using assms(7) by auto
  next
    fix p1 r1 s1 p2 r2 s2
    assume a: "(p1, r1, s1) \<in> set (members w')" "(p2, r2, s2) \<in> set (members w')" "p1 \<noteq> p2"
      "po_client_id (w_peer w r1) \<noteq> []"
    from inv(3) [OF sub [OF a(1)] sub [OF a(2)] a(3,4)]
    show "po_client_id (w_peer w r1) \<noteq> po_client_id (w_peer w r2)" .
  next
    fix t s
    assume "(t, s) \<in> set (w_sessions_by_token w)"
    from inv(5) [OF this] show "so_token (w_session w s) = t" "\<not> so_closed (w_session w s)" "s < w_next w'"
      using assms(7) by auto
  next
    fix p r s
    assume "(p, r, Some s) \<in> set (members w')"
    from inv(6) [OF sub [OF this]]
    show "so_publisher_id (w_session w s) = p" "(so_token (w_session w s), s) \<in> set (w_sessions_by_token w)" by auto
  next
    fix s tok
    assume "(s, tok) \<in> timed w'"
    then have "(s, tok) \<in> timed w" using assms(8) by blast
    from inv(7) [OF this] inv(8) [OF this] assms(7)
    show "timer_ok w s tok" "s < w_next w'"
      by auto
  qed (use assms(3) inv(4) in simp_all)
qed

lemma members_filter:
  "members (w\<lparr>w_peers := filter (\<lambda>(k, _). k \<notin> K) (w_peers w), w_tracks := x\<rparr>) = filter (\<lambda>(k, _). k \<notin> K) (members w)"
  by (simp add: members_def filter_map comp_def case_prod_unfold)

lemma drop_members_inv:
  "reg_inv w \<Longrightarrow> reg_inv (w\<lparr>w_peers := filter (\<lambda>(k, _). k \<notin> K) (w_peers w), w_tracks := x\<rparr>)"
  by (rule reg_inv_less_members)
    (auto simp: members_filter session_core_def identities_def timed_def fun_eq_iff reg_inv_def distinct_map_fst_filter)

lemma evict_inv:
  assumes "reg_inv w" and "evict cid w = (evs, w1)"
  shows "reg_inv w1 \<and> set (members w1) \<subseteq> set (members w) \<and> w_next w1 = w_next w \<and> w_peer w1 = w_peer w
    \<and> (cid \<noteq> [] \<longrightarrow> (\<forall>(pid, r, so) \<in> set (members w1). po_client_id (w_peer w r) \<noteq> cid))"
proof (cases "cid = []")
  case True
  with assms show ?thesis by (auto simp: evict_def)
next
  case False
  define ids where "ids = map (\<lambda>e. po_id (w_peer w (en_peer e)))
      (filter (\<lambda>e. po_client_id (w_peer w (en_peer e)) = cid) (hvals (w_peers w)))"
  have w1: "w1 = w\<lparr>w_peers := filter (\<lambda>(k, _). k \<notin> set ids) (w_peers w), w_tracks := fold hdel ids (w_tracks w)\<rparr>"
    using assms(2) False by (simp only: evict_def ids_def [symmetric] fold_hdel [of _ "w_peers w"] Let_def if_False) simp
  have "po_client_id (w_peer w r) \<noteq> cid" if "(pid, r, so) \<in> set (members w1)" for pid r so
  proof
    assume c: "po_client_id (w_peer w r) = cid"
    from that have m: "(pid, r, so) \<in> set (members w)" "pid \<notin> set ids"
      by (auto simp: w1 members_filter)
    then obtain e where e: "(pid, e) \<in> set (w_peers w)" "en_peer e = r" by (auto simp: members_def)
    with c have "po_id (w_peer w r) \<in> set ids" by (force simp: ids_def hvals_def)
    moreover have "po_id (w_peer w r) = pid" using assms(1) m by (auto simp: reg_inv_def)
    ultimately show False using m by simp
  qed
  then show ?thesis
    using drop_members_inv [OF assms(1)] by (auto simp: w1 members_filter)
qed

lemma members_add:
  "hget (w_peers w) pid = None \<Longrightarrow>
   members (set_entry pid (new_entry r name) w) = members w @ [(pid, r, None)]"
  by (simp add: members_def set_entry_def hput_fresh new_entry_def)

lemma add_member_inv:
  assumes "reg_inv w" and "hget (w_peers w) (po_id (w_peer w r)) = None" and "r < w_next w"
    and "po_client_id (w_peer w r) \<noteq> [] \<longrightarrow>
      (\<forall>(pid, q, so) \<in> set (members w). po_client_id (w_peer w q) \<noteq> po_client_id (w_peer w r))"
  shows "reg_inv (set_entry (po_id (w_peer w r)) (new_entry r name) w)"
proof -
  let ?w = "set_entry (po_id (w_peer w r)) (new_entry r name) w"
  have m: "members ?w = members w @ [(po_id (w_peer w r), r, None)]"
    using assms(2) by (rule members_add)
  have same: "w_peer ?w = w_peer w" "w_session ?w = w_session w" "w_sessions_by_token ?w = w_sessions_by_token w"
    "w_next ?w = w_next w" "timed ?w = timed w" "timer_ok ?w s tok = timer_ok w s tok" for s tok
    by (simp_all add: set_entry_def timed_def timer_ok_def)
  have new: "po_id (w_peer w r) \<notin> fst ` set (members w)"
    using assms(2) by (force simp: hget_None_iff members_def)
  have mem: "(p, q, so) \<in> set (members ?w) \<longleftrightarrow>
      (p, q, so) \<in> set (members w) \<or> (p, q, so) = (po_id (w_peer w r), r, None)" for p q so
    by (auto simp: m)
  have client: "po_client_id (w_peer w q) \<noteq> po_client_id (w_peer w r)"
    if "(p, q, so) \<in> set (members w)" "po_client_id (w_peer w r) \<noteq> []" for p q so
    using assms(4) that by blast
  note inv = reg_invD [OF assms(1)]
  show ?thesis
    unfolding reg_inv_def mem same
  proof (intro conjI allI impI)
    show "distinct (map fst (members ?w))" using inv(1) new by (simp add: m)
    fix p1 r1 s1 p2 r2 s2
    assume 1: "(p1, r1, s1) \<in> set (members w) \<or> (p1, r1, s1) = (po_id (w_peer w r), r, None)"
      and 2: "(p2, r2, s2) \<in> set (members w) \<or> (p2, r2, s2) = (po_id (w_peer w r), r, None)"
      and ne: "p1 \<noteq> p2" "po_client_id (w_peer w r1) \<noteq> []"
    show "po_client_id (w_peer w r1) \<noteq> po_client_id (w_peer w r2)"
      using 1 2 ne inv(3) client by (metis prod.inject)
  qed (use inv assms(3) in auto)
qed

lemma new_peer_inv:
  assumes "reg_inv w" and "new_peer pid h w = (r, w1)"
  shows "reg_inv w1 \<and> r < w_next w1 \<and> w_peers w1 = w_peers w \<and> po_id (w_peer w1 r) = pid
    \<and> po_client_id (w_peer w1 r) = he_client_id h \<and> members w1 = members w"
proof -
  have r: "r = w_next w" using assms(2) by (simp add: new_peer_def Let_def)
  have w1: "w_peers w1 = w_peers w" "w_sessions_by_token w1 = w_sessions_by_token w" "w_session w1 = w_session w"
    "w_next w1 = w_next w + 3" "w_tasks w1 = w_tasks w" "w_cancelled_graces w1 = w_cancelled_graces w"
    "\<forall>q. q \<noteq> r \<longrightarrow> w_peer w1 q = w_peer w q" "po_id (w_peer w1 r) = pid" "po_client_id (w_peer w1 r) = he_client_id h"
    using assms(2) by (auto simp: new_peer_def Let_def split: if_splits)
  then have m: "members w1 = members w" and tm: "timed w1 = timed w"
    and tok: "timer_ok w1 s tok = timer_ok w s tok" for s tok
    by (simp_all add: members_def timed_def timer_ok_def)
  note inv = reg_invD [OF assms(1)]
  have old: "q \<noteq> r" if "(p, q, so) \<in> set (members w)" for p q so
    using inv(2) [OF that] by (auto simp: r)
  have "reg_inv w1"
    unfolding reg_inv_def m tm tok w1
  proof (intro conjI allI impI)
    fix p q so
    assume "(p, q, so) \<in> set (members w)"
    then show "po_id (w_peer w1 q) = p" "q < w_next w + 3"
      using inv(2) old w1(7) by fastforce+
  next
    fix p1 r1 s1 p2 r2 s2
    assume a: "(p1, r1, s1) \<in> set (members w)" "(p2, r2, s2) \<in> set (members w)" "p1 \<noteq> p2"
      "po_client_id (w_peer w1 r1) \<noteq> []"
    then have "w_peer w1 r1 = w_peer w r1" "w_peer w1 r2 = w_peer w r2" using old w1(7) by blast+
    with a inv(3) [OF a(1-3)] show "po_client_id (w_peer w1 r1) \<noteq> po_client_id (w_peer w1 r2)" by simp
  next
    fix t s
    assume "(t, s) \<in> set (w_sessions_by_token w)"
    from inv(5) [OF this] show "so_token (w_session w s) = t" "\<not> so_closed (w_session w s)" "s < w_next w + 3"
      by auto
  next
    fix s tok
    assume "(s, tok) \<in> timed w"
    from inv(7,8) [OF this] show "s < w_next w + 3" "timer_ok w s tok" by auto
  qed (use inv in auto)
  with w1 m r show ?thesis by simp
qed

lemma add_peer_tail:
  assumes ev: "evict (po_client_id (w_peer w r)) w = (evs, w1)"
  shows "same_registry (fold (dismiss (all_peers w1)) evs (set_entry (po_id (w_peer w1 r)) (new_entry r name) w1))
    (add_peer env r name w)"
proof -
  define w3 where "w3 = fold (dismiss (all_peers w1)) evs (set_entry (po_id (w_peer w1 r)) (new_entry r name) w1)"
  define w5 where "w5 = broadcast (all_peers w1) (PeerJoined (entry_info w1 (new_entry r name)))
      (peer_send r (Welcome (po_id (w_peer w3 r)) (room_peers w1)) w3)"
  have c5: "same_registry w3 w5" unfolding w5_def by (rule same_registry_trans; rule quiet)
  define w6 where "w6 = (if evs \<noteq> [] then signal_all env w5 else w5)"
  have c6: "same_registry w5 w6" by (simp add: w6_def quiet)
  define w7 where "w7 = fold (\<lambda>ev v. presence (PresenceLeft (w_room_id v) (po_id (w_peer v (en_peer ev)))) v) evs w6"
  have c7: "same_registry w6 w7" unfolding w7_def by (rule same_registry_fold) (rule quiet)
  have "add_peer env r name w = presence (PresenceJoined (w_room_id w7) (entry_info w1 (new_entry r name))) w7"
    by (simp add: add_peer_def ev Let_def w3_def w5_def w6_def w7_def)
  moreover have "same_registry w3 (presence (PresenceJoined (w_room_id w7) (entry_info w1 (new_entry r name))) w7)"
    by (rule same_registry_trans [OF c5 same_registry_trans [OF c6 same_registry_trans [OF c7]]]) (rule quiet)
  ultimately show ?thesis by (simp add: w3_def)
qed

lemma add_peer_core:
  assumes ev: "evict (po_client_id (w_peer w r)) w = (evs, w1)"
  shows "same_core (set_entry (po_id (w_peer w1 r)) (new_entry r name) w1) (add_peer env r name w)"
  by (rule same_core_trans [OF same_core_fold same_registry_core [OF add_peer_tail [OF ev]]]) (rule dismiss_core)

lemma add_peer_inv:
  assumes "reg_inv w" and "r < w_next w" and "hget (w_peers w) (po_id (w_peer w r)) = None"
  shows "reg_inv (add_peer env r name w)"
proof -
  obtain evs w1 where ev: "evict (po_client_id (w_peer w r)) w = (evs, w1)"
    by (cases "evict (po_client_id (w_peer w r)) w")
  note e = evict_inv [OF assms(1) ev]
  let ?pid = "po_id (w_peer w1 r)"
  have p1: "w_peer w1 = w_peer w" using e by blast
  have none: "hget (w_peers w1) ?pid = None"
  proof -
    have "?pid \<notin> fst ` set (members w)" using assms(3) by (force simp: hget_None_iff members_def p1)
    then have "?pid \<notin> fst ` set (members w1)" using e by auto
    then show ?thesis by (force simp: hget_None_iff members_def)
  qed
  have w2: "reg_inv (set_entry ?pid (new_entry r name) w1)"
    using e assms(2) none by (intro add_member_inv) (auto simp: p1)
  show ?thesis by (rule reg_inv_core [OF add_peer_core [OF ev] w2])
qed

lemma join_inv:
  assumes "reg_inv w" and "hget (w_peers w) pid = None"
  shows "reg_inv (join env pid h w)"
proof -
  obtain r w1 where n: "new_peer pid h w = (r, w1)" by (cases "new_peer pid h w")
  note i = new_peer_inv [OF assms(1) n]
  then have a: "reg_inv (add_peer env r (he_display_name h) w1)"
    using assms(2) by (intro add_peer_inv) auto
  have "reg_inv (signal_all env (add_peer env r (he_display_name h) w1))"
    by (rule reg_inv_core [OF _ a]) (rule quiet_core)
  with a show ?thesis by (simp add: join_def n Let_def)
qed

section \<open>Leaving, chat and a peer's own state\<close>

lemma start_grace_inv:
  assumes "reg_inv w" and "so_closed (w_session w s) \<or> (so_token (w_session w s), s) \<in> set (w_sessions_by_token w)"
  shows "reg_inv (start_screen_share_grace s now w)"
proof (cases "so_closed (w_session w s)")
  case True
  with assms show ?thesis by (simp add: start_screen_share_grace_def)
next
  case False
  define w2 where "w2 = spawn_task (GraceTimer s (w_next w) now) (cancel_grace (so_grace (w_session w s))
      (set_session s ((w_session w s)\<lparr>so_grace := Some (w_next w)\<rparr>) (w\<lparr>w_next := w_next w + 1\<rparr>)))"
  note i = reg_invD [OF assms(1)]
  have m: "members w2 = members w"
    by (simp add: w2_def spawn_task_def cancel_grace_def set_session_def members_def split: option.split)
  have same: "w_sessions_by_token w2 = w_sessions_by_token w" "w_next w2 = w_next w + 1" "w_peer w2 = w_peer w"
    "so_publisher_id (w_session w2 q) = so_publisher_id (w_session w q)"
    "so_token (w_session w2 q) = so_token (w_session w q)" "so_closed (w_session w2 q) = so_closed (w_session w q)" for q
    by (simp_all add: w2_def spawn_task_def cancel_grace_def set_session_def split: option.split)
  have reg: "(so_token (w_session w s), s) \<in> set (w_sessions_by_token w)" using assms(2) False by simp
  have timed: "(q, tok) \<in> timed w2 \<longleftrightarrow> (q, tok) \<in> timed w \<or> (q = s \<and> tok = w_next w)" for q tok
    by (auto simp: timed_def w2_def spawn_task_def cancel_grace_def set_session_def split: option.split)
  have old: "timer_ok w2 q tok" if "timer_ok w q tok" for q tok
    using that by (auto simp: timer_ok_def w2_def spawn_task_def cancel_grace_def set_session_def split: option.split)
  have new: "timer_ok w2 s (w_next w)"
    using reg by (auto simp: timer_ok_def w2_def spawn_task_def cancel_grace_def set_session_def split: option.split)
  have "reg_inv w2"
    unfolding reg_inv_def m timed same
  proof (intro conjI allI impI)
    fix q tok assume "(q, tok) \<in> timed w \<or> (q = s \<and> tok = w_next w)"
    then show "timer_ok w2 q tok" using i(7) old new by blast
  next
    fix q tok assume "(q, tok) \<in> timed w \<or> (q = s \<and> tok = w_next w)"
    then have "q < w_next w" using i(8) i(5) [OF reg] by blast
    then show "q < w_next w + 1" by simp
  next
    fix p r x assume "(p, r, x) \<in> set (members w)"
    from i(2) [OF this] show "po_id (w_peer w r) = p" "r < w_next w + 1" by auto
  next
    fix t q assume "(t, q) \<in> set (w_sessions_by_token w)"
    from i(5) [OF this] show "so_token (w_session w q) = t" "\<not> so_closed (w_session w q)" "q < w_next w + 1" by auto
  qed (use i in blast)+
  then show ?thesis using False by (simp add: start_screen_share_grace_def Let_def w2_def)
qed

text \<open>The state of \<open>remove_peer\<close> once the leaver's session has its grace timer; what follows is quiet.\<close>

definition after_grace :: "instant \<Rightarrow> string \<Rightarrow> entry \<Rightarrow> world \<Rightarrow> world" where
  "after_grace now pid e w =
     (let w2 = close_entry_subs e (w\<lparr>w_peers := hdel pid (w_peers w), w_tracks := hdel pid (w_tracks w)\<rparr>)
      in case en_screen_session e of None \<Rightarrow> w2 | Some s \<Rightarrow> start_screen_share_grace s now w2)"

lemma remove_peer_tail:
  assumes "hget (w_peers w) pid = Some e"
  shows "same_registry (after_grace now pid e w) (remove_peer env now pid w)"
proof -
  define w3 where "w3 = after_grace now pid e w"
  define w5 where "w5 = broadcast (all_peers (w\<lparr>w_peers := hdel pid (w_peers w), w_tracks := hdel pid (w_tracks w)\<rparr>))
      (PeerLeft pid) (cancel_peer (en_peer e) w3)"
  define w6 where "w6 = (if \<not> po_chat_only (w_peer w5 (en_peer e)) then signal_all env w5 else w5)"
  have "same_registry w3 w5" unfolding w5_def by (rule same_registry_trans; rule quiet)
  moreover have "same_registry w5 w6" by (simp add: w6_def quiet)
  moreover have "same_registry w6 (presence (PresenceLeft (w_room_id w6) pid) w6)" by (rule quiet)
  moreover have "remove_peer env now pid w = presence (PresenceLeft (w_room_id w6) pid) w6"
    by (simp only: remove_peer_def assms option.case Let_def after_grace_def w3_def w5_def w6_def)
  ultimately show ?thesis unfolding w3_def by (metis same_registry_trans)
qed

lemma close_entry_subs_session:
  assumes "reg_inv w" and "hget (w_peers w) pid = Some e" and "en_screen_session e = Some s"
    and "w2 = close_entry_subs e (w\<lparr>w_peers := hdel pid (w_peers w), w_tracks := hdel pid (w_tracks w)\<rparr>)"
  shows "(so_token (w_session w2 s), s) \<in> set (w_sessions_by_token w2)"
proof -
  have "(so_token (w_session w s), s) \<in> set (w_sessions_by_token w)"
    using reg_invD(6) [OF assms(1), of pid "en_peer e" s] member_of [OF assms(2)] assms(3) by simp
  then show ?thesis unfolding assms(4) using same_core_sel(2,4) [OF close_entry_subs_core] by simp
qed

lemma remove_peer_inv:
  assumes "reg_inv w"
  shows "reg_inv (remove_peer env now pid w)"
proof (cases "hget (w_peers w) pid")
  case None
  then show ?thesis using assms by (simp add: remove_peer_def)
next
  case (Some e)
  define w1 where "w1 = w\<lparr>w_peers := hdel pid (w_peers w), w_tracks := hdel pid (w_tracks w)\<rparr>"
  define w2 where "w2 = close_entry_subs e w1"
  have i1: "reg_inv w1"
    using drop_members_inv [OF assms, where K = "{pid}"] by (simp add: w1_def hdel_filter [of pid "w_peers w"])
  have i2: "reg_inv w2" unfolding w2_def by (rule reg_inv_core [OF close_entry_subs_core i1])
  have "reg_inv (after_grace now pid e w)"
  proof (cases "en_screen_session e")
    case None
    with i2 show ?thesis by (simp add: after_grace_def w1_def w2_def)
  next
    case s: (Some s)
    from close_entry_subs_session [OF assms Some s] start_grace_inv [OF i2] s
    show ?thesis by (simp add: after_grace_def w1_def w2_def)
  qed
  then show ?thesis by (rule reg_inv_core [OF same_registry_core [OF remove_peer_tail [OF Some]]])
qed

lemma leave_inv: "reg_inv w \<Longrightarrow> reg_inv (leave env now r w)"
proof -
  assume "reg_inv w"
  then have "reg_inv (cancel_peer r w)" by (rule reg_inv_core [rotated]) (rule quiet_core)
  then have "reg_inv (remove_peer env now (po_id (w_peer w r)) (cancel_peer r w))" by (rule remove_peer_inv)
  then show ?thesis
    unfolding leave_def Let_def by (auto intro: reg_inv_core [OF audio_close_core] split: option.split)
qed

lemma set_display_name_core [core_intros]: "same_core w (set_display_name pid name w)"
  unfolding set_display_name_def Let_def
  by (auto split: option.split intro!: same_core_trans [OF set_entry_core same_core_trans [OF quiet_core(3) quiet_core(5)]])

lemma set_muted_core [core_intros]: "same_core w (set_muted a m w)"
  by (auto simp: set_muted_def same_core_def timed_def members_def session_core_def identities_def fun_eq_iff split: option.split)

lemma set_state_core [core_intros]: "same_core w (set_state pid m d w)"
  unfolding set_state_def Let_def
  by (auto split: option.split intro!: same_core_trans [OF set_entry_core
    same_core_trans [OF set_muted_core same_core_trans [OF quiet_core(3) quiet_core(5)]]])

section \<open>The screen-share handlers\<close>

lemma first_video_core [core_intros]: "same_core w (screen_first_video s w)"
proof -
  have ready: "same_core v (first_screen_video_ready s v)" for v
  proof (cases "so_closed (w_session v s) \<or> hget (w_peers v) (so_publisher_id (w_session v s)) = None")
    case True
    then show ?thesis by (auto simp: first_screen_video_ready_def Let_def)
  next
    case False
    let ?so = "w_session v s"
    let ?pub = "so_publisher_id ?so"
    from False obtain e where e: "hget (w_peers v) ?pub = Some e" by auto
    define w1 where "w1 = fold (\<lambda>r u. peer_send r (available_msg ?so ?pub) (peer_send r (PeerInfoChanged (entry_info v e)) u))
        (other_peers v ?pub) v"
    have "same_core v w1"
      unfolding w1_def by (rule same_core_fold) (rule same_core_trans [OF quiet_core(1) quiet_core(1)])
    then have p: "same_core v (presence (PresenceUpdated (w_room_id w1) (entry_info v e)) w1)"
      by (rule same_core_trans) (rule quiet_core)
    then have "same_core v (send_encode ?pub EncodePause (presence (PresenceUpdated (w_room_id w1) (entry_info v e)) w1))"
      unfolding send_encode_def by (rule same_core_trans) (rule quiet_core)
    with p show ?thesis
      using False e by (simp add: first_screen_video_ready_def Let_def w1_def)
  qed
  show ?thesis
    unfolding screen_first_video_def
    by (auto intro: same_core_trans [OF set_session_core ready])
qed

text \<open>Starting: the new session is registered under its token, and owned by the starter alone.\<close>

lemma members_set_session:
  assumes "distinct (map fst (members w))" and "hget (w_peers w) pid = Some e"
  shows "(p, r, so) \<in> set (members (set_entry pid (e\<lparr>en_screen_session := x\<rparr>) w)) \<longleftrightarrow>
      (p \<noteq> pid \<and> (p, r, so) \<in> set (members w)) \<or> (p = pid \<and> r = en_peer e \<and> so = x)"
    and "map fst (members (set_entry pid (e\<lparr>en_screen_session := x\<rparr>) w)) = map fst (members w)"
proof -
  let ?w = "set_entry pid (e\<lparr>en_screen_session := x\<rparr>) w"
  show keys: "map fst (members ?w) = map fst (members w)"
    using members_put [of "w_peers w" pid e "\<lambda>p e. p" "e\<lparr>en_screen_session := x\<rparr>"] assms(2)
    by (simp add: members_def set_entry_def comp_def case_prod_unfold)
  then have d: "distinct (map fst (members ?w))" using assms(1) by simp
  show "(p, r, so) \<in> set (members ?w) \<longleftrightarrow>
      (p \<noteq> pid \<and> (p, r, so) \<in> set (members w)) \<or> (p = pid \<and> r = en_peer e \<and> so = x)"
    unfolding member_iff [OF d] member_iff [OF assms(1)]
    using assms(2) by (auto simp: set_entry_def hashmap_laws)
qed

lemma fresh_session_core:
  "s = w_next w \<Longrightarrow> reg_inv w \<Longrightarrow>
   reg_inv (w\<lparr>w_session := (w_session w)(s := x), w_pc := y, w_next := s + 2\<rparr>)"
proof -
  assume s: "s = w_next w" and inv: "reg_inv w"
  note i = reg_invD [OF inv]
  let ?w = "w\<lparr>w_session := (w_session w)(s := x), w_pc := y, w_next := s + 2\<rparr>"
  have m: "members ?w = members w" and tm: "timed ?w = timed w" by (simp_all add: members_def timed_def)
  have tok: "timer_ok ?w q tok" if "timer_ok w q tok" "q < w_next w" for q tok
    using that s by (simp add: timer_ok_def)
  have old: "q \<noteq> s" if "(t, q) \<in> set (w_sessions_by_token w)" for t q using i(5) [OF that] s by auto
  show "reg_inv ?w"
    unfolding reg_inv_def m tm
  proof (intro conjI allI impI)
    fix q tok' assume "(q, tok') \<in> timed w"
    from i(7,8) [OF this] s tok
    show "timer_ok ?w q tok'" "q < w_next ?w" by auto
  next
    fix p r q
    assume "(p, r, Some q) \<in> set (members w)"
    note o' = i(6) [OF this]
    then have "q \<noteq> s" using old by blast
    with o' show "so_publisher_id (w_session ?w q) = p" "(so_token (w_session ?w q), q) \<in> set (w_sessions_by_token ?w)" by auto
  next
    fix t q
    assume "(t, q) \<in> set (w_sessions_by_token ?w)"
    then have tq: "(t, q) \<in> set (w_sessions_by_token w)" by simp
    from i(5) [OF tq] old [OF tq] s
    show "so_token (w_session ?w q) = t" "\<not> so_closed (w_session ?w q)" "q < w_next ?w" by auto
  next
    fix p r so
    assume "(p, r, so) \<in> set (members w)"
    from i(2) [OF this] show "po_id (w_peer ?w r) = p" "r < w_next ?w" using s by auto
  qed (use i in auto)
qed

lemma register_session_inv:
  assumes "reg_inv w" and "hget (w_peers w) pid = Some e" and "en_screen_session e = None"
    and "hget (w_sessions_by_token w) token = None" and "s < w_next w"
    and "so_publisher_id (w_session w s) = pid" and "so_token (w_session w s) = token"
    and "\<not> so_closed (w_session w s)"
  shows "reg_inv (set_entry pid (e\<lparr>en_screen_session := Some s\<rparr>) w
    \<lparr>w_sessions_by_token := hput token s (w_sessions_by_token w)\<rparr>)"
proof -
  note i = reg_invD [OF assms(1)]
  let ?w1 = "set_entry pid (e\<lparr>en_screen_session := Some s\<rparr>) w"
  let ?w = "?w1\<lparr>w_sessions_by_token := hput token s (w_sessions_by_token w)\<rparr>"
  have m: "members ?w = members ?w1" by (simp add: members_def)
  note mem = members_set_session(1) [OF i(1) assms(2), where x = "Some s"]
    and keys = members_set_session(2) [OF i(1) assms(2), where x = "Some s"]
  have same: "w_peer ?w = w_peer w" "w_session ?w = w_session w" "w_next ?w = w_next w" "timed ?w = timed w"
    by (simp_all add: set_entry_def timed_def)
  have tok: "timer_ok ?w q x" if "timer_ok w q x" for q x
    using that assms(4) by (auto simp: timer_ok_def set_entry_def hput_fresh)
  have toks: "(t, q) \<in> set (w_sessions_by_token ?w) \<longleftrightarrow> (t, q) \<in> set (w_sessions_by_token w) \<or> (t, q) = (token, s)" for t q
    using assms(4) by (auto simp: hput_fresh)
  have own: "(pid, en_peer e, None) \<in> set (members w)"
    using member_of [OF assms(2)] assms(3) by simp
  show ?thesis
    unfolding reg_inv_def m mem same toks
  proof (intro conjI allI impI)
    show "distinct (map fst (members ?w1))" using i(1) keys by simp
    show "hwf (w_sessions_by_token ?w)" using hm.wf_put [OF i(4), of token s] by simp
  next
    fix p r so
    assume "(p \<noteq> pid \<and> (p, r, so) \<in> set (members w)) \<or> (p = pid \<and> r = en_peer e \<and> so = Some s)"
    then have "\<exists>so. (p, r, so) \<in> set (members w)" using own by blast
    then show "po_id (w_peer w r) = p" "r < w_next w" using i(2) by blast+
  next
    fix p1 r1 s1 p2 r2 s2
    assume 1: "(p1 \<noteq> pid \<and> (p1, r1, s1) \<in> set (members w)) \<or> (p1 = pid \<and> r1 = en_peer e \<and> s1 = Some s)"
      and 2: "(p2 \<noteq> pid \<and> (p2, r2, s2) \<in> set (members w)) \<or> (p2 = pid \<and> r2 = en_peer e \<and> s2 = Some s)"
      and ne: "p1 \<noteq> p2" "po_client_id (w_peer w r1) \<noteq> []"
    from 1 2 own obtain x1 x2 where "(p1, r1, x1) \<in> set (members w)" "(p2, r2, x2) \<in> set (members w)" by blast
    then show "po_client_id (w_peer w r1) \<noteq> po_client_id (w_peer w r2)" using i(3) ne by blast
  next
    fix t q
    assume "(t, q) \<in> set (w_sessions_by_token w) \<or> (t, q) = (token, s)"
    then show "so_token (w_session w q) = t" "\<not> so_closed (w_session w q)" "q < w_next w"
      using i(5) assms(5,7,8) by auto
  next
    fix p r q
    assume "(p \<noteq> pid \<and> (p, r, Some q) \<in> set (members w)) \<or> (p = pid \<and> r = en_peer e \<and> Some q = Some s)"
    then show "so_publisher_id (w_session w q) = p"
      "(so_token (w_session w q), q) \<in> set (w_sessions_by_token w) \<or> (so_token (w_session w q), q) = (token, s)"
      using i(6) assms(6,7) by auto
  next
    fix q x assume "(q, x) \<in> timed w"
    from i(7,8) [OF this] tok show "timer_ok ?w q x" "q < w_next w" by blast+
  qed
qed

lemma setup_inv:
  assumes "reg_inv w" and "setup_screen_pub r d token res w = (o', w1)"
  shows "reg_inv w1 \<and> w_peers w1 = w_peers w \<and> w_sessions_by_token w1 = w_sessions_by_token w
    \<and> (\<forall>s sdp. o' = Some (s, sdp) \<longrightarrow> s < w_next w1 \<and> so_publisher_id (w_session w1 s) = po_id (w_peer w r)
        \<and> so_token (w_session w1 s) = token \<and> \<not> so_closed (w_session w1 s))"
proof (cases "res = BadOffer")
  case True
  with assms show ?thesis by (simp add: setup_screen_pub_def)
next
  case False
  define s where "s = w_next w"
  define v where "v = w\<lparr>w_session := (w_session w)(s := new_session (po_id (w_peer w r)) token d (s + 1)
        (case setup_codec res of Some (c, _) \<Rightarrow> c | None \<Rightarrow> Vp9C)),
      w_pc := (w_pc w)(s + 1 := \<lparr>px_closed = False, px_owner = OfSession s\<rparr>), w_next := s + 2\<rparr>"
  have iv: "reg_inv v" unfolding v_def by (rule fresh_session_core [OF s_def assms(1)])
  have r: "setup_screen_pub r d token res w =
      (case setup_codec res of Some (c, sdp) \<Rightarrow> (Some (s, sdp), v) | None \<Rightarrow> (None, close_publisher_pc s v))"
    using False unfolding s_def v_def by (cases "setup_codec res") (simp_all add: setup_screen_pub_def Let_def)
  show ?thesis
  proof (cases "setup_codec res")
    case None
    have c: "same_core v (close_publisher_pc s v)" by (rule core_intros)
    have "w_peers (close_publisher_pc s v) = w_peers v"
      by (simp add: close_publisher_pc_def Let_def spawn_task_def mark_closed_def)
    with None r assms(2) reg_inv_core [OF c iv] same_core_sel(2) [OF c] show ?thesis
      by (simp add: v_def)
  next
    case (Some cs)
    with r assms(2) iv show ?thesis
      by (cases cs) (auto simp: v_def s_def new_session_def)
  qed
qed

lemma share_start_inv:
  assumes "reg_inv w" and "hget (w_sessions_by_token w) token = None"
  shows "reg_inv (handle_screen_share_start r d token res w)"
proof (cases "session_of w (po_id (w_peer w r)) \<noteq> None")
  case True
  then show ?thesis
    using reg_inv_core [OF quiet_core(1) assms(1)] by (simp add: handle_screen_share_start_def send_screen_error_def)
next
  case False
  obtain o' w1 where su: "setup_screen_pub r d token res w = (o', w1)" by (cases "setup_screen_pub r d token res w")
  note i = setup_inv [OF assms(1) su]
  show ?thesis
  proof (cases o')
    case None
    have "reg_inv (send_screen_error r '''' InternalErr w1)"
      unfolding send_screen_error_def by (rule reg_inv_core [OF quiet_core(1)]) (use i in blast)
    with None False su show ?thesis by (simp add: handle_screen_share_start_def)
  next
    case (Some q)
    obtain s sdp where q: "q = (s, sdp)" by (cases q)
    have closed: "reg_inv (close_publisher_pc s w1)" using i reg_inv_core [OF close_publisher_pc_core] by blast
    show ?thesis
    proof (cases "hget (w_peers w1) (po_id (w_peer w r))")
      case None
      with closed False su Some q show ?thesis by (simp add: handle_screen_share_start_def)
    next
      case e: (Some e)
      show ?thesis
      proof (cases "en_screen_session e = None")
        case True
        let ?w3 = "set_entry (po_id (w_peer w r)) (e\<lparr>en_screen_session := Some s\<rparr>) w1
            \<lparr>w_sessions_by_token := hput token s (w_sessions_by_token w1)\<rparr>"
        have "reg_inv ?w3"
          by (rule register_session_inv) (use i e True assms(2) Some q in auto)
        then have "reg_inv (peer_send r m2 (peer_send r m1 ?w3))" for m1 m2
          by (rule reg_inv_core [rotated]) (rule same_core_trans; rule quiet_core)
        then show ?thesis
          using False su Some q e True
          by (simp add: handle_screen_share_start_def Let_def) (simp add: set_entry_def)
      next
        case no: False
        with closed False su Some q e show ?thesis
          by (simp only: handle_screen_share_start_def Let_def if_False option.case prod.case)
      qed
    qed
  qed
qed

text \<open>Ending: the session leaves the tokens, and its owner's entry lets go of it.\<close>

text \<open>The state in which \<open>end_screen_share_session\<close> has let go of everything; what follows only notifies.\<close>

definition closed_session :: "nat \<Rightarrow> world \<Rightarrow> world" where
  "closed_session s w =
     (let so = w_session w s;
          w3 = close_publisher_pc s (cancel_grace (so_grace so)
            (set_session s (so\<lparr>so_closed := True, so_subscribers := [], so_grace := None\<rparr>) w))
      in set_session s ((w_session w3 s)\<lparr>so_cancelled := True\<rparr>) w3)"

definition ended_session :: "nat \<Rightarrow> world \<Rightarrow> world" where
  "ended_session s w =
     (let so = w_session w s; w4 = closed_session s w; pub = so_publisher_id (w_session w4 s);
          w5 = fold (close_stale_sub pub) (hvals (so_subscribers so)) w4
      in clear_owner pub s (w5\<lparr>w_sessions_by_token := hdel (so_token so) (w_sessions_by_token w5)\<rparr>))"

lemma end_session_tail:
  "\<not> so_closed (w_session w s) \<Longrightarrow> same_registry (ended_session s w) (end_screen_share_session s w)"
proof -
  assume open': "\<not> so_closed (w_session w s)"
  let ?w = "ended_session s w" and ?pub = "so_publisher_id (w_session (closed_session s w) s)"
  have told: "same_registry v (fold (\<lambda>r v. let v1 = peer_send r (ShareEnded pub) v
        in if po_id (w_peer v1 r) \<noteq> pi_id info then peer_send r (PeerInfoChanged info) v1 else v1) rs v)" for pub info rs v
    by (rule same_registry_fold) (auto simp: Let_def intro: same_registry_trans quiet)
  have "end_screen_share_session s w =
      (case hget (w_peers ?w) ?pub of
         Some e \<Rightarrow>
           let info = entry_info ?w e;
               w8 = fold (\<lambda>r v. let v1 = peer_send r (ShareEnded ?pub) v
                                in if po_id (w_peer v1 r) \<noteq> pi_id info
                                   then peer_send r (PeerInfoChanged info) v1 else v1) (all_peers ?w) ?w
           in presence (PresenceUpdated (w_room_id w8) info) w8
       | None \<Rightarrow> broadcast (all_peers ?w) (ShareEnded ?pub) ?w)"
    using open' by (simp only: end_screen_share_session_def ended_session_def closed_session_def Let_def if_False)
  with told show ?thesis
    by (auto simp: Let_def split: option.split intro: quiet same_registry_trans [OF _ presence_quiet])
qed

lemma end_session_both:
  assumes "reg_inv w"
    and "so_closed (w_session w s) \<or> (so_token (w_session w s), s) \<in> set (w_sessions_by_token w)"
  shows "reg_inv (end_screen_share_session s w) \<and> so_closed (w_session (end_screen_share_session s w) s)"
proof (cases "so_closed (w_session w s)")
  case True
  with assms show ?thesis by (simp add: end_screen_share_session_def)
next
  case False
  define so where "so = w_session w s"
  define w1 where "w1 = set_session s (so\<lparr>so_closed := True, so_subscribers := [], so_grace := None\<rparr>) w"
  define w2 where "w2 = cancel_grace (so_grace so) w1"
  define w3 where "w3 = close_publisher_pc s w2"
  define w4 where "w4 = set_session s ((w_session w3 s)\<lparr>so_cancelled := True\<rparr>) w3"
  define pub where "pub = so_publisher_id (w_session w4 s)"
  define w5 where "w5 = fold (close_stale_sub pub) (hvals (so_subscribers so)) w4"
  define w6 where "w6 = w5\<lparr>w_sessions_by_token := hdel (so_token so) (w_sessions_by_token w5)\<rparr>"
  define w7 where "w7 = clear_owner pub s w6"
  have c12: "same_core w1 w2" unfolding w2_def by (rule core_intros)
  have c23: "same_core w2 w3" unfolding w3_def by (rule core_intros)
  have c34: "same_core w3 w4" unfolding w4_def by (rule set_session_core; simp)
  have c45: "same_core w4 w5" unfolding w5_def by (rule same_core_fold) (rule core_intros)
  have c14: "same_core w1 w4" using c12 c23 c34 by (blast intro: same_core_trans)
  then have c15: "same_core w1 w5" using c45 by (rule same_core_trans)
  have pub: "pub = so_publisher_id so"
    using same_core_sel(3) [OF c14, of s] by (simp add: pub_def w1_def set_session_def)
  note i = reg_invD [OF assms(1)]
  have reg: "(so_token so, s) \<in> set (w_sessions_by_token w)" using assms(2) False by (simp add: so_def)
  have m1: "members w1 = members w" by (simp add: w1_def set_session_def members_def)
  have m6: "members w6 = members w" using same_core_sel(1) [OF c15] m1 by (simp add: w6_def members_def)
  have sel: "so_publisher_id (w_session w6 q) = so_publisher_id (w_session w q)"
    "so_token (w_session w6 q) = so_token (w_session w q)"
    "so_closed (w_session w6 q) = (so_closed (w_session w q) \<or> q = s)"
    "po_id (w_peer w6 r) = po_id (w_peer w r)" "po_client_id (w_peer w6 r) = po_client_id (w_peer w r)" for q r
    using same_core_sel(3-7) [OF c15] by (auto simp: w6_def w1_def set_session_def so_def)
  have toks: "w_sessions_by_token w6 = hdel (so_token so) (w_sessions_by_token w)"
    using same_core_sel(2) [OF c15] by (simp add: w6_def w1_def set_session_def)
  have tok: "(t, q) \<in> set (w_sessions_by_token w6) \<longleftrightarrow> t \<noteq> so_token so \<and> (t, q) \<in> set (w_sessions_by_token w)" for t q
    by (auto simp: toks hdel_filter)
  have n6: "w_next w \<le> w_next w6" using same_core_sel(10) [OF c15] by (simp add: w6_def w1_def set_session_def)
  have t6: "q \<in> timed w6 \<Longrightarrow> q \<in> timed w" for q
    using same_core_sel(11) [OF c15, of q] by (simp add: w6_def w1_def set_session_def timed_def)
  have g6: "q \<noteq> s \<Longrightarrow> so_grace (w_session w6 q) = so_grace (w_session w q)"
    "set (w_cancelled_graces w) \<subseteq> set (w_cancelled_graces w6)" for q
    using same_core_sel(12,13) [OF c15] by (simp_all add: w6_def w1_def set_session_def)
  have other: "so_token (w_session w q) \<noteq> so_token so"
    if "(so_token (w_session w q), q) \<in> set (w_sessions_by_token w)" "q \<noteq> s" for q
    using that reg i(4) by (metis hget_iff option.inject)
  have mem7: "(p, r, x) \<in> set (members w7) \<Longrightarrow> \<exists>y. (p, r, y) \<in> set (members w) \<and> (x = y \<or> x = None) \<and> x \<noteq> Some s"
    and keys7: "map fst (members w7) = map fst (members w)" for p r x
  proof -
    have d6: "distinct (map fst (members w6))" using i(1) m6 by simp
    have owner: "p = pub" if "(p, r, Some s) \<in> set (members w)" for p r
      using i(6) [OF that] pub by (simp add: so_def)
    show "map fst (members w7) = map fst (members w)"
      using members_set_session(2) [OF d6] m6 by (simp add: w7_def clear_owner_def split: option.split)
    assume x: "(p, r, x) \<in> set (members w7)"
    show "\<exists>y. (p, r, y) \<in> set (members w) \<and> (x = y \<or> x = None) \<and> x \<noteq> Some s"
    proof (cases "\<exists>e. hget (w_peers w6) pub = Some e \<and> en_screen_session e = Some s")
      case True
      then obtain e where e: "hget (w_peers w6) pub = Some e" "en_screen_session e = Some s" by blast
      then have w7: "w7 = set_entry pub (e\<lparr>en_screen_session := None\<rparr>) w6" by (simp add: w7_def clear_owner_def)
      from x have "(p \<noteq> pub \<and> (p, r, x) \<in> set (members w6)) \<or> (p = pub \<and> r = en_peer e \<and> x = None)"
        unfolding w7 members_set_session(1) [OF d6 e(1)] .
      then show ?thesis using member_of [OF e(1)] owner m6 by auto
    next
      case no: False
      then have w7: "w7 = w6" by (auto simp: w7_def clear_owner_def split: option.split)
      from x have xm: "(p, r, x) \<in> set (members w)" by (simp add: w7 m6)
      have "x \<noteq> Some s"
      proof
        assume "x = Some s"
        with xm owner have "(pub, r, Some s) \<in> set (members w6)" by (auto simp: m6)
        then show False using no member_iff [OF d6] by blast
      qed
      with xm show ?thesis by blast
    qed
  qed
  have same7: "w_session w7 = w_session w6" "w_peer w7 = w_peer w6"
    "w_sessions_by_token w7 = w_sessions_by_token w6" "w_next w7 = w_next w6" "timed w7 = timed w6"
    "w_cancelled_graces w7 = w_cancelled_graces w6"
    by (simp_all add: w7_def clear_owner_def set_entry_def timed_def split: option.split)
  have tim: "timer_ok w7 q x" if "timer_ok w q x" for q x
    using that g6(1) [of q] g6(2) other [of q] unfolding timer_ok_def same7 sel tok by auto
  have i7: "reg_inv w7"
    unfolding reg_inv_def same7(1-5) sel tok
  proof (intro conjI allI impI)
    show "distinct (map fst (members w7))" using i(1) keys7 by simp
    show "hwf (w_sessions_by_token w6)" unfolding toks using i(4) by (rule hm.wf_del)
  next
    fix p r x assume "(p, r, x) \<in> set (members w7)"
    from mem7 [OF this] obtain y where y: "(p, r, y) \<in> set (members w)" by blast
    from i(2) [OF y] show "po_id (w_peer w r) = p" "r < w_next w6" using n6 by auto
  next
    fix p1 r1 s1 p2 r2 s2
    assume a: "(p1, r1, s1) \<in> set (members w7)" "(p2, r2, s2) \<in> set (members w7)" "p1 \<noteq> p2"
      "po_client_id (w_peer w r1) \<noteq> []"
    from mem7 [OF a(1)] mem7 [OF a(2)] obtain y1 y2 where
      "(p1, r1, y1) \<in> set (members w)" "(p2, r2, y2) \<in> set (members w)" by blast
    from i(3) [OF this a(3,4)] show "po_client_id (w_peer w r1) \<noteq> po_client_id (w_peer w r2)" .
  next
    fix t q
    assume "t \<noteq> so_token so \<and> (t, q) \<in> set (w_sessions_by_token w)"
    then have tq: "t \<noteq> so_token so" "(t, q) \<in> set (w_sessions_by_token w)" by blast+
    from i(5) [OF tq(2)] tq(1) n6
    show "so_token (w_session w q) = t" "\<not> (so_closed (w_session w q) \<or> q = s)" "q < w_next w6"
      by (auto simp: so_def)
  next
    fix p r q
    assume "(p, r, Some q) \<in> set (members w7)"
    from mem7 [OF this] have q: "(p, r, Some q) \<in> set (members w)" "q \<noteq> s" by auto
    from i(6) [OF q(1)] other [OF _ q(2)]
    show "so_publisher_id (w_session w q) = p" "so_token (w_session w q) \<noteq> so_token so"
      "(so_token (w_session w q), q) \<in> set (w_sessions_by_token w)" by auto
  next
    fix q x assume "(q, x) \<in> timed w6"
    then have q: "(q, x) \<in> timed w" by (rule t6)
    show "timer_ok w7 q x" using tim [OF i(7) [OF q]] .
    show "q < w_next w6" using i(8) [OF q] n6 by simp
  qed
  have "ended_session s w = w7"
    by (simp only: ended_session_def closed_session_def Let_def so_def [symmetric] w1_def [symmetric] w2_def [symmetric]
      w3_def [symmetric] w4_def [symmetric] pub_def [symmetric] w5_def [symmetric] w6_def [symmetric] w7_def [symmetric])
  with end_session_tail [OF False] have "same_core w7 (end_screen_share_session s w)" by (simp add: same_registry_core)
  then show ?thesis
    using reg_inv_core [OF _ i7] same_core_sel(5) [of w7 "end_screen_share_session s w" s] same7(1) sel(3) by simp
qed

lemmas end_session_inv = end_session_both [THEN conjunct1]
  and end_session_closed = end_session_both [THEN conjunct2]


text \<open>Resuming: the session changes hands only when its last owner is gone or is the caller.\<close>

lemma take_session_inv:
  assumes "reg_inv w" and "(t, s) \<in> set (w_sessions_by_token w)" and "hget (w_peers w) pid = Some e"
    and "\<And>p r. (p, r, Some s) \<in> set (members w) \<Longrightarrow> p = pid"
  shows "reg_inv (cancel_grace (so_grace (w_session w s)) (set_entry pid (e\<lparr>en_screen_session := Some s\<rparr>)
    (set_session s ((w_session w s)\<lparr>so_publisher_id := pid, so_grace := None, so_subscribers := []\<rparr>) w)))"
proof -
  note i = reg_invD [OF assms(1)]
  let ?w1 = "set_session s ((w_session w s)\<lparr>so_publisher_id := pid, so_grace := None, so_subscribers := []\<rparr>) w"
  let ?w2 = "set_entry pid (e\<lparr>en_screen_session := Some s\<rparr>) ?w1"
  let ?w = "cancel_grace (so_grace (w_session w s)) ?w2"
  have m1: "members ?w1 = members w" "w_peers ?w1 = w_peers w" by (simp_all add: members_def set_session_def)
  have m2: "members ?w = members ?w2" by (simp add: members_def cancel_grace_def split: option.split)
  have d1: "distinct (map fst (members ?w1))" and e1: "hget (w_peers ?w1) pid = Some e"
    using i(1) assms(3) m1 by simp_all
  note mem = members_set_session(1) [OF d1 e1, where x = "Some s", unfolded m1]
    and keys = members_set_session(2) [OF d1 e1, where x = "Some s", unfolded m1]
  have same: "w_peer ?w = w_peer w" "w_next ?w = w_next w" "timed ?w = timed w"
    "w_sessions_by_token ?w = w_sessions_by_token w"
    "so_token (w_session ?w q) = so_token (w_session w q)" "so_closed (w_session ?w q) = so_closed (w_session w q)"
    "so_publisher_id (w_session ?w q) = (if q = s then pid else so_publisher_id (w_session w q))" for q
    by (simp_all add: set_entry_def set_session_def timed_def cancel_grace_def split: option.split)
  have tim: "timer_ok ?w q x" if "timer_ok w q x" for q x
    using that by (auto simp: timer_ok_def set_entry_def set_session_def cancel_grace_def split: option.split)
  have own: "(pid, en_peer e, en_screen_session e) \<in> set (members w)" by (rule member_of [OF assms(3)])
  show ?thesis
    unfolding reg_inv_def m2 mem same
  proof (intro conjI allI impI)
    show "distinct (map fst (members ?w2))" using i(1) keys by simp
    show "hwf (w_sessions_by_token w)" by (rule i(4))
  next
    fix p r so
    assume "(p \<noteq> pid \<and> (p, r, so) \<in> set (members w)) \<or> (p = pid \<and> r = en_peer e \<and> so = Some s)"
    then have "\<exists>so. (p, r, so) \<in> set (members w)" using own by blast
    then show "po_id (w_peer w r) = p" "r < w_next w" using i(2) by blast+
  next
    fix p1 r1 s1 p2 r2 s2
    assume 1: "(p1 \<noteq> pid \<and> (p1, r1, s1) \<in> set (members w)) \<or> (p1 = pid \<and> r1 = en_peer e \<and> s1 = Some s)"
      and 2: "(p2 \<noteq> pid \<and> (p2, r2, s2) \<in> set (members w)) \<or> (p2 = pid \<and> r2 = en_peer e \<and> s2 = Some s)"
      and ne: "p1 \<noteq> p2" "po_client_id (w_peer w r1) \<noteq> []"
    from 1 2 own obtain x1 x2 where "(p1, r1, x1) \<in> set (members w)" "(p2, r2, x2) \<in> set (members w)" by blast
    then show "po_client_id (w_peer w r1) \<noteq> po_client_id (w_peer w r2)" using i(3) ne by blast
  next
    fix p r q
    assume "(p \<noteq> pid \<and> (p, r, Some q) \<in> set (members w)) \<or> (p = pid \<and> r = en_peer e \<and> Some q = Some s)"
    then show "(if q = s then pid else so_publisher_id (w_session w q)) = p"
      "(so_token (w_session w q), q) \<in> set (w_sessions_by_token w)"
      using i(5) [OF assms(2)] i(6) assms(2,4) by auto
  qed (use i(5,7,8) tim in blast)+
qed

text \<open>The state in which a resumed session has let go of its viewers; what follows only notifies.\<close>

definition resumed_session :: "string \<Rightarrow> nat \<Rightarrow> entry \<Rightarrow> world \<Rightarrow> world" where
  "resumed_session pid s e w =
     fold (close_stale_sub (so_publisher_id (w_session w s))) (hvals (so_subscribers (w_session w s)))
       (cancel_grace (so_grace (w_session w s)) (set_entry pid (e\<lparr>en_screen_session := Some s\<rparr>)
         (set_session s ((w_session w s)\<lparr>so_publisher_id := pid, so_grace := None, so_subscribers := []\<rparr>) w)))"

lemma resume_tail:
  assumes "hget (w_sessions_by_token w) token = Some s" and "hget (w_peers w) (po_id (w_peer w r)) = Some e"
    and "\<not> so_closed (w_session w s)"
    and free: "\<not> (case hget (w_peers w) (so_publisher_id (w_session w s)) of Some e \<Rightarrow> en_peer e \<noteq> r | None \<Rightarrow> False)"
    and idle: "\<not> (case en_screen_session e of Some s' \<Rightarrow> s' \<noteq> s | None \<Rightarrow> False)"
  shows "same_registry (resumed_session (po_id (w_peer w r)) s e w) (handle_screen_share_resume r token w)"
proof -
  let ?pid = "po_id (w_peer w r)" and ?old = "so_publisher_id (w_session w s)"
  let ?w = "resumed_session ?pid s e w"
  have r: "handle_screen_share_resume r token w =
      (case hget (w_peers ?w) ?pid of
         None \<Rightarrow> ?w
       | Some e4 \<Rightarrow>
           let info = entry_info ?w e4;
               avail = available_msg (w_session ?w s) ?pid;
               w5 = fold (\<lambda>q v. peer_send q avail (peer_send q (ShareEnded ?old)
                              (peer_send q (PeerInfoChanged info) v))) (other_peers ?w ?pid) ?w;
               w6 = presence (PresenceUpdated (w_room_id w5) info) w5
           in peer_send r (ShareStarted token) w6)"
    using assms(1-3) by (simp only: handle_screen_share_resume_def Let_def option.case free idle resumed_session_def if_False)
  have told: "same_registry v (fold (\<lambda>q v. peer_send q a (peer_send q b (peer_send q c v))) rs v)" for a b c rs v
    by (rule same_registry_fold) (rule same_registry_trans [OF peer_send_quiet same_registry_trans [OF peer_send_quiet peer_send_quiet]])
  have "same_registry ?w (peer_send r x (presence y (fold (\<lambda>q v. peer_send q a (peer_send q b (peer_send q c v))) rs ?w)))"
    for a b c x y rs
    by (rule same_registry_trans [OF told same_registry_trans [OF presence_quiet peer_send_quiet]])
  then show ?thesis
    unfolding r Let_def by (auto split: option.split)
qed

lemma resume_core:
  assumes "hget (w_sessions_by_token w) token = Some s" and "hget (w_peers w) (po_id (w_peer w r)) = Some e"
    and "\<not> so_closed (w_session w s)"
    and "\<not> (case hget (w_peers w) (so_publisher_id (w_session w s)) of Some e \<Rightarrow> en_peer e \<noteq> r | None \<Rightarrow> False)"
    and "\<not> (case en_screen_session e of Some s' \<Rightarrow> s' \<noteq> s | None \<Rightarrow> False)"
  shows "same_core (cancel_grace (so_grace (w_session w s)) (set_entry (po_id (w_peer w r)) (e\<lparr>en_screen_session := Some s\<rparr>)
      (set_session s ((w_session w s)\<lparr>so_publisher_id := po_id (w_peer w r), so_grace := None, so_subscribers := []\<rparr>) w)))
    (handle_screen_share_resume r token w)"
  by (rule same_core_trans [OF _ same_registry_core [OF resume_tail [OF assms]]])
    (unfold resumed_session_def, rule same_core_fold, rule core_intros)

text \<open>A resume changes nothing, is refused, or takes the session: of nobody else, by a member that has no other.\<close>

lemma resume_cases:
  obtains (same) "handle_screen_share_resume r token w = w"
  | (refused) x y where "handle_screen_share_resume r token w = send_screen_error r x y w"
  | (taken) s e where "hget (w_sessions_by_token w) token = Some s" "hget (w_peers w) (po_id (w_peer w r)) = Some e"
      "\<not> so_closed (w_session w s)"
      "\<not> (case hget (w_peers w) (so_publisher_id (w_session w s)) of Some e \<Rightarrow> en_peer e \<noteq> r | None \<Rightarrow> False)"
      "\<not> (case en_screen_session e of Some s' \<Rightarrow> s' \<noteq> s | None \<Rightarrow> False)"
proof (cases "hget (w_sessions_by_token w) token")
  case None
  then show ?thesis by (intro refused) (simp add: handle_screen_share_resume_def Let_def)
next
  case (Some s)
  define held where "held \<longleftrightarrow> (case hget (w_peers w) (so_publisher_id (w_session w s)) of Some e \<Rightarrow> en_peer e \<noteq> r | None \<Rightarrow> False)"
  show ?thesis
  proof (cases "hget (w_peers w) (po_id (w_peer w r))")
    case None
    with Some show ?thesis
      by (cases held) (auto simp: handle_screen_share_resume_def Let_def held_def [symmetric] intro: refused same)
  next
    case e: (Some e)
    define busy where "busy \<longleftrightarrow> (case en_screen_session e of Some s' \<Rightarrow> s' \<noteq> s | None \<Rightarrow> False)"
    consider "held \<or> busy \<or> so_closed (w_session w s)" | "\<not> held" "\<not> busy" "\<not> so_closed (w_session w s)" by blast
    then show ?thesis
    proof cases
      case 1
      with Some e have "\<exists>x. handle_screen_share_resume r token w = send_screen_error r [] x w"
        by (cases held; cases busy) (auto simp: handle_screen_share_resume_def Let_def held_def [symmetric] busy_def [symmetric])
      then show ?thesis by (blast intro: refused)
    next
      case 2
      show ?thesis by (rule taken [OF Some e 2(3) 2(1) [unfolded held_def] 2(2) [unfolded busy_def]])
    qed
  qed
qed

lemma resume_inv:
  assumes "reg_inv w"
  shows "reg_inv (handle_screen_share_resume r token w)"
proof (cases rule: resume_cases [where r = r and token = token and w = w])
  case same
  with assms show ?thesis by simp
next
  case (refused x y)
  then show ?thesis using reg_inv_core [OF quiet_core(1) assms] by (simp add: send_screen_error_def)
next
  case (taken s e)
  note i = reg_invD [OF assms]
  have sole: "p = po_id (w_peer w r)" if own: "(p, q, Some s) \<in> set (members w)" for p q
  proof -
    have p: "p = so_publisher_id (w_session w s)" using i(6) [OF own] by simp
    with own obtain e' where e': "hget (w_peers w) (so_publisher_id (w_session w s)) = Some e'"
      unfolding member_iff [OF i(1)] by blast
    with taken(4) have "en_peer e' = r" by simp
    with i(2) [OF member_of [OF e']] p show "p = po_id (w_peer w r)" by simp
  qed
  show ?thesis
    by (rule reg_inv_core [OF resume_core [OF taken] take_session_inv [OF assms hget_SomeD [OF taken(1)] taken(2) sole]])
qed

lemma share_stop_inv: "reg_inv w \<Longrightarrow> reg_inv (handle_screen_share_stop r w)"
proof -
  assume inv: "reg_inv w"
  have "(so_token (w_session w s), s) \<in> set (w_sessions_by_token w)" if "session_of w pid = Some s" for pid s
  proof -
    from that obtain e where "hget (w_peers w) pid = Some e" "en_screen_session e = Some s"
      by (auto simp: session_of_def split: option.splits)
    then show ?thesis using reg_invD(6) [OF inv] member_of by metis
  qed
  then show ?thesis
    using inv by (auto simp: handle_screen_share_stop_def intro: end_session_inv split: option.split)
qed


section \<open>Every step\<close>

lemma written_core [core_intros]:
  "same_core w (w\<lparr>w_peer := (w_peer w)(r := (w_peer w r)\<lparr>po_out := tl (po_out (w_peer w r))\<rparr>)\<rparr>)"
  by (simp add: same_core_def timed_def members_def session_core_def identities_def fun_eq_iff)

text \<open>A join brings a fresh peer id, a started share a fresh token: both are random in the code.\<close>

fun room_enabled :: "world \<Rightarrow> step_ctx \<times> room_event \<Rightarrow> bool" where
  "room_enabled w (cx, Join pid f) \<longleftrightarrow> hget (w_peers w) pid = None"
| "room_enabled w (cx, Message r m) \<longleftrightarrow> hget (w_sessions_by_token w) (cx_token cx) = None"
| "room_enabled w (cx, _) \<longleftrightarrow> True"

definition next_world :: "world \<Rightarrow> step_ctx \<times> room_event \<Rightarrow> world" where
  "next_world w ce = room_step (fst ce) (snd ce) w"

lemma dispatch_inv:
  assumes "reg_inv w" and "hget (w_sessions_by_token w) (cx_token cx) = None"
  shows "reg_inv (dispatch cx r m w)"
proof -
  note core = reg_inv_core [OF _ assms(1)]
  show ?thesis
    by (cases "(cx, r, m, w)" rule: dispatch.cases)
      (auto intro: core core_intros share_start_inv share_stop_inv resume_inv assms)
qed

lemma handle_client_message_inv:
  assumes "reg_inv w" and "hget (w_sessions_by_token w) (cx_token cx) = None"
  shows "reg_inv (handle_client_message cx r m w)"
  using dispatch_inv [OF assms] reg_inv_core [OF core.ping assms(1)] assms(1)
  by (auto simp: handle_client_message_def simp del: dispatch.simps split: client_msg.split option.split)

lemma without_task_core: "same_core w (w\<lparr>w_tasks := take i (w_tasks w) @ drop (Suc i) (w_tasks w)\<rparr>)"
  by (auto simp: same_core_def timed_def members_def session_core_def identities_def fun_eq_iff
    dest: in_set_takeD in_set_dropD)

lemma run_task_inv:
  assumes "reg_inv w" and "\<And>s tok at. t = GraceTimer s tok at \<Longrightarrow>
    so_closed (w_session w s) \<or> (so_token (w_session w s), s) \<in> set (w_sessions_by_token w)"
  shows "reg_inv (run_task cx t w)"
proof (cases t)
  case SignalAllTask
  then show ?thesis using reg_inv_core [OF signal_all_quiet [THEN same_registry_core] assms(1)] by (simp add: run_task_def)
next
  case (EndSessionTask token)
  have "reg_inv (end_screen_share_session s w)" if "hget (w_sessions_by_token w) token = Some s" for s
    using reg_invD(5) [OF assms(1)] hget_SomeD [OF that] by (intro end_session_inv [OF assms(1)]) fastforce
  then show ?thesis using assms(1) by (simp add: run_task_def EndSessionTask split: option.split)
next
  case (GraceTimer s tok at)
  then show ?thesis using assms end_session_inv [OF assms(1)] by (simp add: run_task_def)
qed

lemma room_step_inv: "reg_inv w \<Longrightarrow> room_enabled w ce \<Longrightarrow> reg_inv (next_world w ce)"
proof -
  assume inv: "reg_inv w" and en: "room_enabled w ce"
  obtain cx e where ce: "ce = (cx, e)" by (cases ce)
  note core = reg_inv_core [OF _ inv]
  show ?thesis
  proof (cases e)
    case (Task i)
    define v where "v = w\<lparr>w_tasks := take i (w_tasks w) @ drop (Suc i) (w_tasks w)\<rparr>"
    have v: "reg_inv v" unfolding v_def by (rule core [OF without_task_core])
    have "reg_inv (run_task cx (w_tasks w ! i) v)" if "i < length (w_tasks w)"
    proof (rule run_task_inv [OF v])
      fix s tok at assume "w_tasks w ! i = GraceTimer s tok at"
      then have "GraceTimer s tok at \<in> set (w_tasks w)" using that by (metis nth_mem)
      then have "(s, tok) \<in> timed w" unfolding timed_def by blast
      from reg_invD(7) [OF inv this, unfolded timer_ok_def]
      show "so_closed (w_session v s) \<or> (so_token (w_session v s), s) \<in> set (w_sessions_by_token v)"
        by (auto simp: v_def)
    qed
    then show ?thesis using inv by (simp add: next_world_def ce Task v_def)
  qed (use inv en in \<open>auto simp: next_world_def ce intro: core core_intros join_inv leave_inv handle_client_message_inv
        split: option.split\<close>)
qed

interpretation room: stepper next_world room_enabled reg_inv
  by unfold_locales (rule room_step_inv)

end
