(* ===== verification/RoomGrace.thy ===== *)
theory RoomGrace
  imports RoomInv
begin

text \<open>
  The tokens that cancel grace timers: a new one is new. No handler cancels or stores a token that
  was not drawn, so that the timer armed when a publisher leaves is not cancelled already.
\<close>

definition graces_ok :: "world \<Rightarrow> bool" where
  "graces_ok w \<longleftrightarrow> (\<forall>tok \<in> set (w_cancelled_graces w). tok < w_next w)
   \<and> (\<forall>s tok. so_grace (w_session w s) = Some tok \<longrightarrow> tok < w_next w)"

definition graced :: "world \<Rightarrow> world \<Rightarrow> bool" where
  "graced w w' \<longleftrightarrow> w_next w \<le> w_next w' \<and> (graces_ok w \<longrightarrow> graces_ok w')"

lemma graced_refl [simp]: "graced w w"
  by (simp add: graced_def)

lemma graced_trans [trans]: "graced w w1 \<Longrightarrow> graced w1 w2 \<Longrightarrow> graced w w2"
  by (simp add: graced_def)

lemma graced_same:
  assumes "w_cancelled_graces w' = w_cancelled_graces w" and "\<And>s. so_grace (w_session w' s) = so_grace (w_session w s)"
    and "w_next w \<le> w_next w'"
  shows "graced w w'"
  using assms less_le_trans by (fastforce simp: graced_def graces_ok_def)

lemma graced_quiet: "same_registry w w' \<Longrightarrow> graced w w'"
  by (rule graced_same) (simp_all add: same_registry_def registry_def)

lemma graced_session: "so_grace so = so_grace (w_session w s) \<Longrightarrow> graced w (set_session s so w)"
  by (rule graced_same) (simp_all add: set_session_def)

lemma graced_writes:
  "graced w (set_entry pid e w)" "graced w (w\<lparr>w_peers := a, w_tracks := b\<rparr>)" "graced w (w\<lparr>w_sessions_by_token := c\<rparr>)"
  "graced w (w\<lparr>w_tasks := d\<rparr>)" "graced w (w\<lparr>w_peer := p\<rparr>)" "graced w (spawn_task t w)" "graced w (mark_closed pc w)"
  by (rule graced_same; simp add: set_entry_def spawn_task_def mark_closed_def)+

text \<open>The two places that cancel: the session's token is taken out of it and cancelled.\<close>

lemma graced_clear:
  "w_cancelled_graces w1 = w_cancelled_graces w \<Longrightarrow> w_next w1 = w_next w \<Longrightarrow> w_session w1 = (w_session w)(s := so) \<Longrightarrow>
   so_grace so = None \<Longrightarrow> graced w (cancel_grace (so_grace (w_session w s)) w1)"
  by (auto simp: graced_def graces_ok_def cancel_grace_def split: option.split)

interpretation graced: keeps graced
proof unfold_locales
  show "graced w w1 \<Longrightarrow> graced w1 w2 \<Longrightarrow> graced w w2" for w w1 w2 by (rule graced_trans)
  show "standing so = standing (w_session w s) \<Longrightarrow> graced w (set_session s so w)" for so w s
    by (rule graced_session) (simp add: standing_def)
  show "graced w (w\<lparr>w_tracks := a\<rparr>)" "graced w (w\<lparr>w_audio := b\<rparr>)" "graced w (w\<lparr>w_trk := c\<rparr>)" "graced w (w\<lparr>w_closed := z\<rparr>)"
    "graced w (w\<lparr>w_sub := d\<rparr>)" "graced w (w\<lparr>w_pc := q\<rparr>)" "w_next w \<le> n \<Longrightarrow> graced w (w\<lparr>w_next := n\<rparr>)"
    for w a b c z d q n by (rule graced_same; simp)+
qed (rule graced_refl graced_writes quiet [THEN graced_quiet])+

text \<open>Closing and sending cancel no timer at all.\<close>

interpretation timers: keeps "\<lambda>w w'. w_cancelled_graces w' = w_cancelled_graces w"
  by unfold_locales
    (simp_all add: peer_send_def cancel_peer_def spawn_task_def set_entry_def set_session_def Let_def)

section \<open>Every step\<close>

lemma start_grace_graced: "graced w (start_screen_share_grace s now w)"
proof -
  have "graced w (cancel_grace (so_grace (w_session w s)) (set_session s ((w_session w s)\<lparr>so_grace := Some (w_next w)\<rparr>)
      (w\<lparr>w_next := w_next w + 1\<rparr>)))"
    by (auto simp: graced_def graces_ok_def cancel_grace_def set_session_def less_Suc_eq split: option.split)
  then show ?thesis
    by (auto simp: start_screen_share_grace_def Let_def intro: graced_trans [OF _ graced_writes(6)])
qed

lemma clear_owner_graced: "graced w (clear_owner pub s w)"
  by (simp add: clear_owner_def graced_writes split: option.split)

lemma end_session_graced: "graced w (end_screen_share_session s w)"
proof (cases "so_closed (w_session w s)")
  case True
  then show ?thesis by (simp add: end_screen_share_session_def)
next
  case False
  let ?so = "(w_session w s)\<lparr>so_closed := True, so_subscribers := [], so_grace := None\<rparr>"
  have "graced w (cancel_grace (so_grace (w_session w s)) (set_session s ?so w))"
    by (rule graced_clear [where so = ?so]) (simp_all add: set_session_def)
  also have "graced (cancel_grace (so_grace (w_session w s)) (set_session s ?so w)) (closed_session s w)"
    unfolding closed_session_def Let_def by (rule graced_trans [OF graced.close_publisher_pc graced_session]) simp
  also have "graced (closed_session s w) (ended_session s w)"
    unfolding ended_session_def Let_def
    by (rule graced_trans [OF graced_trans [OF graced.loop graced_writes(3)] clear_owner_graced]) (rule graced.close_stale_sub)
  also have "graced (ended_session s w) (end_screen_share_session s w)" by (rule graced_quiet [OF end_session_tail [OF False]])
  finally show ?thesis .
qed

lemma resume_graced: "graced w (handle_screen_share_resume r token w)"
proof (cases rule: resume_cases [where r = r and token = token and w = w])
  case (refused x y)
  then show ?thesis by (simp add: send_screen_error_def graced.send)
next
  case (taken s e)
  let ?so = "(w_session w s)\<lparr>so_publisher_id := po_id (w_peer w r), so_grace := None, so_subscribers := []\<rparr>"
  let ?w = "cancel_grace (so_grace (w_session w s)) (set_entry (po_id (w_peer w r)) (e\<lparr>en_screen_session := Some s\<rparr>)
      (set_session s ?so w))"
  have "graced w ?w" by (rule graced_clear [where so = ?so]) (simp_all add: set_session_def set_entry_def)
  also have "graced ?w (resumed_session (po_id (w_peer w r)) s e w)"
    unfolding resumed_session_def by (rule graced.loop) (rule graced.close_stale_sub)
  also have "graced (resumed_session (po_id (w_peer w r)) s e w) (handle_screen_share_resume r token w)"
    by (rule graced_quiet [OF resume_tail [OF taken]])
  finally show ?thesis .
qed simp

lemma share_start_graced: "graced w (handle_screen_share_start r d token res w)"
proof -
  have "graced w (w\<lparr>w_session := (w_session w)(w_next w := new_session p token d pc c), w_pc := x, w_next := w_next w + 2\<rparr>)"
    for p pc c x by (fastforce simp: graced_def graces_ok_def new_session_def)
  then have su: "graced w (snd (setup_screen_pub r d token res w))"
    by (auto simp: setup_screen_pub_def Let_def split: option.split intro: graced_trans [OF _ graced.close_publisher_pc])
  obtain q w1 where q: "setup_screen_pub r d token res w = (q, w1)" by (cases "setup_screen_pub r d token res w")
  with su have w1: "graced w w1" by simp
  have told: "graced w (peer_send r m2 (peer_send r m1 ((set_entry pid e w1)\<lparr>w_sessions_by_token := c\<rparr>)))" for m1 m2 pid e c
    by (rule graced_trans [OF w1 graced_trans [OF graced_writes(1) graced_trans [OF graced_writes(3)
          graced_trans [OF graced.send graced.send]]]])
  have "graced w (send_screen_error q p x w1)" "graced w (close_publisher_pc s w1)" for q p x s
    using graced_trans [OF w1] graced.screen_error graced.close_publisher_pc by blast+
  with told show ?thesis
    by (simp add: handle_screen_share_start_def Let_def q graced.screen_error split: option.split prod.split)
qed

lemma first_video_graced: "graced w (screen_first_video s w)"
proof -
  have ready: "graced v (first_screen_video_ready s v)" for v
  proof -
    have told: "graced v (presence ev (fold (\<lambda>r u. peer_send r a (peer_send r b u)) rs v))" for ev a b rs
      by (rule graced_trans [OF graced.loop [where f = "\<lambda>r u. peer_send r a (peer_send r b u)"] graced_quiet [OF presence_quiet]])
        (rule graced_trans [OF graced.send graced.send])
    then have "graced v (send_to p m (presence ev (fold (\<lambda>r u. peer_send r a (peer_send r b u)) rs v)))" for p m ev a b rs
      by (rule graced_trans [OF _ graced.send_to])
    with told show ?thesis
      by (simp add: first_screen_video_ready_def Let_def send_encode_def split: option.split)
  qed
  have "graced w (set_session s ((w_session w s)\<lparr>so_first_video := True\<rparr>) w)" by (rule graced_session) simp
  from graced_trans [OF this ready] show ?thesis
    by (simp add: screen_first_video_def)
qed

lemma own_state_graced: "graced w (set_display_name pid name w)" "graced w (set_state pid m d w)"
proof -
  have b: "graced v (presence ev (broadcast rs msg v))" for v ev rs msg
    by (rule graced_trans [OF graced.broadcast graced_quiet [OF presence_quiet]])
  have "graced v (set_muted a m v)" for a v by (simp add: set_muted_def graced.cells split: option.split)
  then show "graced w (set_display_name pid name w)" "graced w (set_state pid m d w)"
    by (auto simp: set_display_name_def set_state_def Let_def split: option.split
      intro!: graced_trans [OF graced_writes(1) b] graced_trans [OF graced_trans [OF graced_writes(1)] b])
qed

lemma remove_peer_graced: "graced w (remove_peer env now pid w)"
proof (cases "hget (w_peers w) pid")
  case None
  then show ?thesis by (simp add: remove_peer_def)
next
  case (Some e)
  have "graced w (after_grace now pid e w)"
    unfolding after_grace_def Let_def
    by (auto split: option.split intro: graced_trans [OF graced_writes(2)] graced.close_entry_subs
      graced_trans [OF graced.close_entry_subs start_grace_graced])
  also have "graced (after_grace now pid e w) (remove_peer env now pid w)" by (rule graced_quiet [OF remove_peer_tail [OF Some]])
  finally show ?thesis .
qed

lemma join_graced: "graced w (join env pid h w)"
proof -
  obtain r w1 where n: "new_peer pid h w = (r, w1)" by (cases "new_peer pid h w")
  obtain evs w2 where ev: "evict (po_client_id (w_peer w1 r)) w1 = (evs, w2)" by (cases "evict (po_client_id (w_peer w1 r)) w1")
  have "graced w w1" using n by (auto simp: new_peer_def Let_def split: if_splits intro!: graced_same)
  also have "graced w1 w2" using ev by (auto simp: evict_def Let_def graced_writes split: if_splits)
  also have "graced w2 (fold (dismiss (all_peers w2)) evs (set_entry (po_id (w_peer w2 r)) (new_entry r name) w2))" for name
    by (rule graced_trans [OF graced_writes(1) graced.loop]) (rule graced.dismiss)
  also note graced_quiet [OF add_peer_tail [OF ev]]
  finally have a: "graced w (add_peer env r name w1)" for name .
  then show ?thesis
    using graced_trans [OF a graced.signal_all] by (simp add: join_def n Let_def)
qed

lemma step_graced: "graced w (room_step cx ev w)"
proof -
  have dispatch: "graced w (dispatch cx r m w)" for r m
    by (cases "(cx, r, m, w)" rule: dispatch.cases)
      (simp_all add: graced.chat graced.chat_delete graced.answer own_state_graced graced.renegotiate graced.client_offer
        share_start_graced resume_graced graced.subscribe graced.remove_screen_sub graced.mode_change
        handle_screen_share_stop_def end_session_graced split: option.split)
  have leave: "graced w (leave env now r w)" for env now r
    unfolding leave_def Let_def
    by (auto split: option.split intro: graced_trans [OF graced.cancel remove_peer_graced]
      graced_trans [OF graced_trans [OF graced.cancel remove_peer_graced] graced.audio_close])
  have task: "graced v (run_task cx t v)" for v t
    by (cases t) (simp_all add: run_task_def graced.signal_all end_session_graced split: option.split)
  show ?thesis
  proof (cases ev)
    case (Message r m)
    with dispatch graced.ping show ?thesis
      by (auto simp: handle_client_message_def simp del: dispatch.simps split: client_msg.split option.split)
  next
    case (Task i)
    with graced_trans [OF graced_writes(4) task] show ?thesis by simp
  qed (simp_all add: join_graced leave graced.first_audio_packet first_video_graced graced.close_sub_pc
    graced.close_publisher_pc graced_writes graced.close_room split: option.split)
qed

end
