(* ===== verification/RoomFrame.thy ===== *)
theory RoomFrame
  imports Room "HOL-Library.Sublist"
begin

text \<open>
  What the room's handlers may do to the state: they write it through a few primitives. A
  predicate the primitives keep is kept by every handler (locale \<open>world_pred\<close>, proved once by
  walking through the code of each). Interpreted for the peers' queues and for the presence feed.
\<close>

section \<open>Walking through the code\<close>

named_theorems walk \<open>rules that follow the code of a handler\<close>

lemma walk_if: "(b \<Longrightarrow> P x) \<Longrightarrow> (\<not> b \<Longrightarrow> P y) \<Longrightarrow> P (if b then x else y)"
  by simp

lemma walk_option: "(x = None \<Longrightarrow> P a) \<Longrightarrow> (\<And>y. x = Some y \<Longrightarrow> P (f y)) \<Longrightarrow> P (case x of None \<Rightarrow> a | Some y \<Rightarrow> f y)"
  by (simp split: option.split)

lemma walk_let: "P a \<Longrightarrow> (\<And>x. P x \<Longrightarrow> P (f x)) \<Longrightarrow> P (Let a f)"
  by simp

lemma walk_pure_let: "(\<And>x. P (f x)) \<Longrightarrow> P (Let a f)"
  by simp

lemma walk_pair: "P (snd p) \<Longrightarrow> (\<And>a b. P b \<Longrightarrow> P (f a b)) \<Longrightarrow> P (case p of (a, b) \<Rightarrow> f a b)"
  by (cases p) simp

lemma walk_pure_pair: "(\<And>a b. P (f a b)) \<Longrightarrow> P (case p of (a, b) \<Rightarrow> f a b)"
  by (cases p) simp

lemma walk_fold: "P v \<Longrightarrow> (\<And>x u. P u \<Longrightarrow> P (f x u)) \<Longrightarrow> P (fold f xs v)"
  by (induction xs arbitrary: v) simp_all

locale world_pred =
  fixes ok :: "world \<Rightarrow> bool"
  assumes send: "ok v \<Longrightarrow> ok (peer_send r m v)"
    and cancel: "ok v \<Longrightarrow> ok (cancel_peer r v)"
    and told: "ok v \<Longrightarrow> ok (presence (PresenceJoined (w_room_id v) i) v)"
      "ok v \<Longrightarrow> ok (presence (PresenceUpdated (w_room_id v) i) v)"
      "ok v \<Longrightarrow> ok (presence (PresenceLeft (w_room_id v) p) v)"
    and registry: "ok v \<Longrightarrow> ok (w_peers_update a1 v)" "ok v \<Longrightarrow> ok (w_tracks_update a2 v)"
      "ok v \<Longrightarrow> ok (w_sessions_by_token_update a3 v)" "ok v \<Longrightarrow> ok (w_audio_update a4 v)"
      "ok v \<Longrightarrow> ok (w_trk_update a5 v)" "ok v \<Longrightarrow> ok (w_session_update a6 v)"
      "ok v \<Longrightarrow> ok (w_sub_update a7 v)" "ok v \<Longrightarrow> ok (w_pc_update a8 v)"
      "ok v \<Longrightarrow> ok (w_next_update a11 v)" "ok v \<Longrightarrow> ok (w_closed_update a12 v)"
    and spawn: "ok v \<Longrightarrow> ok (spawn_task t v)"
    and cancel_grace: "ok v \<Longrightarrow> ok (cancel_grace g v)"
begin

lemmas control = walk_if [of _ ok] walk_option [of _ ok] walk_fold [of ok] walk_let [of ok] walk_pure_let [of ok]
  walk_pair [of ok] walk_pure_pair [of ok]

lemmas prims = send cancel told registry spawn cancel_grace

lemma broadcast: "ok v \<Longrightarrow> ok (broadcast rs m v)"
  unfolding broadcast_def by (assumption | rule control prims)+

lemma send_to: "ok v \<Longrightarrow> ok (send_to pid m v)"
  unfolding send_to_def by (assumption | rule control prims)+

lemma audio_act: "ok v \<Longrightarrow> ok (apply_audio_act env a act v)"
  by (cases act) (simp_all add: send_to registry)

lemma run_audio: "ok v \<Longrightarrow> ok (run_audio env a r v)"
  unfolding run_audio_def by (assumption | rule control prims audio_act)+

lemma signal_all: "ok v \<Longrightarrow> ok (signal_all env v)"
  unfolding signal_all_def audio_sync_def by (assumption | rule control run_audio)+

lemma unpublish_track: "ok v \<Longrightarrow> ok (unpublish_track t v)"
  unfolding unpublish_track_def by (assumption | rule control prims)+

lemma audio_close: "ok v \<Longrightarrow> ok (audio_close env a v)"
  unfolding audio_close_def by (assumption | rule control prims audio_act unpublish_track)+

lemma first_audio_packet: "ok v \<Longrightarrow> ok (first_audio_packet a v)"
  unfolding first_audio_packet_def publish_track_def by (assumption | rule control prims)+

lemma set_entry: "ok v \<Longrightarrow> ok (set_entry pid e v)"
  unfolding set_entry_def by (rule prims)

lemma set_session: "ok v \<Longrightarrow> ok (set_session s so v)"
  unfolding set_session_def by (rule prims)

lemma mark_closed: "ok v \<Longrightarrow> ok (mark_closed pc v)"
  unfolding mark_closed_def by (rule prims)

lemma send_encode: "ok v \<Longrightarrow> ok (send_encode pid m v)"
  unfolding send_encode_def by (rule send_to)

lemma send_screen_error: "ok v \<Longrightarrow> ok (send_screen_error r pid x v)"
  unfolding send_screen_error_def by (rule send)

lemmas writes = prims broadcast send_to set_entry set_session mark_closed cancel_grace send_encode send_screen_error
  signal_all

lemma detach_sub: "ok v \<Longrightarrow> ok (snd (detach_sub sid pid only v))"
  by (auto simp: detach_sub_def set_entry split: option.split)

lemma remove_sub_with:
  assumes "ok v" and close: "\<And>pc u. ok u \<Longrightarrow> ok (close pc u)"
  shows "ok (remove_sub_with close sid pid only v)"
  using assms(1) unfolding remove_sub_with_def by - (assumption | rule control writes detach_sub close)+

lemma close_again: "ok v \<Longrightarrow> ok (close_again pc v)"
  unfolding close_again_def by (assumption | rule control writes)+

lemma walk_owner:
  "(\<And>a. ok (f a)) \<Longrightarrow> (\<And>s. ok (g s)) \<Longrightarrow> (\<And>sb. ok (h sb)) \<Longrightarrow> ok (case x of OfAudio a \<Rightarrow> f a | OfSession s \<Rightarrow> g s | OfSub sb \<Rightarrow> h sb)"
  by (simp split: pc_owner.split)

lemma close_sub_pc: "ok v \<Longrightarrow> ok (close_sub_pc pc v)"
  unfolding close_sub_pc_def by (assumption | rule control writes walk_owner remove_sub_with close_again)+

lemma remove_screen_sub: "ok v \<Longrightarrow> ok (remove_screen_sub sid pid only v)"
  unfolding remove_screen_sub_def by (assumption | rule remove_sub_with close_sub_pc)+

lemma close_publisher_pc: "ok v \<Longrightarrow> ok (close_publisher_pc s v)"
  unfolding close_publisher_pc_def by (assumption | rule control writes)+

lemma close_stale_sub: "ok v \<Longrightarrow> ok (close_stale_sub pid sb v)"
  unfolding close_stale_sub_def drop_entry_sub_def by (assumption | rule control writes close_sub_pc)+

lemmas closing = close_sub_pc close_publisher_pc close_stale_sub remove_screen_sub

lemma end_session: "ok v \<Longrightarrow> ok (end_screen_share_session s v)"
  unfolding end_screen_share_session_def clear_owner_def by (assumption | rule control writes closing)+

lemma screen_setup: "ok v \<Longrightarrow> ok (snd (setup_screen_pub r d token res v))"
  by (auto simp: setup_screen_pub_def Let_def split: option.split intro!: writes closing)

lemma share_start: "ok v \<Longrightarrow> ok (handle_screen_share_start r d token res v)"
proof -
  assume "ok v"
  then have s: "ok (snd (setup_screen_pub r d token res v))" by (rule screen_setup)
  then show ?thesis
    using \<open>ok v\<close> by (cases "setup_screen_pub r d token res v")
      (auto simp: handle_screen_share_start_def Let_def split: option.split intro!: writes closing)
qed

lemma first_video: "ok v \<Longrightarrow> ok (screen_first_video s v)"
  unfolding screen_first_video_def first_screen_video_ready_def by (assumption | rule control writes)+

lemma mode_change: "ok v \<Longrightarrow> ok (handle_screen_share_mode_change r m v)"
  unfolding handle_screen_share_mode_change_def by (assumption | rule control writes)+

lemma share_stop: "ok v \<Longrightarrow> ok (handle_screen_share_stop r v)"
  unfolding handle_screen_share_stop_def by (assumption | rule control writes end_session)+

lemma client_offer: "ok v \<Longrightarrow> ok (handle_client_offer r e answer v)"
  unfolding handle_client_offer_def by (assumption | rule control writes)+

lemma subscribe: "ok v \<Longrightarrow> ok (handle_screen_share_subscribe r d offer v)"
  unfolding handle_screen_share_subscribe_def by (assumption | rule control writes closing)+

lemma sub_answer: "ok v \<Longrightarrow> ok (screen_sub_answer r pid v)"
  unfolding screen_sub_answer_def by (assumption | rule control writes)+

lemma start_grace: "ok v \<Longrightarrow> ok (start_screen_share_grace s now v)"
  unfolding start_screen_share_grace_def by (assumption | rule control writes)+

lemma resume: "ok v \<Longrightarrow> ok (handle_screen_share_resume r token v)"
  unfolding handle_screen_share_resume_def by (assumption | rule control writes closing)+

lemmas screen_handlers = share_start share_stop mode_change client_offer subscribe sub_answer resume remove_screen_sub

lemma evict: "ok v \<Longrightarrow> ok (snd (evict cid v))"
  by (simp add: evict_def Let_def registry)

lemma dismiss: "ok v \<Longrightarrow> ok (dismiss others ev v)"
  unfolding dismiss_def close_entry_subs_def by (assumption | rule control writes closing)+

lemma add_peer: "ok v \<Longrightarrow> ok (add_peer env r name v)"
  unfolding add_peer_def by (assumption | rule control writes evict dismiss)+

lemma remove_peer: "ok v \<Longrightarrow> ok (remove_peer env now pid v)"
  unfolding remove_peer_def close_entry_subs_def by (assumption | rule control writes closing start_grace)+

lemma leave: "ok v \<Longrightarrow> ok (leave env now r v)"
  unfolding leave_def by (assumption | rule control writes remove_peer audio_close)+

lemma close_room: "ok v \<Longrightarrow> ok (close_room v)"
  unfolding close_room_def by (assumption | rule control writes)+

lemma set_display_name: "ok v \<Longrightarrow> ok (set_display_name pid name v)"
  unfolding set_display_name_def by (assumption | rule control writes)+

lemma set_state: "ok v \<Longrightarrow> ok (set_state pid m d v)"
  unfolding set_state_def set_muted_def by (assumption | rule control writes)+

lemma chat: "ok v \<Longrightarrow> ok (broadcast_chat files cid ts r cs v)"
  unfolding broadcast_chat_def by (assumption | rule control writes)+

lemma chat_delete: "ok v \<Longrightarrow> ok (broadcast_chat_delete mid v)"
  unfolding broadcast_chat_delete_def by (assumption | rule control writes)+

lemma ping: "ok v \<Longrightarrow> ok (handle_ping now r to v)"
  unfolding handle_ping_def by (assumption | rule control writes)+

lemma renegotiate: "ok v \<Longrightarrow> ok (handle_renegotiate env now r v)"
  unfolding handle_renegotiate_def by (assumption | rule control writes)+

lemma answer: "ok v \<Longrightarrow> ok (handle_answer cx r e v)"
  unfolding handle_answer_def audio_answer_def
  by (cases "se_pc e") (auto intro: run_audio sub_answer split: option.split)

lemmas handlers = screen_handlers set_display_name set_state chat chat_delete ping renegotiate answer

lemma dispatch: "ok v \<Longrightarrow> ok (dispatch cx r m v)"
  by (cases "(cx, r, m, v)" rule: dispatch.cases) (auto intro: handlers)

lemma client_message: "ok v \<Longrightarrow> ok (handle_client_message cx r m v)"
  by (auto simp: handle_client_message_def simp del: dispatch.simps intro: dispatch ping
    split: client_msg.split option.split)

lemma task: "ok v \<Longrightarrow> ok (run_task cx t v)"
  by (cases t) (auto simp: run_task_def intro: signal_all end_session split: option.split)

text \<open>Every event but a join and a written frame, which touch a queue's owner directly.\<close>

lemma step:
  assumes "ok v" and "\<And>ts. ok (v\<lparr>w_tasks := ts\<rparr>)" and "\<forall>pid f. e \<noteq> Join pid f" and "\<forall>r. e \<noteq> Written r"
  shows "ok (room_step cx e v)"
  using assms
  by (cases e) (auto intro: client_message leave first_audio_packet first_video closing task close_room registry)

end

section \<open>Queues\<close>

text \<open>A queue only grows at its end and within its bound; a cancelled peer's queue stays as it is.\<close>

definition queue_ext :: "peer_obj \<Rightarrow> peer_obj \<Rightarrow> bool" where
  "queue_ext p p' \<longleftrightarrow>
     prefix (po_out p) (po_out p')
   \<and> (length (po_out p) \<le> PEER_OUT_BUF_LEN \<longrightarrow> length (po_out p') \<le> PEER_OUT_BUF_LEN)
   \<and> (po_cancelled p \<longrightarrow> po_cancelled p' \<and> po_out p' = po_out p)"

definition evolves :: "world \<Rightarrow> world \<Rightarrow> bool" where
  "evolves w w' \<longleftrightarrow> (\<forall>r. queue_ext (w_peer w r) (w_peer w' r))"

lemma queue_ext_refl: "queue_ext p p"
  by (simp add: queue_ext_def)

lemma queue_ext_trans: "queue_ext p q \<Longrightarrow> queue_ext q r \<Longrightarrow> queue_ext p r"
  by (auto simp: queue_ext_def dest: prefix_order.trans)

lemma peer_send_ext: "queue_ext (w_peer w q) (w_peer (peer_send r m w) q)"
  by (auto simp: peer_send_def Let_def queue_ext_def)

lemma cancel_ext: "queue_ext (w_peer w q) (w_peer (cancel_peer r w) q)"
  by (auto simp: cancel_peer_def queue_ext_def)

interpretation queues: world_pred "evolves w" for w
  by unfold_locales
    (auto simp: evolves_def presence_def spawn_task_def cancel_grace_def split: option.split intro: queue_ext_trans [OF _ peer_send_ext] queue_ext_trans [OF _ cancel_ext])

definition queues_ok :: "world \<Rightarrow> bool" where
  "queues_ok w \<longleftrightarrow> (\<forall>r. length (po_out (w_peer w r)) \<le> PEER_OUT_BUF_LEN)"

lemma evolves_refl: "evolves w w"
  by (simp add: evolves_def queue_ext_refl)

lemma evolves_ok: "evolves w w' \<Longrightarrow> queues_ok w \<Longrightarrow> queues_ok w'"
  by (auto simp: evolves_def queues_ok_def queue_ext_def)

lemma join_queues: "queues_ok w \<Longrightarrow> queues_ok (join env pid h w)"
proof -
  assume ok: "queues_ok w"
  obtain r w1 where n: "new_peer pid h w = (r, w1)" by (cases "new_peer pid h w")
  then have "\<forall>q. po_out (w_peer w1 q) = [] \<or> w_peer w1 q = w_peer w q"
    by (auto simp: new_peer_def Let_def split: if_splits)
  with ok have "queues_ok w1" unfolding queues_ok_def by (metis le0 list.size(3))
  moreover have "evolves w1 (add_peer env r name w1)" for name by (rule queues.add_peer [OF evolves_refl])
  moreover from this have "evolves w1 (signal_all env (add_peer env r name w1))" for name by (rule queues.signal_all)
  ultimately show ?thesis by (auto simp: join_def n Let_def intro: evolves_ok)
qed

lemma step_queues: "queues_ok w \<Longrightarrow> queues_ok (room_step cx e w)"
proof -
  assume ok: "queues_ok w"
  consider (join) pid f where "e = Join pid f" | (written) r where "e = Written r"
    | (other) "\<forall>pid f. e \<noteq> Join pid f" "\<forall>r. e \<noteq> Written r" by blast
  then show ?thesis
  proof cases
    case join
    then show ?thesis using ok join_queues by (auto split: option.split)
  next
    case written
    then show ?thesis using ok by (auto simp: queues_ok_def intro: order.trans [OF diff_le_self])
  next
    case other
    have "evolves w (w\<lparr>w_tasks := ts\<rparr>)" for ts by (simp add: evolves_def queue_ext_refl)
    from queues.step [OF evolves_refl this other] ok show ?thesis by (rule evolves_ok)
  qed
qed

text \<open>The presence feed: every event a room emits bears the room's own id.\<close>

fun event_room :: "presence_event \<Rightarrow> string" where
  "event_room (PresenceJoined rm i) = rm"
| "event_room (PresenceUpdated rm i) = rm"
| "event_room (PresenceLeft rm p) = rm"

definition feed_ok :: "string \<Rightarrow> world \<Rightarrow> bool" where
  "feed_ok rm w \<longleftrightarrow> w_room_id w = rm \<and> list_all (\<lambda>ev. event_room ev = rm) (w_presence w)"

lemma feed_ok_cong: "w_room_id w' = w_room_id w \<Longrightarrow> w_presence w' = w_presence w \<Longrightarrow> feed_ok rm w \<Longrightarrow> feed_ok rm w'"
  by (simp add: feed_ok_def)

interpretation feed: world_pred "feed_ok rm" for rm
  by unfold_locales
    (auto simp: feed_ok_def presence_def peer_send_def cancel_peer_def Let_def spawn_task_def cancel_grace_def
      split: option.split)

text \<open>What was spawned stays spawned until it runs.\<close>

interpretation pending: world_pred "\<lambda>v. t \<in> set (w_tasks v)" for t
  by unfold_locales
    (auto simp: presence_def peer_send_def cancel_peer_def Let_def spawn_task_def cancel_grace_def split: option.split)

lemma step_feed: "feed_ok rm w \<Longrightarrow> feed_ok rm (room_step cx e w)"
proof -
  assume ok: "feed_ok rm w"
  consider (join) pid f where "e = Join pid f" | (written) r where "e = Written r"
    | (other) "\<forall>pid f. e \<noteq> Join pid f" "\<forall>r. e \<noteq> Written r" by blast
  then show ?thesis
  proof cases
    case join
    have "feed_ok rm (join (cx_env cx) pid h w)" for h
    proof -
      obtain r w1 where n: "new_peer pid h w = (r, w1)" by (cases "new_peer pid h w")
      then have "feed_ok rm w1"
        using ok by (auto simp: new_peer_def Let_def feed_ok_def split: if_splits)
      then show ?thesis by (auto simp: join_def n Let_def intro: feed.add_peer feed.signal_all)
    qed
    then show ?thesis using ok join by (auto split: option.split)
  next
    case written
    then show ?thesis using ok by (simp add: feed_ok_def)
  next
    case other
    have "feed_ok rm (w\<lparr>w_tasks := ts\<rparr>)" for ts using ok by (simp add: feed_ok_def)
    from feed.step [OF ok this other] show ?thesis .
  qed
qed

end
