(* ===== verification/RoomProps.thy ===== *)
theory RoomProps
  imports RoomGrace RoomFrame
begin

text \<open>
  The properties of a room over whole runs: who is in it, who owns a screen session, what the
  queues hold, what lurkers may do, and what the grace window and the eviction do to a session.
\<close>

section \<open>Runs\<close>

definition run_room :: "string \<Rightarrow> (step_ctx \<times> room_event) list \<Rightarrow> world" where
  "run_room rm es = foldl next_world (new_room rm) es"

definition room_run_ok :: "string \<Rightarrow> (step_ctx \<times> room_event) list \<Rightarrow> bool" where
  "room_run_ok rm es = valid_run next_world room_enabled (new_room rm) es"

lemma new_room_inv: "reg_inv (new_room rm)"
  by (simp add: reg_inv_def members_def new_room_def timed_def hwf_def)

lemma run_room_inv: "room_run_ok rm es \<Longrightarrow> reg_inv (run_room rm es)"
  unfolding room_run_ok_def run_room_def by (rule room.inv_run [OF new_room_inv])

lemma run_graces_ok: "graces_ok (run_room rm es)"
proof -
  have "graces_ok (foldl next_world w es)" if "graces_ok w" for w
    using that step_graced by (induction es arbitrary: w) (auto simp: next_world_def graced_def)
  moreover have "graces_ok (new_room rm)" by (simp add: graces_ok_def new_room_def new_session_def)
  ultimately show ?thesis by (simp add: run_room_def)
qed

text \<open>A context and two runs the examples below use.\<close>

definition example_cx :: "nat \<Rightarrow> string \<Rightarrow> step_ctx" where
  "example_cx now token =
     \<lparr>cx_now = now,
      cx_env = \<lparr>re_mids = (\<lambda>_ _. ''m''), re_applied = (\<lambda>_. False), re_offer_sdp = (\<lambda>_ _. [])\<rparr>,
      cx_accepted = True, cx_token = token, cx_setup = Answered (Some Vp9S) ''sdp'', cx_offer = Some ''sdp'', cx_answer = None,
      cx_chat_id = ''c1'', cx_chat_ts = 0, cx_files = (\<lambda>_. None)\<rparr>"

definition joins :: "nat \<Rightarrow> string \<Rightarrow> string \<Rightarrow> bool \<Rightarrow> step_ctx \<times> room_event" where
  "joins now pid client lurks =
     (example_cx now ''t'', Join pid (Envelope ''hello'' (HelloData
       \<lparr>he_display_name = ''n'', he_client_id = client, he_chat_only = lurks\<rparr>)))"

definition shares :: "nat \<Rightarrow> nat \<Rightarrow> string \<Rightarrow> step_ctx \<times> room_event" where
  "shares now r token =
     (example_cx now token, Message r (CShareStart (Some \<lparr>st_sdp = [], st_has_system_audio = False, st_mode = None\<rparr>)))"

section \<open>Membership and ownership\<close>

definition client_ids :: "world \<Rightarrow> string list" where
  "client_ids w = filter (\<lambda>c. c \<noteq> []) (map (\<lambda>e. po_client_id (w_peer w (en_peer e))) (hvals (w_peers w)))"

definition owner_ok :: "world \<Rightarrow> string \<times> entry \<Rightarrow> bool" where
  "owner_ok w pe =
     (case en_screen_session (snd pe) of
        None \<Rightarrow> True
      | Some s \<Rightarrow> so_publisher_id (w_session w s) = fst pe \<and> \<not> so_closed (w_session w s)
                \<and> hget (w_sessions_by_token w) (so_token (w_session w s)) = Some s)"

text \<open>No member owns the session any more, and no token leads to it.\<close>

definition session_gone :: "world \<Rightarrow> nat \<Rightarrow> bool" where
  "session_gone w s \<longleftrightarrow> so_closed (w_session w s) \<and> s \<notin> set (hvals (w_sessions_by_token w))
     \<and> Some s \<notin> set (map en_screen_session (hvals (w_peers w)))"

lemma reg_inv_clients: "reg_inv w \<Longrightarrow> distinct (client_ids w)"
proof -
  assume inv: "reg_inv w"
  have "distinct (filter (\<lambda>c. c \<noteq> []) (map (\<lambda>(p, r, x). po_client_id (w_peer w r)) ms))"
    if "distinct (map fst ms)" "set ms \<subseteq> set (members w)" for ms
    using that
  proof (induction ms)
    case (Cons m ms)
    obtain p r x where m: "m = (p, r, x)" by (cases m)
    have "po_client_id (w_peer w r) \<notin> set (map (\<lambda>(p, r, x). po_client_id (w_peer w r)) ms)"
      if "po_client_id (w_peer w r) \<noteq> []"
    proof
      assume "po_client_id (w_peer w r) \<in> set (map (\<lambda>(p, r, x). po_client_id (w_peer w r)) ms)"
      then obtain p' r' x' where q: "(p', r', x') \<in> set ms" "po_client_id (w_peer w r) = po_client_id (w_peer w r')" by auto
      then have "p \<noteq> p'" using Cons.prems(1) m by force
      moreover have "(p, r, x) \<in> set (members w)" "(p', r', x') \<in> set (members w)" using Cons.prems(2) q m by auto
      ultimately show False using reg_invD(3) [OF inv] that q(2) by blast
    qed
    with Cons m show ?case by auto
  qed simp
  from this [OF reg_invD(1) [OF inv] subset_refl] show ?thesis
    by (simp add: client_ids_def members_def hvals_def comp_def case_prod_unfold)
qed

lemma reg_inv_owner: "reg_inv w \<Longrightarrow> list_all (owner_ok w) (w_peers w)"
proof -
  assume inv: "reg_inv w"
  note i = reg_invD [OF inv]
  have "owner_ok w (p, e)" if "(p, e) \<in> set (w_peers w)" for p e
  proof (cases "en_screen_session e")
    case (Some s)
    then have "(p, en_peer e, Some s) \<in> set (members w)" using that by (force simp: members_def)
    note o' = i(6) [OF this]
    with i(5) i(4) show ?thesis by (auto simp: owner_ok_def Some hget_iff)
  qed (simp add: owner_ok_def)
  then show ?thesis by (auto simp: list_all_iff)
qed

lemma closed_gone: "reg_inv w \<Longrightarrow> so_closed (w_session w s) \<Longrightarrow> session_gone w s"
proof -
  assume inv: "reg_inv w" and c: "so_closed (w_session w s)"
  note i = reg_invD [OF inv]
  have "(t, s) \<notin> set (w_sessions_by_token w)" for t using i(5) c by blast
  moreover from this have "(p, r, Some s) \<notin> set (members w)" for p r using i(6) by blast
  ultimately show ?thesis
    using c by (force simp: session_gone_def hvals_def members_def image_iff)
qed

text \<open>
  C15. A client is in a room once: joining with the client id of a member evicts that member, so
  over every run the non-empty client ids of the members are pairwise different.
\<close>

theorem one_member_per_client:
  "room_run_ok rm es \<Longrightarrow> distinct (client_ids (run_room rm es))"
  by (rule reg_inv_clients [OF run_room_inv])

theorem one_member_per_client_witness:
  "distinct (client_ids (run_room ''r'' [joins 0 ''a'' ''c'' True, joins 1 ''b'' ''c'' True]))"
  by (rule one_member_per_client) code_simp

text \<open>
  C5. Over every run, whoever shows as sharing owns a live session: the session names that member
  as its publisher, is not closed, and is the one its resume token leads to.
\<close>

theorem sessions_have_owners:
  "room_run_ok rm es \<Longrightarrow> list_all (owner_ok (run_room rm es)) (w_peers (run_room rm es))"
  by (rule reg_inv_owner [OF run_room_inv])

theorem sessions_have_owners_witness:
  "list_all (owner_ok (run_room ''r'' [joins 0 ''a'' ''c'' False, shares 0 0 ''t'']))
     (w_peers (run_room ''r'' [joins 0 ''a'' ''c'' False, shares 0 0 ''t'']))"
  by (rule sessions_have_owners) code_simp

section \<open>The grace window\<close>

text \<open>
  C14. A grace timer that was not cancelled waits out its five seconds, and then ends its session:
  closed, reachable by no token and owned by nobody.
\<close>

theorem grace_expires:
  assumes "room_run_ok rm es" and "i < length (w_tasks (run_room rm es))"
    and "w_tasks (run_room rm es) ! i = GraceTimer s tok at"
    and "tok \<notin> set (w_cancelled_graces (run_room rm es))"
  shows "if cx_now cx < at + GRACE_PERIOD then run_room rm (es @ [(cx, Task i)]) = run_room rm es
    else session_gone (run_room rm (es @ [(cx, Task i)])) s"
proof -
  define w where "w = run_room rm es"
  have inv: "reg_inv w" using run_room_inv [OF assms(1)] by (simp add: w_def)
  have step: "run_room rm (es @ [(cx, Task i)]) = next_world w (cx, Task i)" by (simp add: run_room_def w_def)
  show ?thesis
  proof (cases "cx_now cx < at + GRACE_PERIOD")
    case True
    then show ?thesis using assms by (simp add: step next_world_def task_due_def w_def)
  next
    case False
    define v where "v = w\<lparr>w_tasks := take i (w_tasks w) @ drop (Suc i) (w_tasks w)\<rparr>"
    have iv: "reg_inv v" unfolding v_def by (rule reg_inv_core [OF without_task_core inv])
    have "GraceTimer s tok at \<in> set (w_tasks w)" using assms(2,3) unfolding w_def by (metis nth_mem)
    then have "(s, tok) \<in> timed w" unfolding timed_def by blast
    from reg_invD(7) [OF inv this]
    have reg: "so_closed (w_session v s) \<or> (so_token (w_session v s), s) \<in> set (w_sessions_by_token v)"
      by (auto simp: timer_ok_def v_def)
    have "next_world w (cx, Task i) = end_screen_share_session s v"
      using assms False by (simp add: next_world_def task_due_def run_task_def w_def v_def)
    then show ?thesis
      using closed_gone [OF end_session_inv [OF iv reg] end_session_closed [OF iv reg]] False by (simp add: step)
  qed
qed


definition sharer_left :: "(step_ctx \<times> room_event) list" where
  "sharer_left = [joins 0 ''a'' ''c'' False, shares 0 0 ''t'', (example_cx 7 ''t'', Leave 0)]"

lemma sharer_left_ok:
  "room_run_ok ''r'' sharer_left"
  "w_tasks (run_room ''r'' sharer_left) = [GraceTimer 3 5 7]"
  "w_cancelled_graces (run_room ''r'' sharer_left) = []"
  by code_simp+

theorem grace_expires_witness:
  "session_gone (run_room ''r'' (sharer_left @ [(example_cx 5000000007 ''t'', Task 0)])) 3"
  using grace_expires [of "''r''" sharer_left 0 3 5 7 "example_cx 5000000007 ''t''"] sharer_left_ok
  by (simp add: example_cx_def GRACE_PERIOD_def)


text \<open>The session can be resumed, and its own timer, set at the given time, is waiting and not cancelled.\<close>

definition resumable :: "world \<Rightarrow> nat \<Rightarrow> bool" where
  "resumable w s \<longleftrightarrow> \<not> so_closed (w_session w s) \<and> hget (w_sessions_by_token w) (so_token (w_session w s)) = Some s"

definition armed :: "world \<Rightarrow> nat \<Rightarrow> instant \<Rightarrow> bool" where
  "armed w s now \<longleftrightarrow>
     (case so_grace (w_session w s) of
        None \<Rightarrow> False
      | Some tok \<Rightarrow> GraceTimer s tok now \<in> set (w_tasks w) \<and> tok \<notin> set (w_cancelled_graces w))"

lemma reg_inv_resumable: "reg_inv w \<Longrightarrow> (so_token (w_session w s), s) \<in> set (w_sessions_by_token w) \<Longrightarrow> resumable w s"
  using hget_iff [OF reg_invD(4)] reg_invD(5) unfolding resumable_def by blast

lemma start_grace_arms:
  "\<not> so_closed (w_session w s) \<Longrightarrow> graces_ok w \<Longrightarrow> armed (start_screen_share_grace s now w) s now"
  by (fastforce simp: start_screen_share_grace_def Let_def armed_def spawn_task_def cancel_grace_def set_session_def
    graces_ok_def split: option.split)

lemma armed_registry: "same_registry w w' \<Longrightarrow> armed w' s now = armed w s now"
  by (simp add: armed_def same_registry_def registry_def split: option.split)

lemma remove_peer_arms:
  assumes "reg_inv w" and "hget (w_peers w) pid = Some e" and "en_screen_session e = Some s" and "graces_ok w"
  shows "armed (remove_peer env now pid w) s now \<and> resumable (remove_peer env now pid w) s"
proof -
  define w2 where "w2 = close_entry_subs e (w\<lparr>w_peers := hdel pid (w_peers w), w_tracks := hdel pid (w_tracks w)\<rparr>)"
  have t: "(so_token (w_session w2 s), s) \<in> set (w_sessions_by_token w2)"
    by (rule close_entry_subs_session [OF assms(1-3) w2_def])
  have i2: "reg_inv w2"
    unfolding w2_def
    using reg_inv_core [OF close_entry_subs_core drop_members_inv [OF assms(1), where K = "{pid}"]]
    by (simp add: hdel_filter [of pid "w_peers w"])
  have c: "\<not> so_closed (w_session w2 s)" using reg_invD(5) [OF i2 t] by blast
  have g2: "graces_ok w2"
    using graced_trans [OF graced_writes(2) graced.close_entry_subs] assms(4) unfolding w2_def graced_def by blast
  define w3 where "w3 = start_screen_share_grace s now w2"
  have "reg_inv w3" unfolding w3_def by (rule start_grace_inv [OF i2]) (use t in blast)
  moreover have "(so_token (w_session w3 s), s) \<in> set (w_sessions_by_token w3)"
    using t c by (simp add: w3_def start_screen_share_grace_def Let_def spawn_task_def cancel_grace_def set_session_def
      split: option.split)
  ultimately have "resumable w3 s" by (rule reg_inv_resumable)
  moreover have "armed w3 s now" unfolding w3_def using c g2 by (rule start_grace_arms)
  moreover have "same_registry w3 (remove_peer env now pid w)"
    using remove_peer_tail [OF assms(2), of now env] assms(3) by (simp add: after_grace_def w3_def w2_def)
  ultimately show ?thesis
    by (simp add: armed_registry) (simp add: resumable_def same_registry_def registry_def)
qed

text \<open>
  C34. When a publisher leaves, its session outlives it: it stays open under its resume token and
  its own five-second timer, set at that moment, is running, that is spawned and not cancelled.
\<close>

theorem publisher_leaves:
  assumes "room_run_ok rm es" and "hget (w_peers (run_room rm es)) (po_id (w_peer (run_room rm es) r)) = Some e"
    and "en_screen_session e = Some s"
  shows "resumable (run_room rm (es @ [(cx, Leave r)])) s \<and> armed (run_room rm (es @ [(cx, Leave r)])) s (cx_now cx)"
proof -
  define w where "w = run_room rm es"
  define w1 where "w1 = remove_peer (cx_env cx) (cx_now cx) (po_id (w_peer w r)) (cancel_peer r w)"
  have "reg_inv (cancel_peer r w)"
    using run_room_inv [OF assms(1)] unfolding w_def by (rule reg_inv_core [OF quiet_core(2)])
  moreover have "graces_ok (cancel_peer r w)"
    using run_graces_ok [of rm es] graced.cancel unfolding w_def graced_def by blast
  moreover have "w_peers (cancel_peer r w) = w_peers w" by (simp add: cancel_peer_def)
  ultimately have w1: "armed w1 s (cx_now cx)" "resumable w1 s"
    unfolding w1_def using remove_peer_arms assms(2,3) by (auto simp: w_def)
  have close: "armed (audio_close env a w1) s (cx_now cx) \<and> resumable (audio_close env a w1) s" for env a
    using w1 pending.audio_close [where v = w1] same_core_sel(2,4,5,12) [OF audio_close_core [of w1 env a]]
      timers.audio_close [of env a w1]
    by (auto simp: armed_def resumable_def split: option.splits)
  have "run_room rm (es @ [(cx, Leave r)]) = leave (cx_env cx) (cx_now cx) r w"
    by (simp add: run_room_def next_world_def w_def)
  also have "\<dots> = (case po_audio (w_peer w1 r) of None \<Rightarrow> w1 | Some a \<Rightarrow> audio_close (cx_env cx) a w1)"
    by (simp only: leave_def w1_def Let_def)
  finally show ?thesis using w1 close by (simp split: option.split)
qed

definition one_sharer :: "(step_ctx \<times> room_event) list" where
  "one_sharer = [joins 0 ''a'' ''c'' False, shares 0 0 ''t'']"

lemma one_sharer_ok:
  "room_run_ok ''r'' one_sharer"
  "map_option en_screen_session (hget (w_peers (run_room ''r'' one_sharer)) (po_id (w_peer (run_room ''r'' one_sharer) 0)))
     = Some (Some 3)"
  by code_simp+

theorem publisher_leaves_witness:
  "resumable (run_room ''r'' (one_sharer @ [(example_cx 7 ''t'', Leave 0)])) 3
   \<and> armed (run_room ''r'' (one_sharer @ [(example_cx 7 ''t'', Leave 0)])) 3 7"
proof -
  from one_sharer_ok(2) obtain e where
    "hget (w_peers (run_room ''r'' one_sharer)) (po_id (w_peer (run_room ''r'' one_sharer) 0)) = Some e"
    "en_screen_session e = Some 3" by auto
  from publisher_leaves [OF one_sharer_ok(1) this, of "example_cx 7 ''t''"] show ?thesis
    by (simp add: example_cx_def)
qed


text \<open>Every timer of the session is cancelled.\<close>

definition timers_cancelled :: "world \<Rightarrow> nat \<Rightarrow> bool" where
  "timers_cancelled w s =
     list_all (\<lambda>t. case t of GraceTimer s' tok at \<Rightarrow> s' = s \<longrightarrow> tok \<in> set (w_cancelled_graces w) | _ \<Rightarrow> True) (w_tasks w)"

lemma no_grace_cancelled:
  assumes "reg_inv w" and "\<not> so_closed (w_session w s)" and "so_grace (w_session w s) = None"
  shows "timers_cancelled w s"
proof -
  have "tok \<in> set (w_cancelled_graces w)" if "GraceTimer s tok at \<in> set (w_tasks w)" for tok at
  proof -
    from that have "(s, tok) \<in> timed w" by (auto simp: timed_def)
    with reg_invD(7) [OF assms(1) this] assms(2,3) show ?thesis by (simp add: timer_ok_def)
  qed
  then show ?thesis by (auto simp: timers_cancelled_def list_all_iff split: room_task.split)
qed

lemma resume_taken:
  assumes inv: "reg_inv w" and "hget (w_sessions_by_token w) token = Some s" and pid: "pid = po_id (w_peer w r)"
    and "hget (w_peers w) pid = Some e" and "en_screen_session e = None"
    and gone: "hget (w_peers w) (so_publisher_id (w_session w s)) = None"
  shows "session_of (handle_screen_share_resume r token w) pid = Some s
    \<and> resumable (handle_screen_share_resume r token w) s
    \<and> timers_cancelled (handle_screen_share_resume r token w) s"
proof -
  define w2 where "w2 = cancel_grace (so_grace (w_session w s)) (set_entry pid (e\<lparr>en_screen_session := Some s\<rparr>)
      (set_session s ((w_session w s)\<lparr>so_publisher_id := pid, so_grace := None, so_subscribers := []\<rparr>) w))"
  define w' where "w' = handle_screen_share_resume r token w"
  have reg: "(token, s) \<in> set (w_sessions_by_token w)" by (rule hget_SomeD [OF assms(2)])
  note tok = reg_invD(5) [OF inv reg]
  have c: "same_core w2 w'"
    unfolding w2_def w'_def pid by (rule resume_core [OF assms(2) assms(4) [unfolded pid]]) (use tok gone assms(5) in simp_all)
  have i': "reg_inv w'" unfolding w'_def by (rule resume_inv [OF inv])
  have s2: "so_grace (w_session w2 s) = None" "so_token (w_session w2 s) = token" "\<not> so_closed (w_session w2 s)"
    "w_sessions_by_token w2 = w_sessions_by_token w" "hget (w_peers w2) pid = Some (e\<lparr>en_screen_session := Some s\<rparr>)"
    using tok by (auto simp: w2_def cancel_grace_def set_entry_def set_session_def hashmap_laws split: option.split)
  have s': "so_grace (w_session w' s) = None" "\<not> so_closed (w_session w' s)"
    "(so_token (w_session w' s), s) \<in> set (w_sessions_by_token w')"
    using s2 reg same_core_sel(2,4,5,12) [OF c] by simp_all
  have "(pid, en_peer e, Some s) \<in> set (members w')"
    using member_of [OF s2(5)] same_core_sel(1) [OF c] by simp
  then have "session_of w' pid = Some s"
    using member_iff [OF reg_invD(1) [OF i']] by (auto simp: session_of_def)
  moreover have "resumable w' s" by (rule reg_inv_resumable [OF i' s'(3)])
  moreover have "timers_cancelled w' s" by (rule no_grace_cancelled [OF i' s'(2,1)])
  ultimately show ?thesis by (simp add: w'_def)
qed

text \<open>
  C6. Resuming in time: a member that shows the resume token of a session whose publisher is gone
  becomes its owner, the session stays open under the same token, and no grace timer of it is
  left running, so nothing that was armed before can end it.
\<close>

theorem resume_beats_timer:
  assumes "room_run_ok rm es" and "hget (w_sessions_by_token (run_room rm es)) token = Some s"
    and "hget (w_peers (run_room rm es)) (po_id (w_peer (run_room rm es) r)) = Some e"
    and "en_screen_session e = None" and "\<not> po_chat_only (w_peer (run_room rm es) r)"
    and "hget (w_peers (run_room rm es)) (so_publisher_id (w_session (run_room rm es) s)) = None"
  shows "let w' = run_room rm (es @ [(cx, Message r (CShareResume (Some token)))])
    in session_of w' (po_id (w_peer (run_room rm es) r)) = Some s \<and> resumable w' s \<and> timers_cancelled w' s"
  using resume_taken [OF run_room_inv [OF assms(1)] assms(2) refl assms(3,4,6)] assms(5)
  by (simp add: run_room_def next_world_def handle_client_message_def)

definition sharer_back :: "(step_ctx \<times> room_event) list" where
  "sharer_back = sharer_left @ [joins 8 ''b'' ''c'' False]"

lemma sharer_back_ok:
  "room_run_ok ''r'' sharer_back"
  "(let w = run_room ''r'' sharer_back
    in (hget (w_sessions_by_token w) ''t'', map_option en_screen_session (hget (w_peers w) (po_id (w_peer w 6))),
        po_chat_only (w_peer w 6), hget (w_peers w) (so_publisher_id (w_session w 3)) = None))
   = (Some 3, Some None, False, True)"
  by code_simp+

theorem resume_beats_timer_witness:
  "let w' = run_room ''r'' (sharer_back @ [(example_cx 9 ''t'', Message 6 (CShareResume (Some ''t'')))])
   in session_of w' (po_id (w_peer (run_room ''r'' sharer_back) 6)) = Some 3 \<and> resumable w' 3 \<and> timers_cancelled w' 3"
proof -
  from sharer_back_ok(2) obtain e where
    "hget (w_peers (run_room ''r'' sharer_back)) (po_id (w_peer (run_room ''r'' sharer_back) 6)) = Some e"
    "en_screen_session e = None" by (auto simp: Let_def)
  then show ?thesis
    using sharer_back_ok(2) by (intro resume_beats_timer [OF sharer_back_ok(1)]) (simp_all add: Let_def)
qed


lemma evict_sessions:
  "evict cid w = (evs, w1) \<Longrightarrow> w_session w1 = w_session w \<and> w_sessions_by_token w1 = w_sessions_by_token w
    \<and> w_tasks w1 = w_tasks w \<and> w_cancelled_graces w1 = w_cancelled_graces w"
  by (auto simp: evict_def Let_def split: if_splits)

lemma join_sessions:
  assumes "reg_inv w" and "hget (w_peers w) pid = None"
    and "w' = join env pid h w" and "hget (w_peers w) p = Some e" and "he_client_id h \<noteq> []"
    and "po_client_id (w_peer w (en_peer e)) = he_client_id h"
  shows "w_sessions_by_token w' = w_sessions_by_token w \<and> session_core w' = session_core w \<and> hget (w_peers w') p = None"
proof -
  obtain r w0 where n: "new_peer pid h w = (r, w0)" by (cases "new_peer pid h w")
  note i0 = new_peer_inv [OF assms(1) n]
  have s0: "w_session w0 = w_session w" "w_sessions_by_token w0 = w_sessions_by_token w" "r = w_next w"
    "q \<noteq> w_next w \<Longrightarrow> w_peer w0 q = w_peer w q" for q
    using n by (auto simp: new_peer_def Let_def split: if_splits)
  obtain evs w1 where ev: "evict (po_client_id (w_peer w0 r)) w0 = (evs, w1)"
    by (cases "evict (po_client_id (w_peer w0 r)) w0")
  from i0 have "reg_inv w0" by blast
  note e1 = evict_inv [OF this ev] and es = evict_sessions [OF ev]
  have mem: "(p, en_peer e, en_screen_session e) \<in> set (members w0)" using member_of [OF assms(4)] i0 by simp
  have "en_peer e < w_next w" using reg_invD(2) [OF assms(1) member_of [OF assms(4)]] by blast
  then have pe: "w_peer w0 (en_peer e) = w_peer w (en_peer e)" using s0(4) by simp
  have p1: "(p, q, so) \<notin> set (members w1)" for q so
  proof
    assume m: "(p, q, so) \<in> set (members w1)"
    then have "(p, q, so) \<in> set (members w0)" using e1 by blast
    with mem have "q = en_peer e"
      using reg_invD(1) [OF \<open>reg_inv w0\<close>] by (metis (no_types) eq_key_imp_eq_value prod.inject)
    moreover have "he_client_id h \<noteq> [] \<longrightarrow> po_client_id (w_peer w0 q) \<noteq> he_client_id h" using e1 m i0 by fastforce
    ultimately show False using assms(5,6) pe by simp
  qed
  have ne: "p \<noteq> pid" using assms(2,4) by auto
  let ?w2 = "set_entry (po_id (w_peer w1 r)) (new_entry r (he_display_name h)) w1"
  have c: "same_core ?w2 (add_peer env r (he_display_name h) w0)" by (rule add_peer_core [OF ev])
  have cj: "same_core ?w2 w'"
    using c same_core_trans [OF c quiet_core(8)] by (simp add: assms(3) join_def n Let_def)
  have "reg_inv w'" unfolding assms(3) by (rule join_inv [OF assms(1,2)])
  note mi = member_iff [OF reg_invD(1) [OF this]]
  have "po_id (w_peer w1 r) = pid" using e1 i0 by simp
  then have k: "hget (w_peers ?w2) p = hget (w_peers w1) p" using ne by (simp add: set_entry_def hashmap_laws)
  have "hget (w_peers w') p = None"
  proof (rule ccontr)
    assume "hget (w_peers w') p \<noteq> None"
    then obtain q so where "(p, q, so) \<in> set (members w')" using mi by auto
    then have "(p, q, so) \<in> set (members ?w2)" using same_core_sel(1) [OF cj] by simp
    then have "p \<in> fst ` set (w_peers ?w2)" by (force simp: members_def)
    then have "hget (w_peers w1) p \<noteq> None" unfolding k [symmetric] hget_None_iff by blast
    then show False using p1 member_of by fastforce
  qed
  moreover have "session_core ?w2 = session_core w" "w_sessions_by_token ?w2 = w_sessions_by_token w"
    using es s0 by (simp_all add: session_core_def set_entry_def fun_eq_iff)
  ultimately show ?thesis using cj by (simp add: same_core_def)
qed


text \<open>
  A publisher that reconnects with its client id evicts its own old peer. The session it
  published stays open under its token, but no timer waits for it: none is set by the eviction,
  nor by the teardown of the old connection, which finds its peer gone.
\<close>

theorem evicted_session_untimed:
  assumes "room_run_ok rm es" and "hget (w_peers (run_room rm es)) pid = None"
    and "hget (w_peers (run_room rm es)) p = Some e" and "en_screen_session e = Some s"
    and "so_grace (w_session (run_room rm es) s) = None"
    and "he_client_id h = po_client_id (w_peer (run_room rm es) (en_peer e))" and "he_client_id h \<noteq> []"
  shows "let w' = run_room rm (es @ [(cx, Join pid (Envelope ''hello'' (HelloData h)))])
    in hget (w_peers w') p = None \<and> resumable w' s \<and> timers_cancelled w' s \<and> remove_peer env now p w' = w'"
proof -
  define w where "w = run_room rm es"
  define w' where "w' = join (cx_env cx) pid h w"
  have inv: "reg_inv w" using run_room_inv [OF assms(1)] by (simp add: w_def)
  have inv': "reg_inv w'"
    unfolding w'_def by (rule join_inv [OF inv]) (use assms(2) in \<open>simp add: w_def\<close>)
  have j: "w_sessions_by_token w' = w_sessions_by_token w" "session_core w' = session_core w" "hget (w_peers w') p = None"
    using join_sessions [OF inv _ w'_def, of p e] assms(2,3,6,7) by (simp_all add: w_def)
  have reg: "(so_token (w_session w s), s) \<in> set (w_sessions_by_token w)"
    using reg_invD(6) [OF inv] member_of [OF assms(3)] assms(4) by (auto simp: w_def)
  have s': "so_token (w_session w' s) = so_token (w_session w s)" "so_closed (w_session w' s) = so_closed (w_session w s)"
    "so_grace (w_session w' s) = so_grace (w_session w s)"
    using fun_cong [OF j(2), of s] by (simp_all add: session_core_def)
  have "resumable w' s" using reg_inv_resumable [OF inv'] reg j(1) s'(1) by simp
  moreover have "timers_cancelled w' s"
    by (rule no_grace_cancelled [OF inv']) (use reg_invD(5) [OF inv reg] s' assms(5) in \<open>simp_all add: w_def\<close>)
  ultimately show ?thesis
    using j(3) by (simp add: run_room_def next_world_def w'_def w_def remove_peer_def)
qed

lemma one_sharer_facts:
  "(let w = run_room ''r'' one_sharer
    in (hget (w_peers w) ''b'' = None, map_option en_screen_session (hget (w_peers w) ''a''), so_grace (w_session w 3),
        map_option (\<lambda>e. po_client_id (w_peer w (en_peer e))) (hget (w_peers w) ''a'')))
   = (True, Some (Some 3), None, Some ''c'')"
  by code_simp

theorem evicted_session_untimed_witness:
  "let w' = run_room ''r'' (one_sharer @ [(example_cx 9 ''t'', Join ''b'' (Envelope ''hello''
       (HelloData \<lparr>he_display_name = ''n'', he_client_id = ''c'', he_chat_only = False\<rparr>)))])
   in hget (w_peers w') ''a'' = None \<and> resumable w' 3 \<and> timers_cancelled w' 3
      \<and> remove_peer (cx_env (example_cx 9 ''t'')) 9 ''a'' w' = w'"
proof -
  from one_sharer_facts obtain e where e: "hget (w_peers (run_room ''r'' one_sharer)) ''a'' = Some e"
    "en_screen_session e = Some 3" "po_client_id (w_peer (run_room ''r'' one_sharer) (en_peer e)) = ''c''"
    by (auto simp: Let_def)
  then show ?thesis
    using one_sharer_facts by (intro evicted_session_untimed [OF one_sharer_ok(1) _ e(1,2)]) (simp_all add: Let_def)
qed


section \<open>Queues\<close>

text \<open>
  Over every run no peer's queue holds more than its bound of messages, whatever the handlers
  send and however slowly the peer's socket drains.
\<close>

theorem queues_bounded:
  "length (po_out (w_peer (run_room rm es) r)) \<le> PEER_OUT_BUF_LEN"
proof -
  have "queues_ok (foldl next_world w es)" if "queues_ok w" for w
    using that by (induction es arbitrary: w) (auto simp: next_world_def intro: step_queues)
  moreover have "queues_ok (new_room rm)" by (simp add: queues_ok_def new_room_def)
  ultimately have "queues_ok (run_room rm es)" by (simp add: run_room_def)
  then show ?thesis by (simp add: queues_ok_def)
qed

lemma join_evolves:
  assumes "r < w_next w"
  shows "queue_ext (w_peer w r) (w_peer (join env pid h w) r)"
proof -
  obtain q w1 where n: "new_peer pid h w = (q, w1)" by (cases "new_peer pid h w")
  with assms have old: "w_peer w1 r = w_peer w r" by (auto simp: new_peer_def Let_def split: if_splits)
  have "evolves w1 (add_peer env q name w1)" for name by (rule queues.add_peer [OF evolves_refl])
  moreover from this have "evolves w1 (signal_all env (add_peer env q name w1))" for name by (rule queues.signal_all)
  ultimately have "evolves w1 (join env pid h w)" by (simp add: join_def n Let_def)
  then have "queue_ext (w_peer w1 r) (w_peer (join env pid h w) r)" by (simp add: evolves_def)
  then show ?thesis by (simp only: old)
qed

text \<open>
  C16. Messages to a peer are not reordered, taken back or overwritten: whatever a step of the room
  does to the queue of a peer that is there, joins with their evictions included, it only adds
  messages at its end, and never beyond the bound; writing a message to the socket takes the first
  one. A peer that was cancelled, as one is that overran its queue, stays so and is sent nothing
  more.
\<close>

theorem queues_in_order:
  assumes "r < w_next w"
    and "queue = (if ev = Written r then tl (po_out (w_peer w r)) else po_out (w_peer w r))"
    and "p' = w_peer (room_step cx ev w) r"
  shows "prefix queue (po_out p') \<and> (length queue \<le> PEER_OUT_BUF_LEN \<longrightarrow> length (po_out p') \<le> PEER_OUT_BUF_LEN)
    \<and> (po_cancelled (w_peer w r) \<longrightarrow> po_cancelled p' \<and> po_out p' = queue)"
proof -
  consider (join) pid f where "ev = Join pid f" | (written) q where "ev = Written q"
    | (other) "\<forall>pid f. ev \<noteq> Join pid f" "\<forall>q. ev \<noteq> Written q" by blast
  then show ?thesis
  proof cases
    case join
    then have "queue_ext (w_peer w r) p'"
      using join_evolves [OF assms(1)] by (simp add: assms(3) queue_ext_refl split: option.split)
    with join show ?thesis by (auto simp: assms(2) queue_ext_def)
  next
    case written
    then show ?thesis by (auto simp: assms(2,3))
  next
    case other
    have "evolves w (w\<lparr>w_tasks := ts\<rparr>)" for ts by (simp add: evolves_def queue_ext_refl)
    from queues.step [OF evolves_refl this other] have "queue_ext (w_peer w r) p'" by (simp add: assms(3) evolves_def)
    with other(2) show ?thesis by (auto simp: assms(2) queue_ext_def)
  qed
qed

text \<open>A client that comes again evicts its old connection; the other member is told of both.\<close>

definition two_lurkers :: "(step_ctx \<times> room_event) list" where
  "two_lurkers = [joins 0 ''a'' ''c'' True, joins 1 ''b'' ''d'' True]"

lemma two_lurkers_facts:
  "w_next (run_room ''r'' two_lurkers) = 6" "po_cancelled (w_peer (run_room ''r'' two_lurkers) 0) = False"
  "room_run_ok ''r'' two_lurkers"
  "let w' = next_world (run_room ''r'' two_lurkers) (joins 2 ''x'' ''d'' True)
   in length (po_out (w_peer w' 0)) = length (po_out (w_peer (run_room ''r'' two_lurkers) 0)) + 2 \<and> po_cancelled (w_peer w' 3)"
  "let w = run_room ''r'' two_lurkers
   in (map_option en_display_name (hget (w_peers w) (po_id (w_peer w 3))), map_option en_peer (hget (w_peers w) ''a''),
       po_rx_closed (w_peer w 0), length (po_out (w_peer w 0)) < PEER_OUT_BUF_LEN) = (Some ''n'', Some 0, False, True)"
  by code_simp+

theorem queues_in_order_witness:
  "let w = run_room ''r'' two_lurkers; w' = next_world w (joins 2 ''x'' ''d'' True)
   in prefix (po_out (w_peer w 0)) (po_out (w_peer w' 0)) \<and> length (po_out (w_peer w' 0)) = length (po_out (w_peer w 0)) + 2
      \<and> po_cancelled (w_peer w' 3)"
proof -
  let ?w = "run_room ''r'' two_lurkers"
  have "0 < w_next ?w" by (simp only: two_lurkers_facts(1))
  from queues_in_order [OF this refl refl, of "snd (joins 2 ''x'' ''d'' True)" "fst (joins 2 ''x'' ''d'' True)"] two_lurkers_facts(4)
  show ?thesis by (simp add: Let_def next_world_def) (simp add: joins_def)
qed

section \<open>Chat, pings and lurkers\<close>

text \<open>What is sent for a chat message, if anything is; and a peer that is sent a message.\<close>

definition chat_of :: "step_ctx \<Rightarrow> nat \<Rightarrow> chat_send \<Rightarrow> world \<Rightarrow> chat option" where
  "chat_of cx r cs w =
     (let text = trim (cs_text cs); atts = (case cs_attachments cs of Some as \<Rightarrow> as | None \<Rightarrow> [])
      in case hget (w_peers w) (po_id (w_peer w r)) of
           None \<Rightarrow> None
         | Some e \<Rightarrow>
             if en_display_name e \<noteq> [] \<and> (text \<noteq> [] \<or> atts \<noteq> []) \<and> length text \<le> CHAT_MAX_BYTES
                \<and> (atts \<noteq> [] \<longrightarrow> length atts \<le> CHAT_MAX_ATTACHMENTS)
                \<and> (\<forall>a \<in> set atts. att_upload_id a \<noteq> [] \<and> att_mime a \<noteq> [] \<and> cx_files cx (att_upload_id a) = Some (w_room_id w))
             then Some \<lparr>ch_id = cx_chat_id cx, ch_from = po_id (w_peer w r), ch_text = text, ch_ts = cx_chat_ts cx,
                        ch_client_msg_id = cs_client_msg_id cs, ch_sender_name = en_display_name e, ch_attachments = atts\<rparr>
             else None)"

definition got :: "server_msg \<Rightarrow> peer_obj \<Rightarrow> peer_obj" where
  "got m p =
     (if po_cancelled p \<or> po_rx_closed p then p
      else if length (po_out p) < PEER_OUT_BUF_LEN then p\<lparr>po_out := po_out p @ [m]\<rparr>
      else p\<lparr>po_cancelled := True\<rparr>)"

lemma peer_send_got: "peer_send r m w = w\<lparr>w_peer := (w_peer w)(r := got m (w_peer w r))\<rparr>"
  by (simp add: peer_send_def got_def Let_def)

lemma broadcast_got:
  "distinct rs \<Longrightarrow> broadcast rs m w = w\<lparr>w_peer := (\<lambda>q. if q \<in> set rs then got m (w_peer w q) else w_peer w q)\<rparr>"
proof (induction rs arbitrary: w)
  case (Cons r rs)
  then have "broadcast (r # rs) m w = broadcast rs m (w\<lparr>w_peer := (w_peer w)(r := got m (w_peer w r))\<rparr>)"
    by (simp add: broadcast_def peer_send_got)
  also have "\<dots> = w\<lparr>w_peer := (\<lambda>q. if q \<in> set (r # rs) then got m (w_peer w q) else w_peer w q)\<rparr>"
    using Cons by (auto simp: fun_eq_iff)
  finally show ?case .
qed (simp add: broadcast_def)

lemma all_peers_distinct: "reg_inv w \<Longrightarrow> distinct (all_peers w)"
proof -
  assume inv: "reg_inv w"
  have "distinct (map (\<lambda>(pid, r, so). po_id (w_peer w r)) (members w))"
  proof -
    have ids: "map (\<lambda>(pid, r, so). po_id (w_peer w r)) (members w) = map fst (members w)"
      by (rule map_cong [OF refl]) (use reg_invD(2) [OF inv] in auto)
    show ?thesis unfolding ids by (rule reg_invD(1) [OF inv])
  qed
  then have "distinct (map (\<lambda>r. po_id (w_peer w r)) (all_peers w))"
    by (simp add: members_def all_peers_def hvals_def comp_def case_prod_unfold)
  then show ?thesis by (simp add: distinct_map)
qed

text \<open>
  C40. A chat message reaches everybody, once: in any room that came about, a message of a member
  with a name, within the limits on its text and attachments, and with attachments that the file
  store holds for this room, is put at the end of the queue of every member, the sender included,
  under the sender's own id and name; only a member already cancelled or gone is left out, and one
  whose queue is full is cancelled. Any other message changes nothing, and nothing else changes.
\<close>

theorem chat_reaches_everyone:
  assumes "room_run_ok rm es" and "w = run_room rm es"
  shows "room_step cx (Message r (CChatSend (Some cs))) w =
    w\<lparr>w_peer := (\<lambda>q. case chat_of cx r cs w of
        Some c \<Rightarrow> if \<exists>pid e. hget (w_peers w) pid = Some e \<and> en_peer e = q then got (ChatMsg c) (w_peer w q) else w_peer w q
      | None \<Rightarrow> w_peer w q)\<rparr>"
proof -
  have inv: "reg_inv w" using run_room_inv [OF assms(1)] assms(2) by simp
  have d: "hwf (w_peers w)" using reg_invD(1) [OF inv] by (simp add: members_hget)
  have member: "q \<in> set (all_peers w) \<longleftrightarrow> (\<exists>pid e. hget (w_peers w) pid = Some e \<and> en_peer e = q)" for q
    by (force simp: all_peers_def hvals_def hget_iff [OF d])
  have "room_step cx (Message r (CChatSend (Some cs))) w
      = broadcast_chat (cx_files cx) (cx_chat_id cx) (cx_chat_ts cx) r cs w"
    by (simp add: handle_client_message_def is_chat_msg.simps)
  also have "\<dots> = (case chat_of cx r cs w of Some c \<Rightarrow> broadcast (all_peers w) (ChatMsg c) w | None \<Rightarrow> w)"
    by (auto simp: broadcast_chat_def chat_of_def attachments_valid_def Let_def list_all_iff split: option.split)
  finally show ?thesis by (simp add: broadcast_got [OF all_peers_distinct [OF inv]] member split: option.split)
qed

theorem chat_reaches_everyone_witness:
  "po_out (w_peer (room_step (example_cx 5 ''t'') (Message 3 (CChatSend (Some \<lparr>cs_text = ''hi'', cs_client_msg_id = [],
      cs_attachments = None\<rparr>))) (run_room ''r'' two_lurkers)) 0)
   = po_out (w_peer (run_room ''r'' two_lurkers) 0) @ [ChatMsg (the (chat_of (example_cx 5 ''t'') 3 \<lparr>cs_text = ''hi'',
      cs_client_msg_id = [], cs_attachments = None\<rparr> (run_room ''r'' two_lurkers)))]"
proof -
  let ?w = "run_room ''r'' two_lurkers" and ?cs = "\<lparr>cs_text = ''hi'', cs_client_msg_id = [], cs_attachments = None\<rparr>"
  obtain e where e: "hget (w_peers ?w) (po_id (w_peer ?w 3)) = Some e" "en_display_name e = ''n''"
    using two_lurkers_facts(5) by (auto simp: Let_def)
  obtain e0 where e0: "hget (w_peers ?w) ''a'' = Some e0" "en_peer e0 = 0"
    using two_lurkers_facts(5) by (auto simp: Let_def)
  have q: "\<not> po_rx_closed (w_peer ?w 0)" "length (po_out (w_peer ?w 0)) < PEER_OUT_BUF_LEN"
    using two_lurkers_facts(5) by (auto simp: Let_def)
  have t: "trim ''hi'' = ''hi''" by (rule trim_graphic) (simp add: graphic_def)
  have m: "\<exists>pid e. hget (w_peers ?w) pid = Some e \<and> en_peer e = 0" using e0 by blast
  obtain c where c: "chat_of (example_cx 5 ''t'') 3 ?cs ?w = Some c" by (simp add: chat_of_def e t CHAT_MAX_BYTES_def)
  show ?thesis
    unfolding chat_reaches_everyone [OF two_lurkers_facts(3) refl, of "example_cx 5 ''t''" 3 ?cs]
    by (simp add: c m q two_lurkers_facts(2) got_def)
qed

text \<open>
  A delivered ping protects its target for ten seconds: within them no ping by anybody to
  the same target has any effect.
\<close>

theorem ping_cooldown:
  assumes "hget (w_peers w) target = Some t" and "\<not> cooling PING_COOLDOWN now (en_last_ping_received t)"
    and "target \<noteq> []" and "target \<noteq> po_id (w_peer w r)" and "later < now + PING_COOLDOWN"
  shows "handle_ping later q target (handle_ping now r target w) = handle_ping now r target w"
proof -
  define w1 where "w1 = handle_ping now r target w"
  obtain m where w1: "w1 = peer_send (en_peer t) m (set_entry target (t\<lparr>en_last_ping_received := Some now\<rparr>) w)"
    using assms by (simp add: w1_def handle_ping_def Let_def)
  then have "hget (w_peers w1) target = Some (t\<lparr>en_last_ping_received := Some now\<rparr>)"
    using peer_send_quiet [of "set_entry target (t\<lparr>en_last_ping_received := Some now\<rparr>) w" "en_peer t" m]
    by (simp add: same_registry_def registry_def set_entry_def hashmap_laws)
  moreover have "later - now < PING_COOLDOWN" using assms(5) by (simp add: PING_COOLDOWN_def)
  ultimately have "handle_ping later q target w1 = w1"
    by (simp add: handle_ping_def Let_def cooling_def)
  then show ?thesis by (simp add: w1_def)
qed

theorem ping_cooldown_witness:
  "let w = run_room ''r'' [joins 0 ''a'' ''c'' True]
   in handle_ping 9 0 ''a'' (handle_ping 5 7 ''a'' w) = handle_ping 5 7 ''a'' w"
proof -
  have f: "(let w = run_room ''r'' [joins 0 ''a'' ''c'' True]
      in (map_option en_last_ping_received (hget (w_peers w) ''a''), po_id (w_peer w 7) = ''a'')) = (Some None, False)"
    by code_simp
  then obtain t where "hget (w_peers (run_room ''r'' [joins 0 ''a'' ''c'' True])) ''a'' = Some t"
    "en_last_ping_received t = None" by (auto simp: Let_def)
  with f show ?thesis
    unfolding Let_def by (intro ping_cooldown) (auto simp: cooling_def PING_COOLDOWN_def)
qed

text \<open>What carries media: tracks, audio peers, screen sessions with their tokens, viewers and PCs, and spawned work.\<close>

definition media :: "world \<Rightarrow> (string, nat) hashmap \<times> (string, nat) hashmap \<times> (nat \<Rightarrow> audio_obj) \<times> (nat \<Rightarrow> audio_track)
    \<times> (nat \<Rightarrow> session_obj) \<times> (nat \<Rightarrow> sub_obj) \<times> (nat \<Rightarrow> pc_obj) \<times> room_task list" where
  "media w = (w_tracks w, w_sessions_by_token w, w_audio w, w_trk w, w_session w, w_sub w, w_pc w, w_tasks w)"

lemma media_send: "media (peer_send r m w) = media w"
  by (simp add: media_def peer_send_def Let_def)

lemma media_broadcast: "media (broadcast rs m w) = media w"
  unfolding broadcast_def by (induction rs arbitrary: w) (simp_all add: media_send)

lemma media_set_entry: "media (set_entry pid e w) = media w"
  by (simp add: media_def set_entry_def)

lemma media_chat: "media (broadcast_chat files cid ts r cs w) = media w"
  by (simp add: broadcast_chat_def Let_def media_broadcast split: option.split)

text \<open>
  A lurker only chats and pings: no message it sends touches a track, an audio slot, a screen
  session, a viewer or a PeerConnection, or starts any work in the room.
\<close>

theorem lurkers_confined:
  assumes "po_chat_only (w_peer w r)"
  shows "media (handle_client_message cx r m w) = media w"
proof -
  have ping: "media (handle_ping now r to w) = media w" for now to
    by (simp add: handle_ping_def Let_def media_send media_set_entry split: option.split)
  have del: "media (broadcast_chat_delete mid w) = media w" for mid
    by (simp add: broadcast_chat_delete_def media_broadcast)
  show ?thesis
  proof (cases "is_chat_msg m")
    case True
    then show ?thesis
      using media_chat del by (cases "(cx, r, m, w)" rule: dispatch.cases)
        (auto simp: handle_client_message_def split: option.split)
  next
    case False
    then show ?thesis using assms ping by (auto simp: handle_client_message_def split: client_msg.split option.split)
  qed
qed

theorem lurkers_confined_witness:
  "media (handle_client_message (example_cx 0 ''t'') 0 CRenegotiate (run_room ''r'' [joins 0 ''a'' ''c'' True]))
   = media (run_room ''r'' [joins 0 ''a'' ''c'' True])"
  by (rule lurkers_confined) code_simp

section \<open>Closing a viewer's PC\<close>

text \<open>
  Closing a viewer's PeerConnection runs its own cleanup, which asks to close the same
  PeerConnection again: that inner close never finds one still open, so the cleanup closes
  nothing else and the nesting ends there.
\<close>

theorem nested_close_ends:
  assumes "px_closed (w_pc w pc)"
  shows "remove_sub_with close_again sub_id pub_id (Some pc) w = remove_sub_with (\<lambda>_ v. v) sub_id pub_id (Some pc) w"
proof -
  obtain sub w1 where d: "detach_sub sub_id pub_id (Some pc) w = (sub, w1)" by (cases "detach_sub sub_id pub_id (Some pc) w")
  have same: "w_pc w1 = w_pc w" "w_sub w1 = w_sub w"
    and own: "\<And>sb. sub = Some sb \<Longrightarrow> ss_pc (w_sub w sb) = pc"
    using d by (auto simp: detach_sub_def sub_matches_def set_entry_def split: option.splits if_splits)
  have shut: "close_again pc v = v" if "w_pc v = w_pc w" for v
    using that assms by (simp add: close_again_def)
  have first: "(case sub of None \<Rightarrow> w1 | Some sb \<Rightarrow> close_again (ss_pc (w_sub w1 sb)) w1) = w1"
    using own same shut by (simp split: option.split)
  show ?thesis
  proof (cases "session_of w1 pub_id")
    case None
    then show ?thesis using first by (simp add: remove_sub_with_def d Let_def split: option.split)
  next
    case (Some s)
    have keep: "(case sub of None \<Rightarrow> w1 | Some sb \<Rightarrow> w1) = w1" by (simp split: option.split)
    show ?thesis
    proof (cases "hget (so_subscribers (w_session w1 s)) sub_id")
      case None
      then show ?thesis using first Some keep by (simp add: remove_sub_with_def d Let_def)
    next
      case sb: (Some sb)
      have "close_again (ss_pc (w_sub w1 sb)) (set_session s x w1) = set_session s x w1"
        if "sub_matches w1 (Some pc) sb" for x
        using that shut same by (simp add: sub_matches_def set_session_def)
      then show ?thesis using first Some sb keep by (simp add: remove_sub_with_def d Let_def)
    qed
  qed
qed

theorem nested_close_ends_witness:
  "let w = mark_closed 1 (new_room ''r'')
   in remove_sub_with close_again ''a'' ''b'' (Some 1) w = remove_sub_with (\<lambda>_ v. v) ''a'' ''b'' (Some 1) w"
  unfolding Let_def by (rule nested_close_ends) (simp add: mark_closed_def)

section \<open>Presence\<close>

text \<open>Over every run, each presence event a room emits bears the room's own id.\<close>

theorem presence_of_own_room:
  "list_all (\<lambda>ev. event_room ev = rm) (w_presence (run_room rm es))"
proof -
  have "feed_ok rm (foldl next_world w es)" if "feed_ok rm w" for w
    using that by (induction es arbitrary: w) (auto simp: next_world_def intro: step_feed)
  moreover have "feed_ok rm (new_room rm)" by (simp add: feed_ok_def new_room_def)
  ultimately show ?thesis by (simp add: run_room_def feed_ok_def)
qed

end
