(* ===== verification/Util.thy ===== *)
theory Util
  imports Text "HOL-Library.List_Lexorder" "HOL-Library.Char_ord"
begin

text \<open>
  \<open>backend/src/util.rs\<close>: hexadecimal, ULIDs and the second counts the other modules print.
  Random bytes are arguments. Base64 and calendar dates are third-party crates and stay
  parameters of the modules that use them.
\<close>

section \<open>Hexadecimal\<close>

definition hex_digits :: string where
  "hex_digits = ''0123456789abcdef''"

definition hex :: "8 word list \<Rightarrow> string" where
  "hex bytes = concat (map (\<lambda>b. [hex_digits ! unat (drop_bit 4 b), hex_digits ! unat (and b 15)]) bytes)"

lemma length_hex [simp]: "length (hex bs) = 2 * length bs"
  by (induction bs) (simp_all add: hex_def)

lemma hex_nibbles: "unat (drop_bit 4 (b :: 8 word)) = unat b div 16" "unat (and b 15) = unat b mod 16"
proof -
  show "unat (drop_bit 4 b) = unat b div 16" by (simp add: unat_drop_bit_eq flip: drop_bit_eq_div) (simp add: drop_bit_eq_div)
  have "and b 15 = take_bit 4 b" using take_bit_eq_mask [of 4 b] by (simp add: mask_eq_exp_minus_1)
  then have "unat (and b 15) = take_bit 4 (unat b)" by (simp only: unsigned_take_bit_eq)
  then show "unat (and b 15) = unat b mod 16" by (simp add: take_bit_eq_mod)
qed

lemma hex_digit_inj: "i < 16 \<Longrightarrow> j < 16 \<Longrightarrow> hex_digits ! i = hex_digits ! j \<longleftrightarrow> i = j"
proof -
  have "distinct hex_digits" "length hex_digits = 16" by (simp_all add: hex_digits_def)
  then show "i < 16 \<Longrightarrow> j < 16 \<Longrightarrow> hex_digits ! i = hex_digits ! j \<longleftrightarrow> i = j"
    by (simp add: nth_eq_iff_index_eq)
qed

lemma hex_byte_inj:
  "hex_digits ! (unat (a :: 8 word) div 16) = hex_digits ! (unat (b :: 8 word) div 16) \<Longrightarrow>
   hex_digits ! (unat a mod 16) = hex_digits ! (unat b mod 16) \<Longrightarrow> a = b"
proof -
  assume e: "hex_digits ! (unat a div 16) = hex_digits ! (unat b div 16)"
    "hex_digits ! (unat a mod 16) = hex_digits ! (unat b mod 16)"
  have "unat a div 16 < 16" "unat b div 16 < 16" using unat_u8 [of a] unat_u8 [of b] by auto
  with e have "unat a div 16 = unat b div 16" "unat a mod 16 = unat b mod 16"
    by (simp_all add: hex_digit_inj)
  then have "unat a = unat b" by (metis div_mult_mod_eq)
  then show "a = b" by (rule unsigned_word_eqI)
qed

lemma hex_inj: "hex as = hex bs \<longleftrightarrow> as = bs"
proof
  show "hex as = hex bs \<Longrightarrow> as = bs"
  proof (induction as arbitrary: bs)
    case Nil
    then show ?case by (cases bs) (simp_all add: hex_def)
  next
    case (Cons a as)
    then obtain b bs' where bs: "bs = b # bs'" by (cases bs) (simp_all add: hex_def)
    with Cons.prems have "hex as = hex bs'" and "a = b"
      by (auto simp: hex_def hex_nibbles intro: hex_byte_inj)
    with Cons.IH bs show ?case by blast
  qed
qed simp

lemma hex_chars: "c \<in> set (hex bs) \<Longrightarrow> c \<in> set hex_digits"
proof (induction bs)
  case (Cons b bs)
  have "unat b div 16 < length hex_digits" "unat b mod 16 < length hex_digits"
    using unat_u8 [of b] by (auto simp: hex_digits_def)
  with Cons show ?case by (auto simp: hex_def hex_nibbles)
qed (simp add: hex_def)

text \<open>Reading hexadecimal back, to state that nothing is lost.\<close>

definition hex_index :: "char \<Rightarrow> nat option" where
  "hex_index c = (if c \<in> set hex_digits then Some (length (takeWhile (\<lambda>x. x \<noteq> c) hex_digits)) else None)"

fun unhex :: "string \<Rightarrow> 8 word list option" where
  "unhex [] = Some []"
| "unhex [c] = None"
| "unhex (a # b # cs) =
     (case (hex_index a, hex_index b, unhex cs) of
        (Some i, Some j, Some bs) \<Rightarrow> Some (of_nat (16 * i + j) # bs)
      | _ \<Rightarrow> None)"

lemma hex_index_digit: "i < 16 \<Longrightarrow> hex_index (hex_digits ! i) = Some i"
proof -
  have "list_all (\<lambda>i. hex_index (hex_digits ! i) = Some i) [0..<16]"
    by (simp add: hex_digits_def hex_index_def upt_rec)
  then show "i < 16 \<Longrightarrow> hex_index (hex_digits ! i) = Some i" by (simp add: list_all_iff)
qed

lemma unhex_hex: "unhex (hex bs) = Some bs"
proof (induction bs)
  case (Cons b bs)
  have "unat b div 16 < 16" "unat b mod 16 < 16" using unat_u8 [of b] by auto
  moreover have "hex (b # bs) = hex_digits ! (unat b div 16) # hex_digits ! (unat b mod 16) # hex bs"
    by (simp add: hex_def hex_nibbles)
  ultimately show ?case using Cons by (simp add: hex_index_digit)
qed (simp add: hex_def)

section \<open>ULIDs\<close>

definition ulid_alphabet :: string where
  "ulid_alphabet = ''0123456789ABCDEFGHJKMNPQRSTVWXYZ''"

text \<open>48 bits of milliseconds, then 80 random bits: a 128-bit number.\<close>

definition ulid_value :: "nat \<Rightarrow> 8 word list \<Rightarrow> nat" where
  "ulid_value ms rand = foldl (\<lambda>v b. v * 256 + unat b) (ms mod 2 ^ 48) rand"

fun ulid_loop :: "nat \<Rightarrow> nat \<Rightarrow> string \<Rightarrow> string" where
  "ulid_loop 0 v out = out"
| "ulid_loop (Suc i) v out = ulid_loop i (v div 32) (ulid_alphabet ! (v mod 32) # out)"

definition ulid :: "nat \<Rightarrow> 8 word list \<Rightarrow> string" where
  "ulid at_ms rand = ulid_loop 26 (ulid_value at_ms rand) []"

text \<open>The digits without the accumulator, most significant first.\<close>

fun ulid_digits :: "nat \<Rightarrow> nat \<Rightarrow> string" where
  "ulid_digits 0 v = []"
| "ulid_digits (Suc i) v = ulid_digits i (v div 32) @ [ulid_alphabet ! (v mod 32)]"

lemma ulid_loop_digits: "ulid_loop i v out = ulid_digits i v @ out"
  by (induction i arbitrary: v out) simp_all

lemma length_ulid_digits [simp]: "length (ulid_digits i v) = i"
  by (induction i arbitrary: v) simp_all

lemma ulid_alphabet_mono: "i < j \<Longrightarrow> j < 32 \<Longrightarrow> ulid_alphabet ! i < ulid_alphabet ! j"
proof -
  have "sorted_wrt (<) ulid_alphabet" "length ulid_alphabet = 32"
    by (simp_all add: ulid_alphabet_def less_char_def)
  then show "i < j \<Longrightarrow> j < 32 \<Longrightarrow> ulid_alphabet ! i < ulid_alphabet ! j"
    by (simp add: sorted_wrt_nth_less)
qed

lemma append_less_same: "length (xs :: 'a :: linorder list) = length ys \<Longrightarrow>
   xs @ [x] < ys @ [y] \<longleftrightarrow> xs < ys \<or> xs = ys \<and> x < y"
  by (induction xs ys rule: list_induct2) auto

lemma ulid_digits_mono: "v < w \<Longrightarrow> w < 32 ^ i \<Longrightarrow> ulid_digits i v < ulid_digits i w"
proof (induction i arbitrary: v w)
  case (Suc i)
  have w: "w div 32 < 32 ^ i" using Suc.prems(2) by (simp add: less_mult_imp_div_less mult.commute)
  show ?case
  proof (cases "v div 32 = w div 32")
    case True
    then have "v mod 32 < w mod 32" using Suc.prems(1) by (metis add_less_cancel_left div_mult_mod_eq)
    then show ?thesis using True ulid_alphabet_mono by (simp add: append_less_same)
  next
    case False
    then have "v div 32 < w div 32" using div_le_mono [of v w 32] Suc.prems(1) by linarith
    then show ?thesis using Suc.IH [OF _ w] by (simp add: append_less_same)
  qed
qed simp

lemma ulid_value_bounds:
  "foldl (\<lambda>v b. v * 256 + unat b) m (rand :: 8 word list) \<in> {m * 256 ^ length rand..<(m + 1) * 256 ^ length rand}"
proof (induction rand arbitrary: m)
  case (Cons b bs)
  let ?k = "256 ^ length bs :: nat"
  have "m * 256 * ?k \<le> (m * 256 + unat b) * ?k" by (rule mult_right_mono) simp_all
  moreover have "(m * 256 + unat b + 1) * ?k \<le> (m * 256 + 256) * ?k"
    using unat_u8 [of b] by (intro mult_right_mono) simp_all
  ultimately show ?case
    using Cons [of "m * 256 + unat b"] by (auto simp: algebra_simps intro: order.trans less_le_trans)
qed simp

lemma ulid_value_mono:
  assumes "m < n" and "n < 2 ^ 48" and "length r = 10" and "length s = 10"
  shows "ulid_value m r < ulid_value n s \<and> ulid_value n s < 32 ^ 26"
proof -
  have m: "m mod 2 ^ 48 = m" and n: "n mod 2 ^ 48 = n" using assms(1,2) by simp_all
  have "ulid_value m r < (m + 1) * 256 ^ 10" "n * 256 ^ 10 \<le> ulid_value n s" "ulid_value n s < (n + 1) * 256 ^ 10"
    using ulid_value_bounds [of m r] ulid_value_bounds [of n s] assms(3,4) by (simp_all only: ulid_value_def m n atLeastLessThan_iff)
  moreover have "(m + 1) * 256 ^ 10 \<le> n * (256 ^ 10 :: nat)" using assms(1) by (intro mult_right_mono) simp_all
  moreover have "(n + 1) * 256 ^ 10 \<le> 2 ^ 48 * (256 ^ 10 :: nat)" using assms(2) by (intro mult_right_mono) simp_all
  moreover have "2 ^ 48 * (256 ^ 10 :: nat) \<le> 32 ^ 26" by simp
  ultimately show ?thesis by linarith
qed

text \<open>
  ULIDs sort by creation time: of two ids made at different milliseconds the earlier one is
  the smaller string, whatever random bytes they carry; both are 26 characters long.
\<close>

theorem ulid_sortable:
  assumes "t1 < t2" and "t2 < 2 ^ 48" and "length r1 = 10" and "length r2 = 10"
  shows "ulid t1 r1 < ulid t2 r2 \<and> length (ulid t1 r1) = 26 \<and> length (ulid t2 r2) = 26"
  using ulid_value_mono [OF assms] ulid_digits_mono by (simp add: ulid_def ulid_loop_digits)

theorem ulid_sortable_witness:
  "ulid 1 (replicate 10 255) < ulid 2 (replicate 10 0) \<and> length (ulid 1 (replicate 10 255)) = 26
     \<and> length (ulid 2 (replicate 10 0)) = 26"
  by (rule ulid_sortable) simp_all

section \<open>Times\<close>

definition unix_millis :: "instant \<Rightarrow> int" where
  "unix_millis t = int (t div 1000000)"

definition unix_secs :: "instant \<Rightarrow> int" where
  "unix_secs t = int (t div nanos_per_sec)"

definition ceil_secs :: "duration \<Rightarrow> nat" where
  "ceil_secs d = d div nanos_per_sec + (if d mod nanos_per_sec > 0 then 1 else 0)"

lemma ceil_secs_least: "d \<le> secs n \<longleftrightarrow> ceil_secs d \<le> n"
proof (cases "d mod nanos_per_sec = 0")
  case True
  then have "d = d div nanos_per_sec * nanos_per_sec" by (metis add.right_neutral div_mult_mod_eq)
  then have "d \<le> secs n \<longleftrightarrow> d div nanos_per_sec \<le> n" by (metis mult_le_cancel2 zero_less_numeral)
  with True show ?thesis by (simp add: ceil_secs_def)
next
  case False
  have "d \<le> secs n \<longleftrightarrow> d div nanos_per_sec < n"
  proof
    assume "d div nanos_per_sec < n"
    then have "d < secs n" by (simp add: div_less_iff_less_mult)
    then show "d \<le> secs n" by simp
  next
    assume "d \<le> secs n"
    moreover have "d \<noteq> secs n" using False by auto
    ultimately show "d div nanos_per_sec < n" by (simp add: div_less_iff_less_mult)
  qed
  with False show ?thesis by (auto simp: ceil_secs_def)
qed

end
