(* ===== verification/Password.thy ===== *)
theory Password
  imports Util
begin

text \<open>
  \<open>backend/src/auth/password.rs\<close>: the encoded password hash, its parser, and the comparisons in
  constant time. Argon2id, SHA-256, HMAC and Base64 are third-party crates: a record of functions
  stands for them, and \<open>crypto_ok\<close> states what their documentation promises.
\<close>

section \<open>The crates\<close>

record crypto =
  cr_argon2 :: "string \<Rightarrow> 8 word list \<Rightarrow> nat \<Rightarrow> nat \<Rightarrow> nat \<Rightarrow> nat \<Rightarrow> 8 word list option"
  cr_sha256 :: "string \<Rightarrow> 8 word list"
  cr_hmac_sha256 :: "string \<Rightarrow> string \<Rightarrow> 8 word list"
  cr_b64 :: "8 word list \<Rightarrow> string"
  cr_unb64 :: "string \<Rightarrow> 8 word list option"
  cr_b64_url :: "8 word list \<Rightarrow> string"

definition alnum :: "char \<Rightarrow> bool" where
  "alnum c \<longleftrightarrow> is_digit c \<or> (65 \<le> byte_of c \<and> byte_of c \<le> 90) \<or> (97 \<le> byte_of c \<and> byte_of c \<le> 122)"

definition crypto_ok :: "crypto \<Rightarrow> bool" where
  "crypto_ok c \<longleftrightarrow>
     (\<forall>bs. cr_unb64 c (cr_b64 c bs) = Some bs)
   \<and> (\<forall>bs ch. ch \<in> set (cr_b64 c bs) \<longrightarrow> alnum ch \<or> ch = CHR ''+'' \<or> ch = CHR ''/'')
   \<and> (\<forall>bs ch. ch \<in> set (cr_b64_url c bs) \<longrightarrow> alnum ch \<or> ch = CHR ''-'' \<or> ch = CHR ''_'')
   \<and> (\<forall>plain salt t m p n key. cr_argon2 c plain salt t m p n = Some key \<longrightarrow> length key = n)"

section \<open>The code\<close>

definition ARGON_TIME :: nat where "ARGON_TIME = 2"
definition ARGON_MEMORY :: nat where "ARGON_MEMORY = 64 * 1024"
definition ARGON_THREADS :: nat where "ARGON_THREADS = 1"
definition ARGON_KEY_LEN :: nat where "ARGON_KEY_LEN = 32"
definition ARGON_SALT_LEN :: nat where "ARGON_SALT_LEN = 16"

text \<open>None is the panic of \<open>expect\<close>.\<close>

definition hash :: "crypto \<Rightarrow> 8 word list \<Rightarrow> string \<Rightarrow> string option" where
  "hash c salt plain =
     map_option (\<lambda>key. ''argon2id$t='' @ dec ARGON_TIME @ ''$m='' @ dec ARGON_MEMORY @ ''$p='' @ dec ARGON_THREADS
                       @ ''$'' @ cr_b64 c salt @ ''$'' @ cr_b64 c key)
       (cr_argon2 c plain salt ARGON_TIME ARGON_MEMORY ARGON_THREADS ARGON_KEY_LEN)"

record parsed_hash =
  ph_t :: nat
  ph_m :: nat
  ph_p :: nat
  ph_salt :: "8 word list"
  ph_key :: "8 word list"

definition leading_digits :: "string \<Rightarrow> string option" where
  "leading_digits s = (let ds = takeWhile is_digit s in if ds = [] then None else Some ds)"

definition hash_num :: "string \<Rightarrow> string \<Rightarrow> nat option" where
  "hash_num s prefix =
     (case strip_prefix prefix s of
        None \<Rightarrow> None
      | Some r \<Rightarrow>
          (case leading_digits r of
             None \<Rightarrow> None
           | Some ds \<Rightarrow>
               (case parse_uint (2 ^ 32) ds of None \<Rightarrow> None | Some v \<Rightarrow> if v = 0 then None else Some v)))"

definition nonempty :: "'a list option \<Rightarrow> 'a list option" where
  "nonempty x = (case x of None \<Rightarrow> None | Some s \<Rightarrow> if s = [] then None else Some s)"

definition parse_hash :: "crypto \<Rightarrow> string \<Rightarrow> parsed_hash option" where
  "parse_hash c encoded =
     (case split_on (CHR ''$'') encoded of
        [p0, p1, p2, p3, p4, p5] \<Rightarrow>
          if p0 \<noteq> ''argon2id'' then None
          else (case hash_num p1 ''t='' of None \<Rightarrow> None | Some t \<Rightarrow>
                case hash_num p2 ''m='' of None \<Rightarrow> None | Some m \<Rightarrow>
                case hash_num p3 ''p='' of None \<Rightarrow> None | Some p \<Rightarrow>
                if p > 255 then None
                else case nonempty (cr_unb64 c p4) of None \<Rightarrow> None | Some salt \<Rightarrow>
                     case nonempty (cr_unb64 c p5) of None \<Rightarrow> None | Some key \<Rightarrow>
                     Some \<lparr>ph_t = t, ph_m = m, ph_p = p, ph_salt = salt, ph_key = key\<rparr>)
      | _ \<Rightarrow> None)"

definition valid_hash :: "crypto \<Rightarrow> string \<Rightarrow> bool" where
  "valid_hash c encoded \<longleftrightarrow> parse_hash c encoded \<noteq> None"

definition constant_time_eq :: "8 word list \<Rightarrow> 8 word list \<Rightarrow> bool" where
  "constant_time_eq a b \<longleftrightarrow>
     (if length a \<noteq> length b then False
      else foldl (\<lambda>acc (x, y). or acc (xor x y)) 0 (zip a b) = 0)"

definition constant_time_str_eq :: "crypto \<Rightarrow> string \<Rightarrow> string \<Rightarrow> bool" where
  "constant_time_str_eq c a b \<longleftrightarrow> constant_time_eq (cr_sha256 c a) (cr_sha256 c b) \<and> length a = length b"

definition verify :: "crypto \<Rightarrow> string \<Rightarrow> string \<Rightarrow> bool" where
  "verify c encoded plain =
     (case parse_hash c encoded of
        None \<Rightarrow> False
      | Some h \<Rightarrow>
          (case cr_argon2 c plain (ph_salt h) (ph_t h) (ph_m h) (ph_p h) (length (ph_key h)) of
             None \<Rightarrow> False
           | Some got \<Rightarrow> constant_time_eq got (ph_key h)))"

section \<open>Comparing in constant time is comparing\<close>

lemma or_eq_0: "or a b = 0 \<longleftrightarrow> a = 0 \<and> b = (0 :: 8 word)"
  by (auto simp: bit_eq_iff bit_simps)

lemma xor_eq_0: "xor a b = 0 \<longleftrightarrow> a = (b :: 8 word)"
  by (auto simp: bit_eq_iff bit_simps)

lemma xor_fold_eq_0:
  "length a = length b \<Longrightarrow>
   foldl (\<lambda>acc (x, y). or acc (xor x y)) acc (zip a b) = 0 \<longleftrightarrow> acc = 0 \<and> a = (b :: 8 word list)"
  by (induction a b arbitrary: acc rule: list_induct2) (auto simp: or_eq_0 xor_eq_0)

text \<open>
  The comparison that looks at every byte whatever it finds decides equality: folding the
  differences of all byte pairs gives zero exactly for equal byte strings.
\<close>

theorem constant_time_eq_is_equality: "constant_time_eq a b \<longleftrightarrow> a = b"
  by (auto simp: constant_time_eq_def xor_fold_eq_0)

section \<open>Hashing and verifying\<close>

lemma constant_time_eq_refl: "constant_time_eq a a"
  by (simp add: constant_time_eq_def xor_fold_eq_0)

lemma alnum_not: "alnum ch \<Longrightarrow> ch \<noteq> CHR ''$'' \<and> ch \<noteq> CHR ''.'' \<and> ch \<noteq> CHR '':''"
  by (auto simp: alnum_def is_digit_def)

lemma crypto_b64: "crypto_ok c \<Longrightarrow> cr_unb64 c (cr_b64 c bs) = Some bs \<and> CHR ''$'' \<notin> set (cr_b64 c bs)"
  by (auto simp: crypto_ok_def dest: alnum_not)

lemma hash_num_dec: "0 < n \<Longrightarrow> n < 2 ^ 32 \<Longrightarrow> hash_num (p @ dec n) p = Some n"
proof -
  assume n: "0 < n" "n < 2 ^ 32"
  have "takeWhile is_digit (dec n) = dec n"
    using dec_digits by (auto simp: takeWhile_eq_all_conv is_digit_def)
  with n parse_uint_dec [OF n(2)] show ?thesis
    by (simp add: hash_num_def leading_digits_def Let_def del: takeWhile_eq_all_conv)
qed

lemma parse_hash_hash:
  assumes "crypto_ok c" and "salt \<noteq> []" and "key \<noteq> []"
  shows "parse_hash c (''argon2id$t='' @ dec 2 @ ''$m='' @ dec 65536 @ ''$p='' @ dec 1 @ ''$'' @ cr_b64 c salt @ ''$'' @ cr_b64 c key)
    = Some \<lparr>ph_t = 2, ph_m = 65536, ph_p = 1, ph_salt = salt, ph_key = key\<rparr>"
proof -
  have d: "CHR ''$'' \<notin> set (dec n)" for n using dec_digits [of "CHR ''$''" n] by auto
  have n: "CHR ''$'' \<notin> set ''argon2id''" "CHR ''$'' \<notin> set (''t='' @ dec 2)" "CHR ''$'' \<notin> set (''m='' @ dec 65536)"
    "CHR ''$'' \<notin> set (''p='' @ dec 1)" "CHR ''$'' \<notin> set (cr_b64 c bs)" for bs
    using d crypto_b64 [OF assms(1)] by simp_all
  have "split_on (CHR ''$'') (''argon2id'' @ CHR ''$'' # (''t='' @ dec 2) @ CHR ''$'' # (''m='' @ dec 65536) @ CHR ''$'' #
      (''p='' @ dec 1) @ CHR ''$'' # cr_b64 c salt @ CHR ''$'' # cr_b64 c key)
    = [''argon2id'', ''t='' @ dec 2, ''m='' @ dec 65536, ''p='' @ dec 1, cr_b64 c salt, cr_b64 c key]"
    by (simp only: split_on_append [OF n(1)] split_on_append [OF n(2)] split_on_append [OF n(3)] split_on_append [OF n(4)]
      split_on_append [OF n(5)] split_on_none [OF n(5)])
  then show ?thesis
    using hash_num_dec [of 2 "''t=''"] hash_num_dec [of 65536 "''m=''"] hash_num_dec [of 1 "''p=''"]
      crypto_b64 [OF assms(1)] assms(2,3)
    by (simp add: parse_hash_def nonempty_def)
qed

text \<open>
  A password verifies against its own hash, under the documented behaviour of Base64 and
  Argon2; and it verifies against an encoded hash only when that parses and Argon2, at the
  parameters and salt it names, gives exactly the key it holds. A malformed hash never matches.
\<close>

theorem password_roundtrip:
  assumes "crypto_ok c" and "hash c salt plain = Some encoded" and "length salt = ARGON_SALT_LEN"
  shows "valid_hash c encoded \<and> verify c encoded plain
    \<and> (verify c other plain \<longleftrightarrow> (\<exists>h. parse_hash c other = Some h
          \<and> cr_argon2 c plain (ph_salt h) (ph_t h) (ph_m h) (ph_p h) (length (ph_key h)) = Some (ph_key h)))"
proof -
  obtain key where key: "cr_argon2 c plain salt 2 65536 1 32 = Some key"
    and enc: "encoded = ''argon2id$t='' @ dec 2 @ ''$m='' @ dec 65536 @ ''$p='' @ dec 1 @ ''$'' @ cr_b64 c salt @ ''$'' @ cr_b64 c key"
    using assms(2) by (auto simp: hash_def ARGON_TIME_def ARGON_MEMORY_def ARGON_THREADS_def ARGON_KEY_LEN_def)
  have len: "length key = 32" using assms(1) key by (auto simp: crypto_ok_def)
  have "salt \<noteq> []" "key \<noteq> []" using assms(3) len by (auto simp: ARGON_SALT_LEN_def)
  from parse_hash_hash [OF assms(1) this] have p: "parse_hash c encoded =
      Some \<lparr>ph_t = 2, ph_m = 65536, ph_p = 1, ph_salt = salt, ph_key = key\<rparr>" by (simp only: enc)
  have "verify c other plain \<longleftrightarrow> (\<exists>h. parse_hash c other = Some h
      \<and> cr_argon2 c plain (ph_salt h) (ph_t h) (ph_m h) (ph_p h) (length (ph_key h)) = Some (ph_key h))"
    by (auto simp: verify_def constant_time_eq_def xor_fold_eq_0 split: option.splits)
  with p key len show ?thesis
    by (simp add: valid_hash_def verify_def constant_time_eq_refl)
qed

text \<open>Functions that behave as documented: hexadecimal for Base64, and sums of bytes for the hashes.\<close>

definition toy_sum :: "string \<Rightarrow> nat" where
  "toy_sum s = sum_list (map byte_of s)"

definition toy_crypto :: crypto where
  "toy_crypto =
     \<lparr>cr_argon2 = (\<lambda>plain salt t m p n. Some (replicate n (of_nat (toy_sum plain)))),
      cr_sha256 = (\<lambda>s. map (\<lambda>ch. of_nat (byte_of ch)) s), cr_hmac_sha256 = (\<lambda>k s. [of_nat (toy_sum k + toy_sum s)]),
      cr_b64 = hex, cr_unb64 = unhex, cr_b64_url = hex\<rparr>"

lemma hex_alnum: "ch \<in> set (hex bs) \<Longrightarrow> alnum ch"
proof -
  have "list_all alnum hex_digits" by (simp add: hex_digits_def alnum_def is_digit_def)
  then show "ch \<in> set (hex bs) \<Longrightarrow> alnum ch" by (auto simp: list_all_iff dest: hex_chars)
qed

lemma toy_crypto_ok: "crypto_ok toy_crypto"
  by (simp add: crypto_ok_def toy_crypto_def unhex_hex hex_alnum)

theorem password_roundtrip_witness:
  "verify toy_crypto (the (hash toy_crypto (replicate 16 7) ''pw'')) ''pw''"
  using password_roundtrip [OF toy_crypto_ok, of "replicate 16 7" "''pw''"]
  by (auto simp: ARGON_SALT_LEN_def hash_def toy_crypto_def)

end
