(* ===== verification/ConnPass.thy ===== *)
theory ConnPass
  imports Password
begin

text \<open>
  \<open>backend/src/auth/connpass.rs\<close>: the connection passwords. The store is the list of entries in
  memory together with what the file on disk holds; the outcome of writing the file is an
  argument of every operation that persists.
\<close>

section \<open>The code: entries and the store\<close>

definition MAX_ENTRIES :: nat where "MAX_ENTRIES = 16"
definition MAX_LABEL_LEN :: nat where "MAX_LABEL_LEN = 64"
definition CONN_PASS_LENGTH :: nat where "CONN_PASS_LENGTH = 22"

definition ALPHABET :: string where
  "ALPHABET = map char_of ([33::nat..<48] @ [50..<73] @ [74..<79] @ [80..<108] @ [109..<124] @ [125, 126])"

datatype cp_error = NotFoundErr | TooManyEntries | IoErr string

record cp_entry =
  cp_id :: string
  cp_label :: string
  cp_hash :: string
  cp_generation :: "64 word"
  cp_created_at :: instant
  cp_expires_at :: "instant option"

definition is_expired :: "instant \<Rightarrow> cp_entry \<Rightarrow> bool" where
  "is_expired now e = (case cp_expires_at e of None \<Rightarrow> False | Some t \<Rightarrow> now \<ge> t)"

record entry_status =
  st_id :: string
  st_label :: string
  st_generation :: "64 word"
  st_created_at :: instant
  st_expires_at :: "instant option"
  st_expired :: bool

definition entry_status_of :: "instant \<Rightarrow> cp_entry \<Rightarrow> entry_status" where
  "entry_status_of now e =
     \<lparr>st_id = cp_id e, st_label = cp_label e, st_generation = cp_generation e, st_created_at = cp_created_at e,
      st_expires_at = cp_expires_at e, st_expired = is_expired now e\<rparr>"

record cp_store =
  cs_entries :: "cp_entry list"
  cs_file :: "cp_entry list option"

text \<open>Reading the file: absent, an error, not parsable, or a list of entries (null counts as empty).\<close>

datatype read_result = FileAbsent | ReadFailed string | ParseFailed string | FileHolds "cp_entry list option"

definition load_store :: "read_result \<Rightarrow> string + cp_store" where
  "load_store r =
     (case r of
        FileHolds es \<Rightarrow> (let l = (case es of None \<Rightarrow> [] | Some l \<Rightarrow> l) in Inr \<lparr>cs_entries = l, cs_file = Some l\<rparr>)
      | ParseFailed e \<Rightarrow> Inl (''parse connection-password.json: '' @ e)
      | FileAbsent \<Rightarrow> Inr \<lparr>cs_entries = [], cs_file = None\<rparr>
      | ReadFailed e \<Rightarrow> Inl (''read connection-password.json: '' @ e))"

definition status :: "instant \<Rightarrow> cp_store \<Rightarrow> entry_status list" where
  "status now st = map (entry_status_of now) (cs_entries st)"

definition find_entry :: "string \<Rightarrow> cp_entry list \<Rightarrow> cp_entry option" where
  "find_entry i es = List.find (\<lambda>e. cp_id e = i) es"

definition entry_generation :: "string \<Rightarrow> instant \<Rightarrow> cp_store \<Rightarrow> 64 word option" where
  "entry_generation i now st =
     (if i = [] then None
      else case find_entry i (cs_entries st) of
             None \<Rightarrow> None
           | Some e \<Rightarrow> if is_expired now e then None else Some (cp_generation e))"

text \<open>The first live entry whose hash verifies.\<close>

definition verify_pass :: "crypto \<Rightarrow> string \<Rightarrow> instant \<Rightarrow> cp_store \<Rightarrow> (string \<times> 64 word) option" where
  "verify_pass c plain now st =
     map_option (\<lambda>e. (cp_id e, cp_generation e))
       (List.find (\<lambda>e. \<not> is_expired now e \<and> verify c (cp_hash e) plain) (cs_entries st))"

section \<open>The code: changing the store\<close>

text \<open>\<open>io\<close>: None when the atomic write succeeds, else the error.\<close>

definition persist :: "string option \<Rightarrow> cp_store \<Rightarrow> (cp_error + unit) \<times> cp_store" where
  "persist io st =
     (case io of None \<Rightarrow> (Inr (), st\<lparr>cs_file := Some (cs_entries st)\<rparr>) | Some e \<Rightarrow> (Inl (IoErr e), st))"

datatype ttl = Never | Disabled | For duration

definition expiry_for :: "instant \<Rightarrow> ttl \<Rightarrow> instant option" where
  "expiry_for now t = (case t of Never \<Rightarrow> None | Disabled \<Rightarrow> Some (now - secs 1) | For d \<Rightarrow> Some (now + d))"

definition is_char_boundary :: "string \<Rightarrow> nat \<Rightarrow> bool" where
  "is_char_boundary s i \<longleftrightarrow> i = 0 \<or> i = length s \<or> i < length s \<and> \<not> is_cont (s ! i)"

function cut_back :: "string \<Rightarrow> nat \<Rightarrow> nat" where
  "cut_back s k = (if is_char_boundary s k then k else cut_back s (k - 1))"
  by pat_completeness auto
termination
  by (relation "measure snd") (auto simp: is_char_boundary_def)

declare cut_back.simps [simp del]

definition normalize_label :: "string \<Rightarrow> string" where
  "normalize_label label = (let l = trim label in take (cut_back l (min (length l) MAX_LABEL_LEN)) l)"

text \<open>\<open>mutate\<close>: the first entry of that id is changed in place, then everything is written.\<close>

fun update_first :: "string \<Rightarrow> (cp_entry \<Rightarrow> cp_entry) \<Rightarrow> cp_entry list \<Rightarrow> cp_entry list" where
  "update_first i f [] = []"
| "update_first i f (e # es) = (if cp_id e = i then f e # es else e # update_first i f es)"

definition mutate ::
  "string \<Rightarrow> (cp_entry \<Rightarrow> cp_entry) \<Rightarrow> string option \<Rightarrow> cp_store \<Rightarrow> (cp_error + cp_entry) \<times> cp_store" where
  "mutate i f io st =
     (case find_entry i (cs_entries st) of
        None \<Rightarrow> (Inl NotFoundErr, st)
      | Some e \<Rightarrow>
          (case persist io (st\<lparr>cs_entries := update_first i f (cs_entries st)\<rparr>) of
             (Inl er, st1) \<Rightarrow> (Inl er, st1)
           | (Inr _, st1) \<Rightarrow> (Inr (f e), st1)))"

text \<open>\<open>h\<close> is the hash of the fresh plaintext (\<open>password::hash\<close>), \<open>i\<close> the random id.\<close>

definition create ::
  "string \<Rightarrow> ttl \<Rightarrow> string \<Rightarrow> string \<Rightarrow> string \<Rightarrow> instant \<Rightarrow> string option \<Rightarrow> cp_store
    \<Rightarrow> (cp_error + entry_status \<times> string) \<times> cp_store" where
  "create label t plain h i now io st =
     (if length (cs_entries st) \<ge> MAX_ENTRIES then (Inl TooManyEntries, st)
      else let e = \<lparr>cp_id = i, cp_label = normalize_label label, cp_hash = h, cp_generation = 1,
                    cp_created_at = now, cp_expires_at = expiry_for now t\<rparr>
           in case persist io (st\<lparr>cs_entries := cs_entries st @ [e]\<rparr>) of
                (Inl er, st1) \<Rightarrow> (Inl er, st1)
              | (Inr _, st1) \<Rightarrow> (Inr (entry_status_of now e, plain), st1))"

definition set_ttl :: "string \<Rightarrow> ttl \<Rightarrow> instant \<Rightarrow> string option \<Rightarrow> cp_store \<Rightarrow> (cp_error + entry_status) \<times> cp_store" where
  "set_ttl i t now io st =
     (case mutate i (\<lambda>e. e\<lparr>cp_expires_at := expiry_for now t\<rparr>) io st of
        (Inl er, st1) \<Rightarrow> (Inl er, st1)
      | (Inr e, st1) \<Rightarrow> (Inr (entry_status_of now e), st1))"

definition rotate ::
  "string \<Rightarrow> string \<Rightarrow> string \<Rightarrow> instant \<Rightarrow> string option \<Rightarrow> cp_store
    \<Rightarrow> (cp_error + entry_status \<times> string) \<times> cp_store" where
  "rotate i plain h now io st =
     (case mutate i (\<lambda>e. e\<lparr>cp_hash := h, cp_generation := cp_generation e + 1, cp_created_at := now\<rparr>) io st of
        (Inl er, st1) \<Rightarrow> (Inl er, st1)
      | (Inr e, st1) \<Rightarrow> (Inr (entry_status_of now e, plain), st1))"

fun remove_first :: "string \<Rightarrow> cp_entry list \<Rightarrow> cp_entry list" where
  "remove_first i [] = []"
| "remove_first i (e # es) = (if cp_id e = i then es else e # remove_first i es)"

definition revoke :: "string \<Rightarrow> string option \<Rightarrow> cp_store \<Rightarrow> (cp_error + unit) \<times> cp_store" where
  "revoke i io st =
     (if find_entry i (cs_entries st) = None then (Inl NotFoundErr, st)
      else persist io (st\<lparr>cs_entries := remove_first i (cs_entries st)\<rparr>))"

definition rename :: "string \<Rightarrow> string \<Rightarrow> string option \<Rightarrow> cp_store \<Rightarrow> (cp_error + unit) \<times> cp_store" where
  "rename i label io st =
     (case mutate i (\<lambda>e. e\<lparr>cp_label := normalize_label label\<rparr>) io st of
        (Inl er, st1) \<Rightarrow> (Inl er, st1)
      | (Inr _, st1) \<Rightarrow> (Inr (), st1))"

section \<open>The code: generating a password\<close>

text \<open>
  The random source is the list of 32-byte blocks it will give; None when the list runs out. The
  inner loop goes through a whole block.
\<close>

fun take_block :: "8 word list \<Rightarrow> string \<Rightarrow> string" where
  "take_block [] out = out"
| "take_block (b # bs) out =
     take_block bs
       (if unat b < 256 - 256 mod length ALPHABET \<and> length out < CONN_PASS_LENGTH
        then out @ [ALPHABET ! (unat b mod length ALPHABET)] else out)"

fun generate_loop :: "8 word list list \<Rightarrow> string \<Rightarrow> string option" where
  "generate_loop blocks out =
     (if length out < CONN_PASS_LENGTH
      then case blocks of [] \<Rightarrow> None | b # bs \<Rightarrow> generate_loop bs (take_block b out)
      else Some out)"

declare generate_loop.simps [simp del]

definition generate :: "8 word list list \<Rightarrow> string option" where
  "generate blocks = generate_loop blocks []"

section \<open>The generator\<close>

lemma length_ALPHABET [simp]: "length ALPHABET = 88"
  by (simp only: ALPHABET_def length_map length_append length_upt) simp

definition good_byte :: "8 word \<Rightarrow> bool" where
  "good_byte b \<longleftrightarrow> unat b < 176"

definition letter :: "8 word \<Rightarrow> char" where
  "letter b = ALPHABET ! (unat b mod 88)"

lemma take_block_spec:
  "length out \<le> CONN_PASS_LENGTH \<Longrightarrow>
   take_block bs out = take CONN_PASS_LENGTH (out @ map letter (filter good_byte bs))"
proof (induction bs arbitrary: out)
  case (Cons b bs)
  show ?case
  proof (cases "good_byte b \<and> length out < CONN_PASS_LENGTH")
    case True
    then show ?thesis using Cons by (simp add: good_byte_def letter_def take_Cons')
  next
    case False
    then have "\<not> good_byte b \<or> length out = CONN_PASS_LENGTH" using Cons.prems by auto
    then show ?thesis using Cons by (auto simp: good_byte_def letter_def)
  qed
qed simp

definition letters :: "8 word list list \<Rightarrow> string" where
  "letters blocks = map letter (filter good_byte (concat blocks))"

lemma generate_loop_spec:
  "length out \<le> CONN_PASS_LENGTH \<Longrightarrow>
   generate_loop blocks out =
     (let s = out @ letters blocks in if length s < CONN_PASS_LENGTH then None else Some (take CONN_PASS_LENGTH s))"
proof (induction blocks arbitrary: out)
  case Nil
  then show ?case by (simp add: generate_loop.simps letters_def)
next
  case (Cons b bs)
  show ?case
  proof (cases "length out < CONN_PASS_LENGTH")
    case False
    with Cons.prems have "length out = CONN_PASS_LENGTH" by simp
    then show ?thesis by (simp add: generate_loop.simps)
  next
    case True
    let ?s = "out @ map letter (filter good_byte b)"
    have "generate_loop (b # bs) out = generate_loop bs (take CONN_PASS_LENGTH ?s)"
      using True Cons.prems by (subst generate_loop.simps) (simp add: take_block_spec)
    also have "\<dots> = (let s = take CONN_PASS_LENGTH ?s @ letters bs
        in if length s < CONN_PASS_LENGTH then None else Some (take CONN_PASS_LENGTH s))"
      by (rule Cons.IH) simp
    also have "\<dots> = (let s = ?s @ letters bs
        in if length s < CONN_PASS_LENGTH then None else Some (take CONN_PASS_LENGTH s))"
      using Cons.prems by (cases "length ?s \<le> CONN_PASS_LENGTH") (auto simp: Let_def min_absorb1)
    finally show ?thesis by (simp add: letters_def)
  qed
qed

lemma distinct_ALPHABET: "distinct ALPHABET"
proof -
  let ?ns = "[33::nat..<48] @ [50..<73] @ [74..<79] @ [80..<108] @ [109..<124] @ [125, 126]"
  have "distinct ?ns" by (simp only: distinct_append distinct_upt set_append set_upt) auto
  moreover have "inj_on (char_of :: nat \<Rightarrow> char) {0..<256}"
    by (rule inj_onI) (metis atLeastLessThan_iff mod_less of_char_of)
  moreover have "set ?ns \<subseteq> {0..<256}" by (simp only: set_append set_upt) auto
  ultimately show ?thesis
    unfolding ALPHABET_def distinct_map by (blast intro: inj_on_subset)
qed

lemma letters_even:
  "list_all (\<lambda>c. length (filter (\<lambda>b. good_byte b \<and> letter b = c) (map of_nat [0..<256])) = 2) ALPHABET"
proof -
  have "length (filter (\<lambda>b. good_byte b \<and> letter b = ALPHABET ! i) (map of_nat ns)) = 2"
    if i: "i < 88" and ns: "ns = [0..<256]" for i ns
  proof -
    let ?P = "\<lambda>n. n < 176 \<and> n mod 88 = i"
    have "good_byte (of_nat n) \<and> letter (of_nat n) = ALPHABET ! i \<longleftrightarrow> ?P n" if "n \<in> set ns" for n
    proof -
      have "unat (of_nat n :: 8 word) = n" using that by (simp only: ns set_upt) (simp add: unat_of_nat)
      then show ?thesis
        using i nth_eq_iff_index_eq [OF distinct_ALPHABET, of "n mod 88" i] by (simp add: good_byte_def letter_def)
    qed
    then have "filter ((\<lambda>b. good_byte b \<and> letter b = ALPHABET ! i) \<circ> of_nat) ns = filter ?P ns"
      by (intro filter_cong) auto
    moreover have "length (filter ?P ns) = card (set (filter ?P ns))"
      by (rule distinct_card [symmetric], rule distinct_filter) (simp only: ns distinct_upt)
    moreover have "set (filter ?P ns) = {n. n < 256 \<and> ?P n}" by (simp only: ns set_filter set_upt) auto
    moreover have "{n. n < 256 \<and> ?P n} = {i, i + 88}"
    proof -
      have "n = i \<or> n = i + 88" if "?P n" for n
      proof -
        from that have "n div 88 < 2" by (simp add: div_less_iff_less_mult)
        then consider "n div 88 = 0" | "n div 88 = 1" by linarith
        then show ?thesis using that div_mult_mod_eq [of n 88] by cases auto
      qed
      then show ?thesis using i by auto
    qed
    moreover have "card {i, i + 88} = 2" by simp
    ultimately show ?thesis by (simp only: filter_map length_map)
  qed
  note two = this [OF _ refl]
  show ?thesis
    unfolding list_all_iff
  proof
    fix c assume "c \<in> set ALPHABET"
    then obtain i where "i < 88" "c = ALPHABET ! i" unfolding in_set_conv_nth length_ALPHABET by blast
    with two [of i] show "length (filter (\<lambda>b. good_byte b \<and> letter b = c) (map of_nat [0..<256])) = 2" by (simp only:)
  qed
qed

text \<open>
  The generator returns as soon as its random source has given 22 bytes below the cutoff, and
  never a short password: the result is the letters of the first 22 such bytes. Rejecting the rest
  leaves no bias, for every letter of the alphabet belongs to exactly two of the 256 byte values.
\<close>

theorem generate_uniform:
  "generate blocks =
     (if length (filter good_byte (concat blocks)) < 22 then None
      else Some (map letter (take 22 (filter good_byte (concat blocks)))))
   \<and> list_all (\<lambda>c. length (filter (\<lambda>b. good_byte b \<and> letter b = c) (map of_nat [0..<256])) = 2) ALPHABET"
proof
  show "generate blocks = (if length (filter good_byte (concat blocks)) < 22 then None
      else Some (map letter (take 22 (filter good_byte (concat blocks)))))"
    using generate_loop_spec [of "[]" blocks]
    by (simp add: generate_def letters_def CONN_PASS_LENGTH_def Let_def take_map)
qed (rule letters_even)

section \<open>Labels\<close>

lemma cut_back_spec: "cut_back s k \<le> k \<and> is_char_boundary s (cut_back s k)"
proof (induction s k rule: cut_back.induct)
  case (1 s k)
  show ?case
  proof (cases "is_char_boundary s k")
    case False
    with 1 show ?thesis by (subst (1 2) cut_back.simps) auto
  qed (simp add: cut_back.simps)
qed

lemma cut_back_greatest: "j \<le> k \<Longrightarrow> is_char_boundary s j \<Longrightarrow> j \<le> cut_back s k"
proof (induction s k rule: cut_back.induct)
  case (1 s k)
  show ?case
  proof (cases "is_char_boundary s k")
    case True
    with 1 show ?thesis by (simp add: cut_back.simps)
  next
    case False
    with 1 have "j \<le> k - 1" by (metis diff_Suc_1 le_SucE less_Suc_eq_le not_less_eq_eq old.nat.exhaust zero_le)
    with 1 False show ?thesis by (subst cut_back.simps) simp
  qed
qed

definition label_ok :: "cp_entry \<Rightarrow> bool" where
  "label_ok e \<longleftrightarrow> length (cp_label e) \<le> MAX_LABEL_LEN"

text \<open>
  A label is what is left of the trimmed input when it is cut to at most 64 bytes at a
  character boundary, and as much of it as such a cut can keep.
\<close>

theorem labels_cut_at_boundary:
  "\<exists>n. normalize_label l = take n (trim l) \<and> n \<le> MAX_LABEL_LEN \<and> is_char_boundary (trim l) n
     \<and> list_all (\<lambda>j. is_char_boundary (trim l) j = (j \<le> n \<and> is_char_boundary (trim l) j))
         [0..<Suc (min (length (trim l)) MAX_LABEL_LEN)]"
proof -
  let ?k = "min (length (trim l)) MAX_LABEL_LEN"
  let ?n = "cut_back (trim l) ?k"
  have "?n \<le> MAX_LABEL_LEN" using cut_back_spec [of "trim l" ?k] by simp
  moreover have "list_all (\<lambda>j. is_char_boundary (trim l) j = (j \<le> ?n \<and> is_char_boundary (trim l) j)) [0..<Suc ?k]"
    using cut_back_greatest [of _ ?k "trim l"] by (auto simp: list_all_iff less_Suc_eq_le)
  ultimately show ?thesis
    using cut_back_spec [of "trim l" ?k] by (auto simp: normalize_label_def Let_def)
qed

lemma normalize_label_length: "length (normalize_label l) \<le> MAX_LABEL_LEN"
  using cut_back_spec [of "trim l" "min (length (trim l)) MAX_LABEL_LEN"] by (simp add: normalize_label_def Let_def)

section \<open>The store over a run\<close>

datatype cp_event =
    Create string ttl string string string instant "string option"
  | SetTtl string ttl instant "string option"
  | Rotate string string string instant "string option"
  | Revoke string "string option"
  | Rename string string "string option"

fun cp_step :: "cp_store \<Rightarrow> cp_event \<Rightarrow> cp_store" where
  "cp_step st (Create l t plain h i now io) = snd (create l t plain h i now io st)"
| "cp_step st (SetTtl i t now io) = snd (set_ttl i t now io st)"
| "cp_step st (Rotate i plain h now io) = snd (rotate i plain h now io st)"
| "cp_step st (Revoke i io) = snd (revoke i io st)"
| "cp_step st (Rename i l io) = snd (rename i l io st)"

text \<open>The random id of a new entry is fresh.\<close>

fun cp_enabled :: "cp_store \<Rightarrow> cp_event \<Rightarrow> bool" where
  "cp_enabled st (Create l t plain h i now io) = (i \<notin> set (map cp_id (cs_entries st)))"
| "cp_enabled st e = True"

definition cp_inv :: "cp_store \<Rightarrow> bool" where
  "cp_inv st \<longleftrightarrow> length (cs_entries st) \<le> MAX_ENTRIES \<and> distinct (map cp_id (cs_entries st))
     \<and> list_all label_ok (cs_entries st)"

lemma persist_entries [simp]: "cs_entries (snd (persist io st)) = cs_entries st"
  by (simp add: persist_def split: option.split)

lemma mutate_entries:
  "cs_entries (snd (mutate i f io st)) =
     (if find_entry i (cs_entries st) = None then cs_entries st else update_first i f (cs_entries st))"
proof (cases "find_entry i (cs_entries st)")
  case (Some e)
  then show ?thesis by (simp add: mutate_def persist_def split: option.split)
qed (simp add: mutate_def)

lemma through_mutate [simp]:
  "snd (set_ttl i t now io st) = snd (mutate i (\<lambda>e. e\<lparr>cp_expires_at := expiry_for now t\<rparr>) io st)"
  "snd (rotate i plain h now io st) =
     snd (mutate i (\<lambda>e. e\<lparr>cp_hash := h, cp_generation := cp_generation e + 1, cp_created_at := now\<rparr>) io st)"
  "snd (rename i l io st) = snd (mutate i (\<lambda>e. e\<lparr>cp_label := normalize_label l\<rparr>) io st)"
  by (simp_all add: set_ttl_def rotate_def rename_def split: prod.split sum.split)

lemma create_entries:
  "cs_entries (snd (create l t plain h i now io st)) =
     (if length (cs_entries st) \<ge> MAX_ENTRIES then cs_entries st
      else cs_entries st @ [\<lparr>cp_id = i, cp_label = normalize_label l, cp_hash = h, cp_generation = 1,
             cp_created_at = now, cp_expires_at = expiry_for now t\<rparr>])"
  by (simp add: create_def Let_def persist_def split: option.split)

lemma update_first_ids: "(\<And>e. cp_id (f e) = cp_id e) \<Longrightarrow> map cp_id (update_first i f es) = map cp_id es"
  by (induction es) auto

lemma update_first_all: "list_all P es \<Longrightarrow> (\<And>e. P e \<Longrightarrow> P (f e)) \<Longrightarrow> list_all P (update_first i f es)"
  by (induction es) auto

lemma mutate_inv:
  assumes "cp_inv st" and "\<And>e. cp_id (f e) = cp_id e" and "\<And>e. label_ok e \<Longrightarrow> label_ok (f e)"
  shows "cp_inv (snd (mutate i f io st))"
proof -
  have "map cp_id (update_first i f (cs_entries st)) = map cp_id (cs_entries st)"
    by (rule update_first_ids) (rule assms(2))
  moreover from this have "length (update_first i f (cs_entries st)) = length (cs_entries st)"
    by (metis length_map)
  ultimately show ?thesis
    using assms(1) update_first_all [of label_ok "cs_entries st" f i] assms(3)
    by (simp add: cp_inv_def mutate_entries)
qed

lemma remove_first_sub: "set (remove_first i es) \<subseteq> set es" "length (remove_first i es) \<le> length es"
  "distinct (map cp_id es) \<Longrightarrow> map cp_id (remove_first i es) = filter (\<lambda>x. x \<noteq> i) (map cp_id es)"
  by (induction es) (auto intro!: filter_True [symmetric])

lemma revoke_entries:
  "cs_entries (snd (revoke i io st)) =
     (if find_entry i (cs_entries st) = None then cs_entries st else remove_first i (cs_entries st))"
  by (simp add: revoke_def)

lemma cp_step_inv: "cp_inv st \<Longrightarrow> cp_enabled st ev \<Longrightarrow> cp_inv (cp_step st ev)"
proof (cases ev)
  case (Create l t plain h i now io)
  assume "cp_inv st" "cp_enabled st ev"
  with Create show ?thesis
    using normalize_label_length [of l] by (auto simp: cp_inv_def create_entries label_ok_def)
next
  case (Revoke i io)
  assume "cp_inv st"
  with Revoke show ?thesis
    using remove_first_sub [where i = i and es = "cs_entries st"] by (auto simp: cp_inv_def revoke_entries list_all_iff)
qed (auto intro!: mutate_inv simp: label_ok_def normalize_label_length)

interpretation connpass: stepper cp_step cp_enabled cp_inv
  by unfold_locales (rule cp_step_inv)

text \<open>
  Over any run from an empty store, whether or not its writes to disk succeed, there are at
  most 16 entries, their ids are pairwise different, and no label is longer than 64 bytes.
\<close>

theorem connpass_bounded:
  assumes "valid_run cp_step cp_enabled \<lparr>cs_entries = [], cs_file = None\<rparr> es"
  shows "cp_inv (foldl cp_step \<lparr>cs_entries = [], cs_file = None\<rparr> es)"
  by (rule connpass.inv_run [OF _ assms]) (simp add: cp_inv_def)

theorem connpass_bounded_witness:
  "cp_inv (foldl cp_step \<lparr>cs_entries = [], cs_file = None\<rparr>
     [Create ''friends'' Never ''p'' ''h'' ''id1'' 5 None, Rotate ''id1'' ''q'' ''g'' 6 (Some ''disk full'')])"
  by (rule connpass_bounded) (simp add: create_def persist_def Let_def MAX_ENTRIES_def)

section \<open>What is on disk\<close>

fun error_of :: "'e + 'a \<Rightarrow> 'e option" where
  "error_of (Inl e) = Some e"
| "error_of (Inr x) = None"

fun cp_error_of :: "cp_store \<Rightarrow> cp_event \<Rightarrow> cp_error option" where
  "cp_error_of st (Create l t plain h i now io) = error_of (fst (create l t plain h i now io st))"
| "cp_error_of st (SetTtl i t now io) = error_of (fst (set_ttl i t now io st))"
| "cp_error_of st (Rotate i plain h now io) = error_of (fst (rotate i plain h now io st))"
| "cp_error_of st (Revoke i io) = error_of (fst (revoke i io st))"
| "cp_error_of st (Rename i l io) = error_of (fst (rename i l io st))"

lemma mutate_outcome:
  "case error_of (fst (mutate i f io st)) of
     None \<Rightarrow> load_store (FileHolds (cs_file (snd (mutate i f io st)))) = Inr (snd (mutate i f io st))
   | Some (IoErr e) \<Rightarrow> cs_file (snd (mutate i f io st)) = cs_file st
   | Some _ \<Rightarrow> snd (mutate i f io st) = st"
  by (simp add: mutate_def persist_def load_store_def Let_def split: option.split)

lemma through_mutate_error:
  "error_of (fst (set_ttl i t now io st)) = error_of (fst (mutate i (\<lambda>e. e\<lparr>cp_expires_at := expiry_for now t\<rparr>) io st))"
  "error_of (fst (rotate i plain h now io st)) = error_of (fst
     (mutate i (\<lambda>e. e\<lparr>cp_hash := h, cp_generation := cp_generation e + 1, cp_created_at := now\<rparr>) io st))"
  "error_of (fst (rename i l io st)) = error_of (fst (mutate i (\<lambda>e. e\<lparr>cp_label := normalize_label l\<rparr>) io st))"
  by (simp_all add: set_ttl_def rotate_def rename_def split: prod.split sum.split)

text \<open>
  What an operation reports is what is on disk: when it succeeds, loading the file gives back
  exactly the store; when the entry does not exist or the store is full, nothing has changed; when
  the write fails, the file is still the old one.
\<close>

theorem connpass_durable:
  "case cp_error_of st ev of
     None \<Rightarrow> load_store (FileHolds (cs_file (cp_step st ev))) = Inr (cp_step st ev)
   | Some (IoErr e) \<Rightarrow> cs_file (cp_step st ev) = cs_file st
   | Some _ \<Rightarrow> cp_step st ev = st"
proof (cases ev)
  case (Create l t plain h i now io)
  then show ?thesis by (simp add: create_def persist_def load_store_def Let_def split: option.split)
next
  case (Revoke i io)
  then show ?thesis by (simp add: revoke_def persist_def load_store_def Let_def split: option.split)
qed (simp_all only: cp_error_of.simps cp_step.simps through_mutate_error through_mutate mutate_outcome)

text \<open>
  C37. A rotation whose write fails reports the error, and yet the entry in memory has the new hash and
  generation: the old password is dead, the new one was never shown, and the file has the old.
\<close>

theorem failed_rotation_takes_effect:
  assumes "find_entry i (cs_entries st) = Some e"
  shows "fst (rotate i plain h now (Some err) st) = Inl (IoErr err)
    \<and> find_entry i (cs_entries (snd (rotate i plain h now (Some err) st)))
        = Some (e\<lparr>cp_hash := h, cp_generation := cp_generation e + 1, cp_created_at := now\<rparr>)
    \<and> cs_file (snd (rotate i plain h now (Some err) st)) = cs_file st"
proof -
  have "find_entry i (update_first i f es) = map_option f (find_entry i es)" if "\<And>e. cp_id (f e) = cp_id e" for f es
    using that by (induction es) (auto simp: find_entry_def)
  then show ?thesis using assms by (simp add: rotate_def mutate_def persist_def)
qed

theorem failed_rotation_takes_effect_witness:
  "fst (rotate ''i'' ''p'' ''h2'' 9 (Some ''disk full'') (snd (create ''l'' Never ''o'' ''h1'' ''i'' 5 None
      \<lparr>cs_entries = [], cs_file = None\<rparr>))) = Inl (IoErr ''disk full'')"
  using failed_rotation_takes_effect
    [of "''i''" "snd (create ''l'' Never ''o'' ''h1'' ''i'' 5 None \<lparr>cs_entries = [], cs_file = None\<rparr>)"]
  by (simp add: create_def persist_def find_entry_def Let_def MAX_ENTRIES_def)

end
