(* ===== verification/HttpText.thy ===== *)
theory HttpText
  imports Util
begin

text \<open>
  \<open>backend/src/http/mod.rs\<close>: responses, percent-encoding, forms, paths and durations as text.
  A header map is the list of its lines, names in lower case. JSON bodies are JSON values: the
  text is \<open>serde_json\<close>'s. Rust's UTF-8 validation is written out, for \<open>from_utf8\<close> and
  \<open>from_utf8_lossy\<close>.
\<close>

section \<open>The standard library: UTF-8\<close>

text \<open>How the next bytes start: a valid character or an invalid piece, and its length.\<close>

fun utf8_second :: "nat \<Rightarrow> nat \<Rightarrow> bool" where
  "utf8_second b n \<longleftrightarrow>
     (if b = 224 then 160 \<le> n \<and> n < 192
      else if b = 237 then 128 \<le> n \<and> n < 160
      else if b = 240 then 144 \<le> n \<and> n < 192
      else if b = 244 then 128 \<le> n \<and> n < 144
      else 128 \<le> n \<and> n < 192)"

definition utf8_width :: "nat \<Rightarrow> nat" where
  "utf8_width b =
     (if b < 128 then 1 else if 194 \<le> b \<and> b < 224 then 2 else if 224 \<le> b \<and> b < 240 then 3
      else if 240 \<le> b \<and> b < 245 then 4 else 0)"

text \<open>A byte past the end reads as 0, which continues nothing.\<close>

definition byte_at :: "string \<Rightarrow> nat \<Rightarrow> nat" where
  "byte_at s i = (if i < length s then byte_of (s ! i) else 0)"

definition cont_byte :: "nat \<Rightarrow> bool" where
  "cont_byte n \<longleftrightarrow> 128 \<le> n \<and> n < 192"

definition utf8_next :: "string \<Rightarrow> bool \<times> nat" where
  "utf8_next s =
     (let b = byte_at s 0; w = utf8_width b
      in if w = 0 then (False, 1)
         else if w = 1 then (True, 1)
         else if \<not> utf8_second b (byte_at s 1) then (False, 1)
         else if w = 2 then (True, 2)
         else if \<not> cont_byte (byte_at s 2) then (False, 2)
         else if w = 3 then (True, 3)
         else if \<not> cont_byte (byte_at s 3) then (False, 3)
         else (True, 4))"

lemma utf8_next_pos: "0 < snd (utf8_next s)"
  by (simp add: utf8_next_def Let_def)

function utf8_valid :: "string \<Rightarrow> bool" where
  "utf8_valid s = (if s = [] then True else fst (utf8_next s) \<and> utf8_valid (drop (snd (utf8_next s)) s))"
  by pat_completeness auto
termination
  using utf8_next_pos by (relation "measure length") auto

declare utf8_valid.simps [simp del]

definition from_utf8 :: "string \<Rightarrow> string option" where
  "from_utf8 s = (if utf8_valid s then Some s else None)"

definition REPLACEMENT :: string where
  "REPLACEMENT = ascii [239, 191, 189]"

function from_utf8_lossy :: "string \<Rightarrow> string" where
  "from_utf8_lossy s =
     (if s = [] then []
      else (if fst (utf8_next s) then take (snd (utf8_next s)) s else REPLACEMENT)
             @ from_utf8_lossy (drop (snd (utf8_next s)) s))"
  by pat_completeness auto
termination
  using utf8_next_pos by (relation "measure length") auto

declare from_utf8_lossy.simps [simp del]

lemma lossy_valid: "utf8_valid s \<Longrightarrow> from_utf8_lossy s = s"
proof (induction s rule: from_utf8_lossy.induct)
  case (1 s)
  show ?case
  proof (cases "s = []")
    case False
    with 1 have "fst (utf8_next s)" "from_utf8_lossy (drop (snd (utf8_next s)) s) = drop (snd (utf8_next s)) s"
      using utf8_valid.simps [of s] by auto
    with False show ?thesis by (simp add: from_utf8_lossy.simps [of s])
  qed (simp add: from_utf8_lossy.simps)
qed

section \<open>The code: headers and responses\<close>

datatype http_method = GET | HEAD | POST | DELETE | CONNECT | OtherMethod string

type_synonym headers = "(string \<times> string) list"

definition header_get :: "string \<Rightarrow> headers \<Rightarrow> string option" where
  "header_get name h = map_option snd (List.find (\<lambda>(k, _). k = name) h)"

definition header_all :: "string \<Rightarrow> headers \<Rightarrow> string list" where
  "header_all name h = map snd (filter (\<lambda>(k, _). k = name) h)"

definition header_insert :: "string \<Rightarrow> string \<Rightarrow> headers \<Rightarrow> headers" where
  "header_insert name v h = filter (\<lambda>(k, _). k \<noteq> name) h @ [(name, v)]"

text \<open>\<open>HeaderValue::to_str\<close> and \<open>from_str\<close> take visible ASCII and tabs only.\<close>

definition header_str :: "string \<Rightarrow> string option" where
  "header_str v = (if list_all (\<lambda>ch. 32 \<le> byte_of ch \<and> byte_of ch < 127 \<or> byte_of ch = 9) v then Some v else None)"

text \<open>
  JSON values. \<open>JNum\<close> is a number \<open>serde_json\<close> keeps as an integer (of 64 bits), \<open>JFloat\<close> any other
  number, by its text. The members of an object are in their order, with duplicates.
\<close>

datatype json =
  JNull | JBool bool | JNum int | JFloat string | JStr string | JArr "json list" | JObj "(string \<times> json) list"

text \<open>A body is text, a JSON value with the newline after it, or the event stream of a presence subscription.\<close>

datatype body = Text string | Json json | Events nat

record resp =
  rs_status :: nat
  rs_headers :: headers
  rs_body :: body

definition response :: "nat \<Rightarrow> body \<Rightarrow> resp" where
  "response status b = \<lparr>rs_status = status, rs_headers = [], rs_body = b\<rparr>"

definition with_header :: "string \<Rightarrow> string \<Rightarrow> resp \<Rightarrow> resp" where
  "with_header name v r = r\<lparr>rs_headers := header_insert name v (rs_headers r)\<rparr>"

definition error_resp :: "nat \<Rightarrow> string \<Rightarrow> resp" where
  "error_resp status msg =
     with_header ''x-content-type-options'' ''nosniff''
       (with_header ''content-type'' ''text/plain; charset=utf-8'' (response status (Text (msg @ [nl]))))"

definition not_found :: resp where
  "not_found = error_resp 404 ''404 page not found''"

text \<open>\<open>serve_fs\<close>: the answer of a file service, with this server's 404.\<close>

definition serve_fs :: "resp \<Rightarrow> resp" where
  "serve_fs r = (if rs_status r = 404 then not_found else r)"

definition no_content :: resp where
  "no_content = response 204 (Text [])"

definition json_resp :: "nat \<Rightarrow> json \<Rightarrow> resp" where
  "json_resp status v = with_header ''content-type'' ''application/json'' (response status (Json v))"

definition replace_char :: "char \<Rightarrow> string \<Rightarrow> string \<Rightarrow> string" where
  "replace_char c r s = concat (map (\<lambda>x. if x = c then r else [x]) s)"

definition html_escape :: "string \<Rightarrow> string" where
  "html_escape s =
     replace_char (CHR 0x27) ''&#39;'' (replace_char (CHR ''\"'') ''&#34;'' (replace_char (CHR ''>'') ''&gt;''
       (replace_char (CHR ''<'') ''&lt;'' (replace_char (CHR ''&'') ''&amp;'' s))))"

text \<open>\<open>canonical_reason\<close> for the three redirect statuses the code uses.\<close>

definition canonical_reason :: "nat \<Rightarrow> string" where
  "canonical_reason status =
     (if status = 301 then ''Moved Permanently'' else if status = 302 then ''Found''
      else if status = 303 then ''See Other'' else [])"

definition set_header :: "string \<Rightarrow> string \<Rightarrow> resp \<Rightarrow> resp" where
  "set_header name v r = (case header_str v of None \<Rightarrow> r | Some _ \<Rightarrow> with_header name v r)"

definition redirect :: "http_method \<Rightarrow> string \<Rightarrow> nat \<Rightarrow> resp" where
  "redirect m location status =
     (if m = GET \<or> m = HEAD
      then with_header ''content-type'' ''text/html; charset=utf-8''
             (set_header ''location'' location
               (response status (Text (''<a href=\"'' @ html_escape location @ ''\">'' @ canonical_reason status @ ''</a>.''
                 @ [nl, nl]))))
      else set_header ''location'' location (response status (Text [])))"

section \<open>The code: percent-encoding and forms\<close>

definition hex_val :: "char \<Rightarrow> nat option" where
  "hex_val c =
     (let b = byte_of c
      in if 48 \<le> b \<and> b \<le> 57 then Some (b - 48)
         else if 97 \<le> b \<and> b \<le> 102 then Some (b - 97 + 10)
         else if 65 \<le> b \<and> b \<le> 70 then Some (b - 65 + 10)
         else None)"

fun form_bytes :: "string \<Rightarrow> string" where
  "form_bytes [] = []"
| "form_bytes (c # cs) =
     (if c = CHR ''+'' then CHR '' '' # form_bytes cs
      else if c = CHR ''%'' \<and> 2 \<le> length cs
      then (case (hex_val (cs ! 0), hex_val (cs ! 1)) of
              (Some h, Some l) \<Rightarrow> char_of (16 * h + l) # form_bytes (drop 2 cs)
            | _ \<Rightarrow> CHR ''%'' # form_bytes cs)
      else c # form_bytes cs)"

definition form_decode :: "string \<Rightarrow> string" where
  "form_decode s = from_utf8_lossy (form_bytes s)"

text \<open>None when an escape is cut off or is no number.\<close>

fun percent_decode :: "string \<Rightarrow> string option" where
  "percent_decode [] = Some []"
| "percent_decode (c # cs) =
     (if c = CHR ''%''
      then (case cs of
              a # b # rest \<Rightarrow>
                (case (hex_val a, hex_val b) of
                   (Some h, Some l) \<Rightarrow> map_option (\<lambda>r. char_of (16 * h + l) # r) (percent_decode rest)
                 | _ \<Rightarrow> None)
            | _ \<Rightarrow> None)
      else map_option (\<lambda>r. c # r) (percent_decode cs))"

definition ascii_alnum :: "char \<Rightarrow> bool" where
  "ascii_alnum c \<longleftrightarrow> is_digit c \<or> 65 \<le> byte_of c \<and> byte_of c \<le> 90 \<or> 97 \<le> byte_of c \<and> byte_of c \<le> 122"

definition path_keep :: "char \<Rightarrow> bool" where
  "path_keep c \<longleftrightarrow> ascii_alnum c \<or> c \<in> set ''-_.~$&+=:@''"

definition upper_hex :: string where
  "upper_hex = ''0123456789ABCDEF''"

definition path_escape :: "string \<Rightarrow> string" where
  "path_escape s =
     concat (map (\<lambda>c. if path_keep c then [c]
                       else [CHR ''%'', upper_hex ! (byte_of c div 16), upper_hex ! (byte_of c mod 16)]) s)"

definition parse_form :: "string \<Rightarrow> (string, string) hashmap" where
  "parse_form s =
     foldl (\<lambda>m pair.
       if pair = [] then m
       else (let (k, v) = (case split_once (CHR ''='') pair of None \<Rightarrow> (pair, []) | Some kv \<Rightarrow> kv);
                 key = form_decode k
             in if hget m key = None then hput key (form_decode v) m else m))
       [] (split_on (CHR ''&'') s)"

definition query :: "string option \<Rightarrow> (string, string) hashmap" where
  "query q = parse_form (case q of None \<Rightarrow> [] | Some s \<Rightarrow> s)"

section \<open>The code: durations and paths\<close>

definition trim_end_matches :: "char \<Rightarrow> string \<Rightarrow> string" where
  "trim_end_matches c s = rev (dropWhile (\<lambda>x. x = c) (rev s))"

definition pad_zeros :: "nat \<Rightarrow> nat \<Rightarrow> string" where
  "pad_zeros w n = replicate (w - length (dec n)) (CHR ''0'') @ dec n"

definition go_duration_ms :: "duration \<Rightarrow> string" where
  "go_duration_ms d =
     (let ms = (d + 500000) div 1000000
      in if ms = 0 then ''0s''
         else if ms < 1000 then dec ms @ ''ms''
         else let total = ms div 1000; frac = ms mod 1000;
                  h = total div 3600; m = (total div 60) mod 60; s = total mod 60;
                  sec = dec s @ (if frac \<noteq> 0 then trim_end_matches (CHR ''0'') (''.'' @ pad_zeros 3 frac) else [])
              in if h > 0 then dec h @ ''h'' @ dec m @ ''m'' @ sec @ ''s''
                 else if m > 0 then dec m @ ''m'' @ sec @ ''s''
                 else sec @ ''s'')"

definition clean_step :: "string list \<Rightarrow> string \<Rightarrow> string list" where
  "clean_step parts seg =
     (if seg = [] \<or> seg = ''.'' then parts
      else if seg = ''..'' then butlast parts
      else parts @ [seg])"

definition join_with :: "string \<Rightarrow> string list \<Rightarrow> string" where
  "join_with sep ss = (case ss of [] \<Rightarrow> [] | x # xs \<Rightarrow> x @ concat (map (\<lambda>y. sep @ y) xs))"

definition clean_path :: "string \<Rightarrow> string" where
  "clean_path p =
     (let parts = foldl clean_step [] (split_on (CHR ''/'') p);
          out = ''/'' @ join_with ''/'' parts
      in if ends_with ''/'' p \<and> out \<noteq> ''/'' then out @ ''/'' else out)"

section \<open>Escaping loses nothing\<close>

lemma hex_val_upper: "i < 16 \<Longrightarrow> hex_val (upper_hex ! i) = Some i"
proof -
  have "list_all (\<lambda>i. hex_val (upper_hex ! i) = Some i) [0..<16]"
    by (simp add: upper_hex_def hex_val_def upt_rec)
  then show "i < 16 \<Longrightarrow> hex_val (upper_hex ! i) = Some i" by (simp add: list_all_iff)
qed

lemma path_keep_not_percent: "path_keep c \<Longrightarrow> c \<noteq> CHR ''%''"
  by (auto simp: path_keep_def ascii_alnum_def is_digit_def)

lemma byte_nibbles: "byte_of c div 16 < 16" "byte_of c mod 16 < 16"
proof -
  have "byte_of c < 256" by simp
  then show "byte_of c div 16 < 16" by linarith
qed simp

lemma path_escape_Cons:
  "path_escape (c # s) =
     (if path_keep c then [c]
      else [CHR ''%'', upper_hex ! (byte_of c div 16), upper_hex ! (byte_of c mod 16)]) @ path_escape s"
  by (simp add: path_escape_def)

lemma percent_decode_path_escape: "percent_decode (path_escape s) = Some s"
proof (induction s)
  case Nil
  then show ?case by (simp add: path_escape_def)
next
  case (Cons c s)
  have d: "16 * (byte_of c div 16) + byte_of c mod 16 = byte_of c" by simp
  show ?case
    using Cons path_keep_not_percent [of c]
    by (auto simp: path_escape_Cons hex_val_upper [OF byte_nibbles(1)] hex_val_upper [OF byte_nibbles(2)] d)
qed

lemma path_escape_chars: "c \<in> set (path_escape s) \<Longrightarrow> path_keep c \<or> c = CHR ''%'' \<or> c \<in> set upper_hex"
proof (induction s)
  case (Cons x s)
  have "length upper_hex = 16" by (simp add: upper_hex_def)
  then have "byte_of x div 16 < length upper_hex" "byte_of x mod 16 < length upper_hex"
    using byte_nibbles [of x] by simp_all
  then show ?case using Cons by (auto simp: path_escape_Cons split: if_splits)
qed (simp add: path_escape_def)

section \<open>Clean paths\<close>

definition real_segment :: "string \<Rightarrow> bool" where
  "real_segment s \<longleftrightarrow> s \<noteq> [] \<and> s \<noteq> ''.'' \<and> s \<noteq> ''..'' \<and> CHR ''/'' \<notin> set s"

lemma clean_step_real:
  "list_all real_segment parts \<Longrightarrow> CHR ''/'' \<notin> set seg \<Longrightarrow> list_all real_segment (clean_step parts seg)"
  by (auto simp: clean_step_def real_segment_def list_all_iff dest: in_set_butlastD)

lemma clean_fold_real:
  "list_all real_segment parts \<Longrightarrow> list_all (\<lambda>s. CHR ''/'' \<notin> set s) segs
    \<Longrightarrow> list_all real_segment (foldl clean_step parts segs)"
  by (induction segs arbitrary: parts) (auto intro: clean_step_real)

lemma clean_fold_id: "list_all real_segment segs \<Longrightarrow> foldl clean_step parts segs = parts @ segs"
  by (induction segs arbitrary: parts) (auto simp: clean_step_def real_segment_def)

lemma split_on_pieces: "list_all (\<lambda>s. c \<notin> set s) (split_on c s)"
  using split_by_pieces [of _ "\<lambda>x. x = c" s] by (auto simp: split_on_def list_all_iff)

lemma split_on_joined:
  "segs \<noteq> [] \<Longrightarrow> list_all (\<lambda>s. c \<notin> set s) segs \<Longrightarrow> split_on c (join_with [c] segs) = segs"
proof (induction segs)
  case (Cons x xs)
  show ?case
  proof (cases xs)
    case (Cons y ys)
    then have "join_with [c] (x # xs) = x @ c # join_with [c] xs" by (simp add: join_with_def)
    then show ?thesis using Cons.IH Cons.prems Cons by (simp add: split_on_append)
  qed (use Cons.prems in \<open>simp add: join_with_def split_on_none\<close>)
qed simp

lemma split_on_trailing: "split_on c (s @ [c]) = split_on c s @ [[]]"
  by (induction s) (auto simp: split_on_def split: list.splits)

lemma split_on_first: "split_on c (c # s) = [] # split_on c s"
  by (simp add: split_on_def)

lemma cleaned_form:
  obtains parts slash where "list_all real_segment parts" and "parts = [] \<longrightarrow> slash = []" and "slash = [] \<or> slash = ''/''"
    and "clean_path p = ''/'' @ join_with ''/'' parts @ slash"
proof -
  let ?parts = "foldl clean_step [] (split_on (CHR ''/'') p)"
  have r: "list_all real_segment ?parts" by (rule clean_fold_real) (simp_all add: split_on_pieces)
  let ?out = "''/'' @ join_with ''/'' ?parts"
  have e: "?parts = [] \<longrightarrow> ?out = ''/''" by (simp add: join_with_def)
  show thesis
  proof (cases "ends_with ''/'' p \<and> ?out \<noteq> ''/''")
    case True
    then have "clean_path p = ''/'' @ join_with ''/'' ?parts @ ''/''" by (simp add: clean_path_def Let_def)
    with True e show thesis using that [OF r, of "''/''"] by blast
  next
    case False
    then have "clean_path p = ''/'' @ join_with ''/'' ?parts @ []" by (auto simp: clean_path_def Let_def)
    then show thesis using that [OF r, of "[]"] by blast
  qed
qed

lemma join_real_last: "list_all real_segment parts \<Longrightarrow> parts \<noteq> [] \<Longrightarrow>
    join_with ''/'' parts \<noteq> [] \<and> hd (join_with ''/'' parts) \<noteq> CHR ''/'' \<and> last (join_with ''/'' parts) \<noteq> CHR ''/''"
proof (induction parts rule: rev_induct)
  case (snoc x xs)
  have x: "x \<noteq> []" "CHR ''/'' \<notin> set x" using snoc.prems by (auto simp: real_segment_def)
  have j: "join_with ''/'' (xs @ [x]) = (if xs = [] then x else join_with ''/'' xs @ ''/'' @ x)"
    by (cases xs) (auto simp: join_with_def)
  have "hd x \<noteq> CHR ''/''" "last x \<noteq> CHR ''/''" using x by (metis hd_in_set, metis last_in_set)
  then show ?case using snoc x by (auto simp: j)
qed simp

lemma ends_with_last: "ends_with [c] s \<longleftrightarrow> s \<noteq> [] \<and> last s = c"
  by (cases s rule: rev_cases) (auto simp: ends_with_def)

text \<open>
  Redirects to the cleaned path end and stay on this host: cleaning is idempotent, so the
  redirected request is routed; the result is rooted, has no empty first segment (\<open>//host\<close>
  would leave the site) and no dot segment that could climb out of a served directory.
\<close>

theorem clean_path_normal:
  "clean_path (clean_path p) = clean_path p
   \<and> starts_with ''/'' (clean_path p) \<and> \<not> starts_with ''//'' (clean_path p)
   \<and> ''..'' \<notin> set (split_on (CHR ''/'') (clean_path p)) \<and> ''.'' \<notin> set (split_on (CHR ''/'') (clean_path p))"
proof -
  obtain parts slash where r: "list_all real_segment parts" and e: "parts = [] \<longrightarrow> slash = []" "slash = [] \<or> slash = ''/''"
    and c: "clean_path p = ''/'' @ join_with ''/'' parts @ slash" by (rule cleaned_form)
  have nos: "list_all (\<lambda>s. CHR ''/'' \<notin> set s) parts" using r by (auto simp: real_segment_def list_all_iff)
  show ?thesis
  proof (cases "parts = []")
    case True
    with e c have "clean_path p = ''/''" by (simp add: join_with_def)
    then show ?thesis by (simp add: clean_path_def split_on_def clean_step_def join_with_def starts_with_def)
  next
    case False
    note j = join_real_last [OF r False]
    have s: "split_on (CHR ''/'') (clean_path p) = [] # parts @ (if slash = [] then [] else [[]])"
      using e(2) split_on_joined [OF False nos] split_on_trailing [of "CHR ''/''" "CHR ''/'' # join_with ''/'' parts"]
      by (auto simp: c split_on_first)
    have f: "foldl clean_step [] (split_on (CHR ''/'') (clean_path p)) = parts"
      using clean_fold_id [OF r, of "[]"] by (simp add: s clean_step_def)
    have w: "ends_with ''/'' (clean_path p) \<longleftrightarrow> slash \<noteq> []"
      using j e(2) by (auto simp: c ends_with_last)
    have "clean_path (clean_path p) =
        (if slash \<noteq> [] \<and> ''/'' @ join_with ''/'' parts \<noteq> ''/'' then (''/'' @ join_with ''/'' parts) @ ''/''
         else ''/'' @ join_with ''/'' parts)"
      unfolding clean_path_def [of "clean_path p"] Let_def f w ..
    then have "clean_path (clean_path p) = clean_path p" using j e(2) by (auto simp only: c append.assoc) simp_all
    moreover have "starts_with ''/'' (clean_path p)" by (simp add: c starts_with_def)
    moreover have "\<not> starts_with ''//'' (clean_path p)"
      using j by (cases "join_with ''/'' parts") (auto simp: c starts_with_def)
    moreover have "''..'' \<notin> set parts" "''.'' \<notin> set parts" using r by (auto simp: real_segment_def list_all_iff)
    ultimately show ?thesis by (simp add: s)
  qed
qed

end
