(* ===== verification/Session.thy ===== *)
theory Session
  imports ConnPass HttpText
begin

text \<open>
  \<open>backend/src/auth/session.rs\<close> and \<open>auth/mod.rs\<close>: the signed session cookie, its parser, what
  makes a session live, and the registry of live connections. Times are nanoseconds; the HTTP
  date in the cookie comes from a calendar crate and is an argument.
\<close>

section \<open>The code: the signed cookie\<close>

datatype role = Admin | User

fun role_str :: "role \<Rightarrow> string" where
  "role_str Admin = ''admin''"
| "role_str User = ''user''"

record session =
  sn_role :: role
  sn_generation :: "64 word"
  sn_admin_version :: string
  sn_entry_id :: string

definition COOKIE_NAME :: string where "COOKIE_NAME = ''vh_session''"
definition SESSION_TTL :: duration where "SESSION_TTL = secs (30 * 24 * 3600)"

definition sign :: "crypto \<Rightarrow> string \<Rightarrow> string \<Rightarrow> string" where
  "sign c secret payload = cr_b64_url c (cr_hmac_sha256 c secret payload)"

definition admin_password_version :: "crypto \<Rightarrow> string \<Rightarrow> string \<Rightarrow> string" where
  "admin_password_version c secret password_hash = sign c secret (''admin-password:v2:'' @ password_hash)"

definition payload_of :: "role \<Rightarrow> 64 word \<Rightarrow> string \<Rightarrow> string \<Rightarrow> int \<Rightarrow> string" where
  "payload_of r g admin_ver entry_id exp_unix =
     dec_int exp_unix @ '':'' @ role_str r @ '':'' @ dec (unat g) @ '':'' @ admin_ver @ '':'' @ entry_id"

definition encode_at :: "crypto \<Rightarrow> string \<Rightarrow> role \<Rightarrow> 64 word \<Rightarrow> string \<Rightarrow> string \<Rightarrow> int \<Rightarrow> string" where
  "encode_at c secret r g admin_ver entry_id exp_unix =
     (let payload = payload_of r g admin_ver entry_id exp_unix in payload @ ''.'' @ sign c secret payload)"

definition encode :: "crypto \<Rightarrow> string \<Rightarrow> role \<Rightarrow> 64 word \<Rightarrow> string \<Rightarrow> string \<Rightarrow> duration \<Rightarrow> instant \<Rightarrow> string" where
  "encode c secret r g admin_ver entry_id ttl now =
     encode_at c secret r g admin_ver entry_id (unix_secs (now + ttl))"

definition decode :: "crypto \<Rightarrow> string \<Rightarrow> string \<Rightarrow> instant \<Rightarrow> session option" where
  "decode c secret value now =
     (case rsplit_once (CHR ''.'') value of
        None \<Rightarrow> None
      | Some (payload, sig) \<Rightarrow>
          if \<not> constant_time_str_eq c sig (sign c secret payload) then None
          else case splitn 5 (CHR '':'') payload of
                 [p0, p1, p2, p3, p4] \<Rightarrow>
                   (case parse_i64 p0 of
                      None \<Rightarrow> None
                    | Some ex \<Rightarrow>
                        (case (if p1 = ''admin'' then Some Admin else if p1 = ''user'' then Some User else None) of
                           None \<Rightarrow> None
                         | Some r \<Rightarrow>
                             (case parse_uint (2 ^ 64) p2 of
                                None \<Rightarrow> None
                              | Some g \<Rightarrow>
                                  if unix_secs now > ex then None
                                  else Some \<lparr>sn_role = r, sn_generation = of_nat g, sn_admin_version = p3,
                                             sn_entry_id = p4\<rparr>)))
               | _ \<Rightarrow> None)"

section \<open>The code: cookies\<close>

definition cookie_header :: "string \<Rightarrow> string \<Rightarrow> bool \<Rightarrow> string" where
  "cookie_header value lifetime secure =
     COOKIE_NAME @ ''='' @ value @ ''; Path=/; '' @ lifetime @ ''; HttpOnly'' @ (if secure then ''; Secure'' else [])
       @ ''; SameSite=Strict''"

definition session_cookie ::
  "crypto \<Rightarrow> bool \<Rightarrow> string \<Rightarrow> role \<Rightarrow> 64 word \<Rightarrow> string \<Rightarrow> string \<Rightarrow> instant \<Rightarrow> string \<Rightarrow> string" where
  "session_cookie c secure secret r g admin_ver entry_id now http_date =
     cookie_header (encode c secret r g admin_ver entry_id SESSION_TTL now)
       (''Expires='' @ http_date @ ''; Max-Age='' @ dec (SESSION_TTL div nanos_per_sec)) secure"

definition clear_cookie :: "bool \<Rightarrow> string" where
  "clear_cookie secure = cookie_header [] ''Max-Age=0'' secure"

definition cookie_value :: "string list \<Rightarrow> string \<Rightarrow> string option" where
  "cookie_value headers name =
     map_option (\<lambda>(k, v). trim_matches (CHR ''\"'') v)
       (List.find (\<lambda>(k, v). k = name)
         (List.map_filter (\<lambda>kv. split_once (CHR ''='') (trim kv))
           (concat (map (split_on (CHR '';'')) (List.map_filter header_str headers)))))"

definition from_headers :: "crypto \<Rightarrow> string \<Rightarrow> string list \<Rightarrow> instant \<Rightarrow> session option" where
  "from_headers c secret headers now =
     (case cookie_value headers COOKIE_NAME of None \<Rightarrow> None | Some v \<Rightarrow> decode c secret v now)"

section \<open>The code: live sessions\<close>

definition session_live :: "crypto \<Rightarrow> cp_store \<Rightarrow> string \<Rightarrow> instant \<Rightarrow> session \<Rightarrow> bool" where
  "session_live c st admin_ver now s =
     (case sn_role s of
        User \<Rightarrow> entry_generation (sn_entry_id s) now st = Some (sn_generation s)
      | Admin \<Rightarrow> constant_time_str_eq c (sn_admin_version s) admin_ver)"

definition valid_session :: "crypto \<Rightarrow> string \<Rightarrow> cp_store \<Rightarrow> string \<Rightarrow> string list \<Rightarrow> instant \<Rightarrow> session option" where
  "valid_session c secret st admin_ver headers now =
     (case from_headers c secret headers now of
        None \<Rightarrow> None
      | Some s \<Rightarrow> if session_live c st admin_ver now s then Some s else None)"

section \<open>The code: the registry of connections\<close>

text \<open>A cancellation token is a number; \<open>wr_cancelled\<close> lists the tokens cancelled so far.\<close>

record ws_registry =
  wr_next :: nat
  wr_entries :: "(nat, role \<times> nat) hashmap"
  wr_cancelled :: "nat list"

definition ws_add :: "role \<Rightarrow> nat \<Rightarrow> ws_registry \<Rightarrow> nat \<times> ws_registry" where
  "ws_add r cancel w = (let i = wr_next w + 1 in (i, w\<lparr>wr_next := i, wr_entries := hput i (r, cancel) (wr_entries w)\<rparr>))"

definition ws_remove :: "nat \<Rightarrow> ws_registry \<Rightarrow> ws_registry" where
  "ws_remove i w = w\<lparr>wr_entries := hdel i (wr_entries w)\<rparr>"

definition ws_disconnect :: "(role \<Rightarrow> bool) \<Rightarrow> ws_registry \<Rightarrow> nat \<times> ws_registry" where
  "ws_disconnect pick w =
     (let cancels = map snd (filter (\<lambda>(r, _). pick r) (hvals (wr_entries w)))
      in (length cancels, w\<lparr>wr_cancelled := wr_cancelled w @ cancels\<rparr>))"

definition disconnect_users :: "ws_registry \<Rightarrow> nat \<times> ws_registry" where
  "disconnect_users w = ws_disconnect (\<lambda>r. r = User) w"

definition disconnect_all :: "ws_registry \<Rightarrow> nat \<times> ws_registry" where
  "disconnect_all w = ws_disconnect (\<lambda>_. True) w"

section \<open>Decoding what was encoded\<close>

lemma constant_time_str_eq_refl: "constant_time_str_eq c s s"
  by (simp add: constant_time_str_eq_def constant_time_eq_refl)

lemma dec_int_chars: "ch \<in> set (dec_int i) \<Longrightarrow> is_digit ch \<or> ch = CHR ''-''"
  using dec_digits by (auto simp: dec_int_def is_digit_def split: if_splits)

lemma no_char: "CHR '':'' \<notin> set (dec_int i)" "CHR '':'' \<notin> set (dec n)" "CHR '':'' \<notin> set (role_str r)"
  using dec_int_chars [of "CHR '':''" i] dec_digits [of "CHR '':''" n]
  by (auto simp: is_digit_def) (cases r; simp)

lemma sign_chars: "crypto_ok c \<Longrightarrow> ch \<in> set (sign c secret p) \<Longrightarrow> alnum ch \<or> ch = CHR ''-'' \<or> ch = CHR ''_''"
  by (auto simp: crypto_ok_def sign_def)

lemma sign_no_dot: "crypto_ok c \<Longrightarrow> CHR ''.'' \<notin> set (sign c secret p)"
  using sign_chars [of c "CHR ''.''" secret p] by (auto simp: alnum_def is_digit_def)

lemma split_payload:
  assumes "CHR '':'' \<notin> set a"
  shows "splitn 5 (CHR '':'') (payload_of r g a i ex) = [dec_int ex, role_str r, dec (unat g), a, i]"
proof -
  have p: "payload_of r g a i ex = dec_int ex @ CHR '':'' # role_str r @ CHR '':'' # dec (unat g) @ CHR '':'' # a @ CHR '':'' # i"
    by (simp add: payload_of_def)
  have n: "(5 :: nat) = Suc (Suc (Suc (Suc (Suc 0))))" by simp
  show ?thesis unfolding p n using assms no_char by (simp add: split_once_append)
qed

lemma decode_encode:
  assumes "crypto_ok c" and "CHR '':'' \<notin> set a" and "unix_secs now \<le> ex" and "- (2 ^ 63) \<le> ex" and "ex < 2 ^ 63"
  shows "decode c secret (encode_at c secret r g a i ex) now
    = Some \<lparr>sn_role = r, sn_generation = g, sn_admin_version = a, sn_entry_id = i\<rparr>"
proof -
  let ?p = "payload_of r g a i ex"
  have "encode_at c secret r g a i ex = ?p @ CHR ''.'' # sign c secret ?p" by (simp add: encode_at_def Let_def)
  then have s: "rsplit_once (CHR ''.'') (encode_at c secret r g a i ex) = Some (?p, sign c secret ?p)"
    using rsplit_once_append [OF sign_no_dot [OF assms(1)]] by simp
  have u: "unat g < 2 ^ 64" using unsigned_less [of g] by simp
  have role: "(if role_str r = ''admin'' then Some Admin else if role_str r = ''user'' then Some User else None) = Some r"
    by (cases r) simp_all
  show ?thesis
    unfolding decode_def s option.case prod.case split_payload [OF assms(2)] list.case
      parse_i64_dec [OF assms(4,5)] role parse_uint_dec [OF u]
    using assms(3) by (simp add: constant_time_str_eq_refl)
qed

text \<open>
  Session cookies round-trip: decoding an encoded session with the same secret gives back its
  role, generation, admin version and entry id until it expires, and nothing from the second
  after. (The admin version has no colon; it is base64url.)
\<close>

theorem session_roundtrip:
  assumes "crypto_ok c" and "CHR '':'' \<notin> set a" and "0 \<le> ex" and "ex < 2 ^ 63"
  shows "decode c secret (encode_at c secret r g a i ex) now =
    (if unix_secs now \<le> ex then Some \<lparr>sn_role = r, sn_generation = g, sn_admin_version = a, sn_entry_id = i\<rparr> else None)"
proof (cases "unix_secs now \<le> ex")
  case True
  then show ?thesis using decode_encode [OF assms(1,2)] assms(3,4) by simp
next
  case False
  let ?p = "payload_of r g a i ex"
  have "encode_at c secret r g a i ex = ?p @ CHR ''.'' # sign c secret ?p" by (simp add: encode_at_def Let_def)
  then have s: "rsplit_once (CHR ''.'') (encode_at c secret r g a i ex) = Some (?p, sign c secret ?p)"
    using rsplit_once_append [OF sign_no_dot [OF assms(1)]] by simp
  have ex: "parse_i64 (dec_int ex) = Some ex" using assms(3,4) by (intro parse_i64_dec) simp_all
  show ?thesis
    unfolding decode_def s option.case prod.case split_payload [OF assms(2)] list.case ex
    using False by (simp split: option.split)
qed

theorem session_roundtrip_witness:
  "decode toy_crypto ''k'' (encode_at toy_crypto ''k'' User 7 ''av-xyz'' ''entry-1'' 99) (secs 99) =
    Some \<lparr>sn_role = User, sn_generation = 7, sn_admin_version = ''av-xyz'', sn_entry_id = ''entry-1''\<rparr>"
  using session_roundtrip [OF toy_crypto_ok, of "''av-xyz''" 99 "''k''" User 7 "''entry-1''" "secs 99"]
  by (simp add: unix_secs_def)

end
