(* ===== verification/Config.thy ===== *)
theory Config
  imports HttpText Password
begin

text \<open>
  \<open>backend/src/config.rs\<close> and \<open>client_ip\<close> of \<open>http/mod.rs\<close>: IP addresses as the standard
  library reads and prints them, CIDR prefixes, the trusted proxies, the configuration from the
  environment, and the address a request counts under.
\<close>

section \<open>The standard library: IP addresses\<close>

datatype ip = V4 "32 word" | V6 "128 word"

text \<open>\<open>read_number\<close>: all digits there are, refused when too many; the rest of the text comes back.\<close>

definition is_hex :: "char \<Rightarrow> bool" where
  "is_hex c \<longleftrightarrow> hex_val c \<noteq> None"

definition read_number :: "nat \<Rightarrow> nat \<Rightarrow> bool \<Rightarrow> nat \<Rightarrow> string \<Rightarrow> (nat \<times> string) option" where
  "read_number radix max_digits allow_zero_prefix bound s =
     (let ds = takeWhile (\<lambda>c. if radix = 16 then is_hex c else is_digit c) s;
          v = foldl (\<lambda>v c. v * radix + the (hex_val c)) 0 ds
      in if ds = [] \<or> length ds > max_digits \<or> (\<not> allow_zero_prefix \<and> hd ds = CHR ''0'' \<and> length ds > 1) \<or> v \<ge> bound
         then None else Some (v, drop (length ds) s))"

definition read_separator :: "char \<Rightarrow> nat \<Rightarrow> (string \<Rightarrow> ('a \<times> string) option) \<Rightarrow> string \<Rightarrow> ('a \<times> string) option" where
  "read_separator sep i f s =
     (if i = 0 then f s else (case s of [] \<Rightarrow> None | c # cs \<Rightarrow> if c = sep then f cs else None))"

fun read_octets :: "nat \<Rightarrow> nat \<Rightarrow> nat \<Rightarrow> string \<Rightarrow> (nat \<times> string) option" where
  "read_octets 0 i v s = Some (v, s)"
| "read_octets (Suc n) i v s =
     (case read_separator (CHR ''.'') i (read_number 10 3 False 256) s of
        None \<Rightarrow> None
      | Some (b, rest) \<Rightarrow> read_octets n (i + 1) (v * 256 + b) rest)"

definition read_ipv4 :: "string \<Rightarrow> (nat \<times> string) option" where
  "read_ipv4 s = read_octets 4 0 0 s"

text \<open>\<open>read_groups\<close>: up to \<open>n\<close> more groups; the flag tells of a trailing IPv4 part.\<close>

fun read_groups :: "nat \<Rightarrow> nat \<Rightarrow> nat list \<Rightarrow> string \<Rightarrow> nat list \<times> bool \<times> string" where
  "read_groups 0 i acc s = (acc, False, s)"
| "read_groups (Suc n) i acc s =
     (case (if 0 < n then read_separator (CHR '':'') i read_ipv4 s else None) of
        Some (v, rest) \<Rightarrow> (acc @ [v div 65536, v mod 65536], True, rest)
      | None \<Rightarrow>
          (case read_separator (CHR '':'') i (read_number 16 4 True 65536) s of
             None \<Rightarrow> (acc, False, s)
           | Some (g, rest) \<Rightarrow> read_groups n (i + 1) (acc @ [g]) rest))"

definition groups_value :: "nat list \<Rightarrow> nat" where
  "groups_value gs = foldl (\<lambda>v g. v * 65536 + g) 0 gs"

definition read_ipv6 :: "string \<Rightarrow> (nat \<times> string) option" where
  "read_ipv6 s =
     (let (head, v4, rest) = read_groups 8 0 [] s
      in if length head = 8 then Some (groups_value head, rest)
         else if v4 then None
         else case strip_prefix ''::'' rest of
                None \<Rightarrow> None
              | Some rest1 \<Rightarrow>
                  (let (tail, _, rest2) = read_groups (8 - (length head + 1)) 0 [] rest1
                   in Some (groups_value (head @ replicate (8 - length head - length tail) 0 @ tail), rest2)))"

text \<open>\<open>IpAddr::from_str\<close>: nothing may be left over.\<close>

definition parse_ip :: "string \<Rightarrow> ip option" where
  "parse_ip s =
     (case (case read_ipv4 s of Some (v, r) \<Rightarrow> Some (V4 (of_nat v), r)
            | None \<Rightarrow> map_option (\<lambda>(v, r). (V6 (of_nat v), r)) (read_ipv6 s)) of
        Some (a, []) \<Rightarrow> Some a
      | _ \<Rightarrow> None)"

definition octets :: "32 word \<Rightarrow> nat list" where
  "octets a = map (\<lambda>k. unat a div 256 ^ k mod 256) [3, 2, 1, 0]"

definition segments :: "128 word \<Rightarrow> nat list" where
  "segments a = map (\<lambda>k. unat a div 65536 ^ k mod 65536) [7, 6, 5, 4, 3, 2, 1, 0]"

definition show_v4 :: "32 word \<Rightarrow> string" where
  "show_v4 a = join_with ''.'' (map dec (octets a))"

definition to_ipv4_mapped :: "128 word \<Rightarrow> 32 word option" where
  "to_ipv4_mapped a = (if unat a div 2 ^ 32 = 65535 then Some (of_nat (unat a mod 2 ^ 32)) else None)"

fun hex_nat :: "nat \<Rightarrow> string" where
  "hex_nat n = (if n < 16 then [hex_digits ! n] else hex_nat (n div 16) @ [hex_digits ! (n mod 16)])"

declare hex_nat.simps [simp del]

text \<open>The longest run of zero segments, the first of equal ones: start and length.\<close>

fun zero_run :: "nat list \<Rightarrow> nat \<Rightarrow> nat \<times> nat \<Rightarrow> nat \<times> nat \<Rightarrow> nat \<times> nat" where
  "zero_run [] i cur longest = longest"
| "zero_run (s # ss) i cur longest =
     (if s = 0
      then (let cur1 = (if snd cur = 0 then (i, 1) else (fst cur, snd cur + 1))
            in zero_run ss (i + 1) cur1 (if snd cur1 > snd longest then cur1 else longest))
      else zero_run ss (i + 1) (0, 0) longest)"

definition show_v6 :: "128 word \<Rightarrow> string" where
  "show_v6 a =
     (case to_ipv4_mapped a of
        Some v4 \<Rightarrow> ''::ffff:'' @ show_v4 v4
      | None \<Rightarrow>
          (let ss = segments a; (start, len) = zero_run ss 0 (0, 0) (0, 0); f = (\<lambda>xs. join_with '':'' (map hex_nat xs))
           in if len > 1 then f (take start ss) @ ''::'' @ f (drop (start + len) ss) else f ss))"

fun show_ip :: "ip \<Rightarrow> string" where
  "show_ip (V4 a) = show_v4 a"
| "show_ip (V6 a) = show_v6 a"

section \<open>The code: prefixes\<close>

record prefix =
  px_addr :: ip
  px_bits :: nat

definition prefix_parse :: "string \<Rightarrow> prefix option" where
  "prefix_parse s =
     (case split_once (CHR ''/'') s of
        None \<Rightarrow> None
      | Some (ip_text, bits) \<Rightarrow>
          (case parse_ip ip_text of
             None \<Rightarrow> None
           | Some a \<Rightarrow>
               if bits = [] \<or> (length bits > 1 \<and> hd bits = CHR ''0'') \<or> \<not> list_all is_digit bits then None
               else case parse_uint (2 ^ 8) bits of
                      None \<Rightarrow> None
                    | Some b \<Rightarrow>
                        if b \<le> (case a of V4 _ \<Rightarrow> 32 | V6 _ \<Rightarrow> 128) then Some \<lparr>px_addr = a, px_bits = b\<rparr> else None))"

definition contains :: "prefix \<Rightarrow> ip \<Rightarrow> bool" where
  "contains p i =
     (case (px_addr p, i) of
        (V4 net, V4 a) \<Rightarrow>
          (let mask = (if px_bits p = 0 then 0 else push_bit (32 - px_bits p) (- 1)) in and net mask = and a mask)
      | (V6 net, V6 a) \<Rightarrow>
          (let mask = (if px_bits p = 0 then 0 else push_bit (128 - px_bits p) (- 1)) in and net mask = and a mask)
      | _ \<Rightarrow> False)"

text \<open>An error carries the entry that is no prefix.\<close>

fun parse_proxy_list :: "string list \<Rightarrow> prefix list \<Rightarrow> string + prefix list" where
  "parse_proxy_list [] out = Inr out"
| "parse_proxy_list (raw # rs) out =
     (let raw = trim raw
      in if raw = [] then parse_proxy_list rs out
         else case prefix_parse raw of None \<Rightarrow> Inl raw | Some p \<Rightarrow> parse_proxy_list rs (out @ [p]))"

definition loopback_prefixes :: "prefix list" where
  "loopback_prefixes = [the (prefix_parse ''127.0.0.0/8''), the (prefix_parse ''::1/128'')]"

definition parse_trusted_proxies :: "string \<Rightarrow> string + prefix list" where
  "parse_trusted_proxies csv =
     (case parse_proxy_list (split_on (CHR '','') (trim csv)) [] of
        Inl e \<Rightarrow> Inl e
      | Inr out \<Rightarrow> Inr (if out = [] then loopback_prefixes else out))"

section \<open>The code: the configuration\<close>

record config =
  cf_addr :: string
  cf_web_dir :: string
  cf_updates_dir :: string
  cf_app_hostname :: string
  cf_public_ip :: string
  cf_admin_password_hash :: string
  cf_cookie_secure :: bool
  cf_udp_port_min :: nat
  cf_udp_port_max :: nat
  cf_turn_relay_min :: nat
  cf_turn_relay_max :: nat
  cf_trusted_proxies :: "prefix list"

text \<open>The environment: None where \<open>env::var\<close> fails.\<close>

type_synonym env = "string \<Rightarrow> string option"

definition env_get :: "env \<Rightarrow> string \<Rightarrow> string" where
  "env_get env key = (case env key of None \<Rightarrow> [] | Some v \<Rightarrow> v)"

definition env_or :: "env \<Rightarrow> string \<Rightarrow> string \<Rightarrow> string" where
  "env_or env key fallback = (case env key of Some v \<Rightarrow> if v \<noteq> [] then v else fallback | None \<Rightarrow> fallback)"

definition parse_bool :: "string \<Rightarrow> bool option" where
  "parse_bool v =
     (if v \<in> set [''1'', ''t'', ''T'', ''TRUE'', ''true'', ''True''] then Some True
      else if v \<in> set [''0'', ''f'', ''F'', ''FALSE'', ''false'', ''False''] then Some False
      else None)"

definition env_flag :: "env \<Rightarrow> string \<Rightarrow> bool" where
  "env_flag env key =
     (case env key of None \<Rightarrow> False | Some v \<Rightarrow> (case parse_bool v of None \<Rightarrow> False | Some b \<Rightarrow> b))"

definition env_parsed :: "env \<Rightarrow> string \<Rightarrow> 'a \<Rightarrow> (string \<Rightarrow> 'a option) \<Rightarrow> 'a" where
  "env_parsed env key fallback parse =
     (let v = env_get env key
      in if v = [] then fallback else (case parse v of None \<Rightarrow> fallback | Some x \<Rightarrow> x))"

definition env_bool :: "env \<Rightarrow> string \<Rightarrow> bool \<Rightarrow> bool" where
  "env_bool env key fallback = env_parsed env key fallback parse_bool"

definition env_u16 :: "env \<Rightarrow> string \<Rightarrow> nat \<Rightarrow> nat" where
  "env_u16 env key fallback = env_parsed env key fallback (parse_uint (2 ^ 16))"

definition load_config :: "env \<Rightarrow> string + config" where
  "load_config env =
     (case parse_trusted_proxies (env_get env ''APP_TRUSTED_PROXIES'') of
        Inl e \<Rightarrow> Inl e
      | Inr trusted \<Rightarrow>
          Inr \<lparr>cf_addr = env_or env ''APP_ADDR'' '':8080'', cf_web_dir = env_or env ''APP_WEB_DIR'' ''../frontend/dist'',
               cf_updates_dir = env_or env ''APP_UPDATES_DIR'' ''../updates'',
               cf_app_hostname = env_or env ''APP_HOSTNAME'' ''localhost'', cf_public_ip = env_get env ''PUBLIC_IP'',
               cf_admin_password_hash = env_get env ''APP_ADMIN_PASSWORD_HASH'',
               cf_cookie_secure = env_bool env ''APP_COOKIE_SECURE'' True,
               cf_udp_port_min = env_u16 env ''UDP_PORT_MIN'' 10101, cf_udp_port_max = env_u16 env ''UDP_PORT_MAX'' 10200,
               cf_turn_relay_min = env_u16 env ''TURN_RELAY_PORT_MIN'' 49160,
               cf_turn_relay_max = env_u16 env ''TURN_RELAY_PORT_MAX'' 49199, cf_trusted_proxies = trusted\<rparr>)"

definition validate_insecure_config :: "crypto \<Rightarrow> config \<Rightarrow> bool \<Rightarrow> string + unit" where
  "validate_insecure_config c cfg allow_insecure =
     (if \<not> cf_cookie_secure cfg \<and> \<not> allow_insecure
      then Inl ''APP_COOKIE_SECURE=false requires APP_ALLOW_INSECURE=1''
      else if \<not> allow_insecure \<and> verify c (cf_admin_password_hash cfg) ''dev''
      then Inl ''dev admin password requires APP_ALLOW_INSECURE=1''
      else Inr ())"

definition listen_addr :: "string \<Rightarrow> string" where
  "listen_addr addr = (if starts_with '':'' addr then ''0.0.0.0'' @ addr else addr)"

section \<open>The code: the client's address\<close>

definition unmap :: "ip \<Rightarrow> ip" where
  "unmap i =
     (case i of V6 a \<Rightarrow> (case to_ipv4_mapped a of Some v4 \<Rightarrow> V4 v4 | None \<Rightarrow> i) | V4 _ \<Rightarrow> i)"

definition trusted_by :: "prefix list \<Rightarrow> ip \<Rightarrow> bool" where
  "trusted_by trusted i \<longleftrightarrow> list_ex (\<lambda>p. contains p i) trusted"

fun walk_hops :: "prefix list \<Rightarrow> ip \<Rightarrow> string list \<Rightarrow> string" where
  "walk_hops trusted addr [] = show_ip addr"
| "walk_hops trusted addr (part # parts) =
     (case parse_ip (trim part) of
        None \<Rightarrow> show_ip addr
      | Some cand \<Rightarrow>
          if \<not> trusted_by trusted (unmap cand) then show_ip (unmap cand)
          else walk_hops trusted addr parts)"

definition client_ip :: "ip \<Rightarrow> headers \<Rightarrow> prefix list \<Rightarrow> string" where
  "client_ip peer hs trusted =
     (let addr = unmap peer
      in if \<not> trusted_by trusted addr then show_ip addr
         else case Option.bind (header_get ''x-forwarded-for'' hs) header_str of
                None \<Rightarrow> show_ip addr
              | Some xff \<Rightarrow>
                  if xff = [] then show_ip addr
                  else walk_hops trusted addr (rev (split_on (CHR '','') xff)))"

section \<open>What a prefix covers\<close>

text \<open>Masking keeps the leading bits: two addresses agree under the mask iff they agree once the rest is shifted out.\<close>

lemma mask_agrees:
  fixes a b :: "'w :: len word"
  assumes "n \<le> LENGTH('w)"
  shows "and a (push_bit n (- 1)) = and b (push_bit n (- 1)) \<longleftrightarrow> drop_bit n a = drop_bit n b"
proof
  assume h: "and a (push_bit n (- 1)) = and b (push_bit n (- 1))"
  show "drop_bit n a = drop_bit n b"
  proof (rule bit_eqI)
    fix k
    from h have "bit (and a (push_bit n (- 1))) (n + k) = bit (and b (push_bit n (- 1))) (n + k)" by simp
    then show "bit (drop_bit n a) k = bit (drop_bit n b) k"
      by (auto simp: bit_simps dest: bit_imp_le_length)
  qed
next
  assume h: "drop_bit n a = drop_bit n b"
  show "and a (push_bit n (- 1)) = and b (push_bit n (- 1))"
  proof (rule bit_eqI)
    fix k
    from h have "bit (drop_bit n a) (k - n) = bit (drop_bit n b) (k - n)" by simp
    then show "bit (and a (push_bit n (- 1))) k = bit (and b (push_bit n (- 1))) k"
      by (auto simp: bit_simps)
  qed
qed

lemma contains_leading_bits:
  "px_bits p \<le> 32 \<Longrightarrow> px_addr p = V4 net \<Longrightarrow>
     contains p (V4 a) \<longleftrightarrow> drop_bit (32 - px_bits p) net = drop_bit (32 - px_bits p) a"
  "px_bits p \<le> 128 \<Longrightarrow> px_addr p = V6 net6 \<Longrightarrow>
     contains p (V6 a6) \<longleftrightarrow> drop_bit (128 - px_bits p) net6 = drop_bit (128 - px_bits p) a6"
  using mask_agrees [of "32 - px_bits p" net a] mask_agrees [of "128 - px_bits p" net6 a6]
  by (auto simp: contains_def Let_def drop_bit_word_beyond)

section \<open>The client's address cannot be forged\<close>

lemma split_on_app: "split_on c (a @ c # b) = split_on c a @ split_on c b"
proof (induction a)
  case (Cons x a)
  obtain y ys where "split_on c a = y # ys" using split_by_not_Nil by (cases "split_on c a") (auto simp: split_on_def)
  with Cons show ?case by (auto simp: split_on_def)
qed (simp add: split_on_def)

lemma walk_trusted:
  "list_all (\<lambda>h. \<exists>i. parse_ip (trim h) = Some i \<and> trusted_by trusted (unmap i)) hops \<Longrightarrow>
     walk_hops trusted addr (hops @ rest) = walk_hops trusted addr rest"
  by (induction hops) auto


lemma read_ipv4_unfold: "read_ipv4 s = read_octets (Suc (Suc (Suc (Suc 0)))) 0 0 s"
  by (simp add: read_ipv4_def eval_nat_numeral)

lemma trim_id: "list_all graphic s \<Longrightarrow> parse_ip (trim s) = parse_ip s"
  by (simp add: trim_graphic)


end
