(* ===== verification/Sniff.thy ===== *)
theory Sniff
  imports HttpText
begin

text \<open>
  \<open>backend/src/http/sniff.rs\<close>: the MIME type of an upload from its first 512 bytes. Reading past
  the end panics in Rust; every slice the code takes of the data is an option here, so that the
  absence of panics is a theorem.
\<close>

section \<open>The code: signatures\<close>

definition SNIFF_LEN :: nat where "SNIFF_LEN = 512"

datatype sig =
    Html string
  | Masked "nat list" string bool string
  | Exact string string
  | Mp4
  | TextSig

definition masked :: "nat list \<Rightarrow> string \<Rightarrow> string \<Rightarrow> sig" where
  "masked mk pat ct = Masked mk pat False ct"

definition riff_mask :: "nat \<Rightarrow> nat list" where
  "riff_mask n = replicate 4 255 @ replicate 4 0 @ replicate n 255"

definition four_zeros :: string where
  "four_zeros = ascii [0, 0, 0, 0]"

definition SIGNATURES :: "sig list" where
  "SIGNATURES =
     map Html [''<!DOCTYPE HTML'', ''<HTML'', ''<HEAD'', ''<SCRIPT'', ''<IFRAME'', ''<H1'', ''<DIV'', ''<FONT'',
               ''<TABLE'', ''<A'', ''<STYLE'', ''<TITLE'', ''<B'', ''<BODY'', ''<BR'', ''<P'', ''<!--'']
     @ [Masked [255, 255, 255, 255, 255] ''<?xml'' True ''text/xml; charset=utf-8'',
        Exact ''%PDF-'' ''application/pdf'',
        Exact ''%!PS-Adobe-'' ''application/postscript'',
        masked [255, 255, 0, 0] (ascii [254, 255, 0, 0]) ''text/plain; charset=utf-16be'',
        masked [255, 255, 0, 0] (ascii [255, 254, 0, 0]) ''text/plain; charset=utf-16le'',
        masked [255, 255, 255, 0] (ascii [239, 187, 191, 0]) ''text/plain; charset=utf-8'',
        Exact (ascii [0, 0, 1, 0]) ''image/x-icon'',
        Exact (ascii [0, 0, 2, 0]) ''image/x-icon'',
        Exact ''BM'' ''image/bmp'',
        Exact ''GIF87a'' ''image/gif'',
        Exact ''GIF89a'' ''image/gif'',
        masked (riff_mask 6) (''RIFF'' @ four_zeros @ ''WEBPVP'') ''image/webp'',
        Exact (ascii [137] @ ''PNG'' @ ascii [13, 10, 26, 10]) ''image/png'',
        Exact (ascii [255, 216, 255]) ''image/jpeg'',
        masked (riff_mask 4) (''FORM'' @ four_zeros @ ''AIFF'') ''audio/aiff'',
        masked [255, 255, 255] ''ID3'' ''audio/mpeg'',
        masked [255, 255, 255, 255, 255] (''OggS'' @ ascii [0]) ''application/ogg'',
        masked (replicate 8 255) (''MThd'' @ ascii [0, 0, 0, 6]) ''audio/midi'',
        masked (riff_mask 4) (''RIFF'' @ four_zeros @ ''AVI '') ''video/avi'',
        masked (riff_mask 4) (''RIFF'' @ four_zeros @ ''WAVE'') ''audio/wave'',
        Mp4,
        Exact (ascii [26, 69, 223, 163]) ''video/webm'',
        masked (replicate 34 0 @ [255, 255]) (ascii (replicate 34 0) @ ''LP'') ''application/vnd.ms-fontobject'',
        Exact (ascii [0, 1, 0, 0]) ''font/ttf'',
        Exact ''OTTO'' ''font/otf'',
        Exact ''ttcf'' ''font/collection'',
        Exact ''wOFF'' ''font/woff'',
        Exact ''wOF2'' ''font/woff2'',
        Exact (ascii [31, 139, 8]) ''application/x-gzip'',
        Exact (''PK'' @ ascii [3, 4]) ''application/zip'',
        Exact (''Rar!'' @ ascii [26, 7, 0]) ''application/x-rar-compressed'',
        Exact (''Rar!'' @ ascii [26, 7, 1, 0]) ''application/x-rar-compressed'',
        Exact (ascii [0, 97, 115, 109]) ''application/wasm'',
        TextSig]"

section \<open>The code: matching\<close>

text \<open>\<open>&data[a..b]\<close>, None where it panics.\<close>

definition slice :: "string \<Rightarrow> nat \<Rightarrow> nat \<Rightarrow> string option" where
  "slice data a b = (if a \<le> b \<and> b \<le> length data then Some (take (b - a) (drop a data)) else None)"

definition at :: "'a list \<Rightarrow> nat \<Rightarrow> 'a option" where
  "at xs i = (if i < length xs then Some (xs ! i) else None)"

fun html_loop :: "nat \<Rightarrow> string \<Rightarrow> string \<Rightarrow> bool option" where
  "html_loop i [] d = Some True"
| "html_loop i (b # bs) d =
     (case at d i of
        None \<Rightarrow> None
      | Some x \<Rightarrow>
          (let db = (if 65 \<le> byte_of b \<and> byte_of b \<le> 90 then and (byte_of x) 223 else byte_of x)
           in if byte_of b \<noteq> db then Some False else html_loop (i + 1) bs d))"

fun masked_loop :: "nat \<Rightarrow> string \<Rightarrow> nat list \<Rightarrow> string \<Rightarrow> bool option" where
  "masked_loop i [] mk d = Some True"
| "masked_loop i (p # ps) mk d =
     (case (at d i, at mk i) of
        (Some x, Some m) \<Rightarrow> if and (byte_of x) m = byte_of p then masked_loop (i + 1) ps mk d else Some False
      | _ \<Rightarrow> None)"

text \<open>The steps \<open>8, 12, 16, \<dots>\<close> below the box size, without 12.\<close>

fun mp4_loop :: "nat list \<Rightarrow> string \<Rightarrow> bool option" where
  "mp4_loop [] data = Some False"
| "mp4_loop (st # sts) data =
     (if st = 12 then mp4_loop sts data
      else case slice data st (st + 3) of
             None \<Rightarrow> None
           | Some b \<Rightarrow> if b = ''mp4'' then Some True else mp4_loop sts data)"

definition step_by_4 :: "nat \<Rightarrow> nat \<Rightarrow> nat list" where
  "step_by_4 a b = map (\<lambda>k. a + 4 * k) [0..<(b - a + 3) div 4]"

definition be32 :: "string \<Rightarrow> nat" where
  "be32 bs = foldl (\<lambda>v b. v * 256 + byte_of b) 0 bs"

definition text_byte :: "char \<Rightarrow> bool" where
  "text_byte c \<longleftrightarrow>
     \<not> (byte_of c \<le> 8 \<or> byte_of c = 11 \<or> 14 \<le> byte_of c \<and> byte_of c \<le> 26 \<or> 28 \<le> byte_of c \<and> byte_of c \<le> 31)"

text \<open>Outer None: a panic. Inner None: no match.\<close>

fun sig_matches :: "sig \<Rightarrow> string \<Rightarrow> nat \<Rightarrow> string option option" where
  "sig_matches (Html h) data ws =
     (case slice data ws (length data) of
        None \<Rightarrow> None
      | Some d \<Rightarrow>
          if length d < length h + 1 then Some None
          else case html_loop 0 h d of
                 None \<Rightarrow> None
               | Some False \<Rightarrow> Some None
               | Some True \<Rightarrow>
                   (case at d (length h) of
                      None \<Rightarrow> None
                    | Some x \<Rightarrow> Some (if x = CHR '' '' \<or> x = CHR ''>'' then Some ''text/html; charset=utf-8'' else None)))"
| "sig_matches (Masked mk pat skip_ws ct) data ws =
     (case (if skip_ws then slice data ws (length data) else Some data) of
        None \<Rightarrow> None
      | Some d \<Rightarrow>
          if length d < length pat then Some None
          else map_option (\<lambda>ok. if ok then Some ct else None) (masked_loop 0 pat mk d))"
| "sig_matches (Exact s ct) data ws = Some (if starts_with s data then Some ct else None)"
| "sig_matches Mp4 data ws =
     (if length data < 12 then Some None
      else case slice data 0 4 of
             None \<Rightarrow> None
           | Some size_bytes \<Rightarrow>
               (let box_size = be32 size_bytes
                in if length data < box_size \<or> box_size mod 4 \<noteq> 0 then Some None
                   else case slice data 4 8 of
                          None \<Rightarrow> None
                        | Some ty \<Rightarrow>
                            if ty \<noteq> ''ftyp'' then Some None
                            else map_option (\<lambda>ok. if ok then Some ''video/mp4'' else None)
                                   (mp4_loop (step_by_4 8 box_size) data)))"
| "sig_matches TextSig data ws =
     map_option (\<lambda>d. if list_all text_byte d then Some ''text/plain; charset=utf-8'' else None)
       (slice data ws (length data))"

fun find_sig :: "sig list \<Rightarrow> string \<Rightarrow> nat \<Rightarrow> string option option" where
  "find_sig [] data ws = Some None"
| "find_sig (s # ss) data ws =
     (case sig_matches s data ws of
        None \<Rightarrow> None
      | Some (Some ct) \<Rightarrow> Some (Some ct)
      | Some None \<Rightarrow> find_sig ss data ws)"

definition is_sniff_ws :: "char \<Rightarrow> bool" where
  "is_sniff_ws c \<longleftrightarrow> byte_of c \<in> {9, 10, 12, 13, 32}"

definition detect_content_type :: "string \<Rightarrow> string option" where
  "detect_content_type data0 =
     (let data = take (min (length data0) SNIFF_LEN) data0;
          ws = length (takeWhile is_sniff_ws data)
      in map_option (\<lambda>r. case r of Some ct \<Rightarrow> ct | None \<Rightarrow> ''application/octet-stream'')
           (find_sig SIGNATURES data ws))"

section \<open>No panic\<close>

lemma html_loop_total: "i + length h \<le> length d \<Longrightarrow> html_loop i h d \<noteq> None"
  by (induction h arbitrary: i) (auto simp: at_def Let_def)

lemma masked_loop_total:
  "i + length pat \<le> length d \<Longrightarrow> i + length pat \<le> length mk \<Longrightarrow> masked_loop i pat mk d \<noteq> None"
  by (induction pat arbitrary: i) (auto simp: at_def)

lemma mp4_loop_total: "list_all (\<lambda>st. st + 3 \<le> length data) sts \<Longrightarrow> mp4_loop sts data \<noteq> None"
  by (induction sts) (auto simp: slice_def)

lemma step_by_4_bound: "n mod 4 = 0 \<Longrightarrow> n \<le> length data \<Longrightarrow> list_all (\<lambda>st. st + 3 \<le> length data) (step_by_4 8 n)"
  by (auto simp: step_by_4_def list_all_iff) presburger

fun mask_fits :: "sig \<Rightarrow> bool" where
  "mask_fits (Masked mk pat _ _) = (length pat \<le> length mk)"
| "mask_fits _ = True"

lemma sig_matches_total: "ws \<le> length data \<Longrightarrow> mask_fits s \<Longrightarrow> sig_matches s data ws \<noteq> None"
proof (cases s)
  case (Html h)
  assume "ws \<le> length data"
  with Html html_loop_total [of 0 h "drop ws data"] show ?thesis
    by (auto simp: slice_def at_def split: option.split bool.split)
next
  case (Masked mk pat skip ct)
  assume "ws \<le> length data" "mask_fits s"
  with Masked masked_loop_total [of 0 pat "drop ws data" mk] masked_loop_total [of 0 pat data mk] show ?thesis
    by (auto simp: slice_def)
next
  case Mp4
  let ?n = "be32 (take 4 data)"
  have "mp4_loop (step_by_4 8 ?n) data \<noteq> None" if "?n mod 4 = 0" "?n \<le> length data"
    by (rule mp4_loop_total) (rule step_by_4_bound [OF that])
  with Mp4 show ?thesis by (auto simp: slice_def Let_def)
qed (auto simp: slice_def)

lemma find_sig_total: "ws \<le> length data \<Longrightarrow> list_all mask_fits ss \<Longrightarrow> find_sig ss data ws \<noteq> None"
proof (induction ss)
  case (Cons s ss)
  then show ?case using sig_matches_total [of ws data s] by (auto split: option.split)
qed simp

lemma signatures_fit: "list_all mask_fits SIGNATURES"
  by (simp add: SIGNATURES_def masked_def riff_mask_def four_zeros_def ascii_def)

lemma find_sig_result: "find_sig ss data ws = Some (Some ct) \<Longrightarrow> \<exists>s \<in> set ss. sig_matches s data ws = Some (Some ct)"
  by (induction ss) (auto split: option.splits)

section \<open>What is served inline really is an image\<close>

lemma masked_loop_all:
  "masked_loop i pat mk d = Some True \<Longrightarrow> j < length pat \<Longrightarrow>
     i + j < length d \<and> and (byte_of (d ! (i + j))) (mk ! (i + j)) = byte_of (pat ! j)"
proof (induction pat arbitrary: i j)
  case (Cons p ps)
  have h: "i < length d" "and (byte_of (d ! i)) (mk ! i) = byte_of p" "masked_loop (i + 1) ps mk d = Some True"
    using Cons.prems(1) by (auto simp: at_def split: if_splits)
  show ?case
  proof (cases j)
    case (Suc k)
    then show ?thesis using Cons.IH [OF h(3), of k] Cons.prems(2) by simp
  qed (use h in simp)
qed simp

lemma and_255: "and (byte_of c) 255 = byte_of c"
proof -
  have "and (byte_of c) 255 = take_bit 8 (byte_of c)" using take_bit_eq_mask [of 8 "byte_of c"] by (simp add: mask_eq_exp_minus_1)
  then show ?thesis by (simp add: take_bit_nat_eq_self)
qed

lemma byte_of_inj: "byte_of a = byte_of b \<longleftrightarrow> a = b"
  by (metis char_of_char)

definition webp_pat :: string where
  "webp_pat = ''RIFF'' @ four_zeros @ ''WEBPVP''"

lemma webp_magic:
  assumes "masked_loop 0 webp_pat (riff_mask 6) d = Some True"
  shows "starts_with ''RIFF'' d \<and> starts_with ''WEBPVP'' (drop 8 d)"
proof -
  have len: "length webp_pat = 14" by (simp add: webp_pat_def four_zeros_def ascii_def)
  have nth: "d ! j = webp_pat ! j" if "j < 14" "riff_mask 6 ! j = 255" for j
    using masked_loop_all [OF assms, of j] that len by (simp add: and_255 byte_of_inj)
  have l: "14 \<le> length d" using masked_loop_all [OF assms, of 13] len by simp
  have a: "take 4 d = take 4 webp_pat"
    by (rule nth_equalityI) (use l len in \<open>auto simp: less_Suc_eq eval_nat_numeral riff_mask_def intro!: nth\<close>)
  have b: "take 6 (drop 8 d) = take 6 (drop 8 webp_pat)"
    by (rule nth_equalityI) (use l len in \<open>auto simp: less_Suc_eq eval_nat_numeral riff_mask_def intro!: nth\<close>)
  show ?thesis using a b by (simp add: starts_with_def webp_pat_def four_zeros_def ascii_def eval_nat_numeral)
qed

definition image_magic :: "string \<Rightarrow> bool" where
  "image_magic d \<longleftrightarrow>
     list_ex (\<lambda>m. starts_with m d)
       [ascii [0, 0, 1, 0], ascii [0, 0, 2, 0], ''BM'', ''GIF87a'', ''GIF89a'', ascii [137] @ ''PNG'' @ ascii [13, 10, 26, 10],
        ascii [255, 216, 255]]
     \<or> starts_with ''RIFF'' d \<and> starts_with ''WEBPVP'' (drop 8 d)"

fun label_of :: "sig \<Rightarrow> string" where
  "label_of (Html _) = ''text/html; charset=utf-8''"
| "label_of (Masked _ _ _ ct) = ct"
| "label_of (Exact _ ct) = ct"
| "label_of Mp4 = ''video/mp4''"
| "label_of TextSig = ''text/plain; charset=utf-8''"

lemma sig_label: "sig_matches s d ws = Some (Some ct) \<Longrightarrow> ct = label_of s"
  by (cases s) (auto simp: Let_def split: option.splits bool.splits if_splits)

definition is_image_label :: "string \<Rightarrow> bool" where
  "is_image_label m \<longleftrightarrow> starts_with ''image/'' m"

lemma image_signatures:
  "filter (\<lambda>s. is_image_label (label_of s)) SIGNATURES =
     [Exact (ascii [0, 0, 1, 0]) ''image/x-icon'', Exact (ascii [0, 0, 2, 0]) ''image/x-icon'', Exact ''BM'' ''image/bmp'',
      Exact ''GIF87a'' ''image/gif'', Exact ''GIF89a'' ''image/gif'', Masked (riff_mask 6) webp_pat False ''image/webp'',
      Exact (ascii [137] @ ''PNG'' @ ascii [13, 10, 26, 10]) ''image/png'', Exact (ascii [255, 216, 255]) ''image/jpeg'']"
  by (simp add: SIGNATURES_def masked_def is_image_label_def starts_with_def webp_pat_def)

lemma image_sig_magic:
  assumes "s \<in> set SIGNATURES" and "is_image_label (label_of s)" and "sig_matches s d ws = Some (Some ct)"
  shows "image_magic d"
proof -
  have "s \<in> set (filter (\<lambda>s. is_image_label (label_of s)) SIGNATURES)" using assms(1,2) by simp
  with assms(3) show ?thesis
    unfolding image_signatures
    by (auto simp: image_magic_def webp_magic split: if_splits option.splits)
qed

text \<open>
  Sniffing an upload never reads out of bounds, looks at the first 512 bytes only, and calls
  something an image (which is what the server shows inline) only if it begins with the magic number
  of one of the image formats; so markup is never shown inline.
\<close>

theorem sniff_safe:
  "(\<exists>ct. detect_content_type data = Some ct \<and> (is_image_label ct \<longrightarrow> image_magic (take 512 data)))
   \<and> detect_content_type data = detect_content_type (take 512 data)"
proof
  show "detect_content_type data = detect_content_type (take 512 data)"
    by (simp add: detect_content_type_def SNIFF_LEN_def Let_def min_def)
  let ?d = "take (min (length data) SNIFF_LEN) data" and ?ws = "length (takeWhile is_sniff_ws (take (min (length data) SNIFF_LEN) data))"
  have d: "?d = take 512 data" by (simp add: SNIFF_LEN_def min_def)
  obtain r where r: "find_sig SIGNATURES ?d ?ws = Some r"
    using find_sig_total [OF _ signatures_fit, of ?ws ?d] length_takeWhile_le by fastforce
  show "\<exists>ct. detect_content_type data = Some ct \<and> (is_image_label ct \<longrightarrow> image_magic (take 512 data))"
  proof (cases r)
    case None
    with r show ?thesis by (simp add: detect_content_type_def Let_def is_image_label_def starts_with_def)
  next
    case (Some ct)
    then obtain s where "s \<in> set SIGNATURES" "sig_matches s ?d ?ws = Some (Some ct)"
      using r find_sig_result by blast
    then have "is_image_label ct \<longrightarrow> image_magic (take 512 data)"
      using sig_label image_sig_magic d by metis
    with r Some show ?thesis by (simp add: detect_content_type_def Let_def)
  qed
qed

theorem sniff_safe_witness:
  "image_magic (ascii [137] @ ''PNG'' @ ascii [13, 10, 26, 10] @ ''data'')
   \<and> detect_content_type (ascii [137] @ ''PNG'' @ ascii [13, 10, 26, 10] @ ''data'') = Some ''image/png''"
proof -
  have "detect_content_type (ascii [137] @ ''PNG'' @ ascii [13, 10, 26, 10] @ ''data'') = Some ''image/png''" by code_simp
  with sniff_safe [of "ascii [137] @ ''PNG'' @ ascii [13, 10, 26, 10] @ ''data''"] show ?thesis
    by (simp add: is_image_label_def starts_with_def ascii_def)
qed

end
