(* ===== verification/Upload.thy ===== *)
theory Upload
  imports Sniff FileStore
begin

text \<open>
  \<open>backend/src/http/upload.rs\<close>: chat attachments. A request body is the list of its chunks, each
  data or an error; the multipart parser (multer) is a parameter that turns the capped stream into
  the first part with a file name. The disk is the contents by path of the file store; what its
  calls answer, the removal of a temporary file included, is an argument.
\<close>

section \<open>The code: file names\<close>

text \<open>\<open>go_quote\<close> of \<open>handlers.rs\<close>.\<close>

definition hex2 :: "nat \<Rightarrow> string" where
  "hex2 n = [hex_digits ! (n div 16), hex_digits ! (n mod 16)]"

definition quote_char :: "char \<Rightarrow> string" where
  "quote_char c =
     (if c = CHR ''\"'' then [CHR 0x5C, CHR ''\"'']
      else if c = CHR 0x5C then [CHR 0x5C, CHR 0x5C]
      else if c = CHR 0x0A then [CHR 0x5C, CHR ''n'']
      else if c = CHR 0x0D then [CHR 0x5C, CHR ''r'']
      else if c = CHR 0x09 then [CHR 0x5C, CHR ''t'']
      else if byte_of c < 32 \<or> byte_of c = 127 then [CHR 0x5C, CHR ''x''] @ hex2 (byte_of c)
      else [c])"

definition go_quote :: "string \<Rightarrow> string" where
  "go_quote s = ''\"'' @ concat (map quote_char s) @ ''\"''"

definition sanitize_name :: "string \<Rightarrow> string" where
  "sanitize_name name =
     (let name = trim name;
          base = rev (takeWhile (\<lambda>c. c \<noteq> CHR ''/'' \<and> c \<noteq> CHR 0x5C) (rev name))
      in if base = [] then ''file'' else base)"

text \<open>One underscore per character that is not plain ASCII.\<close>

definition fallback_char :: "char \<Rightarrow> char" where
  "fallback_char c =
     (if byte_of c < 32 \<or> byte_of c > 126 \<or> c = CHR ''\"'' \<or> c = CHR 0x5C then CHR ''_'' else c)"

definition ascii_fallback :: "string \<Rightarrow> string" where
  "ascii_fallback filename = map (\<lambda>ch. fallback_char (hd ch)) (utf8_chars filename)"

definition content_disposition :: "string \<Rightarrow> string \<Rightarrow> string" where
  "content_disposition disposition filename =
     (if filename = [] then disposition
      else disposition @ ''; filename='' @ go_quote (ascii_fallback filename) @ ''; filename*=UTF-8'' @ [CHR 0x27, CHR 0x27]
             @ path_escape filename)"

text \<open>State of the splitter: parts, current part, inside quotes, after a backslash.\<close>

fun split_params_loop :: "string \<Rightarrow> string list \<Rightarrow> string \<Rightarrow> bool \<Rightarrow> bool \<Rightarrow> string list option" where
  "split_params_loop [] out cur quoted escaped = (if quoted then None else Some (out @ [cur]))"
| "split_params_loop (c # cs) out cur quoted escaped =
     (if escaped then split_params_loop cs out (cur @ [c]) quoted False
      else if c = CHR 0x5C \<and> quoted then split_params_loop cs out (cur @ [c]) quoted True
      else if c = CHR ''\"'' then split_params_loop cs out (cur @ [c]) (\<not> quoted) False
      else if c = CHR '';'' \<and> \<not> quoted then split_params_loop cs (out @ [cur]) [] quoted False
      else split_params_loop cs out (cur @ [c]) quoted False)"

definition split_params :: "string \<Rightarrow> string list option" where
  "split_params s = split_params_loop s [] [] False False"

fun unescape_loop :: "string \<Rightarrow> bool \<Rightarrow> string" where
  "unescape_loop [] esc = []"
| "unescape_loop (c # cs) esc =
     (if esc then c # unescape_loop cs False
      else if c = CHR 0x5C then unescape_loop cs True
      else c # unescape_loop cs False)"

definition unescape_quoted :: "string \<Rightarrow> string" where
  "unescape_quoted s = unescape_loop s False"

definition decode_ext :: "string \<Rightarrow> string option" where
  "decode_ext v =
     (case splitn 3 (CHR 0x27) v of
        [charset, lang, enc] \<Rightarrow>
          (case percent_decode enc of
             None \<Rightarrow> None
           | Some bytes \<Rightarrow>
               if to_ascii_lower charset \<in> set [''utf-8'', ''us-ascii'', ''''] then from_utf8 bytes else None)
      | _ \<Rightarrow> None)"

fun params_loop ::
  "string list \<Rightarrow> (string, string) hashmap \<Rightarrow> (string, string) hashmap \<Rightarrow> (string, string) hashmap option" where
  "params_loop [] plain ext = Some (foldl (\<lambda>m (k, v). hput k v m) plain ext)"
| "params_loop (p0 # ps) plain ext =
     (let p = trim p0
      in if p = [] then params_loop ps plain ext
         else case split_once (CHR ''='') p of
                None \<Rightarrow> None
              | Some (k0, v0) \<Rightarrow>
                  (let k = to_ascii_lower (trim k0);
                       v1 = trim v0;
                       v = (case Option.bind (strip_prefix ''\"'' v1) (strip_suffix ''\"'') of
                              Some inner \<Rightarrow> unescape_quoted inner
                            | None \<Rightarrow> v1)
                   in case strip_suffix ''*'' k of
                        Some base \<Rightarrow>
                          (case decode_ext v of None \<Rightarrow> None | Some d \<Rightarrow> params_loop ps plain (hput base d ext))
                      | None \<Rightarrow> params_loop ps (hput k v plain) ext))"

definition parse_params :: "string \<Rightarrow> (string, string) hashmap option" where
  "parse_params header =
     (case split_params header of
        None \<Rightarrow> None
      | Some [] \<Rightarrow> None
      | Some (media # parts) \<Rightarrow> if trim media = [] then None else params_loop parts [] [])"

definition filename_from_content_disposition :: "string \<Rightarrow> string" where
  "filename_from_content_disposition header =
     (case parse_params header of
        None \<Rightarrow> []
      | Some m \<Rightarrow> (case hget m ''filename'' of None \<Rightarrow> [] | Some v \<Rightarrow> v))"

section \<open>The code: receiving\<close>

datatype chunk_error = StreamError string | LimitError

type_synonym chunks = "(chunk_error + string) list"

datatype fail = FailBadRequest | FailIo string

text \<open>\<open>limited\<close>: the stream as its reader sees it; reading \<open>LimitError\<close> sets the flag.\<close>

fun limited :: "nat \<Rightarrow> nat \<Rightarrow> chunks \<Rightarrow> chunks" where
  "limited limit seen [] = []"
| "limited limit seen (Inl e # cs) = Inl e # limited limit seen cs"
| "limited limit seen (Inr c # cs) =
     (let seen = seen + length c
      in (if seen > limit then Inl LimitError else Inr c) # limited limit seen cs)"

text \<open>
  What the file system answers: opening, each write by its number, the flush; None is success. A
  transfer that breaks off leaves \<open>io_left\<close> in the file, since writes are buffered; \<open>io_remove\<close>
  tells whether removing the file works.
\<close>

record file_io =
  io_open :: "string option"
  io_write :: "nat \<Rightarrow> string option"
  io_flush :: "string option"
  io_left :: string
  io_remove :: bool

text \<open>The loop keeps what it wrote; the second component tells whether the flag of the limit was set.\<close>

fun copy_loop :: "(nat \<Rightarrow> string option) \<Rightarrow> nat \<Rightarrow> chunks \<Rightarrow> nat \<Rightarrow> string \<Rightarrow> string
    \<Rightarrow> (fail + nat \<times> string \<times> string) \<times> bool" where
  "copy_loop wr i [] sz head data = (Inr (sz, head, data), False)"
| "copy_loop wr i (Inl LimitError # cs) sz head data = (Inl (FailIo ''request body too large''), True)"
| "copy_loop wr i (Inl (StreamError e) # cs) sz head data = (Inl (FailIo e), False)"
| "copy_loop wr i (Inr c # cs) sz head data =
     (let head1 = (if length head < SNIFF_LEN then head @ take (min (SNIFF_LEN - length head) (length c)) c else head)
      in case wr i of
           Some e \<Rightarrow> (Inl (FailIo e), False)
         | None \<Rightarrow> copy_loop wr (i + 1) cs (sz + length c) head1 (data @ c))"

definition copy_to :: "file_io \<Rightarrow> string \<Rightarrow> chunks \<Rightarrow> file_store \<Rightarrow> ((fail + nat \<times> string) \<times> bool) \<times> file_store" where
  "copy_to io path cs st =
     (case io_open io of
        Some e \<Rightarrow> ((Inl (FailIo (''create temp: '' @ e)), False), st)
      | None \<Rightarrow>
          (let file = (\<lambda>data. st\<lparr>fs_disk := (fs_disk st)(path \<mapsto> data)\<rparr>)
           in case copy_loop (io_write io) 0 cs 0 [] [] of
                (Inl f, big) \<Rightarrow> ((Inl f, big), file (io_left io))
              | (Inr (sz, head, data), big) \<Rightarrow>
                  (case io_flush io of
                     Some e \<Rightarrow> ((Inl (FailIo (''close temp: '' @ e)), big), file (io_left io))
                   | None \<Rightarrow> ((Inr (sz, head), big), file data))))"

text \<open>
  What the multipart parser makes of a content type and the capped stream: no upload in it (and
  whether it ran into the limit), or a file name with the chunks of the part.
\<close>

datatype multipart = NoPart bool | Part string chunks

definition receive_multipart ::
  "(string \<Rightarrow> chunks \<Rightarrow> multipart) \<Rightarrow> file_io \<Rightarrow> string \<Rightarrow> chunks \<Rightarrow> string \<Rightarrow> file_store
    \<Rightarrow> ((fail + string \<times> nat \<times> string) \<times> bool) \<times> file_store" where
  "receive_multipart multer io ct raw temp st =
     (case multer ct raw of
        NoPart big \<Rightarrow> ((Inl FailBadRequest, big), st)
      | Part name cs \<Rightarrow>
          (case copy_to io temp cs st of
             ((Inl f, big), st1) \<Rightarrow> ((Inl f, big), st1)
           | ((Inr (sz, head), big), st1) \<Rightarrow> ((Inr (name, sz, head), big), st1)))"

record upload_req =
  ur_query :: "string option"
  ur_headers :: headers
  ur_body :: chunks

definition header_text :: "string \<Rightarrow> headers \<Rightarrow> string" where
  "header_text name h = (case Option.bind (header_get name h) header_str of None \<Rightarrow> [] | Some v \<Rightarrow> v)"

definition media_type :: "string \<Rightarrow> string" where
  "media_type ct = to_ascii_lower (trim (hd (split_on (CHR '';'') ct)))"

definition remove_temp :: "file_io \<Rightarrow> string \<Rightarrow> file_store \<Rightarrow> file_store" where
  "remove_temp io path st = (if io_remove io then st\<lparr>fs_disk := (fs_disk st)(path := None)\<rparr> else st)"

text \<open>\<open>temp\<close> is the random temp path, \<open>uid\<close> the ULID the store draws.\<close>

definition upload ::
  "(string \<Rightarrow> chunks \<Rightarrow> multipart) \<Rightarrow> file_io \<Rightarrow> string \<Rightarrow> string \<Rightarrow> instant \<Rightarrow> (string \<Rightarrow> bool) \<Rightarrow> upload_req \<Rightarrow> file_store
    \<Rightarrow> resp \<times> file_store" where
  "upload multer io temp uid now has_room req st =
     (let room = (case hget (query (ur_query req)) ''room'' of None \<Rightarrow> [] | Some r \<Rightarrow> r)
      in if room = [] \<or> \<not> has_room room then (not_found, st)
         else
           (let limit = fc_max_upload_bytes (fs_cfg st) + 1;
                ct = header_text ''content-type'' (ur_headers req);
                raw = limited limit 0 (ur_body req)
            in case (if starts_with ''multipart/'' (media_type ct) then receive_multipart multer io ct raw temp st
                     else case copy_to io temp raw st of
                            ((Inl f, big), st1) \<Rightarrow> ((Inl f, big), st1)
                          | ((Inr (sz, head), big), st1) \<Rightarrow>
                              ((Inr (filename_from_content_disposition (header_text ''content-disposition'' (ur_headers req)),
                                     sz, head), big), st1)) of
                 ((Inl f, big), st1) \<Rightarrow>
                   (if big then error_resp 413 ''file too large''
                    else (case f of FailBadRequest \<Rightarrow> error_resp 400 ''bad request'' | FailIo _ \<Rightarrow> error_resp 500 ''upload failed''),
                    remove_temp io temp st1)
               | ((Inr (name, sz, head), big), st1) \<Rightarrow>
                   (case store_at st1 uid room (sanitize_name name) (the (detect_content_type head)) sz temp now of
                      (Inr e, st2) \<Rightarrow> (json_resp 201 (JObj [(''uploadId'', JStr (fe_upload_id e))]), st2)
                    | (Inl _, st2) \<Rightarrow> (error_resp 507 ''server storage full'', remove_temp io temp st2))))"

text \<open>\<open>serve_file\<close> stands for tower-http's file service: status, headers and body for a path.\<close>

definition download ::
  "(string \<Rightarrow> resp) \<Rightarrow> string \<Rightarrow> string option \<Rightarrow> instant \<Rightarrow> file_store \<Rightarrow> resp \<times> file_store" where
  "download serve_file uid q now st =
     (let room = (case hget (query q) ''room'' of None \<Rightarrow> [] | Some r \<Rightarrow> r)
      in case get_at st uid now of
           None \<Rightarrow> (not_found, st)
         | Some e \<Rightarrow>
             if fe_room_id e \<noteq> room then (not_found, st)
             else if fs_disk st (fe_temp_path e) = None then (not_found, st)
             else
               (let r = serve_fs (serve_file (fe_temp_path e))
                in if rs_status r \<noteq> 404
                   then (set_header ''content-disposition''
                           (content_disposition (if starts_with ''image/'' (fe_mime e) then ''inline'' else ''attachment'') (fe_name e))
                           (set_header ''content-type'' (fe_mime e) r),
                         touch_at st uid now)
                   else (r, st)))"

section \<open>File names survive the header\<close>

definition plain_ascii :: "char \<Rightarrow> bool" where
  "plain_ascii c \<longleftrightarrow> 32 \<le> byte_of c \<and> byte_of c \<le> 126 \<and> c \<noteq> CHR ''\"'' \<and> c \<noteq> CHR 0x5C"

lemma ascii_fallback_plain: "list_all plain_ascii (ascii_fallback s)"
  by (auto simp: ascii_fallback_def fallback_char_def plain_ascii_def list_all_iff)

lemma quote_char_plain: "plain_ascii c \<Longrightarrow> quote_char c = [c]"
  by (auto simp: quote_char_def plain_ascii_def)

lemma go_quote_plain: "list_all plain_ascii s \<Longrightarrow> go_quote s = ''\"'' @ s @ ''\"''"
  by (induction s) (auto simp: go_quote_def quote_char_plain)

lemma split_quoted:
  "list_all plain_ascii a \<Longrightarrow> split_params_loop (a @ r) out cur True False = split_params_loop r out (cur @ a) True False"
  by (induction a arbitrary: cur) (auto simp: plain_ascii_def)

lemma split_unquoted:
  "list_all (\<lambda>c. c \<noteq> CHR ''\"'' \<and> c \<noteq> CHR '';'') a \<Longrightarrow>
     split_params_loop (a @ r) out cur False False = split_params_loop r out (cur @ a) False False"
  by (induction a arbitrary: cur) auto

lemma unescape_plain: "list_all plain_ascii s \<Longrightarrow> unescape_quoted s = s"
  by (induction s) (auto simp: unescape_quoted_def plain_ascii_def)

lemma utf8_chars_seven: "list_all (\<lambda>c. byte_of c < 128) s \<Longrightarrow> utf8_chars s = map (\<lambda>c. [c]) s"
proof (induction s rule: utf8_chars.induct)
  case (2 c cs)
  then have "takeWhile is_cont cs = []" "dropWhile is_cont cs = cs"
    by (cases cs; simp add: is_cont_def)+
  with 2 show ?case by simp
qed simp

lemma trim_seven:
  assumes "list_all (\<lambda>c. byte_of c < 128) s" and "s \<noteq> []" and "graphic (hd s)" and "graphic (last s)"
  shows "trim s = s" and "trim (CHR '' '' # s) = s"
proof -
  have d1: "dropWhile is_ws (map (\<lambda>c. [c]) s) = map (\<lambda>c. [c]) s"
    using assms(2,3) by (cases s) (simp_all add: graphic_not_ws)
  have d2: "dropWhile is_ws (rev (map (\<lambda>c. [c]) s)) = rev (map (\<lambda>c. [c]) s)"
    using assms(2,4) by (cases s rule: rev_cases) (simp_all add: graphic_not_ws)
  have sp: "is_ws [CHR '' '']" by (simp add: is_ws_def ws_chars_def ascii_def char_of_def bit_0)
  have "trim_chars (map (\<lambda>c. [c]) s) = map (\<lambda>c. [c]) s" "trim_chars ([CHR '' ''] # map (\<lambda>c. [c]) s) = map (\<lambda>c. [c]) s"
    using d1 d2 sp by (simp_all add: trim_chars_def)
  moreover have "utf8_chars (CHR '' '' # s) = [CHR '' ''] # map (\<lambda>c. [c]) s"
    using utf8_chars_seven [of "CHR '' '' # s"] assms(1) by simp
  ultimately show "trim s = s" "trim (CHR '' '' # s) = s"
    using utf8_chars_seven [OF assms(1)] by (simp_all add: trim_def)
qed

definition good_char :: "char \<Rightarrow> bool" where
  "good_char c \<longleftrightarrow> graphic c \<and> c \<noteq> CHR ''\"'' \<and> c \<noteq> CHR '';'' \<and> c \<noteq> CHR 0x27"

lemma good_percent: "good_char (CHR ''%'')"
  by (simp add: good_char_def graphic_def)

lemma good_upper: "c \<in> set upper_hex \<Longrightarrow> good_char c"
proof -
  have "list_all good_char upper_hex" by (simp add: upper_hex_def good_char_def graphic_def)
  then show "c \<in> set upper_hex \<Longrightarrow> good_char c" by (simp add: list_all_iff)
qed

lemma good_keep: "path_keep c \<Longrightarrow> good_char c"
proof -
  have "list_all good_char ''-_.~$&+=:@''" by (simp add: good_char_def graphic_def)
  moreover have "good_char c" if "ascii_alnum c"
  proof -
    have b: "32 < byte_of c \<and> byte_of c < 128" "byte_of c \<noteq> 34 \<and> byte_of c \<noteq> 59 \<and> byte_of c \<noteq> 39"
      using that unfolding ascii_alnum_def is_digit_def by linarith+
    have "byte_of (CHR ''\"'') = 34" "byte_of (CHR '';'') = 59" "byte_of (CHR 0x27) = 39" by simp_all
    with b(2) have "c \<noteq> CHR ''\"''" "c \<noteq> CHR '';''" "c \<noteq> CHR 0x27" by metis+
    with b(1) show ?thesis by (simp add: good_char_def graphic_def)
  qed
  ultimately show "path_keep c \<Longrightarrow> good_char c" unfolding path_keep_def list_all_iff by blast
qed

lemma path_escape_graphic:
  "c \<in> set (path_escape s) \<Longrightarrow> graphic c \<and> c \<noteq> CHR ''\"'' \<and> c \<noteq> CHR '';'' \<and> c \<noteq> CHR 0x27"
  by (drule path_escape_chars) (metis good_char_def good_keep good_upper good_percent)

lemma plain_seven: "list_all plain_ascii s \<Longrightarrow> list_all (\<lambda>c. byte_of c < 128) s"
proof -
  have "byte_of c < 128" if "plain_ascii c" for c
    using that unfolding plain_ascii_def by linarith
  then show "list_all plain_ascii s \<Longrightarrow> list_all (\<lambda>c. byte_of c < 128) s" unfolding list_all_iff by blast
qed

lemma split_disposition:
  assumes "list_all plain_ascii a" and "list_all (\<lambda>c. c \<noteq> CHR ''\"'' \<and> c \<noteq> CHR '';'') d"
  shows "split_params (d @ ''; filename='' @ (''\"'' @ a @ ''\"'') @ ''; filename*=UTF-8'' @ [CHR 0x27, CHR 0x27] @ path_escape s)
    = Some [d, '' filename=\"'' @ a @ ''\"'', '' filename*=UTF-8'' @ [CHR 0x27, CHR 0x27] @ path_escape s]"
proof -
  have e: "list_all (\<lambda>c. c \<noteq> CHR ''\"'' \<and> c \<noteq> CHR '';'') (path_escape s @ [])"
    using path_escape_graphic by (auto simp: list_all_iff)
  show ?thesis
    using split_unquoted [OF assms(2)] split_quoted [OF assms(1)] split_unquoted [OF e, of "[]"]
    by (simp add: split_params_def)
qed

lemma lower_filename: "to_ascii_lower ''filename'' = ''filename''" "to_ascii_lower ''filename*'' = ''filename*''"
    "to_ascii_lower ''UTF-8'' = ''utf-8''"
  by (simp_all add: to_ascii_lower_def char_of_def bit_0)

lemma decode_ext_escaped: "utf8_valid s \<Longrightarrow> decode_ext (''UTF-8'' @ [CHR 0x27, CHR 0x27] @ path_escape s) = Some s"
proof -
  assume v: "utf8_valid s"
  have "split_once (CHR 0x27) (''UTF-8'' @ CHR 0x27 # [] @ CHR 0x27 # path_escape s) = Some (''UTF-8'', [] @ CHR 0x27 # path_escape s)"
    by (rule split_once_append) simp
  moreover have "split_once (CHR 0x27) ([] @ CHR 0x27 # path_escape s) = Some ([], path_escape s)"
    by (rule split_once_append) simp
  ultimately have "splitn (Suc (Suc (Suc 0))) (CHR 0x27) (''UTF-8'' @ CHR 0x27 # [] @ CHR 0x27 # path_escape s) = [''UTF-8'', [], path_escape s]"
    unfolding splitn.simps by (simp only: option.case prod.case)
  then show ?thesis using v by (simp add: decode_ext_def eval_nat_numeral percent_decode_path_escape lower_filename from_utf8_def)
qed

text \<open>
  C21. A file name survives the trip through Content-Disposition: for every non-empty name in valid
  UTF-8, with whatever quotes, semicolons, backslashes or control characters in it, the parser reads
  from the header that \<open>download\<close> sends exactly that name.
\<close>

theorem disposition_roundtrip:
  assumes "utf8_valid name" and "name \<noteq> []" and "disp = ''inline'' \<or> disp = ''attachment''"
  shows "filename_from_content_disposition (content_disposition disp name) = name"
proof -
  let ?a = "ascii_fallback name" and ?ext = "''UTF-8'' @ [CHR 0x27, CHR 0x27] @ path_escape name"
  let ?p1 = "''filename='' @ ''\"'' @ ?a @ ''\"''" and ?p2 = "''filename*='' @ ?ext"
  have a: "list_all plain_ascii ?a" by (rule ascii_fallback_plain)
  have g: "list_all graphic ?ext" using path_escape_graphic [of _ name] by (auto simp: list_all_iff graphic_def)
  have seven: "list_all graphic s \<Longrightarrow> list_all (\<lambda>c. byte_of c < 128) s" for s by (auto simp: list_all_iff graphic_def)
  have "split_params (content_disposition disp name) = Some [disp, CHR '' '' # ?p1, CHR '' '' # ?p2]"
    using split_disposition [OF a, of disp name] assms(2,3)
    by (auto simp: content_disposition_def go_quote_plain [OF a])
  moreover have "trim (CHR '' '' # ?p1) = ?p1"
    by (rule trim_seven) (use plain_seven [OF a] in \<open>simp_all add: graphic_def\<close>)
  moreover have "trim (CHR '' '' # ?p2) = ?p2"
  proof (rule trim_seven)
    have gr: "list_all graphic ?p2" using g by (simp add: graphic_def)
    then show "list_all (\<lambda>c. byte_of c < 128) ?p2" by (rule seven)
    have "last ?p2 \<in> set ?p2" "hd ?p2 \<in> set ?p2" by simp_all
    then show "graphic (hd ?p2)" "graphic (last ?p2)" using gr by (auto simp only: list_all_iff)
  qed simp
  moreover have "split_once (CHR ''='') ?p1 = Some (''filename'', ''\"'' @ ?a @ ''\"'')"
    using split_once_append [of "CHR ''=''" "''filename''" "''\"'' @ ?a @ ''\"''"] by simp
  moreover have "split_once (CHR ''='') ?p2 = Some (''filename*'', ?ext)"
    using split_once_append [of "CHR ''=''" "''filename*''" ?ext] by simp
  moreover have "trim ''filename'' = ''filename''" "trim ''filename*'' = ''filename*''"
    by (rule trim_graphic; simp add: graphic_def)+
  moreover have "(trim disp = []) = False"
    using assms(3) trim_graphic [of disp] by (auto simp: graphic_def)
  moreover have "trim (''\"'' @ ?a @ ''\"'') = ''\"'' @ ?a @ ''\"''"
    by (rule trim_seven) (use plain_seven [OF a] in \<open>simp_all add: graphic_def\<close>)
  moreover have "trim ?ext = ?ext" by (rule trim_graphic) (rule g)
  moreover have "Option.bind (strip_prefix ''\"'' (''\"'' @ ?a @ ''\"'')) (strip_suffix ''\"'') = Some ?a"
    by (simp add: strip_suffix_def strip_prefix_def ends_with_def)
  moreover have "strip_prefix ''\"'' ?ext = None" by (simp add: strip_prefix_def)
  moreover have "strip_suffix ''*'' ''filename'' = None" "strip_suffix ''*'' ''filename*'' = Some ''filename''"
    by (simp_all add: strip_suffix_def ends_with_def)
  ultimately have "parse_params (content_disposition disp name)
      = Some (hput ''filename'' name (hput ''filename'' (unescape_quoted ?a) []))"
    using decode_ext_escaped [OF assms(1)]
    unfolding parse_params_def params_loop.simps Let_def
    by (simp only: option.case list.case prod.case lower_filename bind.simps if_False list.simps params_loop.simps
        Let_def foldl.simps append_is_Nil_conv hput_def update.simps simp_thms)
  then show ?thesis by (simp add: filename_from_content_disposition_def hashmap_simps)
qed

theorem disposition_roundtrip_witness:
  "filename_from_content_disposition (content_disposition ''attachment'' ''a;\"b.txt'') = ''a;\"b.txt''"
proof -
  have "utf8_valid ''a;\"b.txt''" by code_simp
  then show ?thesis using disposition_roundtrip [of "''a;\"b.txt''" "''attachment''"] by simp
qed

section \<open>Uploads leave a stored file or nothing\<close>

lemma copy_loop_ok:
  "copy_loop wr i cs sz head data = (Inr (sz', head', data'), big) \<Longrightarrow> length head \<le> SNIFF_LEN \<Longrightarrow>
     \<exists>ds. cs = map Inr ds \<and> sz' = sz + length (concat ds) \<and> head' = take SNIFF_LEN (head @ concat ds)
       \<and> data' = data @ concat ds"
proof (induction wr i cs sz head data rule: copy_loop.induct)
  case (4 wr i c cs sz head data)
  let ?h = "if length head < SNIFF_LEN then head @ take (min (SNIFF_LEN - length head) (length c)) c else head"
  have h: "?h = take SNIFF_LEN (head @ c)" using "4.prems"(2) by (auto simp: min_def)
  then have l: "length ?h \<le> SNIFF_LEN" by simp
  from "4.prems"(1) have "copy_loop wr (i + 1) cs (sz + length c) ?h (data @ c) = (Inr (sz', head', data'), big)" and w: "wr i = None"
    by (auto simp: Let_def split: option.splits if_splits)
  from "4.IH" [OF refl w this(1) l] obtain ds where ds: "cs = map Inr ds" "sz' = sz + length c + length (concat ds)"
      "head' = take SNIFF_LEN (?h @ concat ds)" "data' = (data @ c) @ concat ds" by blast
  have "take SNIFF_LEN (?h @ concat ds) = take SNIFF_LEN (head @ concat (c # ds))"
    unfolding h by (simp add: take_Cons' min_def)
  with ds show ?case by (intro exI [of _ "c # ds"]) simp
qed auto

text \<open>The bytes of a stream before its first error.\<close>

fun arrived :: "chunks \<Rightarrow> string" where
  "arrived [] = []"
| "arrived (Inl e # cs) = []"
| "arrived (Inr c # cs) = c @ arrived cs"

lemma arrived_data [simp]: "arrived (map Inr ds) = concat ds"
  by (induction ds) auto

lemma arrived_limited:
  "(\<exists>post. arrived cs = arrived (limited limit seen cs) @ post) \<and> (seen \<le> limit \<longrightarrow> seen + length (arrived (limited limit seen cs)) \<le> limit)"
proof (induction limit seen cs rule: limited.induct)
  case (3 limit seen c cs)
  show ?case
  proof (cases "seen + length c > limit")
    case False
    with "3.IH" [OF refl] show ?thesis by (auto simp: Let_def)
  qed (simp add: Let_def)
qed simp_all

text \<open>
  What the documentation of multer promises of a part: its data is a piece of the body it was given,
  if it ends without an error.
\<close>

definition multer_ok :: "(string \<Rightarrow> chunks \<Rightarrow> multipart) \<Rightarrow> bool" where
  "multer_ok multer \<longleftrightarrow> (\<forall>ct raw name ds. multer ct raw = Part name (map Inr ds) \<longrightarrow>
     (\<exists>pre post. arrived raw = pre @ concat ds @ post))"

lemma limited_ok: "limited limit seen cs = map Inr ds \<Longrightarrow> cs = map Inr ds \<and> (ds \<noteq> [] \<longrightarrow> seen + length (concat ds) \<le> limit)"
proof (induction limit seen cs arbitrary: ds rule: limited.induct)
  case (3 limit seen c cs)
  then obtain ds' where ds: "ds = c # ds'" "\<not> seen + length c > limit" "limited limit (seen + length c) cs = map Inr ds'"
    by (cases ds) (auto simp: Let_def split: if_splits)
  with "3.IH" [OF refl ds(3)] show ?case by (cases "ds' = []") auto
qed auto

lemma copy_to_disk: "snd (copy_to io path cs st) = st \<or> (\<exists>data. snd (copy_to io path cs st) = st\<lparr>fs_disk := (fs_disk st)(path \<mapsto> data)\<rparr>)"
  by (auto simp: copy_to_def Let_def split: option.split sum.split prod.split)

lemma copy_to_ok:
  assumes "copy_to io path cs st = ((Inr (sz, head), big), st1)"
  shows "\<exists>ds. cs = map Inr ds \<and> sz = length (concat ds) \<and> head = take SNIFF_LEN (concat ds)
    \<and> st1 = st\<lparr>fs_disk := (fs_disk st)(path \<mapsto> concat ds)\<rparr>"
proof -
  from assms obtain data where "copy_loop (io_write io) 0 cs 0 [] [] = (Inr (sz, head, data), big)"
      "st1 = st\<lparr>fs_disk := (fs_disk st)(path \<mapsto> data)\<rparr>"
    by (auto simp: copy_to_def Let_def split: option.splits sum.splits prod.splits)
  then show ?thesis using copy_loop_ok [of "io_write io" 0 cs 0 "[]" "[]" sz head data big] by auto
qed

text \<open>What the receiving half of \<open>upload\<close> leaves: the store with or without the temp path.\<close>

definition received ::
  "(string \<Rightarrow> chunks \<Rightarrow> multipart) \<Rightarrow> file_io \<Rightarrow> string \<Rightarrow> upload_req \<Rightarrow> file_store
    \<Rightarrow> ((fail + string \<times> nat \<times> string) \<times> bool) \<times> file_store" where
  "received multer io temp req st =
     (let ct = header_text ''content-type'' (ur_headers req);
          raw = limited (fc_max_upload_bytes (fs_cfg st) + 1) 0 (ur_body req)
      in if starts_with ''multipart/'' (media_type ct) then receive_multipart multer io ct raw temp st
         else case copy_to io temp raw st of
                ((Inl f, big), st1) \<Rightarrow> ((Inl f, big), st1)
              | ((Inr (sz, head), big), st1) \<Rightarrow>
                  ((Inr (filename_from_content_disposition (header_text ''content-disposition'' (ur_headers req)), sz, head), big), st1))"

definition is_multipart :: "upload_req \<Rightarrow> bool" where
  "is_multipart req \<longleftrightarrow> starts_with ''multipart/'' (media_type (header_text ''content-type'' (ur_headers req)))"

lemma received_disk:
  "snd (received multer io temp req st) = st \<or> (\<exists>data. snd (received multer io temp req st) = st\<lparr>fs_disk := (fs_disk st)(temp \<mapsto> data)\<rparr>)"
proof -
  have "snd (receive_multipart multer io ct raw temp st) = st
      \<or> (\<exists>data. snd (receive_multipart multer io ct raw temp st) = st\<lparr>fs_disk := (fs_disk st)(temp \<mapsto> data)\<rparr>)" for ct raw
    using copy_to_disk by (auto simp: receive_multipart_def split: multipart.split sum.split prod.split) (metis snd_conv)+
  moreover have "snd (copy_to io temp raw st) = st \<or> (\<exists>data. snd (copy_to io temp raw st) = st\<lparr>fs_disk := (fs_disk st)(temp \<mapsto> data)\<rparr>)" for raw
    by (rule copy_to_disk)
  ultimately show ?thesis
    by (auto simp: received_def Let_def split: sum.split prod.split) (metis snd_conv)+
qed

text \<open>What a stored upload is: the whole body under the name of its header, or one part of it under the part's.\<close>

definition upload_of :: "(string \<Rightarrow> chunks \<Rightarrow> multipart) \<Rightarrow> nat \<Rightarrow> upload_req \<Rightarrow> string \<Rightarrow> string list \<Rightarrow> bool" where
  "upload_of multer limit req name ds \<longleftrightarrow>
     (if is_multipart req
      then multer (header_text ''content-type'' (ur_headers req)) (limited limit 0 (ur_body req)) = Part name (map Inr ds)
      else ur_body req = map Inr ds
           \<and> name = filename_from_content_disposition (header_text ''content-disposition'' (ur_headers req)))"

lemma received_ok:
  assumes "received multer io temp req st = ((Inr (name, sz, head), big), st1)" and "multer_ok multer"
  defines "limit \<equiv> fc_max_upload_bytes (fs_cfg st) + 1"
  shows "\<exists>ds. upload_of multer limit req name ds \<and> sz = length (concat ds) \<and> head = take SNIFF_LEN (concat ds)
       \<and> st1 = st\<lparr>fs_disk := (fs_disk st)(temp \<mapsto> concat ds)\<rparr>
       \<and> sz \<le> limit \<and> (\<exists>pre post. arrived (ur_body req) = pre @ concat ds @ post)"
proof -
  let ?raw = "limited limit 0 (ur_body req)"
  have raw: "\<exists>post. arrived (ur_body req) = arrived ?raw @ post" "length (arrived ?raw) \<le> limit"
    using arrived_limited [of "ur_body req" limit 0] by simp_all
  show ?thesis
  proof (cases "is_multipart req")
    case True
    let ?ct = "header_text ''content-type'' (ur_headers req)"
    from True assms(1) obtain cs where p: "multer ?ct ?raw = Part name cs" and c: "copy_to io temp cs st = ((Inr (sz, head), big), st1)"
      by (auto simp: received_def is_multipart_def Let_def receive_multipart_def limit_def
          split: multipart.splits sum.splits prod.splits)
    from copy_to_ok [OF c] obtain ds where ds: "cs = map Inr ds" "sz = length (concat ds)" "head = take SNIFF_LEN (concat ds)"
        "st1 = st\<lparr>fs_disk := (fs_disk st)(temp \<mapsto> concat ds)\<rparr>" by blast
    from assms(2) p ds(1) obtain pre post where "arrived ?raw = pre @ concat ds @ post" unfolding multer_ok_def by blast
    with raw have "sz \<le> limit" "\<exists>pre post. arrived (ur_body req) = pre @ concat ds @ post"
      by (simp add: ds(2), metis append.assoc)
    moreover have "upload_of multer limit req name ds" using p ds(1) True by (simp add: upload_of_def)
    ultimately show ?thesis using ds by blast
  next
    case False
    then have c: "copy_to io temp ?raw st = ((Inr (sz, head), big), st1)"
      and n: "name = filename_from_content_disposition (header_text ''content-disposition'' (ur_headers req))"
      using assms(1) by (auto simp: received_def is_multipart_def Let_def limit_def split: sum.splits prod.splits)
    from copy_to_ok [OF c] obtain ds where ds: "?raw = map Inr ds" "sz = length (concat ds)" "head = take SNIFF_LEN (concat ds)"
        "st1 = st\<lparr>fs_disk := (fs_disk st)(temp \<mapsto> concat ds)\<rparr>" by blast
    from limited_ok [OF ds(1)] have b: "ur_body req = map Inr ds" by simp
    have "sz \<le> limit" using raw(2) by (simp add: ds(1,2))
    moreover have "arrived (ur_body req) = [] @ concat ds @ []" by (simp add: b)
    ultimately have "\<exists>pre post. arrived (ur_body req) = pre @ concat ds @ post" "sz \<le> limit" by blast+
    moreover have "upload_of multer limit req name ds" using n b False by (simp add: upload_of_def)
    ultimately show ?thesis using ds by blast
  qed
qed

lemma upload_split:
  "upload multer io temp uid now has_room req st =
     (let room = (case hget (query (ur_query req)) ''room'' of None \<Rightarrow> [] | Some r \<Rightarrow> r)
      in if room = [] \<or> \<not> has_room room then (not_found, st)
         else case received multer io temp req st of
                ((Inl f, big), st1) \<Rightarrow>
                  (if big then error_resp 413 ''file too large''
                   else (case f of FailBadRequest \<Rightarrow> error_resp 400 ''bad request'' | FailIo _ \<Rightarrow> error_resp 500 ''upload failed''),
                   remove_temp io temp st1)
              | ((Inr (name, sz, head), big), st1) \<Rightarrow>
                  (case store_at st1 uid room (sanitize_name name) (the (detect_content_type head)) sz temp now of
                     (Inr e, st2) \<Rightarrow> (json_resp 201 (JObj [(''uploadId'', JStr (fe_upload_id e))]), st2)
                   | (Inl _, st2) \<Rightarrow> (error_resp 507 ''server storage full'', remove_temp io temp st2)))"
  by (simp add: upload_def received_def Let_def)

lemma remove_temp_back:
  "fs_disk st temp = None \<Longrightarrow> st1 = st \<or> (\<exists>data. st1 = st\<lparr>fs_disk := (fs_disk st)(temp \<mapsto> data)\<rparr>) \<Longrightarrow>
     remove_temp io temp st1 = st \<or> (\<not> io_remove io \<and> (\<exists>data. remove_temp io temp st1 = st\<lparr>fs_disk := (fs_disk st)(temp \<mapsto> data)\<rparr>))"
proof -
  assume "fs_disk st temp = None"
  then have "(fs_disk st)(temp := None) = fs_disk st" by (rule fun_upd_idem)
  then show "st1 = st \<or> (\<exists>data. st1 = st\<lparr>fs_disk := (fs_disk st)(temp \<mapsto> data)\<rparr>) \<Longrightarrow> ?thesis"
    by (auto simp: remove_temp_def)
qed

lemma rs_status_simps [simp]:
  "rs_status (error_resp n m) = n" "rs_status not_found = 404" "rs_status (json_resp n j) = n"
  by (simp_all add: error_resp_def not_found_def json_resp_def with_header_def response_def)

text \<open>
  C11. An upload is all or nothing. The answer is 201, and the store has the upload under its new id,
  with the room, the name and the sniffed type and size of what its file holds: the whole body, or,
  of a multipart body, the data of the part that the parser found; it is part of what arrived and
  at most one byte larger than the configured ceiling. Or the answer is an error, and the store is
  as before, and so is the disk, whatever failed at whatever point - except that, when removing the
  temporary file fails as well (which the code ignores), that file stays behind.
\<close>

theorem upload_all_or_nothing:
  assumes "fs_disk st temp = None" and "multer_ok multer" and "upload multer io temp uid now has_room req st = (r, st')"
  shows "(rs_status r \<in> {400, 404, 413, 500, 507}
      \<and> (st' = st \<or> (\<not> io_remove io \<and> (\<exists>data. st' = st\<lparr>fs_disk := (fs_disk st)(temp \<mapsto> data)\<rparr>)))) \<or>
    (rs_status r = 201 \<and>
     (\<exists>room name ds. has_room room \<and> room \<noteq> []
        \<and> upload_of multer (fc_max_upload_bytes (fs_cfg st) + 1) req name ds
        \<and> (\<exists>pre post. arrived (ur_body req) = pre @ concat ds @ post)
        \<and> length (concat ds) \<le> fc_max_upload_bytes (fs_cfg st) + 1
        \<and> st' = st\<lparr>fs_disk := (fs_disk st)(temp \<mapsto> concat ds),
                   fs_entries := hput uid \<lparr>fe_upload_id = uid, fe_room_id = room, fe_name = sanitize_name name,
                       fe_mime = the (detect_content_type (take SNIFF_LEN (concat ds))), fe_size = length (concat ds),
                       fe_temp_path = temp, fe_created_at = now, fe_expires_at = now + fc_ttl (fs_cfg st)\<rparr> (fs_entries st),
                   fs_total := fs_total st + length (concat ds)\<rparr>))"
proof -
  define room where "room = (case hget (query (ur_query req)) ''room'' of None \<Rightarrow> [] | Some r \<Rightarrow> r)"
  obtain res big st1 where rc: "received multer io temp req st = ((res, big), st1)" by (metis prod.exhaust)
  have undone: "remove_temp io temp st1 = st \<or> (\<not> io_remove io \<and> (\<exists>data. remove_temp io temp st1 = st\<lparr>fs_disk := (fs_disk st)(temp \<mapsto> data)\<rparr>))"
    using remove_temp_back [OF assms(1)] received_disk [of multer io temp req st] rc by simp
  note u = assms(3) [unfolded upload_split Let_def, folded room_def, unfolded rc]
  consider (none) "room = [] \<or> \<not> has_room room" | (failed) f where "room \<noteq> []" "has_room room" "res = Inl f"
    | (ok) name sz head where "room \<noteq> []" "has_room room" "res = Inr (name, sz, head)"
    by (cases res) (blast, metis prod_cases3)
  then show ?thesis
  proof cases
    case none
    with u show ?thesis by auto
  next
    case failed
    with u have "st' = remove_temp io temp st1" "rs_status r \<in> {400, 413, 500}" by (auto split: fail.splits if_splits)
    with undone show ?thesis by auto
  next
    case ok
    let ?st = "store_at st1 uid room (sanitize_name name) (the (detect_content_type head)) sz temp now"
    from received_ok [OF rc [unfolded ok(3)] assms(2)] obtain ds where
      ds: "upload_of multer (fc_max_upload_bytes (fs_cfg st) + 1) req name ds" "sz = length (concat ds)" "head = take SNIFF_LEN (concat ds)"
        "st1 = st\<lparr>fs_disk := (fs_disk st)(temp \<mapsto> concat ds)\<rparr>" "sz \<le> fc_max_upload_bytes (fs_cfg st) + 1"
        "\<exists>pre post. arrived (ur_body req) = pre @ concat ds @ post" by blast
    show ?thesis
    proof (cases "fst ?st")
      case (Inl e)
      then have "snd ?st = st1" by (auto simp: store_at_def Let_def split: if_splits)
      with u ok Inl have "st' = remove_temp io temp st1" "rs_status r = 507" by (auto split: prod.splits)
      with undone show ?thesis by auto
    next
      case (Inr e)
      let ?e = "\<lparr>fe_upload_id = uid, fe_room_id = room, fe_name = sanitize_name name,
        fe_mime = the (detect_content_type (take SNIFF_LEN (concat ds))), fe_size = length (concat ds),
        fe_temp_path = temp, fe_created_at = now, fe_expires_at = now + fc_ttl (fs_cfg st)\<rparr>"
      let ?st' = "st\<lparr>fs_disk := (fs_disk st)(temp \<mapsto> concat ds), fs_entries := hput uid ?e (fs_entries st),
        fs_total := fs_total st + length (concat ds)\<rparr>"
      from Inr have "?st = (Inr ?e, ?st')" using ds(2-4) by (auto simp: store_at_def Let_def split: if_splits)
      with u ok have "rs_status r = 201" "st' = ?st'" by auto
      with ok(1,2) ds show ?thesis by blast
    qed
  qed
qed

text \<open>
  One byte over the ceiling of three is stored; two bytes over are refused, and when the removal
  fails the temporary file stays. The parser takes a whole body for its first part.
\<close>

definition example_store :: file_store where
  "example_store = fs_init \<lparr>fc_ttl = secs 300, fc_ttl_hard_cap = secs 1800, fc_max_upload_bytes = 3, fc_max_total_bytes = 0\<rparr>"

definition whole_part :: "string \<Rightarrow> chunks \<Rightarrow> multipart" where
  "whole_part ct raw = Part ''a.txt'' raw"

definition example_upload :: "bool \<Rightarrow> headers \<Rightarrow> string list \<Rightarrow> resp \<times> file_store" where
  "example_upload removable hs body =
     upload whole_part \<lparr>io_open = None, io_write = (\<lambda>_. None), io_flush = None, io_left = ''a'', io_remove = removable\<rparr>
       ''/tmp/up-1'' ''ID'' 0
       (\<lambda>r. r = ''room1'') \<lparr>ur_query = Some ''room=room1'', ur_headers = hs, ur_body = map Inr body\<rparr> example_store"

theorem upload_all_or_nothing_witness:
  "rs_status (fst (example_upload False [(''content-type'', ''multipart/form-data'')] [''ab'', ''cd''])) = 201
   \<and> fs_disk (snd (example_upload False [(''content-type'', ''multipart/form-data'')] [''ab'', ''cd''])) ''/tmp/up-1'' = Some ''abcd''
   \<and> rs_status (fst (example_upload True [] [''ab'', ''cde''])) = 413 \<and> snd (example_upload True [] [''ab'', ''cde'']) = example_store"
proof -
  let ?hs = "[(''content-type'', ''multipart/form-data'')]"
  have q: "hget (query (Some ''room=room1'')) ''room'' = Some ''room1''" by code_simp
  have m: "starts_with ''multipart/'' (media_type (header_text ''content-type'' [])) = False"
    "starts_with ''multipart/'' (media_type (header_text ''content-type'' ?hs)) = True" by code_simp+
  note e = example_upload_def upload_def example_store_def fs_init_def q m copy_to_def SNIFF_LEN_def store_at_def Let_def hashmap_simps
    receive_multipart_def whole_part_def
  have s: "rs_status (fst (example_upload False ?hs [''ab'', ''cd''])) = 201" "rs_status (fst (example_upload True [] [''ab'', ''cde''])) = 413"
    by (simp_all add: e)
  have d: "fs_disk example_store ''/tmp/up-1'' = None" by (simp add: example_store_def fs_init_def)
  have w: "multer_ok whole_part"
    unfolding multer_ok_def whole_part_def by (intro allI impI exI [of _ "[]"]) simp
  note all = upload_all_or_nothing [OF d w example_upload_def [symmetric, THEN trans, OF prod.collapse [symmetric]]]
  have "snd (example_upload True [] [''ab'', ''cde'']) = example_store"
    using all [of True "[]" "[''ab'', ''cde'']"] s(2) by simp
  moreover have "fs_disk (snd (example_upload False ?hs [''ab'', ''cd''])) ''/tmp/up-1'' = Some ''abcd''"
  proof -
    from all [of False ?hs "[''ab'', ''cd'']"] s(1) obtain name ds where
      "upload_of whole_part 4 \<lparr>ur_query = Some ''room=room1'', ur_headers = ?hs, ur_body = map Inr [''ab'', ''cd'']\<rparr> name ds"
      and st: "fs_disk (snd (example_upload False ?hs [''ab'', ''cd''])) = (fs_disk example_store)(''/tmp/up-1'' \<mapsto> concat ds)"
      by (auto simp: example_store_def fs_init_def)
    then have "map Inr ds = (map Inr [''ab'', ''cd''] :: chunks)" by (simp add: upload_of_def is_multipart_def m whole_part_def Let_def)
    then have "arrived (map Inr ds) = ''abcd''" by (metis arrived.simps(1,3) append.simps list.simps(8,9))
    with st show ?thesis by simp
  qed
  ultimately show ?thesis using s by blast
qed

end
