(* ===== verification/Presence.thy ===== *)
theory Presence
  imports Protocol
begin

text \<open>
  \<open>backend/src/presence.rs\<close>: the hub that fans presence events out to the subscribers of
  \<open>/api/presence\<close>. The rooms and their members are an argument where the hub asks its lister for
  them. The clients' merging is the specification the frames are written for: a snapshot replaces
  everything, a joined or updated peer is put in place of an old one, a peer that left is removed.
\<close>

section \<open>The code\<close>

definition OUT_BUF_LEN :: nat where "OUT_BUF_LEN = 8"
definition HEARTBEAT :: duration where "HEARTBEAT = secs 25"

type_synonym rooms = "(string \<times> peer_info list) list"

datatype frame =
    Snapshot rooms
  | PeerJoinedF string peer_info
  | PeerLeftF string string
  | PeerUpdatedF string peer_info

record hub =
  hb_next_id :: nat
  hb_subs :: "(nat, frame list) hashmap"

definition new_hub :: hub where
  "new_hub = \<lparr>hb_next_id = 0, hb_subs = []\<rparr>"

definition push :: "frame \<Rightarrow> rooms \<Rightarrow> hub \<Rightarrow> hub" where
  "push f rooms h =
     h\<lparr>hb_subs := map (\<lambda>(i, q). (i, if length q < OUT_BUF_LEN then q @ [f] else [Snapshot rooms])) (hb_subs h)\<rparr>"

definition hub_peer_joined :: "string \<Rightarrow> peer_info \<Rightarrow> rooms \<Rightarrow> hub \<Rightarrow> hub" where
  "hub_peer_joined room peer rooms h = push (PeerJoinedF room peer) rooms h"

definition hub_peer_left :: "string \<Rightarrow> string \<Rightarrow> rooms \<Rightarrow> hub \<Rightarrow> hub" where
  "hub_peer_left room pid rooms h = push (PeerLeftF room pid) rooms h"

definition hub_peer_updated :: "string \<Rightarrow> peer_info \<Rightarrow> rooms \<Rightarrow> hub \<Rightarrow> hub" where
  "hub_peer_updated room peer rooms h = push (PeerUpdatedF room peer) rooms h"

definition subscribe :: "rooms \<Rightarrow> hub \<Rightarrow> nat \<times> hub" where
  "subscribe rooms h =
     (let i = hb_next_id h + 1
      in (i, h\<lparr>hb_next_id := i, hb_subs := hput i [Snapshot rooms] (hb_subs h)\<rparr>))"

text \<open>Dropping a subscription.\<close>

definition unsubscribe :: "nat \<Rightarrow> hub \<Rightarrow> hub" where
  "unsubscribe i h = h\<lparr>hb_subs := hdel i (hb_subs h)\<rparr>"

text \<open>The next frame of a subscriber; None when it has to wait.\<close>

definition next_frame :: "nat \<Rightarrow> hub \<Rightarrow> (frame \<times> hub) option" where
  "next_frame i h =
     (case hget (hb_subs h) i of
        Some (f # q) \<Rightarrow> Some (f, h\<lparr>hb_subs := hput i q (hb_subs h)\<rparr>)
      | _ \<Rightarrow> None)"

section \<open>Feeds of deltas\<close>

text \<open>
  What makes a queue of deltas good: each delta sets one key, and a snapshot does not look at what
  was there.
\<close>

locale delta_feed =
  fixes upd :: "'f \<Rightarrow> ('k \<Rightarrow> 'v option) \<Rightarrow> 'k \<Rightarrow> 'v option"
    and key :: "'f \<Rightarrow> 'k"
    and val :: "'f \<Rightarrow> 'v option"
    and is_snapshot :: "'f \<Rightarrow> bool"
  assumes delta: "\<not> is_snapshot f \<Longrightarrow> upd f v = v(key f := val f)"
    and snapshot: "is_snapshot f \<Longrightarrow> upd f v = upd f w"
begin

definition read :: "('k \<Rightarrow> 'v option) \<Rightarrow> 'f list \<Rightarrow> 'k \<Rightarrow> 'v option" where
  "read v q = foldl (\<lambda>v f. upd f v) v q"

end

section \<open>Deltas that are delivered late\<close>

text \<open>
  A delta is made when something changes and delivered later, not always in order. Of the deltas
  on their way (oldest first) the flag says that a newer one of the same key has been delivered.
\<close>

definition newest :: "('f \<Rightarrow> 'k) \<Rightarrow> ('f \<times> bool) list \<Rightarrow> 'k \<Rightarrow> 'f option" where
  "newest key pend k = map_option fst (List.find (\<lambda>(f, old). \<not> old \<and> key f = k) (rev pend))"

definition overtake :: "('f \<Rightarrow> 'k) \<Rightarrow> nat \<Rightarrow> ('f \<times> bool) list \<Rightarrow> ('f \<times> bool) list" where
  "overtake key n pend =
     map (\<lambda>(f, old). (f, old \<or> key f = key (fst (pend ! n)))) (take n pend) @ drop (Suc n) pend"

text \<open>The keys whose last delivery was of an overtaken delta.\<close>

definition restale :: "('f \<Rightarrow> 'k) \<Rightarrow> 'f \<times> bool \<Rightarrow> 'k set \<Rightarrow> 'k set" where
  "restale key d stale = (if snd d then insert (key (fst d)) stale else stale - {key (fst d)})"

lemma find_append: "List.find P (xs @ ys) = (case List.find P xs of Some x \<Rightarrow> Some x | None \<Rightarrow> List.find P ys)"
  by (induction xs) auto

lemma newest_append:
  "newest key (xs @ ys) k = (case newest key ys k of Some f \<Rightarrow> Some f | None \<Rightarrow> newest key xs k)"
  by (simp add: newest_def find_append split: option.split)

lemma newest_Cons:
  "newest key (x # xs) k = (case newest key xs k of Some f \<Rightarrow> Some f
     | None \<Rightarrow> if \<not> snd x \<and> key (fst x) = k then Some (fst x) else None)"
proof -
  have "newest key [x] k = (if \<not> snd x \<and> key (fst x) = k then Some (fst x) else None)"
    by (cases x) (simp add: newest_def)
  with newest_append [of key "[x]" xs k] show ?thesis by (cases "newest key xs k") simp_all
qed

lemma newest_Nil [simp]: "newest key [] k = None"
  by (simp add: newest_def)

lemma newest_key: "newest key pend k = Some f \<Longrightarrow> (f, False) \<in> set pend \<and> key f = k"
  by (induction pend) (auto simp: newest_Cons split: option.splits if_splits)

lemma newest_none: "k \<notin> key ` fst ` set pend \<Longrightarrow> newest key pend k = None"
  using newest_key [of key pend k] by (cases "newest key pend k") force+

lemma newest_new:
  "newest key (map (\<lambda>f. (f, False)) fs) k = None \<longleftrightarrow> k \<notin> key ` set fs"
  by (induction fs) (auto simp: newest_Cons split: option.splits)

lemma newest_marked: "newest key (map (\<lambda>(f, old). (f, old \<or> key f = j)) xs) k = (if k = j then None else newest key xs k)"
proof (induction xs)
  case (Cons x xs)
  then show ?case by (cases x) (auto simp: newest_Cons split: option.split)
qed simp

lemma newest_overtake:
  "newest key (overtake key n pend) k =
     (case newest key (drop (Suc n) pend) k of Some f \<Rightarrow> Some f
      | None \<Rightarrow> if k = key (fst (pend ! n)) then None else newest key (take n pend) k)"
  by (simp add: overtake_def newest_append newest_marked cong: option.case_cong)

lemma newest_nth:
  assumes "n < length pend"
  shows "newest key pend k = (case newest key (drop (Suc n) pend) k of Some f \<Rightarrow> Some f
    | None \<Rightarrow> if \<not> snd (pend ! n) \<and> key (fst (pend ! n)) = k then Some (fst (pend ! n)) else newest key (take n pend) k)"
proof -
  have "pend = take n pend @ pend ! n # drop (Suc n) pend" using assms by (rule id_take_nth_drop)
  then have "newest key pend k = newest key (take n pend @ pend ! n # drop (Suc n) pend) k" by simp
  then show ?thesis by (simp only: newest_append newest_Cons) (simp split: option.split)
qed

text \<open>
  A feed whose readers see, of every key, something the state admits. A delta that the state
  admits repairs its key; a snapshot of the state repairs all of them.
\<close>

locale tolerant_feed = delta_feed upd key val is_snapshot
  for upd :: "'f \<Rightarrow> ('k \<Rightarrow> 'v option) \<Rightarrow> 'k \<Rightarrow> 'v option" and key :: "'f \<Rightarrow> 'k" and val :: "'f \<Rightarrow> 'v option"
    and is_snapshot :: "'f \<Rightarrow> bool" +
  fixes admits :: "'s \<Rightarrow> 'k \<Rightarrow> 'v option \<Rightarrow> bool"
    and snap :: "'s \<Rightarrow> 'f"
    and wf :: "'s \<Rightarrow> bool"
  assumes snap: "is_snapshot (snap s)"
    and snap_admitted: "wf s \<Longrightarrow> admits s k (upd (snap s) v k)"
begin

text \<open>The newest delta under way tells what is; a reader is right where none is and no old one came last.\<close>

definition truthful :: "('f \<times> bool) list \<Rightarrow> 's \<Rightarrow> bool" where
  "truthful pend s \<longleftrightarrow> (\<forall>d \<in> set pend. \<not> is_snapshot (fst d)) \<and> (\<forall>k f. newest key pend k = Some f \<longrightarrow> admits s k (val f))"

definition current :: "('f \<times> bool) list \<Rightarrow> 'k set \<Rightarrow> 's \<Rightarrow> ('k \<Rightarrow> 'v option) \<Rightarrow> 'f list \<Rightarrow> bool" where
  "current pend stale s v q \<longleftrightarrow> (\<forall>k. newest key pend k = None \<longrightarrow> k \<notin> stale \<longrightarrow> admits s k (read v q k))"

lemma current_snapshot: "wf s \<Longrightarrow> current pend stale s v [snap s]"
  by (simp add: current_def read_def snap_admitted)

lemma current_read: "current pend stale s v (f # q) \<Longrightarrow> current pend stale s (upd f v) q"
  by (simp add: current_def read_def)

lemma truthful_made:
  assumes "truthful pend s" and "\<And>f. f \<in> set fs \<Longrightarrow> \<not> is_snapshot f \<and> admits s' (key f) (val f)"
    and "\<And>k x. k \<notin> key ` set fs \<Longrightarrow> admits s k x \<Longrightarrow> admits s' k x"
  shows "truthful (pend @ map (\<lambda>f. (f, False)) fs) s'"
proof -
  have "admits s' k (val f)" if "newest key (pend @ map (\<lambda>f. (f, False)) fs) k = Some f" for k f
  proof (cases "newest key (map (\<lambda>f. (f, False)) fs) k")
    case None
    with that assms(1,3) newest_new [of key fs k] show ?thesis by (simp add: newest_append truthful_def)
  next
    case (Some g)
    with that newest_key [OF Some] assms(2) [of f] show ?thesis by (auto simp: newest_append)
  qed
  with assms(1,2) show ?thesis by (auto simp: truthful_def)
qed

lemma current_made:
  "current pend stale s v q \<Longrightarrow> (\<And>k x. k \<notin> key ` set fs \<Longrightarrow> admits s k x \<Longrightarrow> admits s' k x) \<Longrightarrow>
   current (pend @ map (\<lambda>f. (f, False)) fs) stale s' v q"
  by (auto simp: current_def newest_append newest_new split: option.splits)

lemma truthful_delivered: "truthful pend s \<Longrightarrow> n < length pend \<Longrightarrow> truthful (overtake key n pend) s"
proof -
  assume t: "truthful pend s" and n: "n < length pend"
  have "newest key pend k = Some f" if "newest key (overtake key n pend) k = Some f" for k f
    using that by (auto simp: newest_nth [OF n] newest_overtake split: option.splits if_splits)
  moreover have "\<forall>d \<in> set (overtake key n pend). \<not> is_snapshot (fst d)"
    using t by (fastforce simp: truthful_def overtake_def dest: in_set_takeD in_set_dropD)
  ultimately show ?thesis using t by (auto simp: truthful_def)
qed

lemma current_delivered:
  assumes "truthful pend s" and "current pend stale s v q" and n: "n < length pend"
  shows "current (overtake key n pend) (restale key (pend ! n) stale) s v (q @ [fst (pend ! n)])"
proof -
  let ?f = "fst (pend ! n)"
  have "\<not> is_snapshot ?f" using assms(1) n by (simp add: truthful_def)
  then have rd: "read v (q @ [?f]) k = (if k = key ?f then val ?f else read v q k)" for k
    by (simp add: read_def delta)
  have "admits s k (read v (q @ [?f]) k)"
    if "newest key (overtake key n pend) k = None" "k \<notin> restale key (pend ! n) stale" for k
  proof (cases "k = key ?f")
    case True
    with that(2) have fresh: "\<not> snd (pend ! n)" by (auto simp: restale_def)
    from that(1) have "newest key (drop (Suc n) pend) k = None" by (simp add: newest_overtake split: option.splits)
    with fresh True have "newest key pend k = Some ?f" by (simp add: newest_nth [OF n])
    with assms(1) True show ?thesis by (simp add: truthful_def rd)
  next
    case False
    from that(1) False have "newest key pend k = None"
      by (simp add: newest_nth [OF n] newest_overtake split: option.splits)
    with False that(2) assms(2) show ?thesis by (auto simp: rd current_def restale_def split: if_splits)
  qed
  then show ?thesis by (simp add: current_def)
qed

end

section \<open>Clients\<close>

type_synonym view = "string \<times> string \<Rightarrow> peer_info option"

definition member :: "rooms \<Rightarrow> view" where
  "member rooms k =
     (case map_of rooms (fst k) of None \<Rightarrow> None | Some ps \<Rightarrow> List.find (\<lambda>p. pi_id p = snd k) ps)"

fun merge :: "frame \<Rightarrow> view \<Rightarrow> view" where
  "merge (Snapshot rooms) v = member rooms"
| "merge (PeerJoinedF r p) v = v((r, pi_id p) := Some p)"
| "merge (PeerUpdatedF r p) v = v((r, pi_id p) := Some p)"
| "merge (PeerLeftF r i) v = v((r, i) := None)"

fun frame_key :: "frame \<Rightarrow> string \<times> string" where
  "frame_key (Snapshot _) = ([], [])"
| "frame_key (PeerJoinedF r p) = (r, pi_id p)"
| "frame_key (PeerUpdatedF r p) = (r, pi_id p)"
| "frame_key (PeerLeftF r i) = (r, i)"

fun frame_val :: "frame \<Rightarrow> peer_info option" where
  "frame_val (PeerJoinedF r p) = Some p"
| "frame_val (PeerUpdatedF r p) = Some p"
| "frame_val _ = None"

fun is_snapshot :: "frame \<Rightarrow> bool" where
  "is_snapshot (Snapshot _) = True"
| "is_snapshot _ = False"

interpretation feed: tolerant_feed merge frame_key frame_val is_snapshot "\<lambda>rooms k v. v = member rooms k" Snapshot "\<lambda>_. True"
proof unfold_locales
  show "\<not> is_snapshot f \<Longrightarrow> merge f v = v(frame_key f := frame_val f)" for f v by (cases f) auto
  show "is_snapshot f \<Longrightarrow> merge f v = merge f w" for f v w by (cases f) auto
qed simp_all

section \<open>Runs\<close>

text \<open>
  A handler changes its room and makes the event under the lock of the room, and pushes the event
  after it has released the lock; the pushes of different handlers may come in any order. \<open>Change f\<close>
  is such a change with the frame of its event, \<open>Push n\<close> the push of the n-th event under way. A
  client reads a frame whenever it can.
\<close>

record presence_state =
  pn_hub :: hub
  pn_rooms :: rooms
  pn_pending :: "(frame \<times> bool) list"
  pn_stale :: "(string \<times> string) set"
  pn_views :: "nat \<Rightarrow> view"

datatype presence_step =
    Change frame rooms
  | Push nat
  | Subscribe
  | Unsubscribe nat
  | Read nat

fun presence_do :: "presence_state \<Rightarrow> presence_step \<Rightarrow> presence_state" where
  "presence_do s (Change f rooms) = s\<lparr>pn_rooms := rooms, pn_pending := pn_pending s @ [(f, False)]\<rparr>"
| "presence_do s (Push n) =
     (if n < length (pn_pending s)
      then s\<lparr>pn_hub := push (fst (pn_pending s ! n)) (pn_rooms s) (pn_hub s),
             pn_stale := restale frame_key (pn_pending s ! n) (pn_stale s),
             pn_pending := overtake frame_key n (pn_pending s)\<rparr>
      else s)"
| "presence_do s Subscribe = s\<lparr>pn_hub := snd (subscribe (pn_rooms s) (pn_hub s))\<rparr>"
| "presence_do s (Unsubscribe i) = s\<lparr>pn_hub := unsubscribe i (pn_hub s)\<rparr>"
| "presence_do s (Read i) =
     (case next_frame i (pn_hub s) of
        None \<Rightarrow> s
      | Some (f, h) \<Rightarrow> s\<lparr>pn_hub := h, pn_views := (pn_views s)(i := merge f (pn_views s i))\<rparr>)"

text \<open>A change is one member's, and its event says of that member what the change made of it.\<close>

fun presence_enabled :: "presence_state \<Rightarrow> presence_step \<Rightarrow> bool" where
  "presence_enabled s (Change f rooms) \<longleftrightarrow> \<not> is_snapshot f \<and> frame_val f = member rooms (frame_key f)
     \<and> (\<forall>k. k \<noteq> frame_key f \<longrightarrow> member rooms k = member (pn_rooms s) k)"
| "presence_enabled s _ \<longleftrightarrow> True"

definition new_presence :: "rooms \<Rightarrow> presence_state" where
  "new_presence rooms = \<lparr>pn_hub = new_hub, pn_rooms = rooms, pn_pending = [], pn_stale = {}, pn_views = (\<lambda>_ _. None)\<rparr>"

definition presence_inv :: "presence_state \<Rightarrow> bool" where
  "presence_inv s \<longleftrightarrow> feed.truthful (pn_pending s) (pn_rooms s)
   \<and> (\<forall>i q. hget (hb_subs (pn_hub s)) i = Some q \<longrightarrow>
        length q \<le> OUT_BUF_LEN \<and> feed.current (pn_pending s) (pn_stale s) (pn_rooms s) (pn_views s i) q)"

lemma push_queue:
  "hget (hb_subs (push f rooms h)) i =
     map_option (\<lambda>q. if length q < OUT_BUF_LEN then q @ [f] else [Snapshot rooms]) (hget (hb_subs h) i)"
proof -
  have "map_of (map (\<lambda>(i, q). (i, g q)) m) i = map_option g (map_of m i)" for g :: "frame list \<Rightarrow> frame list" and m
    by (induction m) auto
  then show ?thesis by (simp add: push_def hget_def)
qed

lemma presence_step_inv: "presence_inv s \<Longrightarrow> presence_enabled s e \<Longrightarrow> presence_inv (presence_do s e)"
proof (cases e)
  case (Change f rooms)
  assume inv: "presence_inv s" and en: "presence_enabled s e"
  have "\<forall>k. k \<noteq> frame_key f \<longrightarrow> member rooms k = member (pn_rooms s) k" using en by (simp add: Change)
  then have keep: "x = member rooms k" if "k \<notin> frame_key ` set [f]" "x = member (pn_rooms s) k" for k x
    using that by (metis image_eqI list.set_intros(1))
  have "feed.truthful (pn_pending s @ map (\<lambda>f. (f, False)) [f]) rooms"
    by (rule feed.truthful_made [OF _ _ keep]) (use inv en in \<open>simp_all add: presence_inv_def Change\<close>)
  moreover have "feed.current (pn_pending s @ map (\<lambda>f. (f, False)) [f]) (pn_stale s) rooms v q"
    if "feed.current (pn_pending s) (pn_stale s) (pn_rooms s) v q" for v q
    by (rule feed.current_made [OF that keep])
  ultimately show ?thesis using inv by (simp add: presence_inv_def Change)
next
  case (Push n)
  assume inv: "presence_inv s"
  show ?thesis
  proof (cases "n < length (pn_pending s)")
    case n: True
    let ?f = "fst (pn_pending s ! n)" and ?pend = "overtake frame_key n (pn_pending s)"
    let ?stale = "restale frame_key (pn_pending s ! n) (pn_stale s)"
    have t: "feed.truthful (pn_pending s) (pn_rooms s)" using inv by (simp add: presence_inv_def)
    have "length q' \<le> OUT_BUF_LEN \<and> feed.current ?pend ?stale (pn_rooms s) (pn_views s j) q'"
      if "hget (hb_subs (push ?f (pn_rooms s) (pn_hub s))) j = Some q'" for j q'
    proof -
      from that obtain q where q: "hget (hb_subs (pn_hub s)) j = Some q"
        "q' = (if length q < OUT_BUF_LEN then q @ [?f] else [Snapshot (pn_rooms s)])" by (auto simp: push_queue)
      with inv have "feed.current (pn_pending s) (pn_stale s) (pn_rooms s) (pn_views s j) q" by (simp add: presence_inv_def)
      from feed.current_delivered [OF t this n] feed.current_snapshot q(2) show ?thesis by (auto simp: OUT_BUF_LEN_def)
    qed
    with Push n feed.truthful_delivered [OF t n] show ?thesis by (simp add: presence_inv_def)
  next
    case False
    with Push inv show ?thesis by simp
  qed
next
  case Subscribe
  assume "presence_inv s"
  with Subscribe feed.current_snapshot show ?thesis
    by (auto simp: presence_inv_def subscribe_def Let_def hashmap_simps OUT_BUF_LEN_def)
next
  case (Unsubscribe i)
  assume "presence_inv s"
  with Unsubscribe show ?thesis by (auto simp: presence_inv_def unsubscribe_def hashmap_simps)
next
  case (Read i)
  assume inv: "presence_inv s"
  show ?thesis
  proof (cases "hget (hb_subs (pn_hub s)) i")
    case None
    with Read inv show ?thesis by (simp add: next_frame_def)
  next
    case (Some q)
    show ?thesis
    proof (cases q)
      case Nil
      with Read inv Some show ?thesis by (simp add: next_frame_def)
    next
      case (Cons f r)
      have "length (f # r) \<le> OUT_BUF_LEN \<and> feed.current (pn_pending s) (pn_stale s) (pn_rooms s) (pn_views s i) (f # r)"
        using inv Some unfolding Cons presence_inv_def by blast
      then have "length r \<le> OUT_BUF_LEN" "feed.current (pn_pending s) (pn_stale s) (pn_rooms s) (merge f (pn_views s i)) r"
        by (simp, blast intro: feed.current_read)
      with Read inv Some Cons show ?thesis by (auto simp: presence_inv_def next_frame_def hashmap_simps)
    qed
  qed
qed

interpretation presence: stepper presence_do presence_enabled presence_inv
  by unfold_locales (rule presence_step_inv)


definition ex_peer :: "string \<Rightarrow> peer_info" where
  "ex_peer i = \<lparr>pi_id = i, pi_display_name = ''Ann'', pi_client_id = [], pi_self_muted = False, pi_deafened = False,
               pi_chat_only = False, pi_screen_sharing = False, pi_screen_sharing_has_audio = False,
               pi_screen_sharing_video_codec = None\<rparr>"

lemma hput_single: "hput i v [] = [(i, v)]"
  by (simp add: hput_def)


text \<open>
  The limit of this: a member is read for an update, leaves (which pushes its leaving), and only
  then is the update pushed. A client puts the member back, and keeps it though it left and no
  event is outstanding.
\<close>

lemma stale_update_resurrects:
  "let r1 = [(''room1'', [ex_peer ''p''])]; r0 = [(''room1'', [])];
       s = foldl presence_do (new_presence r1)
             [Subscribe, Read 1, Change (PeerUpdatedF ''room1'' (ex_peer ''p'')) r1, Change (PeerLeftF ''room1'' ''p'') r0,
              Push 1, Push 0, Read 1, Read 1]
   in pn_pending s = [] \<and> hget (hb_subs (pn_hub s)) 1 = Some [] \<and> member (pn_rooms s) (''room1'', ''p'') = None
      \<and> pn_views s 1 (''room1'', ''p'') = Some (ex_peer ''p'')"
  by (simp add: Let_def new_presence_def new_hub_def subscribe_def push_def hput_single hget_Cons next_frame_def
      OUT_BUF_LEN_def member_def hput_def overtake_def restale_def) (simp add: ex_peer_def)

end
