(* ===== verification/Ws.thy ===== *)
theory Ws
  imports HttpText
begin

text \<open>
  \<open>backend/src/http/ws.rs\<close>: the checks of the WebSocket handshake, the Origin policy and its glob
  matcher. The accept key (SHA-1, Base64) is a parameter. The matcher's loop is a partial function:
  that it returns is part of what is proved.
\<close>

section \<open>The code: globs\<close>

text \<open>
  The rest of the pattern and of the text stand for the indices \<open>pi\<close> and \<open>si\<close>; a star that was
  met keeps the pattern after it and the text it was met at.
\<close>

partial_function (option) glob_loop :: "string \<Rightarrow> string \<Rightarrow> (string \<times> string) option \<Rightarrow> bool option" where
  "glob_loop p s star =
     (case s of
        [] \<Rightarrow> Some (dropWhile (\<lambda>c. c = CHR ''*'') p = [])
      | x # xs \<Rightarrow>
          if p \<noteq> [] \<and> (hd p = CHR ''?'' \<and> x \<noteq> CHR ''/'' \<or> hd p = x \<and> hd p \<noteq> CHR ''*'')
          then glob_loop (tl p) xs star
          else if p \<noteq> [] \<and> hd p = CHR ''*'' then glob_loop (tl p) s (Some (tl p, s))
          else case star of
                 None \<Rightarrow> Some False
               | Some (sp, ss) \<Rightarrow>
                   if hd ss = CHR ''/'' then Some False
                   else glob_loop sp (tl ss) (Some (sp, tl ss)))"

declare glob_loop.simps [code]

definition glob_match :: "string \<Rightarrow> string \<Rightarrow> bool option" where
  "glob_match pat s = glob_loop pat s None"

section \<open>What a glob means\<close>

text \<open>A star is any run without a slash, a question mark any byte but a slash.\<close>

fun glob :: "string \<Rightarrow> string \<Rightarrow> bool" where
  "glob [] s = (s = [])"
| "glob (c # p) [] = (c = CHR ''*'' \<and> glob p [])"
| "glob (c # p) (x # xs) =
     (if c = CHR ''*'' then glob p (x # xs) \<or> x \<noteq> CHR ''/'' \<and> glob (c # p) xs
      else (c = x \<or> c = CHR ''?'' \<and> x \<noteq> CHR ''/'') \<and> glob p xs)"

definition lits :: "string \<Rightarrow> nat" where
  "lits p = length (filter (\<lambda>c. c \<noteq> CHR ''*'') p)"

lemma glob_lits: "glob p s \<Longrightarrow> lits p \<le> length s"
  by (induction p s rule: glob.induct) (auto simp: lits_def split: if_splits)

lemma glob_empty: "glob p [] \<longleftrightarrow> dropWhile (\<lambda>c. c = CHR ''*'') p = []"
  by (induction p) auto

lemma lits_0: "lits p = 0 \<longleftrightarrow> dropWhile (\<lambda>c. c = CHR ''*'') p = []"
  by (induction p) (auto simp: lits_def)

definition char_ok :: "char \<Rightarrow> char \<Rightarrow> bool" where
  "char_ok c x \<longleftrightarrow> c \<noteq> CHR ''*'' \<and> (c = x \<or> c = CHR ''?'' \<and> x \<noteq> CHR ''/'')"

lemma glob_literal:
  "list_all (\<lambda>c. c \<noteq> CHR ''*'') l \<Longrightarrow> glob (l @ p) ss \<longleftrightarrow> (\<exists>m s. ss = m @ s \<and> list_all2 char_ok l m \<and> glob p s)"
proof (induction l arbitrary: ss)
  case (Cons c l)
  show ?case
  proof (cases ss)
    case Nil
    with Cons.prems show ?thesis by simp
  next
    case (Cons x xs)
    then have "glob ((c # l) @ p) ss \<longleftrightarrow> char_ok c x \<and> glob (l @ p) xs"
      using Cons.prems Cons.IH by (auto simp: char_ok_def)
    also have "\<dots> \<longleftrightarrow> (\<exists>m s. ss = m @ s \<and> list_all2 char_ok (c # l) m \<and> glob p s)"
      using Cons.IH [of xs] Cons.prems by (auto simp: Cons list_all2_Cons1) (metis append_Cons)
    finally show ?thesis .
  qed
qed simp

text \<open>A star takes a prefix without a slash.\<close>

lemma glob_star: "glob (CHR ''*'' # p) ss \<longleftrightarrow> (\<exists>m s. ss = m @ s \<and> CHR ''/'' \<notin> set m \<and> glob p s)"
proof (induction ss)
  case (Cons x xs)
  show ?case
  proof
    assume "glob (CHR ''*'' # p) (x # xs)"
    then consider "glob p (x # xs)" | "x \<noteq> CHR ''/''" "glob (CHR ''*'' # p) xs" by auto
    then show "\<exists>m s. x # xs = m @ s \<and> CHR ''/'' \<notin> set m \<and> glob p s"
    proof cases
      case 1
      then show ?thesis by (intro exI [of _ "[]"] exI [of _ "x # xs"]) simp
    next
      case 2
      with Cons.IH obtain m s where "xs = m @ s" "CHR ''/'' \<notin> set m" "glob p s" by auto
      with 2 show ?thesis by (intro exI [of _ "x # m"] exI [of _ s]) simp
    qed
  next
    assume "\<exists>m s. x # xs = m @ s \<and> CHR ''/'' \<notin> set m \<and> glob p s"
    then obtain m s where m: "x # xs = m @ s" "CHR ''/'' \<notin> set m" "glob p s" by auto
    show "glob (CHR ''*'' # p) (x # xs)"
    proof (cases m)
      case Nil
      with m have "glob p (x # xs)" by simp
      then show ?thesis by simp
    next
      case (Cons y ys)
      then have "glob (CHR ''*'' # p) xs" using m Cons.IH by auto
      moreover have "x \<noteq> CHR ''/''" using m Cons by auto
      ultimately show ?thesis by simp
    qed
  qed
qed simp

text \<open>
  Giving an earlier star more text never helps: where the pattern between two stars matches both
  at the start of a text and after a run without a slash, there is no slash in all the text up to
  the end of the second match.
\<close>

lemma shifted_match_no_slash:
  assumes "list_all2 char_ok l m" and "list_all2 char_ok l m'" and "m @ s = k @ m' @ s'" and "CHR ''/'' \<notin> set k"
    and "k \<noteq> []" and "i < length k + length m'"
  shows "(k @ m' @ s') ! i \<noteq> CHR ''/''"
  using assms(6)
proof (induction i rule: less_induct)
  case (less i)
  show ?case
  proof (cases "i < length k")
    case True
    then show ?thesis using assms(4) by (auto simp: nth_append) (metis nth_mem)
  next
    case False
    define j where "j = i - length k"
    with False less.prems have j: "i = length k + j" "j < length m'" by auto
    have len: "length m = length l" "length m' = length l" using assms(1,2) by (auto dest: list_all2_lengthD)
    have a: "char_ok (l ! j) (m ! j)" "char_ok (l ! j) (m' ! j)"
      using assms(1,2) j len by (auto simp: list_all2_conv_all_nth)
    have i: "(k @ m' @ s') ! i = m' ! j" using j by (simp add: nth_append)
    have "(k @ m' @ s') ! j = m ! j" using j len assms(3) by (metis nth_append)
    moreover have "(k @ m' @ s') ! j \<noteq> CHR ''/''" using less.IH [of j] j assms(5) less.prems by simp
    ultimately have "m ! j \<noteq> CHR ''/''" by simp
    with a i show ?thesis by (auto simp: char_ok_def)
  qed
qed

lemma star_after_match:
  assumes "list_all2 char_ok l m"
  shows "glob (CHR ''*'' # l @ CHR ''*'' # p) (m @ s) \<longleftrightarrow> glob (CHR ''*'' # p) s"
proof
  have nostar: "list_all (\<lambda>c. c \<noteq> CHR ''*'') l" using assms by (induction rule: list_all2_induct) (auto simp: char_ok_def)
  show "glob (CHR ''*'' # l @ CHR ''*'' # p) (m @ s)" if "glob (CHR ''*'' # p) s"
  proof -
    have "glob (l @ CHR ''*'' # p) (m @ s)"
      unfolding glob_literal [OF nostar] using that assms by blast
    then show ?thesis unfolding glob_star [of "l @ CHR ''*'' # p"]
      by (intro exI [of _ "[]"] exI [of _ "m @ s"]) simp
  qed
  assume "glob (CHR ''*'' # l @ CHR ''*'' # p) (m @ s)"
  then obtain k r where k: "m @ s = k @ r" "CHR ''/'' \<notin> set k" "glob (l @ CHR ''*'' # p) r"
    by (auto simp only: glob_star)
  from k(3) obtain m' s' where m': "r = m' @ s'" "list_all2 char_ok l m'" "glob (CHR ''*'' # p) s'"
    by (auto simp only: glob_literal [OF nostar])
  then obtain k2 t where t: "s' = k2 @ t" "CHR ''/'' \<notin> set k2" "glob p t" by (auto simp only: glob_star)
  show "glob (CHR ''*'' # p) s"
  proof (cases "k = []")
    case True
    with k m' assms have "s = s'" by (auto dest!: list_all2_lengthD)
    with m' show ?thesis by simp
  next
    case False
    have len: "length m = length m'" using assms m' by (auto dest!: list_all2_lengthD)
    have e: "m @ s = k @ m' @ s'" using k m' by simp
    have "CHR ''/'' \<notin> set (drop (length m) (k @ m'))"
    proof
      assume "CHR ''/'' \<in> set (drop (length m) (k @ m'))"
      then obtain i where i: "i < length (drop (length m) (k @ m'))" "drop (length m) (k @ m') ! i = CHR ''/''"
        unfolding in_set_conv_nth by blast
      have le: "length m + i < length (k @ m')" using i(1) by simp
      then have "((k @ m') @ s') ! (length m + i) = CHR ''/''" using i by (simp only: nth_append nth_drop if_True length_drop)
      moreover have "length m + i < length k + length m'" using le by simp
      ultimately show False using shifted_match_no_slash [OF assms m'(2) e k(2) False] by simp
    qed
    moreover have "s = drop (length m) (k @ m') @ s'"
    proof -
      have "s = drop (length m) (m @ s)" by simp
      also have "\<dots> = drop (length m) ((k @ m') @ s')" by (simp only: e append_assoc)
      also have "\<dots> = drop (length m) (k @ m') @ s'" using len by simp
      finally show ?thesis .
    qed
    ultimately have "s = (drop (length m) (k @ m') @ k2) @ t \<and> CHR ''/'' \<notin> set (drop (length m) (k @ m') @ k2)"
      using t by simp
    with t(3) show ?thesis by (auto simp only: glob_star)
  qed
qed

section \<open>The loop computes it\<close>

lemma lits_append [simp]: "lits (a @ b) = lits a + lits b"
  by (simp add: lits_def)

lemma lits_star [simp]: "lits (CHR ''*'' # p) = lits p"
  by (simp add: lits_def)

lemma char_ok_lits: "list_all2 char_ok l m \<Longrightarrow> lits l = length m"
  by (induction rule: list_all2_induct) (auto simp: lits_def char_ok_def)

lemma char_ok_nostar: "list_all2 char_ok l m \<Longrightarrow> list_all (\<lambda>c. c \<noteq> CHR ''*'') l"
  by (induction rule: list_all2_induct) (auto simp: char_ok_def)

lemma glob_after_match: "list_all2 char_ok l m \<Longrightarrow> glob (l @ p) (m @ s) \<longleftrightarrow> glob p s"
proof -
  assume lm: "list_all2 char_ok l m"
  have "m' = m \<and> s' = s" if "m @ s = m' @ s'" "list_all2 char_ok l m'" for m' s'
    using that lm by (auto dest!: list_all2_lengthD)
  then show ?thesis using lm unfolding glob_literal [OF char_ok_nostar [OF lm]] by blast
qed

text \<open>With a star at hand, the loop answers for the pattern from the star on.\<close>

lemma loop_with_star:
  assumes "list_all2 char_ok l m"
  shows "glob_loop p s (Some (l @ p, m @ s)) = Some (glob (CHR ''*'' # l @ p) (m @ s))"
  using assms
proof (induction "(length (l @ p), length (m @ s), length s)" arbitrary: l m p s 
    rule: wf_induct_rule [OF wf_lex_prod [OF wf_less_than wf_lex_prod [OF wf_less_than wf_less_than]]])
  case less: 1
  note lm = less.prems
  show ?case
  proof (cases s)
    case Nil
    have "glob (CHR ''*'' # l @ p) m \<longleftrightarrow> glob p []"
    proof
      assume "glob (CHR ''*'' # l @ p) m"
      then have "lits (l @ p) \<le> length m" using glob_lits by fastforce
      with char_ok_lits [OF lm] have "lits p = 0" by simp
      then show "glob p []" by (simp add: lits_0 glob_empty)
    next
      assume "glob p []"
      then have "glob (l @ p) m" using glob_after_match [OF lm, of p "[]"] by simp
      then show "glob (CHR ''*'' # l @ p) m" unfolding glob_star [of "l @ p"] by (intro exI [of _ "[]"] exI [of _ m]) simp
    qed
    then show ?thesis by (subst glob_loop.simps) (simp add: Nil glob_empty)
  next
    case (Cons x xs)
    consider (lit) c p' where "p = c # p'" "char_ok c x" | (star) p' where "p = CHR ''*'' # p'"
      | (stuck) "p = [] \<or> \<not> char_ok (hd p) x" "p = [] \<or> hd p \<noteq> CHR ''*''"
      by (cases p) auto
    then show ?thesis
    proof cases
      case lit
      then have "list_all2 char_ok (l @ [c]) (m @ [x])" using lm by (simp add: list_all2_appendI)
      from less.hyps [OF _ this, of p' xs] lit Cons
      have "glob_loop p' xs (Some (l @ p, m @ s)) = Some (glob (CHR ''*'' # l @ p) (m @ s))" by simp
      with lit Cons show ?thesis by (subst glob_loop.simps) (auto simp: char_ok_def)
    next
      case star
      have "glob_loop p' s (Some ([] @ p', [] @ s)) = Some (glob (CHR ''*'' # [] @ p') ([] @ s))"
        by (rule less.hyps) (simp_all add: star)
      moreover have "glob (CHR ''*'' # l @ p) (m @ s) = glob (CHR ''*'' # p') s"
        unfolding star by (rule star_after_match [OF lm])
      ultimately show ?thesis by (subst glob_loop.simps) (simp add: star Cons)
    next
      case stuck
      have f: "\<not> glob (l @ p) (m @ s)"
        unfolding glob_after_match [OF lm] using stuck Cons by (cases p) (auto simp: char_ok_def)
      obtain y ys where y: "m @ s = y # ys" using Cons by (cases "m @ s") auto
      have "glob_loop p s (Some (l @ p, m @ s)) =
          (if y = CHR ''/'' then Some False else glob_loop (l @ p) ys (Some (l @ p, ys)))"
        using stuck Cons y by (subst glob_loop.simps) (auto simp: char_ok_def)
      also have "\<dots> = Some (glob (CHR ''*'' # l @ p) (y # ys))"
      proof (cases "y = CHR ''/''")
        case False
        have "glob_loop (l @ p) ys (Some ([] @ (l @ p), [] @ ys)) = Some (glob (CHR ''*'' # [] @ (l @ p)) ([] @ ys))"
          using y by (intro less.hyps) auto
        with f y False show ?thesis by simp
      qed (use f y in simp)
      finally show ?thesis by (simp add: y)
    qed
  qed
qed

lemma glob_match_total: "glob_match pat s = Some (glob pat s)"
  unfolding glob_match_def
proof (induction pat arbitrary: s)
  case Nil
  then show ?case by (subst glob_loop.simps) (auto split: list.split)
next
  case (Cons c p)
  show ?case
  proof (cases s)
    case Nil
    then show ?thesis by (subst glob_loop.simps) (simp add: glob_empty del: glob.simps)
  next
    case s: (Cons x xs)
    consider "char_ok c x" | "c = CHR ''*''" | "\<not> char_ok c x" "c \<noteq> CHR ''*''" by auto
    then show ?thesis
    proof cases
      case 1
      then show ?thesis using Cons.IH [of xs] by (subst glob_loop.simps) (auto simp: s char_ok_def)
    next
      case 2
      have "glob_loop p s (Some (p, s)) = Some (glob (CHR ''*'' # p) s)"
        using loop_with_star [of "[]" "[]" p s] by simp
      with 2 show ?thesis by (subst glob_loop.simps) (simp add: s)
    next
      case 3
      then show ?thesis by (subst glob_loop.simps) (auto simp: s char_ok_def)
    qed
  qed
qed

text \<open>
  C19. The matcher that only remembers the last star returns for every pattern and text, and
  decides exactly the globs as their meaning says, by trying every run for every star.
\<close>

theorem glob_match_correct: "glob_match pat s = Some (glob pat s)"
  by (rule glob_match_total)

section \<open>The code: the Origin policy and the handshake\<close>

definition eq_ignore_ascii_case :: "string \<Rightarrow> string \<Rightarrow> bool" where
  "eq_ignore_ascii_case a b \<longleftrightarrow> to_ascii_lower a = to_ascii_lower b"

definition header_has_token :: "headers \<Rightarrow> string \<Rightarrow> string \<Rightarrow> bool" where
  "header_has_token h name token \<longleftrightarrow>
     list_ex (\<lambda>t. eq_ignore_ascii_case (trim t) token)
       (concat (map (split_on (CHR '','')) (List.map_filter header_str (header_all name h))))"

text \<open>\<open>split_once\<close> and \<open>contains\<close> with a string.\<close>

fun split_once_str :: "string \<Rightarrow> string \<Rightarrow> (string \<times> string) option" where
  "split_once_str p [] = (if p = [] then Some ([], []) else None)"
| "split_once_str p (c # cs) =
     (if starts_with p (c # cs) then Some ([], drop (length p) (c # cs))
      else map_option (\<lambda>(a, b). (c # a, b)) (split_once_str p cs))"

definition until_any :: "string \<Rightarrow> string \<Rightarrow> string" where
  "until_any stops s = takeWhile (\<lambda>c. c \<notin> set stops) s"

text \<open>The debug form of a string of visible ASCII and tabs.\<close>

definition debug_ascii :: "string \<Rightarrow> string" where
  "debug_ascii s =
     ''\"'' @ concat (map (\<lambda>c. if c = CHR ''\"'' then [CHR 0x5C, CHR ''\"''] else if c = CHR 0x5C then [CHR 0x5C, CHR 0x5C]
                             else if c = CHR 0x09 then [CHR 0x5C, CHR ''t''] else [c]) s) @ ''\"''"

fun any_glob :: "string list \<Rightarrow> string \<Rightarrow> string \<Rightarrow> bool option" where
  "any_glob [] scheme host = Some False"
| "any_glob (p # ps) scheme host =
     (let target = (if split_once_str ''://'' p \<noteq> None then scheme @ ''://'' @ host else host)
      in case glob_match (to_ascii_lower p) (to_ascii_lower target) of
           None \<Rightarrow> None
         | Some True \<Rightarrow> Some True
         | Some False \<Rightarrow> any_glob ps scheme host)"

text \<open>None: the matcher does not return.\<close>

definition authenticate_origin :: "headers \<Rightarrow> string list \<Rightarrow> (string + unit) option" where
  "authenticate_origin h patterns =
     (case Option.bind (header_get ''origin'' h) header_str of
        None \<Rightarrow> Some (Inr ())
      | Some origin \<Rightarrow>
          if origin = [] then Some (Inr ())
          else case split_once_str ''://'' origin of
                 None \<Rightarrow> Some (Inl (''failed to parse Origin header '' @ debug_ascii origin))
               | Some (scheme, rest) \<Rightarrow>
                   (let host = until_any ''/?#'' rest;
                        req_host = (case Option.bind (header_get ''host'' h) header_str of None \<Rightarrow> [] | Some v \<Rightarrow> v)
                    in if eq_ignore_ascii_case req_host host then Some (Inr ())
                       else map_option (\<lambda>ok. if ok then Inr ()
                              else Inl (''request Origin '' @ debug_ascii origin
                                        @ '' is not a host in AcceptOptions.OriginPatterns''))
                         (any_glob patterns scheme host)))"

definition origin_patterns :: "string \<Rightarrow> string list" where
  "origin_patterns app_hostname =
     (if app_hostname = [] \<or> app_hostname = ''localhost'' then [''localhost:*'', ''127.0.0.1:*''] else [app_hostname])"

definition upgrade_required :: "string \<Rightarrow> resp" where
  "upgrade_required msg =
     with_header ''upgrade'' ''websocket'' (with_header ''connection'' ''Upgrade'' (error_resp 426 msg))"

definition ws_accept :: "(string \<Rightarrow> string) \<Rightarrow> http_method \<Rightarrow> headers \<Rightarrow> string list \<Rightarrow> (resp + resp) option" where
  "ws_accept derive_accept_key m h patterns =
     (if \<not> header_has_token h ''connection'' ''upgrade''
      then Some (Inl (upgrade_required
             ''WebSocket protocol violation: Connection header \"\" does not contain Upgrade''))
      else if \<not> header_has_token h ''upgrade'' ''websocket''
      then Some (Inl (upgrade_required ''WebSocket protocol violation: Upgrade header does not contain websocket''))
      else if m \<noteq> GET
      then Some (Inl (error_resp 405 ''WebSocket protocol violation: handshake request method is not GET''))
      else if header_get ''sec-websocket-version'' h \<noteq> Some ''13''
      then Some (Inl (with_header ''sec-websocket-version'' ''13''
             (error_resp 400 ''unsupported WebSocket protocol version (only 13 is supported)'')))
      else case header_get ''sec-websocket-key'' h of
             None \<Rightarrow> Some (Inl (error_resp 400 ''WebSocket protocol violation: missing Sec-WebSocket-Key''))
           | Some key \<Rightarrow>
               if key = [] then Some (Inl (error_resp 400 ''WebSocket protocol violation: missing Sec-WebSocket-Key''))
               else map_option (\<lambda>r. case r of
                        Inl msg \<Rightarrow> Inl (error_resp 403 msg)
                      | Inr _ \<Rightarrow> Inr (with_header ''sec-websocket-accept'' (derive_accept_key key)
                                  (with_header ''connection'' ''Upgrade'' (with_header ''upgrade'' ''websocket''
                                    (response 101 (Text []))))))
                      (authenticate_origin h patterns))"

section \<open>Which origins get in\<close>

lemma any_glob_total: "any_glob ps scheme host \<noteq> None"
  by (induction ps) (auto simp: glob_match_total Let_def split: option.split bool.split)

lemma ws_accept_total: "ws_accept key m h ps \<noteq> None"
  using any_glob_total
  by (auto simp: ws_accept_def authenticate_origin_def Let_def split: option.split prod.split)

lemma glob_literal_eq: "CHR ''*'' \<notin> set p \<Longrightarrow> CHR ''?'' \<notin> set p \<Longrightarrow> glob p s \<longleftrightarrow> p = s"
  by (induction p s rule: glob.induct) auto

lemma lower_chars: "c \<in> set (to_ascii_lower s) \<Longrightarrow> c \<notin> set s \<Longrightarrow> 97 \<le> byte_of c \<and> byte_of c \<le> 122"
  by (auto simp: to_ascii_lower_def split: if_splits)

lemma lower_symbol: "CHR ''*'' \<notin> set s \<Longrightarrow> CHR ''*'' \<notin> set (to_ascii_lower s)"
    "CHR ''?'' \<notin> set s \<Longrightarrow> CHR ''?'' \<notin> set (to_ascii_lower s)"
  using lower_chars [of "CHR ''*''" s] lower_chars [of "CHR ''?''" s] by auto

lemma split_once_str_SomeD: "split_once_str p s = Some (a, b) \<Longrightarrow> s = a @ p @ b"
  by (induction p s arbitrary: a rule: split_once_str.induct)
    (auto simp: starts_with_def split: if_splits, metis append_take_drop_id list.sel(3) take_Cons' drop_Cons')

text \<open>
  No other site can open a signalling socket in a visitor's browser: in a deployment with a host
  name, a request that bears an Origin is accepted exactly when the origin has a scheme and its host
  is, up to case, the request's Host or the configured name; and the check always returns.
\<close>

theorem origin_policy:
  assumes "header_get ''origin'' h = Some origin" and "header_str origin = Some origin" and "origin \<noteq> []"
    and "hostname \<noteq> []" and "hostname \<noteq> ''localhost''" and "set hostname \<inter> set ''*?/'' = {}"
  shows "authenticate_origin h (origin_patterns hostname) = Some (Inr ()) \<longleftrightarrow>
    (\<exists>scheme rest. split_once_str ''://'' origin = Some (scheme, rest)
       \<and> (eq_ignore_ascii_case (case Option.bind (header_get ''host'' h) header_str of None \<Rightarrow> [] | Some v \<Rightarrow> v)
             (until_any ''/?#'' rest)
           \<or> eq_ignore_ascii_case hostname (until_any ''/?#'' rest)))"
proof -
  have no: "split_once_str ''://'' hostname = None"
  proof (rule ccontr)
    assume "split_once_str ''://'' hostname \<noteq> None"
    then obtain a b where "hostname = a @ ''://'' @ b" using split_once_str_SomeD by fastforce
    with assms(6) show False by auto
  qed
  have "CHR ''*'' \<notin> set hostname" "CHR ''?'' \<notin> set hostname" using assms(6) by auto
  then have "glob (to_ascii_lower hostname) s \<longleftrightarrow> to_ascii_lower hostname = s" for s
    by (intro glob_literal_eq lower_symbol)
  then have g: "any_glob (origin_patterns hostname) scheme host = Some (eq_ignore_ascii_case hostname host)" for scheme host
    using assms(4,5) no by (simp add: origin_patterns_def glob_match_total eq_ignore_ascii_case_def split: bool.split)
  show ?thesis
    using assms(1-3) by (auto simp: authenticate_origin_def g Let_def split: option.split if_splits)
qed

theorem origin_policy_witness:
  "authenticate_origin [(''host'', ''app:8080''), (''origin'', ''https://VH.example'')] (origin_patterns ''vh.example'') = Some (Inr ())
   \<and> authenticate_origin [(''host'', ''app:8080''), (''origin'', ''https://vh.example.evil'')] (origin_patterns ''vh.example'')
       \<noteq> Some (Inr ())"
  using origin_policy [of "[(''host'', ''app:8080''), (''origin'', ''https://VH.example'')]" "''https://VH.example''" "''vh.example''"]
    origin_policy [of "[(''host'', ''app:8080''), (''origin'', ''https://vh.example.evil'')]" "''https://vh.example.evil''" "''vh.example''"]
  by (simp add: header_get_def header_str_def starts_with_def until_any_def eq_ignore_ascii_case_def to_ascii_lower_def char_of_def bit_0)

end
