(* ===== verification/Handlers.thy ===== *)
theory Handlers
  imports Session Config Upload Presence Limiter Room Ws
begin

text \<open>
  \<open>backend/src/http/handlers.rs\<close> and \<open>backend/src/turn.rs\<close>: the application state, login, the admin
  API, TURN credentials and the desktop update files. A request and what is drawn for it (clocks,
  random bytes, the outcome of writes) are arguments; third-party code is a record of functions.
  None is a panic, or a random source that ran dry.
\<close>

section \<open>The application\<close>

record app_consts =
  ac_cfg :: config
  ac_session_secret :: string
  ac_turn_secret :: string
  ac_admin_ver :: string
  ac_version :: string
  ac_stun_url :: string
  ac_turn_url :: string

record app =
  ap_conn_pass :: cp_store
  ap_registry :: ws_registry
  ap_limiter :: auth_limiter
  ap_rooms :: "(string \<times> world) list"
  ap_hub :: hub
  ap_files :: file_store

text \<open>
  Third-party code: HMAC-SHA1, padded Base64, TURN's auth key, the multipart parser for forms
  (fields with name, file name and text; None when malformed) and for uploads, tower-http's file
  services, the accept key, \<open>serde_json\<close> on the admin body and on the update manifest, and dates.
\<close>

record manifest =
  mf_version :: string
  mf_notes :: string
  mf_pub_date :: string
  mf_platforms :: "(string \<times> string \<times> string) list"

record ext =
  ex_crypto :: crypto
  ex_hmac_sha1 :: "string \<Rightarrow> string \<Rightarrow> 8 word list"
  ex_b64_std :: "8 word list \<Rightarrow> string"
  ex_auth_key :: "string \<Rightarrow> string \<Rightarrow> string \<Rightarrow> 8 word list"
  ex_form_parts :: "string \<Rightarrow> chunks \<Rightarrow> (string option \<times> string option \<times> string) list option"
  ex_upload_part :: "string \<Rightarrow> chunks \<Rightarrow> multipart"
  ex_serve_file :: "string \<Rightarrow> resp"
  ex_serve_dir :: "string \<Rightarrow> resp"
  ex_is_file :: "string \<Rightarrow> bool"
  ex_accept_key :: "string \<Rightarrow> string"
  ex_admin_json :: "string \<Rightarrow> (string \<times> int) option"
  ex_manifest :: "manifest option"
  ex_http_date :: "instant \<Rightarrow> string"
  ex_rfc3339 :: "instant \<Rightarrow> string"

record request =
  rq_method :: http_method
  rq_path :: string
  rq_query :: "string option"
  rq_headers :: headers
  rq_body :: chunks
  rq_peer :: ip

record draws =
  dr_now :: instant
  dr_time :: instant
  dr_blocks :: "8 word list list"
  dr_salt :: "8 word list"
  dr_id :: "8 word list"
  dr_write :: "string option"
  dr_temp :: string
  dr_uid :: string
  dr_file_io :: file_io

section \<open>The code: small handlers\<close>

definition TURN_CREDS_TTL :: duration where "TURN_CREDS_TTL = secs (6 * 3600)"
definition MAX_CONN_PASS_TTL :: duration where "MAX_CONN_PASS_TTL = secs (366 * 24 * 3600)"
definition MAX_FORM_BYTES :: nat where "MAX_FORM_BYTES = 10 * 2 ^ 20"

definition frontend_version :: "crypto \<Rightarrow> string option \<Rightarrow> string" where
  "frontend_version c index_html =
     (case index_html of None \<Rightarrow> ''unknown'' | Some data \<Rightarrow> take 12 (hex (cr_sha256 c data)))"

definition health :: resp where
  "health = json_resp 200 (JObj [(''status'', JStr ''ok'')])"

text \<open>Two of the peers hear and speak.\<close>

definition call_in_progress :: "peer_info list \<Rightarrow> bool" where
  "call_in_progress peers \<longleftrightarrow> length (take 2 (filter (\<lambda>p. \<not> pi_chat_only p) peers)) = 2"

definition call_status :: "app \<Rightarrow> resp" where
  "call_status a =
     (let active = list_ex (\<lambda>(_, w). call_in_progress (room_peers w)) (ap_rooms a)
      in with_header ''content-type'' ''text/plain; charset=utf-8''
           (response 200 (Text ((if active then ''active'' else ''idle'') @ [nl]))))"

definition version_resp :: "app_consts \<Rightarrow> resp" where
  "version_resp k =
     with_header ''cache-control'' ''no-store'' (json_resp 200 (JObj [(''version'', JStr (ac_version k))]))"

text \<open>\<open>Limited::collect\<close>: an error or too many bytes give None.\<close>

fun read_body :: "nat \<Rightarrow> chunks \<Rightarrow> string option" where
  "read_body limit [] = Some []"
| "read_body limit (Inl e # cs) = None"
| "read_body limit (Inr c # cs) =
     (if length c > limit then None else map_option (\<lambda>r. c @ r) (read_body (limit - length c) cs))"

fun text_fields :: "(string option \<times> string option \<times> string) list \<Rightarrow> (string, string) hashmap \<Rightarrow> (string, string) hashmap" where
  "text_fields [] m = m"
| "text_fields ((name, file_name, txt) # fs) m =
     (if file_name \<noteq> None then text_fields fs m
      else (let k = (case name of None \<Rightarrow> [] | Some n \<Rightarrow> n)
            in text_fields fs (if hget m k = None then hput k txt m else m)))"

definition post_form :: "ext \<Rightarrow> request \<Rightarrow> (string, string) hashmap option" where
  "post_form x rq =
     (let ct = header_text ''content-type'' (rq_headers rq); media = media_type ct
      in if media = ''application/x-www-form-urlencoded''
         then map_option (\<lambda>body. parse_form (from_utf8_lossy body)) (read_body MAX_FORM_BYTES (rq_body rq))
         else if media = ''multipart/form-data''
         then map_option (\<lambda>fs. text_fields fs []) (ex_form_parts x ct (limited MAX_FORM_BYTES 0 (rq_body rq)))
         else Some [])"

section \<open>The code: login and logout\<close>

definition with_cookie :: "string \<Rightarrow> resp option" where
  "with_cookie cookie =
     (case header_str cookie of None \<Rightarrow> None | Some v \<Rightarrow> Some (with_header ''set-cookie'' v no_content))"

definition form_value :: "string \<Rightarrow> (string, string) hashmap \<Rightarrow> string" where
  "form_value name form = (case hget form name of None \<Rightarrow> [] | Some v \<Rightarrow> v)"

definition unauthorized :: resp where
  "unauthorized = error_resp 401 ''unauthorized''"

definition login :: "ext \<Rightarrow> app_consts \<Rightarrow> draws \<Rightarrow> request \<Rightarrow> app \<Rightarrow> (resp \<times> app) option" where
  "login x k d rq a =
     (let c = ex_crypto x;
          ip = client_ip (rq_peer rq) (rq_headers rq) (cf_trusted_proxies (ac_cfg k));
          (blocked, lim) = blocked_at (ap_limiter a) ip (dr_now d);
          a = a\<lparr>ap_limiter := lim\<rparr>;
          failed = a\<lparr>ap_limiter := fail_at lim ip (dr_now d)\<rparr>;
          succeeded = a\<lparr>ap_limiter := success lim ip\<rparr>;
          cookie = (\<lambda>r g av i. session_cookie c (cf_cookie_secure (ac_cfg k)) (ac_session_secret k) r g av i (dr_time d)
                                 (ex_http_date x (dr_time d + SESSION_TTL)))
      in if blocked then Some (with_header ''retry-after'' ''900'' (error_resp 429 ''too many failed attempts''), a)
         else case post_form x rq of
                None \<Rightarrow> Some (error_resp 400 ''bad request'', a)
              | Some form \<Rightarrow>
                  (let pass = form_value ''password'' form
                   in if pass = [] then Some (unauthorized, failed)
                      else if verify c (cf_admin_password_hash (ac_cfg k)) pass
                      then map_option (\<lambda>r. (r, succeeded)) (with_cookie (cookie Admin 0 (ac_admin_ver k) []))
                      else case verify_pass c pass (dr_time d) (ap_conn_pass a) of
                             Some (entry_id, g) \<Rightarrow>
                               map_option (\<lambda>r. (r, succeeded)) (with_cookie (cookie User g [] entry_id))
                           | None \<Rightarrow> Some (unauthorized, failed)))"

definition logout :: "app_consts \<Rightarrow> resp option" where
  "logout k = with_cookie (clear_cookie (cf_cookie_secure (ac_cfg k)))"

section \<open>The code: TURN credentials\<close>

definition credential :: "ext \<Rightarrow> string \<Rightarrow> string \<Rightarrow> string" where
  "credential x secret username = ex_b64_std x (ex_hmac_sha1 x secret username)"

definition turn_credentials :: "ext \<Rightarrow> string \<Rightarrow> instant \<Rightarrow> string \<times> string" where
  "turn_credentials x secret time =
     (let username = dec_int (unix_secs (time + TURN_CREDS_TTL)) @ '':u''
      in (username, credential x secret username))"

text \<open>\<open>RestAuth::auth_handle\<close>; None when the credentials are rejected.\<close>

definition auth_handle :: "ext \<Rightarrow> string \<Rightarrow> string \<Rightarrow> string \<Rightarrow> instant \<Rightarrow> 8 word list option" where
  "auth_handle x secret username realm time =
     (case parse_i64 (hd (split_on (CHR '':'') username)) of
        Some t \<Rightarrow> if t \<ge> unix_secs time then Some (ex_auth_key x username realm (credential x secret username)) else None
      | None \<Rightarrow> None)"

text \<open>The checks of \<open>turn::start\<close> before it binds its socket; Inl is the refusal.\<close>

definition turn_config_ok :: "string \<Rightarrow> string \<Rightarrow> nat \<Rightarrow> nat \<Rightarrow> string + ip" where
  "turn_config_ok secret public_ip min_port max_port =
     (if secret = [] then Inl ''turn: shared secret required''
      else case parse_ip public_ip of
             None \<Rightarrow> Inl ''turn: public IP required''
           | Some a \<Rightarrow>
               if min_port = 0 \<or> max_port < min_port
               then Inl (''turn: relay port range invalid ('' @ dec min_port @ ''-'' @ dec max_port @ '')'')
               else Inr a)"

text \<open>\<open>skip_serializing_if\<close>: empty strings are left out.\<close>

definition non_empty :: "string \<Rightarrow> string \<Rightarrow> (string \<times> json) list" where
  "non_empty name v = (if v = [] then [] else [(name, JStr v)])"

definition ice_server :: "string \<Rightarrow> string \<Rightarrow> string \<Rightarrow> json" where
  "ice_server url username cred =
     JObj ([(''urls'', JArr [JStr url])] @ non_empty ''username'' username @ non_empty ''credential'' cred)"

definition app_config :: "ext \<Rightarrow> app_consts \<Rightarrow> draws \<Rightarrow> request \<Rightarrow> resp" where
  "app_config x k d rq =
     (let role = (case from_headers (ex_crypto x) (ac_session_secret k) (header_all ''cookie'' (rq_headers rq)) (dr_time d) of
                    None \<Rightarrow> [] | Some s \<Rightarrow> role_str (sn_role s));
          (username, cred) = turn_credentials x (ac_turn_secret k) (dr_time d)
      in json_resp 200 (JObj [(''iceServers'', JArr [ice_server (ac_stun_url k) [] [], ice_server (ac_turn_url k) username cred]),
                              (''role'', JStr role)]))"

section \<open>The code: the presence stream\<close>

definition presence_rooms :: "app \<Rightarrow> rooms" where
  "presence_rooms a = map (\<lambda>(slug, w). (slug, room_peers w)) (ap_rooms a)"

text \<open>The stream is registered under a fresh cancel token; the registry id is the token here.\<close>

definition presence_stream :: "ext \<Rightarrow> app_consts \<Rightarrow> draws \<Rightarrow> request \<Rightarrow> app \<Rightarrow> resp \<times> app" where
  "presence_stream x k d rq a =
     (let r = (case from_headers (ex_crypto x) (ac_session_secret k) (header_all ''cookie'' (rq_headers rq)) (dr_time d) of
                 None \<Rightarrow> User | Some s \<Rightarrow> sn_role s);
          (reg_id, reg) = ws_add r (wr_next (ap_registry a) + 1) (ap_registry a);
          (sub, hub) = subscribe (presence_rooms a) (ap_hub a)
      in (with_header ''x-accel-buffering'' ''no'' (with_header ''connection'' ''keep-alive''
            (with_header ''cache-control'' ''no-cache'' (with_header ''content-type'' ''text/event-stream''
              (response 200 (Events sub))))),
          a\<lparr>ap_registry := reg, ap_hub := hub\<rparr>))"

text \<open>One turn of the stream's select: what is ready of the cancellation, a queued frame and the heartbeat.\<close>

datatype stream_item = StreamEnd | FrameItem frame | HeartbeatItem

definition stream_next :: "nat \<Rightarrow> nat \<Rightarrow> bool \<Rightarrow> app \<Rightarrow> (stream_item \<times> app) list" where
  "stream_next cancel sub heartbeat_due a =
     (if cancel \<in> set (wr_cancelled (ap_registry a)) then [(StreamEnd, a)] else [])
     @ (case next_frame sub (ap_hub a) of Some (f, h) \<Rightarrow> [(FrameItem f, a\<lparr>ap_hub := h\<rparr>)] | None \<Rightarrow> [])
     @ (if heartbeat_due then [(HeartbeatItem, a)] else [])"

definition stream_drop :: "nat \<Rightarrow> nat \<Rightarrow> app \<Rightarrow> app" where
  "stream_drop reg_id sub a =
     a\<lparr>ap_registry := ws_remove reg_id (ap_registry a), ap_hub := unsubscribe sub (ap_hub a)\<rparr>"

section \<open>The code: the admin API\<close>

definition json_time :: "ext \<Rightarrow> instant \<Rightarrow> json" where
  "json_time x t = JStr (ex_rfc3339 x t)"

definition status_json :: "ext \<Rightarrow> entry_status \<Rightarrow> json" where
  "status_json x e =
     JObj ([(''id'', JStr (st_id e)), (''label'', JStr (st_label e)), (''generation'', JNum (uint (st_generation e))),
            (''created_at'', json_time x (st_created_at e))]
           @ (case st_expires_at e of None \<Rightarrow> [] | Some t \<Rightarrow> [(''expires_at'', json_time x t)])
           @ [(''expired'', JBool (st_expired e))])"

definition plaintext :: "ext \<Rightarrow> string \<Rightarrow> entry_status \<Rightarrow> string \<Rightarrow> resp" where
  "plaintext x host e password =
     with_header ''cache-control'' ''no-store''
       (json_resp 200 (JObj [(''host'', JStr host), (''id'', JStr (st_id e)), (''label'', JStr (st_label e)),
          (''password'', JStr password), (''generation'', JNum (uint (st_generation e))),
          (''created_at'', json_time x (st_created_at e))]))"

fun connpass_error :: "cp_error \<Rightarrow> string \<Rightarrow> resp" where
  "connpass_error NotFoundErr what = error_resp 404 ''not found''"
| "connpass_error TooManyEntries what = error_resp 409 ''too many entries''"
| "connpass_error (IoErr msg) what = error_resp 500 (what @ '' failed'')"

text \<open>Malformed input yields the defaults; a body that cannot be read is empty.\<close>

definition admin_body :: "ext \<Rightarrow> request \<Rightarrow> string \<times> int" where
  "admin_body x rq =
     (if starts_with ''application/json'' (header_text ''content-type'' (rq_headers rq))
      then (let body = (case read_body MAX_FORM_BYTES (rq_body rq) of None \<Rightarrow> [] | Some b \<Rightarrow> b)
            in case ex_admin_json x body of None \<Rightarrow> ([], 0) | Some b \<Rightarrow> b)
      else (let form = (case post_form x rq of None \<Rightarrow> [] | Some f \<Rightarrow> f)
            in (form_value ''label'' form,
                case Option.bind (hget form ''ttl_seconds'') parse_i64 of None \<Rightarrow> 0 | Some t \<Rightarrow> t)))"

definition ttl_from_seconds :: "int \<Rightarrow> ttl" where
  "ttl_from_seconds s =
     (if s = 0 then Never else if s < 0 then Disabled else For (min (secs (nat s)) MAX_CONN_PASS_TTL))"

text \<open>A fresh password and its hash.\<close>

definition new_password :: "ext \<Rightarrow> draws \<Rightarrow> (string \<times> string) option" where
  "new_password x d =
     (case generate (dr_blocks d) of
        None \<Rightarrow> None
      | Some plain \<Rightarrow> map_option (\<lambda>h. (plain, h)) (hash (ex_crypto x) (dr_salt d) plain))"

text \<open>\<open>store_result\<close>: the store after an operation, and the answer for its outcome.\<close>

definition store_result ::
  "(cp_error + 'r) \<times> cp_store \<Rightarrow> string \<Rightarrow> ('r \<Rightarrow> resp) \<Rightarrow> app \<Rightarrow> resp \<times> app" where
  "store_result res what ok a =
     (case res of
        (Inr r, st) \<Rightarrow> (ok r, a\<lparr>ap_conn_pass := st\<rparr>)
      | (Inl e, st) \<Rightarrow> (connpass_error e what, a\<lparr>ap_conn_pass := st\<rparr>))"

fun admin :: "ext \<Rightarrow> app_consts \<Rightarrow> draws \<Rightarrow> request \<Rightarrow> string list \<Rightarrow> app \<Rightarrow> (resp \<times> app) option" where
  "admin x k d rq [] a =
     (if rq_method rq = GET \<or> rq_method rq = HEAD
      then Some (json_resp 200 (JObj [(''entries'', JArr (map (status_json x) (status (dr_time d) (ap_conn_pass a))))]), a)
      else if rq_method rq = POST
      then (let (label, ttl) = admin_body x rq
            in map_option (\<lambda>(plain, h).
                 store_result (create label (ttl_from_seconds ttl) plain h (hex (dr_id d)) (dr_time d) (dr_write d) (ap_conn_pass a))
                   ''create'' (\<lambda>(e, p). plaintext x (cf_app_hostname (ac_cfg k)) e p) a)
               (new_password x d))
      else Some (not_found, a))"
| "admin x k d rq [i] a =
     (if rq_method rq = POST \<and> i = ''disconnect-users''
      then Some (no_content, a\<lparr>ap_registry := snd (disconnect_users (ap_registry a))\<rparr>)
      else if rq_method rq = DELETE
      then Some (store_result (revoke i (dr_write d) (ap_conn_pass a)) ''revoke'' (\<lambda>_. no_content) a)
      else Some (not_found, a))"
| "admin x k d rq [i, op] a =
     (if rq_method rq \<noteq> POST then Some (not_found, a)
      else if op = ''rotate''
      then map_option (\<lambda>(plain, h).
             store_result (rotate i plain h (dr_time d) (dr_write d) (ap_conn_pass a)) ''rotate''
               (\<lambda>(e, p). plaintext x (cf_app_hostname (ac_cfg k)) e p) a)
           (new_password x d)
      else if op = ''rename''
      then Some (store_result (rename i (fst (admin_body x rq)) (dr_write d) (ap_conn_pass a)) ''rename'' (\<lambda>_. no_content) a)
      else if op = ''ttl''
      then Some (store_result (set_ttl i (ttl_from_seconds (snd (admin_body x rq))) (dr_time d) (dr_write d) (ap_conn_pass a))
             ''set ttl'' (\<lambda>e. json_resp 200 (status_json x e)) a)
      else Some (not_found, a))"
| "admin x k d rq (_ # _ # _ # _) a = Some (not_found, a)"

section \<open>The code: desktop updates\<close>

definition read_manifest :: "ext \<Rightarrow> manifest option" where
  "read_manifest x =
     (case ex_manifest x of
        None \<Rightarrow> None
      | Some m \<Rightarrow> if mf_version m \<noteq> [] \<and> mf_platforms m \<noteq> [] then Some m else None)"

text \<open>\<open>split_once("://")\<close>, then from the first slash of the rest.\<close>

definition desktop_filename :: "string \<Rightarrow> string option" where
  "desktop_filename raw_url =
     (let after_scheme = (case split_once_str ''://'' raw_url of
                            Some (_, r) \<Rightarrow> dropWhile (\<lambda>c. c \<noteq> CHR ''/'') r
                          | None \<Rightarrow> raw_url);
          path = until_any ''?#'' after_scheme
      in case Option.bind (percent_decode path) from_utf8 of
           None \<Rightarrow> None
         | Some p \<Rightarrow>
             (let trimmed = trim_end_matches (CHR ''/'') p
              in if trimmed = [] then None
                 else (let name = last (split_on (CHR ''/'') trimmed)
                       in if name \<noteq> [] \<and> name \<noteq> ''.'' then Some name else None)))"

definition request_origin :: "headers \<Rightarrow> string" where
  "request_origin h =
     (let host = header_text ''host'' h;
          fwd = trim (hd (split_on (CHR '','') (header_text ''x-forwarded-proto'' h)));
          scheme = (if fwd = ''http'' \<or> fwd = ''https'' then fwd
                    else if starts_with ''localhost:'' host \<or> host = ''localhost'' \<or> starts_with ''127.0.0.1:'' host
                    then ''http'' else ''https'')
      in scheme @ ''://'' @ host)"

definition manifest_json :: "manifest \<Rightarrow> json" where
  "manifest_json m =
     JObj ([(''version'', JStr (mf_version m))] @ non_empty ''notes'' (mf_notes m) @ non_empty ''pub_date'' (mf_pub_date m)
           @ [(''platforms'', JObj (map (\<lambda>(n, sig, url). (n, JObj [(''signature'', JStr sig), (''url'', JStr url)])) (mf_platforms m)))])"

fun rewrite_urls ::
  "string \<Rightarrow> (string \<times> string \<times> string) list \<Rightarrow> (string \<times> string \<times> string) list option" where
  "rewrite_urls origin [] = Some []"
| "rewrite_urls origin ((n, sig, url) # ps) =
     (case desktop_filename url of
        None \<Rightarrow> None
      | Some name \<Rightarrow>
          map_option (\<lambda>r. (n, sig, origin @ ''/desktop/files/'' @ path_escape name) # r) (rewrite_urls origin ps))"

definition desktop_manifest :: "ext \<Rightarrow> request \<Rightarrow> resp" where
  "desktop_manifest x rq =
     (case read_manifest x of
        None \<Rightarrow> not_found
      | Some m \<Rightarrow>
          (case rewrite_urls (request_origin (rq_headers rq)) (mf_platforms m) of
             None \<Rightarrow> error_resp 500 ''invalid update manifest''
           | Some ps \<Rightarrow> with_header ''cache-control'' ''no-cache'' (json_resp 200 (manifest_json (m\<lparr>mf_platforms := ps\<rparr>)))))"

definition desktop_download_windows :: "ext \<Rightarrow> http_method \<Rightarrow> resp" where
  "desktop_download_windows x m =
     (case read_manifest x of
        None \<Rightarrow> not_found
      | Some mf \<Rightarrow>
          (case map_of (mf_platforms mf) ''windows-x86_64'' of
             None \<Rightarrow> not_found
           | Some (_, url) \<Rightarrow>
               (case desktop_filename url of
                  None \<Rightarrow> error_resp 500 ''invalid update manifest''
                | Some name \<Rightarrow>
                    with_header ''cache-control'' ''no-cache'' (redirect m (''/desktop/files/'' @ path_escape name) 302))))"

text \<open>\<open>PathBuf::join\<close> with a name that is neither absolute nor empty.\<close>

definition join_path :: "string \<Rightarrow> string \<Rightarrow> string" where
  "join_path dir name = (if ends_with ''/'' dir then dir @ name else dir @ ''/'' @ name)"

definition desktop_file :: "ext \<Rightarrow> app_consts \<Rightarrow> string \<Rightarrow> resp" where
  "desktop_file x k name =
     (if name = [] \<or> CHR ''/'' \<in> set name \<or> name = ''.'' \<or> name = ''..'' then not_found
      else (let path = join_path (cf_updates_dir (ac_cfg k)) name
            in if \<not> ex_is_file x path then not_found
               else (let r = serve_fs (ex_serve_file x path)
                     in if 200 \<le> rs_status r \<and> rs_status r < 300
                        then set_header ''content-disposition'' (''attachment; filename='' @ go_quote name)
                               (set_header ''cache-control'' ''public, max-age=31536000, immutable'' r)
                        else r)))"

end
