(* ===== verification/Server.thy ===== *)
theory Server
  imports Handlers
begin

text \<open>
  \<open>backend/src/http/server.rs\<close>: routing, the authentication gates, the static frontend, the rate
  limit in front of the API and the internal listener. A route's answer comes with the application
  state after it and, for an accepted WebSocket, the role and room the spawned task serves.
\<close>

section \<open>The code: who is asking\<close>

definition session_of :: "ext \<Rightarrow> app_consts \<Rightarrow> draws \<Rightarrow> request \<Rightarrow> app \<Rightarrow> session option" where
  "session_of x k d rq a =
     valid_session (ex_crypto x) (ac_session_secret k) (ap_conn_pass a) (ac_admin_ver k)
       (header_all ''cookie'' (rq_headers rq)) (dr_time d)"

definition authenticated :: "ext \<Rightarrow> app_consts \<Rightarrow> draws \<Rightarrow> request \<Rightarrow> app \<Rightarrow> bool" where
  "authenticated x k d rq a \<longleftrightarrow> session_of x k d rq a \<noteq> None"

definition is_admin :: "ext \<Rightarrow> app_consts \<Rightarrow> draws \<Rightarrow> request \<Rightarrow> app \<Rightarrow> bool" where
  "is_admin x k d rq a \<longleftrightarrow> (case session_of x k d rq a of None \<Rightarrow> False | Some s \<Rightarrow> sn_role s = Admin)"

section \<open>The code: the static frontend\<close>

definition public_paths :: "string list" where
  "public_paths =
     [''/login.html'', ''/login.js'', ''/favicon.ico'', ''/favicon.svg'', ''/favicon.png'', ''/apple-touch-icon.png'',
      ''/manifest.webmanifest'', ''/sw.js'']"

definition is_public :: "string \<Rightarrow> bool" where
  "is_public path \<longleftrightarrow> path \<in> set public_paths \<or> starts_with ''/assets/'' path \<or> starts_with ''/vendor/'' path"

definition static_files :: "ext \<Rightarrow> app_consts \<Rightarrow> draws \<Rightarrow> request \<Rightarrow> app \<Rightarrow> resp" where
  "static_files x k d rq a =
     (let path = rq_path rq
      in if path = ''/connect.html'' then not_found
         else if \<not> is_public path \<and> \<not> authenticated x k d rq a then redirect (rq_method rq) ''/login.html'' 303
         else if ends_with ''/index.html'' path then redirect (rq_method rq) ''./'' 301
         else serve_fs (ex_serve_dir x path))"

section \<open>The code: routing\<close>

type_synonym routed = "(resp \<times> app \<times> (role \<times> string) option) option"

definition answer :: "resp \<Rightarrow> app \<Rightarrow> routed" where
  "answer r a = Some (r, a, None)"

definition answer_with :: "(resp \<times> app) option \<Rightarrow> routed" where
  "answer_with o1 = map_option (\<lambda>(r, a). (r, a, None)) o1"

definition decode_param :: "string \<Rightarrow> string" where
  "decode_param s = (case percent_decode s of Some b \<Rightarrow> from_utf8_lossy b | None \<Rightarrow> s)"

text \<open>The WebSocket route: session, room, closing, handshake.\<close>

definition route_ws :: "ext \<Rightarrow> app_consts \<Rightarrow> draws \<Rightarrow> request \<Rightarrow> string \<Rightarrow> app \<Rightarrow> routed" where
  "route_ws x k d rq room_id a =
     (case session_of x k d rq a of
        None \<Rightarrow> answer unauthorized a
      | Some s \<Rightarrow>
          (case map_of (ap_rooms a) (decode_param room_id) of
             None \<Rightarrow> answer not_found a
           | Some w \<Rightarrow>
               if w_closed w then answer (error_resp 503 ''shutting down'') a
               else (case ws_accept (ex_accept_key x) (rq_method rq) (rq_headers rq) (origin_patterns (cf_app_hostname (ac_cfg k))) of
                       None \<Rightarrow> None
                     | Some (Inl r) \<Rightarrow> answer r a
                     | Some (Inr r) \<Rightarrow> Some (r, a, Some (sn_role s, decode_param room_id)))))"

definition admin_route :: "http_method \<Rightarrow> string list \<Rightarrow> bool" where
  "admin_route m rest =
     (case rest of
        [] \<Rightarrow> m = GET \<or> m = HEAD \<or> m = POST
      | [i] \<Rightarrow> if i = ''disconnect-users'' then m = POST else m = DELETE \<and> i \<noteq> []
      | [i, op] \<Rightarrow> op \<in> {''rotate'', ''rename'', ''ttl''} \<and> m = POST \<and> i \<noteq> []
      | _ \<Rightarrow> False)"

definition static_route :: "ext \<Rightarrow> app_consts \<Rightarrow> draws \<Rightarrow> request \<Rightarrow> app \<Rightarrow> routed" where
  "static_route x k d rq a =
     answer (with_header ''permissions-policy'' ''geolocation=(), payment=()'' (static_files x k d rq a)) a"

definition route_api :: "ext \<Rightarrow> app_consts \<Rightarrow> draws \<Rightarrow> request \<Rightarrow> string list \<Rightarrow> app \<Rightarrow> routed" where
  "route_api x k d rq segs a =
     (let get = (rq_method rq = GET \<or> rq_method rq = HEAD); post = (rq_method rq = POST);
          auth = authenticated x k d rq a
      in if segs = [''version''] \<and> get then answer (version_resp k) a
         else if segs = [''login''] \<and> post then answer_with (login x k d rq a)
         else if segs = [''logout''] \<and> post then answer_with (map_option (\<lambda>r. (r, a)) (logout k))
         else if segs = [''presence''] \<and> get
         then (if \<not> auth then answer unauthorized a else answer_with (Some (presence_stream x k d rq a)))
         else if segs = [''config''] \<and> get then (if \<not> auth then answer unauthorized a else answer (app_config x k d rq) a)
         else if segs = [''upload''] \<and> post
         then (if \<not> auth then answer unauthorized a
               else (let (r, files) = upload (ex_upload_part x) (dr_file_io d) (dr_temp d) (dr_uid d) (dr_time d)
                            (\<lambda>slug. map_of (ap_rooms a) slug \<noteq> None)
                            \<lparr>ur_query = rq_query rq, ur_headers = rq_headers rq, ur_body = rq_body rq\<rparr> (ap_files a)
                     in answer r (a\<lparr>ap_files := files\<rparr>)))
         else if length segs = 2 \<and> hd segs = ''file'' \<and> get \<and> segs ! 1 \<noteq> []
         then (if \<not> auth then answer unauthorized a
               else (let (r, files) = download (ex_serve_file x) (decode_param (segs ! 1)) (rq_query rq) (dr_time d) (ap_files a)
                     in answer r (a\<lparr>ap_files := files\<rparr>)))
         else if length segs \<ge> 2 \<and> take 2 segs = [''admin'', ''connection-passwords''] \<and> admin_route (rq_method rq) (drop 2 segs)
         then (if \<not> is_admin x k d rq a then answer (error_resp 403 ''forbidden'') a
               else answer_with (admin x k d rq (map decode_param (drop 2 segs)) a))
         else static_route x k d rq a)"

text \<open>None also where the code indexes a path that is empty.\<close>

definition route :: "ext \<Rightarrow> app_consts \<Rightarrow> draws \<Rightarrow> request \<Rightarrow> app \<Rightarrow> routed" where
  "route x k d rq a =
     (let path = rq_path rq; cleaned = clean_path path
      in if cleaned \<noteq> path \<and> rq_method rq \<noteq> CONNECT
         then answer (redirect (rq_method rq) (case rq_query rq of Some q \<Rightarrow> cleaned @ ''?'' @ q | None \<Rightarrow> cleaned) 301) a
         else if path = [] then None
         else
           (let get = (rq_method rq = GET \<or> rq_method rq = HEAD);
                segs = split_on (CHR ''/'') (tl path)
            in if segs = [''desktop'', ''latest.json''] \<and> get then answer (desktop_manifest x rq) a
               else if segs = [''desktop'', ''download'', ''windows''] \<and> get
               then answer (desktop_download_windows x (rq_method rq)) a
               else if length segs = 3 \<and> take 2 segs = [''desktop'', ''files''] \<and> get \<and> segs ! 2 \<noteq> []
               then answer (desktop_file x k (decode_param (segs ! 2))) a
               else if segs = [''healthz''] \<and> get then answer health a
               else if length segs = 2 \<and> hd segs = ''ws'' \<and> get \<and> segs ! 1 \<noteq> [] then route_ws x k d rq (segs ! 1) a
               else if hd segs = ''api'' then route_api x k d rq (tl segs) a
               else static_route x k d rq a))"

text \<open>The task of an accepted WebSocket registers itself once the upgrade is done, and leaves after serving.\<close>

definition ws_connected :: "role \<Rightarrow> app \<Rightarrow> nat \<times> app" where
  "ws_connected r a =
     (let (i, reg) = ws_add r (wr_next (ap_registry a) + 1) (ap_registry a) in (i, a\<lparr>ap_registry := reg\<rparr>))"

definition ws_disconnected :: "nat \<Rightarrow> app \<Rightarrow> app" where
  "ws_disconnected i a = a\<lparr>ap_registry := ws_remove i (ap_registry a)\<rparr>"

text \<open>The rate limiter answers None when it lets a request through, else how long to wait.\<close>

definition handle :: "ext \<Rightarrow> app_consts \<Rightarrow> (string \<Rightarrow> duration option) \<Rightarrow> draws \<Rightarrow> request \<Rightarrow> app \<Rightarrow> routed" where
  "handle x k api_limit d rq a =
     (let path = rq_path rq
      in if path = ''/healthz'' \<or> starts_with ''/ws/'' path then route x k d rq a
         else if starts_with ''/api/'' path
         then (case api_limit (client_ip (rq_peer rq) (rq_headers rq) (cf_trusted_proxies (ac_cfg k))) of
                 None \<Rightarrow> route x k d rq a
               | Some retry \<Rightarrow>
                   (let r = error_resp 429 ''rate limited''
                    in answer (if retry = 0 then r else with_header ''retry-after'' (dec (max (ceil_secs retry) 1)) r) a))
         else route x k d rq a)"

definition handle_internal :: "request \<Rightarrow> app \<Rightarrow> resp" where
  "handle_internal rq a =
     (if rq_path rq = ''/internal/call-status'' \<and> (rq_method rq = GET \<or> rq_method rq = HEAD) then call_status a else not_found)"

section \<open>The gates\<close>

text \<open>What a routed request may change: a predicate on the state after it and the upgrade.\<close>

definition leaves :: "(app \<Rightarrow> (role \<times> string) option \<Rightarrow> bool) \<Rightarrow> routed \<Rightarrow> bool" where
  "leaves P o1 \<longleftrightarrow> (case o1 of None \<Rightarrow> True | Some (r, a, up) \<Rightarrow> P a up)"

lemma leaves_if: "leaves P u \<Longrightarrow> leaves P v \<Longrightarrow> leaves P (if b then u else v)"
  by simp

lemma leaves_gate: "leaves P u \<Longrightarrow> leaves P (if \<not> False then u else v)"
  by simp

lemma leaves_None: "leaves P None"
  by (simp add: leaves_def)

lemma leaves_answer: "leaves P (answer r a) \<longleftrightarrow> P a None"
  by (simp add: leaves_def answer_def)

lemma leaves_answer_with: "leaves P (answer_with o1) \<longleftrightarrow> (case o1 of None \<Rightarrow> True | Some (r, a) \<Rightarrow> P a None)"
  by (auto simp: leaves_def answer_with_def split: option.split)

lemma leaves_static: "leaves P (static_route x k d rq a) \<longleftrightarrow> P a None"
  by (simp add: static_route_def leaves_answer)

lemma login_keeps: "login x k d rq a = Some (r, a') \<Longrightarrow> a' = a\<lparr>ap_limiter := ap_limiter a'\<rparr>"
  by (auto simp: login_def Let_def split: prod.splits if_splits option.splits)

lemma blocked_at_cases: "snd (blocked_at l ip now) = l \<or> snd (blocked_at l ip now) = l\<lparr>attempts := hdel ip (attempts l)\<rparr>"
  by (auto simp: blocked_at_def split: option.split)

text \<open>Without a session only the limiter changes, and nothing is upgraded.\<close>

definition only_limiter :: "app \<Rightarrow> app \<Rightarrow> (role \<times> string) option \<Rightarrow> bool" where
  "only_limiter a a' up \<longleftrightarrow> up = None \<and> a' = a\<lparr>ap_limiter := ap_limiter a'\<rparr>"

lemma only_limiter_same: "only_limiter a a None"
  by (simp add: only_limiter_def)

lemma no_session_route:
  assumes "session_of x k d rq a = None"
  shows "leaves (only_limiter a) (route x k d rq a)"
proof -
  have na: "authenticated x k d rq a = False" "is_admin x k d rq a = False"
    using assms by (simp_all add: authenticated_def is_admin_def)
  have lg: "leaves (only_limiter a) (answer_with (login x k d rq a))"
    using login_keeps [of x k d rq a] by (auto simp: leaves_answer_with only_limiter_def split: option.split)
  have lo: "leaves (only_limiter a) (answer_with (map_option (\<lambda>r. (r, a)) (logout k)))"
    by (auto simp: leaves_answer_with only_limiter_def split: option.split)
  have api: "leaves (only_limiter a) (route_api x k d rq segs a)" for segs
    unfolding route_api_def Let_def na
    by (intro leaves_gate leaves_if lg lo) (simp_all add: leaves_answer leaves_static only_limiter_same)
  have ws: "leaves (only_limiter a) (route_ws x k d rq room a)" for room
    by (simp add: route_ws_def assms leaves_answer only_limiter_same)
  show ?thesis
    unfolding route_def Let_def
    by (intro leaves_if api ws leaves_None) (simp_all add: leaves_answer leaves_static only_limiter_same)
qed

text \<open>Without an admin session no password changes and nobody is disconnected.\<close>

definition admin_kept :: "app \<Rightarrow> app \<Rightarrow> (role \<times> string) option \<Rightarrow> bool" where
  "admin_kept a a' up \<longleftrightarrow>
     ap_conn_pass a' = ap_conn_pass a \<and> wr_cancelled (ap_registry a') = wr_cancelled (ap_registry a)"

lemma no_admin_route:
  assumes "\<not> is_admin x k d rq a"
  shows "leaves (admin_kept a) (route x k d rq a)"
proof -
  have same: "admin_kept a a up" for up by (simp add: admin_kept_def)
  have lg: "leaves (admin_kept a) (answer_with (login x k d rq a))"
  proof (cases "login x k d rq a")
    case (Some p)
    then obtain r a' where p: "login x k d rq a = Some (r, a')" by (cases p) auto
    have "admin_kept a a' None" by (subst login_keeps [OF p]) (simp add: admin_kept_def)
    with p show ?thesis by (simp add: leaves_answer_with)
  qed (simp add: leaves_answer_with)
  have lo: "leaves (admin_kept a) (answer_with (map_option (\<lambda>r. (r, a)) (logout k)))"
    by (auto simp: leaves_answer_with same split: option.split)
  have pr: "leaves (admin_kept a) (answer_with (Some (presence_stream x k d rq a)))"
    by (auto simp: leaves_answer_with admin_kept_def presence_stream_def ws_add_def Let_def split: prod.split)
  have fl: "leaves (admin_kept a) (let (r, files) = rf in answer r (a\<lparr>ap_files := files\<rparr>))" for rf
    by (cases rf) (simp add: leaves_answer admin_kept_def)
  have api: "leaves (admin_kept a) (route_api x k d rq segs a)" for segs
  proof -
    have ad: "leaves (admin_kept a) (if \<not> is_admin x k d rq a then answer (error_resp 403 ''forbidden'') a else o1)" for o1
      using assms by (simp add: leaves_answer same)
    show ?thesis
      unfolding route_api_def Let_def [of "rq_method rq = GET \<or> rq_method rq = HEAD"] Let_def [of "rq_method rq = POST"]
        Let_def [of "authenticated x k d rq a"]
      by (intro leaves_if lg lo pr ad fl) (simp_all add: leaves_answer leaves_static same assms)
  qed
  have ws: "leaves (admin_kept a) (route_ws x k d rq room a)" for room
    by (auto simp: route_ws_def leaves_def answer_def same split: option.split sum.split)
  show ?thesis
    unfolding route_def Let_def
    by (intro leaves_if api ws leaves_None) (simp_all add: leaves_answer leaves_static same)
qed

text \<open>
  C1. The gates hold on every path and method: a request without a live session changes nothing but
  the login limiter and gets no WebSocket, and a request without a live admin session changes no
  connection password and disconnects nobody, whatever it asks for.
\<close>

theorem gates_hold:
  assumes "route x k d rq a = Some (r, a', up)"
  shows "(session_of x k d rq a = None \<longrightarrow> up = None \<and> a' = a\<lparr>ap_limiter := ap_limiter a'\<rparr>)
    \<and> (\<not> is_admin x k d rq a \<longrightarrow>
         ap_conn_pass a' = ap_conn_pass a \<and> wr_cancelled (ap_registry a') = wr_cancelled (ap_registry a))"
  using no_session_route [of x k d rq a] no_admin_route [of x k d rq a] assms
  by (auto simp: leaves_def only_limiter_def admin_kept_def)

section \<open>A small deployment, for examples\<close>

definition toy_ext :: ext where
  "toy_ext =
     \<lparr>ex_crypto = toy_crypto, ex_hmac_sha1 = (\<lambda>k s. [of_nat (toy_sum k + toy_sum s)]), ex_b64_std = hex,
      ex_auth_key = (\<lambda>u r c. map (\<lambda>ch. of_nat (byte_of ch)) (u @ r @ c)), ex_form_parts = (\<lambda>_ _. None),
      ex_upload_part = (\<lambda>_ _. NoPart False), ex_serve_file = (\<lambda>p. response 200 (Text p)),
      ex_serve_dir = (\<lambda>p. response 200 (Text p)), ex_is_file = (\<lambda>_. True), ex_accept_key = (\<lambda>s. s),
      ex_admin_json = (\<lambda>_. None), ex_manifest = None, ex_http_date = (\<lambda>_. ''Thu, 01 Jan 1970 00:00:00 GMT''),
      ex_rfc3339 = (\<lambda>_. ''1970-01-01T00:00:00Z'')\<rparr>"

definition toy_consts :: "string \<Rightarrow> app_consts" where
  "toy_consts admin_hash =
     \<lparr>ac_cfg = \<lparr>cf_addr = '':8080'', cf_web_dir = ''dist'', cf_updates_dir = ''updates'', cf_app_hostname = ''vh.example'',
                cf_public_ip = ''1.2.3.4'', cf_admin_password_hash = admin_hash, cf_cookie_secure = True, cf_udp_port_min = 1,
                cf_udp_port_max = 2, cf_turn_relay_min = 3, cf_turn_relay_max = 4, cf_trusted_proxies = []\<rparr>,
      ac_session_secret = ''s'', ac_turn_secret = ''t'', ac_admin_ver = admin_password_version toy_crypto ''s'' admin_hash,
      ac_version = ''v'', ac_stun_url = ''stun:1.2.3.4:3478'', ac_turn_url = ''turn:1.2.3.4:3478''\<rparr>"

definition toy_app :: "cp_entry list \<Rightarrow> app" where
  "toy_app es =
     \<lparr>ap_conn_pass = \<lparr>cs_entries = es, cs_file = None\<rparr>, ap_registry = \<lparr>wr_next = 0, wr_entries = [], wr_cancelled = []\<rparr>,
      ap_limiter = new_limiter 10 (secs 900), ap_rooms = [(''room1'', new_room ''room1'')], ap_hub = new_hub,
      ap_files = example_store\<rparr>"

definition toy_draws :: "instant \<Rightarrow> draws" where
  "toy_draws t =
     \<lparr>dr_now = t, dr_time = t, dr_blocks = [], dr_salt = replicate 16 7, dr_id = [], dr_write = None, dr_temp = ''/tmp/up-1'',
      dr_uid = ''ID'', dr_file_io = \<lparr>io_open = None, io_write = (\<lambda>_. None), io_flush = None, io_left = '''', io_remove = True\<rparr>\<rparr>"

definition toy_request :: "http_method \<Rightarrow> string \<Rightarrow> headers \<Rightarrow> chunks \<Rightarrow> request" where
  "toy_request m path h body =
     \<lparr>rq_method = m, rq_path = path, rq_query = None, rq_headers = h, rq_body = body, rq_peer = V4 0x01020304\<rparr>"

theorem gates_hold_witness:
  "route toy_ext (toy_consts []) (toy_draws 0) (toy_request POST ''/api/admin/connection-passwords'' [] []) (toy_app [])
     = Some (error_resp 403 ''forbidden'', toy_app [], None)
   \<and> ap_conn_pass (toy_app []) = ap_conn_pass (toy_app [])"
proof -
  let ?rq = "toy_request POST ''/api/admin/connection-passwords'' [] []"
  have c: "clean_path ''/api/admin/connection-passwords'' = ''/api/admin/connection-passwords''" by code_simp
  have s: "split_on (CHR ''/'') ''api/admin/connection-passwords'' = [''api'', ''admin'', ''connection-passwords'']" by code_simp
  have n: "session_of toy_ext (toy_consts []) (toy_draws 0) ?rq (toy_app []) = None"
    by (simp add: session_of_def valid_session_def from_headers_def cookie_value_def header_all_def toy_request_def map_filter_def)
  then have na: "\<not> is_admin toy_ext (toy_consts []) (toy_draws 0) ?rq (toy_app [])" by (simp add: is_admin_def)
  have p: "rq_path ?rq = ''/api/admin/connection-passwords''" "rq_method ?rq = POST" by (simp_all add: toy_request_def)
  have r: "route toy_ext (toy_consts []) (toy_draws 0) ?rq (toy_app []) = Some (error_resp 403 ''forbidden'', toy_app [], None)"
    by (simp add: route_def route_api_def Let_def p c s na admin_route_def answer_def eval_nat_numeral)
  show ?thesis using gates_hold [OF r] r by blast
qed

end
