(* ===== verification/Access.thy ===== *)
theory Access
  imports Server
begin

text \<open>
  What the authentication parts promise together: a login opens a session that the gates accept, the
  session dies with its connection password, and the TURN credentials a session gets are accepted.
\<close>

section \<open>A login opens a session\<close>

definition cookie_safe :: "char \<Rightarrow> bool" where
  "cookie_safe ch \<longleftrightarrow> alnum ch \<or> ch = CHR ''-'' \<or> ch = CHR ''_''"

definition cookie_char :: "char \<Rightarrow> bool" where
  "cookie_char ch \<longleftrightarrow> graphic ch \<and> byte_of ch < 127 \<and> ch \<noteq> CHR '';'' \<and> ch \<noteq> CHR ''\"''"

lemma alnum_cookie: "alnum ch \<Longrightarrow> cookie_char ch \<and> ch \<noteq> CHR '':''"
proof -
  assume "alnum ch"
  then have b: "32 < byte_of ch" "byte_of ch < 127" "byte_of ch \<noteq> 59" "byte_of ch \<noteq> 34" "byte_of ch \<noteq> 58"
    unfolding alnum_def is_digit_def by linarith+
  have "byte_of (CHR '';'') = 59" "byte_of (CHR ''\"'') = 34" "byte_of (CHR '':'') = 58" by simp_all
  with b have "ch \<noteq> CHR '';''" "ch \<noteq> CHR ''\"''" "ch \<noteq> CHR '':''" by metis+
  with b show ?thesis by (simp add: cookie_char_def graphic_def)
qed

lemma safe_cookie: "cookie_safe ch \<Longrightarrow> cookie_char ch \<and> ch \<noteq> CHR '':''"
  using alnum_cookie by (auto simp: cookie_safe_def cookie_char_def graphic_def)

lemma dec_int_cookie: "ch \<in> set (dec_int i) \<Longrightarrow> cookie_char ch"
  using dec_int_chars [of ch i] alnum_cookie [of ch] by (auto simp: alnum_def cookie_char_def graphic_def)

lemma encode_at_chars:
  assumes "crypto_ok c" and "list_all cookie_safe a" and "list_all cookie_safe i"
  shows "list_all cookie_char (encode_at c secret r g a i ex)"
proof -
  have "list_all cookie_char (dec_int ex)" "list_all cookie_char (dec (unat g))"
    using dec_int_cookie dec_int_cookie [of _ "int (unat g)"] by (auto simp: list_all_iff dec_int_def)
  moreover have "list_all cookie_char a" "list_all cookie_char i"
    using assms(2,3) safe_cookie by (auto simp: list_all_iff)
  moreover have "list_all cookie_char (sign c secret p)" for p
    using sign_chars [OF assms(1)] safe_cookie by (auto simp: list_all_iff cookie_safe_def)
  moreover have "list_all cookie_char (role_str r)" by (cases r) (simp_all add: cookie_char_def graphic_def)
  moreover have "list_all cookie_char '':''" "list_all cookie_char ''.''" by (simp_all add: cookie_char_def graphic_def)
  ultimately show ?thesis by (simp add: encode_at_def payload_of_def Let_def)
qed

lemma cookie_back:
  assumes "list_all cookie_char v"
  shows "cookie_value [takeWhile (\<lambda>ch. ch \<noteq> CHR '';'') (cookie_header v lifetime secure)] COOKIE_NAME = Some v"
proof -
  let ?pair = "''vh_session'' @ CHR ''='' # v"
  have a: "list_all (\<lambda>ch. ch \<noteq> CHR '';'') ?pair" using assms by (simp add: list_all_iff cookie_char_def)
  have t: "takeWhile (\<lambda>ch. ch \<noteq> CHR '';'') (cookie_header v lifetime secure) = ?pair"
  proof -
    have e: "cookie_header v lifetime secure =
        ?pair @ CHR '';'' # '' Path=/; '' @ lifetime @ ''; HttpOnly'' @ (if secure then ''; Secure'' else []) @ ''; SameSite=Strict''"
      by (simp add: cookie_header_def COOKIE_NAME_def)
    have "\<forall>ch \<in> set ?pair. ch \<noteq> CHR '';''" using a unfolding list_all_iff .
    then show ?thesis unfolding e by (simp only: takeWhile_append2 takeWhile.simps simp_thms if_False append_Nil2)
  qed
  have v: "ch \<in> set v \<Longrightarrow> graphic ch \<and> byte_of ch < 127 \<and> ch \<noteq> CHR '';'' \<and> ch \<noteq> CHR ''\"''" for ch
    using assms unfolding list_all_iff cookie_char_def by blast
  have "list_all graphic v" "list_all (\<lambda>ch. 32 \<le> byte_of ch \<and> byte_of ch < 127 \<or> byte_of ch = 9) v"
    using v unfolding list_all_iff graphic_def by (blast, fastforce)
  then have g: "list_all graphic ?pair" "list_all (\<lambda>ch. 32 \<le> byte_of ch \<and> byte_of ch < 127 \<or> byte_of ch = 9) ?pair"
    by (simp_all add: graphic_def)
  have "CHR '';'' \<notin> set ?pair" "CHR ''\"'' \<notin> set v" using v by auto
  then show ?thesis
    using g split_once_append [of "CHR ''=''" "''vh_session''" v]
    by (simp add: t cookie_value_def header_str_def split_on_none trim_graphic COOKIE_NAME_def trim_matches_none map_filter_def
        del: append_Cons)
qed

lemma header_get_insert: "header_get n (header_insert m v h) = (if n = m then Some v else header_get n h)"
proof -
  have "List.find (\<lambda>(k, _). k = n) (filter (\<lambda>(k, _). k \<noteq> m) h) = (if n = m then None else List.find (\<lambda>(k, _). k = n) h)"
    by (induction h) auto
  moreover have "List.find P (xs @ ys) = (case List.find P xs of None \<Rightarrow> List.find P ys | Some z \<Rightarrow> Some z)"
    for P :: "string \<times> string \<Rightarrow> bool" and xs ys by (induction xs) auto
  ultimately show ?thesis by (auto simp: header_get_def header_insert_def split: option.split)
qed

lemma header_get_with [simp]:
  "header_get n (rs_headers (with_header m v r)) = (if n = m then Some v else header_get n (rs_headers r))"
  by (simp add: with_header_def header_get_insert)

lemma no_cookie_on_error [simp]: "header_get ''set-cookie'' (rs_headers (error_resp n m)) = None"
  by (simp add: error_resp_def) (simp add: response_def header_get_def)

lemma with_cookie_get: "with_cookie ck = Some r \<Longrightarrow> header_get ''set-cookie'' (rs_headers r) = Some ck"
  by (auto simp: with_cookie_def header_str_def split: option.splits if_splits)

text \<open>Where a login that sets a cookie went through.\<close>

lemma login_cookie:
  assumes "login x k d rq a = Some (r, a')" and "header_get ''set-cookie'' (rs_headers r) = Some ck"
  defines "mk \<equiv> \<lambda>r g av i. session_cookie (ex_crypto x) (cf_cookie_secure (ac_cfg k)) (ac_session_secret k) r g av i (dr_time d)
                    (ex_http_date x (dr_time d + SESSION_TTL))"
  shows "\<exists>form. post_form x rq = Some form \<and> form_value ''password'' form \<noteq> [] \<and>
    (if verify (ex_crypto x) (cf_admin_password_hash (ac_cfg k)) (form_value ''password'' form)
     then ck = mk Admin 0 (ac_admin_ver k) []
     else \<exists>i g. verify_pass (ex_crypto x) (form_value ''password'' form) (dr_time d) (ap_conn_pass a) = Some (i, g)
            \<and> ck = mk User g [] i)"
proof -
  obtain form where f: "post_form x rq = Some form" "form_value ''password'' form \<noteq> []"
    using assms(1,2) by (auto simp: login_def Let_def unauthorized_def split: prod.splits if_splits option.splits)
  obtain bl lim where b: "blocked_at (ap_limiter a) (client_ip (rq_peer rq) (rq_headers rq) (cf_trusted_proxies (ac_cfg k))) (dr_now d)
      = (bl, lim)" by (metis prod.exhaust)
  have nb: "\<not> bl" using assms(1,2) b by (auto simp: login_def Let_def)
  note l = assms(1) [unfolded login_def Let_def b prod.case f(1) option.case, folded mk_def]
  show ?thesis
  proof (cases "verify (ex_crypto x) (cf_admin_password_hash (ac_cfg k)) (form_value ''password'' form)")
    case True
    with l nb f have "with_cookie (mk Admin 0 (ac_admin_ver k) []) = Some r" by (auto simp: mk_def)
    with f True with_cookie_get assms(2) show ?thesis by fastforce
  next
    case False
    then obtain i g where v: "verify_pass (ex_crypto x) (form_value ''password'' form) (dr_time d) (ap_conn_pass a) = Some (i, g)"
      using l nb f assms(2) by (auto simp: unauthorized_def split: option.splits)
    with l nb f False have "with_cookie (mk User g [] i) = Some r" by (auto simp: mk_def)
    with f False v with_cookie_get assms(2) show ?thesis by fastforce
  qed
qed

lemma cookie_session:
  assumes "crypto_ok c" and "list_all cookie_safe av" and "list_all cookie_safe i"
    and "t + SESSION_TTL < secs (2 ^ 63)" and "unix_secs now \<le> unix_secs (t + SESSION_TTL)"
  shows "from_headers c secret [takeWhile (\<lambda>ch. ch \<noteq> CHR '';'') (session_cookie c secure secret r g av i t date)] now
    = Some \<lparr>sn_role = r, sn_generation = g, sn_admin_version = av, sn_entry_id = i\<rparr>"
proof -
  have u: "unix_secs (t + SESSION_TTL) < 2 ^ 63" "0 \<le> unix_secs (t + SESSION_TTL)"
    using assms(4) by (simp_all add: unix_secs_def)
  have "CHR '':'' \<notin> set av" using assms(2) safe_cookie by (auto simp: list_all_iff)
  then show ?thesis
    using cookie_back [OF encode_at_chars [OF assms(1-3)]] decode_encode [OF assms(1) _ assms(5)] u
    by (simp add: from_headers_def session_cookie_def encode_def)
qed

text \<open>
  C2. A login opens a session. The cookie it sets, sent back by the client, makes every gate see,
  until the cookie's thirty days are over: an admin, if the password was the admin's and the admin
  password is still the same; else a user, for as long as the connection password that let it in is
  there, has not expired, and has not been rotated.
\<close>

theorem login_opens_session:
  assumes "crypto_ok (ex_crypto x)"
    and "login x k d rq a = Some (r, a')" and "header_get ''set-cookie'' (rs_headers r) = Some ck"
    and "ac_admin_ver k = admin_password_version (ex_crypto x) (ac_session_secret k) (cf_admin_password_hash (ac_cfg k))"
    and "list_all (\<lambda>e. list_all cookie_safe (cp_id e)) (cs_entries (ap_conn_pass a))"
    and "dr_time d + SESSION_TTL < secs (2 ^ 63)"
    and "header_all ''cookie'' (rq_headers rq') = [takeWhile (\<lambda>ch. ch \<noteq> CHR '';'') ck]"
    and "unix_secs (dr_time d') \<le> unix_secs (dr_time d + SESSION_TTL)"
  shows "\<exists>form. post_form x rq = Some form \<and>
    (if verify (ex_crypto x) (cf_admin_password_hash (ac_cfg k)) (form_value ''password'' form)
     then session_of x k d' rq' b = Some \<lparr>sn_role = Admin, sn_generation = 0, sn_admin_version = ac_admin_ver k, sn_entry_id = []\<rparr>
     else \<exists>i g. verify_pass (ex_crypto x) (form_value ''password'' form) (dr_time d) (ap_conn_pass a) = Some (i, g)
            \<and> session_of x k d' rq' b =
                (if entry_generation i (dr_time d') (ap_conn_pass b) = Some g
                 then Some \<lparr>sn_role = User, sn_generation = g, sn_admin_version = [], sn_entry_id = i\<rparr> else None))"
proof -
  from login_cookie [OF assms(2,3)] obtain form where f: "post_form x rq = Some form"
    "if verify (ex_crypto x) (cf_admin_password_hash (ac_cfg k)) (form_value ''password'' form)
     then ck = session_cookie (ex_crypto x) (cf_cookie_secure (ac_cfg k)) (ac_session_secret k) Admin 0 (ac_admin_ver k) []
                 (dr_time d) (ex_http_date x (dr_time d + SESSION_TTL))
     else \<exists>i g. verify_pass (ex_crypto x) (form_value ''password'' form) (dr_time d) (ap_conn_pass a) = Some (i, g)
            \<and> ck = session_cookie (ex_crypto x) (cf_cookie_secure (ac_cfg k)) (ac_session_secret k) User g [] i
                 (dr_time d) (ex_http_date x (dr_time d + SESSION_TTL))" by blast
  have av: "list_all cookie_safe (ac_admin_ver k)"
    using sign_chars [OF assms(1)] by (auto simp: assms(4) admin_password_version_def list_all_iff cookie_safe_def)
  show ?thesis
  proof (cases "verify (ex_crypto x) (cf_admin_password_hash (ac_cfg k)) (form_value ''password'' form)")
    case True
    with f have "session_of x k d' rq' b = Some \<lparr>sn_role = Admin, sn_generation = 0, sn_admin_version = ac_admin_ver k, sn_entry_id = []\<rparr>"
      using cookie_session [OF assms(1) av _ assms(6,8), of "[]"]
      by (simp add: session_of_def valid_session_def assms(7) session_live_def constant_time_str_eq_refl)
    with f True show ?thesis by auto
  next
    case False
    with f obtain i g where v: "verify_pass (ex_crypto x) (form_value ''password'' form) (dr_time d) (ap_conn_pass a) = Some (i, g)"
      and ck: "ck = session_cookie (ex_crypto x) (cf_cookie_secure (ac_cfg k)) (ac_session_secret k) User g [] i
                 (dr_time d) (ex_http_date x (dr_time d + SESSION_TTL))" by auto
    from v obtain e where "e \<in> set (cs_entries (ap_conn_pass a))" "cp_id e = i"
      by (auto simp: verify_pass_def find_Some_iff in_set_conv_nth)
    then have "list_all cookie_safe i" using assms(5) by (auto simp: list_all_iff)
    then have "session_of x k d' rq' b =
        (if entry_generation i (dr_time d') (ap_conn_pass b) = Some g
         then Some \<lparr>sn_role = User, sn_generation = g, sn_admin_version = [], sn_entry_id = i\<rparr> else None)"
      using cookie_session [OF assms(1) _ _ assms(6,8), of "[]" i]
      by (simp add: session_of_def valid_session_def assms(7) session_live_def ck)
    with f v False show ?thesis by auto
  qed
qed

text \<open>The cookie always fits in a header, so a login does not panic.\<close>

lemma cookie_fits:
  assumes "crypto_ok c" and "list_all cookie_safe av" and "list_all cookie_safe i" and "header_str date = Some date"
  shows "with_cookie (session_cookie c secure secret r g av i t date)
    = Some (with_header ''set-cookie'' (session_cookie c secure secret r g av i t date) no_content)"
proof -
  let ?vis = "\<lambda>ch. 32 \<le> byte_of ch \<and> byte_of ch < 127 \<or> byte_of ch = 9"
  have vis: "?vis ch" if "cookie_char ch" for ch
    using that unfolding cookie_char_def graphic_def by linarith
  have v: "list_all ?vis s" if "list_all cookie_char s" for s
    using that vis unfolding list_all_iff by blast
  have "list_all ?vis (encode c secret r g av i SESSION_TTL t)"
    unfolding encode_def by (rule v) (rule encode_at_chars [OF assms(1-3)])
  moreover have "list_all ?vis date" using assms(4) by (auto simp: header_str_def split: if_splits)
  moreover have "list_all ?vis (dec n)" for n
    using dec_int_cookie [of _ "int n"] by (intro v) (simp add: list_all_iff dec_int_def)
  ultimately have "list_all ?vis (session_cookie c secure secret r g av i t date)"
    by (simp add: session_cookie_def cookie_header_def COOKIE_NAME_def)
  then show ?thesis by (simp add: with_cookie_def header_str_def)
qed

definition toy_hash :: string where
  "toy_hash = the (hash toy_crypto (replicate 16 7) ''pw'')"

lemma toy_verify: "verify toy_crypto toy_hash ''pw''"
proof -
  have "toy_hash = ''argon2id$t='' @ dec 2 @ ''$m='' @ dec 65536 @ ''$p='' @ dec 1 @ ''$''
      @ cr_b64 toy_crypto (replicate 16 7) @ ''$'' @ cr_b64 toy_crypto (replicate 32 (of_nat (toy_sum ''pw'')))"
    by (simp only: toy_hash_def hash_def ARGON_TIME_def ARGON_MEMORY_def ARGON_THREADS_def ARGON_KEY_LEN_def)
      (simp add: toy_crypto_def)
  then have "parse_hash toy_crypto toy_hash = Some \<lparr>ph_t = 2, ph_m = 65536, ph_p = 1, ph_salt = replicate 16 7,
      ph_key = replicate 32 (of_nat (toy_sum ''pw''))\<rparr>"
    using parse_hash_hash [OF toy_crypto_ok, of "replicate 16 7" "replicate 32 (of_nat (toy_sum ''pw''))"] by simp
  then show ?thesis by (simp add: verify_def constant_time_eq_refl) (simp add: toy_crypto_def constant_time_eq_refl)
qed

definition toy_entry :: cp_entry where
  "toy_entry = \<lparr>cp_id = ''ab12'', cp_label = ''friends'', cp_hash = toy_hash, cp_generation = 3, cp_created_at = 0, cp_expires_at = None\<rparr>"

definition toy_login :: request where
  "toy_login = toy_request POST ''/api/login'' [(''content-type'', ''application/x-www-form-urlencoded'')] [Inr ''password=pw'']"

lemma toy_form: "post_form toy_ext toy_login = Some [(''password'', ''pw'')]"
proof -
  have "media_type ''application/x-www-form-urlencoded'' = ''application/x-www-form-urlencoded''"
    "parse_form (from_utf8_lossy ''password=pw'') = [(''password'', ''pw'')]" by code_simp+
  then show ?thesis
    by (simp add: post_form_def toy_login_def toy_request_def header_text_def header_get_def header_str_def MAX_FORM_BYTES_def Let_def)
qed

theorem login_opens_session_witness:
  "\<exists>r a' ck. login toy_ext (toy_consts []) (toy_draws 0) toy_login (toy_app [toy_entry]) = Some (r, a')
     \<and> header_get ''set-cookie'' (rs_headers r) = Some ck
     \<and> session_of toy_ext (toy_consts []) (toy_draws (secs 100))
         (toy_request GET ''/api/config'' [(''cookie'', takeWhile (\<lambda>ch. ch \<noteq> CHR '';'') ck)] []) (toy_app [toy_entry])
       = Some \<lparr>sn_role = User, sn_generation = 3, sn_admin_version = [], sn_entry_id = ''ab12''\<rparr>"
proof -
  let ?k = "toy_consts []" and ?a = "toy_app [toy_entry]" and ?d = "toy_draws 0"
  let ?ck = "session_cookie toy_crypto True ''s'' User 3 [] ''ab12'' 0 ''Thu, 01 Jan 1970 00:00:00 GMT''"
  have bad: "\<not> verify toy_crypto [] p" for p by (simp add: verify_def parse_hash_def split_on_def)
  have vp: "verify_pass toy_crypto ''pw'' 0 (ap_conn_pass ?a) = Some (''ab12'', 3)"
    using toy_verify by (simp add: verify_pass_def toy_app_def toy_entry_def is_expired_def)
  have safe: "list_all cookie_safe ''ab12''" by (simp add: cookie_safe_def alnum_def is_digit_def)
  have fits: "with_cookie ?ck = Some (with_header ''set-cookie'' ?ck no_content)"
    using cookie_fits [OF toy_crypto_ok _ safe, of "[]" "''Thu, 01 Jan 1970 00:00:00 GMT''" True "''s''" User 3 0]
    by (simp add: header_str_def)
  have kf: "ex_crypto toy_ext = toy_crypto" "ac_session_secret ?k = ''s''" "dr_time (toy_draws t) = t" "dr_now (toy_draws t) = t"
    "cf_admin_password_hash (ac_cfg ?k) = []" "cf_cookie_secure (ac_cfg ?k)" "ex_http_date toy_ext t = ''Thu, 01 Jan 1970 00:00:00 GMT''"
    "ac_admin_ver ?k = admin_password_version toy_crypto ''s'' []" "ap_limiter ?a = new_limiter 10 (secs 900)" for t
    by (simp_all add: toy_ext_def toy_consts_def toy_draws_def toy_app_def)
  obtain a' where lg: "login toy_ext ?k ?d toy_login ?a = Some (with_header ''set-cookie'' ?ck no_content, a')"
    using bad vp fits by (simp add: login_def Let_def kf toy_form form_value_def hget_Cons blocked_at_def new_limiter_def)
  have eg: "entry_generation ''ab12'' (secs 100) (ap_conn_pass ?a) = Some 3"
    by (simp add: entry_generation_def find_entry_def toy_app_def toy_entry_def is_expired_def)
  have "session_of toy_ext ?k (toy_draws (secs 100))
      (toy_request GET ''/api/config'' [(''cookie'', takeWhile (\<lambda>ch. ch \<noteq> CHR '';'') ?ck)] []) ?a
    = Some \<lparr>sn_role = User, sn_generation = 3, sn_admin_version = [], sn_entry_id = ''ab12''\<rparr>"
    using login_opens_session [OF _ lg, of ?ck "toy_request GET ''/api/config'' [(''cookie'', takeWhile (\<lambda>ch. ch \<noteq> CHR '';'') ?ck)] []"
        "toy_draws (secs 100)" ?a] safe bad vp eg
    by (simp add: kf toy_crypto_ok toy_form form_value_def hget_Cons header_all_def toy_request_def SESSION_TTL_def unix_secs_def)
      (simp add: toy_app_def toy_entry_def)
  with lg show ?thesis by auto
qed

section \<open>A session dies with its connection password\<close>

lemma find_update_first:
  "(\<And>e. cp_id (f e) = cp_id e) \<Longrightarrow> find_entry i (update_first i f es) = map_option f (find_entry i es)"
  by (induction es) (auto simp: find_entry_def)

lemma find_remove_first: "distinct (map cp_id es) \<Longrightarrow> find_entry i (remove_first i es) = None"
proof -
  assume "distinct (map cp_id es)"
  then have "i \<notin> set (map cp_id (remove_first i es))" by (simp only: remove_first_sub(3)) simp
  then show ?thesis by (auto simp: find_entry_def find_None_iff)
qed

lemma generation_after_mutate:
  assumes "\<And>e. cp_id (f e) = cp_id e" and "find_entry i (cs_entries st) = Some e" and "i \<noteq> []"
  shows "entry_generation i t (snd (mutate i f io st)) = (if is_expired t (f e) then None else Some (cp_generation (f e)))"
  using assms find_update_first [of f i "cs_entries st"] by (simp add: entry_generation_def mutate_entries)

text \<open>
  C3. Revocation is immediate: once a connection password is rotated, revoked or disabled, even by an
  operation whose write to disk fails, no session that was opened with it is live any more.
\<close>

theorem revocation_is_immediate:
  assumes "cp_inv st" and "session_live c st av t0 s" and "sn_role s = User" and "now - secs 1 \<le> t"
  shows "\<not> session_live c (snd (rotate (sn_entry_id s) plain h now io st)) av t s
    \<and> \<not> session_live c (snd (revoke (sn_entry_id s) io st)) av t s
    \<and> \<not> session_live c (snd (set_ttl (sn_entry_id s) Disabled now io st)) av t s"
proof -
  let ?i = "sn_entry_id s"
  have i: "?i \<noteq> []" and g: "entry_generation ?i t0 st = Some (sn_generation s)"
    using assms(2,3) by (auto simp: session_live_def entry_generation_def split: if_splits)
  then obtain e where e: "find_entry ?i (cs_entries st) = Some e" "cp_generation e = sn_generation s"
    by (auto simp: entry_generation_def split: option.splits if_splits)
  have "entry_generation ?i t (snd (rotate ?i plain h now io st)) \<noteq> Some (sn_generation s)"
    using generation_after_mutate [OF _ e(1) i] e(2) by simp
  moreover have "entry_generation ?i t (snd (revoke ?i io st)) = None"
    using find_remove_first [of "cs_entries st" ?i] assms(1) e(1)
    by (simp add: entry_generation_def revoke_entries cp_inv_def)
  moreover have "entry_generation ?i t (snd (set_ttl ?i Disabled now io st)) = None"
    using generation_after_mutate [OF _ e(1) i] assms(4) by (simp add: is_expired_def expiry_for_def)
  ultimately show ?thesis using assms(3) by (simp add: session_live_def)
qed

theorem revocation_is_immediate_witness:
  "\<not> session_live toy_crypto (snd (rotate ''ab12'' ''new'' ''hash'' (secs 5) (Some ''disk full'') (ap_conn_pass (toy_app [toy_entry]))))
       [] (secs 5) \<lparr>sn_role = User, sn_generation = 3, sn_admin_version = [], sn_entry_id = ''ab12''\<rparr>"
proof -
  let ?s = "\<lparr>sn_role = User, sn_generation = 3, sn_admin_version = [], sn_entry_id = ''ab12''\<rparr>"
  let ?st = "ap_conn_pass (toy_app [toy_entry])"
  have "cp_inv ?st" by (simp add: cp_inv_def toy_app_def toy_entry_def label_ok_def MAX_ENTRIES_def MAX_LABEL_LEN_def)
  moreover have "session_live toy_crypto ?st [] 0 ?s"
    by (simp add: session_live_def entry_generation_def find_entry_def toy_app_def toy_entry_def is_expired_def)
  ultimately show ?thesis
    using revocation_is_immediate [of ?st toy_crypto "[]" 0 ?s "secs 5" "secs 5" "''new''" "''hash''" "Some ''disk full''"] by simp
qed

section \<open>TURN credentials\<close>

lemma split_on_head: "hd (split_on c s) = takeWhile (\<lambda>x. x \<noteq> c) s"
  by (induction s) (auto simp: split_on_def split: list.splits)

text \<open>
  The TURN server accepts the credentials that \<open>/api/config\<close> mints for six hours after they
  were minted and not a second longer, and derives its key from the password the client was given,
  so both ends agree; the two sides share nothing but the secret.
\<close>

theorem turn_credentials_accepted:
  assumes "turn_credentials x secret t0 = (username, cred)" and "t0 + TURN_CREDS_TTL < secs (2 ^ 63)"
  shows "auth_handle x secret username realm t =
    (if unix_secs t \<le> unix_secs (t0 + TURN_CREDS_TTL) then Some (ex_auth_key x username realm cred) else None)"
proof -
  let ?e = "unix_secs (t0 + TURN_CREDS_TTL)"
  have u: "username = dec_int ?e @ CHR '':'' # ''u''" and c: "cred = credential x secret username"
    using assms(1) by (auto simp: turn_credentials_def Let_def)
  have "CHR '':'' \<notin> set (dec_int ?e)" using no_char(1) .
  then have "hd (split_on (CHR '':'') username) = dec_int ?e"
    unfolding u by (simp add: split_on_append)
  moreover have "parse_i64 (dec_int ?e) = Some ?e"
    using assms(2) by (intro parse_i64_dec) (simp_all add: unix_secs_def)
  ultimately show ?thesis by (simp add: auth_handle_def c)
qed

theorem turn_credentials_accepted_witness:
  "(case turn_credentials toy_ext ''t'' (secs 1) of (u, p) \<Rightarrow>
      auth_handle toy_ext ''t'' u ''vh'' (secs 21601) = Some (ex_auth_key toy_ext u ''vh'' p)
      \<and> auth_handle toy_ext ''t'' u ''vh'' (secs 21602) = None)"
  using turn_credentials_accepted [of toy_ext "''t''" "secs 1" _ _ "''vh''" "secs 21601"]
    turn_credentials_accepted [of toy_ext "''t''" "secs 1" _ _ "''vh''" "secs 21602"]
  by (cases "turn_credentials toy_ext ''t'' (secs 1)") (simp add: TURN_CREDS_TTL_def unix_secs_def)

section \<open>A request that brings its task down\<close>

text \<open>
  A CONNECT request names no path; the router exempts it from the redirect to the cleaned path
  and then slices the empty path, which panics.
\<close>

theorem connect_panics:
  "route x k d (rq\<lparr>rq_method := CONNECT, rq_path := []\<rparr>) a = None"
  by (simp add: route_def Let_def)

end
