(* ===== verification/Stun.thy ===== *)
theory Stun
  imports HttpText
begin

text \<open>
  \<open>backend/src/sfu/net.rs\<close>, the parts without state: the local ufrag in the USERNAME of a STUN
  request (\<open>stun_local_ufrag\<close>), the datagrams a flush collects in one buffer and hands to the
  socket (\<open>Outbox\<close>, \<open>send_batch\<close>, \<open>sendmmsg\<close>), and the choice of ports and sockets
  (\<open>Mux::bind\<close>, \<open>Mux::pick\<close>). What the operating system answers is an argument.
\<close>

section \<open>The code: STUN\<close>

text \<open>\<open>get(a..b)\<close> of a byte slice, and \<open>u16::from_be_bytes\<close>.\<close>

definition slice :: "nat \<Rightarrow> nat \<Rightarrow> string \<Rightarrow> string option" where
  "slice a b s = (if a \<le> b \<and> b \<le> length s then Some (take (b - a) (drop a s)) else None)"

definition be16 :: "char \<Rightarrow> char \<Rightarrow> nat" where
  "be16 h l = byte_of h * 256 + byte_of l"

definition STUN_MAGIC :: string where
  "STUN_MAGIC = ascii [0x21, 0x12, 0xA4, 0x42]"

function stun_loop :: "string \<Rightarrow> nat \<Rightarrow> string option" where
  "stun_loop attrs i =
     (if i + 4 \<le> length attrs
      then let typ = be16 (attrs ! i) (attrs ! (i + 1));
               alen = be16 (attrs ! (i + 2)) (attrs ! (i + 3))
           in case slice (i + 4) (i + 4 + alen) attrs of
                None \<Rightarrow> None
              | Some val \<Rightarrow>
                  if typ = 0x0006
                  then (case from_utf8 val of None \<Rightarrow> None | Some user \<Rightarrow> Some (hd (split_on (CHR '':'') user)))
                  else stun_loop attrs (i + 4 + (alen + 3) div 4 * 4)
      else None)"
  by pat_completeness auto
termination
  by (relation "measure (\<lambda>(attrs, i). length attrs - i)") auto

declare stun_loop.simps [simp del]

definition stun_local_ufrag :: "string \<Rightarrow> string option" where
  "stun_local_ufrag b =
     (if length b < 20 \<or> and (byte_of (b ! 0)) 0xC0 \<noteq> (0 :: nat) \<or> take 4 (drop 4 b) \<noteq> STUN_MAGIC then None
      else let len = be16 (b ! 2) (b ! 3)
           in case slice 20 (20 + len) b of
                None \<Rightarrow> None
              | Some attrs \<Rightarrow> stun_loop attrs 0)"

section \<open>The code: the outbox\<close>

record 'a outbox =
  ob_buf :: string
  ob_msgs :: "('a \<times> nat) list"

definition empty_outbox :: "'a outbox" where
  "empty_outbox = \<lparr>ob_buf = [], ob_msgs = []\<rparr>"

text \<open>What \<open>poll\<close> does with one \<open>Transmit\<close>.\<close>

definition push_datagram :: "'a \<Rightarrow> string \<Rightarrow> 'a outbox \<Rightarrow> 'a outbox" where
  "push_datagram dst contents ob =
     (let buf = ob_buf ob @ contents
      in \<lparr>ob_buf = buf, ob_msgs = ob_msgs ob @ [(dst, length buf)]\<rparr>)"

text \<open>The slices between the end offsets, from \<open>start\<close> on.\<close>

fun cut_msgs :: "string \<Rightarrow> nat \<Rightarrow> ('a \<times> nat) list \<Rightarrow> ('a \<times> string) list" where
  "cut_msgs buf start [] = []"
| "cut_msgs buf start ((dst, e) # ms) = (dst, take (e - start) (drop start buf)) # cut_msgs buf e ms"

text \<open>\<open>sendmmsg\<close> hands all datagrams to the kernel, which takes the first \<open>r\<close> of them; None is an error.\<close>

definition sendmmsg :: "nat option \<Rightarrow> 'a outbox \<Rightarrow> (nat \<times> ('a \<times> string) list) option" where
  "sendmmsg r ob = map_option (\<lambda>n. (n, take n (cut_msgs (ob_buf ob) 0 (ob_msgs ob)))) r"

text \<open>The datagrams handed to the socket, in order, and the emptied outbox.\<close>

definition send_batch :: "nat option \<Rightarrow> 'a outbox \<Rightarrow> ('a \<times> string) list \<times> 'a outbox" where
  "send_batch r ob =
     (let (sent, batched) = (if length (ob_msgs ob) \<le> 1 then (0, [])
                             else case sendmmsg r ob of None \<Rightarrow> (0, []) | Some x \<Rightarrow> x);
          start = (if sent = 0 then 0 else snd (ob_msgs ob ! (sent - 1)))
      in (batched @ cut_msgs (ob_buf ob) start (drop sent (ob_msgs ob)), \<lparr>ob_buf = [], ob_msgs = []\<rparr>))"

section \<open>The code: binding ports\<close>

definition MAX_SOCKETS :: nat where "MAX_SOCKETS = 16"

text \<open>
  The loop over the ports: \<open>bind_port\<close> is what the system answers for a port, the bound
  port or an error.
\<close>

fun bind_ports :: "(nat \<Rightarrow> string + nat) \<Rightarrow> nat \<Rightarrow> bool \<Rightarrow> nat list \<Rightarrow> nat list \<Rightarrow> string + nat list" where
  "bind_ports bind_port want any [] socks = Inr socks"
| "bind_ports bind_port want any (p # ps) socks =
     (if length socks = want then Inr socks
      else case bind_port p of
             Inr b \<Rightarrow> bind_ports bind_port want any ps (socks @ [b])
           | Inl e \<Rightarrow> if any then Inl e else bind_ports bind_port want any ps socks)"

definition mux_bind :: "(nat \<Rightarrow> string + nat) \<Rightarrow> nat option \<Rightarrow> nat \<Rightarrow> nat \<Rightarrow> string + nat list" where
  "mux_bind bind_port cores min_port max_port =
     (let want = min MAX_SOCKETS (max 1 (case cores of None \<Rightarrow> 4 | Some n \<Rightarrow> n));
          ports = (if min_port = 0 then [0] else [min_port..<max_port + 1])
      in case bind_ports bind_port want (min_port = 0) ports [] of
           Inl e \<Rightarrow> Inl e
         | Inr socks \<Rightarrow>
             if socks = [] then Inl (''no free UDP port in '' @ dec min_port @ ''-'' @ dec max_port) else Inr socks)"

text \<open>\<open>pick\<close>: a wrapping counter modulo the number of sockets.\<close>

definition pick :: "nat list \<Rightarrow> 64 word \<Rightarrow> nat \<times> 64 word" where
  "pick socks next = (socks ! (unat next mod length socks), next + 1)"

section \<open>The outbox sends what was pushed\<close>

text \<open>The datagrams an outbox holds, and the outboxes that pushing builds.\<close>

definition datagrams :: "'a outbox \<Rightarrow> ('a \<times> string) list" where
  "datagrams ob = cut_msgs (ob_buf ob) 0 (ob_msgs ob)"

definition outbox_of :: "('a \<times> string) list \<Rightarrow> 'a outbox" where
  "outbox_of ds = fold (\<lambda>(dst, c). push_datagram dst c) ds empty_outbox"

lemma cut_msgs_append:
  "cut_msgs buf start (ms @ ns) =
     cut_msgs buf start ms @ cut_msgs buf (if ms = [] then start else snd (last ms)) ns"
  by (induction buf start ms rule: cut_msgs.induct) auto

lemma cut_msgs_longer:
  "start \<le> length buf \<Longrightarrow> (\<And>d e. (d, e) \<in> set ms \<Longrightarrow> e \<le> length buf) \<Longrightarrow>
   cut_msgs (buf @ rest) start ms = cut_msgs buf start ms"
proof (induction buf start ms rule: cut_msgs.induct)
  case (2 buf start dst e ms)
  have e: "e \<le> length buf" using 2(3) by auto
  then have "cut_msgs (buf @ rest) e ms = cut_msgs buf e ms"
    using 2 by auto
  moreover have "take (e - start) (drop start (buf @ rest)) = take (e - start) (drop start buf)"
    using 2(2) e by simp
  ultimately show ?case by simp
qed simp

text \<open>The end offsets stay within the buffer and the last one is its end.\<close>

definition outbox_ok :: "'a outbox \<Rightarrow> bool" where
  "outbox_ok ob \<longleftrightarrow>
     (\<forall>(d, e) \<in> set (ob_msgs ob). e \<le> length (ob_buf ob)) \<and>
     (if ob_msgs ob = [] then ob_buf ob = [] else snd (last (ob_msgs ob)) = length (ob_buf ob))"

lemma outbox_ok_empty [simp]: "outbox_ok empty_outbox"
  by (simp add: outbox_ok_def empty_outbox_def)

lemma datagrams_empty [simp]: "datagrams empty_outbox = []"
  by (simp add: datagrams_def empty_outbox_def)

lemma outbox_ok_push: "outbox_ok ob \<Longrightarrow> outbox_ok (push_datagram d c ob)"
  by (auto simp: outbox_ok_def push_datagram_def Let_def)

lemma datagrams_push:
  assumes "outbox_ok ob"
  shows "datagrams (push_datagram d c ob) = datagrams ob @ [(d, c)]"
proof -
  have "cut_msgs (ob_buf ob @ c) 0 (ob_msgs ob) = cut_msgs (ob_buf ob) 0 (ob_msgs ob)"
    using assms by (intro cut_msgs_longer) (auto simp: outbox_ok_def)
  then show ?thesis
    using assms by (auto simp: datagrams_def push_datagram_def Let_def cut_msgs_append outbox_ok_def split: if_splits)
qed

lemma outbox_of_snoc: "outbox_of (ds @ [(d, c)]) = push_datagram d c (outbox_of ds)"
  by (simp add: outbox_of_def)

lemma outbox_of_ok: "outbox_ok (outbox_of ds) \<and> datagrams (outbox_of ds) = ds"
proof (induction ds rule: rev_induct)
  case Nil
  show ?case by (simp add: outbox_of_def)
next
  case (snoc x ds)
  then show ?case by (cases x) (simp add: outbox_of_snoc outbox_ok_push datagrams_push)
qed

lemma send_batch_sends:
  assumes "case r of None \<Rightarrow> True | Some n \<Rightarrow> n \<le> length (ob_msgs ob)"
  shows "send_batch r ob = (datagrams ob, empty_outbox)"
proof (cases "length (ob_msgs ob) \<le> 1 \<or> r = None \<or> r = Some 0")
  case True
  then show ?thesis
    by (auto simp: send_batch_def sendmmsg_def datagrams_def empty_outbox_def)
next
  case False
  then obtain m where "r = Some (Suc m)" "Suc m \<le> length (ob_msgs ob)" "\<not> length (ob_msgs ob) \<le> 1"
    using assms by (cases r; cases "the r") auto
  then obtain n where n: "r = Some n" "n = Suc m" "n \<le> length (ob_msgs ob)" "\<not> length (ob_msgs ob) \<le> 1"
    by blast
  let ?ms = "ob_msgs ob"
  have len: "length (cut_msgs buf s ms) = length ms" for buf s and ms :: "('a \<times> nat) list"
    by (induction buf s ms rule: cut_msgs.induct) auto
  have ne: "take n ?ms \<noteq> []" using n by (cases ?ms) auto
  have last: "last (take n ?ms) = ?ms ! (n - 1)"
    using n last_conv_nth [OF ne] by (simp add: min_def)
  have whole: "datagrams ob = cut_msgs (ob_buf ob) 0 (take n ?ms) @ cut_msgs (ob_buf ob) (snd (?ms ! (n - 1))) (drop n ?ms)"
    unfolding datagrams_def
    by (subst append_take_drop_id [of n ?ms, symmetric], subst cut_msgs_append) (simp add: last ne del: append_take_drop_id take_eq_Nil take_eq_Nil2)
  have "take n (cut_msgs (ob_buf ob) 0 ?ms) = cut_msgs (ob_buf ob) 0 (take n ?ms)"
    using whole n len [of "ob_buf ob" 0 "take n ?ms"] by (simp add: datagrams_def)
  with n show ?thesis
    by (simp add: send_batch_def sendmmsg_def whole empty_outbox_def)
qed

section \<open>The USERNAME of a STUN message\<close>

text \<open>An attribute as RFC 5389 writes it: type, length, value, padding to four bytes.\<close>

definition be16_of :: "nat \<Rightarrow> string" where
  "be16_of n = [char_of (n div 256), char_of (n mod 256)]"

definition attr_bytes :: "nat \<times> string \<Rightarrow> string" where
  "attr_bytes a =
     (case a of (typ, val) \<Rightarrow>
        be16_of typ @ be16_of (length val) @ val
        @ replicate ((length val + 3) div 4 * 4 - length val) (char_of (0 :: nat)))"

definition stun_message :: "nat \<Rightarrow> string \<Rightarrow> (nat \<times> string) list \<Rightarrow> string" where
  "stun_message kind txid attrs =
     (let body = concat (map attr_bytes attrs)
      in be16_of kind @ be16_of (length body) @ STUN_MAGIC @ txid @ body)"

lemma be16_back:
  assumes "n < 65536"
  shows "be16 (char_of (n div 256)) (char_of (n mod 256)) = n"
proof -
  have "n div 256 < 256" using assms by auto
  then have "of_char (char_of (n div 256)) = n div 256" "of_char (char_of (n mod 256)) = n mod 256"
    by (simp_all add: of_char_of)
  then show ?thesis by (simp add: be16_def)
qed

lemma length_attr: "length (attr_bytes (t, v)) = 4 + (length v + 3) div 4 * 4"
  by (simp add: attr_bytes_def be16_of_def)

text \<open>The loop reads the attribute at its position.\<close>

lemma stun_loop_attr:
  assumes "length pre = i" and t: "t < 65536" and v: "length v < 65536"
  shows "stun_loop (pre @ attr_bytes (t, v) @ rest) i =
    (if t = 6 then map_option (\<lambda>u. hd (split_on (CHR '':'') u)) (from_utf8 v)
     else stun_loop (pre @ attr_bytes (t, v) @ rest) (i + length (attr_bytes (t, v))))"
proof -
  let ?s = "pre @ attr_bytes (t, v) @ rest"
  have i: "i = length pre" using assms by simp
  have nth: "?s ! i = char_of (t div 256)" "?s ! (i + 1) = char_of (t mod 256)"
      "?s ! (i + 2) = char_of (length v div 256)" "?s ! (i + 3) = char_of (length v mod 256)"
    by (simp_all add: i attr_bytes_def be16_of_def nth_append)
  have len: "i + 4 \<le> length ?s" "i + 4 + length v \<le> length ?s"
    by (simp_all add: i length_attr)
  have "take (length v) (drop (i + 4) ?s) = v"
    by (simp add: i attr_bytes_def be16_of_def)
  then have sl: "slice (i + 4) (i + 4 + length v) ?s = Some v"
    using len by (simp add: slice_def)
  have "stun_loop ?s i =
    (if t = 6 then map_option (\<lambda>u. hd (split_on (CHR '':'') u)) (from_utf8 v)
     else stun_loop ?s (i + 4 + (length v + 3) div 4 * 4))"
    unfolding stun_loop.simps [of ?s i] Let_def nth be16_back [OF t] be16_back [OF v] sl
    using len by (simp split: option.split)
  then show ?thesis
    by (simp only: length_attr add.assoc)
qed

lemma stun_loop_end: "length s \<le> i + 3 \<Longrightarrow> stun_loop s i = None"
  by (subst stun_loop.simps) simp

definition find_username :: "(nat \<times> string) list \<Rightarrow> string option" where
  "find_username attrs = Option.bind (map_of attrs 6) (\<lambda>v. map_option (takeWhile (\<lambda>c. c \<noteq> CHR '':'')) (from_utf8 v))"

lemma hd_split_on: "hd (split_on c s) = takeWhile (\<lambda>x. x \<noteq> c) s"
  unfolding split_on_def by (induction s) (auto split: list.splits)

lemma stun_loop_attrs:
  "\<forall>(t, v) \<in> set attrs. t < 65536 \<and> length v < 65536 \<Longrightarrow>
   stun_loop (pre @ concat (map attr_bytes attrs)) (length pre) = find_username attrs"
proof (induction attrs arbitrary: pre)
  case Nil
  show ?case by (simp add: stun_loop_end find_username_def)
next
  case (Cons a attrs)
  obtain t v where a: "a = (t, v)" by (cases a)
  have next_one: "stun_loop ((pre @ attr_bytes (t, v)) @ concat (map attr_bytes attrs)) (length (pre @ attr_bytes (t, v)))
      = find_username attrs"
    using Cons.prems by (intro Cons.IH) simp
  have "stun_loop (pre @ attr_bytes (t, v) @ concat (map attr_bytes attrs)) (length pre) =
      (if t = 6 then map_option (\<lambda>u. hd (split_on (CHR '':'') u)) (from_utf8 v) else find_username attrs)"
    using Cons.prems next_one by (subst stun_loop_attr) (simp_all add: a)
  then show ?case
    by (simp add: a find_username_def hd_split_on)
qed

lemma small_bits: "n < 64 \<Longrightarrow> and n 192 = (0 :: nat)"
proof -
  assume n: "n < 64"
  have "bit (and n (push_bit 6 3)) k = False" for k
  proof (cases "6 \<le> k")
    case True
    then have "(2 :: nat) ^ 6 \<le> 2 ^ k" by (intro power_increasing) auto
    then have "\<not> bit n k" using n by (simp add: bit_iff_odd)
    then show ?thesis by (simp add: bit_and_iff)
  next
    case False
    then show ?thesis unfolding bit_and_iff bit_push_bit_iff by blast
  qed
  then have "and n (push_bit 6 3) = 0" by (simp add: bit_eq_iff)
  then show ?thesis by (simp add: push_bit_eq_mult)
qed

text \<open>
  The ufrag of a STUN request is the part before the first colon of its first USERNAME
  attribute, wherever that stands among the attributes; with no USERNAME, or one that is not
  UTF-8, there is none.
\<close>

theorem stun_username_found:
  assumes "kind < 16384" and "length txid = 12"
    and "\<forall>(t, v) \<in> set attrs. t < 65536 \<and> length v < 65536"
    and "length (concat (map attr_bytes attrs)) < 65536"
  shows "stun_local_ufrag (stun_message kind txid attrs) = find_username attrs"
proof -
  let ?body = "concat (map attr_bytes attrs)"
  let ?b = "stun_message kind txid attrs"
  have k: "kind div 256 < 64" using assms(1) by auto
  then have "of_char (char_of (kind div 256)) = kind div 256" by (simp add: of_char_of)
  with k have small: "and (byte_of (?b ! 0)) 0xC0 = (0 :: nat)"
    by (simp add: stun_message_def be16_of_def Let_def small_bits)
  have len: "length ?b = 20 + length ?body"
    using assms(2) by (simp add: stun_message_def be16_of_def STUN_MAGIC_def ascii_def Let_def)
  have magic: "take 4 (drop 4 ?b) = STUN_MAGIC"
    by (simp add: stun_message_def be16_of_def STUN_MAGIC_def ascii_def Let_def)
  have size: "be16 (?b ! 2) (?b ! 3) = length ?body"
    by (simp add: stun_message_def be16_of_def Let_def be16_back [OF assms(4), simplified])
  have "drop 20 ?b = ?body"
    using assms(2) by (simp add: stun_message_def be16_of_def STUN_MAGIC_def ascii_def Let_def)
  then have body: "slice 20 (20 + length ?body) ?b = Some ?body"
    by (simp add: slice_def len)
  have "stun_local_ufrag ?b = stun_loop ?body 0"
    unfolding stun_local_ufrag_def Let_def size body using small magic len by simp
  also have "\<dots> = find_username attrs"
    using stun_loop_attrs [OF assms(3), of "[]"] by simp
  finally show ?thesis .
qed

theorem stun_username_found_witness:
  "stun_local_ufrag (stun_message 1 (replicate 12 (CHR ''x'')) [(36, ''abc''), (6, ''abcd:efgh'')]) = Some ''abcd''"
proof -
  have "stun_local_ufrag (stun_message 1 (replicate 12 (CHR ''x'')) [(36, ''abc''), (6, ''abcd:efgh'')])
      = find_username [(36, ''abc''), (6, ''abcd:efgh'')]"
    by (rule stun_username_found) (simp_all add: attr_bytes_def be16_of_def)
  also have "\<dots> = Some ''abcd''"
    by code_simp
  finally show ?thesis .
qed

text \<open>
  C26. Whatever number of datagrams \<open>sendmmsg\<close> takes, a flush hands each datagram to the socket
  exactly once, whole, to its own destination and in the order str0m produced them, and leaves the
  outbox empty.
\<close>

theorem flush_sends_everything:
  assumes "case r of None \<Rightarrow> True | Some n \<Rightarrow> n \<le> length ds"
  shows "send_batch r (fold (\<lambda>(dst, c). push_datagram dst c) ds empty_outbox) = (ds, empty_outbox)"
proof -
  have len: "length (cut_msgs buf s ms) = length ms" for buf s and ms :: "('a \<times> nat) list"
    by (induction buf s ms rule: cut_msgs.induct) auto
  have ds: "datagrams (outbox_of ds) = ds" by (simp add: outbox_of_ok)
  then have "length (ob_msgs (outbox_of ds)) = length ds"
    using len unfolding datagrams_def by metis
  with assms have "send_batch r (outbox_of ds) = (datagrams (outbox_of ds), empty_outbox)"
    by (intro send_batch_sends) (simp split: option.splits)
  then show ?thesis
    unfolding ds by (simp add: outbox_of_def)
qed

theorem flush_sends_everything_witness:
  "send_batch (Some 2) (fold (\<lambda>(dst, c). push_datagram dst c)
      [(1 :: nat, ''one''), (2, ''two!''), (1, ''three'')] empty_outbox)
   = ([(1, ''one''), (2, ''two!''), (1, ''three'')], empty_outbox)"
  by (rule flush_sends_everything) simp

text \<open>Binding gives between 1 and 16 sockets or an error, and picking stays among them.\<close>

lemma bind_ports_bound:
  "bind_ports bp want any ps socks = Inr out \<Longrightarrow> length socks \<le> want \<Longrightarrow> length out \<le> want"
  by (induction bp want any ps socks rule: bind_ports.induct) (auto split: if_splits sum.splits)

lemma mux_bind_bounds:
  assumes "mux_bind bp cores lo hi = Inr socks"
  shows "socks \<noteq> [] \<and> length socks \<le> MAX_SOCKETS \<and> fst (pick socks n) \<in> set socks"
proof -
  have ne: "socks \<noteq> []"
    using assms by (auto simp: mux_bind_def Let_def split: sum.splits if_splits)
  define want where "want = min MAX_SOCKETS (max 1 (case cores of None \<Rightarrow> 4 | Some n \<Rightarrow> n))"
  have "bind_ports bp want (lo = 0) (if lo = 0 then [0] else [lo..<hi + 1]) [] = Inr socks"
    using assms unfolding mux_bind_def Let_def want_def [symmetric]
    by (cases "bind_ports bp want (lo = 0) (if lo = 0 then [0] else [lo..<hi + 1]) []")
      (simp_all del: upt_Suc split: if_split_asm)
  then have "length socks \<le> want"
    by (rule bind_ports_bound) simp
  then have "length socks \<le> MAX_SOCKETS"
    by (simp add: want_def)
  with ne show ?thesis by (simp add: pick_def)
qed

end
