(* ===== verification/Mux.thy ===== *)
theory Mux
  imports Stun Config
begin

text \<open>
  \<open>backend/src/sfu/net.rs\<close>, the state: a socket that routes datagrams to the PeerConnections
  (\<open>MuxSocket\<close>), and the driver around each connection (\<open>Pc\<close>). The WebRTC engine str0m is a
  parameter: a state type \<open>'r\<close> with the record \<open>rtc_api\<close> of the calls the driver makes; \<open>'e\<close> is
  what its events carry. A \<open>Weak\<close> pointer is the id of a connection, and upgrading it finds the
  connection among those not dropped. Each call of a driver method is one step: the lock
  \<open>dispatch\<close> of a connection is held throughout, and the handler's reactions are steps of their
  own (\<open>write\<close> into other connections).
\<close>

section \<open>The engine as a parameter\<close>

datatype sock_addr = SockAddr ip "16 word"

datatype ice_state = IceNew | IceChecking | IceConnected | IceCompleted | IceDisconnected

datatype 'e rtc_event = IceChange ice_state | RtcEvent 'e

datatype 'e rtc_output = Transmit sock_addr string | Timeout instant | Output "'e rtc_event"

text \<open>
  \<open>rx_receive\<close>: None when the datagram is of no kind the engine reads; otherwise whether the
  input was accepted and the next state, with a panic inside the engine as \<open>Inl\<close>.
\<close>

record ('r, 'e) rtc_api =
  rx_alive :: "'r \<Rightarrow> bool"
  rx_poll :: "'r \<Rightarrow> (string + 'e rtc_output) \<times> 'r"
  rx_timeout :: "instant \<Rightarrow> 'r \<Rightarrow> bool \<times> 'r"
  rx_receive :: "instant \<Rightarrow> sock_addr \<Rightarrow> sock_addr \<Rightarrow> string \<Rightarrow> 'r \<Rightarrow> ('r + bool \<times> 'r) option"
  rx_disconnect :: "'r \<Rightarrow> 'r"
  rx_ufrag :: "'r \<Rightarrow> string"

section \<open>State\<close>

definition ICE_FAIL_AFTER :: duration where "ICE_FAIL_AFTER = secs 30"
definition WATCHDOG :: duration where "WATCHDOG = secs 1"

text \<open>\<open>Pc\<close> with its \<open>RtcState\<close>. \<open>pc_handler\<close>: the handler still exists; \<open>pc_notified\<close>: the timer's permit.\<close>

record ('r, 'e) pc =
  pc_rtc :: 'r
  pc_events :: "'e rtc_event list"
  pc_remotes :: "sock_addr list"
  pc_out :: "sock_addr outbox"
  pc_unhealthy_since :: "instant option"
  pc_handler :: bool
  pc_notified :: bool
  pc_deadline :: "64 word"
  pc_epoch :: instant
  pc_closed :: bool
  pc_ufrag :: string

datatype 'e pc_call = OnEvent "'e rtc_event" | OnClosed

record ('r, 'e) mux_socket =
  mx_public_addr :: sock_addr
  mx_routes :: "(sock_addr, nat) hashmap"
  mx_ufrags :: "(string, nat) hashmap"
  mx_pcs :: "(nat, ('r, 'e) pc) hashmap"
  mx_next_id :: nat
  mx_wire :: "(sock_addr \<times> string) list"
  mx_calls :: "(nat \<times> 'e pc_call) list"

definition set_pc :: "nat \<Rightarrow> ('r, 'e) pc \<Rightarrow> ('r, 'e) mux_socket \<Rightarrow> ('r, 'e) mux_socket" where
  "set_pc i p m = m\<lparr>mx_pcs := hput i p (mx_pcs m)\<rparr>"

section \<open>The driver of one connection\<close>

definition notify_if :: "bool \<Rightarrow> ('r, 'e) pc \<Rightarrow> ('r, 'e) pc" where
  "notify_if c p = (if c then p\<lparr>pc_notified := True\<rparr> else p)"

text \<open>The three kinds of output. A new destination is remembered and routed to this connection.\<close>

definition on_transmit ::
  "nat \<Rightarrow> sock_addr \<Rightarrow> string \<Rightarrow> ('r, 'e) pc \<times> (sock_addr, nat) hashmap \<Rightarrow> ('r, 'e) pc \<times> (sock_addr, nat) hashmap" where
  "on_transmit i dst contents = (\<lambda>(p, routes).
     (let (p1, routes1) = (if dst \<notin> set (pc_remotes p)
                           then (p\<lparr>pc_remotes := pc_remotes p @ [dst]\<rparr>, hput dst i routes)
                           else (p, routes))
      in (p1\<lparr>pc_out := push_datagram dst contents (pc_out p1)\<rparr>, routes1)))"

definition on_timeout :: "instant \<Rightarrow> ('r, 'e) pc \<Rightarrow> ('r, 'e) pc" where
  "on_timeout t p =
     (let ns = word_of_nat (t - pc_epoch p); prev = pc_deadline p
      in notify_if (ns < prev \<or> prev = 0) (p\<lparr>pc_deadline := ns\<rparr>))"

definition on_output_event :: "instant \<Rightarrow> 'e rtc_event \<Rightarrow> ('r, 'e) pc \<Rightarrow> ('r, 'e) pc" where
  "on_output_event now ev p =
     (let p1 = (case ev of
                  IceChange s \<Rightarrow>
                    p\<lparr>pc_unhealthy_since :=
                        (if s = IceConnected \<or> s = IceCompleted then None
                         else case pc_unhealthy_since p of None \<Rightarrow> Some now | Some t \<Rightarrow> Some t)\<rparr>
                | RtcEvent _ \<Rightarrow> p)
      in p1\<lparr>pc_events := pc_events p1 @ [ev]\<rparr>)"

partial_function (option) poll ::
  "('r, 'e) rtc_api \<Rightarrow> nat \<Rightarrow> instant \<Rightarrow> ('r, 'e) pc \<times> (sock_addr, nat) hashmap
    \<Rightarrow> (('r, 'e) pc \<times> (sock_addr, nat) hashmap) option" where
  "poll x i now st =
     (if \<not> rx_alive x (pc_rtc (fst st)) then Some st
      else let (out, r) = rx_poll x (pc_rtc (fst st)); st1 = apfst (\<lambda>p. p\<lparr>pc_rtc := r\<rparr>) st
           in case out of
                Inl _ \<Rightarrow> Some (apfst (\<lambda>p. p\<lparr>pc_rtc := rx_disconnect x (pc_rtc p)\<rparr>) st1)
              | Inr (Timeout t) \<Rightarrow> Some (apfst (on_timeout t) st1)
              | Inr (Transmit dst contents) \<Rightarrow> poll x i now (on_transmit i dst contents st1)
              | Inr (Output ev) \<Rightarrow> poll x i now (apfst (on_output_event now ev) st1))"

text \<open>\<open>unregister\<close>: the routes that still point here and the ufrag are removed, the remotes forgotten.\<close>

definition drop_route :: "nat \<Rightarrow> sock_addr \<Rightarrow> (sock_addr, nat) hashmap \<Rightarrow> (sock_addr, nat) hashmap" where
  "drop_route i a routes = (if hget routes a = Some i then hdel a routes else routes)"

definition unregister :: "nat \<Rightarrow> ('r, 'e) pc \<Rightarrow> ('r, 'e) mux_socket \<Rightarrow> ('r, 'e) pc \<times> ('r, 'e) mux_socket" where
  "unregister i p m =
     (p\<lparr>pc_remotes := []\<rparr>,
      m\<lparr>mx_routes := fold (drop_route i) (pc_remotes p) (mx_routes m), mx_ufrags := hdel (pc_ufrag p) (mx_ufrags m)\<rparr>)"

definition is_dead :: "('r, 'e) rtc_api \<Rightarrow> instant \<Rightarrow> ('r, 'e) pc \<Rightarrow> bool" where
  "is_dead x now p \<longleftrightarrow>
     \<not> rx_alive x (pc_rtc p) \<or>
     (case pc_unhealthy_since p of None \<Rightarrow> False | Some t \<Rightarrow> ICE_FAIL_AFTER \<le> now - t)"

definition deliver :: "('r, 'e) rtc_api \<Rightarrow> instant \<Rightarrow> nat \<Rightarrow> ('r, 'e) pc \<Rightarrow> ('r, 'e) mux_socket \<Rightarrow> ('r, 'e) mux_socket" where
  "deliver x now i p m =
     (if \<not> pc_handler p then set_pc i p m
      else let m1 = m\<lparr>mx_calls := mx_calls m @ map (\<lambda>ev. (i, OnEvent ev)) (pc_events p)\<rparr>;
               p1 = p\<lparr>pc_events := []\<rparr>
           in if is_dead x now p1 \<and> \<not> pc_closed p1
              then let (p2, m2) = unregister i (p1\<lparr>pc_closed := True\<rparr>) m1
                   in set_pc i (p2\<lparr>pc_notified := True\<rparr>) (m2\<lparr>mx_calls := mx_calls m2 @ [(i, OnClosed)]\<rparr>)
              else set_pc i p1 m1)"

text \<open>
  \<open>with\<close>: the closure on the engine, then \<open>flush\<close> (poll and send; \<open>sent\<close> is what \<open>sendmmsg\<close>
  takes) and \<open>deliver\<close>.
\<close>

definition with_rtc ::
  "('r, 'e) rtc_api \<Rightarrow> instant \<Rightarrow> nat option \<Rightarrow> nat \<Rightarrow> ('r \<Rightarrow> 'r) \<Rightarrow> ('r, 'e) pc \<Rightarrow> ('r, 'e) mux_socket
    \<Rightarrow> ('r, 'e) mux_socket option" where
  "with_rtc x now sent i f p m =
     (case poll x i now (p\<lparr>pc_rtc := f (pc_rtc p)\<rparr>, mx_routes m) of
        None \<Rightarrow> None
      | Some (p1, routes) \<Rightarrow>
          let (ds, ob) = send_batch sent (pc_out p1)
          in Some (deliver x now i (p1\<lparr>pc_out := ob\<rparr>) (m\<lparr>mx_routes := routes, mx_wire := mx_wire m @ ds\<rparr>)))"

definition close ::
  "('r, 'e) rtc_api \<Rightarrow> instant \<Rightarrow> nat option \<Rightarrow> nat \<Rightarrow> ('r, 'e) pc \<Rightarrow> ('r, 'e) mux_socket \<Rightarrow> ('r, 'e) mux_socket option" where
  "close x now sent i p m = (if pc_closed p then Some m else with_rtc x now sent i (rx_disconnect x) p m)"

text \<open>\<open>Input::Timeout\<close> or \<open>Input::Receive\<close> that the engine refuses disconnects it.\<close>

definition accept_or_disconnect :: "('r, 'e) rtc_api \<Rightarrow> bool \<times> 'r \<Rightarrow> 'r" where
  "accept_or_disconnect x res = (if fst res then snd res else rx_disconnect x (snd res))"

definition receive ::
  "('r, 'e) rtc_api \<Rightarrow> instant \<Rightarrow> nat option \<Rightarrow> nat \<Rightarrow> sock_addr \<Rightarrow> string \<Rightarrow> ('r, 'e) pc \<Rightarrow> ('r, 'e) mux_socket
    \<Rightarrow> ('r, 'e) mux_socket option" where
  "receive x now sent i src data p m =
     (case rx_receive x now src (mx_public_addr m) data (pc_rtc p) of
        None \<Rightarrow> Some m
      | Some (Inl r) \<Rightarrow> close x now sent i (p\<lparr>pc_rtc := r\<rparr>) (set_pc i (p\<lparr>pc_rtc := r\<rparr>) m)
      | Some (Inr res) \<Rightarrow> with_rtc x now sent i (\<lambda>_. accept_or_disconnect x res) p m)"

text \<open>\<open>write\<close>: into another connection, with its output left to its timer.\<close>

definition write_rtc :: "instant \<Rightarrow> ('r \<Rightarrow> 'r) \<Rightarrow> ('r, 'e) pc \<Rightarrow> ('r, 'e) pc" where
  "write_rtc now f p =
     (if pc_closed p then p
      else let p1 = p\<lparr>pc_rtc := f (pc_rtc p)\<rparr>;
               ns = max (word_of_nat (now - pc_epoch p)) 1; prev = pc_deadline p
           in if prev = 0 \<or> ns < prev then notify_if True (p1\<lparr>pc_deadline := ns\<rparr>) else p1)"

definition refresh_ufrag :: "('r, 'e) rtc_api \<Rightarrow> nat \<Rightarrow> ('r, 'e) pc \<Rightarrow> ('r, 'e) mux_socket \<Rightarrow> ('r, 'e) mux_socket" where
  "refresh_ufrag x i p m =
     (let current = rx_ufrag x (pc_rtc p)
      in if pc_ufrag p \<noteq> current
         then set_pc i (p\<lparr>pc_ufrag := current\<rparr>)
                (m\<lparr>mx_ufrags := hput current i (hdel (pc_ufrag p) (mx_ufrags m))\<rparr>)
         else m)"

text \<open>\<open>timer_loop\<close>: when it wakes next, and what it does then.\<close>

definition timer_at :: "instant \<Rightarrow> ('r, 'e) pc \<Rightarrow> instant" where
  "timer_at now p =
     (if pc_deadline p = 0 then now + WATCHDOG
      else min (pc_epoch p + unat (pc_deadline p)) (now + WATCHDOG))"

definition timer_fires ::
  "('r, 'e) rtc_api \<Rightarrow> instant \<Rightarrow> nat option \<Rightarrow> nat \<Rightarrow> ('r, 'e) pc \<Rightarrow> ('r, 'e) mux_socket \<Rightarrow> ('r, 'e) mux_socket option" where
  "timer_fires x now sent i p m =
     (if pc_closed p then Some m
      else with_rtc x now sent i (\<lambda>r. accept_or_disconnect x (rx_timeout x now r)) (p\<lparr>pc_notified := False\<rparr>) m)"

section \<open>The socket\<close>

definition spawn :: "instant \<Rightarrow> 'r \<Rightarrow> string \<Rightarrow> ('r, 'e) mux_socket \<Rightarrow> ('r, 'e) mux_socket" where
  "spawn now rtc ufrag m =
     (let i = mx_next_id m;
          p = \<lparr>pc_rtc = rtc, pc_events = [], pc_remotes = [], pc_out = empty_outbox, pc_unhealthy_since = Some now,
               pc_handler = True, pc_notified = False, pc_deadline = 0, pc_epoch = now, pc_closed = False, pc_ufrag = ufrag\<rparr>
      in set_pc i p (m\<lparr>mx_next_id := i + 1, mx_ufrags := hput ufrag i (mx_ufrags m)\<rparr>))"

definition learn :: "sock_addr \<Rightarrow> nat \<Rightarrow> ('r, 'e) pc \<Rightarrow> ('r, 'e) mux_socket \<Rightarrow> ('r, 'e) pc \<times> ('r, 'e) mux_socket" where
  "learn src i p m =
     (if hget (mx_routes m) src = Some i then (p, m)
      else (let p1 = p\<lparr>pc_remotes := pc_remotes p @ [src]\<rparr>
            in (p1, set_pc i p1 (m\<lparr>mx_routes := hput src i (mx_routes m)\<rparr>))))"

definition upgrade :: "('r, 'e) mux_socket \<Rightarrow> nat option \<Rightarrow> (nat \<times> ('r, 'e) pc) option" where
  "upgrade m w = Option.bind w (\<lambda>i. map_option (\<lambda>p. (i, p)) (hget (mx_pcs m) i))"

text \<open>One turn of \<open>recv_loop\<close>: by the ufrag of a STUN request, otherwise by the source address.\<close>

definition recv_datagram ::
  "('r, 'e) rtc_api \<Rightarrow> instant \<Rightarrow> nat option \<Rightarrow> sock_addr \<Rightarrow> string \<Rightarrow> ('r, 'e) mux_socket \<Rightarrow> ('r, 'e) mux_socket option" where
  "recv_datagram x now sent src data m =
     (case upgrade m (Option.bind (stun_local_ufrag data) (hget (mx_ufrags m))) of
        Some (i, p) \<Rightarrow> (let (p1, m1) = learn src i p m in receive x now sent i src data p1 m1)
      | None \<Rightarrow>
          (case upgrade m (hget (mx_routes m) src) of
             Some (i, p) \<Rightarrow> receive x now sent i src data p m
           | None \<Rightarrow> Some m))"

text \<open>The last \<open>Arc\<close> of a connection goes: \<open>Drop\<close> unregisters it.\<close>

definition drop_pc :: "nat \<Rightarrow> ('r, 'e) pc \<Rightarrow> ('r, 'e) mux_socket \<Rightarrow> ('r, 'e) mux_socket" where
  "drop_pc i p m = (let (_, m1) = unregister i p m in m1\<lparr>mx_pcs := hdel i (mx_pcs m1)\<rparr>)"

section \<open>Runs\<close>

datatype 'r mux_event =
    Spawn 'r string
  | Datagram sock_addr string
  | With nat "'r \<Rightarrow> 'r"
  | Write nat "'r \<Rightarrow> 'r"
  | RefreshUfrag nat
  | Close nat
  | TimerFires nat
  | HandlerGone nat
  | DropPc nat

text \<open>What is done to a connection needs it to exist still.\<close>

definition on_pc :: "nat \<Rightarrow> (('r, 'e) pc \<Rightarrow> ('r, 'e) mux_socket option) \<Rightarrow> ('r, 'e) mux_socket \<Rightarrow> ('r, 'e) mux_socket option" where
  "on_pc i f m = (case hget (mx_pcs m) i of None \<Rightarrow> Some m | Some p \<Rightarrow> f p)"

fun mux_step ::
  "('r, 'e) rtc_api \<Rightarrow> instant \<Rightarrow> nat option \<Rightarrow> 'r mux_event \<Rightarrow> ('r, 'e) mux_socket \<Rightarrow> ('r, 'e) mux_socket option" where
  "mux_step x now sent (Spawn r u) m = Some (spawn now r u m)"
| "mux_step x now sent (Datagram src data) m = recv_datagram x now sent src data m"
| "mux_step x now sent (With i f) m = on_pc i (\<lambda>p. with_rtc x now sent i f p m) m"
| "mux_step x now sent (Write i f) m = on_pc i (\<lambda>p. Some (set_pc i (write_rtc now f p) m)) m"
| "mux_step x now sent (RefreshUfrag i) m = on_pc i (\<lambda>p. Some (refresh_ufrag x i p m)) m"
| "mux_step x now sent (Close i) m = on_pc i (\<lambda>p. close x now sent i p m) m"
| "mux_step x now sent (TimerFires i) m = on_pc i (\<lambda>p. timer_fires x now sent i p m) m"
| "mux_step x now sent (HandlerGone i) m = on_pc i (\<lambda>p. Some (set_pc i (p\<lparr>pc_handler := False\<rparr>) m)) m"
| "mux_step x now sent (DropPc i) m = on_pc i (\<lambda>p. Some (drop_pc i p m)) m"

fun mux_run ::
  "('r, 'e) rtc_api \<Rightarrow> (instant \<times> nat option \<times> 'r mux_event) list \<Rightarrow> ('r, 'e) mux_socket \<Rightarrow> ('r, 'e) mux_socket option" where
  "mux_run x [] m = Some m"
| "mux_run x ((now, sent, ev) # es) m = Option.bind (mux_step x now sent ev m) (mux_run x es)"

definition new_socket :: "sock_addr \<Rightarrow> ('r, 'e) mux_socket" where
  "new_socket a =
     \<lparr>mx_public_addr = a, mx_routes = [], mx_ufrags = [], mx_pcs = [], mx_next_id = 1, mx_wire = [], mx_calls = []\<rparr>"

section \<open>Polling ends\<close>

text \<open>
  str0m's contract of \<open>poll_output\<close>: called again and again it comes to a timeout. As a rank that
  every datagram and every event it gives out lowers.
\<close>

definition polls_end :: "('r, 'e) rtc_api \<Rightarrow> bool" where
  "polls_end x \<longleftrightarrow>
     (\<exists>rank :: 'r \<Rightarrow> nat. \<forall>r out r'. rx_alive x r \<and> rx_poll x r = (Inr out, r') \<and> (\<forall>t. out \<noteq> Timeout t) \<longrightarrow> rank r' < rank r)"

lemma pc_rtc_on_output [simp]:
  "pc_rtc (fst (on_transmit i dst c st)) = pc_rtc (fst st)"
  "pc_rtc (on_output_event now ev p) = pc_rtc p"
  by (simp_all add: on_transmit_def on_output_event_def Let_def split: rtc_event.split prod.split)

lemma poll_total:
  assumes "polls_end x"
  shows "\<exists>st'. poll x i now st = Some st'"
proof -
  obtain rank :: "'a \<Rightarrow> nat" where
    rank: "\<And>r out r'. rx_alive x r \<Longrightarrow> rx_poll x r = (Inr out, r') \<Longrightarrow> \<forall>t. out \<noteq> Timeout t \<Longrightarrow> rank r' < rank r"
    using assms unfolding polls_end_def by blast
  show ?thesis
  proof (induction "rank (pc_rtc (fst st))" arbitrary: st rule: less_induct)
    case less
    let ?r = "pc_rtc (fst st)"
    obtain out r' where o: "rx_poll x ?r = (out, r')" by (cases "rx_poll x ?r")
    show ?case
    proof (cases "rx_alive x ?r")
      case False
      then show ?thesis by (simp add: poll.simps [of x i now st])
    next
      case alive: True
      note simps = poll.simps [of x i now st] alive o
      have "\<exists>st'. poll x i now st1 = Some st'" if "out = Inr y" "\<forall>t. y \<noteq> Timeout t" "pc_rtc (fst st1) = r'" for y st1
        using less [of st1] rank [OF alive, of y r'] o that by simp
      note again = this
      let ?st = "apfst (\<lambda>p. p\<lparr>pc_rtc := r'\<rparr>) st"
      show ?thesis
      proof (cases out)
        case (Inr y)
        show ?thesis
        proof (cases y)
          case (Transmit d c)
          with Inr show ?thesis
            using again [of y "on_transmit i d c ?st"] by (simp add: simps Let_def)
        next
          case (Timeout t)
          with Inr show ?thesis by (simp add: simps Let_def)
        next
          case (Output ev)
          with Inr show ?thesis
            using again [of y "apfst (on_output_event now ev) ?st"] by (simp add: simps Let_def)
        qed
      qed (simp add: simps Let_def)
    qed
  qed
qed

lemma with_rtc_total: "polls_end x \<Longrightarrow> \<exists>m'. with_rtc x now sent i f p m = Some m'"
  using poll_total [of x i now "(p\<lparr>pc_rtc := f (pc_rtc p)\<rparr>, mx_routes m)"]
  by (auto simp: with_rtc_def split: prod.split)

lemma receive_total: "polls_end x \<Longrightarrow> \<exists>m'. receive x now sent i src data p m = Some m'"
  by (auto simp: receive_def close_def with_rtc_total split: option.split sum.split)

lemma mux_step_total: "polls_end x \<Longrightarrow> \<exists>m'. mux_step x now sent ev m = Some m'"
  by (cases ev)
    (auto simp: on_pc_def with_rtc_total close_def timer_fires_def recv_datagram_def receive_total
      split: option.split prod.split)

section \<open>Routes point at connections that can take them back\<close>

definition routes_live :: "(sock_addr, nat) hashmap \<Rightarrow> (nat, ('r, 'e) pc) hashmap \<Rightarrow> bool" where
  "routes_live routes pcs \<longleftrightarrow>
     (\<forall>a i. hget routes a = Some i \<longrightarrow> (\<exists>p. hget pcs i = Some p \<and> a \<in> set (pc_remotes p)))"

definition ufrags_live :: "(string, nat) hashmap \<Rightarrow> (nat, ('r, 'e) pc) hashmap \<Rightarrow> bool" where
  "ufrags_live ufrags pcs \<longleftrightarrow>
     (\<forall>u i. hget ufrags u = Some i \<longrightarrow> (\<exists>p. hget pcs i = Some p \<and> pc_ufrag p = u))"

definition closes :: "(nat \<times> 'e pc_call) list \<Rightarrow> nat \<Rightarrow> nat" where
  "closes calls i = count_list calls (i, OnClosed)"

definition closed_once :: "(nat \<times> 'e pc_call) list \<Rightarrow> nat \<Rightarrow> (nat, ('r, 'e) pc) hashmap \<Rightarrow> bool" where
  "closed_once calls n pcs \<longleftrightarrow>
     (\<forall>i. closes calls i \<le> 1) \<and> (\<forall>i \<ge> n. closes calls i = 0) \<and>
     (\<forall>i p. hget pcs i = Some p \<longrightarrow> i < n \<and> (closes calls i = 1) = pc_closed p)"

definition mux_inv :: "('r, 'e) mux_socket \<Rightarrow> bool" where
  "mux_inv m \<longleftrightarrow>
     routes_live (mx_routes m) (mx_pcs m) \<and> ufrags_live (mx_ufrags m) (mx_pcs m) \<and>
     closed_once (mx_calls m) (mx_next_id m) (mx_pcs m)"

lemma routes_live_put:
  "routes_live routes (hput i p pcs) \<longleftrightarrow>
     (\<forall>a j. hget routes a = Some j \<longrightarrow>
        (if j = i then a \<in> set (pc_remotes p) else \<exists>q. hget pcs j = Some q \<and> a \<in> set (pc_remotes q)))"
  by (auto simp: routes_live_def hashmap_simps)

lemma ufrags_live_put:
  "ufrags_live ufrags (hput i p pcs) \<longleftrightarrow>
     (\<forall>u j. hget ufrags u = Some j \<longrightarrow>
        (if j = i then pc_ufrag p = u else \<exists>q. hget pcs j = Some q \<and> pc_ufrag q = u))"
  by (auto simp: ufrags_live_def hashmap_simps)

lemma closed_once_put:
  "hget pcs i \<noteq> None \<or> i < n \<Longrightarrow> closed_once calls n (hput i p pcs) \<longleftrightarrow>
     (\<forall>j. closes calls j \<le> 1) \<and> (\<forall>j \<ge> n. closes calls j = 0) \<and> i < n \<and> (closes calls i = 1) = pc_closed p \<and>
     (\<forall>j q. j \<noteq> i \<longrightarrow> hget pcs j = Some q \<longrightarrow> j < n \<and> (closes calls j = 1) = pc_closed q)"
  by (auto simp: closed_once_def hashmap_simps)

text \<open>Only the remotes, the ufrag and the closed flag of a connection matter.\<close>

definition same_marks :: "('r, 'e) pc \<Rightarrow> ('r, 'e) pc \<Rightarrow> bool" where
  "same_marks p q \<longleftrightarrow> pc_remotes p = pc_remotes q \<and> pc_ufrag p = pc_ufrag q \<and> pc_closed p = pc_closed q"

lemma same_marks_inv:
  "same_marks p q \<Longrightarrow> mux_inv (set_pc i p m) \<Longrightarrow> mux_inv (set_pc i q m)"
  by (simp add: mux_inv_def set_pc_def routes_live_put ufrags_live_put closed_once_def hashmap_simps same_marks_def)
    (metis option.inject)

lemma set_pc_same:
  assumes "mux_inv m" and "hget (mx_pcs m) i = Some p"
  shows "mux_inv (set_pc i p m)"
proof -
  have "hget (hput i p (mx_pcs m)) = hget (mx_pcs m)"
    using assms(2) by (simp add: fun_eq_iff hashmap_simps)
  with assms(1) show ?thesis
    by (simp add: mux_inv_def set_pc_def routes_live_def ufrags_live_def closed_once_def)
qed

lemma routed_inv:
  assumes "mux_inv (set_pc i p (m\<lparr>mx_routes := routes\<rparr>))"
  shows "mux_inv (set_pc i (p\<lparr>pc_remotes := pc_remotes p @ [a]\<rparr>) (m\<lparr>mx_routes := hput a i routes\<rparr>))"
  using assms
  by (auto simp: mux_inv_def set_pc_def routes_live_put ufrags_live_put closed_once_def hashmap_simps split: if_splits)

lemma on_transmit_inv:
  assumes "mux_inv (set_pc i (fst st) (m\<lparr>mx_routes := snd st\<rparr>))"
  shows "mux_inv (set_pc i (fst (on_transmit i d c st)) (m\<lparr>mx_routes := snd (on_transmit i d c st)\<rparr>))"
proof (cases st)
  case (Pair p routes)
  let ?p = "if d \<notin> set (pc_remotes p) then p\<lparr>pc_remotes := pc_remotes p @ [d]\<rparr> else p"
  let ?r = "if d \<notin> set (pc_remotes p) then hput d i routes else routes"
  have inv: "mux_inv (set_pc i ?p (m\<lparr>mx_routes := ?r\<rparr>))"
    using assms routed_inv [where i = i and p = p and m = m and routes = routes and a = d] by (simp add: Pair)
  have marks: "same_marks ?p (fst (on_transmit i d c st))" and eq: "snd (on_transmit i d c st) = ?r"
    by (simp_all add: Pair on_transmit_def same_marks_def)
  show ?thesis
    unfolding eq by (rule same_marks_inv [OF marks inv])
qed

text \<open>What a poll keeps: shown once for every property that the three kinds of output keep.\<close>

lemma poll_induct:
  assumes "poll x i now st = Some st'" and "P st"
    and rtc: "\<And>st r. P st \<Longrightarrow> P (apfst (\<lambda>p. p\<lparr>pc_rtc := r\<rparr>) st)"
    and transmit: "\<And>st d c. P st \<Longrightarrow> P (on_transmit i d c st)"
    and timeout: "\<And>st t. P st \<Longrightarrow> P (apfst (on_timeout t) st)"
    and event: "\<And>st ev. P st \<Longrightarrow> P (apfst (on_output_event now ev) st)"
  shows "P st'"
proof -
  define Q where "Q = (\<lambda>(y :: ('a, 'b) rtc_api) j n (st :: ('a, 'b) pc \<times> (sock_addr, nat) hashmap) st'.
      y = x \<and> j = i \<and> n = now \<longrightarrow> P st \<longrightarrow> P st')"
  have "Q x i now st st'"
  proof (rule poll.raw_induct [where P = Q and xa = "(((x, i), now), st)" and y = st', unfolded prod.case, rotated])
    show "poll x i now st = Some st'" by (rule assms(1))
  next
    fix f :: "('a, 'b) rtc_api \<Rightarrow> nat \<Rightarrow> instant \<Rightarrow> ('a, 'b) pc \<times> (sock_addr, nat) hashmap
              \<Rightarrow> (('a, 'b) pc \<times> (sock_addr, nat) hashmap) option"
    fix y j n s out
    assume ih: "\<And>j n s b z. f j n s b = Some z \<Longrightarrow> Q j n s b z"
    assume body: "(if \<not> rx_alive y (pc_rtc (fst s)) then Some s
        else let (out, r) = rx_poll y (pc_rtc (fst s)); st1 = apfst (\<lambda>p. p\<lparr>pc_rtc := r\<rparr>) s
             in case out of
                  Inl _ \<Rightarrow> Some (apfst (\<lambda>p. p\<lparr>pc_rtc := rx_disconnect y (pc_rtc p)\<rparr>) st1)
                | Inr (Transmit dst contents) \<Rightarrow> f y j n (on_transmit j dst contents st1)
                | Inr (Timeout t) \<Rightarrow> Some (apfst (on_timeout t) st1)
                | Inr (Output ev) \<Rightarrow> f y j n (apfst (on_output_event n ev) st1)) = Some out"
    obtain o1 r where o1: "rx_poll y (pc_rtc (fst s)) = (o1, r)" by (cases "rx_poll y (pc_rtc (fst s))")
    have P1: "P s \<Longrightarrow> P (apfst (\<lambda>p. p\<lparr>pc_rtc := r\<rparr>) s)" by (rule rtc)
    have disc: "apfst (\<lambda>p. p\<lparr>pc_rtc := rx_disconnect y (pc_rtc p)\<rparr>) (apfst (\<lambda>p. p\<lparr>pc_rtc := r\<rparr>) s)
        = apfst (\<lambda>p. p\<lparr>pc_rtc := rx_disconnect y r\<rparr>) s"
      by (cases s) simp
    show "Q y j n s out"
      unfolding Q_def
    proof (intro impI, elim conjE)
      assume eqs: "y = x" "j = i" "n = now" and Ps: "P s"
      let ?s = "apfst (\<lambda>p. p\<lparr>pc_rtc := r\<rparr>) s"
      have go: "P out" if "f y j n s2 = Some out" "P s2" for s2
        using ih [OF that(1)] that(2) eqs by (simp add: Q_def)
      have Pr: "P ?s" by (rule rtc [OF Ps])
      show "P out"
      proof (cases "rx_alive y (pc_rtc (fst s))")
        case False
        with body Ps show ?thesis by simp
      next
        case True
        show ?thesis
        proof (cases o1)
          case (Inl e)
          with body True have "out = apfst (\<lambda>p. p\<lparr>pc_rtc := rx_disconnect y r\<rparr>) s"
            by (simp add: o1 Let_def disc)
          with rtc [OF Ps] show ?thesis by simp
        next
          case (Inr out1)
          show ?thesis
          proof (cases out1)
            case (Transmit d c)
            with body True Inr have "f y j n (on_transmit j d c ?s) = Some out" by (simp add: o1 Let_def)
            then show ?thesis using go transmit [OF Pr] eqs by simp
          next
            case (Timeout t)
            with body True Inr have "out = apfst (on_timeout t) ?s" by (simp add: o1 Let_def)
            then show ?thesis using timeout [OF Pr] by simp
          next
            case (Output ev)
            with body True Inr have "f y j n (apfst (on_output_event n ev) ?s) = Some out" by (simp add: o1 Let_def)
            then show ?thesis using go event [OF Pr] eqs by simp
          qed
        qed
      qed
    qed
  qed
  with assms(2) show ?thesis by (simp add: Q_def)
qed

lemma poll_inv:
  assumes "poll x i now st = Some st'" and "mux_inv (set_pc i (fst st) (m\<lparr>mx_routes := snd st\<rparr>))"
  shows "mux_inv (set_pc i (fst st') (m\<lparr>mx_routes := snd st'\<rparr>))"
proof (rule poll_induct [where P = "\<lambda>st. mux_inv (set_pc i (fst st) (m\<lparr>mx_routes := snd st\<rparr>))", OF assms])
  fix st r d c t ev
  assume inv: "mux_inv (set_pc i (fst st) (m\<lparr>mx_routes := snd st\<rparr>))"
  have via: "mux_inv (set_pc i (fst (apfst g st)) (m\<lparr>mx_routes := snd (apfst g st)\<rparr>))"
    if "same_marks (fst st) (g (fst st))" for g
    using same_marks_inv [OF that inv] by simp
  show "mux_inv (set_pc i (fst (apfst (\<lambda>p. p\<lparr>pc_rtc := r\<rparr>) st)) (m\<lparr>mx_routes := snd (apfst (\<lambda>p. p\<lparr>pc_rtc := r\<rparr>) st)\<rparr>))"
    by (rule via) (simp add: same_marks_def)
  show "mux_inv (set_pc i (fst (on_transmit i d c st)) (m\<lparr>mx_routes := snd (on_transmit i d c st)\<rparr>))"
    by (rule on_transmit_inv [OF inv])
  show "mux_inv (set_pc i (fst (apfst (on_timeout t) st)) (m\<lparr>mx_routes := snd (apfst (on_timeout t) st)\<rparr>))"
    by (rule via) (simp add: same_marks_def on_timeout_def notify_if_def Let_def)
  show "mux_inv (set_pc i (fst (apfst (on_output_event now ev) st)) (m\<lparr>mx_routes := snd (apfst (on_output_event now ev) st)\<rparr>))"
    by (rule via) (simp add: same_marks_def on_output_event_def Let_def split: rtc_event.split)
qed

text \<open>The invariant around one connection, as facts to use and facts to show.\<close>

definition route_to :: "nat \<Rightarrow> ('r, 'e) pc \<Rightarrow> (nat, ('r, 'e) pc) hashmap \<Rightarrow> sock_addr \<Rightarrow> nat \<Rightarrow> bool" where
  "route_to i p pcs a j \<longleftrightarrow>
     (if j = i then a \<in> set (pc_remotes p) else (\<exists>q. hget pcs j = Some q \<and> a \<in> set (pc_remotes q)))"

definition ufrag_to :: "nat \<Rightarrow> ('r, 'e) pc \<Rightarrow> (nat, ('r, 'e) pc) hashmap \<Rightarrow> string \<Rightarrow> nat \<Rightarrow> bool" where
  "ufrag_to i p pcs u j \<longleftrightarrow> (if j = i then pc_ufrag p = u else (\<exists>q. hget pcs j = Some q \<and> pc_ufrag q = u))"

lemma mux_inv_setI:
  assumes "\<And>a j. hget (mx_routes m) a = Some j \<Longrightarrow> route_to i p (mx_pcs m) a j"
    and "\<And>u j. hget (mx_ufrags m) u = Some j \<Longrightarrow> ufrag_to i p (mx_pcs m) u j"
    and "closed_once (mx_calls m) (mx_next_id m) (hput i p (mx_pcs m))"
  shows "mux_inv (set_pc i p m)"
  using assms unfolding mux_inv_def set_pc_def route_to_def ufrag_to_def
  by (simp add: routes_live_put ufrags_live_put)

lemma mux_inv_setD:
  assumes "mux_inv (set_pc i p m)"
  shows "hget (mx_routes m) a = Some j \<Longrightarrow> route_to i p (mx_pcs m) a j"
    and "hget (mx_ufrags m) u = Some j \<Longrightarrow> ufrag_to i p (mx_pcs m) u j"
    and "closed_once (mx_calls m) (mx_next_id m) (hput i p (mx_pcs m))"
  using assms unfolding mux_inv_def set_pc_def route_to_def ufrag_to_def
  by (simp_all add: routes_live_put ufrags_live_put)

lemma get_dropped:
  "hget (fold (drop_route i) as routes) a = (if a \<in> set as \<and> hget routes a = Some i then None else hget routes a)"
  by (induction as arbitrary: routes) (auto simp: drop_route_def hashmap_simps)

lemma unregister_simps [simp]:
  "mx_pcs (snd (unregister i p m)) = mx_pcs m" "mx_calls (snd (unregister i p m)) = mx_calls m"
  "mx_next_id (snd (unregister i p m)) = mx_next_id m" "pc_closed (fst (unregister i p m)) = pc_closed p"
  "pc_ufrag (fst (unregister i p m)) = pc_ufrag p" "pc_handler (fst (unregister i p m)) = pc_handler p"
  by (simp_all add: unregister_def)

text \<open>Unregistering leaves no route and no ufrag that points at the connection, and takes no other.\<close>

lemma unregister_routes:
  assumes "mux_inv (set_pc i p m)"
  shows "hget (mx_routes (snd (unregister i p m))) a = (if hget (mx_routes m) a = Some i then None else hget (mx_routes m) a)"
proof -
  have "a \<in> set (pc_remotes p)" if "hget (mx_routes m) a = Some i"
    using mux_inv_setD(1) [OF assms that] by (simp add: route_to_def)
  then show ?thesis by (auto simp: unregister_def get_dropped)
qed

lemma unregister_ufrags:
  assumes "mux_inv (set_pc i p m)" and "hget (mx_ufrags (snd (unregister i p m))) u = Some j"
  shows "j \<noteq> i \<and> hget (mx_ufrags m) u = Some j"
proof -
  from assms(2) have u: "u \<noteq> pc_ufrag p" "hget (mx_ufrags m) u = Some j"
    by (auto simp: unregister_def hashmap_simps split: if_splits)
  with mux_inv_setD(2) [OF assms(1) u(2)] show ?thesis by (auto simp: ufrag_to_def)
qed

lemma closes_append [simp]:
  "closes (calls @ map (\<lambda>ev. (i, OnEvent ev)) evs) j = closes calls j"
  "closes (calls @ [(i, OnClosed)]) j = closes calls j + (if i = j then 1 else 0)"
  by (induction evs) (simp_all add: closes_def)

lemma closed_once_close:
  assumes "closed_once calls n (hput i p pcs)" and "\<not> pc_closed p" and "pc_closed p'"
  shows "closed_once (calls @ [(i, OnClosed)]) n (hput i p' pcs)"
proof -
  have all: "\<forall>j. closes calls j \<le> 1" "\<forall>j \<ge> n. closes calls j = 0"
    and at: "\<And>j q. hget (hput i p pcs) j = Some q \<Longrightarrow> j < n \<and> (closes calls j = 1) = pc_closed q"
    using assms(1) unfolding closed_once_def by blast+
  have i: "i < n" "closes calls i \<noteq> 1"
    using at [of i p] assms(2) by (simp_all add: hashmap_simps)
  moreover have "closes calls i \<le> 1" using all by blast
  ultimately have i0: "closes calls i = 0" by linarith
  show ?thesis
    unfolding closed_once_def closes_append
  proof (intro conjI allI impI)
    fix j show "closes calls j + (if i = j then 1 else 0) \<le> 1" using all i0 by auto
  next
    fix j assume "n \<le> j" then show "closes calls j + (if i = j then 1 else 0) = 0" using all i by auto
  next
    fix j q assume q: "hget (hput i p' pcs) j = Some q"
    have "j < n \<and> (closes calls j = 1) = pc_closed q" if "j \<noteq> i"
      using at [of j q] q that by (simp add: hashmap_simps)
    moreover have "q = p'" if "j = i" using q that by (simp add: hashmap_simps)
    ultimately show "j < n" "(closes calls j + (if i = j then 1 else 0) = 1) = pc_closed q"
      using i i0 assms(3) by (cases "j = i"; simp)+
  qed
qed

lemma unregister_inv:
  assumes inv: "mux_inv (set_pc i p m)" and "\<not> pc_closed p" and "pc_closed p'" "pc_ufrag p' = pc_ufrag p"
  defines "m' \<equiv> snd (unregister i p m)"
  shows "mux_inv (set_pc i p' (m'\<lparr>mx_calls := mx_calls m' @ [(i, OnClosed)]\<rparr>))"
proof (rule mux_inv_setI)
  fix a j
  assume "hget (mx_routes (m'\<lparr>mx_calls := mx_calls m' @ [(i, OnClosed)]\<rparr>)) a = Some j"
  then have "hget (mx_routes m) a = Some j" "j \<noteq> i"
    using unregister_routes [OF inv, of a] by (auto simp: m'_def split: if_splits)
  with mux_inv_setD(1) [OF inv this(1)]
  show "route_to i p' (mx_pcs (m'\<lparr>mx_calls := mx_calls m' @ [(i, OnClosed)]\<rparr>)) a j"
    by (simp add: route_to_def m'_def)
next
  fix u j
  assume "hget (mx_ufrags (m'\<lparr>mx_calls := mx_calls m' @ [(i, OnClosed)]\<rparr>)) u = Some j"
  then have "j \<noteq> i \<and> hget (mx_ufrags m) u = Some j"
    using unregister_ufrags [OF inv, of u j] by (simp add: m'_def)
  with mux_inv_setD(2) [OF inv, of u j]
  show "ufrag_to i p' (mx_pcs (m'\<lparr>mx_calls := mx_calls m' @ [(i, OnClosed)]\<rparr>)) u j"
    by (simp add: ufrag_to_def m'_def)
next
  show "closed_once (mx_calls (m'\<lparr>mx_calls := mx_calls m' @ [(i, OnClosed)]\<rparr>))
          (mx_next_id (m'\<lparr>mx_calls := mx_calls m' @ [(i, OnClosed)]\<rparr>))
          (hput i p' (mx_pcs (m'\<lparr>mx_calls := mx_calls m' @ [(i, OnClosed)]\<rparr>)))"
    using closed_once_close [OF mux_inv_setD(3) [OF inv] assms(2,3)] by (simp add: m'_def)
qed

lemma deliver_inv:
  assumes inv: "mux_inv (set_pc i p m)"
  shows "mux_inv (deliver x now i p m)"
proof -
  let ?m = "m\<lparr>mx_calls := mx_calls m @ map (\<lambda>ev. (i, OnEvent ev)) (pc_events p)\<rparr>"
  let ?p = "p\<lparr>pc_events := []\<rparr>"
  have "mux_inv (set_pc i p ?m)"
    using inv by (simp add: mux_inv_def set_pc_def closed_once_def)
  then have inv1: "mux_inv (set_pc i ?p ?m)"
    by (rule same_marks_inv [rotated]) (simp add: same_marks_def)
  show ?thesis
  proof (cases "pc_handler p \<and> is_dead x now ?p \<and> \<not> pc_closed p")
    case True
    let ?u = "unregister i (?p\<lparr>pc_closed := True\<rparr>) ?m"
    have same: "snd ?u = snd (unregister i ?p ?m)" by (simp add: unregister_def)
    have "mux_inv (set_pc i (fst ?u\<lparr>pc_notified := True\<rparr>) ((snd ?u)\<lparr>mx_calls := mx_calls (snd ?u) @ [(i, OnClosed)]\<rparr>))"
      unfolding same by (rule unregister_inv [OF inv1]) (use True in simp_all)
    with True show ?thesis by (simp add: deliver_def Let_def case_prod_beta)
  next
    case False
    with inv inv1 show ?thesis by (auto simp: deliver_def Let_def)
  qed
qed

lemma with_rtc_inv:
  assumes "mux_inv (set_pc i p m)" and "with_rtc x now sent i f p m = Some m'"
  shows "mux_inv m'"
proof -
  obtain p1 routes where po: "poll x i now (p\<lparr>pc_rtc := f (pc_rtc p)\<rparr>, mx_routes m) = Some (p1, routes)"
    using assms(2) by (auto simp: with_rtc_def split: option.splits)
  have "mux_inv (set_pc i (p\<lparr>pc_rtc := f (pc_rtc p)\<rparr>) m)"
    using assms(1) by (rule same_marks_inv [rotated]) (simp add: same_marks_def)
  then have "mux_inv (set_pc i p1 (m\<lparr>mx_routes := routes\<rparr>))"
    using poll_inv [OF po, of m] by simp
  moreover obtain ds ob where b: "send_batch sent (pc_out p1) = (ds, ob)" by (cases "send_batch sent (pc_out p1)")
  ultimately have "mux_inv (set_pc i (p1\<lparr>pc_out := ob\<rparr>) (m\<lparr>mx_routes := routes, mx_wire := mx_wire m @ ds\<rparr>))"
    by (simp add: mux_inv_def set_pc_def routes_live_put ufrags_live_put closed_once_def hashmap_simps)
  then show ?thesis
    using assms(2) po b deliver_inv by (auto simp: with_rtc_def Let_def)
qed

lemma close_inv:
  "mux_inv (set_pc i p m) \<Longrightarrow> mux_inv m \<Longrightarrow> close x now sent i p m = Some m' \<Longrightarrow> mux_inv m'"
  by (auto simp: close_def with_rtc_inv split: if_splits)

lemma set_pc_twice: "mux_inv (set_pc i p m) \<Longrightarrow> mux_inv (set_pc i p (set_pc i q m))"
  by (simp add: mux_inv_def set_pc_def routes_live_def ufrags_live_def closed_once_def hashmap_simps cong: if_cong)

lemma receive_inv:
  assumes "mux_inv m" and "hget (mx_pcs m) i = Some p" and "receive x now sent i src data p m = Some m'"
  shows "mux_inv m'"
proof -
  have inv: "mux_inv (set_pc i p m)" by (rule set_pc_same [OF assms(1,2)])
  show ?thesis
  proof (cases "rx_receive x now src (mx_public_addr m) data (pc_rtc p)")
    case None
    with assms show ?thesis by (simp add: receive_def)
  next
    case (Some res)
    show ?thesis
    proof (cases res)
      case (Inl r)
      have inv1: "mux_inv (set_pc i (p\<lparr>pc_rtc := r\<rparr>) m)"
        using inv by (rule same_marks_inv [rotated]) (simp add: same_marks_def)
      from close_inv [OF set_pc_twice [OF inv1] inv1] assms(3) Some Inl show ?thesis
        by (simp add: receive_def)
    next
      case (Inr res1)
      with assms(3) Some have "with_rtc x now sent i (\<lambda>_. accept_or_disconnect x res1) p m = Some m'"
        by (simp add: receive_def)
      then show ?thesis by (rule with_rtc_inv [OF inv])
    qed
  qed
qed

lemma learn_inv:
  assumes "mux_inv m" and "hget (mx_pcs m) i = Some p" and "learn src i p m = (p1, m1)"
  shows "mux_inv m1 \<and> hget (mx_pcs m1) i = Some p1"
proof -
  have inv: "mux_inv (set_pc i p (m\<lparr>mx_routes := mx_routes m\<rparr>))" using set_pc_same [OF assms(1,2)] by simp
  show ?thesis
    using assms routed_inv [OF inv, of src]
    by (auto simp: learn_def set_pc_def hashmap_simps Let_def split: if_splits)
qed

lemma upgrade_SomeD: "upgrade m w = Some (i, p) \<Longrightarrow> w = Some i \<and> hget (mx_pcs m) i = Some p"
  by (auto simp: upgrade_def split: bind_splits)

lemma recv_datagram_inv:
  assumes "mux_inv m" and "recv_datagram x now sent src data m = Some m'"
  shows "mux_inv m'"
  using assms
  by (auto simp: recv_datagram_def dest!: upgrade_SomeD intro: receive_inv split: option.splits prod.splits)
    (metis learn_inv receive_inv)

lemma refresh_ufrag_inv:
  assumes "mux_inv m" and p: "hget (mx_pcs m) i = Some p"
  shows "mux_inv (refresh_ufrag x i p m)"
proof (cases "pc_ufrag p = rx_ufrag x (pc_rtc p)")
  case True
  with assms show ?thesis by (simp add: refresh_ufrag_def)
next
  case False
  let ?u = "rx_ufrag x (pc_rtc p)"
  have inv: "mux_inv (set_pc i p m)" by (rule set_pc_same [OF assms])
  have "mux_inv (set_pc i (p\<lparr>pc_ufrag := ?u\<rparr>) (m\<lparr>mx_ufrags := hput ?u i (hdel (pc_ufrag p) (mx_ufrags m))\<rparr>))"
  proof (rule mux_inv_setI)
    fix a j
    assume "hget (mx_routes (m\<lparr>mx_ufrags := hput ?u i (hdel (pc_ufrag p) (mx_ufrags m))\<rparr>)) a = Some j"
    then show "route_to i (p\<lparr>pc_ufrag := ?u\<rparr>)
        (mx_pcs (m\<lparr>mx_ufrags := hput ?u i (hdel (pc_ufrag p) (mx_ufrags m))\<rparr>)) a j"
      using mux_inv_setD(1) [OF inv, of a j] by (simp add: route_to_def)
  next
    fix u j
    assume "hget (mx_ufrags (m\<lparr>mx_ufrags := hput ?u i (hdel (pc_ufrag p) (mx_ufrags m))\<rparr>)) u = Some j"
    then have "(u = ?u \<and> j = i) \<or> (u \<noteq> pc_ufrag p \<and> hget (mx_ufrags m) u = Some j)"
      by (auto simp: hashmap_simps split: if_splits)
    then show "ufrag_to i (p\<lparr>pc_ufrag := ?u\<rparr>)
        (mx_pcs (m\<lparr>mx_ufrags := hput ?u i (hdel (pc_ufrag p) (mx_ufrags m))\<rparr>)) u j"
      using mux_inv_setD(2) [OF inv, of u j] by (auto simp: ufrag_to_def split: if_splits)
  next
    show "closed_once (mx_calls (m\<lparr>mx_ufrags := hput ?u i (hdel (pc_ufrag p) (mx_ufrags m))\<rparr>))
        (mx_next_id (m\<lparr>mx_ufrags := hput ?u i (hdel (pc_ufrag p) (mx_ufrags m))\<rparr>))
        (hput i (p\<lparr>pc_ufrag := ?u\<rparr>) (mx_pcs (m\<lparr>mx_ufrags := hput ?u i (hdel (pc_ufrag p) (mx_ufrags m))\<rparr>)))"
      using mux_inv_setD(3) [OF inv] by (simp add: closed_once_def hashmap_simps)
  qed
  with False show ?thesis by (simp add: refresh_ufrag_def Let_def)
qed

lemma spawn_inv:
  assumes "mux_inv m"
  shows "mux_inv (spawn now r u m)"
proof -
  have fresh: "hget (mx_pcs m) (mx_next_id m) = None"
    using assms unfolding mux_inv_def closed_once_def by (cases "hget (mx_pcs m) (mx_next_id m)") auto
  show ?thesis
    unfolding spawn_def Let_def
  proof (rule mux_inv_setI, goal_cases)
    case (1 a j)
    then have "\<exists>q. hget (mx_pcs m) j = Some q \<and> a \<in> set (pc_remotes q)"
      using assms by (simp add: mux_inv_def routes_live_def)
    with fresh show ?case by (auto simp: route_to_def)
  next
    case (2 v j)
    show ?case
    proof (cases "v = u")
      case True
      with 2 show ?thesis by (simp add: ufrag_to_def hashmap_simps)
    next
      case False
      with 2 have "\<exists>q. hget (mx_pcs m) j = Some q \<and> pc_ufrag q = v"
        using assms by (simp add: mux_inv_def ufrags_live_def hashmap_simps)
      with fresh show ?thesis by (auto simp: ufrag_to_def)
    qed
  next
    case 3
    with assms show ?case
      by (auto simp: mux_inv_def closed_once_def hashmap_simps)
        (metis One_nat_def le_Suc_eq less_Suc_eq not_less)+
  qed
qed

lemma drop_inv:
  assumes "mux_inv m" and "hget (mx_pcs m) i = Some p"
  shows "mux_inv (drop_pc i p m)"
proof -
  have inv: "mux_inv (set_pc i p m)" by (rule set_pc_same [OF assms])
  have r: "j \<noteq> i \<and> (\<exists>q. hget (mx_pcs m) j = Some q \<and> a \<in> set (pc_remotes q))"
    if "hget (mx_routes (snd (unregister i p m))) a = Some j" for a j
    using that unregister_routes [OF inv, of a] mux_inv_setD(1) [OF inv, of a j]
    by (auto simp: route_to_def split: if_splits)
  have u: "j \<noteq> i \<and> (\<exists>q. hget (mx_pcs m) j = Some q \<and> pc_ufrag q = v)"
    if "hget (mx_ufrags (snd (unregister i p m))) v = Some j" for v j
    using unregister_ufrags [OF inv that] mux_inv_setD(2) [OF inv, of v j] by (simp add: ufrag_to_def)
  show ?thesis
    using assms(1) r u
    by (simp add: drop_pc_def mux_inv_def routes_live_def ufrags_live_def closed_once_def hashmap_simps case_prod_beta)
qed

lemma mux_step_inv:
  assumes "mux_inv m" and "mux_step x now sent ev m = Some m'"
  shows "mux_inv m'"
proof (cases ev)
  case (Write i f)
  have "mux_inv (set_pc i (write_rtc now f p) m)" if "hget (mx_pcs m) i = Some p" for p
    by (rule same_marks_inv [OF _ set_pc_same [OF assms(1) that]])
      (simp add: same_marks_def write_rtc_def notify_if_def Let_def)
  with assms Write show ?thesis by (auto simp: on_pc_def split: option.splits)
next
  case (HandlerGone i)
  have "mux_inv (set_pc i (p\<lparr>pc_handler := False\<rparr>) m)" if "hget (mx_pcs m) i = Some p" for p
    by (rule same_marks_inv [OF _ set_pc_same [OF assms(1) that]]) (simp add: same_marks_def)
  with assms HandlerGone show ?thesis by (auto simp: on_pc_def split: option.splits)
next
  case (TimerFires i)
  have "mux_inv (set_pc i (p\<lparr>pc_notified := False\<rparr>) m)" if "hget (mx_pcs m) i = Some p" for p
    by (rule same_marks_inv [OF _ set_pc_same [OF assms(1) that]]) (simp add: same_marks_def)
  with assms TimerFires show ?thesis
    by (auto simp: on_pc_def timer_fires_def intro: with_rtc_inv split: option.splits if_splits)
qed (use assms in \<open>auto simp: on_pc_def spawn_inv refresh_ufrag_inv drop_inv
      intro: recv_datagram_inv with_rtc_inv close_inv set_pc_same split: option.splits\<close>)

lemma mux_run_inv:
  assumes "polls_end x" and "mux_inv m"
  shows "\<exists>m'. mux_run x es m = Some m' \<and> mux_inv m'"
  using assms(2)
proof (induction es arbitrary: m)
  case (Cons e es)
  obtain now sent ev where e: "e = (now, sent, ev)" by (cases e)
  obtain m1 where m1: "mux_step x now sent ev m = Some m1"
    using mux_step_total [OF assms(1)] by blast
  from mux_step_inv [OF Cons.prems m1] Cons.IH obtain m' where "mux_run x es m1 = Some m' \<and> mux_inv m'" by blast
  with m1 e show ?case by simp
qed simp

lemma new_socket_inv: "mux_inv (new_socket a)"
  by (simp add: mux_inv_def new_socket_def routes_live_def ufrags_live_def closed_once_def closes_def)

section \<open>Properties\<close>

text \<open>
  C12. Demultiplexing stays sound over any run of the driver: every run returns, every route leads
  to a connection that still exists and has that address on its list of remotes, every registered
  ufrag is the current ufrag of an existing connection (so that a dropped connection leaves neither
  behind), and each connection is reported closed at most once, exactly when it is marked closed.
\<close>

theorem mux_routes_sound:
  assumes "polls_end x"
  shows "\<exists>m. mux_run x es (new_socket a) = Some m \<and> routes_live (mx_routes m) (mx_pcs m)
    \<and> ufrags_live (mx_ufrags m) (mx_pcs m) \<and> closed_once (mx_calls m) (mx_next_id m) (mx_pcs m)"
  using mux_run_inv [OF assms new_socket_inv] unfolding mux_inv_def by blast

text \<open>A toy engine: its state is the list of the outputs it still has; a disconnected one is None.\<close>

type_synonym toy_rtc = "nat rtc_output list option"

definition toy_api :: "(toy_rtc, nat) rtc_api" where
  "toy_api =
     \<lparr>rx_alive = (\<lambda>r. r \<noteq> None),
      rx_poll = (\<lambda>r. case r of None \<Rightarrow> (Inl ''dead'', None) | Some [] \<Rightarrow> (Inr (Timeout 0), Some [])
                  | Some (out # outs) \<Rightarrow> (Inr out, Some outs)),
      rx_timeout = (\<lambda>now r. (True, r)),
      rx_receive = (\<lambda>now src dst data r. Some (Inr (True, r))),
      rx_disconnect = (\<lambda>r. None),
      rx_ufrag = (\<lambda>r. ''u'')\<rparr>"

lemma toy_polls_end: "polls_end toy_api"
  unfolding polls_end_def
  by (rule exI [where x = "\<lambda>r. case r of None \<Rightarrow> 0 | Some outs \<Rightarrow> length outs"])
    (auto simp: toy_api_def split: list.splits)

theorem mux_routes_sound_witness:
  "\<exists>m. mux_run toy_api [(5, None, Spawn (Some [Transmit (SockAddr (V4 1) 2) ''x'']) ''u''), (6, None, TimerFires 1),
          (7, None, DropPc 1)] (new_socket (SockAddr (V4 9) 9)) = Some m
    \<and> routes_live (mx_routes m) (mx_pcs m) \<and> ufrags_live (mx_ufrags m) (mx_pcs m)
    \<and> closed_once (mx_calls m) (mx_next_id m) (mx_pcs m)"
  by (rule mux_routes_sound [OF toy_polls_end])

text \<open>After a drive an open connection is alive and has not been without ICE for 30 seconds.\<close>

lemma deliver_get: "hget (mx_pcs (deliver x now i p m)) i \<noteq> None"
  by (simp add: deliver_def Let_def set_pc_def hashmap_simps case_prod_beta)

lemma deliver_open:
  assumes "pc_handler p" and "hget (mx_pcs (deliver x now i p m)) i = Some p'" and "\<not> pc_closed p'"
  shows "\<not> is_dead x now p'"
  using assms
  by (auto simp: deliver_def Let_def set_pc_def hashmap_simps case_prod_beta is_dead_def split: if_splits)

lemma poll_handler: "poll x i now st = Some st' \<Longrightarrow> pc_handler (fst st') = pc_handler (fst st)"
proof (rule poll_induct [where P = "\<lambda>s. pc_handler (fst s) = pc_handler (fst st)"], assumption)
  show "pc_handler (fst st) = pc_handler (fst st)" by simp
qed (simp_all add: on_transmit_def on_timeout_def on_output_event_def notify_if_def Let_def case_prod_beta
    split: rtc_event.splits)

lemma with_rtc_open:
  assumes "with_rtc x now sent i f p m = Some m'" and "pc_handler p"
    and "hget (mx_pcs m') i = Some p'" and "\<not> pc_closed p'"
  shows "\<not> is_dead x now p'"
proof -
  obtain p1 routes where po: "poll x i now (p\<lparr>pc_rtc := f (pc_rtc p)\<rparr>, mx_routes m) = Some (p1, routes)"
    using assms(1) by (auto simp: with_rtc_def split: option.splits)
  then have "pc_handler p1" using poll_handler [OF po] assms(2) by simp
  then have h: "pc_handler (p1\<lparr>pc_out := ob\<rparr>)" for ob by simp
  obtain ob m1 where "m' = deliver x now i (p1\<lparr>pc_out := ob\<rparr>) m1"
    using assms(1) po by (auto simp: with_rtc_def Let_def case_prod_beta)
  with assms(3) have "hget (mx_pcs (deliver x now i (p1\<lparr>pc_out := ob\<rparr>) m1)) i = Some p'" by simp
  then show ?thesis by (rule deliver_open [OF h _ assms(4)])
qed

lemma with_rtc_get: "with_rtc x now sent i f p m = Some m' \<Longrightarrow> \<exists>p'. hget (mx_pcs m') i = Some p'"
  using deliver_get by (fastforce simp: with_rtc_def Let_def case_prod_beta split: option.splits)

lemma poll_route: "poll x i now st = Some st' \<Longrightarrow> hget (snd st) a = Some i \<Longrightarrow> hget (snd st') a = Some i"
  by (rule poll_induct [where P = "\<lambda>s. hget (snd s) a = Some i"])
    (auto simp: on_transmit_def hashmap_simps Let_def case_prod_beta)

lemma deliver_route:
  assumes "hget (mx_pcs (deliver x now i p m)) i = Some p'" and "\<not> pc_closed p'"
  shows "mx_routes (deliver x now i p m) = mx_routes m"
  using assms
  by (auto simp: deliver_def Let_def set_pc_def hashmap_simps case_prod_beta split: if_splits)

lemma with_rtc_keeps_route:
  assumes "with_rtc x now sent i f p m = Some m'" and "hget (mx_routes m) a = Some i"
    and "hget (mx_pcs m') i = Some p'" and "\<not> pc_closed p'"
  shows "hget (mx_routes m') a = Some i"
proof -
  obtain p1 routes where po: "poll x i now (p\<lparr>pc_rtc := f (pc_rtc p)\<rparr>, mx_routes m) = Some (p1, routes)"
    using assms(1) by (auto simp: with_rtc_def split: option.splits)
  obtain ob m1 where m1: "m' = deliver x now i (p1\<lparr>pc_out := ob\<rparr>) m1" "mx_routes m1 = routes"
    using assms(1) po by (auto simp: with_rtc_def Let_def case_prod_beta)
  with deliver_route [of x now i "p1\<lparr>pc_out := ob\<rparr>" m1 p'] assms(3,4) have "mx_routes m' = routes" by simp
  with poll_route [OF po] assms(2) show ?thesis by simp
qed

text \<open>
  C17. The watchdog: a drive by the timer of a connection whose owner (the handler) is alive always
  returns, and leaves the connection open only when its engine is alive and ICE has not been down
  for 30 seconds; then the timer wakes again within a second. So a connection whose peer vanishes
  is closed at most a second after the 30 are over, if its owner still exists. (Without the owner
  \<open>deliver\<close> returns before the check; such a connection goes when its last reference is dropped.)
\<close>

theorem ice_watchdog:
  assumes "polls_end x" and "hget (mx_pcs m) i = Some p" and "pc_handler p"
  shows "\<exists>m' p'. timer_fires x now sent i p m = Some m' \<and> hget (mx_pcs m') i = Some p' \<and>
    (pc_closed p' \<or>
      rx_alive x (pc_rtc p') \<and> (case pc_unhealthy_since p' of None \<Rightarrow> True | Some t \<Rightarrow> now < t + secs 30)
      \<and> timer_at now p' \<le> now + secs 1)"
proof (cases "pc_closed p")
  case True
  then show ?thesis using assms(2) by (simp add: timer_fires_def)
next
  case False
  then have t: "timer_fires x now sent i p m
      = with_rtc x now sent i (\<lambda>r. accept_or_disconnect x (rx_timeout x now r)) (p\<lparr>pc_notified := False\<rparr>) m"
    by (simp add: timer_fires_def)
  with with_rtc_total [OF assms(1)] obtain m' where m': "timer_fires x now sent i p m = Some m'" by metis
  note w = m' [unfolded t]
  obtain p' where p': "hget (mx_pcs m') i = Some p'" using with_rtc_get [OF w] by blast
  have "pc_closed p' \<or> rx_alive x (pc_rtc p') \<and> (case pc_unhealthy_since p' of None \<Rightarrow> True | Some t \<Rightarrow> now < t + secs 30)
      \<and> timer_at now p' \<le> now + secs 1"
    using with_rtc_open [OF w _ p'] assms(3)
    by (auto simp: is_dead_def timer_at_def WATCHDOG_def ICE_FAIL_AFTER_def split: option.splits)
  with m' p' show ?thesis by blast
qed

definition toy_pc :: "(toy_rtc, nat) pc" where
  "toy_pc = \<lparr>pc_rtc = Some [], pc_events = [], pc_remotes = [], pc_out = empty_outbox, pc_unhealthy_since = Some 5,
     pc_handler = True, pc_notified = False, pc_deadline = 0, pc_epoch = 5, pc_closed = False, pc_ufrag = ''u''\<rparr>"

lemma poll_toy_idle: "poll toy_api i now (p\<lparr>pc_rtc := Some []\<rparr>, rs) = Some (on_timeout 0 (p\<lparr>pc_rtc := Some []\<rparr>), rs)"
proof -
  have "rx_alive toy_api (Some [])" "rx_poll toy_api (Some []) = (Inr (Timeout 0), Some [])"
    by (simp_all add: toy_api_def)
  then show ?thesis by (subst poll.simps) simp
qed

text \<open>Thirty seconds after ICE went down the engine is still alive; the watchdog closes the connection.\<close>

theorem ice_watchdog_witness:
  "\<exists>m' p'. timer_fires toy_api (5 + secs 30) None 1 toy_pc (set_pc 1 toy_pc (new_socket (SockAddr (V4 9) 9))) = Some m'
    \<and> hget (mx_pcs m') 1 = Some p' \<and> pc_closed p'"
proof -
  let ?m = "set_pc 1 toy_pc (new_socket (SockAddr (V4 9) 9)) :: (toy_rtc, nat) mux_socket"
  have "hget (mx_pcs ?m) 1 = Some toy_pc" "pc_handler toy_pc"
    by (simp_all add: set_pc_def hashmap_simps toy_pc_def)
  from ice_watchdog [OF toy_polls_end this, of "5 + secs 30" None] obtain m' p' where
    r: "timer_fires toy_api (5 + secs 30) None 1 toy_pc ?m = Some m'" "hget (mx_pcs m') 1 = Some p'"
      "pc_closed p' \<or> (case pc_unhealthy_since p' of None \<Rightarrow> True | Some t \<Rightarrow> 5 + secs 30 < t + secs 30)" by blast
  have acc: "accept_or_disconnect toy_api (rx_timeout toy_api now q) = q" for now q
    by (simp add: accept_or_disconnect_def toy_api_def)
  have pc: "toy_pc\<lparr>pc_notified := False\<rparr> = toy_pc" "toy_pc\<lparr>pc_rtc := Some []\<rparr> = toy_pc" "pc_rtc toy_pc = Some []" "\<not> pc_closed toy_pc"
    by (simp_all add: toy_pc_def)
  note po = poll_toy_idle [of _ _ toy_pc, unfolded pc(2)]
  have "pc_unhealthy_since p' = Some 5"
  proof -
    have "pc_unhealthy_since (on_timeout 0 toy_pc) = Some 5" by (simp add: on_timeout_def notify_if_def toy_pc_def Let_def)
    moreover obtain ob m1 where "m' = deliver toy_api (5 + secs 30) 1 ((on_timeout 0 toy_pc)\<lparr>pc_out := ob\<rparr>) m1"
      using r(1) by (auto simp: timer_fires_def with_rtc_def acc pc po Let_def case_prod_beta)
    ultimately obtain p1 ob m1 where "m' = deliver toy_api (5 + secs 30) 1 (p1\<lparr>pc_out := ob\<rparr>) m1" "pc_unhealthy_since p1 = Some 5"
      by blast
    with r(2) show ?thesis
      by (auto simp: deliver_def set_pc_def hashmap_simps unregister_def Let_def case_prod_beta split: if_splits)
  qed
  with r show ?thesis by auto
qed

text \<open>
  A STUN request teaches the socket where a connection is: after it, datagrams from its source
  address go to the connection whose ufrag it names, unless handling it closed the connection.
\<close>

theorem stun_source_learned:
  assumes "polls_end x" and run: "mux_run x es (new_socket a) = Some m"
    and u: "stun_local_ufrag data = Some u" "hget (mx_ufrags m) u = Some i"
    and step: "recv_datagram x now sent src data m = Some m'"
    and open_after: "hget (mx_pcs m') i = Some p'" "\<not> pc_closed p'"
  shows "hget (mx_routes m') src = Some i"
proof -
  have "mux_inv m"
    using mux_run_inv [OF assms(1) new_socket_inv] run by (metis option.inject)
  then obtain p where p: "hget (mx_pcs m) i = Some p"
    using u unfolding mux_inv_def ufrags_live_def by blast
  obtain p1 m1 where l: "learn src i p m = (p1, m1)" by (cases "learn src i p m")
  then have r1: "hget (mx_routes m1) src = Some i"
    by (auto simp: learn_def set_pc_def hashmap_simps Let_def split: if_splits)
  have rec: "receive x now sent i src data p1 m1 = Some m'"
    using step u p l by (simp add: recv_datagram_def upgrade_def)
  have "hget (mx_routes m') src = Some i"
    if "with_rtc x now sent i f q m2 = Some m'" "hget (mx_routes m2) src = Some i" for f q m2
    using with_rtc_keeps_route [OF that open_after] .
  with rec r1 show ?thesis
    by (auto simp: receive_def close_def set_pc_def split: option.splits sum.splits if_splits)
qed

theorem stun_source_learned_witness:
  "\<exists>m'. recv_datagram toy_api 6 None (SockAddr (V4 7) 7) (stun_message 1 (replicate 12 (CHR ''x'')) [(6, ''u:r'')])
        (spawn 5 (Some []) ''u'' (new_socket (SockAddr (V4 9) 9))) = Some m'
     \<and> hget (mx_routes m') (SockAddr (V4 7) 7) = Some 1"
proof -
  let ?a = "SockAddr (V4 9) 9" and ?src = "SockAddr (V4 7) 7"
  let ?data = "stun_message 1 (replicate 12 (CHR ''x'')) [(6, ''u:r'')]"
  let ?m = "spawn 5 (Some []) ''u'' (new_socket ?a) :: (toy_rtc, nat) mux_socket"
  let ?p = "toy_pc\<lparr>pc_remotes := [?src]\<rparr>"
  let ?m1 = "set_pc 1 ?p (?m\<lparr>mx_routes := [(?src, 1)]\<rparr>)"
  have u: "stun_local_ufrag ?data = Some ''u''" by code_simp
  have pcs: "hget (mx_pcs ?m) 1 = Some toy_pc" and fr: "hget (mx_ufrags ?m) ''u'' = Some 1" and "mx_routes ?m = []"
    by (simp_all add: spawn_def new_socket_def set_pc_def hashmap_eval toy_pc_def)
  then have l: "learn ?src 1 toy_pc ?m = (?p, ?m1)"
    by (simp add: learn_def Let_def toy_pc_def hashmap_eval)
  have "poll toy_api 1 6 (?p\<lparr>pc_rtc := Some []\<rparr>, mx_routes ?m1) = Some (on_timeout 0 (?p\<lparr>pc_rtc := Some []\<rparr>), mx_routes ?m1)"
    by (rule poll_toy_idle)
  then have "with_rtc toy_api 6 None 1 (\<lambda>_. Some []) ?p ?m1 = Some (set_pc 1 (on_timeout 0 ?p) ?m1)"
    by (simp add: with_rtc_def toy_api_def toy_pc_def on_timeout_def notify_if_def send_batch_def empty_outbox_def
        deliver_def is_dead_def ICE_FAIL_AFTER_def Let_def)
  then have "receive toy_api 6 None 1 ?src ?data ?p ?m1 = Some (set_pc 1 (on_timeout 0 ?p) ?m1)"
    by (simp add: receive_def accept_or_disconnect_def toy_api_def toy_pc_def)
  then have rec: "recv_datagram toy_api 6 None ?src ?data ?m = Some (set_pc 1 (on_timeout 0 ?p) ?m1)"
    unfolding recv_datagram_def upgrade_def u Option.bind.simps fr pcs option.map option.case prod.case l Let_def .
  have run: "mux_run toy_api [(5, None, Spawn (Some []) ''u'')] (new_socket ?a) = Some ?m" by simp
  have "hget (mx_routes (set_pc 1 (on_timeout 0 ?p) ?m1)) ?src = Some 1"
    by (rule stun_source_learned [where p' = "on_timeout 0 ?p", OF toy_polls_end run u fr rec])
      (simp_all add: set_pc_def hashmap_simps toy_pc_def on_timeout_def notify_if_def Let_def)
  with rec show ?thesis by blast
qed

end
