(* ===== verification/Serde.thy ===== *)
theory Serde
  imports HttpText
begin

text \<open>
  What the derived \<open>Serialize\<close> and \<open>Deserialize\<close> of \<open>serde\<close> do on JSON values, for the kinds of
  fields this program declares: a struct is read from an object (unknown members are skipped, a
  known one twice is an error, a missing one is its default or an error) or from an array in the
  order of the fields; a unit enum from its name. The text of a JSON value is \<open>serde_json\<close>'s.
\<close>

section \<open>Reading\<close>

fun de_string :: "json \<Rightarrow> string option" where
  "de_string (JStr s) = Some s"
| "de_string _ = None"

fun de_bool :: "json \<Rightarrow> bool option" where
  "de_bool (JBool b) = Some b"
| "de_bool _ = None"

text \<open>An integer type by its range.\<close>

fun de_int :: "int \<Rightarrow> int \<Rightarrow> json \<Rightarrow> int option" where
  "de_int lo hi (JNum n) = (if lo \<le> n \<and> n \<le> hi then Some n else None)"
| "de_int lo hi _ = None"

definition de_i64 :: "json \<Rightarrow> int option" where
  "de_i64 = de_int (- (2 ^ 63)) (2 ^ 63 - 1)"

definition de_uint :: "nat \<Rightarrow> json \<Rightarrow> int option" where
  "de_uint bits = de_int 0 (2 ^ bits - 1)"

definition de_option :: "(json \<Rightarrow> 'a option) \<Rightarrow> json \<Rightarrow> 'a option option" where
  "de_option de j = (if j = JNull then Some None else map_option Some (de j))"

text \<open>All or nothing over a list.\<close>

fun collect_all :: "'a option list \<Rightarrow> 'a list option" where
  "collect_all [] = Some []"
| "collect_all (None # xs) = None"
| "collect_all (Some x # xs) = map_option (\<lambda>ys. x # ys) (collect_all xs)"

fun de_list :: "(json \<Rightarrow> 'a option) \<Rightarrow> json \<Rightarrow> 'a list option" where
  "de_list de (JArr js) = collect_all (map de js)"
| "de_list de _ = None"

text \<open>A unit variant: its name, or an object with the name and null.\<close>

definition de_enum :: "(string \<times> 'a) list \<Rightarrow> json \<Rightarrow> 'a option" where
  "de_enum names j =
     (case j of JStr s \<Rightarrow> map_of names s | JObj [(k, JNull)] \<Rightarrow> map_of names k | _ \<Rightarrow> None)"

text \<open>
  The values of the named fields of a struct, None for one that is absent and has a default (the
  flag); None altogether for an error.
\<close>

definition obj_member :: "(string \<times> json) list \<Rightarrow> string \<times> bool \<Rightarrow> json option option" where
  "obj_member ms f =
     (case filter (\<lambda>m. fst m = fst f) ms of
        [] \<Rightarrow> (if snd f then Some None else None)
      | [m] \<Rightarrow> Some (Some (snd m))
      | _ \<Rightarrow> None)"

fun positional :: "json list \<Rightarrow> (string \<times> bool) list \<Rightarrow> json option list option" where
  "positional [] [] = Some []"
| "positional (j # js) [] = None"
| "positional [] (f # fs) = (if snd f then map_option (\<lambda>vs. None # vs) (positional [] fs) else None)"
| "positional (j # js) (f # fs) = map_option (\<lambda>vs. Some j # vs) (positional js fs)"

fun struct_fields :: "(string \<times> bool) list \<Rightarrow> json \<Rightarrow> json option list option" where
  "struct_fields fs (JObj ms) = collect_all (map (obj_member ms) fs)"
| "struct_fields fs (JArr js) = positional js fs"
| "struct_fields fs _ = None"

definition or_default :: "'a \<Rightarrow> (json \<Rightarrow> 'a option) \<Rightarrow> json option \<Rightarrow> 'a option" where
  "or_default d de v = (case v of None \<Rightarrow> Some d | Some j \<Rightarrow> de j)"

text \<open>A field without default is always there after \<open>struct_fields\<close>.\<close>

definition required :: "(json \<Rightarrow> 'a option) \<Rightarrow> json option \<Rightarrow> 'a option" where
  "required de v = Option.bind v de"

section \<open>Writing\<close>

text \<open>A member left out by \<open>skip_serializing_if\<close>.\<close>

definition unless :: "bool \<Rightarrow> string \<Rightarrow> json \<Rightarrow> (string \<times> json) list" where
  "unless skip k v = (if skip then [] else [(k, v)])"

definition ser_option :: "('a \<Rightarrow> json) \<Rightarrow> 'a option \<Rightarrow> json" where
  "ser_option ser v = (case v of None \<Rightarrow> JNull | Some x \<Rightarrow> ser x)"

definition ser_list :: "('a \<Rightarrow> json) \<Rightarrow> 'a list \<Rightarrow> json" where
  "ser_list ser xs = JArr (map ser xs)"

section \<open>The interface of a type on the wire\<close>

text \<open>
  What the code relies on when it sends a value and reads it back: reading what was written gives
  the value, for the values \<open>ok\<close> that the type can hold.
\<close>

locale wire_type =
  fixes ser :: "'a \<Rightarrow> json" and de :: "json \<Rightarrow> 'a option" and ok :: "'a \<Rightarrow> bool"
  assumes de_ser: "ok x \<Longrightarrow> de (ser x) = Some x"
begin

lemma ser_inj: "ok x \<Longrightarrow> ok y \<Longrightarrow> ser x = ser y \<Longrightarrow> x = y"
  by (metis de_ser option.inject)

lemma list_back: "list_all ok xs \<Longrightarrow> de_list de (ser_list ser xs) = Some xs"
  by (induction xs) (simp_all add: ser_list_def de_ser)

lemma option_back: "(\<And>x. ser x \<noteq> JNull) \<Longrightarrow> pred_option ok v \<Longrightarrow> de_option de (ser_option ser v) = Some v"
  by (cases v) (simp_all add: de_option_def ser_option_def de_ser)

end

interpretation wire_string: wire_type JStr de_string "\<lambda>_. True"
  by unfold_locales simp

interpretation wire_bool: wire_type JBool de_bool "\<lambda>_. True"
  by unfold_locales simp

interpretation wire_i64: wire_type JNum de_i64 "\<lambda>n. - (2 ^ 63) \<le> n \<and> n \<le> 2 ^ 63 - 1"
  by unfold_locales (simp add: de_i64_def)

section \<open>Lemmas to evaluate reading\<close>

named_theorems serde_simps \<open>reading a struct back from the object it was written to\<close>

lemma filter_unless [serde_simps]:
  "filter (\<lambda>m. fst m = k) (unless skip k' v) = (if \<not> skip \<and> k' = k then [(k', v)] else [])"
  by (simp add: unless_def)

lemma obj_member_eval [serde_simps]:
  "obj_member ms f =
     (let xs = filter (\<lambda>m. fst m = fst f) ms
      in if xs = [] then (if snd f then Some None else None)
         else if tl xs = [] then Some (Some (snd (hd xs))) else None)"
  by (simp add: obj_member_def Let_def split: list.split)

lemmas [serde_simps] = or_default_def required_def

end
