(* ===== verification/Wire.thy ===== *)
theory Wire
  imports Serde Room Presence "HOL-Library.Monad_Syntax"
begin

text \<open>
  \<open>backend/src/sfu/protocol.rs\<close> on the wire: the JSON value of every message the server sends, and
  the reading of every message a client sends, field by field as the \<open>serde\<close> attributes say; the
  frames of the presence feed; and the start of \<open>serve_ws\<close> and \<open>handle_client_message\<close> of
  \<open>sfu/mod.rs\<close>, where a text frame becomes a message of the room model. The parser from text to
  a JSON value is a parameter (\<open>serde_json\<close>).
\<close>

section \<open>Enums\<close>

definition pc_kinds :: "(string \<times> pc_kind) list" where
  "pc_kinds = [(''audio'', PcAudio), (''screen-pub'', PcScreenPub), (''screen-sub'', PcScreenSub)]"

fun ser_pc_kind :: "pc_kind \<Rightarrow> json" where
  "ser_pc_kind PcAudio = JStr ''audio''"
| "ser_pc_kind PcScreenPub = JStr ''screen-pub''"
| "ser_pc_kind PcScreenSub = JStr ''screen-sub''"

definition de_pc_kind :: "json \<Rightarrow> pc_kind option" where
  "de_pc_kind = de_enum pc_kinds"

fun ser_codec :: "screen_video_codec \<Rightarrow> json" where
  "ser_codec Av1C = JStr ''av1''"
| "ser_codec Vp9C = JStr ''vp9''"

fun ser_mode :: "share_mode \<Rightarrow> json" where
  "ser_mode Sharp = JStr ''sharp''"
| "ser_mode Motion = JStr ''motion''"

fun ser_reason :: "share_reason \<Rightarrow> json" where
  "ser_reason NotFound = JStr ''not-found''"
| "ser_reason InvalidToken = JStr ''invalid-token''"
| "ser_reason AlreadyPublishing = JStr ''already-publishing''"
| "ser_reason InternalErr = JStr ''internal''"

text \<open>The lenient mode field: a string that is no mode is absent; what is no string is an error.\<close>

definition de_mode_field :: "json \<Rightarrow> share_mode option option" where
  "de_mode_field j = map_option de_mode (de_option de_string j)"

section \<open>Structs that go both ways\<close>

definition ser_sdp :: "sdp_envelope \<Rightarrow> json" where
  "ser_sdp e =
     JObj ([(''pc'', ser_pc_kind (se_pc e))]
       @ unless (se_publisher_id e = []) ''publisherId'' (JStr (se_publisher_id e))
       @ [(''type'', JStr (se_kind e)), (''sdp'', JStr (se_sdp e))])"

definition de_sdp :: "json \<Rightarrow> sdp_envelope option" where
  "de_sdp j =
     (case struct_fields [(''pc'', False), (''publisherId'', True), (''type'', False), (''sdp'', False)] j of
        Some [pc, pub, kind, sdp] \<Rightarrow>
          do { k \<leftarrow> required de_pc_kind pc; p \<leftarrow> or_default [] de_string pub; t \<leftarrow> required de_string kind;
               s \<leftarrow> required de_string sdp;
               Some \<lparr>se_pc = k, se_publisher_id = p, se_kind = t, se_sdp = s\<rparr> }
      | _ \<Rightarrow> None)"

definition ser_candidate :: "candidate_envelope \<Rightarrow> json" where
  "ser_candidate e =
     JObj ([(''pc'', ser_pc_kind (ce_pc e))]
       @ unless (ce_publisher_id e = []) ''publisherId'' (JStr (ce_publisher_id e))
       @ [(''candidate'', JStr (ce_candidate e)), (''sdpMid'', ser_option JStr (ce_sdp_mid e)),
          (''sdpMLineIndex'', ser_option (\<lambda>w. JNum (uint w)) (ce_sdp_mline_index e)),
          (''usernameFragment'', ser_option JStr (ce_username_fragment e))])"

definition de_u16 :: "json \<Rightarrow> 16 word option" where
  "de_u16 j = map_option word_of_int (de_uint 16 j)"

definition de_candidate :: "json \<Rightarrow> candidate_envelope option" where
  "de_candidate j =
     (case struct_fields [(''pc'', False), (''publisherId'', True), (''candidate'', True), (''sdpMid'', True),
                          (''sdpMLineIndex'', True), (''usernameFragment'', True)] j of
        Some [pc, pub, cand, mid, idx, frag] \<Rightarrow>
          do { k \<leftarrow> required de_pc_kind pc; p \<leftarrow> or_default [] de_string pub; c \<leftarrow> or_default [] de_string cand;
               m \<leftarrow> or_default None (de_option de_string) mid; i \<leftarrow> or_default None (de_option de_u16) idx;
               f \<leftarrow> or_default None (de_option de_string) frag;
               Some \<lparr>ce_pc = k, ce_publisher_id = p, ce_candidate = c, ce_sdp_mid = m, ce_sdp_mline_index = i,
                     ce_username_fragment = f\<rparr> }
      | _ \<Rightarrow> None)"

definition ser_attachment :: "attachment \<Rightarrow> json" where
  "ser_attachment a =
     JObj ([(''uploadId'', JStr (att_upload_id a)), (''kind'', JStr (att_kind a)), (''name'', JStr (att_name a)),
            (''mime'', JStr (att_mime a)), (''size'', JNum (att_size a))]
       @ unless (att_width a = 0) ''width'' (JNum (att_width a))
       @ unless (att_height a = 0) ''height'' (JNum (att_height a))
       @ unless (att_blur_thumb a = []) ''blurThumb'' (JStr (att_blur_thumb a)))"

definition de_attachment :: "json \<Rightarrow> attachment option" where
  "de_attachment j =
     (case struct_fields [(''uploadId'', True), (''kind'', True), (''name'', True), (''mime'', True), (''size'', True),
                          (''width'', True), (''height'', True), (''blurThumb'', True)] j of
        Some [uid, kind, name, mime, sz, width, height, blur] \<Rightarrow>
          do { u \<leftarrow> or_default [] de_string uid; k \<leftarrow> or_default [] de_string kind; n \<leftarrow> or_default [] de_string name;
               m \<leftarrow> or_default [] de_string mime; s \<leftarrow> or_default 0 de_i64 sz; w \<leftarrow> or_default 0 de_i64 width;
               h \<leftarrow> or_default 0 de_i64 height; b \<leftarrow> or_default [] de_string blur;
               Some \<lparr>att_upload_id = u, att_kind = k, att_name = n, att_mime = m, att_size = s, att_width = w,
                     att_height = h, att_blur_thumb = b\<rparr> }
      | _ \<Rightarrow> None)"

section \<open>Client messages\<close>

definition de_hello :: "json \<Rightarrow> hello option" where
  "de_hello j =
     (case struct_fields [(''displayName'', True), (''clientId'', True), (''chatOnly'', True)] j of
        Some [name, client, chat] \<Rightarrow>
          do { n \<leftarrow> or_default [] de_string name; c \<leftarrow> or_default [] de_string client; l \<leftarrow> or_default False de_bool chat;
               Some \<lparr>he_display_name = n, he_client_id = c, he_chat_only = l\<rparr> }
      | _ \<Rightarrow> None)"

text \<open>The payloads of one string field: \<open>PingClient\<close>, \<open>SetDisplayName\<close>, \<open>ChatDelete\<close> and others.\<close>

definition de_one_string :: "string \<Rightarrow> json \<Rightarrow> string option" where
  "de_one_string name j =
     (case struct_fields [(name, True)] j of Some [v] \<Rightarrow> or_default [] de_string v | _ \<Rightarrow> None)"

definition de_ping_client :: "json \<Rightarrow> string option" where "de_ping_client = de_one_string ''to''"
definition de_set_display_name :: "json \<Rightarrow> string option" where "de_set_display_name = de_one_string ''displayName''"
definition de_chat_delete :: "json \<Rightarrow> string option" where "de_chat_delete = de_one_string ''id''"
definition de_share_resume :: "json \<Rightarrow> string option" where "de_share_resume = de_one_string ''sessionToken''"
definition de_share_unsubscribe :: "json \<Rightarrow> string option" where "de_share_unsubscribe = de_one_string ''publisherId''"

definition de_set_state :: "json \<Rightarrow> (bool \<times> bool) option" where
  "de_set_state j =
     (case struct_fields [(''selfMuted'', True), (''deafened'', True)] j of
        Some [muted, deaf] \<Rightarrow> do { m \<leftarrow> or_default False de_bool muted; d \<leftarrow> or_default False de_bool deaf; Some (m, d) }
      | _ \<Rightarrow> None)"

definition de_chat_send :: "json \<Rightarrow> chat_send option" where
  "de_chat_send j =
     (case struct_fields [(''text'', True), (''clientMsgId'', True), (''attachments'', True)] j of
        Some [text, cmid, atts] \<Rightarrow>
          do { t \<leftarrow> or_default [] de_string text; c \<leftarrow> or_default [] de_string cmid;
               a \<leftarrow> or_default None (de_option (de_list de_attachment)) atts;
               Some \<lparr>cs_text = t, cs_client_msg_id = c, cs_attachments = a\<rparr> }
      | _ \<Rightarrow> None)"

definition de_share_start :: "json \<Rightarrow> share_start option" where
  "de_share_start j =
     (case struct_fields [(''sdp'', True), (''hasSystemAudio'', True), (''mode'', True)] j of
        Some [sdp, audio, mode] \<Rightarrow>
          do { s \<leftarrow> or_default [] de_string sdp; a \<leftarrow> or_default False de_bool audio; m \<leftarrow> or_default None de_mode_field mode;
               Some \<lparr>st_sdp = s, st_has_system_audio = a, st_mode = m\<rparr> }
      | _ \<Rightarrow> None)"

definition de_share_subscribe :: "json \<Rightarrow> share_subscribe option" where
  "de_share_subscribe j =
     (case struct_fields [(''publisherId'', True), (''preferredTemporalLayer'', True)] j of
        Some [pub, layer] \<Rightarrow>
          do { p \<leftarrow> or_default [] de_string pub; l \<leftarrow> or_default 0 (de_uint 8) layer;
               Some \<lparr>su_publisher_id = p, su_preferred_temporal_layer = word_of_int l\<rparr> }
      | _ \<Rightarrow> None)"

definition de_mode_change :: "json \<Rightarrow> share_mode option option" where
  "de_mode_change j = (case struct_fields [(''mode'', True)] j of Some [m] \<Rightarrow> or_default None de_mode_field m | _ \<Rightarrow> None)"

text \<open>
  An envelope: the event and the data. The event is borrowed from the text, so one that is written
  with escapes is an error; \<open>plain\<close> says it is not.
\<close>

definition de_envelope :: "bool \<Rightarrow> json \<Rightarrow> (string \<times> json option) option" where
  "de_envelope plain j =
     (case struct_fields [(''event'', False), (''data'', True)] j of
        Some [ev, data] \<Rightarrow>
          do { e \<leftarrow> (if plain then required de_string ev else None); d \<leftarrow> or_default None (de_option Some) data; Some (e, d) }
      | _ \<Rightarrow> None)"

definition client_msg_of :: "string \<Rightarrow> json option \<Rightarrow> client_msg" where
  "client_msg_of ev d =
     (let data = (case d of None \<Rightarrow> JNull | Some j \<Rightarrow> j)
      in if ev = ''ping'' then CPing (de_ping_client data)
         else if ev = ''chat-send'' then CChatSend (de_chat_send data)
         else if ev = ''chat-delete'' then CChatDelete (de_chat_delete data)
         else if ev = ''answer'' then CAnswer (de_sdp data)
         else if ev = ''candidate'' then CCandidate (de_candidate data)
         else if ev = ''set-displayname'' then CSetDisplayName (de_set_display_name data)
         else if ev = ''set-state'' then CSetState (de_set_state data)
         else if ev = ''renegotiate'' then CRenegotiate
         else if ev = ''offer'' then COffer (de_sdp data)
         else if ev = ''screen-share-start'' then CShareStart (de_share_start data)
         else if ev = ''screen-share-stop'' then CShareStop
         else if ev = ''screen-share-resume'' then CShareResume (de_share_resume data)
         else if ev = ''screen-share-subscribe'' then CShareSubscribe (de_share_subscribe data)
         else if ev = ''screen-share-unsubscribe'' then CShareUnsubscribe (de_share_unsubscribe data)
         else if ev = ''screen-share-mode-change'' then CShareModeChange (de_mode_change data)
         else COther ev)"

text \<open>The text frames: \<open>jr\<close> is \<open>serde_json\<close>'s reading, with whether the event has no escapes.\<close>

type_synonym json_reader = "string \<Rightarrow> (json \<times> bool) option"

definition read_envelope :: "json_reader \<Rightarrow> string \<Rightarrow> (string \<times> json option) option" where
  "read_envelope jr raw = do { (j, plain) \<leftarrow> jr raw; de_envelope plain j }"

definition first_frame_of :: "json_reader \<Rightarrow> string \<Rightarrow> first_frame" where
  "first_frame_of jr raw =
     (case read_envelope jr raw of
        None \<Rightarrow> BadJson
      | Some (ev, d) \<Rightarrow>
          Envelope ev (case d of None \<Rightarrow> NoData
                       | Some j \<Rightarrow> (case de_hello j of None \<Rightarrow> BadData | Some h \<Rightarrow> HelloData h)))"

definition handle_frame :: "json_reader \<Rightarrow> step_ctx \<Rightarrow> nat \<Rightarrow> string \<Rightarrow> world \<Rightarrow> world" where
  "handle_frame jr cx r raw w =
     (case read_envelope jr raw of
        None \<Rightarrow> w
      | Some (ev, d) \<Rightarrow> handle_client_message cx r (client_msg_of ev d) w)"

section \<open>Server messages\<close>

definition ser_peer_info :: "peer_info \<Rightarrow> json" where
  "ser_peer_info p =
     JObj ([(''id'', JStr (pi_id p))]
       @ unless (pi_display_name p = []) ''displayName'' (JStr (pi_display_name p))
       @ unless (pi_client_id p = []) ''clientId'' (JStr (pi_client_id p))
       @ unless (\<not> pi_self_muted p) ''selfMuted'' (JBool (pi_self_muted p))
       @ unless (\<not> pi_deafened p) ''deafened'' (JBool (pi_deafened p))
       @ unless (\<not> pi_chat_only p) ''chatOnly'' (JBool (pi_chat_only p))
       @ unless (\<not> pi_screen_sharing p) ''screenSharing'' (JBool (pi_screen_sharing p))
       @ unless (\<not> pi_screen_sharing_has_audio p) ''screenSharingHasAudio'' (JBool (pi_screen_sharing_has_audio p))
       @ unless (pi_screen_sharing_video_codec p = None) ''screenSharingVideoCodec''
           (ser_option ser_codec (pi_screen_sharing_video_codec p)))"

definition ser_audio_slot :: "string \<times> string option \<Rightarrow> json" where
  "ser_audio_slot s = JObj [(''slot'', JStr (fst s)), (''peerId'', ser_option JStr (snd s))]"

definition ser_chat :: "chat \<Rightarrow> json" where
  "ser_chat c =
     JObj ([(''id'', JStr (ch_id c)), (''from'', JStr (ch_from c)), (''text'', JStr (ch_text c)), (''ts'', JNum (ch_ts c))]
       @ unless (ch_client_msg_id c = []) ''clientMsgId'' (JStr (ch_client_msg_id c))
       @ unless (ch_sender_name c = []) ''senderName'' (JStr (ch_sender_name c))
       @ unless (ch_attachments c = []) ''attachments'' (ser_list ser_attachment (ch_attachments c)))"

definition ser_id :: "string \<Rightarrow> json" where "ser_id i = JObj [(''id'', JStr i)]"

definition ALL_LAYERS :: "int list" where "ALL_LAYERS = [0, 1, 2]"

definition ser_encode_layers :: json where
  "ser_encode_layers = JObj [(''layers'', ser_list JNum ALL_LAYERS)]"

definition ser_welcome :: "string \<Rightarrow> peer_info list \<Rightarrow> json" where
  "ser_welcome i ps = JObj [(''id'', JStr i), (''peers'', ser_list ser_peer_info ps)]"

definition ser_peer_state :: "string \<Rightarrow> bool \<Rightarrow> bool \<Rightarrow> json" where
  "ser_peer_state i m d = JObj [(''id'', JStr i), (''selfMuted'', JBool m), (''deafened'', JBool d)]"

definition ser_audio_slots :: "(string \<times> string option) list \<Rightarrow> json" where
  "ser_audio_slots ss = JObj [(''slots'', ser_list ser_audio_slot ss)]"

definition ser_ping :: "string \<Rightarrow> string \<Rightarrow> json" where
  "ser_ping f n = JObj [(''from'', JStr f), (''fromName'', JStr n)]"

definition ser_share_started :: "string \<Rightarrow> json" where
  "ser_share_started t = JObj [(''sessionToken'', JStr t)]"

definition ser_share_available :: "string \<Rightarrow> bool \<Rightarrow> screen_video_codec option \<Rightarrow> share_mode option \<Rightarrow> json" where
  "ser_share_available p a c m =
     JObj ([(''publisherId'', JStr p), (''hasSystemAudio'', JBool a)]
       @ unless (c = None) ''videoCodec'' (ser_option ser_codec c)
       @ unless (m = None) ''mode'' (ser_option ser_mode m))"

definition ser_share_ended :: "string \<Rightarrow> json" where
  "ser_share_ended p = JObj [(''publisherId'', JStr p)]"

definition ser_share_error :: "string \<Rightarrow> share_reason \<Rightarrow> json" where
  "ser_share_error p r = JObj (unless (p = []) ''publisherId'' (JStr p) @ [(''reason'', ser_reason r)])"

definition ser_mode_changed :: "string \<Rightarrow> share_mode \<Rightarrow> json" where
  "ser_mode_changed p m = JObj [(''publisherId'', JStr p), (''mode'', ser_mode m)]"

fun ser_data :: "server_msg \<Rightarrow> json" where
  "ser_data (Welcome i ps) = ser_welcome i ps"
| "ser_data (PeerJoined p) = ser_peer_info p"
| "ser_data (PeerInfoChanged p) = ser_peer_info p"
| "ser_data (PeerLeft i) = ser_id i"
| "ser_data (PeerState i m d) = ser_peer_state i m d"
| "ser_data (AudioSlots ss) = ser_audio_slots ss"
| "ser_data (PingServer f n) = ser_ping f n"
| "ser_data (ChatMsg c) = ser_chat c"
| "ser_data (ChatDeleted i) = ser_id i"
| "ser_data (Offer e) = ser_sdp e"
| "ser_data (Answer e) = ser_sdp e"
| "ser_data (ShareStarted t) = ser_share_started t"
| "ser_data (ShareAvailable p a c m) = ser_share_available p a (Some c) (Some m)"
| "ser_data (ShareEnded p) = ser_share_ended p"
| "ser_data (ShareError p r) = ser_share_error p r"
| "ser_data (ShareModeChanged p m) = ser_mode_changed p m"
| "ser_data EncodePause = ser_encode_layers"
| "ser_data EncodeResume = ser_encode_layers"

text \<open>\<open>envelope(event, data)\<close>, as \<open>Peer::send_event\<close> sends it.\<close>

definition envelope :: "string \<Rightarrow> json \<Rightarrow> json" where
  "envelope ev d = JObj [(''event'', JStr ev), (''data'', d)]"

definition msg :: "server_msg \<Rightarrow> json" where
  "msg m = envelope (event_name m) (ser_data m)"

section \<open>Presence frames\<close>

text \<open>\<open>BTreeMap\<close>: the rooms by ascending name, the last of a name kept.\<close>

definition btree :: "(string \<times> 'a) list \<Rightarrow> (string \<times> 'a) list" where
  "btree m = map (\<lambda>k. (k, the (map_of (rev m) k))) (sort_key (map of_char :: string \<Rightarrow> nat list) (remdups (map fst m)))"

definition ser_presence_snapshot :: "rooms \<Rightarrow> json" where
  "ser_presence_snapshot rs =
     JObj [(''rooms'', JObj (map (\<lambda>(name, ps). (name, JObj [(''peers'', ser_list ser_peer_info ps)])) (btree rs)))]"

definition ser_presence_peer :: "string \<Rightarrow> peer_info \<Rightarrow> json" where
  "ser_presence_peer room p = JObj [(''room'', JStr room), (''peer'', ser_peer_info p)]"

definition ser_presence_peer_left :: "string \<Rightarrow> string \<Rightarrow> json" where
  "ser_presence_peer_left room i = JObj [(''room'', JStr room), (''id'', JStr i)]"

fun presence_event_name :: "frame \<Rightarrow> string" where
  "presence_event_name (Snapshot _) = ''presence-snapshot''"
| "presence_event_name (PeerJoinedF _ _) = ''presence-peer-joined''"
| "presence_event_name (PeerLeftF _ _) = ''presence-peer-left''"
| "presence_event_name (PeerUpdatedF _ _) = ''presence-peer-updated''"

fun presence_data :: "frame \<Rightarrow> json" where
  "presence_data (Snapshot rs) = ser_presence_snapshot rs"
| "presence_data (PeerJoinedF room p) = ser_presence_peer room p"
| "presence_data (PeerLeftF room i) = ser_presence_peer_left room i"
| "presence_data (PeerUpdatedF room p) = ser_presence_peer room p"

text \<open>The lines of a server-sent event, with \<open>show\<close> for \<open>serde_json::to_string\<close>.\<close>

definition sse_frame :: "(json \<Rightarrow> string) \<Rightarrow> frame \<Rightarrow> string" where
  "sse_frame show f = ''event: '' @ presence_event_name f @ [nl] @ ''data: '' @ show (presence_data f) @ [nl, nl]"

section \<open>What is sent can be read\<close>

lemma de_ser_pc_kind: "de_pc_kind (ser_pc_kind k) = Some k"
  by (cases k) (simp_all add: de_pc_kind_def de_enum_def pc_kinds_def)

lemma de_u16_back: "de_u16 (JNum (uint w)) = Some w"
proof -
  have "0 \<le> uint w \<and> uint w \<le> 2 ^ 16 - 1"
    using uint_lt2p [of w] by simp
  then have "de_uint 16 (JNum (uint w)) = Some (uint w)"
    unfolding de_uint_def de_int.simps by (rule if_P)
  then show ?thesis by (simp only: de_u16_def option.map word_of_int_uint)
qed

interpretation wire_u16: wire_type "\<lambda>w. JNum (uint w)" de_u16 "\<lambda>_. True"
  by unfold_locales (rule de_u16_back)

lemma options_back:
  "de_option de_string (ser_option JStr v) = Some v"
  "de_option de_u16 (ser_option (\<lambda>w. JNum (uint w)) i) = Some i"
  using wire_string.option_back [of v] wire_u16.option_back [of i] by (simp_all add: option.pred_True)

interpretation wire_sdp: wire_type ser_sdp de_sdp "\<lambda>_. True"
proof unfold_locales
  fix e :: sdp_envelope
  show "de_sdp (ser_sdp e) = Some e"
    by (cases "se_publisher_id e = []")
      (simp_all add: de_sdp_def ser_sdp_def serde_simps Let_def unless_def de_ser_pc_kind)
qed

interpretation wire_candidate: wire_type ser_candidate de_candidate "\<lambda>_. True"
proof unfold_locales
  fix e :: candidate_envelope
  show "de_candidate (ser_candidate e) = Some e"
    by (cases "ce_publisher_id e = []")
      (simp_all add: de_candidate_def ser_candidate_def serde_simps Let_def unless_def de_ser_pc_kind options_back)
qed

definition is_i64 :: "int \<Rightarrow> bool" where "is_i64 n \<longleftrightarrow> - (2 ^ 63) \<le> n \<and> n \<le> 2 ^ 63 - 1"

definition attachment_ok :: "attachment \<Rightarrow> bool" where
  "attachment_ok a \<longleftrightarrow> is_i64 (att_size a) \<and> is_i64 (att_width a) \<and> is_i64 (att_height a)"

lemma de_i64_back: "is_i64 n \<Longrightarrow> de_i64 (JNum n) = Some n"
  using wire_i64.de_ser [of n] by (simp add: is_i64_def)

interpretation wire_attachment: wire_type ser_attachment de_attachment attachment_ok
proof unfold_locales
  fix a :: attachment
  assume "attachment_ok a"
  then have i: "de_i64 (JNum (att_size a)) = Some (att_size a)" "de_i64 (JNum (att_width a)) = Some (att_width a)"
      "de_i64 (JNum (att_height a)) = Some (att_height a)"
    by (simp_all add: attachment_ok_def de_i64_back)
  show "de_attachment (ser_attachment a) = Some a"
    by (cases "att_width a = 0"; cases "att_height a = 0"; cases "att_blur_thumb a = []")
      (simp_all add: de_attachment_def ser_attachment_def serde_simps Let_def unless_def i)
qed

text \<open>The fields of a written object, to compare two of them member by member.\<close>

definition fld :: "json \<Rightarrow> string \<Rightarrow> json option" where
  "fld j k = (case j of JObj ms \<Rightarrow> map_of ms k | _ \<Rightarrow> None)"

lemma map_of_unless:
  "map_of (unless b k v @ ms) x = (if \<not> b \<and> x = k then Some v else map_of ms x)"
  "map_of (unless b k v) x = (if \<not> b \<and> x = k then Some v else None)"
  by (simp_all add: unless_def)

lemma fld_eq: "j = j' \<Longrightarrow> fld j k = fld j' k"
  by simp

lemma ser_codec_inj: "ser_codec c = ser_codec d \<Longrightarrow> c = d"
  by (cases c; cases d) simp_all

lemma ser_mode_inj: "ser_mode c = ser_mode d \<Longrightarrow> c = d"
  by (cases c; cases d) simp_all

lemma ser_reason_inj: "ser_reason c = ser_reason d \<Longrightarrow> c = d"
  by (cases c; cases d) simp_all

lemma ser_option_inj:
  "ser_option ser u = ser_option ser v \<Longrightarrow> (\<And>x y. ser x = ser y \<Longrightarrow> x = y) \<Longrightarrow> (\<And>x. ser x \<noteq> JNull) \<Longrightarrow> u = v"
  by (cases u; cases v) (auto simp: ser_option_def dest: sym)

lemma ser_list_inj: "ser_list ser xs = ser_list ser ys \<Longrightarrow> (\<And>x y. ser x = ser y \<Longrightarrow> x = y) \<Longrightarrow> xs = ys"
  unfolding ser_list_def by (auto simp: inj_def intro: map_injective)

lemma ser_peer_info_inj:
  assumes "ser_peer_info p = ser_peer_info q"
  shows "p = q"
proof -
  note f = fld_eq [OF assms, unfolded ser_peer_info_def fld_def json.case append_Cons append_Nil map_of_unless
      map_of.simps fst_conv snd_conv]
  have codec: "ser_codec c \<noteq> JNull" for c by (cases c) simp_all
  have "pi_id p = pi_id q" using f [of "''id''"] by simp
  moreover have "pi_display_name p = pi_display_name q" using f [of "''displayName''"] by (simp split: if_splits)
  moreover have "pi_client_id p = pi_client_id q" using f [of "''clientId''"] by (simp split: if_splits)
  moreover have "pi_self_muted p = pi_self_muted q" using f [of "''selfMuted''"] by (simp split: if_splits)
  moreover have "pi_deafened p = pi_deafened q" using f [of "''deafened''"] by (simp split: if_splits)
  moreover have "pi_chat_only p = pi_chat_only q" using f [of "''chatOnly''"] by (simp split: if_splits)
  moreover have "pi_screen_sharing p = pi_screen_sharing q" using f [of "''screenSharing''"] by (simp split: if_splits)
  moreover have "pi_screen_sharing_has_audio p = pi_screen_sharing_has_audio q"
    using f [of "''screenSharingHasAudio''"] by (simp split: if_splits)
  moreover have "pi_screen_sharing_video_codec p = pi_screen_sharing_video_codec q"
    using f [of "''screenSharingVideoCodec''"]
    by (auto simp: codec dest!: ser_option_inj [OF _ ser_codec_inj codec] split: if_splits)
  ultimately show ?thesis by (intro peer_info.equality) simp_all
qed

lemma ser_attachment_inj:
  assumes "ser_attachment a = ser_attachment b"
  shows "a = b"
proof -
  note f = fld_eq [OF assms, unfolded ser_attachment_def fld_def json.case append_Cons append_Nil map_of_unless
      map_of.simps fst_conv snd_conv]
  have "att_upload_id a = att_upload_id b" using f [of "''uploadId''"] by simp
  moreover have "att_kind a = att_kind b" using f [of "''kind''"] by simp
  moreover have "att_name a = att_name b" using f [of "''name''"] by simp
  moreover have "att_mime a = att_mime b" using f [of "''mime''"] by simp
  moreover have "att_size a = att_size b" using f [of "''size''"] by simp
  moreover have "att_width a = att_width b" using f [of "''width''"] by (simp split: if_splits)
  moreover have "att_height a = att_height b" using f [of "''height''"] by (simp split: if_splits)
  moreover have "att_blur_thumb a = att_blur_thumb b" using f [of "''blurThumb''"] by (simp split: if_splits)
  ultimately show ?thesis by (intro attachment.equality) simp_all
qed

lemma ser_chat_inj:
  assumes "ser_chat c = ser_chat d"
  shows "c = d"
proof -
  note f = fld_eq [OF assms, unfolded ser_chat_def fld_def json.case append_Cons append_Nil map_of_unless
      map_of.simps fst_conv snd_conv]
  have empty: "ser_list ser_attachment xs = ser_list ser_attachment ys \<Longrightarrow> xs = ys" for xs ys
    by (rule ser_list_inj [OF _ ser_attachment_inj])
  have "ch_id c = ch_id d" using f [of "''id''"] by simp
  moreover have "ch_from c = ch_from d" using f [of "''from''"] by simp
  moreover have "ch_text c = ch_text d" using f [of "''text''"] by simp
  moreover have "ch_ts c = ch_ts d" using f [of "''ts''"] by simp
  moreover have "ch_client_msg_id c = ch_client_msg_id d" using f [of "''clientMsgId''"] by (simp split: if_splits)
  moreover have "ch_sender_name c = ch_sender_name d" using f [of "''senderName''"] by (simp split: if_splits)
  moreover have "ch_attachments c = ch_attachments d" using f [of "''attachments''"] by (auto dest: empty split: if_splits)
  ultimately show ?thesis by (intro chat.equality) simp_all
qed

lemma ser_audio_slot_inj: "ser_audio_slot s = ser_audio_slot t \<Longrightarrow> s = t"
  by (cases s; cases t) (auto simp: ser_audio_slot_def dest: ser_option_inj)

lemma event_name_pause: "event_name m = event_name m' \<Longrightarrow> (m = EncodePause) = (m' = EncodePause)"
  by (cases m; cases m') simp_all

lemma ser_sdp_inj: "ser_sdp e = ser_sdp e' \<Longrightarrow> e = e'"
  by (rule wire_sdp.ser_inj) simp_all

lemma ser_share_error_inj: "ser_share_error p r = ser_share_error p' r' \<Longrightarrow> p = p' \<and> r = r'"
  by (auto simp: ser_share_error_def unless_def ser_reason_inj split: if_splits)

lemma ser_data_inj:
  assumes "event_name m = event_name m'" and "ser_data m = ser_data m'"
  shows "m = m'"
proof (cases m)
  case (Welcome i ps)
  with assms show ?thesis
    by (cases m') (auto simp: ser_welcome_def dest: ser_list_inj [OF _ ser_peer_info_inj])
next
  case (AudioSlots ss)
  with assms show ?thesis
    by (cases m') (auto simp: ser_audio_slots_def dest: ser_list_inj [OF _ ser_audio_slot_inj])
next
  case (ShareError p r)
  with assms show ?thesis by (cases m') (auto dest: ser_share_error_inj)
next
  case (ShareAvailable p a c md)
  with assms show ?thesis
    by (cases m') (auto simp: ser_share_available_def unless_def ser_option_def dest: ser_codec_inj ser_mode_inj)
qed (use assms in \<open>cases m'; auto simp: ser_id_def ser_peer_state_def ser_ping_def ser_share_started_def ser_share_ended_def
      ser_mode_changed_def dest: ser_peer_info_inj ser_chat_inj ser_sdp_inj ser_mode_inj\<close>)+

text \<open>
  C18. The server's messages are told apart on the wire: two messages with the same JSON envelope
  are the same message, although defaults (empty names, false flags, empty lists) are left out.
\<close>

theorem server_messages_distinct:
  assumes "msg m = msg m'"
  shows "m = m'"
  using assms ser_data_inj by (auto simp: msg_def envelope_def)

theorem server_messages_distinct_witness:
  "PeerLeft ''a'' = PeerLeft (''a'' @ [])"
  by (rule server_messages_distinct) simp

text \<open>
  Signaling comes through unchanged: an answer that was written as the protocol says, whatever
  its kind, publisher and SDP, is read back as the same envelope and reaches the answer handler.
\<close>

theorem answer_reaches_handler:
  assumes "jr raw = Some (envelope ''answer'' (ser_sdp e), True)" and "\<not> po_chat_only (w_peer w r)"
  shows "handle_frame jr cx r raw w = handle_answer cx r e w"
proof -
  have env: "de_envelope True (envelope ''answer'' (ser_sdp e)) = Some (''answer'', Some (ser_sdp e))"
    by (simp add: de_envelope_def envelope_def serde_simps Let_def de_option_def ser_sdp_def)
  have "client_msg_of ''answer'' (Some (ser_sdp e)) = CAnswer (Some e)"
    using wire_sdp.de_ser [of e] by (simp add: client_msg_of_def)
  with assms env show ?thesis
    by (simp add: handle_frame_def read_envelope_def handle_client_message_def)
qed

definition toy_cx :: step_ctx where
  "toy_cx =
     \<lparr>cx_now = 0, cx_env = \<lparr>re_mids = (\<lambda>_ _. []), re_applied = (\<lambda>_. True), re_offer_sdp = (\<lambda>_ _. [])\<rparr>,
      cx_accepted = True, cx_token = [], cx_setup = BadOffer, cx_offer = None, cx_answer = None, cx_chat_id = [],
      cx_chat_ts = 0, cx_files = (\<lambda>_. None)\<rparr>"

theorem answer_reaches_handler_witness:
  "handle_frame (\<lambda>_. Some (envelope ''answer''
        (ser_sdp \<lparr>se_pc = PcAudio, se_publisher_id = [], se_kind = ''answer'', se_sdp = ''v=0''\<rparr>), True))
      toy_cx 0 ''raw'' (new_room ''r'')
   = handle_answer toy_cx 0 \<lparr>se_pc = PcAudio, se_publisher_id = [], se_kind = ''answer'', se_sdp = ''v=0''\<rparr> (new_room ''r'')"
  by (rule answer_reaches_handler) (simp_all add: new_room_def)

text \<open>A first frame without a readable \<open>hello\<close> payload joins with the defaults.\<close>

lemma hello_defaults:
  "read_envelope jr raw = Some (''hello'', d) \<Longrightarrow> Option.bind d de_hello = None \<Longrightarrow>
   read_hello (first_frame_of jr raw) = Some default_hello"
  by (auto simp: first_frame_of_def split: option.splits)

text \<open>An unknown mode is no error: the message is read with the mode absent.\<close>

lemma unknown_mode_absent:
  "s \<noteq> ''sharp'' \<Longrightarrow> s \<noteq> ''motion'' \<Longrightarrow> de_mode_change (JObj [(''mode'', JStr s)]) = Some None"
  by (simp add: de_mode_change_def serde_simps Let_def de_mode_field_def de_option_def de_mode_def)

end
