(* ===== verification/Conn.thy ===== *)
theory Conn
  imports Wire
begin

text \<open>
  One WebSocket connection of a room, \<open>backend/src/sfu/mod.rs\<close>: the frames that are read
  (\<open>next_frame\<close>), the course of \<open>serve_ws\<close> from the hello to the end as the room steps it causes,
  and the task that writes queued messages, pings and checks for pongs (\<open>write_loop\<close>). The socket
  is \<open>tungstenite\<close>'s: what arrives, and whether a write succeeds in time, are arguments.
\<close>

section \<open>The code: reading\<close>

datatype ws_item = TextMsg string | BinaryMsg string | PongMsg | CloseMsg | ReadError | OtherMsg

text \<open>The items arrive with their times; the end of the list is the end of the stream.\<close>

fun ws_next_frame :: "(instant \<times> ws_item) list \<Rightarrow> instant \<Rightarrow> string option \<times> (instant \<times> ws_item) list \<times> instant" where
  "ws_next_frame [] pong = (None, [], pong)"
| "ws_next_frame ((now, m) # ms) pong =
     (case m of
        TextMsg t \<Rightarrow> (Some t, ms, pong)
      | BinaryMsg b \<Rightarrow> (Some (from_utf8_lossy b), ms, pong)
      | PongMsg \<Rightarrow> ws_next_frame ms now
      | CloseMsg \<Rightarrow> (None, ms, pong)
      | ReadError \<Rightarrow> (None, ms, pong)
      | OtherMsg \<Rightarrow> ws_next_frame ms pong)"

text \<open>
  What the serving task takes up: an item, the hello timer, or (in the loop only) its cancelled
  token; which of several that are ready is the order of the list.
\<close>

definition HELLO_TIMEOUT :: duration where "HELLO_TIMEOUT = secs 10"

datatype conn_input = Item ws_item | HelloTimer | Cancelled

text \<open>
  The message loop: every frame with an envelope is a message of peer \<open>r\<close>, in order; the loop ends
  with a close, an error or the cancellation, and then the peer leaves.
\<close>

fun frame_text :: "ws_item \<Rightarrow> string option" where
  "frame_text (TextMsg t) = Some t"
| "frame_text (BinaryMsg b) = Some (from_utf8_lossy b)"
| "frame_text _ = None"

fun serve_loop :: "json_reader \<Rightarrow> nat \<Rightarrow> conn_input list \<Rightarrow> room_event list" where
  "serve_loop jr r [] = []"
| "serve_loop jr r (Cancelled # ins) = [Leave r]"
| "serve_loop jr r (HelloTimer # ins) = serve_loop jr r ins"
| "serve_loop jr r (Item m # ins) =
     (case frame_text m of
        Some raw \<Rightarrow>
          (case read_envelope jr raw of
             None \<Rightarrow> serve_loop jr r ins
           | Some (ev, d) \<Rightarrow> Message r (client_msg_of ev d) # serve_loop jr r ins)
      | None \<Rightarrow> if m = CloseMsg \<or> m = ReadError then [Leave r] else serve_loop jr r ins)"

text \<open>
  \<open>serve_ws\<close>: nothing happens in the room before a hello in time. \<open>r\<close> is the peer object the
  join makes. Before the loop the token is not looked at.
\<close>

fun serve_ws :: "json_reader \<Rightarrow> string \<Rightarrow> nat \<Rightarrow> conn_input list \<Rightarrow> room_event list" where
  "serve_ws jr pid r [] = []"
| "serve_ws jr pid r (HelloTimer # ins) = []"
| "serve_ws jr pid r (Cancelled # ins) = serve_ws jr pid r ins"
| "serve_ws jr pid r (Item m # ins) =
     (case frame_text m of
        Some raw \<Rightarrow>
          (if read_hello (first_frame_of jr raw) = None then []
           else Join pid (first_frame_of jr raw) # serve_loop jr r ins)
      | None \<Rightarrow> if m = CloseMsg \<or> m = ReadError then [] else serve_ws jr pid r ins)"

section \<open>The code: writing\<close>

definition KEEPALIVE :: duration where "KEEPALIVE = secs 25"
definition WRITE_TIMEOUT :: duration where "WRITE_TIMEOUT = secs 5"

datatype ws_out = OutText json | OutPing | OutClose nat string

text \<open>
  The state of \<open>write_loop\<close>: the next tick of the ping interval, the deadline of an expected pong
  with the time its ping was sent, and what has been written.
\<close>

record writer =
  wr_ping_at :: instant
  wr_deadline :: "(instant \<times> instant) option"
  wr_written :: "ws_out list"

datatype writer_state = Running writer | Dropped writer | Finished writer

text \<open>
  One turn of the biased \<open>select!\<close>: the time, the token, the queue (nothing, the channel's end, or
  a message), the last pong, and for a write whether it succeeds within its timeout and when.
\<close>

record turn =
  tn_now :: instant
  tn_cancelled :: bool
  tn_queue :: "json option option"
  tn_pong :: instant
  tn_write_ok :: bool
  tn_after :: instant
  tn_shutting_down :: bool

definition close_frame :: "bool \<Rightarrow> ws_out" where
  "close_frame shutting_down = (if shutting_down then OutClose 1001 ''server shutting down'' else OutClose 1000 [])"

definition wrote :: "ws_out \<Rightarrow> writer \<Rightarrow> writer" where
  "wrote f w = w\<lparr>wr_written := wr_written w @ [f]\<rparr>"

text \<open>After the loop a close frame is sent; whether that succeeds does not matter.\<close>

definition finish :: "turn \<Rightarrow> writer \<Rightarrow> writer_state" where
  "finish t w = Finished (if tn_write_ok t then wrote (close_frame (tn_shutting_down t)) w else w)"

definition writer_turn :: "turn \<Rightarrow> writer \<Rightarrow> writer_state" where
  "writer_turn t w =
     (if tn_cancelled t then finish t w
      else case tn_queue t of
        Some None \<Rightarrow> finish t w
      | Some (Some m) \<Rightarrow> if tn_write_ok t then Running (wrote (OutText m) w) else Dropped w
      | None \<Rightarrow>
          if wr_ping_at w \<le> tn_now t
          then (let w1 = w\<lparr>wr_ping_at := wr_ping_at w + KEEPALIVE\<rparr>
                in if tn_write_ok t
                   then Running ((wrote OutPing w1)\<lparr>wr_deadline := Some (tn_after t + WRITE_TIMEOUT, tn_now t)\<rparr>)
                   else Dropped w1)
          else case wr_deadline w of
                 None \<Rightarrow> Running w
               | Some (d, sent) \<Rightarrow>
                   if d \<le> tn_now t
                   then (let w1 = w\<lparr>wr_deadline := None\<rparr> in if tn_pong t < sent then Dropped w1 else Running w1)
                   else Running w)"

definition new_writer :: "instant \<Rightarrow> writer" where
  "new_writer now = \<lparr>wr_ping_at = now + KEEPALIVE, wr_deadline = None, wr_written = []\<rparr>"

fun writer_run :: "turn list \<Rightarrow> writer_state \<Rightarrow> writer_state" where
  "writer_run (t # ts) (Running w) = writer_run ts (writer_turn t w)"
| "writer_run _ s = s"

text \<open>When an idle loop is woken next.\<close>

definition wake_at :: "writer \<Rightarrow> instant" where
  "wake_at w = (case wr_deadline w of None \<Rightarrow> wr_ping_at w | Some (d, _) \<Rightarrow> min d (wr_ping_at w))"

definition idle_turn :: "writer \<Rightarrow> instant \<Rightarrow> duration \<Rightarrow> turn" where
  "idle_turn w pong delay =
     \<lparr>tn_now = wake_at w, tn_cancelled = False, tn_queue = None, tn_pong = pong, tn_write_ok = True,
      tn_after = wake_at w + delay, tn_shutting_down = False\<rparr>"

section \<open>Properties\<close>

text \<open>A joined connection leaves at most once, at the end, and nothing follows.\<close>

lemma serve_loop_shape:
  "\<exists>ms. serve_loop jr r ins = map (Message r) ms \<or> serve_loop jr r ins = map (Message r) ms @ [Leave r]"
proof (induction jr r ins rule: serve_loop.induct)
  case (2 jr r ins)
  show ?case by (rule exI [of _ "[]"]) simp
next
  case (4 jr r m ins)
  show ?case
  proof (cases "frame_text m")
    case None
    with 4(1) show ?thesis by (auto intro: exI [of _ "[]"])
  next
    case (Some raw)
    show ?thesis
    proof (cases "read_envelope jr raw")
      case None
      with Some 4 show ?thesis by auto
    next
      case env: (Some e)
      obtain ev d where e: "e = (ev, d)" by (cases e)
      with Some env 4(3) obtain ms where
        "serve_loop jr r ins = map (Message r) ms \<or> serve_loop jr r ins = map (Message r) ms @ [Leave r]" by blast
      with Some env e show ?thesis by (auto intro: exI [of _ "client_msg_of ev d # ms"])
    qed
  qed
qed (auto intro: exI [of _ "[]"])

definition session_shape :: "string \<Rightarrow> nat \<Rightarrow> room_event list \<Rightarrow> bool" where
  "session_shape pid r evs \<longleftrightarrow>
     evs = [] \<or> (\<exists>f h ms. read_hello f = Some h \<and> (evs = Join pid f # map (Message r) ms \<or> evs = Join pid f # map (Message r) ms @ [Leave r]))"

text \<open>
  C13. Whatever a client sends, its connection is one session of the room: nothing at all, or one
  join with a readable hello, then messages, and one leave at the end of the connection, after which
  nothing comes.
\<close>

theorem connection_is_one_session:
  "session_shape pid r (serve_ws jr pid r ins)"
proof (induction jr pid r ins rule: serve_ws.induct)
  case (4 jr pid r m ins)
  show ?case
  proof (cases "frame_text m")
    case None
    with 4 show ?thesis by (auto simp: session_shape_def)
  next
    case (Some raw)
    show ?thesis
    proof (cases "read_hello (first_frame_of jr raw)")
      case None
      with Some show ?thesis by (simp add: session_shape_def)
    next
      case hello: (Some h)
      obtain ms where "serve_loop jr r ins = map (Message r) ms \<or> serve_loop jr r ins = map (Message r) ms @ [Leave r]"
        using serve_loop_shape [of jr r ins] by blast
      with Some hello have "serve_ws jr pid r (Item m # ins) = Join pid (first_frame_of jr raw) # map (Message r) ms
          \<or> serve_ws jr pid r (Item m # ins) = Join pid (first_frame_of jr raw) # map (Message r) ms @ [Leave r]"
        by auto
      with hello show ?thesis unfolding session_shape_def by blast
    qed
  qed
qed (simp_all add: session_shape_def)

text \<open>
  Keepalive: from a quiet state (no pong outstanding) an idle connection is pinged at the next
  tick and checked at most ten seconds later; the check drops the peer exactly when its last pong is
  older than that ping.
\<close>

theorem silent_peer_dropped:
  assumes "wr_deadline w = None" and "delay \<le> WRITE_TIMEOUT"
  shows "\<exists>w1 w2. writer_turn (idle_turn w pong delay) w = Running w1 \<and> wake_at w1 \<le> wr_ping_at w + secs 10 \<and>
    wr_written w1 = wr_written w @ [OutPing] \<and>
    writer_turn (idle_turn w1 pong' delay') w1 = (if pong' < wr_ping_at w then Dropped w2 else Running w2)"
proof -
  define w1 where "w1 = (wrote OutPing (w\<lparr>wr_ping_at := wr_ping_at w + KEEPALIVE\<rparr>))
      \<lparr>wr_deadline := Some (wr_ping_at w + delay + WRITE_TIMEOUT, wr_ping_at w)\<rparr>"
  have ping: "writer_turn (idle_turn w pong delay) w = Running w1"
    using assms by (simp add: writer_turn_def idle_turn_def wake_at_def w1_def)
  have w1: "wr_deadline w1 = Some (wr_ping_at w + delay + WRITE_TIMEOUT, wr_ping_at w)"
      "wr_ping_at w1 = wr_ping_at w + KEEPALIVE" "wr_written w1 = wr_written w @ [OutPing]"
    by (simp_all add: w1_def wrote_def)
  have d: "wr_ping_at w + delay + WRITE_TIMEOUT < wr_ping_at w + KEEPALIVE"
    using assms by (simp add: WRITE_TIMEOUT_def KEEPALIVE_def)
  then have wake: "wake_at w1 = wr_ping_at w + delay + WRITE_TIMEOUT"
    by (simp add: wake_at_def w1)
  have "writer_turn (idle_turn w1 pong' delay') w1 =
      (if pong' < wr_ping_at w then Dropped (w1\<lparr>wr_deadline := None\<rparr>) else Running (w1\<lparr>wr_deadline := None\<rparr>))"
    using d by (simp add: writer_turn_def idle_turn_def wake w1)
  moreover have "wake_at w1 \<le> wr_ping_at w + secs 10"
    using assms(2) by (simp add: wake WRITE_TIMEOUT_def)
  ultimately show ?thesis using ping w1(3) by blast
qed

text \<open>What is written is what was queued, in order: a turn never skips or repeats a message.\<close>

definition texts :: "ws_out list \<Rightarrow> json list" where
  "texts fs = List.map_filter (\<lambda>f. case f of OutText m \<Rightarrow> Some m | _ \<Rightarrow> None) fs"

lemma turn_writes_queue:
  "writer_turn t w = Running w1 \<Longrightarrow>
   texts (wr_written w1) = texts (wr_written w) @ (case tn_queue t of Some (Some m) \<Rightarrow> [m] | _ \<Rightarrow> [])"
  by (auto simp: writer_turn_def finish_def wrote_def texts_def Let_def map_filter_def split: if_splits option.splits)

theorem silent_peer_dropped_witness:
  "\<exists>w1 w2. writer_turn (idle_turn (new_writer 0) 0 7) (new_writer 0) = Running w1
     \<and> wake_at w1 \<le> wr_ping_at (new_writer 0) + secs 10
     \<and> wr_written w1 = wr_written (new_writer 0) @ [OutPing]
     \<and> writer_turn (idle_turn w1 3 0) w1 = (if 3 < wr_ping_at (new_writer 0) then Dropped w2 else Running w2)"
  by (rule silent_peer_dropped) (simp_all add: new_writer_def WRITE_TIMEOUT_def)

end
