(* ===== verification/Listener.thy ===== *)
theory Listener
  imports Serde
begin

text \<open>
  The desktop shell's global shortcut, \<open>src-tauri/src/shortcut.rs\<close>, \<open>listener.rs\<close> and
  \<open>commands.rs\<close>, and the flashing of the tray icon (\<open>tray_flash.rs\<close>) with the window events of
  \<open>lib.rs\<close> that touch both. A key of \<open>rdev\<close> is the name of its variant. What a call into the
  system answers is an argument; what the shell emits is a list. The state mutex is never poisoned.
\<close>

section \<open>shortcut.rs\<close>

datatype input_binding = Keyboard "string list" | Mouse string

text \<open>The enum is internally tagged by \<open>kind\<close>, with the variants in camel case.\<close>

fun ser_binding :: "input_binding \<Rightarrow> json" where
  "ser_binding (Keyboard keys) = JObj [(''kind'', JStr ''keyboard''), (''keys'', ser_list JStr keys)]"
| "ser_binding (Mouse button) = JObj [(''kind'', JStr ''mouse''), (''button'', JStr button)]"

definition de_variant :: "string \<Rightarrow> json \<Rightarrow> input_binding option" where
  "de_variant tag j =
     (if tag = ''keyboard''
      then (case struct_fields [(''keys'', False)] j of
              Some [v] \<Rightarrow> map_option Keyboard (required (de_list de_string) v) | _ \<Rightarrow> None)
      else if tag = ''mouse''
      then (case struct_fields [(''button'', False)] j of
              Some [v] \<Rightarrow> map_option Mouse (required de_string v) | _ \<Rightarrow> None)
      else None)"

fun de_binding :: "json \<Rightarrow> input_binding option" where
  "de_binding (JObj ms) =
     (case filter (\<lambda>m. fst m = ''kind'') ms of
        [(_, JStr tag)] \<Rightarrow> de_variant tag (JObj (filter (\<lambda>m. fst m \<noteq> ''kind'') ms))
      | _ \<Rightarrow> None)"
| "de_binding (JArr (JStr tag # js)) = de_variant tag (JArr js)"
| "de_binding _ = None"

text \<open>The file: None is a failed write or a config directory that cannot be made.\<close>

definition save :: "bool \<Rightarrow> input_binding option \<Rightarrow> json option \<Rightarrow> bool \<times> json option" where
  "save ok b file = (if ok then (True, Some (ser_option ser_binding b)) else (False, file))"

text \<open>
  \<open>load\<close>: the outer None is a missing, unreadable or malformed file. \<open>file\<close> is its JSON value,
  None when there is none or its bytes are no JSON.
\<close>

definition load :: "bool \<Rightarrow> json option \<Rightarrow> input_binding option option" where
  "load ok file = (if \<not> ok then None else Option.bind file (de_option de_binding))"

definition default_binding :: input_binding where
  "default_binding = Keyboard [''Ctrl'', ''Shift'', ''M'']"

definition load_or_seed :: "bool \<Rightarrow> bool \<Rightarrow> json option \<Rightarrow> input_binding option \<times> json option" where
  "load_or_seed read_ok write_ok file =
     (case load read_ok file of
        Some stored \<Rightarrow> (stored, file)
      | None \<Rightarrow> (Some default_binding, snd (save write_ok (Some default_binding) file)))"

section \<open>listener.rs: keys and buttons\<close>

type_synonym key = string

datatype button = LeftB | RightB | MiddleB | UnknownB "8 word"

definition COOLDOWN :: duration where "COOLDOWN = millis 80"

definition MODIFIERS :: "(string \<times> key list) list" where
  "MODIFIERS =
     [(''Ctrl'', [''ControlLeft'', ''ControlRight'']), (''Shift'', [''ShiftLeft'', ''ShiftRight'']),
      (''Alt'', [''Alt'', ''AltGr'']), (''Meta'', [''MetaLeft'', ''MetaRight''])]"

definition key_table :: "(string \<times> key) list" where
  "key_table =
    [(''A'', ''KeyA''), (''B'', ''KeyB''), (''C'', ''KeyC''), (''D'', ''KeyD''), (''E'', ''KeyE''),
     (''F'', ''KeyF''), (''G'', ''KeyG''), (''H'', ''KeyH''), (''I'', ''KeyI''), (''J'', ''KeyJ''),
     (''K'', ''KeyK''), (''L'', ''KeyL''), (''M'', ''KeyM''), (''N'', ''KeyN''), (''O'', ''KeyO''),
     (''P'', ''KeyP''), (''Q'', ''KeyQ''), (''R'', ''KeyR''), (''S'', ''KeyS''), (''T'', ''KeyT''),
     (''U'', ''KeyU''), (''V'', ''KeyV''), (''W'', ''KeyW''), (''X'', ''KeyX''), (''Y'', ''KeyY''),
     (''Z'', ''KeyZ''), (''0'', ''Num0''), (''1'', ''Num1''), (''2'', ''Num2''), (''3'', ''Num3''),
     (''4'', ''Num4''), (''5'', ''Num5''), (''6'', ''Num6''), (''7'', ''Num7''), (''8'', ''Num8''),
     (''9'', ''Num9''), (''F1'', ''F1''), (''F2'', ''F2''), (''F3'', ''F3''), (''F4'', ''F4''),
     (''F5'', ''F5''), (''F6'', ''F6''), (''F7'', ''F7''), (''F8'', ''F8''), (''F9'', ''F9''),
     (''F10'', ''F10''), (''F11'', ''F11''), (''F12'', ''F12''), (''Space'', ''Space''), (''Tab'', ''Tab''),
     (''Enter'', ''Return''), (''Backspace'', ''Backspace''), (''Delete'', ''Delete''),
     (''Escape'', ''Escape''), (''Insert'', ''Insert''), (''Home'', ''Home''), (''End'', ''End''),
     (''PageUp'', ''PageUp''), (''PageDown'', ''PageDown''), (''Up'', ''UpArrow''),
     (''Down'', ''DownArrow''), (''Left'', ''LeftArrow''), (''Right'', ''RightArrow''),
     (''CapsLock'', ''CapsLock''), (''NumLock'', ''NumLock''), (''ScrollLock'', ''ScrollLock''),
     (''Pause'', ''Pause''), (''PrintScreen'', ''PrintScreen''), (''-'', ''Minus''), (''='', ''Equal''),
     (''['', ''LeftBracket''), ('']'', ''RightBracket''), ([CHR 0x5C], ''BackSlash''),
     ('';'', ''SemiColon''), ([CHR 0x27], ''Quote''), ('','', ''Comma''), (''.'', ''Dot''),
     (''/'', ''Slash''), ([CHR 0x60], ''BackQuote''), (''Num0'', ''Kp0''), (''Num1'', ''Kp1''),
     (''Num2'', ''Kp2''), (''Num3'', ''Kp3''), (''Num4'', ''Kp4''), (''Num5'', ''Kp5''),
     (''Num6'', ''Kp6''), (''Num7'', ''Kp7''), (''Num8'', ''Kp8''), (''Num9'', ''Kp9''),
     (''Num+'', ''KpPlus''), (''Num-'', ''KpMinus''), (''Num*'', ''KpMultiply''), (''Num/'', ''KpDivide''),
     (''NumEnter'', ''KpReturn''), (''Num.'', ''KpDelete'')]"

definition label_to_key :: "string \<Rightarrow> key option" where
  "label_to_key label = map_of key_table label"

definition is_modifier :: "key \<Rightarrow> bool" where
  "is_modifier k = list_ex (\<lambda>m. k \<in> set (snd m)) MODIFIERS"

definition is_modifier_label :: "string \<Rightarrow> bool" where
  "is_modifier_label label = list_ex (\<lambda>m. fst m = label) MODIFIERS"

fun is_modifier_only_binding :: "input_binding option \<Rightarrow> bool" where
  "is_modifier_only_binding (Some (Keyboard keys)) = (keys \<noteq> [] \<and> list_all is_modifier_label keys)"
| "is_modifier_only_binding _ = False"

fun matches_keyboard :: "input_binding option \<Rightarrow> key set \<Rightarrow> bool" where
  "matches_keyboard (Some (Keyboard keys)) pressed =
     (list_all (\<lambda>m. (fst m \<in> set keys) = list_ex (\<lambda>v. v \<in> pressed) (snd m)) MODIFIERS \<and>
      list_all (\<lambda>label. case label_to_key label of None \<Rightarrow> False | Some k \<Rightarrow> k \<in> pressed)
        (filter (\<lambda>label. \<not> is_modifier_label label) keys))"
| "matches_keyboard _ pressed = False"

fun button_label :: "button \<Rightarrow> string option" where
  "button_label RightB = Some ''Right''"
| "button_label MiddleB = Some ''Middle''"
| "button_label (UnknownB n) = Some (''Side'' @ dec (unat n))"
| "button_label LeftB = None"

fun matches_mouse :: "input_binding option \<Rightarrow> button \<Rightarrow> bool" where
  "matches_mouse (Some (Mouse button)) b = (button_label b = Some button)"
| "matches_mouse _ b = False"

section \<open>listener.rs: the state\<close>

record listener =
  ls_current :: "input_binding option"
  ls_capturing :: bool
  ls_pressed :: "key set"
  ls_last_fire :: "instant option"
  ls_window_focused :: bool

definition new_listener :: "input_binding option \<Rightarrow> listener" where
  "new_listener b =
     \<lparr>ls_current = b, ls_capturing = False, ls_pressed = {}, ls_last_fire = None, ls_window_focused = False\<rparr>"

datatype emitted = ToggleMute | InputCaptured input_binding

text \<open>The shell: the listener, the shortcut file, and what was emitted to the webview, with the times.\<close>

record shell =
  sh_listener :: listener
  sh_file :: "json option"
  sh_emitted :: "(instant \<times> emitted) list"

definition emit :: "instant \<Rightarrow> emitted \<Rightarrow> shell \<Rightarrow> shell" where
  "emit now ev s = s\<lparr>sh_emitted := sh_emitted s @ [(now, ev)]\<rparr>"

definition fire_toggle :: "instant \<Rightarrow> shell \<Rightarrow> shell" where
  "fire_toggle now s =
     (let l = sh_listener s
      in if (case ls_last_fire l of None \<Rightarrow> False | Some prev \<Rightarrow> now - prev < COOLDOWN) then s
         else emit now ToggleMute (s\<lparr>sh_listener := l\<lparr>ls_last_fire := Some now\<rparr>\<rparr>))"

definition capture_mouse :: "bool \<Rightarrow> instant \<Rightarrow> button \<Rightarrow> shell \<Rightarrow> shell" where
  "capture_mouse ok now b s =
     (case button_label b of
        None \<Rightarrow> s
      | Some label \<Rightarrow>
          let binding = Mouse label
          in emit now (InputCaptured binding)
               (s\<lparr>sh_file := snd (save ok (Some binding) (sh_file s)),
                  sh_listener := (sh_listener s)\<lparr>ls_current := Some binding, ls_pressed := {}, ls_capturing := False,
                                                ls_last_fire := Some now\<rparr>\<rparr>))"

datatype input_event = KeyPress key | KeyRelease key | ButtonPress button | OtherInput

fun handle_event :: "bool \<Rightarrow> instant \<Rightarrow> input_event \<Rightarrow> shell \<Rightarrow> shell" where
  "handle_event ok now (KeyPress k) s =
     (let l = sh_listener s
      in if k \<in> ls_pressed l then s
         else let l1 = l\<lparr>ls_pressed := insert k (ls_pressed l)\<rparr>; s1 = s\<lparr>sh_listener := l1\<rparr>
              in if ls_capturing l1 \<or> ls_window_focused l1 then s1
                 else if is_modifier k = is_modifier_only_binding (ls_current l1)
                         \<and> matches_keyboard (ls_current l1) (ls_pressed l1)
                      then fire_toggle now s1 else s1)"
| "handle_event ok now (KeyRelease k) s =
     s\<lparr>sh_listener := (sh_listener s)\<lparr>ls_pressed := ls_pressed (sh_listener s) - {k}\<rparr>\<rparr>"
| "handle_event ok now (ButtonPress b) s =
     (if ls_capturing (sh_listener s) then capture_mouse ok now b s
      else if matches_mouse (ls_current (sh_listener s)) b then fire_toggle now s else s)"
| "handle_event ok now OtherInput s = s"

section \<open>commands.rs and the focus event\<close>

definition get_shortcut :: "shell \<Rightarrow> input_binding option" where
  "get_shortcut s = ls_current (sh_listener s)"

definition set_shortcut :: "bool \<Rightarrow> instant \<Rightarrow> input_binding \<Rightarrow> shell \<Rightarrow> bool \<times> shell" where
  "set_shortcut ok now b s =
     (case save ok (Some b) (sh_file s) of
        (False, file) \<Rightarrow> (False, s\<lparr>sh_file := file\<rparr>)
      | (True, file) \<Rightarrow>
          (True, s\<lparr>sh_file := file, sh_listener := (sh_listener s)\<lparr>ls_current := Some b, ls_last_fire := Some now\<rparr>\<rparr>))"

definition clear_shortcut :: "bool \<Rightarrow> instant \<Rightarrow> shell \<Rightarrow> bool \<times> shell" where
  "clear_shortcut ok now s =
     (case save ok None (sh_file s) of
        (False, file) \<Rightarrow> (False, s\<lparr>sh_file := file\<rparr>)
      | (True, file) \<Rightarrow>
          (True, s\<lparr>sh_file := file,
                   sh_listener := (sh_listener s)\<lparr>ls_current := None, ls_capturing := False, ls_pressed := {},
                                                 ls_last_fire := Some now\<rparr>\<rparr>))"

definition set_capturing :: "bool \<Rightarrow> shell \<Rightarrow> shell" where
  "set_capturing c s = s\<lparr>sh_listener := (sh_listener s)\<lparr>ls_capturing := c, ls_pressed := {}\<rparr>\<rparr>"

definition focus_changed :: "bool \<Rightarrow> shell \<Rightarrow> shell" where
  "focus_changed focused s = s\<lparr>sh_listener := (sh_listener s)\<lparr>ls_window_focused := focused, ls_pressed := {}\<rparr>\<rparr>"

datatype shell_event =
    Input input_event
  | SetShortcut input_binding
  | ClearShortcut
  | StartCapture
  | CancelCapture
  | Focus bool

fun shell_step :: "bool \<Rightarrow> instant \<Rightarrow> shell_event \<Rightarrow> shell \<Rightarrow> shell" where
  "shell_step ok now (Input ev) s = handle_event ok now ev s"
| "shell_step ok now (SetShortcut b) s = snd (set_shortcut ok now b s)"
| "shell_step ok now ClearShortcut s = snd (clear_shortcut ok now s)"
| "shell_step ok now StartCapture s = set_capturing True s"
| "shell_step ok now CancelCapture s = set_capturing False s"
| "shell_step ok now (Focus f) s = focus_changed f s"

text \<open>The start: the stored binding, or the seeded default.\<close>

definition start_shell :: "bool \<Rightarrow> bool \<Rightarrow> json option \<Rightarrow> shell" where
  "start_shell read_ok write_ok file =
     (let (b, file1) = load_or_seed read_ok write_ok file
      in \<lparr>sh_listener = new_listener b, sh_file = file1, sh_emitted = []\<rparr>)"

section \<open>tray_flash.rs\<close>

text \<open>\<open>icon_alert\<close> fields: which icon is shown. A call into the system that fails changes none.\<close>

record flash =
  fl_tray_active :: bool
  fl_window_active :: bool
  fl_tray_alert :: bool
  fl_window_alert :: bool

definition flash_attention :: "bool option \<Rightarrow> bool \<Rightarrow> bool option \<Rightarrow> bool \<Rightarrow> bool \<Rightarrow> flash \<Rightarrow> flash" where
  "flash_attention window_focused tray_ok window_ok tray window f =
     (if \<not> tray \<and> \<not> window then f
      else if window_focused = Some True then f
      else let f1 = (if tray \<and> tray_ok then f\<lparr>fl_tray_alert := True, fl_tray_active := True\<rparr> else f)
           in if window \<and> window_ok = Some True then f1\<lparr>fl_window_alert := True, fl_window_active := True\<rparr> else f1)"

definition revert_if_active :: "bool \<Rightarrow> bool \<Rightarrow> flash \<Rightarrow> flash" where
  "revert_if_active tray_ok window_ok f =
     (let f1 = (if fl_tray_active f then f\<lparr>fl_tray_alert := (fl_tray_alert f \<and> \<not> tray_ok), fl_tray_active := False\<rparr> else f)
      in if fl_window_active f1 then f1\<lparr>fl_window_alert := (fl_window_alert f1 \<and> \<not> window_ok), fl_window_active := False\<rparr>
         else f1)"

section \<open>Properties\<close>

text \<open>A run of the shell: events with the times at which they come and whether a write succeeds.\<close>

fun shell_run :: "(bool \<times> instant \<times> shell_event) list \<Rightarrow> shell \<Rightarrow> shell" where
  "shell_run [] s = s"
| "shell_run ((ok, now, ev) # es) s = shell_run es (shell_step ok now ev s)"

lemma shell_run_append: "shell_run (es @ fs) s = shell_run fs (shell_run es s)"
  by (induction es s rule: shell_run.induct) simp_all

definition toggle_times :: "shell \<Rightarrow> instant list" where
  "toggle_times s = map fst (filter (\<lambda>e. snd e = ToggleMute) (sh_emitted s))"

fun spaced :: "duration \<Rightarrow> instant list \<Rightarrow> bool" where
  "spaced d (a # b # ts) = (a + d \<le> b \<and> spaced d (b # ts))"
| "spaced d _ = True"

lemma spaced_snoc: "spaced d (ts @ [t]) \<longleftrightarrow> spaced d ts \<and> (ts = [] \<or> last ts + d \<le> t)"
proof (induction d ts rule: spaced.induct)
  case (1 d a b ts)
  then show ?case by auto
qed auto

text \<open>The last toggle is not after the last fire, which is not after the present.\<close>

definition fire_inv :: "instant \<Rightarrow> shell \<Rightarrow> bool" where
  "fire_inv now s \<longleftrightarrow>
     spaced COOLDOWN (toggle_times s) \<and>
     (toggle_times s \<noteq> [] \<longrightarrow> (\<exists>t. ls_last_fire (sh_listener s) = Some t \<and> last (toggle_times s) \<le> t)) \<and>
     (\<forall>t. ls_last_fire (sh_listener s) = Some t \<longrightarrow> t \<le> now)"

lemma fire_inv_cong:
  "toggle_times s' = toggle_times s \<Longrightarrow> ls_last_fire (sh_listener s') = ls_last_fire (sh_listener s) \<Longrightarrow>
   fire_inv now s' = fire_inv now s"
  by (simp add: fire_inv_def)

text \<open>The last fire may be set to the present.\<close>

lemma fire_inv_touch:
  "fire_inv now s \<Longrightarrow> toggle_times s' = toggle_times s \<Longrightarrow> ls_last_fire (sh_listener s') = Some now \<Longrightarrow> fire_inv now s'"
  by (auto simp: fire_inv_def)

lemma fire_toggle_inv: "fire_inv now s \<Longrightarrow> fire_inv now (fire_toggle now s)"
  by (auto simp: fire_inv_def fire_toggle_def emit_def toggle_times_def spaced_snoc Let_def split: option.splits)

lemma capture_mouse_inv: "fire_inv now s \<Longrightarrow> fire_inv now (capture_mouse ok now b s)"
  by (cases "button_label b") (auto simp: capture_mouse_def emit_def toggle_times_def Let_def elim!: fire_inv_touch)

lemma fire_inv_listener:
  "fire_inv now s \<Longrightarrow> ls_last_fire l = ls_last_fire (sh_listener s) \<Longrightarrow> fire_inv now (s\<lparr>sh_listener := l\<rparr>)"
  by (simp add: fire_inv_def toggle_times_def)

lemma handle_event_inv:
  assumes "fire_inv now s"
  shows "fire_inv now (handle_event ok now ev s)"
proof (cases ev)
  case (KeyPress k)
  have "fire_inv now (s\<lparr>sh_listener := (sh_listener s)\<lparr>ls_pressed := insert k (ls_pressed (sh_listener s))\<rparr>\<rparr>)"
    by (rule fire_inv_listener [OF assms]) simp
  with assms KeyPress show ?thesis by (simp add: fire_toggle_inv Let_def)
next
  case (KeyRelease k)
  with assms show ?thesis by (simp add: fire_inv_listener)
next
  case (ButtonPress b)
  with assms show ?thesis by (simp add: fire_toggle_inv capture_mouse_inv)
qed (use assms in simp)

lemma shell_step_inv:
  assumes "fire_inv now s"
  shows "fire_inv now (shell_step ok now ev s)"
proof (cases ev)
  case (SetShortcut b)
  then show ?thesis
    using assms by (cases ok) (auto simp: set_shortcut_def save_def toggle_times_def elim: fire_inv_touch)
next
  case ClearShortcut
  then show ?thesis
    using assms by (cases ok) (auto simp: clear_shortcut_def save_def toggle_times_def elim: fire_inv_touch)
qed (use assms in \<open>simp_all add: handle_event_inv set_capturing_def focus_changed_def fire_inv_listener\<close>)

lemma fire_inv_later: "fire_inv now s \<Longrightarrow> now \<le> later \<Longrightarrow> fire_inv later s"
  unfolding fire_inv_def by (meson le_trans)

lemma shell_run_inv:
  "fire_inv now s \<Longrightarrow> sorted (now # map (fst \<circ> snd) es) \<Longrightarrow> \<exists>later. fire_inv later (shell_run es s)"
proof (induction es arbitrary: now s)
  case (Cons e es)
  obtain ok t ev where e: "e = (ok, t, ev)" by (cases e)
  have "fire_inv t (shell_step ok t ev s)"
    using Cons.prems e by (intro shell_step_inv fire_inv_later [OF Cons.prems(1)]) simp
  with Cons.IH [of t "shell_step ok t ev s"] Cons.prems e show ?case by simp
qed auto

text \<open>
  One press, one toggle: however keys repeat and events come (with times that do not go back),
  two toggles of the microphone are at least 80 milliseconds apart.
\<close>

theorem toggles_apart:
  assumes "sorted (map (fst \<circ> snd) es)"
  shows "spaced (millis 80) (toggle_times (shell_run es (start_shell rd wr file)))"
proof -
  have "fire_inv 0 (start_shell rd wr file)"
    by (simp add: fire_inv_def start_shell_def new_listener_def toggle_times_def case_prod_beta)
  from shell_run_inv [OF this, of es] assms show ?thesis
    by (auto simp: fire_inv_def COOLDOWN_def)
qed

lemma restored:
  "load True (Some (ser_option ser_binding b)) = Some b"
proof (cases b)
  case None
  then show ?thesis by (simp add: load_def ser_option_def de_option_def)
next
  case (Some x)
  have "de_list de_string (ser_list JStr keys) = Some keys" for keys
    by (rule wire_string.list_back) (simp add: list_all_iff)
  then have "de_binding (ser_binding x) = Some x"
    by (cases x) (simp_all add: de_variant_def serde_simps Let_def)
  moreover have "ser_binding x \<noteq> JNull" by (cases x) simp_all
  ultimately show ?thesis by (simp add: Some load_def ser_option_def de_option_def)
qed

definition stored :: "shell \<Rightarrow> bool" where
  "stored s \<longleftrightarrow> load True (sh_file s) = Some (ls_current (sh_listener s))"

lemma fire_toggle_stored: "stored (fire_toggle now s) = stored s"
  by (simp add: fire_toggle_def stored_def emit_def Let_def)

lemma listener_stored:
  "stored s \<Longrightarrow> ls_current l = ls_current (sh_listener s) \<Longrightarrow> stored (s\<lparr>sh_listener := l\<rparr>)"
  by (simp add: stored_def)

lemma handle_event_stored:
  assumes "stored s"
  shows "stored (handle_event True now i s)"
proof (cases i)
  case (KeyPress k)
  have "stored (s\<lparr>sh_listener := (sh_listener s)\<lparr>ls_pressed := insert k (ls_pressed (sh_listener s))\<rparr>\<rparr>)"
    by (rule listener_stored [OF assms]) simp
  with assms KeyPress show ?thesis by (simp add: fire_toggle_stored Let_def)
next
  case (KeyRelease k)
  with assms show ?thesis by (simp add: listener_stored)
next
  case (ButtonPress b)
  have "stored (capture_mouse True now b s)"
    using assms by (cases "button_label b") (simp_all add: capture_mouse_def stored_def emit_def save_def restored Let_def)
  with assms ButtonPress show ?thesis by (simp add: fire_toggle_stored)
qed (use assms in simp)

lemma shell_step_stored: "stored s \<Longrightarrow> stored (shell_step True now ev s)"
  by (cases ev) (simp_all add: handle_event_stored set_capturing_def focus_changed_def listener_stored,
      simp_all add: stored_def set_shortcut_def clear_shortcut_def save_def restored)

text \<open>
  The shortcut survives a restart: as long as the file can be written and read, starting again
  after any run gives the binding in force, the explicit "no shortcut" included.
\<close>

theorem restart_restores_shortcut:
  assumes "map fst es = replicate (length es) True"
  shows "fst (load_or_seed True wr (sh_file (shell_run es (start_shell True True file))))
    = get_shortcut (shell_run es (start_shell True True file))"
proof -
  have start: "stored (start_shell True True file)"
    using restored [of "Some default_binding"]
    by (auto simp: start_shell_def stored_def load_or_seed_def new_listener_def save_def split: option.splits)
  have "stored (shell_run es s)" if "stored s" "map fst es = replicate (length es) True" for s
    using that by (induction es s rule: shell_run.induct) (auto simp: shell_step_stored)
  from this [OF start assms] show ?thesis
    by (simp add: load_or_seed_def stored_def get_shortcut_def)
qed

theorem restart_restores_shortcut_witness:
  "fst (load_or_seed True False (sh_file (shell_run [(True, 5, ClearShortcut)] (start_shell True True None))))
   = get_shortcut (shell_run [(True, 5, ClearShortcut)] (start_shell True True None))"
  by (rule restart_restores_shortcut) simp

text \<open>The labels of the table name different keys, none of them a modifier.\<close>

lemma labels_distinct: "distinct (map fst key_table) \<and> distinct (map snd key_table) \<and> list_all (\<lambda>p. \<not> is_modifier (snd p)) key_table"
  by code_simp

lemma label_to_key_inj: "label_to_key a = Some k \<Longrightarrow> label_to_key b = Some k \<Longrightarrow> a = b"
proof -
  assume "label_to_key a = Some k" "label_to_key b = Some k"
  then have "(a, k) \<in> set key_table" "(b, k) \<in> set key_table"
    unfolding label_to_key_def by (blast dest: map_of_SomeD)+
  moreover have "inj_on snd (set key_table)"
    using labels_distinct unfolding distinct_map by blast
  ultimately show "a = b"
    using inj_onD [of snd "set key_table" "(a, k)" "(b, k)"] by simp
qed

text \<open>
  A key that is not part of the binding toggles too, when it is pressed while the combination is held.
\<close>

definition held_combination :: "(bool \<times> instant \<times> shell_event) list" where
  "held_combination =
     [(True, 1000000000, Input (KeyPress ''ControlLeft'')), (True, 1000000001, Input (KeyPress ''ShiftLeft'')),
      (True, 1000000002, Input (KeyPress ''KeyM'')), (True, 2000000000, Input (KeyPress ''KeyX''))]"

text \<open>
  Not only a key of the combination fires: with Ctrl+Shift+M bound and still held down, a press
  of X a second later toggles the microphone again.
\<close>

theorem unbound_key_toggles:
  "toggle_times (shell_run held_combination (start_shell True True None)) = [1000000002, 2000000000]"
  by (simp add: held_combination_def start_shell_def load_or_seed_def load_def new_listener_def default_binding_def
      save_def Let_def is_modifier_def MODIFIERS_def is_modifier_label_def label_to_key_def key_table_def
      fire_toggle_def emit_def toggle_times_def COOLDOWN_def)

theorem toggles_apart_witness:
  "spaced (millis 80) (toggle_times (shell_run held_combination (start_shell True True None)))"
  by (rule toggles_apart) (simp add: held_combination_def)

text \<open>The focus event puts the normal icons back and forgets what is flashing.\<close>

lemma focus_reverts_flash:
  "fl_tray_alert f \<longrightarrow> fl_tray_active f \<Longrightarrow> fl_window_alert f \<longrightarrow> fl_window_active f \<Longrightarrow>
   revert_if_active True True f
   = \<lparr>fl_tray_active = False, fl_window_active = False, fl_tray_alert = False, fl_window_alert = False\<rparr>"
  by (cases f) (auto simp: revert_if_active_def Let_def)

end
