(* ===== verification/Updater.thy ===== *)
theory Updater
  imports HttpText
begin

text \<open>
  The rest of the desktop shell: the server address (\<open>src-tauri/src/connection.rs\<close>), the updater
  (\<open>updater.rs\<close>), the tray menu (\<open>tray.rs\<close>) and the start and close of the window (\<open>lib.rs\<close>).
  Parsing a URL is the \<open>url\<close> crate's, a parameter; the keychain, the updater plugin and the window
  system answer by arguments. The texts shown to the user are constructors.
\<close>

section \<open>connection.rs\<close>

record url =
  ul_scheme :: string
  ul_host :: "string option"
  ul_authority :: string
  ul_path :: string
  ul_query :: "string option"
  ul_fragment :: "string option"

type_synonym url_parser = "string \<Rightarrow> string + url"

text \<open>\<open>Url::as_str\<close>.\<close>

definition url_text :: "url \<Rightarrow> string" where
  "url_text u =
     ul_scheme u @ ''://'' @ ul_authority u @ ul_path u
     @ (case ul_query u of None \<Rightarrow> [] | Some q \<Rightarrow> ''?'' @ q) @ (case ul_fragment u of None \<Rightarrow> [] | Some f \<Rightarrow> ''#'' @ f)"

datatype host_error = EmptyHost | BadAddress string | HttpNotLocal | BadScheme string | Keyring string | Navigation string

fun contains_str :: "string \<Rightarrow> string \<Rightarrow> bool" where
  "contains_str p [] = (p = [])"
| "contains_str p (c # cs) = (starts_with p (c # cs) \<or> contains_str p cs)"

definition local_host :: "url \<Rightarrow> bool" where
  "local_host u \<longleftrightarrow> ul_host u \<in> {Some ''localhost'', Some ''127.0.0.1'', Some ''[::1]''}"

definition normalize_host :: "url_parser \<Rightarrow> string \<Rightarrow> host_error + url" where
  "normalize_host pu input =
     (let trimmed = trim input
      in if trimmed = [] then Inl EmptyHost
         else let candidate = (if contains_str ''://'' trimmed then trimmed else ''https://'' @ trimmed)
              in case pu candidate of
                   Inl e \<Rightarrow> Inl (BadAddress e)
                 | Inr u \<Rightarrow>
                     if ul_scheme u = ''https'' then Inr u
                     else if ul_scheme u = ''http'' then (if local_host u then Inr u else Inl HttpNotLocal)
                     else Inl (BadScheme (ul_scheme u)))"

text \<open>The keychain: an initialisation error, no entry, another error, or the stored text.\<close>

datatype keyring = KeyringBroken | NoEntry | ReadError string | Stored string

fun load_host :: "keyring \<Rightarrow> string option" where
  "load_host (Stored host) = (if host = [] then None else Some host)"
| "load_host _ = None"

fun save_host :: "bool \<Rightarrow> string \<Rightarrow> keyring \<Rightarrow> (host_error + unit) \<times> keyring" where
  "save_host ok host KeyringBroken = (Inl (Keyring ''init''), KeyringBroken)"
| "save_host ok host k = (if ok then (Inr (), Stored host) else (Inl (Keyring ''write''), k))"

definition CONNECT_PATH :: string where "CONNECT_PATH = ''connect.html''"

datatype page = ConnectPage | Remote url

text \<open>\<open>navigate_to\<close>: the window may be missing or refuse.\<close>

definition navigate_to :: "bool \<Rightarrow> page \<Rightarrow> page \<Rightarrow> (host_error + unit) \<times> page" where
  "navigate_to ok target cur = (if ok then (Inr (), target) else (Inl (Navigation ''navigate''), cur))"

definition set_host ::
  "url_parser \<Rightarrow> bool \<Rightarrow> bool \<Rightarrow> string \<Rightarrow> keyring \<times> page \<Rightarrow> (host_error + unit) \<times> keyring \<times> page" where
  "set_host pu save_ok nav_ok host st =
     (case normalize_host pu host of
        Inl e \<Rightarrow> (Inl e, st)
      | Inr u \<Rightarrow>
          (case save_host save_ok (url_text u) (fst st) of
             (Inl e, k) \<Rightarrow> (Inl e, k, snd st)
           | (Inr _, k) \<Rightarrow> (case navigate_to nav_ok (Remote u) (snd st) of (r, p) \<Rightarrow> (r, k, p))))"

definition change_server :: "bool \<Rightarrow> keyring \<times> page \<Rightarrow> (host_error + unit) \<times> keyring \<times> page" where
  "change_server nav_ok st = (case navigate_to nav_ok ConnectPage (snd st) of (r, p) \<Rightarrow> (r, fst st, p))"

text \<open>The page the window starts on.\<close>

definition initial_page :: "url_parser \<Rightarrow> keyring \<Rightarrow> page" where
  "initial_page pu k =
     (case load_host k of
        None \<Rightarrow> ConnectPage
      | Some host \<Rightarrow> (case normalize_host pu host of Inl _ \<Rightarrow> ConnectPage | Inr u \<Rightarrow> Remote u))"

section \<open>updater.rs\<close>

definition INTERVAL :: duration where "INTERVAL = secs 3600"
definition FOCUS_THROTTLE :: duration where "FOCUS_THROTTLE = secs 900"
definition PROGRESS_EMIT_THROTTLE :: duration where "PROGRESS_EMIT_THROTTLE = millis 100"

definition server_endpoint :: "url_parser \<Rightarrow> string \<Rightarrow> host_error + url" where
  "server_endpoint pu host =
     (case normalize_host pu host of
        Inl e \<Rightarrow> Inl e
      | Inr u \<Rightarrow> Inr (u\<lparr>ul_path := ''/desktop/latest.json'', ul_query := None, ul_fragment := None\<rparr>))"

text \<open>The plugin's answer for an endpoint: an update by its version, none, or an error.\<close>

definition discover_update ::
  "url_parser \<Rightarrow> keyring \<Rightarrow> (url \<Rightarrow> string + string option) \<Rightarrow> host_error + string option" where
  "discover_update pu k plugin =
     (case load_host k of
        None \<Rightarrow> Inr None
      | Some host \<Rightarrow>
          (case server_endpoint pu host of
             Inl e \<Rightarrow> Inl e
           | Inr u \<Rightarrow> (case plugin u of Inl e \<Rightarrow> Inl (BadAddress e) | Inr r \<Rightarrow> Inr r)))"

record updater =
  up_last_checked :: "instant option"
  up_pending :: "string option"
  up_installing :: bool

datatype update_event = UpdateAvailable string | UpdateProgress nat "nat option" | UpdateInstalling | UpdateError string

text \<open>\<open>check\<close> before and after it waits for the server.\<close>

definition check_begin :: "bool \<Rightarrow> instant \<Rightarrow> updater \<Rightarrow> bool \<times> updater" where
  "check_begin force now u =
     (if \<not> force \<and> (case up_last_checked u of None \<Rightarrow> False | Some prev \<Rightarrow> now - prev < FOCUS_THROTTLE)
      then (False, u) else (True, u\<lparr>up_last_checked := Some now\<rparr>))"

definition check_end :: "host_error + string option \<Rightarrow> updater \<Rightarrow> updater \<times> update_event list" where
  "check_end r u =
     (case r of
        Inr (Some version) \<Rightarrow>
          (let already_known = (up_pending u = Some version)
           in (u\<lparr>up_pending := Some version\<rparr>, if already_known then [] else [UpdateAvailable version]))
      | _ \<Rightarrow> (u, []))"

datatype apply_error = InProgress | NoPending | InstallFailed string

text \<open>\<open>apply_update\<close> up to the installation, and after one that failed.\<close>

definition apply_begin :: "updater \<Rightarrow> (apply_error + string) \<times> updater" where
  "apply_begin u =
     (if up_installing u then (Inl InProgress, u)
      else case up_pending u of
             None \<Rightarrow> (Inl NoPending, u)
           | Some v \<Rightarrow> (Inr v, u\<lparr>up_pending := None, up_installing := True\<rparr>))"

definition apply_failed :: "string \<Rightarrow> updater \<Rightarrow> updater \<times> update_event list" where
  "apply_failed e u = (u\<lparr>up_installing := False\<rparr>, [UpdateError e])"

text \<open>The progress closure of \<open>install\<close>: the bytes so far, the last time one was emitted.\<close>

definition on_chunk :: "instant \<Rightarrow> nat \<Rightarrow> nat option \<Rightarrow> nat \<times> instant \<Rightarrow> (nat \<times> instant) \<times> update_event list" where
  "on_chunk now chunk_len content_len st =
     (let downloaded = fst st + chunk_len;
          finished = (case content_len of None \<Rightarrow> False | Some c \<Rightarrow> c \<le> downloaded)
      in if \<not> finished \<and> now - snd st < PROGRESS_EMIT_THROTTLE then ((downloaded, snd st), [])
         else ((downloaded, now), [UpdateProgress downloaded content_len]))"

definition pending_version :: "updater \<Rightarrow> string option" where
  "pending_version u = up_pending u"

section \<open>tray.rs and the close button\<close>

datatype menu_item =
  UpdateItem string | Separator | ShowItem | CheckItem | ChangeServerItem | AutostartItem bool | QuitItem

definition build_menu :: "bool \<Rightarrow> string option \<Rightarrow> menu_item list" where
  "build_menu autostart version =
     (case version of None \<Rightarrow> [] | Some v \<Rightarrow> [UpdateItem v, Separator])
     @ [ShowItem, CheckItem, Separator, ChangeServerItem, Separator, AutostartItem autostart, Separator, QuitItem]"

record tray =
  tr_menu :: "menu_item list"
  tr_tooltip :: "string option"
  tr_autostart :: bool
  tr_quit :: bool

definition set_update_available :: "string \<Rightarrow> tray \<Rightarrow> tray" where
  "set_update_available v t = t\<lparr>tr_menu := build_menu (tr_autostart t) (Some v), tr_tooltip := Some v\<rparr>"

definition refresh_menu :: "updater \<Rightarrow> tray \<Rightarrow> tray" where
  "refresh_menu u t = t\<lparr>tr_menu := build_menu (tr_autostart t) (pending_version u)\<rparr>"

text \<open>What the menu items do beside calls into the system: the tasks they start.\<close>

datatype menu_task = ForcedCheck | ApplyUpdate | ShowMain | GoToConnect | ExitApp

definition toggle_autostart :: "bool \<Rightarrow> updater \<Rightarrow> tray \<Rightarrow> tray" where
  "toggle_autostart ok u t = refresh_menu u (if ok then t\<lparr>tr_autostart := \<not> tr_autostart t\<rparr> else t)"

fun handle_menu_event :: "bool \<Rightarrow> updater \<Rightarrow> menu_item \<Rightarrow> tray \<Rightarrow> menu_task list \<times> tray" where
  "handle_menu_event ok u ShowItem t = ([ShowMain], t)"
| "handle_menu_event ok u CheckItem t = ([ForcedCheck], t)"
| "handle_menu_event ok u (UpdateItem v) t = ([ApplyUpdate], t)"
| "handle_menu_event ok u ChangeServerItem t = ([ShowMain, GoToConnect], t)"
| "handle_menu_event ok u (AutostartItem b) t = ([], toggle_autostart ok u t)"
| "handle_menu_event ok u QuitItem t = ([ExitApp], t\<lparr>tr_quit := True\<rparr>)"
| "handle_menu_event ok u Separator t = ([], t)"

text \<open>\<open>CloseRequested\<close>: True when the window hides instead of closing.\<close>

definition close_requested :: "tray \<Rightarrow> bool" where
  "close_requested t \<longleftrightarrow> \<not> tr_quit t"

section \<open>Properties\<close>

definition secure_url :: "url \<Rightarrow> bool" where
  "secure_url u \<longleftrightarrow> ul_scheme u = ''https'' \<or> (ul_scheme u = ''http'' \<and> local_host u)"

fun secure_page :: "page \<Rightarrow> bool" where
  "secure_page ConnectPage = True"
| "secure_page (Remote u) = secure_url u"

lemma normalize_secure: "normalize_host pu host = Inr u \<Longrightarrow> secure_url u"
  by (auto simp: normalize_host_def secure_url_def Let_def split: if_splits sum.splits)

lemma initial_secure: "secure_page (initial_page pu k)"
  by (auto simp: initial_page_def normalize_secure split: option.split sum.split)

text \<open>What the user does with the server address; \<open>Restart\<close> opens the window anew.\<close>

datatype conn_op = SetHost bool bool string | ChangeServer bool | Restart

fun conn_step :: "url_parser \<Rightarrow> conn_op \<Rightarrow> keyring \<times> page \<Rightarrow> keyring \<times> page" where
  "conn_step pu (SetHost save_ok nav_ok host) st = snd (set_host pu save_ok nav_ok host st)"
| "conn_step pu (ChangeServer nav_ok) st = snd (change_server nav_ok st)"
| "conn_step pu Restart st = (fst st, initial_page pu (fst st))"

lemma conn_step_secure: "secure_page (snd st) \<Longrightarrow> secure_page (snd (conn_step pu op st))"
  by (cases op)
    (auto simp: set_host_def change_server_def navigate_to_def initial_secure normalize_secure split: sum.splits prod.splits)

text \<open>
  The shell never shows a remote page over plain HTTP: whatever the keychain holds, the user
  types and the URL parser makes of it, the window is on the connect page, on an HTTPS page, or on
  an HTTP page of this machine.
\<close>

theorem pages_secure:
  "secure_page (snd (fold (conn_step pu) ops (k, initial_page pu k)))"
proof -
  have "secure_page (snd (fold (conn_step pu) ops st))" if "secure_page (snd st)" for st
    using that by (induction ops arbitrary: st) (simp_all add: conn_step_secure)
  then show ?thesis by (simp add: initial_secure)
qed

lemma endpoint_secure: "server_endpoint pu host = Inr u \<Longrightarrow> secure_url u \<and> ul_path u = ''/desktop/latest.json''"
  by (auto simp: server_endpoint_def secure_url_def local_host_def dest!: normalize_secure split: sum.splits)

lemma contains_str_middle: "contains_str p (a @ p @ b)"
proof (induction a)
  case Nil
  have "starts_with p (p @ b)" by (simp add: starts_with_def)
  then show ?case by (cases "p @ b") auto
next
  case (Cons c a)
  then show ?case by simp
qed

text \<open>
  A server address that was accepted survives a restart: the stored text is read back and the
  window opens on the page the user was taken to. It relies on the \<open>url\<close> crate: the text of a URL
  parses to that URL and has no blanks around it.
\<close>

theorem host_survives_restart:
  assumes "normalize_host pu host = Inr u" and "pu (url_text u) = Inr u" and "trim (url_text u) = url_text u"
    and "k \<noteq> KeyringBroken"
  shows "set_host pu True True host (k, p) = (Inr (), Stored (url_text u), Remote u)
    \<and> initial_page pu (Stored (url_text u)) = Remote u"
proof -
  have sep: "contains_str ''://'' (url_text u)" and ne: "url_text u \<noteq> []"
    using contains_str_middle [of "''://''" "ul_scheme u"] by (simp_all add: url_text_def)
  have "normalize_host pu (url_text u) = Inr u"
    using normalize_secure [OF assms(1)] assms(2,3) sep ne by (auto simp: normalize_host_def secure_url_def)
  with ne have "initial_page pu (Stored (url_text u)) = Remote u" by (simp add: initial_page_def)
  moreover have "save_host True (url_text u) k = (Inr (), Stored (url_text u))"
    using assms(4) by (cases k) simp_all
  ultimately show ?thesis using assms(1) by (simp add: set_host_def navigate_to_def)
qed

definition toy_url :: url where
  "toy_url = \<lparr>ul_scheme = ''https'', ul_host = Some ''h'', ul_authority = ''h'', ul_path = ''/'', ul_query = None, ul_fragment = None\<rparr>"

theorem host_survives_restart_witness:
  "set_host (\<lambda>_. Inr toy_url) True True ''h'' (NoEntry, ConnectPage) = (Inr (), Stored (url_text toy_url), Remote toy_url)
   \<and> initial_page (\<lambda>_. Inr toy_url) (Stored (url_text toy_url)) = Remote toy_url"
proof (rule host_survives_restart)
  have "trim ''h'' = ''h''" by (rule trim_graphic) (simp add: graphic_def)
  then show "normalize_host (\<lambda>_. Inr toy_url) ''h'' = Inr toy_url"
    by (simp add: normalize_host_def toy_url_def Let_def)
  show "trim (url_text toy_url) = url_text toy_url"
    by (rule trim_graphic) (simp add: url_text_def toy_url_def graphic_def)
qed simp_all

section \<open>One installation at a time\<close>

text \<open>The updater with the tasks that are under way: checks waiting for the server, and installations.\<close>

record update_world =
  uw_updater :: updater
  uw_checks :: nat
  uw_installs :: nat
  uw_events :: "update_event list"

definition new_updater :: update_world where
  "new_updater =
     \<lparr>uw_updater = \<lparr>up_last_checked = None, up_pending = None, up_installing = False\<rparr>, uw_checks = 0, uw_installs = 0,
      uw_events = []\<rparr>"

inductive update_step :: "update_world \<Rightarrow> update_world \<Rightarrow> bool" where
  check_starts:
    "check_begin force now (uw_updater w) = (go, u) \<Longrightarrow>
     update_step w (w\<lparr>uw_updater := u, uw_checks := uw_checks w + (if go then 1 else 0)\<rparr>)"
| check_answers:
    "0 < uw_checks w \<Longrightarrow> check_end r (uw_updater w) = (u, evs) \<Longrightarrow>
     update_step w (w\<lparr>uw_updater := u, uw_checks := uw_checks w - 1, uw_events := uw_events w @ evs\<rparr>)"
| applied:
    "apply_begin (uw_updater w) = (Inr v, u) \<Longrightarrow>
     update_step w (w\<lparr>uw_updater := u, uw_installs := uw_installs w + 1\<rparr>)"
| refused:
    "apply_begin (uw_updater w) = (Inl e, u) \<Longrightarrow> update_step w (w\<lparr>uw_updater := u\<rparr>)"
| install_fails:
    "0 < uw_installs w \<Longrightarrow> apply_failed e (uw_updater w) = (u, evs) \<Longrightarrow>
     update_step w (w\<lparr>uw_updater := u, uw_installs := uw_installs w - 1, uw_events := uw_events w @ evs\<rparr>)"

inductive_cases update_stepE: "update_step w w'"

inductive update_reachable :: "update_world \<Rightarrow> bool" where
  start: "update_reachable new_updater"
| step: "update_reachable w \<Longrightarrow> update_step w w' \<Longrightarrow> update_reachable w'"

lemmas updater_ops = check_begin_def check_end_def apply_begin_def apply_failed_def Let_def

lemma update_step_installs:
  assumes "update_step w w'" and "uw_installs w = (if up_installing (uw_updater w) then 1 else 0)"
  shows "uw_installs w' = (if up_installing (uw_updater w') then 1 else 0)"
  using assms
  by (elim update_stepE) (auto simp: updater_ops split: if_splits option.splits sum.splits)

text \<open>
  C36. However checks, clicks and failures interleave, at most one installation runs, and the flag
  that guards it is set exactly while it does.
\<close>

theorem one_install_at_a_time:
  assumes "update_reachable w"
  shows "uw_installs w = (if up_installing (uw_updater w) then 1 else 0)"
  using assms
proof (induction rule: update_reachable.induct)
  case start
  show ?case by (simp add: new_updater_def)
next
  case (step w w')
  then show ?case by (blast intro: update_step_installs)
qed

lemma toy_install:
  "update_reachable (new_updater\<lparr>uw_updater := \<lparr>up_last_checked = Some 5, up_pending = None, up_installing = True\<rparr>,
     uw_installs := 1, uw_events := [UpdateAvailable ''2'']\<rparr>)"
proof -
  let ?w1 = "new_updater\<lparr>uw_updater := \<lparr>up_last_checked = Some 5, up_pending = None, up_installing = False\<rparr>, uw_checks := 1\<rparr>"
  let ?w2 = "new_updater\<lparr>uw_updater := \<lparr>up_last_checked = Some 5, up_pending = Some ''2'', up_installing = False\<rparr>,
      uw_events := [UpdateAvailable ''2'']\<rparr>"
  have "update_step new_updater ?w1"
    using check_starts [of True 5 new_updater True "uw_updater ?w1"] by (simp add: updater_ops new_updater_def)
  then have "update_reachable ?w1" by (rule update_reachable.step [OF update_reachable.start])
  moreover have "update_step ?w1 ?w2"
    using check_answers [of ?w1 "Inr (Some ''2'')" "uw_updater ?w2" "[UpdateAvailable ''2'']"]
    by (simp add: updater_ops new_updater_def)
  ultimately have "update_reachable ?w2" by (rule update_reachable.step)
  moreover have "update_step ?w2 (?w2\<lparr>uw_updater := \<lparr>up_last_checked = Some 5, up_pending = None, up_installing = True\<rparr>,
      uw_installs := 1\<rparr>)"
    using applied [of ?w2 "''2''" "\<lparr>up_last_checked = Some 5, up_pending = None, up_installing = True\<rparr>"]
    by (simp add: updater_ops new_updater_def)
  ultimately show ?thesis using update_reachable.step by (fastforce simp: new_updater_def)
qed

theorem one_install_at_a_time_witness:
  "uw_installs (new_updater\<lparr>uw_updater := \<lparr>up_last_checked = Some 5, up_pending = None, up_installing = True\<rparr>,
     uw_installs := 1, uw_events := [UpdateAvailable ''2'']\<rparr>) = (if True then 1 else 0)"
  using one_install_at_a_time [OF toy_install] by simp

text \<open>The tray keeps offering a pending update when the autostart item rebuilds its menu.\<close>

lemma rebuilt_menu_offers_update:
  "up_pending u = Some v \<Longrightarrow> UpdateItem v \<in> set (tr_menu (snd (handle_menu_event ok u (AutostartItem b) t)))"
  by (simp add: toggle_autostart_def refresh_menu_def pending_version_def build_menu_def)

text \<open>The last chunk of a download is always reported.\<close>

lemma finished_download_reported:
  "c \<le> fst st + n \<Longrightarrow> snd (on_chunk now n (Some c) st) = [UpdateProgress (fst st + n) (Some c)]"
  by (simp add: on_chunk_def Let_def)

end
