(* ===== verification/Secrets.thy ===== *)
theory Secrets
  imports Util
begin

text \<open>
  \<open>backend/src/auth/secrets.rs\<close>: the secret files of a deployment, read or made at the start, and
  the atomic replacement of a file. A directory is a map from names to contents. The operations on
  the disk are a list, so that a crash is a prefix of it; which of them fails is an argument.
\<close>

section \<open>The code: atomic_write\<close>

type_synonym disk = "string \<Rightarrow> string option"

text \<open>\<open>PutPart\<close> is a write that failed after so many bytes; a file is created empty.\<close>

datatype disk_op = CreateNew string | Put string string | PutPart nat string string | Rename string string | Remove string

fun disk_step :: "disk_op \<Rightarrow> disk \<Rightarrow> disk" where
  "disk_step (CreateNew f) d = d(f \<mapsto> [])"
| "disk_step (Put f s) d = d(f \<mapsto> s)"
| "disk_step (PutPart n f s) d = d(f \<mapsto> take n s)"
| "disk_step (Rename f g) d = (case d f of None \<Rightarrow> d | Some s \<Rightarrow> d(f := None, g \<mapsto> s))"
| "disk_step (Remove f) d = d(f := None)"

definition run_disk :: "disk_op list \<Rightarrow> disk \<Rightarrow> disk" where
  "run_disk ops d = fold disk_step ops d"

text \<open>Where \<open>atomic_write\<close> fails, if it does: the open (also when the name exists), the write after some bytes, sync, permissions, rename.\<close>

datatype write_fault = NoFault | OpenFault | WriteFault nat | SyncFault | ChmodFault | RenameFault

definition temp_name :: "string \<Rightarrow> 8 word list \<Rightarrow> string" where
  "temp_name base rnd = base @ ''.tmp-'' @ hex rnd"

text \<open>The operations done and the result. A failed write removes the temporary file, whatever it was.\<close>

definition atomic_write :: "write_fault \<Rightarrow> 8 word list \<Rightarrow> string \<Rightarrow> string \<Rightarrow> disk \<Rightarrow> disk_op list \<times> bool" where
  "atomic_write fault rnd path data d =
     (let tmp = temp_name path rnd
      in if fault = OpenFault \<or> d tmp \<noteq> None then ([Remove tmp], False)
         else case fault of
                WriteFault n \<Rightarrow> ([CreateNew tmp, PutPart n tmp data, Remove tmp], False)
              | SyncFault \<Rightarrow> ([CreateNew tmp, Put tmp data, Remove tmp], False)
              | ChmodFault \<Rightarrow> ([CreateNew tmp, Put tmp data, Remove tmp], False)
              | RenameFault \<Rightarrow> ([CreateNew tmp, Put tmp data, Remove tmp], False)
              | _ \<Rightarrow> ([CreateNew tmp, Put tmp data, Rename tmp path], True))"

section \<open>The code: load_or_create\<close>

text \<open>\<open>dir_ok\<close> and \<open>read_ok\<close>: the directory can be made, an existing file can be read; \<open>fresh\<close> is what the system's random source gives.\<close>

definition load_or_create ::
  "bool \<Rightarrow> bool \<Rightarrow> write_fault \<Rightarrow> 8 word list \<Rightarrow> string option \<Rightarrow> string \<Rightarrow> nat \<Rightarrow> disk \<Rightarrow> (string + string) \<times> disk_op list" where
  "load_or_create dir_ok read_ok fault rnd fresh name n d =
     (if \<not> dir_ok then (Inl ''create data dir'', [])
      else let make = (case fresh of
                         None \<Rightarrow> (Inl ''rand'', [])
                       | Some secret \<Rightarrow>
                           (case atomic_write fault rnd name secret d of
                              (ops, True) \<Rightarrow> (Inr secret, ops)
                            | (ops, False) \<Rightarrow> (Inl (''write '' @ name), ops)))
           in case d name of
                None \<Rightarrow> make
              | Some data \<Rightarrow>
                  if \<not> read_ok then (Inl (''read '' @ name), [])
                  else if n \<le> length data then (Inr (take n data), []) else make)"

section \<open>Properties\<close>

lemma temp_name_other: "temp_name base rnd \<noteq> base"
  by (simp add: temp_name_def)

text \<open>
  A secret file is replaced as a whole: at every moment, in particular after a crash between any
  two operations, the file holds its old content or all of the new one; and when the write reports
  success it is the new one.
\<close>

theorem replaced_as_a_whole:
  assumes "atomic_write fault rnd path data d = (ops, ok)"
  shows "run_disk (take k ops) d path \<in> {d path, Some data} \<and> run_disk ops d path = (if ok then Some data else d path)"
proof -
  have ne: "path \<noteq> temp_name path rnd" using temp_name_other by metis
  have k: "k = 0 \<or> k = Suc 0 \<or> k = Suc (Suc 0) \<or> (\<exists>j. k = Suc (Suc (Suc j)))" by (metis not0_implies_Suc)
  show ?thesis
  proof (cases "fault = OpenFault \<or> d (temp_name path rnd) \<noteq> None")
    case True
    then have "ops = [Remove (temp_name path rnd)]" "\<not> ok" using assms by (auto simp: atomic_write_def Let_def)
    then show ?thesis using k ne by (auto simp: run_disk_def)
  next
    case False
    then show ?thesis using assms k ne by (cases fault) (auto simp: atomic_write_def Let_def run_disk_def)
  qed
qed

theorem replaced_as_a_whole_witness:
  "let (ops, ok) = atomic_write NoFault [] ''s'' ''new'' [''s'' \<mapsto> ''old'']
   in run_disk (take 2 ops) [''s'' \<mapsto> ''old''] ''s'' = Some ''old'' \<and> ok \<and> run_disk ops [''s'' \<mapsto> ''old''] ''s'' = Some ''new''"
proof -
  let ?d = "[''s'' \<mapsto> ''old'']"
  have w: "atomic_write NoFault [] ''s'' ''new'' ?d
      = ([CreateNew ''s.tmp-'', Put ''s.tmp-'' ''new'', Rename ''s.tmp-'' ''s''], True)"
    by (simp add: atomic_write_def temp_name_def hex_def Let_def)
  show ?thesis using replaced_as_a_whole [OF w, of 2] by (simp add: w run_disk_def numeral_2_eq_2)
qed

text \<open>
  Once a start had its secret of the requested length it is on disk, and every later start has the
  same one and writes nothing; other files are not touched.
\<close>

lemma secret_stored:
  assumes "load_or_create dir_ok read_ok fault rnd fresh name n d = (Inr secret, ops)"
    and "\<And>s. fresh = Some s \<Longrightarrow> length s = n"
  obtains data where "run_disk ops d name = Some data" "n \<le> length data" "take n data = secret"
proof (cases "\<exists>data. d name = Some data \<and> n \<le> length data")
  case True
  then obtain data where data: "d name = Some data" "n \<le> length data" by blast
  with assms(1) have "secret = take n data" "ops = []" by (auto simp: load_or_create_def split: if_splits)
  then show ?thesis using that data by (simp add: run_disk_def)
next
  case False
  then have s: "fresh = Some secret" and w: "atomic_write fault rnd name secret d = (ops, True)"
    using assms(1) by (auto simp: load_or_create_def Let_def split: option.splits prod.splits bool.splits if_splits)
  have "run_disk ops d name = Some secret"
    using w temp_name_other [of name rnd]
    by (auto simp: atomic_write_def Let_def run_disk_def split: if_splits write_fault.splits)
  then show ?thesis using that assms(2) s by simp
qed

lemma secret_reused:
  assumes "load_or_create dir_ok read_ok fault rnd fresh name n d = (Inr secret, ops)"
    and "d name = Some data" and "n \<le> length data"
  shows "secret = take n data \<and> ops = []"
  using assms by (auto simp: load_or_create_def split: if_splits)

lemma other_files:
  assumes "load_or_create dir_ok read_ok fault rnd fresh name n d = (r, ops)"
    and "f \<noteq> name" and "f \<noteq> temp_name name rnd"
  shows "run_disk ops d f = d f"
proof -
  have "run_disk (fst (atomic_write fault rnd name s d)) d f = d f" for s
    using assms(2,3) by (cases fault) (simp_all add: atomic_write_def Let_def run_disk_def)
  moreover have "ops = [] \<or> (\<exists>s. ops = fst (atomic_write fault rnd name s d))"
    using assms(1) by (auto simp: load_or_create_def Let_def split: option.splits prod.splits bool.splits if_splits) (metis fst_conv)+
  ultimately show ?thesis by (auto simp: run_disk_def)
qed

end
