(* ===== verification/RateLimit.thy ===== *)
theory RateLimit
  imports Prelude
begin

text \<open>
  \<open>backend/src/ratelimit.rs\<close>: the token bucket of each client IP in front of \<open>/api\<close>. The tokens
  are an \<open>f64\<close>; its operations are an argument, and what the proofs need of them are facts about
  whole numbers below \<open>2 ^ 32\<close>, on which IEEE arithmetic is exact.
\<close>

section \<open>The code\<close>

record 'f f64_ops =
  f_of_u32 :: "nat \<Rightarrow> 'f"
  f_secs :: "duration \<Rightarrow> 'f"
  f_duration :: "'f \<Rightarrow> duration"
  f_add :: "'f \<Rightarrow> 'f \<Rightarrow> 'f"
  f_sub :: "'f \<Rightarrow> 'f \<Rightarrow> 'f"
  f_mul :: "'f \<Rightarrow> 'f \<Rightarrow> 'f"
  f_div :: "'f \<Rightarrow> 'f \<Rightarrow> 'f"
  f_min :: "'f \<Rightarrow> 'f \<Rightarrow> 'f"
  f_le :: "'f \<Rightarrow> 'f \<Rightarrow> bool"

record 'f rl_config =
  rl_rate :: 'f
  rl_burst :: 'f
  rl_ttl :: duration
  rl_max_keys :: nat

definition DEFAULT_TTL :: duration where "DEFAULT_TTL = secs 3600"
definition DEFAULT_MAX_KEYS :: nat where "DEFAULT_MAX_KEYS = 2 ^ 16"

definition rl_new_config :: "'f f64_ops \<Rightarrow> 'f \<Rightarrow> nat \<Rightarrow> 'f rl_config" where
  "rl_new_config x rate burst =
     \<lparr>rl_rate = rate, rl_burst = f_of_u32 x burst, rl_ttl = DEFAULT_TTL, rl_max_keys = DEFAULT_MAX_KEYS\<rparr>"

record 'f bucket =
  bk_tokens :: 'f
  bk_last :: instant

text \<open>\<open>min_by_key\<close>: the first of the oldest buckets in the order of the map.\<close>

definition oldest_key :: "(string, 'f bucket) hashmap \<Rightarrow> string option" where
  "oldest_key m = map_option fst (List.find (\<lambda>(_, b). bk_last b = Min (bk_last ` set (hvals m))) m)"

definition rl_evict :: "duration \<Rightarrow> instant \<Rightarrow> (string, 'f bucket) hashmap \<Rightarrow> (string, 'f bucket) hashmap" where
  "rl_evict ttl now m =
     (let m1 = hretain (\<lambda>_ b. now - bk_last b \<le> ttl) m
      in if length m1 < length m then m1
         else case oldest_key m1 of None \<Rightarrow> m1 | Some k \<Rightarrow> hdel k m1)"

text \<open>None lets the event through; \<open>Some d\<close> refuses it and says how long to wait.\<close>

definition rl_allow_at ::
  "'f f64_ops \<Rightarrow> 'f rl_config \<Rightarrow> string \<Rightarrow> instant \<Rightarrow> (string, 'f bucket) hashmap \<Rightarrow> duration option \<times> (string, 'f bucket) hashmap" where
  "rl_allow_at x cfg key now m =
     (let one = f_of_u32 x 1; zero = f_of_u32 x 0;
          m1 = (if hget m key = None \<and> rl_max_keys cfg \<le> length m then rl_evict (rl_ttl cfg) now m else m);
          b = (case hget m1 key of None \<Rightarrow> \<lparr>bk_tokens = rl_burst cfg, bk_last = now\<rparr> | Some b \<Rightarrow> b);
          elapsed = f_secs x (now - bk_last b);
          tokens = f_min x (f_add x (bk_tokens b) (f_mul x elapsed (rl_rate cfg))) (rl_burst cfg)
      in if f_le x one tokens
         then (None, hput key \<lparr>bk_tokens = f_sub x tokens one, bk_last = now\<rparr> m1)
         else (Some (if f_le x (rl_rate cfg) zero then 0 else f_duration x (f_div x (f_sub x one tokens) (rl_rate cfg))),
               hput key \<lparr>bk_tokens = tokens, bk_last = now\<rparr> m1))"

section \<open>Runs\<close>

definition rl_step :: "'f f64_ops \<Rightarrow> 'f rl_config \<Rightarrow> (string, 'f bucket) hashmap \<Rightarrow> string \<times> instant \<Rightarrow> (string, 'f bucket) hashmap" where
  "rl_step x cfg m e = snd (rl_allow_at x cfg (fst e) (snd e) m)"

text \<open>The answers to \<open>n\<close> events of one key at one instant.\<close>

fun rl_burst_at :: "'f f64_ops \<Rightarrow> 'f rl_config \<Rightarrow> string \<Rightarrow> instant \<Rightarrow> nat \<Rightarrow> (string, 'f bucket) hashmap \<Rightarrow> bool list" where
  "rl_burst_at x cfg key now 0 m = []"
| "rl_burst_at x cfg key now (Suc n) m =
     (let (r, m1) = rl_allow_at x cfg key now m in (r = None) # rl_burst_at x cfg key now n m1)"

section \<open>Memory is bounded\<close>

lemma length_hput_le: "length (hput k v m) \<le> (if hget m k = None then Suc (length m) else length m)"
  by (induction m) (auto simp: hput_def hget_def)

lemma length_hretain: "length (hretain p m) \<le> length m"
  by (simp add: hretain_def)

lemma length_hdel: "k \<in> fst ` set m \<Longrightarrow> length (hdel k m) < length m"
proof (induction m)
  case (Cons a m)
  have "length (hdel k m) \<le> length m" by (simp add: hdel_def AList.delete_eq)
  with Cons show ?case by (cases a) (auto simp: hdel_def Suc_le_eq less_Suc_eq_le image_iff)
qed simp

lemma oldest_key_in:
  assumes "m \<noteq> []"
  obtains k where "oldest_key m = Some k" "k \<in> fst ` set m"
proof -
  have "Min (bk_last ` set (hvals m)) \<in> bk_last ` set (hvals m)" using assms by (simp add: hvals_def)
  then obtain k b where kb: "(k, b) \<in> set m" "bk_last b = Min (bk_last ` set (hvals m))" by (auto simp: hvals_def)
  then have "List.find (\<lambda>(_, b). bk_last b = Min (bk_last ` set (hvals m))) m \<noteq> None"
    by (auto simp: find_None_iff)
  then obtain e where "List.find (\<lambda>(_, b). bk_last b = Min (bk_last ` set (hvals m))) m = Some e" by blast
  moreover from this have "e \<in> set m" by (metis (no_types, lifting) find_Some_iff nth_mem)
  ultimately show ?thesis using that by (simp add: oldest_key_def)
qed

lemma length_evict: "m \<noteq> [] \<Longrightarrow> length (rl_evict ttl now m) < length m"
proof -
  assume "m \<noteq> []"
  let ?m1 = "hretain (\<lambda>_ b. now - bk_last b \<le> ttl) m"
  show ?thesis
  proof (cases "length ?m1 < length m")
    case False
    then have "length ?m1 = length m" using length_hretain [of "\<lambda>_ b. now - bk_last b \<le> ttl" m] by linarith
    then have "?m1 \<noteq> []" using \<open>m \<noteq> []\<close> by auto
    then obtain k where "oldest_key ?m1 = Some k" "k \<in> fst ` set ?m1" by (rule oldest_key_in)
    then show ?thesis using length_hdel [of k ?m1] \<open>length ?m1 = length m\<close> by (simp add: rl_evict_def Let_def)
  qed (simp add: rl_evict_def Let_def)
qed

lemma length_rl_step:
  assumes "length m \<le> max 1 (rl_max_keys cfg)"
  shows "length (rl_step x cfg m e) \<le> max 1 (rl_max_keys cfg)"
proof -
  let ?m1 = "if hget m (fst e) = None \<and> rl_max_keys cfg \<le> length m then rl_evict (rl_ttl cfg) (snd e) m else m"
  have "\<exists>b. rl_step x cfg m e = hput (fst e) b ?m1"
    by (auto simp: rl_step_def rl_allow_at_def Let_def)
  then obtain b where b: "rl_step x cfg m e = hput (fst e) b ?m1" by blast
  have room: "hget m (fst e) \<noteq> None \<or> length ?m1 < max 1 (rl_max_keys cfg)"
    using assms length_evict [of m "rl_ttl cfg" "snd e"] by (cases "m = []") (auto simp: rl_evict_def hretain_def oldest_key_def)
  show ?thesis
    using room length_hput_le [of "fst e" b ?m1] assms b by (auto split: if_splits)
qed

text \<open>
  C32. The rate limiter's memory is bounded: whatever keys call it and whenever, in whatever order of
  time, it holds at most \<open>max_keys\<close> buckets (one, if that is zero).
\<close>

theorem buckets_bounded: "length (foldl (rl_step x cfg) [] es) \<le> max 1 (rl_max_keys cfg)"
proof -
  have "length m \<le> max 1 (rl_max_keys cfg) \<Longrightarrow> length (foldl (rl_step x cfg) m es) \<le> max 1 (rl_max_keys cfg)" for m
    by (induction es arbitrary: m) (simp_all del: One_nat_def add: length_rl_step)
  then show ?thesis by simp
qed

section \<open>A burst is let through, no more\<close>

text \<open>Facts of \<open>f64\<close>: whole numbers below \<open>2 ^ 32\<close> are exact, and zero seconds add no tokens.\<close>

definition f64_exact :: "'f f64_ops \<Rightarrow> 'f \<Rightarrow> bool" where
  "f64_exact x rate \<longleftrightarrow>
     f_mul x (f_secs x 0) rate = f_of_u32 x 0 \<and>
     (\<forall>m < 2 ^ 32. f_add x (f_of_u32 x m) (f_of_u32 x 0) = f_of_u32 x m
        \<and> f_le x (f_of_u32 x 1) (f_of_u32 x m) = (1 \<le> m)
        \<and> (m \<noteq> 0 \<longrightarrow> f_sub x (f_of_u32 x m) (f_of_u32 x 1) = f_of_u32 x (m - 1))
        \<and> (\<forall>n < 2 ^ 32. f_min x (f_of_u32 x m) (f_of_u32 x n) = f_of_u32 x (min m n)))"

lemma allow_now:
  assumes ok: "f64_exact x (rl_rate cfg)" and b: "rl_burst cfg = f_of_u32 x burst" "burst < 2 ^ 32"
    and m: "(case hget m key of None \<Rightarrow> t = burst | Some bk \<Rightarrow> bk = \<lparr>bk_tokens = f_of_u32 x t, bk_last = now\<rparr>)" "t \<le> burst"
  obtains m' r where "rl_allow_at x cfg key now m = (r, m')" "(r = None) = (1 \<le> t)"
    "hget m' key = Some \<lparr>bk_tokens = f_of_u32 x (t - 1), bk_last = now\<rparr>"
proof -
  let ?m1 = "if hget m key = None \<and> rl_max_keys cfg \<le> length m then rl_evict (rl_ttl cfg) now m else m"
  have t: "t < 2 ^ 32" using m(2) b(2) by simp
  have gone: "hget (rl_evict (rl_ttl cfg) now m) key = None" if "hget m key = None"
    using that by (auto simp: rl_evict_def Let_def hget_None_iff hretain_def hdel_def AList.delete_eq split: option.split)
  have now: "(case hget ?m1 key of None \<Rightarrow> \<lparr>bk_tokens = rl_burst cfg, bk_last = now\<rparr> | Some b \<Rightarrow> b)
      = \<lparr>bk_tokens = f_of_u32 x t, bk_last = now\<rparr>"
    using m(1) b(1) gone by (auto split: option.splits)
  have eval: "f_min x (f_add x (f_of_u32 x t) (f_mul x (f_secs x (now - now)) (rl_rate cfg))) (rl_burst cfg) = f_of_u32 x t"
    "f_le x (f_of_u32 x 1) (f_of_u32 x t) = (1 \<le> t)"
    "t \<noteq> 0 \<Longrightarrow> f_sub x (f_of_u32 x t) (f_of_u32 x 1) = f_of_u32 x (t - 1)"
    using ok t b m(2) by (simp_all add: f64_exact_def min_absorb1)
  show ?thesis
  proof (cases "t = 0")
    case True
    then show ?thesis
      using that [of _ _] eval now by (simp add: rl_allow_at_def Let_def hashmap_simps)
  next
    case False
    then show ?thesis
      using that [of _ _] eval now by (simp add: rl_allow_at_def Let_def hashmap_simps)
  qed
qed

text \<open>
  A client that has no bucket is let through exactly \<open>burst\<close> times at one instant, whoever else
  has called: of \<open>n\<close> requests the first \<open>burst\<close> are answered and every further one is refused, also
  when its arrival evicts another client.
\<close>

theorem burst_then_refused:
  assumes "f64_exact x (rl_rate cfg)" and "rl_burst cfg = f_of_u32 x burst" and "burst < 2 ^ 32" and "hget m key = None"
  shows "rl_burst_at x cfg key now n m = replicate (min n burst) True @ replicate (n - burst) False"
proof -
  have "rl_burst_at x cfg key now n m = replicate (min n t) True @ replicate (n - t) False"
    if "case hget m key of None \<Rightarrow> t = burst | Some bk \<Rightarrow> bk = \<lparr>bk_tokens = f_of_u32 x t, bk_last = now\<rparr>" "t \<le> burst" for t m
    using that
  proof (induction n arbitrary: t m)
    case (Suc n)
    obtain m' r where a: "rl_allow_at x cfg key now m = (r, m')" "(r = None) = (1 \<le> t)"
      "hget m' key = Some \<lparr>bk_tokens = f_of_u32 x (t - 1), bk_last = now\<rparr>"
      using allow_now [OF assms(1-3) Suc.prems] by blast
    have "rl_burst_at x cfg key now n m' = replicate (min n (t - 1)) True @ replicate (n - (t - 1)) False"
      by (rule Suc.IH) (use a(3) Suc.prems(2) in auto)
    then show ?case using a(1,2) by (cases t) (auto simp: Let_def replicate_append_same min_def)
  qed simp
  from this [of burst m] show ?thesis using assms(4) by simp
qed

text \<open>Exact arithmetic, in billionths, as an instance of the operations.\<close>

definition exact_ops :: "int f64_ops" where
  "exact_ops =
     \<lparr>f_of_u32 = \<lambda>n. int n * 1000000000, f_secs = int, f_duration = nat, f_add = (+), f_sub = (-),
      f_mul = \<lambda>a b. a * b div 1000000000, f_div = \<lambda>a b. a * 1000000000 div b, f_min = min, f_le = (\<le>)\<rparr>"

lemma exact_ops_exact: "f64_exact exact_ops rate"
  by (auto simp: f64_exact_def exact_ops_def min_def of_nat_diff algebra_simps)

theorem burst_then_refused_witness:
  "rl_burst_at exact_ops \<lparr>rl_rate = 5000000000, rl_burst = f_of_u32 exact_ops 2, rl_ttl = 0, rl_max_keys = 1\<rparr> ''b'' 7 3
     [(''a'', \<lparr>bk_tokens = 0, bk_last = 7\<rparr>)] = [True, True, False]"
proof -
  have "replicate (min 3 2) True @ replicate (3 - 2) False = [True, True, False]" by (simp add: numeral_2_eq_2)
  then show ?thesis
    by (subst burst_then_refused [where burst = 2]) (simp_all add: exact_ops_exact hget_def)
qed

end
