(* ===== verification/LoadMedia.thy ===== *)
theory LoadMedia
  imports Codec Util
begin

unbundle bit_operations_syntax

text \<open>
  The media side of the synthetic participant, \<open>backend/src/loadclient.rs\<close>: the probe that stamps
  every packet, the packets of a screen frame and of a voice, and the statistics of what arrives.
  The integration tests and the load runs judge the server by it, so the properties tie it to the
  server's own VP9 parser and say that its count of lost packets is right.
\<close>

section \<open>The code: probes\<close>

definition PROBE_MAGIC :: "8 word list" where "PROBE_MAGIC = [0x56, 0x48, 0x4C, 0x54]"
definition PROBE_LEN :: nat where "PROBE_LEN = 20"
definition VP9_DESC_LEN :: nat where "VP9_DESC_LEN = 5"
definition VIDEO_MTU_PAYLOAD :: nat where "VIDEO_MTU_PAYLOAD = 1100"
definition PT_OPUS :: nat where "PT_OPUS = 111"
definition PT_VP9 :: nat where "PT_VP9 = 98"

text \<open>\<open>to_be_bytes\<close> and \<open>from_be_bytes\<close> of \<open>n\<close> bytes.\<close>

fun be_bytes :: "nat \<Rightarrow> nat \<Rightarrow> 8 word list" where
  "be_bytes 0 v = []"
| "be_bytes (Suc n) v = be_bytes n (v div 256) @ [word_of_nat v]"

definition from_be :: "8 word list \<Rightarrow> nat" where
  "from_be bs = foldl (\<lambda>a b. a * 256 + unat b) 0 bs"

text \<open>\<open>probe\<close> writes over the first 20 bytes of a buffer; None is the panic on a shorter one.\<close>

definition probe :: "8 word list \<Rightarrow> 32 word \<Rightarrow> 32 word \<Rightarrow> 64 word \<Rightarrow> 8 word list option" where
  "probe buf publisher seq now =
     (if length buf < PROBE_LEN then None
      else Some (PROBE_MAGIC @ be_bytes 4 (unat publisher) @ be_bytes 4 (unat seq) @ be_bytes 8 (unat now)
                 @ drop PROBE_LEN buf))"

definition parse_probe :: "8 word list \<Rightarrow> (32 word \<times> 32 word \<times> 64 word) option" where
  "parse_probe b =
     (if length b < PROBE_LEN \<or> take 4 b \<noteq> PROBE_MAGIC then None
      else Some (word_of_nat (from_be (take 4 (drop 4 b))), word_of_nat (from_be (take 4 (drop 8 b))),
                 word_of_nat (from_be (take 8 (drop 12 b)))))"

section \<open>The code: what is sent\<close>

text \<open>The arguments of a \<open>ClientPc::write\<close>.\<close>

record rtp_write =
  rw_pt :: nat
  rw_seq :: "64 word"
  rw_ts :: "32 word"
  rw_marker :: bool
  rw_payload :: "8 word list"

definition nackable :: "rtp_write \<Rightarrow> bool" where
  "nackable p \<longleftrightarrow> rw_pt p \<noteq> PT_OPUS"

text \<open>The temporal layer of a frame of the L1T3 pattern.\<close>

definition frame_tid :: "32 word \<Rightarrow> bool \<Rightarrow> 8 word" where
  "frame_tid frame_no keyframe = (if keyframe then 0 else [0, 2, 1, 2] ! unat (frame_no mod 4))"

definition frame_head :: "bool \<Rightarrow> nat \<Rightarrow> nat \<Rightarrow> 8 word" where
  "frame_head keyframe packets i =
     (0x80 OR 0x20) OR (if keyframe then 0 else 0x40) OR (if i = 0 then 0x08 else 0)
       OR (if i = packets - 1 then 0x04 else 0)"

definition frame_size :: "nat \<Rightarrow> bool \<Rightarrow> nat" where
  "frame_size bytes keyframe = (if keyframe then bytes * 4 else bytes)"

definition frame_packets :: "nat \<Rightarrow> nat" where
  "frame_packets sz = max 1 ((sz + (VIDEO_MTU_PAYLOAD - 1)) div VIDEO_MTU_PAYLOAD)"

text \<open>The VP9 descriptor and then the probe, in a payload of zeros.\<close>

definition frame_payload ::
  "32 word \<Rightarrow> 32 word \<Rightarrow> bool \<Rightarrow> nat \<Rightarrow> 64 word \<Rightarrow> 64 word \<Rightarrow> nat \<Rightarrow> 8 word list option" where
  "frame_payload idx frame_no keyframe sz seq now i =
     (let tid = frame_tid frame_no keyframe;
          pid = ucast (frame_no AND 0x7fff) :: 16 word;
          len = max (min VIDEO_MTU_PAYLOAD (sz - i * VIDEO_MTU_PAYLOAD)) (VP9_DESC_LEN + PROBE_LEN);
          head = [frame_head keyframe (frame_packets sz) i, 0x80 OR ucast (drop_bit 8 pid), ucast pid,
                  push_bit 5 tid OR (if tid > 0 then 0x10 else 0), ucast (frame_no div 4)]
      in map_option (\<lambda>body. head @ body) (probe (replicate (len - VP9_DESC_LEN) 0) idx (ucast seq) now))"

text \<open>
  The loop of \<open>send_screen_frame\<close> from packet \<open>i\<close> on, \<open>n\<close> packets to go; \<open>clock\<close> is what the system
  clock gives the probe of a packet. The sequence number is the caller's, and counts on.
\<close>

fun frame_loop ::
  "(nat \<Rightarrow> 64 word) \<Rightarrow> 32 word \<Rightarrow> 32 word \<Rightarrow> bool \<Rightarrow> nat \<Rightarrow> nat \<Rightarrow> nat \<Rightarrow> 64 word \<Rightarrow> (rtp_write list \<times> 64 word) option" where
  "frame_loop clock idx frame_no keyframe sz i 0 seq = Some ([], seq)"
| "frame_loop clock idx frame_no keyframe sz i (Suc n) seq =
     Option.bind (frame_payload idx frame_no keyframe sz seq (clock i) i) (\<lambda>payload.
     map_option (\<lambda>(ps, seq').
         (\<lparr>rw_pt = PT_VP9, rw_seq = seq, rw_ts = frame_no * 3000, rw_marker = (i = frame_packets sz - 1),
           rw_payload = payload\<rparr> # ps, seq'))
       (frame_loop clock idx frame_no keyframe sz (Suc i) n (seq + 1)))"

text \<open>The parts of a \<open>ClientPc\<close> and a \<open>ClientPeer\<close> that sending looks at.\<close>

record sender =
  sd_idx :: "32 word"
  sd_audio_mid :: "string option"
  sd_audio_seq :: "32 word"
  sd_screen :: bool
  sd_screen_mid :: "string option"
  sd_screen_audio_mid :: "string option"
  sd_screen_paused :: bool
  sd_keyframe :: bool

text \<open>Whether a frame was sent, the packets, the next sequence number and the sender after it.\<close>

definition send_screen_frame ::
  "(nat \<Rightarrow> 64 word) \<Rightarrow> 32 word \<Rightarrow> nat \<Rightarrow> 64 word \<Rightarrow> sender \<Rightarrow> (bool \<times> rtp_write list \<times> 64 word \<times> sender) option" where
  "send_screen_frame clock frame_no bytes seq s =
     (if \<not> sd_screen s \<or> sd_screen_paused s \<or> sd_screen_mid s = None then Some (False, [], seq, s)
      else let keyframe = sd_keyframe s; sz = frame_size bytes keyframe
           in map_option (\<lambda>(ps, seq'). (True, ps, seq', s\<lparr>sd_keyframe := False\<rparr>))
                (frame_loop clock (sd_idx s) frame_no keyframe sz 0 (frame_packets sz) seq))"

definition send_audio :: "64 word \<Rightarrow> bool \<Rightarrow> 32 word \<Rightarrow> sender \<Rightarrow> (rtp_write list \<times> sender) option" where
  "send_audio now speaking ts s =
     (case sd_audio_mid s of
        None \<Rightarrow> Some ([], s)
      | Some _ \<Rightarrow>
          let seq = sd_audio_seq s
          in map_option
               (\<lambda>payload. ([\<lparr>rw_pt = PT_OPUS, rw_seq = 1000 + ucast seq, rw_ts = ts, rw_marker = False, rw_payload = payload\<rparr>],
                           s\<lparr>sd_audio_seq := seq + 1\<rparr>))
               (probe (replicate (if speaking then 100 else PROBE_LEN) 0) (sd_idx s) seq now))"

definition send_screen_audio :: "64 word \<Rightarrow> 64 word \<Rightarrow> 32 word \<Rightarrow> sender \<Rightarrow> rtp_write list option" where
  "send_screen_audio now seq ts s =
     (if \<not> sd_screen s \<or> sd_screen_audio_mid s = None then Some []
      else map_option
             (\<lambda>payload. [\<lparr>rw_pt = PT_OPUS, rw_seq = seq, rw_ts = ts, rw_marker = False, rw_payload = payload\<rparr>])
             (probe (replicate 100 0) (sd_idx s + 100000) (ucast seq) now))"

section \<open>The code: what is measured\<close>

record stream_acc =
  sa_first :: "64 word"
  sa_max :: "64 word"
  sa_count :: "64 word"

definition new_acc :: stream_acc where
  "new_acc = \<lparr>sa_first = 0, sa_max = 0, sa_count = 0\<rparr>"

definition acc_add :: "64 word \<Rightarrow> stream_acc \<Rightarrow> stream_acc" where
  "acc_add seq a =
     (let a1 = (if sa_count a = 0 then a\<lparr>sa_first := seq, sa_max := seq\<rparr> else a)
      in a1\<lparr>sa_first := min (sa_first a1) seq, sa_max := max (sa_max a1) seq, sa_count := sa_count a1 + 1\<rparr>)"

definition acc_lost :: "stream_acc \<Rightarrow> 64 word" where
  "acc_lost a =
     (if sa_count a = 0 then 0
      else let span = sa_max a - sa_first a + 1 in if sa_count a \<le> span then span - sa_count a else 0)"

text \<open>Microseconds, as a \<open>u32\<close>; the times are nanoseconds of the system clock.\<close>

definition latency :: "64 word \<Rightarrow> 64 word \<Rightarrow> 32 word" where
  "latency now sent =
     ucast (min ((if sent \<le> now then now - sent else 0) div 1000) (0xFFFFFFFF :: 64 word))"

record stats =
  ss_audio_us :: "32 word list"
  ss_video_us :: "32 word list"
  ss_audio :: "(32 word, stream_acc) hashmap"
  ss_video :: "(32 word, stream_acc) hashmap"
  ss_video_frames :: "64 word"
  ss_slot_owners :: "(string \<times> 32 word, 64 word) hashmap"
  ss_got_media :: bool

definition new_stats :: stats where
  "new_stats =
     \<lparr>ss_audio_us = [], ss_video_us = [], ss_audio = [], ss_video = [], ss_video_frames = 0, ss_slot_owners = [],
      ss_got_media = False\<rparr>"

text \<open>\<open>entry(k).or_default()\<close>, then a change.\<close>

definition bump :: "'k \<Rightarrow> 'v \<Rightarrow> ('v \<Rightarrow> 'v) \<Rightarrow> ('k, 'v) hashmap \<Rightarrow> ('k, 'v) hashmap" where
  "bump k d f m = hput k (f (case hget m k of None \<Rightarrow> d | Some v \<Rightarrow> v)) m"

text \<open>
  An arriving packet: \<open>voice\<close> tells the voice connection from the screen's; \<open>owner\<close> is the owner
  the slot announcements give the packet's stream, empty when unknown.
\<close>

definition on_rtp :: "64 word \<Rightarrow> bool \<Rightarrow> string \<Rightarrow> rtp_write \<Rightarrow> stats \<Rightarrow> stats" where
  "on_rtp now voice owner p s =
     (let video = (rw_pt p \<noteq> PT_OPUS);
          body = (if video then drop VP9_DESC_LEN (rw_payload p) else rw_payload p)
      in case parse_probe body of
           None \<Rightarrow> s
         | Some (publisher, seq, sent) \<Rightarrow>
             let lat = latency now sent; s1 = s\<lparr>ss_got_media := True\<rparr>
             in if video
                then s1\<lparr>ss_video := bump publisher new_acc (acc_add (rw_seq p)) (ss_video s1),
                        ss_video_frames := (if rw_marker p then ss_video_frames s1 + 1 else ss_video_frames s1),
                        ss_video_us := ss_video_us s1 @ [lat]\<rparr>
                else s1\<lparr>ss_slot_owners := (if voice then bump (owner, publisher) 0 (\<lambda>n. n + 1) (ss_slot_owners s1)
                                           else ss_slot_owners s1),
                        ss_audio := bump publisher new_acc (acc_add (ucast seq)) (ss_audio s1),
                        ss_audio_us := ss_audio_us s1 @ [lat]\<rparr>)"

section \<open>A probe is read back\<close>

lemma length_be_bytes [simp]: "length (be_bytes n v) = n"
  by (induction n arbitrary: v) simp_all

lemma from_be_snoc: "from_be (bs @ [b]) = from_be bs * 256 + unat b"
  by (simp add: from_be_def)

lemma from_be_bytes: "from_be (be_bytes n v) = v mod 256 ^ n"
proof (induction n arbitrary: v)
  case (Suc n)
  have "unat (word_of_nat v :: 8 word) = v mod 256" by (simp add: unat_of_nat)
  with Suc show ?case by (simp add: from_be_snoc mod_mult2_eq mult.commute)
qed (simp add: from_be_def)

lemma word_from_be: "word_of_nat (from_be (be_bytes 4 (unat (w :: 32 word)))) = w"
  "word_of_nat (from_be (be_bytes 8 (unat (t :: 64 word)))) = t"
  using unsigned_less [of w, where ?'a = nat] unsigned_less [of t, where ?'a = nat] by (simp_all add: from_be_bytes)

lemma parse_probe_back:
  "probe buf publisher seq now = Some b \<Longrightarrow> parse_probe b = Some (publisher, seq, now)"
  by (auto simp: probe_def parse_probe_def PROBE_LEN_def PROBE_MAGIC_def word_from_be split: if_splits)

lemma probe_total: "PROBE_LEN \<le> length buf \<Longrightarrow> \<exists>b. probe buf publisher seq now = Some b \<and> length b = length buf"
  by (simp add: probe_def PROBE_LEN_def PROBE_MAGIC_def)

section \<open>The server's parser understands the frames\<close>

lemma low_pid:
  "push_bit 8 (ucast ((0x80 OR ucast (drop_bit 8 pid)) AND 0x7f :: 8 word)) OR ucast (ucast pid :: 8 word) = (pid :: 16 word)" (is "?l = _")
  if "pid = ucast (f AND 0x7fff :: 32 word)"
proof (rule bit_word_eqI)
  fix n assume n: "n < LENGTH(16)"
  have m: "(0x7f :: 8 word) = mask 7" "(0x7fff :: 32 word) = mask 15" "(0x80 :: 8 word) = push_bit 7 1"
    by (simp_all add: mask_eq_exp_minus_1 push_bit_eq_mult)
  have top: "bit pid n \<Longrightarrow> n < 15" unfolding that m by (simp only: bit_and_iff bit_mask_iff bit_unsigned_iff)
  show "bit ?l n = bit pid n"
    using n top unfolding m
    by (auto simp only: bit_or_iff bit_and_iff bit_mask_iff bit_unsigned_iff bit_push_bit_iff bit_drop_bit_eq o_apply
          bit_1_iff len_bit0 len_num1 possible_bit_word) auto
qed

lemma flag_set: "(0x80 OR x) AND 0x80 \<noteq> (0 :: 8 word)"
proof
  assume "(0x80 OR x) AND 0x80 = 0"
  then have "\<not> bit ((0x80 OR x) AND 0x80) 7" by (simp only: bit_0_eq bot_apply) simp
  then show False by (simp add: bit_simps)
qed

lemma head_flags:
  "frame_head k n i AND 0x80 \<noteq> 0" "frame_head k n i AND 0x20 \<noteq> 0" "frame_head k n i AND 0x10 = 0"
  "(frame_head k n i AND 0x40 \<noteq> 0) = (\<not> k)" "(frame_head k n i AND 0x08 \<noteq> 0) = (i = 0)"
  by (simp_all add: frame_head_def)

lemma frame_tid_small: "frame_tid f k \<in> {0, 1, 2}"
proof -
  have "unat (f mod 4) < 4" by (simp add: unat_mod)
  then have "unat (f mod 4) \<in> {0, 1, 2, 3}" by auto
  then show ?thesis by (auto simp: frame_tid_def)
qed

lemma tid_back:
  "t \<in> {0, 1, 2 :: 8 word} \<Longrightarrow> drop_bit 5 (push_bit 5 t OR (if t > 0 then 0x10 else 0)) AND 0x07 = t"
  by auto

lemma frame_payload_read:
  obtains p where "frame_payload idx f k sz seq now i = Some p"
    "parse_vp9 p = Inr \<lparr>d_frame_number = ucast (f AND 0x7fff), d_temporal_layer = frame_tid f k,
       d_is_keyframe = (k \<and> i = 0), d_attaches_structure = False, d_chain_diffs = []\<rparr>"
    "parse_probe (drop VP9_DESC_LEN p) = Some (idx, ucast seq, now)"
    "length p \<le> VIDEO_MTU_PAYLOAD"
proof -
  let ?len = "max (min VIDEO_MTU_PAYLOAD (sz - i * VIDEO_MTU_PAYLOAD)) (VP9_DESC_LEN + PROBE_LEN)"
  have len: "?len \<le> VIDEO_MTU_PAYLOAD" "VP9_DESC_LEN + PROBE_LEN \<le> ?len"
    by (auto simp: VIDEO_MTU_PAYLOAD_def VP9_DESC_LEN_def PROBE_LEN_def)
  then obtain b where b: "probe (replicate (?len - VP9_DESC_LEN) 0) idx (ucast seq) now = Some b"
      "length b = ?len - VP9_DESC_LEN"
    using probe_total [of "replicate (?len - VP9_DESC_LEN) (0 :: 8 word)"] by fastforce
  show ?thesis
  proof (rule that)
    let ?pid = "ucast (f AND 0x7fff) :: 16 word" and ?t = "frame_tid f k"
    let ?p = "[frame_head k (frame_packets sz) i, 0x80 OR ucast (drop_bit 8 ?pid), ucast ?pid,
                  push_bit 5 ?t OR (if ?t > 0 then 0x10 else 0), ucast (f div 4)] @ b"
    show "frame_payload idx f k sz seq now i = Some ?p" using b by (simp add: frame_payload_def Let_def)
    show "parse_vp9 ?p = Inr \<lparr>d_frame_number = ?pid, d_temporal_layer = ?t, d_is_keyframe = (k \<and> i = 0),
       d_attaches_structure = False, d_chain_diffs = []\<rparr>"
      using tid_back [OF frame_tid_small [of f k]] low_pid [of ?pid f] head_flags [of k "frame_packets sz" i]
      by (simp add: parse_vp9_def get_byte_def vp9_picture_id_def vp9_tid_def Let_def flag_set)
    show "parse_probe (drop VP9_DESC_LEN ?p) = Some (idx, ucast seq, now)"
      using parse_probe_back [OF b(1)] by (simp add: VP9_DESC_LEN_def)
    show "length ?p \<le> VIDEO_MTU_PAYLOAD" using b(2) len by (simp add: VP9_DESC_LEN_def PROBE_LEN_def)
  qed
qed


lemma frame_loop_read:
  "\<exists>ps. frame_loop clock idx f k sz i n seq = Some (ps, seq + of_nat n) \<and>
     map (\<lambda>p. parse_vp9 (rw_payload p)) ps =
       map (\<lambda>j. Inr \<lparr>d_frame_number = ucast (f AND 0x7fff), d_temporal_layer = frame_tid f k,
                     d_is_keyframe = (k \<and> j = 0), d_attaches_structure = False, d_chain_diffs = []\<rparr>) [i..<i + n] \<and>
     map (\<lambda>p. parse_probe (drop VP9_DESC_LEN (rw_payload p))) ps =
       map (\<lambda>j. Some (idx, ucast (seq + of_nat (j - i)), clock j)) [i..<i + n] \<and>
     map rw_seq ps = map (\<lambda>j. seq + of_nat (j - i)) [i..<i + n] \<and>
     map rw_marker ps = map (\<lambda>j. j = frame_packets sz - 1) [i..<i + n]"
proof (induction n arbitrary: i seq)
  case (Suc n)
  obtain p where p: "frame_payload idx f k sz seq (clock i) i = Some p"
    "parse_vp9 p = Inr \<lparr>d_frame_number = ucast (f AND 0x7fff), d_temporal_layer = frame_tid f k,
       d_is_keyframe = (k \<and> i = 0), d_attaches_structure = False, d_chain_diffs = []\<rparr>"
    "parse_probe (drop VP9_DESC_LEN p) = Some (idx, ucast seq, clock i)"
    by (rule frame_payload_read)
  obtain ps where ps: "frame_loop clock idx f k sz (Suc i) n (seq + 1) = Some (ps, seq + 1 + of_nat n)"
     "map (\<lambda>p. parse_vp9 (rw_payload p)) ps =
       map (\<lambda>j. Inr \<lparr>d_frame_number = ucast (f AND 0x7fff), d_temporal_layer = frame_tid f k,
                     d_is_keyframe = (k \<and> j = 0), d_attaches_structure = False, d_chain_diffs = []\<rparr>) [Suc i..<Suc i + n]"
     "map (\<lambda>p. parse_probe (drop VP9_DESC_LEN (rw_payload p))) ps =
       map (\<lambda>j. Some (idx, ucast (seq + 1 + of_nat (j - Suc i)), clock j)) [Suc i..<Suc i + n]"
     "map rw_seq ps = map (\<lambda>j. seq + 1 + of_nat (j - Suc i)) [Suc i..<Suc i + n]"
     "map rw_marker ps = map (\<lambda>j. j = frame_packets sz - 1) [Suc i..<Suc i + n]"
    using Suc.IH [of "Suc i" "seq + 1"] by blast
  have range: "[i..<i + Suc n] = i # [Suc i..<Suc i + n]" by (simp add: upt_rec [of i])
  have next_seq: "seq + 1 + of_nat (j - Suc i) = seq + of_nat (j - i)" if "j \<in> set [Suc i..<Suc i + n]" for j
  proof -
    have "j - i = Suc (j - Suc i)" using that by auto
    then show ?thesis by simp
  qed
  show ?case
    using p ps unfolding range by (simp add: next_seq cong: map_cong)
qed simp

text \<open>
  C22. A synthetic screen frame is what the server's VP9 parser takes it for. A sender that is not
  paused sends the whole frame; the parser reads from every packet the frame's number and layer, a
  keyframe in the first packet of a frame that was asked to be one and nowhere else; the probe behind
  the descriptor has the publisher, the packet's number and its sending time; the packets are
  numbered on, and the last one alone has the marker.
\<close>

theorem screen_frame_understood:
  "\<exists>ps. send_screen_frame clock f bytes seq (s\<lparr>sd_screen := True, sd_screen_paused := False, sd_screen_mid := Some mid\<rparr>) =
       Some (True, ps, seq + of_nat (length ps),
             s\<lparr>sd_screen := True, sd_screen_paused := False, sd_screen_mid := Some mid, sd_keyframe := False\<rparr>) \<and>
     length ps = frame_packets (frame_size bytes (sd_keyframe s)) \<and>
     map (\<lambda>p. parse_vp9 (rw_payload p)) ps =
       map (\<lambda>i. Inr \<lparr>d_frame_number = ucast (f AND 0x7fff), d_temporal_layer = frame_tid f (sd_keyframe s),
                     d_is_keyframe = (sd_keyframe s \<and> i = 0), d_attaches_structure = False, d_chain_diffs = []\<rparr>)
         [0..<length ps] \<and>
     map (\<lambda>p. parse_probe (drop VP9_DESC_LEN (rw_payload p))) ps =
       map (\<lambda>i. Some (sd_idx s, ucast (seq + of_nat i), clock i)) [0..<length ps] \<and>
     map rw_seq ps = map (\<lambda>i. seq + of_nat i) [0..<length ps] \<and>
     map rw_marker ps = map (\<lambda>i. i = length ps - 1) [0..<length ps]"
proof -
  let ?sz = "frame_size bytes (sd_keyframe s)"
  obtain ps where ps: "frame_loop clock (sd_idx s) f (sd_keyframe s) ?sz 0 (frame_packets ?sz) seq
        = Some (ps, seq + of_nat (frame_packets ?sz))"
     "map (\<lambda>p. parse_vp9 (rw_payload p)) ps =
       map (\<lambda>j. Inr \<lparr>d_frame_number = ucast (f AND 0x7fff), d_temporal_layer = frame_tid f (sd_keyframe s),
                     d_is_keyframe = (sd_keyframe s \<and> j = 0), d_attaches_structure = False, d_chain_diffs = []\<rparr>) [0..<frame_packets ?sz]"
     "map (\<lambda>p. parse_probe (drop VP9_DESC_LEN (rw_payload p))) ps =
       map (\<lambda>j. Some (sd_idx s, ucast (seq + of_nat j), clock j)) [0..<frame_packets ?sz]"
     "map rw_seq ps = map (\<lambda>j. seq + of_nat j) [0..<frame_packets ?sz]"
     "map rw_marker ps = map (\<lambda>j. j = frame_packets ?sz - 1) [0..<frame_packets ?sz]"
    using frame_loop_read [of clock "sd_idx s" f "sd_keyframe s" ?sz 0 "frame_packets ?sz" seq] by auto
  have "length (map rw_seq ps) = frame_packets ?sz" unfolding ps(4) by simp
  then have n: "length ps = frame_packets ?sz" by simp
  show ?thesis
    by (rule exI [of _ ps]) (use ps in \<open>simp add: send_screen_frame_def Let_def n\<close>)
qed

section \<open>The count of lost packets\<close>

lemma distinct_below:
  assumes "distinct (xs :: 64 word list)" "\<And>x. x \<in> set xs \<Longrightarrow> x < 2 ^ 63"
  shows "length xs \<le> 2 ^ 63"
proof -
  have "unat x < 2 ^ 63" if "x \<in> set xs" for x
    using assms(2) [OF that] by (simp add: word_less_nat_alt)
  then have "unat ` set xs \<subseteq> {..<2 ^ 63}" by auto
  then have "card (unat ` set xs) \<le> card {..<2 ^ 63 :: nat}" by (intro card_mono) auto
  moreover have "card (unat ` set xs) = length xs"
    using assms(1) by (simp add: card_image inj_on_def word_unat_eq_iff distinct_card)
  ultimately show ?thesis by simp
qed

lemma acc_of:
  assumes "xs \<noteq> []" "length xs < 2 ^ 64"
  shows "unat (sa_first (fold acc_add xs new_acc)) = Min (unat ` set xs)
       \<and> unat (sa_max (fold acc_add xs new_acc)) = Max (unat ` set xs)
       \<and> unat (sa_count (fold acc_add xs new_acc)) = length xs"
  using assms
proof (induction xs rule: rev_induct)
  case (snoc x xs)
  show ?case
  proof (cases "xs = []")
    case True
    then show ?thesis by (simp add: acc_add_def new_acc_def)
  next
    case False
    let ?a = "fold acc_add xs new_acc"
    have ih: "unat (sa_first ?a) = Min (unat ` set xs)" "unat (sa_max ?a) = Max (unat ` set xs)" "unat (sa_count ?a) = length xs"
      using snoc False by simp_all
    then have "sa_count ?a \<noteq> 0" using False by auto
    moreover have "unat (sa_count ?a + 1) = Suc (length xs)"
      using snoc.prems(2) ih(3) by (simp add: unat_word_ariths)
    moreover have "unat (min v w) = min (unat v) (unat w)" "unat (max v w) = max (unat v) (unat w)" for v w :: "64 word"
      by (simp_all add: min_def max_def word_le_nat_alt)
    moreover have "Min (insert (unat x) (unat ` set xs)) = min (unat x) (Min (unat ` set xs))"
      "Max (insert (unat x) (unat ` set xs)) = max (unat x) (Max (unat ` set xs))"
      using False by simp_all
    ultimately show ?thesis using ih by (simp add: acc_add_def [of x ?a] Let_def min.commute max.commute)
  qed
qed simp

text \<open>
  The count of lost packets is exact: whatever the order of arrival, the accounting of a stream
  reports as many packets as there are numbers between the lowest and the highest received that
  never arrived, for packets that arrive once and numbers below \<open>2 ^ 63\<close>.
\<close>

theorem lost_is_missing:
  assumes "xs \<noteq> []" and "distinct xs" and "list_all (\<lambda>x. x < 2 ^ 63) xs"
  shows "unat (acc_lost (fold acc_add xs new_acc))
       = card ({Min (unat ` set xs)..Max (unat ` set xs)} - unat ` set xs)"
proof -
  let ?a = "fold acc_add xs new_acc" and ?S = "unat ` set xs"
  have len: "length xs \<le> 2 ^ 63" using assms(2,3) by (intro distinct_below) (auto simp: list_all_iff)
  then have a: "unat (sa_first ?a) = Min ?S" "unat (sa_max ?a) = Max ?S" "unat (sa_count ?a) = length xs"
    using acc_of [OF assms(1)] by auto
  have card: "card ?S = length xs" using assms(2) by (simp add: card_image inj_on_def word_unat_eq_iff distinct_card)
  have sub: "?S \<subseteq> {Min ?S..Max ?S}" by auto
  have le: "Min ?S \<le> Max ?S" by (rule order.trans [of _ "unat (hd xs)"]) (use assms(1) in auto)
  have top: "Max ?S < 2 ^ 63"
  proof -
    have "Max ?S \<in> ?S" using assms(1) by (intro Max_in) auto
    then obtain x where "x \<in> set xs" "Max ?S = unat x" by auto
    then show ?thesis using assms(3) by (simp add: list_all_iff word_less_nat_alt)
  qed
  have span: "unat (sa_max ?a - sa_first ?a + 1) = Max ?S - Min ?S + 1"
  proof -
    have "unat (sa_max ?a - sa_first ?a) = Max ?S - Min ?S"
      using a(1,2) le by (simp add: unat_sub word_le_nat_alt)
    then show ?thesis using top by (simp add: unat_word_ariths)
  qed
  have "card ?S \<le> Max ?S - Min ?S + 1" using card_mono [OF _ sub] by simp
  then have "unat (acc_lost ?a) = Max ?S - Min ?S + 1 - length xs"
    using a span card assms(1)
    by (auto simp: acc_lost_def Let_def word_le_nat_alt unat_sub)
  then show ?thesis using card_Diff_subset [OF _ sub] card le by (simp add: Suc_diff_le)
qed

theorem lost_is_missing_witness:
  "unat (acc_lost (fold acc_add [7, 5, 9] new_acc)) = card ({Min (unat ` set [7, 5, 9 :: 64 word])..Max (unat ` set [7, 5, 9 :: 64 word])}
      - unat ` set [7, 5, 9 :: 64 word])
   \<and> unat (acc_lost (fold acc_add [7, 5, 9] new_acc)) = 2"
  using lost_is_missing [of "[7, 5, 9]"] by (simp add: acc_add_def new_acc_def acc_lost_def)

section \<open>What arrives is counted for its publisher\<close>

text \<open>The statistics of a receiver after one more packet of a voice.\<close>

lemma voice_counted:
  assumes "send_audio sent speaking ts s = Some ([p], s')"
  shows "on_rtp now voice owner p st =
     st\<lparr>ss_got_media := True,
        ss_slot_owners := (if voice then bump (owner, sd_idx s) 0 (\<lambda>n. n + 1) (ss_slot_owners st) else ss_slot_owners st),
        ss_audio := bump (sd_idx s) new_acc (acc_add (ucast (sd_audio_seq s))) (ss_audio st),
        ss_audio_us := ss_audio_us st @ [latency now sent]\<rparr>"
  using assms by (auto simp: send_audio_def Let_def on_rtp_def parse_probe_back split: option.splits)

end
