(* ===== verification/LoadClient.thy ===== *)
theory LoadClient
  imports LoadMedia Wire Handlers
begin

text \<open>
  The signaling side of the synthetic participant, \<open>backend/src/loadclient.rs\<close>: login, the messages
  it sends and what it does with the server's. Texts are JSON values as in \<open>Wire\<close>; \<open>str0m\<close> is a
  record of functions. The properties put the participant and the server's models together: each
  understands what the other sends.
\<close>

section \<open>The code: login\<close>

definition login_body :: "string \<Rightarrow> string" where
  "login_body password =
     ''password='' @ replace_char (CHR ''='') ''%3D'' (replace_char (CHR ''&'') ''%26''
                       (replace_char (CHR ''+'') ''%2B'' (path_escape password)))"

text \<open>The first session cookie among the \<open>Set-Cookie\<close> headers, without its attributes.\<close>

definition session_cookie_of :: "string list \<Rightarrow> string option" where
  "session_cookie_of cookies =
     map_option (\<lambda>c. hd (split_on (CHR '';'') c))
       (List.find (starts_with ''vh_session='') (List.map_filter header_str cookies))"

definition client_login :: "resp \<Rightarrow> string + string" where
  "client_login r =
     (if rs_status r \<noteq> 204 then Inl (''login: status '' @ dec (rs_status r))
      else case session_cookie_of (header_all ''set-cookie'' (rs_headers r)) of
             None \<Rightarrow> Inl ''login: no vh_session cookie''
           | Some c \<Rightarrow> Inr c)"

text \<open>\<open>presence_watch\<close>: how many events a piece of the stream starts.\<close>

definition event_marks :: "string \<Rightarrow> nat" where
  "event_marks d = length (filter (\<lambda>i. take 7 (drop i d) = ''event: '') [0..<length d])"

section \<open>The code: JSON values by name\<close>

text \<open>Indexing a value by a key gives null for a missing one, and for what is no object.\<close>

definition jget :: "json \<Rightarrow> string \<Rightarrow> json" where
  "jget j k = (case j of JObj ms \<Rightarrow> (case map_of (rev ms) k of None \<Rightarrow> JNull | Some v \<Rightarrow> v) | _ \<Rightarrow> JNull)"

definition jstr :: "json \<Rightarrow> string" where
  "jstr j = (case de_string j of None \<Rightarrow> [] | Some s \<Rightarrow> s)"

definition jarr :: "json \<Rightarrow> json list" where
  "jarr j = (case j of JArr js \<Rightarrow> js | _ \<Rightarrow> [])"

text \<open>\<open>env\<close>; \<open>serde_json\<close> writes the members of a map by ascending key.\<close>

definition env :: "string \<Rightarrow> json \<Rightarrow> json" where
  "env event data = JObj [(''data'', data), (''event'', JStr event)]"

section \<open>The code: connections\<close>

datatype role = Audio | ScreenPub | ScreenSub

record ('r, 'p) client_pc =
  cc_role :: role
  cc_rtc :: 'r
  cc_pending :: "'p option"
  cc_send_mid :: "string option"
  cc_audio_mid :: "string option"
  cc_ssrc_streams :: "(nat, string) hashmap"
  cc_closed :: bool

text \<open>What the code calls of \<open>str0m\<close>, of \<open>Mux::bind\<close> (which may fail) and of the clocks.\<close>

record ('r, 'p) client_ctx =
  kx_new :: "'r option"
  kx_offer_ok :: "string \<Rightarrow> bool"
  kx_accept_offer :: "string \<Rightarrow> 'r \<Rightarrow> string option \<times> 'r"
  kx_answer_ok :: "string \<Rightarrow> bool"
  kx_accept_answer :: "'p \<Rightarrow> string \<Rightarrow> 'r \<Rightarrow> bool \<times> 'r"
  kx_candidate :: "string \<Rightarrow> 'r \<Rightarrow> 'r option"
  kx_close :: "'r \<Rightarrow> 'r"
  kx_offer_media :: "bool \<Rightarrow> 'r \<Rightarrow> string \<times> string option \<times> (string \<times> 'p) option \<times> 'r"
  kx_ice_restart :: "'r \<Rightarrow> (string \<times> 'p) option \<times> 'r"
  kx_now :: "64 word"
  kx_elapsed_us :: "32 word"

definition new_client_pc :: "role \<Rightarrow> 'r \<Rightarrow> ('r, 'p) client_pc" where
  "new_client_pc rl r =
     \<lparr>cc_role = rl, cc_rtc = r, cc_pending = None, cc_send_mid = None, cc_audio_mid = None, cc_ssrc_streams = [],
      cc_closed = False\<rparr>"

definition close_pc :: "('r, 'p) client_ctx \<Rightarrow> ('r, 'p) client_pc \<Rightarrow> ('r, 'p) client_pc" where
  "close_pc x c = c\<lparr>cc_rtc := kx_close x (cc_rtc c), cc_closed := True\<rparr>"

text \<open>\<open>split\<close> by a non-empty text, and \<open>matches(..).count()\<close>.\<close>

function split_str :: "string \<Rightarrow> string \<Rightarrow> string list" where
  "split_str sep [] = [[]]"
| "split_str sep (c # s) =
     (if sep \<noteq> [] \<and> starts_with sep (c # s) then [] # split_str sep (drop (length sep) (c # s))
      else case split_str sep s of [] \<Rightarrow> [[c]] | p # ps \<Rightarrow> (c # p) # ps)"
  by pat_completeness auto
termination by (relation "measure (\<lambda>(_, s). length s)") auto

definition m_lines :: "string \<Rightarrow> string list" where
  "m_lines sdp = tl (split_str (nl # ''m='') sdp)"

definition first_word :: "string \<Rightarrow> string option" where
  "first_word s = (case split_whitespace s of [] \<Rightarrow> None | w # _ \<Rightarrow> Some w)"

definition section_stream :: "string \<Rightarrow> string option" where
  "section_stream sec =
     (case List.map_filter (strip_prefix ''a=msid:'') (lines sec) of [] \<Rightarrow> None | v # _ \<Rightarrow> first_word v)"

definition section_ssrcs :: "string \<Rightarrow> nat list" where
  "section_ssrcs sec =
     List.map_filter
       (\<lambda>l. Option.bind (strip_prefix ''a=ssrc:'' l) (\<lambda>v. Option.bind (first_word v) (parse_uint (2 ^ 32))))
       (lines sec)"

definition learn_ssrcs :: "string \<Rightarrow> (nat, string) hashmap \<Rightarrow> (nat, string) hashmap" where
  "learn_ssrcs sdp m =
     fold (\<lambda>sec m. case section_stream sec of
                     None \<Rightarrow> m
                   | Some stream \<Rightarrow> fold (\<lambda>ssrc m. hput ssrc stream m) (section_ssrcs sec) m)
       (m_lines sdp) m"

text \<open>The first m-line of the answer that may send, if none is known yet.\<close>

definition find_send_mid :: "string \<Rightarrow> string option \<Rightarrow> string option" where
  "find_send_mid answer known =
     snd (fold (\<lambda>line (cur, known).
                  let cur = (case strip_prefix ''a=mid:'' line of None \<Rightarrow> cur | Some m \<Rightarrow> Some (trim m))
                  in (cur, if (line = ''a=sendonly'' \<or> line = ''a=sendrecv'') \<and> known = None then cur else known))
            (lines answer) (None, known))"

definition pc_answer :: "('r, 'p) client_ctx \<Rightarrow> string \<Rightarrow> ('r, 'p) client_pc \<Rightarrow> string option \<times> ('r, 'p) client_pc" where
  "pc_answer x sdp c =
     (if \<not> kx_offer_ok x sdp then (None, c)
      else let c1 = (if cc_role c = Audio then c\<lparr>cc_ssrc_streams := learn_ssrcs sdp (cc_ssrc_streams c)\<rparr> else c)
           in case kx_accept_offer x sdp (cc_rtc c1) of
                (None, r) \<Rightarrow> (None, c1\<lparr>cc_rtc := r\<rparr>)
              | (Some answer, r) \<Rightarrow>
                  (Some answer,
                   c1\<lparr>cc_rtc := r,
                      cc_send_mid := (if cc_role c = Audio then find_send_mid answer (cc_send_mid c1) else cc_send_mid c1)\<rparr>))"

text \<open>\<open>trim_start_matches\<close> takes the prefix off as often as it is there.\<close>

function trim_start :: "string \<Rightarrow> string \<Rightarrow> string" where
  "trim_start p s = (if p \<noteq> [] \<and> s \<noteq> [] \<and> starts_with p s then trim_start p (drop (length p) s) else s)"
  by pat_completeness auto
termination by (relation "measure (\<lambda>(_, s). length s)") auto

declare trim_start.simps [simp del]

definition pc_candidate :: "('r, 'p) client_ctx \<Rightarrow> string \<Rightarrow> ('r, 'p) client_pc \<Rightarrow> ('r, 'p) client_pc" where
  "pc_candidate x cand c =
     (case kx_candidate x (trim_start ''a='' (trim cand)) (cc_rtc c) of None \<Rightarrow> c | Some r \<Rightarrow> c\<lparr>cc_rtc := r\<rparr>)"

section \<open>The code: the peer\<close>

record ('r, 'p) client_peer =
  cl_id :: "string option"
  cl_audio :: "('r, 'p) client_pc option"
  cl_screen_pub :: "('r, 'p) client_pc option"
  cl_screen_subs :: "(string, ('r, 'p) client_pc) hashmap"
  cl_screen_paused :: bool
  cl_watch_screens :: bool
  cl_temporal_layer :: "8 word"
  cl_hello_sent :: bool
  cl_slot_owner :: "(string, string option) hashmap"
  cl_screen_token :: "string option"
  cl_screen_error :: "string option"
  cl_audio_mlines :: nat
  cl_cancelled :: bool
  cl_sent :: "json list"
  cl_ws_in :: "64 word"
  cl_audio_offers :: "64 word"
  cl_errors :: "64 word"
  cl_chat_us :: "32 word list"
  cl_welcome_us :: "32 word list"

definition client_send :: "json \<Rightarrow> ('r, 'p) client_peer \<Rightarrow> ('r, 'p) client_peer" where
  "client_send m c = c\<lparr>cl_sent := cl_sent c @ [m]\<rparr>"

definition hello_msg :: "string \<Rightarrow> string \<Rightarrow> bool \<Rightarrow> json" where
  "hello_msg name client chat_only =
     env ''hello'' (JObj [(''chatOnly'', JBool chat_only), (''clientId'', JStr client), (''displayName'', JStr name)])"

definition subscribe_msg :: "8 word \<Rightarrow> json \<Rightarrow> json" where
  "subscribe_msg layer publisher =
     env ''screen-share-subscribe'' (JObj [(''preferredTemporalLayer'', JNum (uint layer)), (''publisherId'', publisher)])"

definition audio_answer_msg :: "string \<Rightarrow> json" where
  "audio_answer_msg sdp = env ''answer'' (JObj [(''pc'', JStr ''audio''), (''sdp'', JStr sdp), (''type'', JStr ''answer'')])"

definition sub_answer_msg :: "string \<Rightarrow> string \<Rightarrow> json" where
  "sub_answer_msg publisher sdp =
     env ''answer'' (JObj [(''pc'', JStr ''screen-sub''), (''publisherId'', JStr publisher), (''sdp'', JStr sdp),
                           (''type'', JStr ''answer'')])"

definition chat_msg :: "string \<Rightarrow> 64 word \<Rightarrow> json" where
  "chat_msg text now = env ''chat-send'' (JObj [(''clientMsgId'', JStr (''lt:'' @ dec (unat now))), (''text'', JStr text)])"

definition state_msg :: "bool \<Rightarrow> json" where
  "state_msg muted = env ''set-state'' (JObj [(''deafened'', JBool False), (''selfMuted'', JBool muted)])"

definition start_msg :: "string \<Rightarrow> bool \<Rightarrow> json" where
  "start_msg sdp with_audio =
     env ''screen-share-start'' (JObj [(''hasSystemAudio'', JBool with_audio), (''mode'', JStr ''sharp''), (''sdp'', JStr sdp)])"

definition stop_msg :: json where
  "stop_msg = env ''screen-share-stop'' (JObj [])"

text \<open>\<open>connect\<close>, once the socket is up: the voice connection of a peer that is not chat-only, and the hello.\<close>

definition client_connect ::
  "('r, 'p) client_ctx \<Rightarrow> string \<Rightarrow> string \<Rightarrow> bool \<Rightarrow> bool \<Rightarrow> 8 word \<Rightarrow> ('r, 'p) client_peer option" where
  "client_connect x name client chat_only watch layer =
     (let start = (\<lambda>audio. client_send (hello_msg name client chat_only)
            \<lparr>cl_id = None, cl_audio = audio, cl_screen_pub = None, cl_screen_subs = [], cl_screen_paused = False,
             cl_watch_screens = watch, cl_temporal_layer = layer, cl_hello_sent = True, cl_slot_owner = [],
             cl_screen_token = None, cl_screen_error = None, cl_audio_mlines = 0, cl_cancelled = False, cl_sent = [],
             cl_ws_in = 0, cl_audio_offers = 0, cl_errors = 0, cl_chat_us = [], cl_welcome_us = []\<rparr>)
      in if chat_only then Some (start None)
         else map_option (\<lambda>r. start (Some (new_client_pc Audio r))) (kx_new x))"

definition watches :: "('r, 'p) client_peer \<Rightarrow> bool" where
  "watches c \<longleftrightarrow> cl_watch_screens c \<and> cl_audio c \<noteq> None"

definition add_error :: "('r, 'p) client_peer \<Rightarrow> ('r, 'p) client_peer" where
  "add_error c = c\<lparr>cl_errors := cl_errors c + 1\<rparr>"

definition on_welcome :: "('r, 'p) client_ctx \<Rightarrow> json \<Rightarrow> ('r, 'p) client_peer \<Rightarrow> ('r, 'p) client_peer" where
  "on_welcome x d c =
     (let c1 = c\<lparr>cl_id := (case cl_id c of None \<Rightarrow> Some (jstr (jget d ''id'')) | Some i \<Rightarrow> Some i)\<rparr>;
          sharing = filter (\<lambda>p. jget p ''screenSharing'' = JBool True) (jarr (jget d ''peers''));
          c2 = (if watches c1
                then fold (\<lambda>p. client_send (subscribe_msg (cl_temporal_layer c1) (jget p ''id''))) sharing c1 else c1)
      in if cl_hello_sent c2 then c2\<lparr>cl_welcome_us := cl_welcome_us c2 @ [kx_elapsed_us x]\<rparr> else c2)"

definition on_audio_offer :: "('r, 'p) client_ctx \<Rightarrow> json \<Rightarrow> ('r, 'p) client_peer \<Rightarrow> ('r, 'p) client_peer" where
  "on_audio_offer x d c =
     (let c1 = c\<lparr>cl_audio_offers := cl_audio_offers c + 1\<rparr>
      in case cl_audio c1 of
           None \<Rightarrow> c1
         | Some a \<Rightarrow>
             let sdp = jstr (jget d ''sdp''); (r, a1) = pc_answer x sdp a;
                 c2 = c1\<lparr>cl_audio_mlines := length (m_lines sdp), cl_audio := Some a1\<rparr>
             in case r of Some answer \<Rightarrow> client_send (audio_answer_msg answer) c2 | None \<Rightarrow> add_error c2)"

definition on_sub_offer :: "('r, 'p) client_ctx \<Rightarrow> string \<Rightarrow> json \<Rightarrow> ('r, 'p) client_peer \<Rightarrow> ('r, 'p) client_peer" where
  "on_sub_offer x publisher d c =
     (case kx_new x of
        None \<Rightarrow> c
      | Some r \<Rightarrow>
          (case pc_answer x (jstr (jget d ''sdp'')) (new_client_pc ScreenSub r) of
             (Some answer, sub) \<Rightarrow>
               client_send (sub_answer_msg publisher answer)
                 (c\<lparr>cl_screen_subs := hput publisher sub (cl_screen_subs c)\<rparr>)
           | (None, sub) \<Rightarrow> add_error c))"

text \<open>Taking the pending offer; the flag says whether the answer was accepted.\<close>

definition accept_pub_answer :: "('r, 'p) client_ctx \<Rightarrow> string \<Rightarrow> ('r, 'p) client_pc \<Rightarrow> bool option \<times> ('r, 'p) client_pc" where
  "accept_pub_answer x sdp p =
     (let p1 = p\<lparr>cc_pending := None\<rparr>
      in case cc_pending p of
           None \<Rightarrow> (None, p1)
         | Some pending \<Rightarrow>
             if \<not> kx_answer_ok x sdp then (None, p1)
             else case kx_accept_answer x pending sdp (cc_rtc p1) of (ok, r) \<Rightarrow> (Some ok, p1\<lparr>cc_rtc := r\<rparr>))"

definition on_pub_answer :: "('r, 'p) client_ctx \<Rightarrow> json \<Rightarrow> ('r, 'p) client_peer \<Rightarrow> ('r, 'p) client_peer" where
  "on_pub_answer x d c =
     (case cl_screen_pub c of
        None \<Rightarrow> c
      | Some p \<Rightarrow>
          (case accept_pub_answer x (jstr (jget d ''sdp'')) p of
             (r, p1) \<Rightarrow> let c1 = c\<lparr>cl_screen_pub := Some p1\<rparr> in if r = Some False then add_error c1 else c1))"

definition on_candidate :: "('r, 'p) client_ctx \<Rightarrow> string \<Rightarrow> string \<Rightarrow> json \<Rightarrow> ('r, 'p) client_peer \<Rightarrow> ('r, 'p) client_peer" where
  "on_candidate x pc publisher d c =
     (let add = pc_candidate x (jstr (jget d ''candidate''))
      in if pc = ''audio'' then c\<lparr>cl_audio := map_option add (cl_audio c)\<rparr>
         else if pc = ''screen-pub'' then c\<lparr>cl_screen_pub := map_option add (cl_screen_pub c)\<rparr>
         else if pc = ''screen-sub''
         then (case hget (cl_screen_subs c) publisher of
                 None \<Rightarrow> c
               | Some s \<Rightarrow> c\<lparr>cl_screen_subs := hput publisher (add s) (cl_screen_subs c)\<rparr>)
         else c)"

text \<open>The time a chat line took, from the time in its client message id; the own lines are not counted.\<close>

definition on_chat :: "('r, 'p) client_ctx \<Rightarrow> json \<Rightarrow> ('r, 'p) client_peer \<Rightarrow> ('r, 'p) client_peer" where
  "on_chat x d c =
     (if cl_id c = Some (jstr (jget d ''from'')) then c
      else case Option.bind (de_string (jget d ''clientMsgId''))
                  (\<lambda>m. Option.bind (strip_prefix ''lt:'' m) (parse_uint (2 ^ 64))) of
             None \<Rightarrow> c
           | Some sent \<Rightarrow> c\<lparr>cl_chat_us := cl_chat_us c @ [latency (kx_now x) (word_of_nat sent)]\<rparr>)"

definition on_slots :: "json \<Rightarrow> ('r, 'p) client_peer \<Rightarrow> ('r, 'p) client_peer" where
  "on_slots d c =
     c\<lparr>cl_slot_owner :=
         fold (\<lambda>s. hput (jstr (jget s ''slot'')) (de_string (jget s ''peerId''))) (jarr (jget d ''slots'')) (cl_slot_owner c)\<rparr>"

definition on_ended :: "string \<Rightarrow> ('r, 'p) client_peer \<Rightarrow> ('r, 'p) client_peer" where
  "on_ended publisher c = c\<lparr>cl_screen_subs := hdel publisher (cl_screen_subs c)\<rparr>"

text \<open>\<open>on_message\<close>, on a text that is JSON; the arms in the order of the code.\<close>

definition on_message :: "('r, 'p) client_ctx \<Rightarrow> json \<Rightarrow> ('r, 'p) client_peer \<Rightarrow> ('r, 'p) client_peer" where
  "on_message x v c =
     (let event = jstr (jget v ''event''); d = jget v ''data''; pc = jstr (jget d ''pc'');
          publisher = jstr (jget d ''publisherId'')
      in if event = ''welcome'' then on_welcome x d c
         else if event = ''offer'' \<and> pc = ''audio'' then on_audio_offer x d c
         else if event = ''offer'' \<and> pc = ''screen-sub'' then on_sub_offer x publisher d c
         else if event = ''answer'' \<and> pc = ''screen-pub'' then on_pub_answer x d c
         else if event = ''candidate'' then on_candidate x pc publisher d c
         else if event = ''chat'' then on_chat x d c
         else if event = ''screen-share-available'' \<and> watches c
         then client_send (subscribe_msg (cl_temporal_layer c) (JStr publisher)) c
         else if event = ''screen-share-ended'' then on_ended publisher c
         else if event = ''audio-slots'' then on_slots d c
         else if event = ''screen-share-started'' then c\<lparr>cl_screen_token := de_string (jget d ''sessionToken'')\<rparr>
         else if event = ''screen-share-error'' then c\<lparr>cl_screen_error := de_string (jget d ''reason'')\<rparr>
         else if event = ''screen-share-encode-pause'' then c\<lparr>cl_screen_paused := True\<rparr>
         else if event = ''screen-share-encode-resume'' then c\<lparr>cl_screen_paused := False\<rparr>
         else c)"

text \<open>A text frame of the WebSocket.\<close>

definition on_text :: "('r, 'p) client_ctx \<Rightarrow> json_reader \<Rightarrow> string \<Rightarrow> ('r, 'p) client_peer \<Rightarrow> ('r, 'p) client_peer" where
  "on_text x jr raw c =
     (let c1 = c\<lparr>cl_ws_in := cl_ws_in c + 1\<rparr>
      in case jr raw of None \<Rightarrow> c1 | Some (v, _) \<Rightarrow> on_message x v c1)"

section \<open>The code: what the tests call\<close>

definition client_chat :: "('r, 'p) client_ctx \<Rightarrow> string \<Rightarrow> ('r, 'p) client_peer \<Rightarrow> ('r, 'p) client_peer" where
  "client_chat x text = client_send (chat_msg text (kx_now x))"

definition client_set_state :: "bool \<Rightarrow> ('r, 'p) client_peer \<Rightarrow> ('r, 'p) client_peer" where
  "client_set_state muted = client_send (state_msg muted)"

text \<open>False when no socket can be bound or \<open>str0m\<close> makes no offer.\<close>

definition start_screen :: "('r, 'p) client_ctx \<Rightarrow> bool \<Rightarrow> ('r, 'p) client_peer \<Rightarrow> bool \<times> ('r, 'p) client_peer" where
  "start_screen x with_audio c =
     (case kx_new x of
        None \<Rightarrow> (False, c)
      | Some r \<Rightarrow>
          (case kx_offer_media x with_audio r of
             (video, audio, None, r1) \<Rightarrow> (False, c)
           | (video, audio, Some (sdp, pending), r1) \<Rightarrow>
               (True, client_send (start_msg sdp with_audio)
                  (c\<lparr>cl_screen_pub := Some ((new_client_pc ScreenPub r1)\<lparr>cc_pending := Some pending, cc_send_mid := Some video,
                                                                     cc_audio_mid := audio\<rparr>)\<rparr>))))"

definition screen_ice_restart_offer :: "('r, 'p) client_ctx \<Rightarrow> ('r, 'p) client_peer \<Rightarrow> string option \<times> ('r, 'p) client_peer" where
  "screen_ice_restart_offer x c =
     (case cl_screen_pub c of
        None \<Rightarrow> (None, c)
      | Some p \<Rightarrow>
          (case kx_ice_restart x (cc_rtc p) of
             (None, r) \<Rightarrow> (None, c\<lparr>cl_screen_pub := Some (p\<lparr>cc_rtc := r\<rparr>)\<rparr>)
           | (Some (sdp, pending), r) \<Rightarrow>
               (Some sdp, c\<lparr>cl_screen_pub := Some (p\<lparr>cc_rtc := r, cc_pending := Some pending\<rparr>)\<rparr>)))"

definition screen_accept_answer :: "('r, 'p) client_ctx \<Rightarrow> string \<Rightarrow> ('r, 'p) client_peer \<Rightarrow> bool \<times> ('r, 'p) client_peer" where
  "screen_accept_answer x sdp c =
     (case cl_screen_pub c of
        None \<Rightarrow> (False, c)
      | Some p \<Rightarrow> (case accept_pub_answer x sdp p of (r, p1) \<Rightarrow> (r = Some True, c\<lparr>cl_screen_pub := Some p1\<rparr>)))"

definition set_screen_paused :: "bool \<Rightarrow> ('r, 'p) client_peer \<Rightarrow> ('r, 'p) client_peer" where
  "set_screen_paused paused c = c\<lparr>cl_screen_paused := paused\<rparr>"

definition stop_screen :: "('r, 'p) client_peer \<Rightarrow> ('r, 'p) client_peer" where
  "stop_screen c = (client_send stop_msg c)\<lparr>cl_screen_pub := None\<rparr>"

text \<open>The connections closed are dropped; the voice connection is kept, closed.\<close>

definition client_close :: "('r, 'p) client_ctx \<Rightarrow> ('r, 'p) client_peer \<Rightarrow> ('r, 'p) client_peer" where
  "client_close x c =
     c\<lparr>cl_cancelled := True, cl_audio := map_option (close_pc x) (cl_audio c), cl_screen_pub := None, cl_screen_subs := []\<rparr>"

definition drop_ws :: "('r, 'p) client_peer \<Rightarrow> ('r, 'p) client_peer" where
  "drop_ws c = c\<lparr>cl_cancelled := True\<rparr>"

definition joined :: "('r, 'p) client_peer \<Rightarrow> bool" where
  "joined c \<longleftrightarrow> cl_id c \<noteq> None"

section \<open>The password arrives\<close>

lemma replace_char_append: "replace_char c r (s @ t) = replace_char c r s @ replace_char c r t"
  by (simp add: replace_char_def)

lemma form_bytes_escaped:
  "form_bytes (replace_char (CHR ''='') ''%3D'' (replace_char (CHR ''&'') ''%26''
                (replace_char (CHR ''+'') ''%2B'' (path_escape s)))) = s"
proof (induction s)
  case Nil
  then show ?case by (simp add: path_escape_def replace_char_def)
next
  case (Cons c s)
  have d: "16 * (byte_of c div 16) + byte_of c mod 16 = byte_of c" by simp
  have keep: "upper_hex ! i \<notin> {CHR ''+'', CHR ''&'', CHR ''=''}" if "i < 16" for i
  proof -
    have "list_all (\<lambda>i. upper_hex ! i \<notin> {CHR ''+'', CHR ''&'', CHR ''=''}) [0..<16]" by (simp add: upper_hex_def upt_rec)
    then show ?thesis using that by (simp add: list_all_iff)
  qed
  have hex: "hex_val (CHR ''2'') = Some 2" "hex_val (CHR ''3'') = Some 3" "hex_val (CHR ''6'') = Some 6"
    "hex_val (CHR ''B'') = Some 11" "hex_val (CHR ''D'') = Some 13"
    by (simp_all add: hex_val_def)
  have codes: "char_of (43 :: nat) = CHR ''+''" "char_of (38 :: nat) = CHR ''&''" "char_of (61 :: nat) = CHR ''=''"
    by code_simp+
  show ?case
  proof (cases "path_keep c")
    case True
    then have "c \<noteq> CHR ''%''" by (rule path_keep_not_percent)
    then show ?thesis using Cons True hex codes
      by (cases "c = CHR ''+''"; cases "c = CHR ''&''"; cases "c = CHR ''=''") (simp_all add: path_escape_Cons replace_char_append replace_char_def)
  next
    case False
    then show ?thesis
      using Cons keep [OF byte_nibbles(1)] keep [OF byte_nibbles(2)]
      by (simp add: path_escape_Cons replace_char_def hex_val_upper [OF byte_nibbles(1)] hex_val_upper [OF byte_nibbles(2)] d)
  qed
qed


lemma replace_char_set: "x \<in> set (replace_char c r s) \<Longrightarrow> x \<in> set s \<and> x \<noteq> c \<or> x \<in> set r"
  by (auto simp: replace_char_def split: if_splits)

text \<open>
  The password a participant logs in with is the one the server checks: whatever its characters,
  the server's form parser reads it back from the body the client sends.
\<close>

theorem login_password_arrives:
  assumes "utf8_valid password"
  shows "form_value ''password'' (parse_form (login_body password)) = password"
proof -
  let ?e = "replace_char (CHR ''='') ''%3D'' (replace_char (CHR ''&'') ''%26'' (replace_char (CHR ''+'') ''%2B'' (path_escape password)))"
  have no_amp: "CHR ''&'' \<notin> set (login_body password)"
    by (auto simp: login_body_def dest!: replace_char_set)
  have body: "login_body password = ''password'' @ CHR ''='' # ?e" by (simp add: login_body_def)
  have pair: "split_once (CHR ''='') (login_body password) = Some (''password'', ?e)"
    unfolding body by (rule split_once_append) simp
  have ne: "login_body password \<noteq> []" by (simp add: login_body_def)
  have key: "form_decode ''password'' = ''password''" by code_simp
  have val: "form_decode ?e = password"
    using assms by (simp add: form_decode_def form_bytes_escaped lossy_valid)
  have "parse_form (login_body password) = [(''password'', password)]"
    using ne by (simp add: parse_form_def split_on_none [OF no_amp] pair key val hput_def del: append.simps)
  then show ?thesis by (simp add: form_value_def hget_def)
qed

theorem login_password_arrives_witness:
  "form_value ''password'' (parse_form (login_body ''a+b=c&d e%'')) = ''a+b=c&d e%''"
  by (rule login_password_arrives) code_simp

section \<open>The server understands the participant\<close>

datatype client_out =
    OHello string string bool
  | OChat string "64 word"
  | OState bool
  | OSubscribe "8 word" string
  | OAudioAnswer string
  | OSubAnswer string string
  | OStart string bool
  | OStop

fun out_json :: "client_out \<Rightarrow> json" where
  "out_json (OHello name client chat_only) = hello_msg name client chat_only"
| "out_json (OChat text now) = chat_msg text now"
| "out_json (OState muted) = state_msg muted"
| "out_json (OSubscribe layer publisher) = subscribe_msg layer (JStr publisher)"
| "out_json (OAudioAnswer sdp) = audio_answer_msg sdp"
| "out_json (OSubAnswer publisher sdp) = sub_answer_msg publisher sdp"
| "out_json (OStart sdp with_audio) = start_msg sdp with_audio"
| "out_json OStop = stop_msg"

text \<open>What the server's dispatcher makes of it; a hello is only looked for in the first frame.\<close>

fun meant :: "client_out \<Rightarrow> client_msg" where
  "meant (OHello name client chat_only) = COther ''hello''"
| "meant (OChat text now) =
     CChatSend (Some \<lparr>cs_text = text, cs_client_msg_id = ''lt:'' @ dec (unat now), cs_attachments = None\<rparr>)"
| "meant (OState muted) = CSetState (Some (muted, False))"
| "meant (OSubscribe layer publisher) =
     CShareSubscribe (Some \<lparr>su_publisher_id = publisher, su_preferred_temporal_layer = layer\<rparr>)"
| "meant (OAudioAnswer sdp) =
     CAnswer (Some \<lparr>se_pc = PcAudio, se_publisher_id = [], se_kind = ''answer'', se_sdp = sdp\<rparr>)"
| "meant (OSubAnswer publisher sdp) =
     CAnswer (Some \<lparr>se_pc = PcScreenSub, se_publisher_id = publisher, se_kind = ''answer'', se_sdp = sdp\<rparr>)"
| "meant (OStart sdp with_audio) = CShareStart (Some \<lparr>st_sdp = sdp, st_has_system_audio = with_audio, st_mode = Some Sharp\<rparr>)"
| "meant OStop = CShareStop"

lemma de_u8_back: "de_uint 8 (JNum (uint (w :: 8 word))) = Some (uint w)"
proof -
  have "0 \<le> uint w \<and> uint w \<le> 2 ^ 8 - 1" using uint_lt2p [of w] by simp
  then show ?thesis unfolding de_uint_def de_int.simps by (rule if_P)
qed

lemma env_back: "de_envelope True (env ev d) = (if d = JNull then Some (ev, None) else Some (ev, Some d))"
  by (simp add: de_envelope_def env_def serde_simps Let_def de_option_def)

text \<open>
  C31. The server understands what the participant sends: every message it makes is handled as the
  message that was meant, with every field, and its hello as the first frame gives name, client id and
  kind.
\<close>

theorem participant_understood:
  assumes "jr raw = Some (out_json m, True)"
  shows "handle_frame jr cx r raw w = handle_client_message cx r (meant m) w
    \<and> first_frame_of jr raw =
        (case m of
           OHello name client chat_only \<Rightarrow>
             Envelope ''hello'' (HelloData \<lparr>he_display_name = name, he_client_id = client, he_chat_only = chat_only\<rparr>)
         | _ \<Rightarrow> first_frame_of jr raw)"
proof -
  note defs = handle_frame_def read_envelope_def first_frame_of_def client_msg_of_def serde_simps Let_def
    de_hello_def de_chat_send_def de_set_state_def de_share_subscribe_def de_sdp_def de_share_start_def
    hello_msg_def chat_msg_def state_msg_def subscribe_msg_def audio_answer_msg_def sub_answer_msg_def start_msg_def stop_msg_def
  show ?thesis
  proof (cases m)
    case OHello then show ?thesis using assms by (simp add: defs env_back)
  next
    case OChat then show ?thesis using assms by (simp add: defs env_back)
  next
    case OState then show ?thesis using assms by (simp add: defs env_back)
  next
    case OSubscribe then show ?thesis using assms by (simp add: defs env_back de_u8_back)
  next
    case OAudioAnswer then show ?thesis using assms by (simp add: defs env_back de_pc_kind_def de_enum_def pc_kinds_def)
  next
    case OSubAnswer then show ?thesis using assms by (simp add: defs env_back de_pc_kind_def de_enum_def pc_kinds_def)
  next
    case OStart then show ?thesis using assms by (simp add: defs env_back de_mode_field_def de_option_def de_mode_def)
  next
    case OStop then show ?thesis using assms by (simp add: defs env_back)
  qed
qed

theorem participant_understood_witness:
  "handle_frame (\<lambda>_. Some (out_json (OChat ''hi'' 5), True)) toy_cx 0 ''raw'' (new_room ''r'')
   = handle_client_message toy_cx 0
       (CChatSend (Some \<lparr>cs_text = ''hi'', cs_client_msg_id = ''lt:5'', cs_attachments = None\<rparr>)) (new_room ''r'')"
proof -
  have five: "dec 5 = ''5''" by code_simp
  show ?thesis
    using participant_understood [of "\<lambda>_. Some (out_json (OChat ''hi'' 5), True)" "''raw''" "OChat ''hi'' 5" toy_cx 0 "new_room ''r''"]
    by (simp add: five)
qed

section \<open>The participant understands the server\<close>

lemma jget_envelope: "jget (envelope ev d) ''event'' = JStr ev" "jget (envelope ev d) ''data'' = d"
  by (simp_all add: jget_def envelope_def)

lemma hput_all:
  "hget (fold (\<lambda>e. hput (fst e) (snd e)) es m) k = (case map_of (rev es) k of None \<Rightarrow> hget m k | Some v \<Rightarrow> Some v)"
  by (induction es arbitrary: m) (auto simp: hashmap_simps map_of_append map_add_def split: option.splits)

lemma slot_read:
  "jstr (jget (ser_audio_slot s) ''slot'') = fst s" "de_string (jget (ser_audio_slot s) ''peerId'') = snd s"
  by (simp_all add: jstr_def jget_def ser_audio_slot_def ser_option_def split: option.split)

text \<open>
  The participant follows the server's slot announcements: after the message that announces
  owners it holds for every announced slot the announced owner (the last one of a slot), for every
  other slot what it held before, and nothing else of it has changed.
\<close>

theorem slot_owners_followed:
  "\<exists>owners. on_message x (msg (AudioSlots ss)) c = c\<lparr>cl_slot_owner := owners\<rparr> \<and>
     hget owners s = (case map_of (rev ss) s of None \<Rightarrow> hget (cl_slot_owner c) s | Some owner \<Rightarrow> Some owner)"
proof -
  have "jarr (jget (ser_audio_slots ss) ''slots'') = map ser_audio_slot ss"
    by (simp add: ser_audio_slots_def jget_def jarr_def ser_list_def)
  then have "on_message x (msg (AudioSlots ss)) c
      = c\<lparr>cl_slot_owner := fold (\<lambda>e. hput (fst e) (snd e)) ss (cl_slot_owner c)\<rparr>"
    by (simp add: on_message_def msg_def jget_envelope jstr_def on_slots_def fold_map o_def slot_read [unfolded jstr_def])
  then show ?thesis by (auto simp: hput_all)
qed

lemma peer_read:
  "jget (ser_peer_info p) ''id'' = JStr (pi_id p)"
  "(jget (ser_peer_info p) ''screenSharing'' = JBool True) = pi_screen_sharing p"
  by (auto simp: jget_def ser_peer_info_def unless_def ser_option_def map_of_append map_add_def split: option.splits if_splits)

lemma fold_send: "fold (\<lambda>p. client_send (f p)) ps c = c\<lparr>cl_sent := cl_sent c @ map f ps\<rparr>"
  by (induction ps arbitrary: c) (simp_all add: client_send_def)

text \<open>
  A viewer that joins finds the running shares: a participant that watches screens answers the
  server's welcome by subscribing to every member that is sharing, in the order of the list and to
  nobody else, at the layer it was made with; and it takes the id the server gave it.
\<close>

theorem welcome_subscribes:
  assumes "watches c" and "cl_id c = None"
  shows "cl_sent (on_message x (msg (Welcome i ps)) c) =
      cl_sent c @ map (\<lambda>p. out_json (OSubscribe (cl_temporal_layer c) (pi_id p))) (filter pi_screen_sharing ps)
    \<and> cl_id (on_message x (msg (Welcome i ps)) c) = Some i"
proof -
  have d: "jget (ser_welcome i ps) ''id'' = JStr i" "jarr (jget (ser_welcome i ps) ''peers'') = map ser_peer_info ps"
    by (simp_all add: ser_welcome_def jget_def jarr_def ser_list_def)
  have "on_message x (msg (Welcome i ps)) c = on_welcome x (ser_welcome i ps) c"
    by (simp add: on_message_def msg_def jget_envelope jstr_def)
  then show ?thesis
    using assms
    by (simp add: on_welcome_def d jstr_def watches_def Let_def fold_send filter_map o_def peer_read)
qed

text \<open>A peer that watches, before its welcome.\<close>

definition toy_client_ctx :: "(unit, unit) client_ctx" where
  "toy_client_ctx =
     \<lparr>kx_new = Some (), kx_offer_ok = (\<lambda>_. True), kx_accept_offer = (\<lambda>_ r. (Some [], r)), kx_answer_ok = (\<lambda>_. True),
      kx_accept_answer = (\<lambda>_ _ r. (True, r)), kx_candidate = (\<lambda>_ _. None), kx_close = id,
      kx_offer_media = (\<lambda>_ r. ([], None, None, r)), kx_ice_restart = (\<lambda>r. (None, r)), kx_now = 0, kx_elapsed_us = 0\<rparr>"

definition toy_client :: "(unit, unit) client_peer" where
  "toy_client = the (client_connect toy_client_ctx ''v'' ''c'' False True 2)"

theorem welcome_subscribes_witness:
  "cl_sent (on_message toy_client_ctx
      (msg (Welcome ''me'' [\<lparr>pi_id = ''a'', pi_display_name = ''A'', pi_client_id = [], pi_self_muted = False, pi_deafened = False,
          pi_chat_only = False, pi_screen_sharing = True, pi_screen_sharing_has_audio = False, pi_screen_sharing_video_codec = None\<rparr>]))
      toy_client)
   = [hello_msg ''v'' ''c'' False, subscribe_msg 2 (JStr ''a'')]"
  by (subst welcome_subscribes [THEN conjunct1])
    (simp_all add: toy_client_def toy_client_ctx_def client_connect_def watches_def client_send_def)

end
