(* ===== verification/Boot.thy ===== *)
theory Boot
  imports Access Secrets Stun
begin

text \<open>
  \<open>backend/src/main.rs\<close> and \<open>bin/hashpass.rs\<close>: the start of the server out of its environment and
  its data directory, its shutdown, and the tool that makes the admin password's hash. What the
  system answers at the start is a record; a fatal error is the left of a sum. The accept loop
  around \<open>Server.handle\<close> is hyper's.
\<close>

section \<open>The code: hashpass\<close>

definition MIN_RECOMMENDED_LEN :: nat where "MIN_RECOMMENDED_LEN = 16"

text \<open>\<open>trim_end_matches\<close> of carriage returns and newlines.\<close>

definition trim_newlines :: "string \<Rightarrow> string" where
  "trim_newlines s = rev (dropWhile (\<lambda>c. c = cr \<or> c = nl) (rev s))"

text \<open>The result is the hash printed and whether the warning is; None is the panic of the hash
  function. Messages are shortened; a length counts bytes.\<close>

definition hashpass :: "crypto \<Rightarrow> bool \<Rightarrow> string + string \<Rightarrow> 8 word list \<Rightarrow> (string + bool \<times> string) option" where
  "hashpass c terminal stdin salt =
     (if terminal then Some (Inl ''pipe the password on stdin'')
      else case stdin of
             Inl e \<Rightarrow> Some (Inl (''read stdin: '' @ e))
           | Inr input \<Rightarrow>
               let plain = trim_newlines (from_utf8_lossy (take 4096 input))
               in if plain = [] then Some (Inl ''empty password'')
                  else map_option (\<lambda>h. Inr (length plain < MIN_RECOMMENDED_LEN, h)) (hash c salt plain))"

section \<open>The code: the start\<close>

definition INTERNAL_ADDR :: string where "INTERNAL_ADDR = ''0.0.0.0:8081''"
definition ROOMS :: "string list" where "ROOMS = [''room1'', ''room2'', ''room3'']"

text \<open>
  What the system answers: the environment; for each of the two secrets the outcome of its write,
  the random name of the temporary file and the random bytes; the password file; whether the working
  directory of the uploads was made; the ports that bind; the frontend's index; the start of TURN; which addresses the HTTP
  listeners get.
\<close>

record startup =
  su_env :: env
  su_dir_ok :: bool
  su_read_ok :: bool
  su_session_draw :: "write_fault \<times> 8 word list \<times> string option"
  su_turn_draw :: "write_fault \<times> 8 word list \<times> string option"
  su_conn_pass :: read_result
  su_files :: "string + unit"
  su_bind :: "nat \<Rightarrow> string + nat"
  su_cores :: "nat option"
  su_index_html :: "string option"
  su_turn :: "string + unit"
  su_listen :: "string \<Rightarrow> string + unit"

text \<open>The checks of the configuration, in their order; the messages are shortened.\<close>

definition start_config :: "crypto \<Rightarrow> env \<Rightarrow> string + config" where
  "start_config c env =
     (let allow_insecure = env_flag env ''APP_ALLOW_INSECURE''
      in tryE (map_sum (\<lambda>e. ''config: '' @ e) id (load_config env)) (\<lambda>cfg.
         tryE (map_sum (\<lambda>e. ''config: '' @ e) id (validate_insecure_config c cfg allow_insecure)) (\<lambda>_.
         if cf_admin_password_hash cfg = [] then Inl ''APP_ADMIN_PASSWORD_HASH must be set''
         else if \<not> valid_hash c (cf_admin_password_hash cfg) then Inl ''APP_ADMIN_PASSWORD_HASH is not an argon2id hash from hashpass''
         else if cf_public_ip cfg = [] then Inl ''PUBLIC_IP must be set''
         else if parse_ip (cf_public_ip cfg) = None then Inl (''PUBLIC_IP '' @ cf_public_ip cfg @ '' is not an IP address'')
         else Inr cfg)))"

definition bytes_of :: "string \<Rightarrow> 8 word list" where
  "bytes_of s = map (\<lambda>ch. word_of_nat (of_char ch)) s"

definition upload_limits :: fs_config where
  "upload_limits =
     \<lparr>fc_ttl = secs (5 * 60), fc_ttl_hard_cap = secs (30 * 60), fc_max_upload_bytes = 100 * 2 ^ 20,
      fc_max_total_bytes = 2 ^ 30\<rparr>"

text \<open>What everything is built from once nothing can fail any more.\<close>

definition build_app ::
  "ext \<Rightarrow> config \<Rightarrow> string \<Rightarrow> string \<Rightarrow> cp_store \<Rightarrow> string option \<Rightarrow> app_consts \<times> app" where
  "build_app x cfg session_secret turn_secret conn_pass index_html =
     (\<lparr>ac_cfg = cfg, ac_session_secret = session_secret, ac_turn_secret = hex (bytes_of turn_secret),
       ac_admin_ver = admin_password_version (ex_crypto x) session_secret (cf_admin_password_hash cfg),
       ac_version = frontend_version (ex_crypto x) index_html,
       ac_stun_url = ''stun:'' @ cf_public_ip cfg @ '':3478'',
       ac_turn_url = ''turn:'' @ cf_public_ip cfg @ '':3478?transport=udp''\<rparr>,
      \<lparr>ap_conn_pass = conn_pass, ap_registry = \<lparr>wr_next = 0, wr_entries = [], wr_cancelled = []\<rparr>,
       ap_limiter = new_limiter 10 (secs (15 * 60)), ap_rooms = map (\<lambda>slug. (slug, new_room slug)) ROOMS,
       ap_hub = new_hub, ap_files = \<lparr>fs_cfg = upload_limits, fs_entries = [], fs_total = 0, fs_disk = Map.empty\<rparr>\<rparr>)"

definition load_secret ::
  "startup \<Rightarrow> write_fault \<times> 8 word list \<times> string option \<Rightarrow> string \<Rightarrow> disk \<Rightarrow> (string + string) \<times> disk_op list" where
  "load_secret s draw name d =
     (case draw of (fault, rnd, fresh) \<Rightarrow> load_or_create (su_dir_ok s) (su_read_ok s) fault rnd fresh name 32 d)"

text \<open>The rest of the start, after the secrets.\<close>

definition start_services :: "ext \<Rightarrow> startup \<Rightarrow> config \<Rightarrow> string \<Rightarrow> string \<Rightarrow> string + app_consts \<times> app" where
  "start_services x s cfg session_secret turn_secret =
     tryE (map_sum (\<lambda>e. ''connpass store: '' @ e) id (load_store (su_conn_pass s))) (\<lambda>conn_pass.
     tryE (map_sum (\<lambda>e. ''file store: '' @ e) id (su_files s)) (\<lambda>_.
     tryE (map_sum (\<lambda>e. ''sfu init: '' @ e) id
        (mux_bind (su_bind s) (su_cores s) (cf_udp_port_min cfg) (cf_udp_port_max cfg))) (\<lambda>_.
     tryE (map_sum (\<lambda>e. ''turn init: '' @ e) id
        (tryE (turn_config_ok (hex (bytes_of turn_secret)) (cf_public_ip cfg) (cf_turn_relay_min cfg) (cf_turn_relay_max cfg))
           (\<lambda>_. su_turn s))) (\<lambda>_.
     tryE (map_sum (\<lambda>e. ''http server: '' @ e) id (su_listen s (listen_addr (cf_addr cfg)))) (\<lambda>_.
     tryE (map_sum (\<lambda>e. ''http server: '' @ e) id (su_listen s INTERNAL_ADDR)) (\<lambda>_.
     Inr (build_app x cfg session_secret turn_secret conn_pass (su_index_html s))))))))"

text \<open>The whole start: the result, and what it did to the data directory.\<close>

definition boot :: "ext \<Rightarrow> startup \<Rightarrow> disk \<Rightarrow> (string + app_consts \<times> app) \<times> disk_op list" where
  "boot x s d =
     (case start_config (ex_crypto x) (su_env s) of
        Inl e \<Rightarrow> (Inl e, [])
      | Inr cfg \<Rightarrow>
          (case load_secret s (su_session_draw s) ''session.secret'' d of
             (Inl e, ops) \<Rightarrow> (Inl (''session secret: '' @ e), ops)
           | (Inr session_secret, ops) \<Rightarrow>
               (case load_secret s (su_turn_draw s) ''turn.secret'' (run_disk ops d) of
                  (Inl e, ops') \<Rightarrow> (Inl (''turn secret: '' @ e), ops @ ops')
                | (Inr turn_secret, ops') \<Rightarrow> (start_services x s cfg session_secret turn_secret, ops @ ops'))))"

section \<open>The code: the end\<close>

text \<open>Rooms first, then every connection's token; the uploads go with their directory.\<close>

definition shutdown :: "app \<Rightarrow> app" where
  "shutdown a =
     a\<lparr>ap_rooms := map (\<lambda>(slug, w). (slug, close_room w)) (ap_rooms a),
       ap_registry := snd (disconnect_all (ap_registry a)),
       ap_files := (ap_files a)\<lparr>fs_disk := Map.empty\<rparr>\<rparr>"

section \<open>What a start guarantees\<close>

lemma start_config_SomeD:
  assumes "start_config c env = Inr cfg"
  shows "load_config env = Inr cfg \<and> valid_hash c (cf_admin_password_hash cfg) \<and> parse_ip (cf_public_ip cfg) \<noteq> None
    \<and> (env_flag env ''APP_ALLOW_INSECURE'' \<or> cf_cookie_secure cfg \<and> \<not> verify c (cf_admin_password_hash cfg) ''dev'')"
proof -
  obtain cfg' where l: "load_config env = Inr cfg'"
    using assms by (cases "load_config env") (auto simp: start_config_def Let_def)
  then have v: "validate_insecure_config c cfg' (env_flag env ''APP_ALLOW_INSECURE'') = Inr ()"
    using assms by (cases "validate_insecure_config c cfg' (env_flag env ''APP_ALLOW_INSECURE'')") (auto simp: start_config_def Let_def)
  with l assms have "cfg' = cfg" "valid_hash c (cf_admin_password_hash cfg)" "parse_ip (cf_public_ip cfg) \<noteq> None"
    by (auto simp: start_config_def Let_def split: if_splits)
  then show ?thesis using l v by (auto simp: validate_insecure_config_def split: if_splits)
qed

lemma boot_InrD:
  assumes "boot x s d = (Inr (k, a), ops)"
  obtains cfg sec turn ops1 ops2 cp where "start_config (ex_crypto x) (su_env s) = Inr cfg"
    "load_secret s (su_session_draw s) ''session.secret'' d = (Inr sec, ops1)"
    "load_secret s (su_turn_draw s) ''turn.secret'' (run_disk ops1 d) = (Inr turn, ops2)"
    "ops = ops1 @ ops2" "load_store (su_conn_pass s) = Inr cp" "(k, a) = build_app x cfg sec turn cp (su_index_html s)"
    "\<exists>socks. mux_bind (su_bind s) (su_cores s) (cf_udp_port_min cfg) (cf_udp_port_max cfg) = Inr socks"
  using assms
  by (auto simp: boot_def start_services_def tryE_eq_Inr map_sum_def split: sum.splits prod.splits)

text \<open>The secret is the one on disk after the start.\<close>

lemma session_secret_stored:
  assumes "boot x s d = (Inr (k, a), ops)" and "\<And>f. snd (snd (su_session_draw s)) = Some f \<Longrightarrow> length f = 32"
  obtains data where "run_disk ops d ''session.secret'' = Some data" "32 \<le> length data" "ac_session_secret k = take 32 data"
proof -
  obtain cfg sec turn ops1 ops2 cp where
    b: "load_secret s (su_session_draw s) ''session.secret'' d = (Inr sec, ops1)"
    "load_secret s (su_turn_draw s) ''turn.secret'' (run_disk ops1 d) = (Inr turn, ops2)"
    "ops = ops1 @ ops2" "(k, a) = build_app x cfg sec turn cp (su_index_html s)"
    using boot_InrD [OF assms(1)] by metis
  obtain data where data: "run_disk ops1 d ''session.secret'' = Some data" "32 \<le> length data" "take 32 data = sec"
    using b(1) assms(2) by (auto simp: load_secret_def split: prod.splits elim!: secret_stored)
  have "run_disk ops2 (run_disk ops1 d) ''session.secret'' = run_disk ops1 d ''session.secret''"
    using b(2) by (auto simp: load_secret_def temp_name_def split: prod.splits intro!: other_files)
  moreover have "run_disk ops d = run_disk ops2 (run_disk ops1 d)" using b(3) by (simp add: run_disk_def)
  ultimately show ?thesis using that data b(4) by (simp add: build_app_def)
qed

text \<open>
  C20. Nobody is logged out by a restart: a server that is started again with the same environment on
  the data directory the first start left, and that finds the connection passwords as they last were,
  accepts exactly the session cookies the old one accepted, each as the same session.
\<close>

theorem sessions_survive_restart:
  assumes "boot x s d = (Inr (k, a), ops)" and "\<And>f. snd (snd (su_session_draw s)) = Some f \<Longrightarrow> length f = 32"
    and "boot x s' d' = (Inr (k', a'), ops')" and "d' ''session.secret'' = run_disk ops d ''session.secret''"
    and "su_env s' = su_env s" and "su_conn_pass s' = FileHolds (Some (cs_entries (ap_conn_pass b)))"
  shows "session_of x k' dr rq a' = session_of x k dr rq b"
proof -
  obtain data where data: "run_disk ops d ''session.secret'' = Some data" "32 \<le> length data" "ac_session_secret k = take 32 data"
    using session_secret_stored [OF assms(1,2)] by blast
  obtain cfg sec turn cp where
    b: "start_config (ex_crypto x) (su_env s) = Inr cfg" "(k, a) = build_app x cfg sec turn cp (su_index_html s)"
    using boot_InrD [OF assms(1)] by metis
  obtain cfg' sec' turn' ops1' cp' where
    b': "start_config (ex_crypto x) (su_env s') = Inr cfg'" "(k', a') = build_app x cfg' sec' turn' cp' (su_index_html s')"
    "load_secret s' (su_session_draw s') ''session.secret'' d' = (Inr sec', ops1')" "load_store (su_conn_pass s') = Inr cp'"
    using boot_InrD [OF assms(3)] by metis
  have "sec' = take 32 data"
    using b'(3) data(1,2) assms(4) by (auto simp: load_secret_def split: prod.splits dest: secret_reused)
  then have "ac_session_secret k' = ac_session_secret k" "ac_admin_ver k' = ac_admin_ver k"
    using data(3) b b'(1,2) assms(5) by (auto simp: build_app_def)
  moreover have "cs_entries (ap_conn_pass a') = cs_entries (ap_conn_pass b)"
    using b'(2,4) assms(6) by (auto simp: build_app_def load_store_def Let_def)
  ultimately show ?thesis
    by (simp add: session_of_def valid_session_def session_live_def entry_generation_def split: option.split role.split)
qed

text \<open>A startup that gets through, for examples: new secrets in an empty data directory.\<close>

definition toy_env :: env where
  "toy_env = [''APP_ADMIN_PASSWORD_HASH'' \<mapsto> toy_hash, ''PUBLIC_IP'' \<mapsto> ''1.2.3.4'', ''APP_ALLOW_INSECURE'' \<mapsto> ''1'',
     ''UDP_PORT_MIN'' \<mapsto> ''0'']"

definition toy_startup :: "cp_entry list \<Rightarrow> startup" where
  "toy_startup es =
     \<lparr>su_env = toy_env, su_dir_ok = True, su_read_ok = True,
      su_session_draw = (NoFault, [1], Some (replicate 32 (CHR ''s''))),
      su_turn_draw = (NoFault, [2], Some (replicate 32 (CHR ''t''))),
      su_conn_pass = FileHolds (Some es), su_files = Inr (), su_bind = Inr, su_cores = Some 2, su_index_html = None,
      su_turn = Inr (), su_listen = (\<lambda>_. Inr ())\<rparr>"

definition toy_config :: config where
  "toy_config =
     \<lparr>cf_addr = '':8080'', cf_web_dir = ''../frontend/dist'', cf_updates_dir = ''../updates'', cf_app_hostname = ''localhost'',
      cf_public_ip = ''1.2.3.4'', cf_admin_password_hash = toy_hash, cf_cookie_secure = True, cf_udp_port_min = 0,
      cf_udp_port_max = 10200, cf_turn_relay_min = 49160, cf_turn_relay_max = 49199, cf_trusted_proxies = loopback_prefixes\<rparr>"

lemma toy_public_ip: "\<exists>i. parse_ip ''1.2.3.4'' = Some i"
  by (simp add: parse_ip_def read_ipv4_unfold read_separator_def read_number_def is_hex_def hex_val_def is_digit_def Let_def)

lemma toy_load: "load_config toy_env = Inr toy_config"
proof -
  have t: "parse_trusted_proxies [] = Inr loopback_prefixes"
    using trim_graphic [of "[]"] by (simp add: parse_trusted_proxies_def split_on_def)
  have u: "parse_uint 65536 ''0'' = Some 0" using parse_uint_dec [of 0 65536] by (simp add: dec.simps digit_def char_of_def bit_0)
  have "toy_hash \<noteq> []" using toy_verify by (auto simp: verify_def parse_hash_def split_on_def)
  then show ?thesis
    by (simp add: load_config_def env_get_def env_or_def env_bool_def env_u16_def env_parsed_def toy_env_def toy_config_def t u)
qed

lemma toy_start_config: "start_config toy_crypto toy_env = Inr toy_config"
proof -
  have "valid_hash toy_crypto toy_hash" "toy_hash \<noteq> []"
    using toy_verify by (auto simp: valid_hash_def verify_def parse_hash_def split_on_def split: option.splits)
  moreover have "env_flag toy_env ''APP_ALLOW_INSECURE''" by (simp add: env_flag_def parse_bool_def toy_env_def)
  moreover have "cf_admin_password_hash toy_config = toy_hash" "cf_public_ip toy_config = ''1.2.3.4''" "cf_cookie_secure toy_config"
    by (simp_all add: toy_config_def)
  ultimately show ?thesis
    using toy_public_ip by (auto simp: start_config_def toy_load validate_insecure_config_def Let_def)
qed

text \<open>With both secrets drawn, or with the session secret on disk.\<close>

lemma toy_services:
  assumes "turn \<noteq> []"
  shows "start_services toy_ext (toy_startup es) toy_config sec turn = Inr (build_app toy_ext toy_config sec turn \<lparr>cs_entries = es, cs_file = Some es\<rparr> None)"
proof -
  have "hex (bytes_of turn) \<noteq> []" using assms by (cases turn) (simp_all add: bytes_of_def hex_def)
  then have "turn_config_ok (hex (bytes_of turn)) (cf_public_ip toy_config) (cf_turn_relay_min toy_config) (cf_turn_relay_max toy_config)
      = Inr (the (parse_ip ''1.2.3.4''))"
    using toy_public_ip by (auto simp: turn_config_ok_def toy_config_def)
  then show ?thesis
    by (simp add: start_services_def mux_bind_def load_store_def toy_startup_def) (simp add: toy_config_def MAX_SOCKETS_def Let_def)
qed

lemma toy_draw:
  assumes "d name = None" and "d (temp_name name rnd) = None" and "length secret = 32"
  shows "load_or_create True True NoFault rnd (Some secret) name 32 d
    = (Inr secret, [CreateNew (temp_name name rnd), Put (temp_name name rnd) secret, Rename (temp_name name rnd) name])"
  using assms by (simp add: load_or_create_def atomic_write_def Let_def)

lemma toy_boot:
  "\<exists>ops. boot toy_ext (toy_startup es) Map.empty
      = (Inr (build_app toy_ext toy_config (replicate 32 (CHR ''s'')) (replicate 32 (CHR ''t'')) \<lparr>cs_entries = es, cs_file = Some es\<rparr> None), ops)
    \<and> run_disk ops Map.empty ''session.secret'' = Some (replicate 32 (CHR ''s''))
    \<and> run_disk ops Map.empty ''turn.secret'' = Some (replicate 32 (CHR ''t''))"
proof -
  let ?s = "replicate 32 (CHR ''s'')" and ?t = "replicate 32 (CHR ''t'')"
  let ?n = "temp_name ''session.secret'' [1]" and ?m = "temp_name ''turn.secret'' [2]"
  let ?ops1 = "[CreateNew ?n, Put ?n ?s, Rename ?n ''session.secret'']" and ?ops2 = "[CreateNew ?m, Put ?m ?t, Rename ?m ''turn.secret'']"
  have s: "load_secret (toy_startup es) (su_session_draw (toy_startup es)) ''session.secret'' Map.empty = (Inr ?s, ?ops1)"
    using toy_draw [of Map.empty "''session.secret''" "[1]" ?s] by (simp add: load_secret_def toy_startup_def)
  have e: "run_disk ?ops1 Map.empty ''turn.secret'' = None" "run_disk ?ops1 Map.empty ?m = None"
    by (simp_all add: run_disk_def temp_name_def)
  have t: "load_secret (toy_startup es) (su_turn_draw (toy_startup es)) ''turn.secret'' (run_disk ?ops1 Map.empty) = (Inr ?t, ?ops2)"
    using toy_draw [OF e, of ?t] by (simp add: load_secret_def toy_startup_def)
  have "boot toy_ext (toy_startup es) Map.empty
      = (Inr (build_app toy_ext toy_config ?s ?t \<lparr>cs_entries = es, cs_file = Some es\<rparr> None), ?ops1 @ ?ops2)"
    using toy_services [of ?t es ?s] toy_start_config s t
    by (simp add: boot_def toy_ext_def del: replicate.simps) (simp add: toy_startup_def)
  moreover have "run_disk (?ops1 @ ?ops2) Map.empty ''session.secret'' = Some ?s" "run_disk (?ops1 @ ?ops2) Map.empty ''turn.secret'' = Some ?t"
    by (simp_all add: run_disk_def temp_name_def)
  ultimately show ?thesis by blast
qed

lemma toy_boot_again:
  assumes "d ''session.secret'' = Some (replicate 32 (CHR ''s''))" and "d ''turn.secret'' = Some (replicate 32 (CHR ''t''))"
  shows "boot toy_ext (toy_startup es) d
    = (Inr (build_app toy_ext toy_config (replicate 32 (CHR ''s'')) (replicate 32 (CHR ''t'')) \<lparr>cs_entries = es, cs_file = Some es\<rparr> None), [])"
proof -
  let ?s = "replicate 32 (CHR ''s'')" and ?t = "replicate 32 (CHR ''t'')"
  have "load_secret (toy_startup es) (su_session_draw (toy_startup es)) ''session.secret'' d = (Inr ?s, [])"
    "load_secret (toy_startup es) (su_turn_draw (toy_startup es)) ''turn.secret'' (run_disk [] d) = (Inr ?t, [])"
    using assms by (simp_all add: load_secret_def toy_startup_def load_or_create_def run_disk_def)
  then show ?thesis
    using toy_services [of ?t es ?s] toy_start_config
    by (simp add: boot_def toy_ext_def del: replicate.simps) (simp add: toy_startup_def)
qed

theorem sessions_survive_restart_witness:
  "\<exists>k a ops k' a' ops'. boot toy_ext (toy_startup []) Map.empty = (Inr (k, a), ops)
    \<and> boot toy_ext (toy_startup [toy_entry]) (run_disk ops Map.empty) = (Inr (k', a'), ops')
    \<and> session_of toy_ext k' (toy_draws 0) toy_login a' = session_of toy_ext k (toy_draws 0) toy_login (toy_app [toy_entry])"
proof -
  obtain k a ops where b: "boot toy_ext (toy_startup []) Map.empty = (Inr (k, a), ops)"
    "run_disk ops Map.empty ''session.secret'' = Some (replicate 32 (CHR ''s''))"
    "run_disk ops Map.empty ''turn.secret'' = Some (replicate 32 (CHR ''t''))"
    using toy_boot [of "[]"] by (metis surj_pair)
  obtain k' a' ops' where b': "boot toy_ext (toy_startup [toy_entry]) (run_disk ops Map.empty) = (Inr (k', a'), ops')"
    using toy_boot_again [OF b(2,3), of "[toy_entry]"] by (metis surj_pair)
  have "su_env (toy_startup [toy_entry]) = su_env (toy_startup [])"
    "su_conn_pass (toy_startup [toy_entry]) = FileHolds (Some (cs_entries (ap_conn_pass (toy_app [toy_entry]))))"
    "snd (snd (su_session_draw (toy_startup []))) = Some f \<Longrightarrow> length f = 32" for f
    by (auto simp: toy_startup_def toy_app_def)
  then show ?thesis
    using b(1) b' sessions_survive_restart [OF b(1) _ b', of "toy_app [toy_entry]" "toy_draws 0" toy_login] by blast
qed

section \<open>The password of hashpass logs in\<close>

text \<open>
  C25. Whoever set the server up gets in: with the hash that hashpass printed for a password as
  APP_ADMIN_PASSWORD_HASH, a server that starts answers the first login with that password with a
  cookie that it takes for an admin session until its thirty days are over.
\<close>

theorem hashpass_logs_in:
  assumes "crypto_ok (ex_crypto x)" and "length salt = ARGON_SALT_LEN"
    and "hashpass (ex_crypto x) False (Inr input) salt = Some (Inr (warn, h))"
    and "su_env s ''APP_ADMIN_PASSWORD_HASH'' = Some h" and "boot x s d = (Inr (k, a), ops)"
    and "post_form x rq = Some form" and "form_value ''password'' form = trim_newlines (from_utf8_lossy (take 4096 input))"
    and "header_str (ex_http_date x (dr_time dr + SESSION_TTL)) = Some (ex_http_date x (dr_time dr + SESSION_TTL))"
    and "dr_time dr + SESSION_TTL < secs (2 ^ 63)" and "unix_secs now \<le> unix_secs (dr_time dr + SESSION_TTL)"
  shows "\<exists>r a' ck. login x k dr rq a = Some (r, a') \<and> header_get ''set-cookie'' (rs_headers r) = Some ck
    \<and> from_headers (ex_crypto x) (ac_session_secret k) [takeWhile (\<lambda>ch. ch \<noteq> CHR '';'') ck] now
        = Some \<lparr>sn_role = Admin, sn_generation = 0, sn_admin_version = ac_admin_ver k, sn_entry_id = []\<rparr>"
proof -
  let ?p = "trim_newlines (from_utf8_lossy (take 4096 input))"
  obtain cfg sec turn cp where b: "start_config (ex_crypto x) (su_env s) = Inr cfg"
    "(k, a) = build_app x cfg sec turn cp (su_index_html s)" using boot_InrD [OF assms(5)] by metis
  have "cf_admin_password_hash cfg = h"
    using start_config_SomeD [OF b(1)] assms(4) by (auto simp: load_config_def env_get_def split: sum.splits)
  with b(2) have k: "cf_admin_password_hash (ac_cfg k) = h" "ap_limiter a = new_limiter 10 (secs (15 * 60))"
    "ac_admin_ver k = admin_password_version (ex_crypto x) (ac_session_secret k) h"
    by (simp_all add: build_app_def)
  have p: "?p \<noteq> []" "hash (ex_crypto x) salt ?p = Some h"
    using assms(3) by (auto simp: hashpass_def Let_def split: if_splits option.splits)
  then have v: "verify (ex_crypto x) h ?p" using password_roundtrip [OF assms(1) _ assms(2)] by blast
  have av: "list_all cookie_safe (ac_admin_ver k)"
    using sign_chars [OF assms(1)] by (auto simp: k(3) admin_password_version_def list_all_iff cookie_safe_def)
  let ?ck = "session_cookie (ex_crypto x) (cf_cookie_secure (ac_cfg k)) (ac_session_secret k) Admin 0 (ac_admin_ver k) [] (dr_time dr)
      (ex_http_date x (dr_time dr + SESSION_TTL))"
  have "with_cookie ?ck = Some (with_header ''set-cookie'' ?ck no_content)"
    using cookie_fits [OF assms(1) av _ assms(8)] by simp
  then obtain a' where "login x k dr rq a = Some (with_header ''set-cookie'' ?ck no_content, a')"
    using v p(1) assms(6,7) k(1,2) by (simp add: login_def Let_def blocked_at_def new_limiter_def)
  moreover have "from_headers (ex_crypto x) (ac_session_secret k) [takeWhile (\<lambda>ch. ch \<noteq> CHR '';'') ?ck] now
      = Some \<lparr>sn_role = Admin, sn_generation = 0, sn_admin_version = ac_admin_ver k, sn_entry_id = []\<rparr>"
    using cookie_session [OF assms(1) av _ assms(9,10), of "[]"] by simp
  ultimately show ?thesis by fastforce
qed


theorem hashpass_logs_in_witness:
  "\<exists>k a ops r a' ck. boot toy_ext (toy_startup []) Map.empty = (Inr (k, a), ops)
    \<and> hashpass toy_crypto False (Inr (''pw'' @ [nl])) (replicate 16 7) = Some (Inr (True, toy_hash))
    \<and> login toy_ext k (toy_draws 0) toy_login a = Some (r, a') \<and> header_get ''set-cookie'' (rs_headers r) = Some ck
    \<and> from_headers toy_crypto (ac_session_secret k) [takeWhile (\<lambda>ch. ch \<noteq> CHR '';'') ck] (secs 100)
        = Some \<lparr>sn_role = Admin, sn_generation = 0, sn_admin_version = ac_admin_ver k, sn_entry_id = []\<rparr>"
proof -
  obtain k a ops where b: "boot toy_ext (toy_startup []) Map.empty = (Inr (k, a), ops)"
    using toy_boot [of "[]"] by (metis surj_pair)
  have p: "trim_newlines (from_utf8_lossy (take 4096 (''pw'' @ [nl]))) = ''pw''" by code_simp
  have h: "hash toy_crypto (replicate 16 7) ''pw'' = Some toy_hash" by (simp add: toy_hash_def hash_def) (simp add: toy_crypto_def)
  have hp: "hashpass toy_crypto False (Inr (''pw'' @ [nl])) (replicate 16 7) = Some (Inr (True, toy_hash))"
    unfolding hashpass_def if_False sum.case p Let_def h by (simp add: MIN_RECOMMENDED_LEN_def h)
  have x: "ex_crypto toy_ext = toy_crypto" "ex_http_date toy_ext t = ''Thu, 01 Jan 1970 00:00:00 GMT''" "dr_time (toy_draws 0) = 0" for t
    by (simp_all add: toy_ext_def toy_draws_def)
  have date: "header_str ''Thu, 01 Jan 1970 00:00:00 GMT'' = Some ''Thu, 01 Jan 1970 00:00:00 GMT''" by code_simp
  have env: "su_env (toy_startup []) ''APP_ADMIN_PASSWORD_HASH'' = Some toy_hash" by (simp add: toy_startup_def toy_env_def)
  have "\<exists>r a' ck. login toy_ext k (toy_draws 0) toy_login a = Some (r, a') \<and> header_get ''set-cookie'' (rs_headers r) = Some ck
    \<and> from_headers (ex_crypto toy_ext) (ac_session_secret k) [takeWhile (\<lambda>ch. ch \<noteq> CHR '';'') ck] (secs 100)
        = Some \<lparr>sn_role = Admin, sn_generation = 0, sn_admin_version = ac_admin_ver k, sn_entry_id = []\<rparr>"
    using hashpass_logs_in [of toy_ext "replicate 16 7" "''pw'' @ [nl]" True toy_hash "toy_startup []" Map.empty k a ops toy_login _ "toy_draws 0" "secs 100",
        OF _ _ _ env b toy_form] toy_crypto_ok hp date
    unfolding x p by (simp add: ARGON_SALT_LEN_def form_value_def hget_Cons SESSION_TTL_def unix_secs_def)
  then show ?thesis using b hp x(1) by auto
qed

section \<open>A server that runs is set up\<close>

text \<open>
  A server only runs when it is set up safely: its admin password hash is one that hashpass can
  have made; unless insecure mode was asked for, its cookies are secure and the admin password is not
  the one of development; its public address is an address; the key of its sessions is thirty-two
  bytes and on disk; and in its data directory nothing but the two secrets and their temporary files
  changed.
\<close>

theorem start_is_safe:
  assumes "boot x s d = (Inr (k, a), ops)" and "\<And>f. snd (snd (su_session_draw s)) = Some f \<Longrightarrow> length f = 32"
  shows "valid_hash (ex_crypto x) (cf_admin_password_hash (ac_cfg k)) \<and> parse_ip (cf_public_ip (ac_cfg k)) \<noteq> None
    \<and> (env_flag (su_env s) ''APP_ALLOW_INSECURE''
        \<or> cf_cookie_secure (ac_cfg k) \<and> \<not> verify (ex_crypto x) (cf_admin_password_hash (ac_cfg k)) ''dev'')
    \<and> length (ac_session_secret k) = 32 \<and> map_option (take 32) (run_disk ops d ''session.secret'') = Some (ac_session_secret k)
    \<and> {f. run_disk ops d f \<noteq> d f} \<subseteq> {''session.secret'', ''turn.secret'', temp_name ''session.secret'' (fst (snd (su_session_draw s))),
        temp_name ''turn.secret'' (fst (snd (su_turn_draw s)))}"
proof -
  obtain cfg sec turn ops1 ops2 cp where b: "start_config (ex_crypto x) (su_env s) = Inr cfg"
    "load_secret s (su_session_draw s) ''session.secret'' d = (Inr sec, ops1)"
    "load_secret s (su_turn_draw s) ''turn.secret'' (run_disk ops1 d) = (Inr turn, ops2)"
    "ops = ops1 @ ops2" "(k, a) = build_app x cfg sec turn cp (su_index_html s)" using boot_InrD [OF assms(1)] by metis
  have c: "ac_cfg k = cfg" using b(5) by (simp add: build_app_def)
  have "run_disk ops d f = d f" if "f \<notin> {''session.secret'', ''turn.secret'', temp_name ''session.secret'' (fst (snd (su_session_draw s))),
        temp_name ''turn.secret'' (fst (snd (su_turn_draw s)))}" for f
  proof -
    have "run_disk ops1 d f = d f" "run_disk ops2 (run_disk ops1 d) f = run_disk ops1 d f"
      using that b(2,3) by (auto simp: load_secret_def split: prod.splits intro!: other_files)
    then show ?thesis using b(4) by (simp add: run_disk_def)
  qed
  then have o: "{f. run_disk ops d f \<noteq> d f} \<subseteq> {''session.secret'', ''turn.secret'', temp_name ''session.secret'' (fst (snd (su_session_draw s))),
        temp_name ''turn.secret'' (fst (snd (su_turn_draw s)))}" by blast
  obtain data where "run_disk ops d ''session.secret'' = Some data" "32 \<le> length data" "ac_session_secret k = take 32 data"
    using session_secret_stored [OF assms] by blast
  then show ?thesis using start_config_SomeD [OF b(1)] o by (simp add: c)
qed

theorem start_is_safe_witness:
  "\<exists>k a ops. boot toy_ext (toy_startup []) Map.empty = (Inr (k, a), ops) \<and> valid_hash toy_crypto (cf_admin_password_hash (ac_cfg k))
    \<and> length (ac_session_secret k) = 32"
proof -
  obtain k a ops where b: "boot toy_ext (toy_startup []) Map.empty = (Inr (k, a), ops)"
    using toy_boot [of "[]"] by (metis surj_pair)
  have "snd (snd (su_session_draw (toy_startup []))) = Some f \<Longrightarrow> length f = 32" for f by (auto simp: toy_startup_def)
  from start_is_safe [OF b this] b show ?thesis by (auto simp: toy_ext_def)
qed

end
