(* ===== verification/LoadTest.thy ===== *)
theory LoadTest
  imports LoadClient Boot
begin

text \<open>
  \<open>backend/src/bin/loadtest/main.rs\<close>: the load generator that the releases are measured with. Its
  flags, its scenarios, who joins where, who speaks when, and the reconnecting of the churn scenario.
  What it prints of the measurements is \<open>f64\<close> arithmetic and left out; so is the sampling of \<open>/proc\<close>.
\<close>

section \<open>The code: flags\<close>

record args =
  ar_target :: string
  ar_password :: string
  ar_scenario :: string
  ar_duration :: nat
  ar_server_pid :: "nat option"
  ar_label :: string
  ar_out :: "string option"
  ar_local_ip :: ip
  ar_warmup :: nat

definition default_args :: args where
  "default_args =
     \<lparr>ar_target = ''http://127.0.0.1:8080'', ar_password = [], ar_scenario = ''smoke'', ar_duration = 30,
      ar_server_pid = None, ar_label = ''server'', ar_out = None, ar_local_ip = V4 0x7F000001, ar_warmup = 0\<rparr>"

text \<open>A flag that takes a value. None is the exit with the usage text.\<close>

definition set_flag :: "string \<Rightarrow> string \<Rightarrow> args \<Rightarrow> args option" where
  "set_flag flag v a =
     (if flag = ''--target'' then Some (a\<lparr>ar_target := v\<rparr>)
      else if flag = ''--password'' then Some (a\<lparr>ar_password := v\<rparr>)
      else if flag = ''--scenario'' then Some (a\<lparr>ar_scenario := v\<rparr>)
      else if flag = ''--duration'' then map_option (\<lambda>n. a\<lparr>ar_duration := n\<rparr>) (parse_uint (2 ^ 64) v)
      else if flag = ''--server-pid'' then map_option (\<lambda>n. a\<lparr>ar_server_pid := Some n\<rparr>) (parse_uint (2 ^ 32) v)
      else if flag = ''--label'' then Some (a\<lparr>ar_label := v\<rparr>)
      else if flag = ''--out'' then Some (a\<lparr>ar_out := Some v\<rparr>)
      else if flag = ''--local-ip'' then map_option (\<lambda>i. a\<lparr>ar_local_ip := i\<rparr>) (parse_ip v)
      else if flag = ''--warmup'' then map_option (\<lambda>n. a\<lparr>ar_warmup := n\<rparr>) (parse_uint (2 ^ 64) v)
      else None)"

text \<open>\<open>stdin\<close>: what reading it gives; the left result is the usage exit or the panic.\<close>

fun parse_flags :: "string option \<Rightarrow> string list \<Rightarrow> args \<Rightarrow> string + args" where
  "parse_flags stdin [] a = Inr a"
| "parse_flags stdin (flag # argv) a =
     (if flag = ''--password-stdin''
      then (case stdin of
              None \<Rightarrow> Inl ''panic: read stdin''
            | Some s \<Rightarrow> parse_flags (Some []) argv (a\<lparr>ar_password := trim_newlines s\<rparr>))
      else case argv of
             [] \<Rightarrow> Inl ''usage''
           | v # vs \<Rightarrow>
               (case set_flag flag v a of None \<Rightarrow> Inl ''usage'' | Some a' \<Rightarrow> parse_flags stdin vs a'))"

definition parse_args :: "string option \<Rightarrow> string list \<Rightarrow> string + args" where
  "parse_args stdin argv =
     tryE (parse_flags stdin argv default_args) (\<lambda>a. if ar_password a = [] then Inl ''usage'' else Inr a)"

text \<open>The host and the port of the target; without a readable port it is 80.\<close>

definition target_of :: "string \<Rightarrow> string \<times> nat" where
  "target_of t =
     (let url = trim_start ''http://'' t
      in case split_once (CHR '':'') url of
           None \<Rightarrow> (url, 80)
         | Some (h, p) \<Rightarrow>
             (h, case parse_uint (2 ^ 16) (rev (dropWhile (\<lambda>c. c = CHR ''/'') (rev p))) of None \<Rightarrow> 80 | Some n \<Rightarrow> n))"

section \<open>The code: scenarios\<close>

datatype scenario = Office | ScreenScenario | Churn | Smoke | RoomsScenario "32 word" "32 word" "32 word" | Scale "32 word"

definition u32_of :: "string \<Rightarrow> 32 word option" where
  "u32_of s = map_option word_of_nat (parse_uint (2 ^ 32) s)"

text \<open>The iterator parses no more than the three parts that are asked for.\<close>

definition rooms_args :: "string \<Rightarrow> scenario option" where
  "rooms_args s =
     (case map u32_of (take 3 (split_on (CHR '':'') s)) of
        Some n # vs \<Rightarrow>
          (if n = 0 then None
           else case vs of
                  [] \<Rightarrow> (if 1 + 0 > n then None else Some (RoomsScenario n 1 0))
                | [Some sp] \<Rightarrow> (if sp + 0 > n then None else Some (RoomsScenario n sp 0))
                | [Some sp, Some mu] \<Rightarrow> (if sp + mu > n then None else Some (RoomsScenario n sp mu))
                | _ \<Rightarrow> None)
      | _ \<Rightarrow> None)"

definition scenario_of :: "string \<Rightarrow> scenario option" where
  "scenario_of s =
     (if s = ''office'' then Some Office else if s = ''screen'' then Some ScreenScenario
      else if s = ''churn'' then Some Churn else if s = ''smoke'' then Some Smoke
      else if starts_with ''rooms:'' s then rooms_args (drop 6 s)
      else if starts_with ''scale:'' s then map_option Scale (u32_of (drop 6 s))
      else None)"

fun peers_planned :: "scenario \<Rightarrow> 64 word" where
  "peers_planned Office = 15"
| "peers_planned ScreenScenario = 8"
| "peers_planned Churn = 20"
| "peers_planned Smoke = 4"
| "peers_planned (RoomsScenario n _ _) = 3 * ucast n"
| "peers_planned (Scale n) = ucast n"

section \<open>The code: who joins\<close>

record peer_opts =
  po_display_name :: string
  po_client_id :: string
  po_chat_only :: bool
  po_room :: string
  po_watch_screens :: bool
  po_temporal_layer :: "8 word"

text \<open>A connected peer; \<open>lp_ref\<close> stands for the identity of its \<open>Arc\<close>.\<close>

record load_peer =
  lp_ref :: nat
  lp_idx :: "32 word"
  lp_opts :: peer_opts

record load_run =
  lr_next :: nat
  lr_peers :: "load_peer list"
  lr_finished :: "load_peer list"
  lr_connect_errors :: "64 word"

text \<open>\<open>ok\<close>: whether the connect succeeds.\<close>

definition join_opts :: "32 word \<Rightarrow> string \<Rightarrow> bool \<Rightarrow> bool \<Rightarrow> 8 word \<Rightarrow> string option \<Rightarrow> peer_opts" where
  "join_opts idx room chat_only watch layer client_id =
     \<lparr>po_display_name = CHR ''p'' # dec (unat idx),
      po_client_id = (case client_id of None \<Rightarrow> ''lt-'' @ dec (unat idx) | Some i \<Rightarrow> i),
      po_chat_only = chat_only, po_room = room, po_watch_screens = watch, po_temporal_layer = layer\<rparr>"

definition run_join :: "bool \<Rightarrow> 32 word \<Rightarrow> peer_opts \<Rightarrow> load_run \<Rightarrow> load_peer option \<times> load_run" where
  "run_join ok idx opts r =
     (if ok
      then let p = \<lparr>lp_ref = lr_next r, lp_idx = idx, lp_opts = opts\<rparr>
           in (Some p, r\<lparr>lr_next := lr_next r + 1, lr_peers := lr_peers r @ [p]\<rparr>)
      else (None, r\<lparr>lr_connect_errors := lr_connect_errors r + 1\<rparr>))"

definition run_leave :: "load_peer \<Rightarrow> load_run \<Rightarrow> load_run" where
  "run_leave p r =
     r\<lparr>lr_peers := filter (\<lambda>q. lp_ref q \<noteq> lp_ref p) (lr_peers r), lr_finished := lr_finished r @ [p]\<rparr>"

text \<open>The joins of a scenario in their order; of \<open>churn\<close> the steady ones.\<close>

definition office_joins :: "(32 word \<times> peer_opts) list" where
  "office_joins =
     snd (fold (\<lambda>(room, voice, lurkers) (idx, js).
            (idx + word_of_nat (voice + lurkers),
             js @ map (\<lambda>i. let j = idx + word_of_nat i in (j, join_opts j room (voice \<le> i) False 2 None)) [0..<voice + lurkers]))
          [(''room1'', 6, 2), (''room2'', 4, 1), (''room3'', 2 :: nat, 0)] (0, []))"

definition rooms_joins :: "32 word \<Rightarrow> (32 word \<times> peer_opts) list" where
  "rooms_joins n =
     concat (map (\<lambda>room. map (\<lambda>i. let j = word_of_nat room * n + word_of_nat i
                                  in (j, join_opts j (''room'' @ dec (room + 1)) False False 2 None)) [0..<unat n]) [0..<3])"

definition scale_joins :: "nat \<Rightarrow> (32 word \<times> peer_opts) list" where
  "scale_joins n = map (\<lambda>i. (word_of_nat i, join_opts (word_of_nat i) ''room1'' False False 2 None)) [0..<n]"

fun scenario_joins :: "scenario \<Rightarrow> (32 word \<times> peer_opts) list" where
  "scenario_joins Office = office_joins"
| "scenario_joins ScreenScenario =
     map (\<lambda>i. (word_of_nat i, join_opts (word_of_nat i) ''room1'' False (i \<noteq> 0) (if i = 7 then 1 else 2) None)) [0..<8]"
| "scenario_joins Churn = scale_joins 16"
| "scenario_joins Smoke = scale_joins 4"
| "scenario_joins (RoomsScenario n _ _) = rooms_joins n"
| "scenario_joins (Scale n) = scale_joins (unat n)"

text \<open>The presence streams a scenario opens.\<close>

fun presence_watchers :: "scenario \<Rightarrow> nat" where
  "presence_watchers Office = 4"
| "presence_watchers ScreenScenario = 2"
| "presence_watchers (RoomsScenario _ _ _) = 2"
| "presence_watchers _ = 0"

text \<open>Which peers of a \<open>rooms\<close> scenario mute themselves when they joined.\<close>

definition self_muted :: "32 word \<Rightarrow> 32 word \<Rightarrow> 32 word \<Rightarrow> bool" where
  "self_muted n muted i \<longleftrightarrow> n - muted \<le> i"

section \<open>The code: who speaks\<close>

definition office_layout :: "(32 word \<times> 32 word) list" where
  "office_layout = [(0, 6), (8, 4), (13, 2)]"

definition office_speaking :: "32 word \<Rightarrow> 64 word \<Rightarrow> bool option" where
  "office_speaking idx n =
     (case List.find (\<lambda>(b, c). b \<le> idx \<and> idx < b + c) office_layout of
        None \<Rightarrow> None
      | Some (base, cnt) \<Rightarrow>
          let local = idx - base
          in if local = cnt - 1 \<and> cnt > 2 then None
             else let speaker = ucast ((n div 200) mod (ucast cnt - (if cnt > 2 then 1 else 0))) :: 32 word
                  in Some (local = speaker))"

definition screen_speaking :: "32 word \<Rightarrow> 64 word \<Rightarrow> bool option" where
  "screen_speaking idx n = Some (idx = ucast ((n div 200) mod 8))"

definition churn_speaking :: "32 word \<Rightarrow> 64 word \<Rightarrow> bool option" where
  "churn_speaking idx n = Some (idx = ucast ((n div 150) mod 16) \<or> idx = ucast ((n div 150 + 8) mod 16))"

definition rooms_speaking :: "32 word \<Rightarrow> 32 word \<Rightarrow> 32 word \<Rightarrow> 32 word \<Rightarrow> 64 word \<Rightarrow> bool option" where
  "rooms_speaking n speakers muted idx t =
     (let live = n - muted; local = ucast (idx mod n) :: 64 word
      in if ucast live \<le> local then Some False
         else let first = (t div 200) mod ucast live
              in Some ((local + ucast live - first) mod ucast live < ucast speakers))"

fun speaking :: "scenario \<Rightarrow> 32 word \<Rightarrow> 64 word \<Rightarrow> bool option" where
  "speaking Office idx t = office_speaking idx t"
| "speaking ScreenScenario idx t = screen_speaking idx t"
| "speaking Churn idx t = churn_speaking idx t"
| "speaking (RoomsScenario n sp mu) idx t = rooms_speaking n sp mu idx t"
| "speaking _ idx t = Some True"

text \<open>What the driver has a peer send on tick \<open>n\<close>: a full frame or a DTX frame, and its timestamp.\<close>

definition driver_sends :: "(32 word \<Rightarrow> 64 word \<Rightarrow> bool option) \<Rightarrow> 64 word \<Rightarrow> 32 word \<Rightarrow> (bool \<times> 32 word) option" where
  "driver_sends speaks n idx =
     (case speaks idx n of
        Some True \<Rightarrow> Some (True, ucast (n * 960))
      | Some False \<Rightarrow> (if (n + ucast idx) mod 20 = 0 then Some (False, ucast (n * 960)) else None)
      | None \<Rightarrow> None)"

section \<open>The code: reconnecting\<close>

text \<open>A tick of the churn scenario: every other reconnect overlaps the session before it.\<close>

definition churn_old :: "32 word \<Rightarrow> load_run \<Rightarrow> load_peer option" where
  "churn_old which r = List.find (\<lambda>p. 100 \<le> lp_idx p \<and> (lp_idx p - 100) mod 4 = which) (lr_peers r)"

definition drop_old :: "load_peer option \<Rightarrow> load_run \<Rightarrow> load_run" where
  "drop_old old r = (case old of None \<Rightarrow> r | Some p \<Rightarrow> run_leave p r)"

definition churn_tick :: "bool \<Rightarrow> 32 word \<times> load_run \<Rightarrow> 32 word \<times> load_run" where
  "churn_tick ok st =
     (case st of (gen, r) \<Rightarrow>
        let which = gen mod 4;
            old = churn_old which r;
            r1 = (if gen mod 2 = 0 then drop_old old r else r);
            idx = 100 + gen * 4 + which;
            r2 = snd (run_join ok idx (join_opts idx ''room1'' False False 2 (Some (''churn-'' @ dec (unat which)))) r1);
            r3 = (if gen mod 2 = 1 then drop_old old r2 else r2)
        in (gen + 1, r3))"

section \<open>The code: sharing a screen\<close>

text \<open>System audio catches up with the frames: fifty packets for thirty frames. The sends are listed.\<close>

function audio_catch_up :: "32 word \<Rightarrow> 32 word \<Rightarrow> 64 word \<Rightarrow> (64 word \<times> 32 word) list \<times> 32 word \<times> 64 word" where
  "audio_catch_up due tick aseq =
     (if tick < due
      then (case audio_catch_up due (tick + 1) (aseq + 1) of (sends, t, s) \<Rightarrow> ((aseq, tick * 960) # sends, t, s))
      else ([], tick, aseq))"
  by pat_completeness auto
termination
proof (relation "measure (\<lambda>(due, tick, _). unat due - unat tick)")
  show "wf (measure (\<lambda>(due :: 32 word, tick :: 32 word, _ :: 64 word). unat due - unat tick))" by simp
next
  fix due tick :: "32 word" and aseq :: "64 word"
  assume "tick < due"
  then have "unat (tick + 1) = unat tick + 1" using unsigned_less [of due, where ?'a = nat]
    by (simp add: unat_word_ariths word_less_nat_alt)
  with \<open>tick < due\<close> show "((due, tick + 1, aseq + 1), due, tick, aseq) \<in> measure (\<lambda>(due, tick, _). unat due - unat tick)"
    by (simp add: word_less_nat_alt)
qed

declare audio_catch_up.simps [simp del]

definition audio_due :: "32 word \<Rightarrow> 32 word" where
  "audio_due n = ucast (ucast n * 50 div 30 :: 64 word)"

section \<open>The code: the verdict\<close>

text \<open>The sums behind the report's packet counters, and whether a smoke run failed.\<close>

definition media_counts :: "stream_acc list \<Rightarrow> 64 word \<times> 64 word" where
  "media_counts accs = (sum_list (map sa_count accs), sum_list (map acc_lost accs))"

definition smoke_failed :: "scenario \<Rightarrow> 64 word \<Rightarrow> 64 word \<Rightarrow> bool" where
  "smoke_failed s connected audio_packets \<longleftrightarrow> s = Smoke \<and> (connected < peers_planned s \<or> audio_packets = 0)"

section \<open>A room has the speakers it was asked for\<close>

lemma rotate_count:
  fixes live first k :: nat
  assumes "k \<le> live" and "first < live"
  shows "card {i. i < live \<and> (i + live - first) mod live < k} = k"
proof -
  have eq: "(i + live - first) mod live = (if first \<le> i then i - first else i + live - first)" if "i < live" for i
    using that assms(2) by (auto simp: mod_if)
  have "bij_betw (\<lambda>i. (i + live - first) mod live) {i. i < live \<and> (i + live - first) mod live < k} {..<k}"
  proof (rule bij_betw_byWitness [where f' = "\<lambda>j. if j + first < live then j + first else j + first - live"])
    show "(\<lambda>j. if j + first < live then j + first else j + first - live) ` {..<k}
        \<subseteq> {i. i < live \<and> (i + live - first) mod live < k}"
      using assms by (auto simp: eq)
  qed (use assms in \<open>auto simp: eq split: if_splits\<close>)
  then show ?thesis using bij_betw_same_card by force
qed

lemma unat_ucast_64: "unat (ucast (w :: 32 word) :: 64 word) = unat w"
proof -
  have "unat w < 2 ^ 64" using unsigned_less [of w, where ?'a = nat] by simp
  then show ?thesis by (simp add: unsigned_ucast_eq take_bit_nat_eq_self)
qed

lemma unat_of_nat_32: "m < 2 ^ 32 \<Longrightarrow> unat (word_of_nat m :: 32 word) = m"
  by (simp add: unat_of_nat)

lemma rooms_speaking_nat:
  fixes n speakers muted :: "32 word" and t :: "64 word"
  assumes "unat muted \<le> unat n" and "room < 3" and "3 * unat n < 2 ^ 32" and "i < unat n"
  defines "l \<equiv> unat n - unat muted"
  shows "rooms_speaking n speakers muted (word_of_nat room * n + word_of_nat i) t
    = Some (i < l \<and> (i + l - unat t div 200 mod l) mod l < unat speakers)"
proof -
  let ?w = "ucast (n - muted) :: 64 word" and ?i = "ucast ((word_of_nat room * n + word_of_nat i) mod n) :: 64 word"
  let ?f = "(t div 200) mod ?w"
  have lw: "unat ?w = l" using assms(1) by (simp add: unat_ucast_64 l_def unat_sub_if')
  have "room * unat n \<le> 2 * unat n" using assms(2) by (intro mult_right_mono) simp_all
  then have "room * unat n + i < 2 ^ 32" using assms(3,4) by linarith
  then have "unat (word_of_nat (room * unat n + i) :: 32 word) = room * unat n + i" by (rule unat_of_nat_32)
  moreover have "word_of_nat room * n + word_of_nat i = (word_of_nat (room * unat n + i) :: 32 word)"
    by (simp add: of_nat_unat)
  ultimately have "unat ?i = (room * unat n + i) mod unat n" by (simp only: unat_ucast_64 unat_mod)
  then have iw: "unat ?i = i" using assms(4) by (simp only: mod_mult_self3 mod_less)
  have fw: "unat ?f = unat t div 200 mod l" by (simp add: unat_mod unat_div lw)
  show ?thesis
  proof (cases "i < l")
    case True
    then have f: "unat ?f < l" unfolding fw by simp
    have "unat (?i + ?w) = i + l" using True lw iw assms(3) by (simp add: unat_word_ariths l_def)
    then have "unat (?i + ?w - ?f) = i + l - unat ?f" using f by (simp add: unat_sub_if')
    then have "unat ((?i + ?w - ?f) mod ?w) = (i + l - unat t div 200 mod l) mod l" by (subst unat_mod) (simp only: lw fw)
    then show ?thesis using True lw iw unat_ucast_64 [of speakers]
      by (simp add: rooms_speaking_def Let_def word_le_nat_alt word_less_nat_alt)
  next
    case False
    then show ?thesis using lw iw by (simp add: rooms_speaking_def Let_def word_le_nat_alt)
  qed
qed

text \<open>
  A \<open>rooms\<close> run measures what its name says: at every tick exactly the asked-for number of
  peers of each room speak, and the muted ones are not among them.
\<close>

theorem rooms_speakers_exact:
  fixes n speakers muted :: "32 word" and t :: "64 word"
  assumes "unat speakers + unat muted \<le> unat n" and "0 < unat speakers" and "room < 3" and "3 * unat n < 2 ^ 32"
  shows "card {i. i < unat n \<and> rooms_speaking n speakers muted (word_of_nat room * n + word_of_nat i) t = Some True} = unat speakers
    \<and> {i. i < unat n \<and> rooms_speaking n speakers muted (word_of_nat room * n + word_of_nat i) t = Some True} \<subseteq> {i. \<not> self_muted n muted (word_of_nat i)}"
proof -
  let ?l = "unat n - unat muted"
  have sp: "rooms_speaking n speakers muted (word_of_nat room * n + word_of_nat i) t
      = Some (i < ?l \<and> (i + ?l - unat t div 200 mod ?l) mod ?l < unat speakers)" if "i < unat n" for i
    using rooms_speaking_nat [OF _ assms(3,4) that] assms(1) by simp
  then have set: "{i. i < unat n \<and> rooms_speaking n speakers muted (word_of_nat room * n + word_of_nat i) t = Some True}
      = {i. i < ?l \<and> (i + ?l - unat t div 200 mod ?l) mod ?l < unat speakers}" by auto
  have "unat muted \<le> unat n" using assms(1) by simp
  then have "\<not> self_muted n muted (word_of_nat i)" if "i < ?l" for i
    using that unsigned_less [of n, where ?'a = nat] unat_of_nat_32 [of i]
    by (simp add: self_muted_def word_le_nat_alt unat_sub_if')
  then show ?thesis unfolding set using rotate_count [of "unat speakers" ?l "unat t div 200 mod ?l"] assms(1,2) by auto
qed

theorem rooms_speakers_exact_witness:
  "card {i. i < unat (10 :: 32 word) \<and> rooms_speaking 10 3 2 (word_of_nat 1 * 10 + word_of_nat i) 1000 = Some True} = 3"
  using rooms_speakers_exact [of 3 2 10 1 1000] by simp

section \<open>The churn scenario keeps its size\<close>

text \<open>The slot of a reconnecting peer, and what every tick keeps: identities are fresh, a slot has one peer.\<close>

definition churn_peers :: "load_run \<Rightarrow> load_peer list" where
  "churn_peers r = filter (\<lambda>p. 100 \<le> lp_idx p) (lr_peers r)"

definition slot_of :: "load_peer \<Rightarrow> 32 word" where
  "slot_of p = (lp_idx p - 100) mod 4"

definition churn_inv :: "load_run \<Rightarrow> bool" where
  "churn_inv r \<longleftrightarrow> distinct (map lp_ref (lr_peers r)) \<and> list_all (\<lambda>p. lp_ref p < lr_next r) (lr_peers r)
     \<and> distinct (map slot_of (churn_peers r))"

lemma churn_old_Some:
  "churn_old w r = Some p \<Longrightarrow> p \<in> set (churn_peers r) \<and> slot_of p = w"
  by (auto simp: churn_old_def churn_peers_def slot_of_def find_Some_iff in_set_conv_nth)

lemma churn_old_None: "churn_old w r = None \<longleftrightarrow> w \<notin> slot_of ` set (churn_peers r)"
  by (auto simp: churn_old_def churn_peers_def slot_of_def find_None_iff)

lemma load_leave_inv:
  assumes "churn_inv r" and "p \<in> set (churn_peers r)"
  shows "churn_inv (run_leave p r)" "slot_of p \<notin> slot_of ` set (churn_peers (run_leave p r))" "lr_next (run_leave p r) = lr_next r"
proof -
  have c: "churn_peers (run_leave p r) = filter (\<lambda>q. lp_ref q \<noteq> lp_ref p) (churn_peers r)"
    by (simp add: churn_peers_def run_leave_def conj_commute)
  show "churn_inv (run_leave p r)"
    using assms(1) by (auto simp: churn_inv_def c distinct_map_filter list_all_iff) (auto simp: run_leave_def distinct_map_filter)
  show "slot_of p \<notin> slot_of ` set (churn_peers (run_leave p r))"
  proof
    assume "slot_of p \<in> slot_of ` set (churn_peers (run_leave p r))"
    then obtain q where q: "q \<in> set (churn_peers r)" "lp_ref q \<noteq> lp_ref p" "slot_of q = slot_of p" by (auto simp: c)
    have "inj_on slot_of (set (churn_peers r))" using assms(1) by (simp add: churn_inv_def distinct_map)
    with q assms(2) show False by (auto dest: inj_onD)
  qed
qed (simp add: run_leave_def)

text \<open>Dropping the old peer of a slot, if there is one, frees the slot.\<close>

lemma load_drop_inv:
  assumes "churn_inv r"
  shows "churn_inv (drop_old (churn_old w r) r) \<and> w \<notin> slot_of ` set (churn_peers (drop_old (churn_old w r) r))"
proof (cases "churn_old w r")
  case None
  then show ?thesis using assms churn_old_None [of w r] by (simp add: drop_old_def)
next
  case (Some p)
  then show ?thesis using load_leave_inv [OF assms, of p] churn_old_Some [OF Some] by (simp add: drop_old_def)
qed

lemma load_join_inv:
  assumes "churn_inv r" and "(idx - 100) mod 4 \<notin> slot_of ` set (churn_peers r)"
  shows "churn_inv (snd (run_join ok idx opts r))"
  using assms by (auto simp: churn_inv_def run_join_def churn_peers_def slot_of_def list_all_iff Let_def)

lemma drop_join_commute:
  assumes "churn_inv r"
  shows "drop_old (churn_old w r) (snd (run_join ok idx opts r)) = snd (run_join ok idx opts (drop_old (churn_old w r) r))"
proof (cases "churn_old w r")
  case (Some p)
  then have "lp_ref p < lr_next r"
    using assms churn_old_Some [OF Some] by (auto simp: churn_inv_def churn_peers_def list_all_iff)
  then show ?thesis using Some by (simp add: drop_old_def run_join_def run_leave_def Let_def)
qed (simp add: drop_old_def)

lemma slot_of_index: "(100 + gen * 4 + gen mod 4 - 100) mod 4 = (gen mod 4 :: 32 word)"
proof -
  have "unat ((gen * 4 + gen mod 4) mod 4) = ((unat gen * 4) mod 2 ^ 32 + unat gen mod 4) mod 2 ^ 32 mod 4"
    by (simp add: unat_mod unat_word_ariths)
  also have "\<dots> = unat gen mod 4"
    by (subst mod_mod_cancel, simp, subst mod_add_left_eq [symmetric], subst mod_mod_cancel) simp_all
  finally have "unat ((gen * 4 + gen mod 4) mod 4) = unat (gen mod 4)" by (simp add: unat_mod)
  then show ?thesis by (simp add: word_unat_eq_iff add.assoc)
qed

lemma churn_tick_inv:
  assumes "churn_inv (snd st)"
  shows "churn_inv (snd (churn_tick ok st))"
proof -
  obtain gen r where st: "st = (gen, r)" by fastforce
  let ?w = "gen mod 4" and ?i = "100 + gen * 4 + gen mod 4"
  let ?o = "join_opts ?i ''room1'' False False 2 (Some (''churn-'' @ dec (unat ?w)))"
  have d: "churn_inv (drop_old (churn_old ?w r) r)" "?w \<notin> slot_of ` set (churn_peers (drop_old (churn_old ?w r) r))"
    using load_drop_inv assms by (auto simp: st)
  have j: "churn_inv (snd (run_join ok ?i ?o (drop_old (churn_old ?w r) r)))"
    by (rule load_join_inv) (use d slot_of_index [of gen] in simp_all)
  show ?thesis
  proof (cases "gen mod 2 = 0")
    case True
    then show ?thesis using j by (simp add: churn_tick_def st Let_def)
  next
    case False
    have "gen mod 2 = 1 \<or> gen mod 2 = 0"
      by (simp add: word_unat_eq_iff unat_mod) arith
    with False have "snd (churn_tick ok st) = snd (run_join ok ?i ?o (drop_old (churn_old ?w r) r))"
      using drop_join_commute [of r ?w ok ?i ?o] assms by (simp add: churn_tick_def st Let_def)
    with j show ?thesis by (simp only:)
  qed
qed

text \<open>The joins of a scenario with their outcomes; a run starts empty.\<close>

definition join_all :: "bool list \<Rightarrow> (32 word \<times> peer_opts) list \<Rightarrow> load_run \<Rightarrow> load_run" where
  "join_all oks js r = fold (\<lambda>(ok, idx, opts) r. snd (run_join ok idx opts r)) (zip oks js) r"

definition new_run :: load_run where
  "new_run = \<lparr>lr_next = 0, lr_peers = [], lr_finished = [], lr_connect_errors = 0\<rparr>"

definition churn_run :: "bool list \<Rightarrow> bool list \<Rightarrow> load_run" where
  "churn_run oks ticks = snd (foldl (\<lambda>st ok. churn_tick ok st) (0, join_all oks (scenario_joins Churn) new_run) ticks)"

lemma steady_joins:
  assumes "list_all (\<lambda>j. fst j < 100) js" and "churn_inv r" and "churn_peers r = []"
  shows "churn_inv (join_all oks js r) \<and> churn_peers (join_all oks js r) = []"
  using assms
proof (induction js arbitrary: oks r)
  case (Cons j js)
  show ?case
  proof (cases oks)
    case (Cons ok os)
    let ?r = "snd (run_join ok (fst j) (snd j) r)"
    have "churn_inv ?r" "churn_peers ?r = []"
      using Cons.prems by (auto simp: churn_inv_def churn_peers_def run_join_def list_all_iff Let_def)
    with Cons.IH [of ?r os] Cons.prems Cons show ?thesis by (simp add: join_all_def case_prod_beta)
  qed (use Cons.prems in \<open>simp add: join_all_def\<close>)
qed (simp add: join_all_def)

text \<open>
  However the connects of a churn run turn out, after every tick each of its four reconnecting
  participants is connected at most once: an overlapped session is always dropped, whether its
  successor got in or not.
\<close>

theorem churn_keeps_size:
  "distinct (map slot_of (churn_peers (churn_run oks ticks))) \<and> length (churn_peers (churn_run oks ticks)) \<le> 4"
proof -
  have "list_all (\<lambda>j. fst j < 100) (scenario_joins Churn)" by (simp add: scale_joins_def upt_rec)
  then have "churn_inv (join_all oks (scenario_joins Churn) new_run)"
    using steady_joins [of "scenario_joins Churn" new_run oks] by (simp add: churn_inv_def churn_peers_def new_run_def)
  then have "churn_inv (snd (foldl (\<lambda>st ok. churn_tick ok st) (0, join_all oks (scenario_joins Churn) new_run) ticks))"
    by (induction ticks rule: rev_induct) (simp_all add: churn_tick_inv)
  then have d: "distinct (map slot_of (churn_peers (churn_run oks ticks)))" by (simp add: churn_inv_def churn_run_def)
  have "slot_of p \<in> {0, 1, 2, 3}" for p
  proof -
    have "unat (slot_of p) < 4" by (simp add: slot_of_def unat_mod)
    then have "unat (slot_of p) \<in> {0, 1, 2, 3}" by auto
    then show ?thesis by (simp add: word_unat_eq_iff)
  qed
  then have "card (set (map slot_of (churn_peers (churn_run oks ticks)))) \<le> card {0, 1, 2, 3 :: 32 word}"
    by (intro card_mono) auto
  with d show ?thesis using distinct_card [OF d] by simp
qed

end
