(* ===== verification/ConnFile.thy ===== *)
theory ConnFile
  imports ConnPass Secrets Wire
begin

text \<open>
  The connection passwords on disk: the file format of \<open>backend/src/auth/connpass.rs\<close> and the times
  in it, from \<open>backend/src/util.rs\<close>. The calendar and the RFC 3339 parser are the \<open>time\<close> crate's and
  an argument, as is the text of JSON values; their documented behaviour is a named hypothesis.
\<close>

section \<open>The code: times as text\<close>

record date_parts =
  dp_year :: nat
  dp_month :: nat
  dp_day :: nat
  dp_hour :: nat
  dp_minute :: nat
  dp_second :: nat
  dp_nanos :: nat

record time_lib =
  tl_parts :: "instant \<Rightarrow> date_parts"
  tl_parse :: "string \<Rightarrow> instant option"

text \<open>\<open>{:04}\<close> and the like.\<close>

definition pad :: "nat \<Rightarrow> nat \<Rightarrow> string" where
  "pad w n = replicate (w - length (dec n)) (CHR ''0'') @ dec n"

definition date_text :: "date_parts \<Rightarrow> string" where
  "date_text p =
     pad 4 (dp_year p) @ CHR ''-'' # pad 2 (dp_month p) @ CHR ''-'' # pad 2 (dp_day p) @ CHR ''T'' # pad 2 (dp_hour p)
       @ CHR '':'' # pad 2 (dp_minute p) @ CHR '':'' # pad 2 (dp_second p)"

definition trim_zeros :: "string \<Rightarrow> string" where
  "trim_zeros s = rev (dropWhile (\<lambda>c. c = CHR ''0'') (rev s))"

definition rfc3339_nano :: "time_lib \<Rightarrow> instant \<Rightarrow> string" where
  "rfc3339_nano L t =
     (let dt = tl_parts L t; nanos = dp_nanos dt
      in date_text dt @ (if nanos \<noteq> 0 then CHR ''.'' # trim_zeros (pad 9 nanos) else []) @ ''Z'')"

definition parse_rfc3339 :: "time_lib \<Rightarrow> string \<Rightarrow> instant option" where
  "parse_rfc3339 L s = tl_parse L s"

text \<open>The serde adapter and its variant for optional times.\<close>

definition ser_time :: "time_lib \<Rightarrow> instant \<Rightarrow> json" where
  "ser_time L t = JStr (rfc3339_nano L t)"

definition de_time :: "time_lib \<Rightarrow> json \<Rightarrow> instant option" where
  "de_time L j = Option.bind (de_string j) (parse_rfc3339 L)"

definition ser_time_opt :: "time_lib \<Rightarrow> instant option \<Rightarrow> json" where
  "ser_time_opt L t = (case t of Some t \<Rightarrow> ser_time L t | None \<Rightarrow> JNull)"

definition de_time_opt :: "time_lib \<Rightarrow> json \<Rightarrow> instant option option" where
  "de_time_opt L j =
     (case de_option de_string j of
        None \<Rightarrow> None
      | Some None \<Rightarrow> Some None
      | Some (Some s) \<Rightarrow>
          if starts_with ''0001-01-01T00:00:00'' s then Some None else map_option Some (parse_rfc3339 L s))"

section \<open>The code: the file\<close>

definition CONN_PASS_FILE :: string where "CONN_PASS_FILE = ''connection-password.json''"
definition FILE_VERSION :: int where "FILE_VERSION = 2"

definition ser_entry :: "time_lib \<Rightarrow> cp_entry \<Rightarrow> json" where
  "ser_entry L e =
     JObj ([(''id'', JStr (cp_id e)), (''label'', JStr (cp_label e)), (''hash'', JStr (cp_hash e)),
            (''generation'', JNum (uint (cp_generation e))), (''created_at'', ser_time L (cp_created_at e))]
       @ unless (cp_expires_at e = None) ''expires_at'' (ser_time_opt L (cp_expires_at e)))"

definition de_entry :: "time_lib \<Rightarrow> json \<Rightarrow> cp_entry option" where
  "de_entry L j =
     (case struct_fields [(''id'', False), (''label'', False), (''hash'', False), (''generation'', False),
                          (''created_at'', False), (''expires_at'', True)] j of
        Some [i, l, h, g, c, x] \<Rightarrow>
          do { i \<leftarrow> required de_string i; l \<leftarrow> required de_string l; h \<leftarrow> required de_string h;
               g \<leftarrow> required (de_uint 64) g; c \<leftarrow> required (de_time L) c; x \<leftarrow> or_default None (de_time_opt L) x;
               Some \<lparr>cp_id = i, cp_label = l, cp_hash = h, cp_generation = word_of_int g, cp_created_at = c, cp_expires_at = x\<rparr> }
      | _ \<Rightarrow> None)"

definition ser_file :: "time_lib \<Rightarrow> cp_entry list \<Rightarrow> json" where
  "ser_file L es = JObj [(''version'', JNum FILE_VERSION), (''entries'', ser_list (ser_entry L) es)]"

text \<open>\<open>null_as_empty\<close> is the None inside.\<close>

definition de_file :: "time_lib \<Rightarrow> json \<Rightarrow> cp_entry list option option" where
  "de_file L j =
     (case struct_fields [(''version'', False), (''entries'', False)] j of
        Some [v, es] \<Rightarrow> do { _ \<leftarrow> required (de_uint 32) v; required (de_option (de_list (de_entry L))) es }
      | _ \<Rightarrow> None)"

text \<open>\<open>load\<close> up to the entries; \<open>read_ok\<close>: an existing file can be read.\<close>

definition read_conn_file :: "time_lib \<Rightarrow> (string \<Rightarrow> json option) \<Rightarrow> bool \<Rightarrow> disk \<Rightarrow> read_result" where
  "read_conn_file L rd read_ok d =
     (case d CONN_PASS_FILE of
        None \<Rightarrow> FileAbsent
      | Some data \<Rightarrow>
          if \<not> read_ok then ReadFailed ''io''
          else (case Option.bind (rd data) (de_file L) of None \<Rightarrow> ParseFailed ''json'' | Some es \<Rightarrow> FileHolds es))"

text \<open>\<open>persist\<close>: what is written, and how; \<open>wr\<close> is the pretty printer.\<close>

definition persist_file ::
  "time_lib \<Rightarrow> (json \<Rightarrow> string) \<Rightarrow> write_fault \<Rightarrow> 8 word list \<Rightarrow> cp_entry list \<Rightarrow> disk \<Rightarrow> disk_op list \<times> bool" where
  "persist_file L wr fault rnd es d = atomic_write fault rnd CONN_PASS_FILE (wr (ser_file L es)) d"

section \<open>Times are read back\<close>

text \<open>The nanoseconds a fraction of at most nine digits stands for.\<close>

definition frac_value :: "string \<Rightarrow> nat" where
  "frac_value f = undec (f @ replicate (9 - length f) (CHR ''0''))"

definition frac_text :: "string \<Rightarrow> string" where
  "frac_text f = (if f = [] then [] else CHR ''.'' # f)"

text \<open>
  For a time before the year 10000, the last the \<open>time\<close> crate holds: the calendar gives a year
  since 1970 and less than a second of nanoseconds, and the parser takes a date with any fraction for
  the same nanoseconds, in UTC. An instant counts nanoseconds since 1970.
\<close>

definition year_10000 :: instant where "year_10000 = 253402300800 * 10 ^ 9"

definition time_lib_ok :: "time_lib \<Rightarrow> bool" where
  "time_lib_ok L \<longleftrightarrow>
     (\<forall>t<year_10000. 1970 \<le> dp_year (tl_parts L t) \<and> dp_nanos (tl_parts L t) < 10 ^ 9
        \<and> (\<forall>f. list_all is_digit f \<and> length f \<le> 9 \<and> frac_value f = dp_nanos (tl_parts L t)
             \<longrightarrow> tl_parse L (date_text (tl_parts L t) @ frac_text f @ ''Z'') = Some t))"

text \<open>The times of an entry are instants the crate holds.\<close>

definition dated :: "cp_entry \<Rightarrow> bool" where
  "dated e \<longleftrightarrow> cp_created_at e < year_10000 \<and> pred_option (\<lambda>t. t < year_10000) (cp_expires_at e)"

lemma dec_len: "n < 10 ^ k \<Longrightarrow> 0 < k \<Longrightarrow> length (dec n) \<le> k"
proof (induction k arbitrary: n)
  case (Suc k)
  show ?case
  proof (cases "n < 10")
    case True
    then show ?thesis by (simp add: dec.simps)
  next
    case False
    with Suc.prems have "n div 10 < 10 ^ k" "0 < k" by (auto simp: less_mult_imp_div_less mult.commute intro: gr0I)
    with Suc.IH [of "n div 10"] False show ?thesis by (subst dec.simps) simp
  qed
qed simp

lemma is_digit_pad: "list_all is_digit (pad w n)"
  using dec_digits by (auto simp: pad_def list_all_iff is_digit_def)

lemma length_pad: "n < 10 ^ k \<Longrightarrow> 0 < k \<Longrightarrow> length (pad k n) = k"
  using dec_len [of n k] by (simp add: pad_def)

lemma undec_zeros [simp]: "undec (replicate k (CHR ''0'') @ s) = undec s"
  by (induction k) (simp_all add: undec_def)

lemma frac_value_Nil [simp]: "frac_value [] = 0"
  using undec_zeros [of 9 "[]"] by (simp only: frac_value_def append_Nil append_Nil2 list.size diff_zero) (simp add: undec_def)

lemma undec_pad [simp]: "undec (pad w n) = n"
  by (simp add: pad_def)

lemma trim_zeros_append: "\<exists>k. s = trim_zeros s @ replicate k (CHR ''0'')"
proof (induction s rule: rev_induct)
  case (snoc c s)
  then obtain k where k: "s = trim_zeros s @ replicate k (CHR ''0'')" by blast
  show ?case
  proof (cases "c = CHR ''0''")
    case True
    with k have "s @ [c] = trim_zeros (s @ [c]) @ replicate (Suc k) (CHR ''0'')"
      by (simp add: trim_zeros_def flip: replicate_append_same)
    then show ?thesis by blast
  qed (simp add: trim_zeros_def)
qed (simp add: trim_zeros_def)

text \<open>The trimmed fraction stands for the same nanoseconds, and is not empty unless they are none.\<close>

lemma trimmed_fraction:
  assumes "n < 10 ^ 9" and "n \<noteq> 0"
  shows "list_all is_digit (trim_zeros (pad 9 n))" "length (trim_zeros (pad 9 n)) \<le> 9"
    "frac_value (trim_zeros (pad 9 n)) = n" "trim_zeros (pad 9 n) \<noteq> []"
proof -
  obtain k where k: "pad 9 n = trim_zeros (pad 9 n) @ replicate k (CHR ''0'')" using trim_zeros_append by blast
  have len: "length (pad 9 n) = 9" using length_pad [OF assms(1)] by simp
  show d: "list_all is_digit (trim_zeros (pad 9 n))" using is_digit_pad [of 9 n] by (subst (asm) k) simp
  show l: "length (trim_zeros (pad 9 n)) \<le> 9" using arg_cong [OF k, of length] len by simp
  have "k = 9 - length (trim_zeros (pad 9 n))" using arg_cong [OF k, of length] len by simp
  then show v: "frac_value (trim_zeros (pad 9 n)) = n" unfolding frac_value_def using k undec_pad [of 9 n] by metis
  show "trim_zeros (pad 9 n) \<noteq> []" using v assms(2) by auto
qed

lemma time_back: "time_lib_ok L \<Longrightarrow> t < year_10000 \<Longrightarrow> parse_rfc3339 L (rfc3339_nano L t) = Some t"
proof -
  assume L: "time_lib_ok L" and t: "t < year_10000"
  let ?p = "tl_parts L t"
  have n: "dp_nanos ?p < 10 ^ 9" using L t by (auto simp: time_lib_ok_def)
  have law: "list_all is_digit f \<Longrightarrow> length f \<le> 9 \<Longrightarrow> frac_value f = dp_nanos ?p
      \<Longrightarrow> tl_parse L (date_text ?p @ frac_text f @ ''Z'') = Some t" for f
    using L t by (auto simp: time_lib_ok_def)
  show ?thesis
  proof (cases "dp_nanos ?p = 0")
    case True
    with law [of "[]"] True show ?thesis by (simp add: parse_rfc3339_def rfc3339_nano_def frac_text_def)
  next
    case False
    from trimmed_fraction [OF n this] law [of "trim_zeros (pad 9 (dp_nanos ?p))"] False show ?thesis
      by (simp add: parse_rfc3339_def rfc3339_nano_def frac_text_def Let_def)
  qed
qed


lemma time_not_zero:
  assumes "time_lib_ok L" and "t < year_10000"
  shows "\<not> starts_with ''0001-01-01T00:00:00'' (rfc3339_nano L t)"
proof
  assume "starts_with ''0001-01-01T00:00:00'' (rfc3339_nano L t)"
  then obtain z where z: "rfc3339_nano L t = ''0001-01-01T00:00:00'' @ z"
    unfolding starts_with_def by (metis append_take_drop_id)
  have "takeWhile is_digit (rfc3339_nano L t) = pad 4 (dp_year (tl_parts L t))"
    using is_digit_pad [of 4] by (simp add: rfc3339_nano_def date_text_def Let_def takeWhile_append list_all_iff is_digit_def)
  moreover have "takeWhile is_digit (rfc3339_nano L t) = ''0001''" by (simp add: z is_digit_def)
  ultimately have "dp_year (tl_parts L t) = undec ''0001''" by (metis undec_pad)
  then show False using assms by (auto simp: time_lib_ok_def undec_def dest!: spec [of _ t])
qed

lemma de_time_back: "time_lib_ok L \<Longrightarrow> t < year_10000 \<Longrightarrow> de_time L (ser_time L t) = Some t"
  by (simp add: de_time_def ser_time_def time_back)

lemma de_time_opt_back: "time_lib_ok L \<Longrightarrow> pred_option (\<lambda>t. t < year_10000) t \<Longrightarrow> de_time_opt L (ser_time_opt L t) = Some t"
  by (cases t) (simp_all add: de_time_opt_def ser_time_opt_def ser_time_def de_option_def time_back time_not_zero)

section \<open>The file is read back\<close>

lemma de_u64_back: "de_uint 64 (JNum (uint (w :: 64 word))) = Some (uint w)"
proof -
  have "0 \<le> uint w \<and> uint w \<le> 2 ^ 64 - 1" using unsigned_less [of w, where ?'a = int] by simp
  then show ?thesis unfolding de_uint_def de_int.simps by (rule if_P)
qed

lemma entry_back: "time_lib_ok L \<Longrightarrow> dated e \<Longrightarrow> de_entry L (ser_entry L e) = Some e"
  by (cases "cp_expires_at e")
    (simp_all add: dated_def de_entry_def ser_entry_def serde_simps Let_def unless_def de_time_back de_time_opt_back de_u64_back)

text \<open>Under the hypothesis on the \<open>time\<close> crate an entry is a type on the wire.\<close>

lemma entry_wire: "time_lib_ok L \<Longrightarrow> wire_type (ser_entry L) (de_entry L) dated"
  by unfold_locales (rule entry_back)

lemma file_back: "time_lib_ok L \<Longrightarrow> list_all dated es \<Longrightarrow> de_file L (ser_file L es) = Some (Some es)"
proof -
  assume L: "time_lib_ok L" and d: "list_all dated es"
  have es: "de_list (de_entry L) (ser_list (ser_entry L) es) = Some es"
    using wire_type.list_back [OF entry_wire [OF L], of es] d by simp
  have "de_uint 32 (JNum FILE_VERSION) = Some FILE_VERSION" by (simp add: FILE_VERSION_def de_uint_def)
  with es show ?thesis
    by (simp add: de_file_def ser_file_def serde_simps Let_def de_option_def) (simp add: ser_list_def)
qed

text \<open>
  The operations of the store only write such times, as long as the clock is more than the longest
  lifetime of a password, a year and a day, before that year.
\<close>

lemma dated_expiry:
  "now + d < year_10000 \<Longrightarrow> (\<forall>d'. t = For d' \<longrightarrow> d' \<le> d) \<Longrightarrow> pred_option (\<lambda>t. t < year_10000) (expiry_for now t)"
  by (cases t) (auto simp: expiry_for_def)

lemma dated_update_first:
  "list_all dated es \<Longrightarrow> (\<And>e. dated e \<Longrightarrow> dated (f e)) \<Longrightarrow> list_all dated (update_first i f es)"
  by (induction es) auto

lemma dated_remove_first: "list_all dated es \<Longrightarrow> list_all dated (remove_first i es)"
  by (induction es) auto

lemma cs_entries_mutate:
  "cs_entries (snd (mutate i f io st)) \<in> {cs_entries st, update_first i f (cs_entries st)}"
  by (simp add: mutate_def persist_def split: option.split)

lemma dated_mutate:
  "list_all dated (cs_entries st) \<Longrightarrow> (\<And>e. dated e \<Longrightarrow> dated (f e)) \<Longrightarrow> list_all dated (cs_entries (snd (mutate i f io st)))"
  using cs_entries_mutate [of i f io st] dated_update_first [of "cs_entries st" f i] by auto

lemma stored_times_dated:
  assumes "list_all dated (cs_entries st)" and "now + d < year_10000" and "\<forall>d'. t = For d' \<longrightarrow> d' \<le> d"
  shows "list_all dated (cs_entries (snd (create label t plain h i now io st)))"
    "list_all dated (cs_entries (snd (set_ttl i t now io st)))"
    "list_all dated (cs_entries (snd (rotate i plain h now io st)))"
    "list_all dated (cs_entries (snd (rename i label io st)))"
    "list_all dated (cs_entries (snd (revoke i io st)))"
proof -
  have x: "pred_option (\<lambda>t. t < year_10000) (expiry_for now t)" by (rule dated_expiry [OF assms(2,3)])
  then show "list_all dated (cs_entries (snd (create label t plain h i now io st)))"
    using assms by (simp add: create_def persist_def Let_def dated_def split: option.split)
  have "list_all dated (cs_entries (snd (mutate i (\<lambda>e. e\<lparr>cp_expires_at := expiry_for now t\<rparr>) io st)))"
    by (rule dated_mutate [OF assms(1)]) (use x in \<open>simp add: dated_def\<close>)
  then show "list_all dated (cs_entries (snd (set_ttl i t now io st)))"
    by (auto simp: set_ttl_def split: prod.split sum.split)
  have "list_all dated (cs_entries (snd (mutate i (\<lambda>e. e\<lparr>cp_hash := h, cp_generation := cp_generation e + 1, cp_created_at := now\<rparr>) io st)))"
    by (rule dated_mutate [OF assms(1)]) (use assms(2) in \<open>simp add: dated_def\<close>)
  then show "list_all dated (cs_entries (snd (rotate i plain h now io st)))"
    by (auto simp: rotate_def split: prod.split sum.split)
  have "list_all dated (cs_entries (snd (mutate i (\<lambda>e. e\<lparr>cp_label := normalize_label label\<rparr>) io st)))"
    by (rule dated_mutate [OF assms(1)]) (simp add: dated_def)
  then show "list_all dated (cs_entries (snd (rename i label io st)))"
    by (auto simp: rename_def split: prod.split sum.split)
  show "list_all dated (cs_entries (snd (revoke i io st)))"
    using assms(1) dated_remove_first [OF assms(1)] by (simp add: revoke_def persist_def split: option.split)
qed

text \<open>
  C35. No connection password is lost to a crash. Wherever the writing of the file stops, the next
  start loads the passwords as they were or as they were to be, all of them with their expiry to the
  nanosecond; and once the write reported success, the new ones.
\<close>

theorem crash_keeps_passwords:
  assumes "time_lib_ok L" and "list_all dated old" and "list_all dated new"
    and "rd (wr (ser_file L old)) = Some (ser_file L old)"
    and "rd (wr (ser_file L new)) = Some (ser_file L new)"
    and "d CONN_PASS_FILE = Some (wr (ser_file L old))" and "persist_file L wr fault rnd new d = (ops, ok)"
  shows "load_store (read_conn_file L rd True (run_disk (take k ops) d))
      \<in> {Inr \<lparr>cs_entries = old, cs_file = Some old\<rparr>, Inr \<lparr>cs_entries = new, cs_file = Some new\<rparr>}
    \<and> load_store (read_conn_file L rd True (run_disk ops d))
      = Inr (if ok then \<lparr>cs_entries = new, cs_file = Some new\<rparr> else \<lparr>cs_entries = old, cs_file = Some old\<rparr>)"
proof -
  have l: "load_store (read_conn_file L rd True d') = Inr \<lparr>cs_entries = es, cs_file = Some es\<rparr>"
    if "d' CONN_PASS_FILE = Some (wr (ser_file L es))" "rd (wr (ser_file L es)) = Some (ser_file L es)" "list_all dated es" for d' es
    using that file_back [OF assms(1), of es] by (simp add: read_conn_file_def load_store_def)
  have w: "run_disk (take k ops) d CONN_PASS_FILE \<in> {d CONN_PASS_FILE, Some (wr (ser_file L new))}"
    "run_disk ops d CONN_PASS_FILE = (if ok then Some (wr (ser_file L new)) else d CONN_PASS_FILE)"
    using replaced_as_a_whole [OF assms(7) [unfolded persist_file_def], of k] by auto
  have "load_store (read_conn_file L rd True (run_disk (take k ops) d))
      \<in> {Inr \<lparr>cs_entries = old, cs_file = Some old\<rparr>, Inr \<lparr>cs_entries = new, cs_file = Some new\<rparr>}"
    using w(1) l [of "run_disk (take k ops) d" old] l [of "run_disk (take k ops) d" new] assms(2-6) by auto
  moreover have "load_store (read_conn_file L rd True (run_disk ops d))
      = Inr (if ok then \<lparr>cs_entries = new, cs_file = Some new\<rparr> else \<lparr>cs_entries = old, cs_file = Some old\<rparr>)"
    using w(2) l [of "run_disk ops d" old] l [of "run_disk ops d" new] assms(2-6) by auto
  ultimately show ?thesis by blast
qed


section \<open>An example\<close>

text \<open>A calendar whose only minute never ends, and its parser; a printer that knows two files.\<close>

definition toy_time :: time_lib where
  "toy_time =
     \<lparr>tl_parts = (\<lambda>t. \<lparr>dp_year = 1970, dp_month = 1, dp_day = 1, dp_hour = 0, dp_minute = 0, dp_second = t div 10 ^ 9, dp_nanos = t mod 10 ^ 9\<rparr>),
      tl_parse = (\<lambda>s. let r = drop 17 s; f = takeWhile is_digit (drop 1 (dropWhile is_digit r))
                      in Some (undec (takeWhile is_digit r) * 10 ^ 9 + frac_value f))\<rparr>"

lemma toy_date:
  "date_text (tl_parts toy_time t) = ''1970-01-01T00:00:'' @ pad 2 (t div 10 ^ 9)"
proof -
  have "pad 4 1970 = ''1970''" "pad 2 1 = ''01''" "pad 2 0 = ''00''" by code_simp+
  then show ?thesis by (simp add: date_text_def toy_time_def)
qed

lemma toy_time_ok: "time_lib_ok toy_time"
proof -
  have "tl_parse toy_time (date_text (tl_parts toy_time t) @ frac_text f @ ''Z'') = Some t"
    if f: "list_all is_digit f" "frac_value f = t mod 10 ^ 9" for t f
  proof -
    let ?r = "pad 2 (t div 10 ^ 9) @ frac_text f @ ''Z''"
    have p: "list_all is_digit (pad 2 (t div 10 ^ 9))" by (rule is_digit_pad)
    have "drop 17 (date_text (tl_parts toy_time t) @ frac_text f @ ''Z'') = ?r" by (simp add: toy_date)
    moreover have "takeWhile is_digit ?r = pad 2 (t div 10 ^ 9)" "dropWhile is_digit ?r = frac_text f @ ''Z''"
      using p by (auto simp: list_all_iff frac_text_def takeWhile_append dropWhile_append is_digit_def)
    moreover have "takeWhile is_digit (drop 1 (frac_text f @ ''Z'')) = f"
      using f(1) by (auto simp: frac_text_def list_all_iff takeWhile_append is_digit_def)
    ultimately show ?thesis using f(2) by (simp add: toy_time_def Let_def)
  qed
  then show ?thesis by (auto simp: time_lib_ok_def) (simp_all add: toy_time_def)
qed

theorem crash_keeps_passwords_witness:
  "\<exists>ops rd wr. persist_file toy_time wr NoFault [] [] [CONN_PASS_FILE \<mapsto> wr (ser_file toy_time [\<lparr>cp_id = ''ab12'', cp_label = [], cp_hash = [],
      cp_generation = 3, cp_created_at = 5, cp_expires_at = Some 1000000001\<rparr>])] = (ops, True)
    \<and> load_store (read_conn_file toy_time rd True (run_disk ops [CONN_PASS_FILE \<mapsto> wr (ser_file toy_time [\<lparr>cp_id = ''ab12'', cp_label = [], cp_hash = [],
      cp_generation = 3, cp_created_at = 5, cp_expires_at = Some 1000000001\<rparr>])])) = Inr \<lparr>cs_entries = [], cs_file = Some []\<rparr>"
proof -
  let ?old = "[\<lparr>cp_id = ''ab12'', cp_label = [], cp_hash = [], cp_generation = 3, cp_created_at = 5, cp_expires_at = Some 1000000001\<rparr>]"
  let ?wr = "\<lambda>j. if j = ser_file toy_time [] then ''new'' else ''old''"
  let ?rd = "\<lambda>s. Some (ser_file toy_time (if s = ''new'' then [] else ?old))"
  let ?d = "[CONN_PASS_FILE \<mapsto> ?wr (ser_file toy_time ?old)]"
  have ne: "ser_file toy_time ?old \<noteq> ser_file toy_time []" by (simp add: ser_file_def ser_list_def)
  have "?d (temp_name CONN_PASS_FILE []) = None" by (simp add: temp_name_def CONN_PASS_FILE_def)
  then have "\<exists>ops. persist_file toy_time ?wr NoFault [] [] ?d = (ops, True)"
    by (simp add: persist_file_def atomic_write_def Let_def)
  then obtain ops where w: "persist_file toy_time ?wr NoFault [] [] ?d = (ops, True)" by blast
  have "load_store (read_conn_file toy_time ?rd True (run_disk ops ?d)) = Inr \<lparr>cs_entries = [], cs_file = Some []\<rparr>"
    using crash_keeps_passwords [OF toy_time_ok _ _ _ _ _ w, of ?old ?rd] ne by (simp add: dated_def year_10000_def)
  with w show ?thesis by blast
qed

end
