(* ===== verification/Rtc.thy ===== *)
theory Rtc
  imports ScreenMedia Util
begin

text \<open>
  \<open>backend/src/sfu/rtc.rs\<close>: how every PeerConnection is configured - its codecs, header extensions
  and credentials - as the record that is handed to str0m, and what that means for the media a
  publisher can negotiate.
\<close>

section \<open>The code\<close>

definition PT_OPUS :: nat where "PT_OPUS = 111"
definition PT_AV1 :: nat where "PT_AV1 = 45"
definition PT_AV1_RTX :: nat where "PT_AV1_RTX = 46"
definition PT_VP9 :: nat where "PT_VP9 = 98"
definition PT_VP9_RTX :: nat where "PT_VP9_RTX = 99"

definition DD_EXT_ID :: nat where "DD_EXT_ID = 12"
definition MID_EXT_ID :: nat where "MID_EXT_ID = 4"
definition VIDEO_SEND_BUFFER :: nat where "VIDEO_SEND_BUFFER = 256"

definition RTP_EXTENSION_URI :: string where
  "RTP_EXTENSION_URI = ''https://aomediacodec.github.io/av1-rtp-spec/#dependency-descriptor-rtp-header-extension''"

text \<open>The extensions by id; \<open>StdExt\<close> is one of str0m's own.\<close>

datatype extension = DdExt string | RtpMid | StdExt string

record format_params =
  fp_min_p_time :: "nat option"
  fp_use_inband_fec :: "bool option"
  fp_use_dtx :: "bool option"
  fp_stereo :: "bool option"
  fp_level_idx :: "nat option"
  fp_profile :: "nat option"
  fp_tier :: "nat option"

definition default_format :: format_params where
  "default_format =
     \<lparr>fp_min_p_time = None, fp_use_inband_fec = None, fp_use_dtx = None, fp_stereo = None, fp_level_idx = None,
      fp_profile = None, fp_tier = None\<rparr>"

record payload_params =
  pp_pt :: nat
  pp_resend :: "nat option"
  pp_codec :: str0m_codec
  pp_clock_rate :: nat
  pp_channels :: "nat option"
  pp_format :: format_params
  pp_fb_fir :: bool
  pp_fb_remb :: bool

text \<open>\<open>PayloadParams::new\<close>; \<open>fb\<close> is how str0m starts the feedback flags.\<close>

definition new_params :: "bool \<Rightarrow> nat \<Rightarrow> nat option \<Rightarrow> str0m_codec \<Rightarrow> nat \<Rightarrow> nat option \<Rightarrow> format_params \<Rightarrow> payload_params" where
  "new_params fb pt resend codec clock_rate channels format =
     \<lparr>pp_pt = pt, pp_resend = resend, pp_codec = codec, pp_clock_rate = clock_rate, pp_channels = channels,
      pp_format = format, pp_fb_fir = fb, pp_fb_remb = fb\<rparr>"

definition codec_params :: "bool \<Rightarrow> bool \<Rightarrow> payload_params list" where
  "codec_params fb av1 =
     (let params =
        [new_params fb PT_OPUS None OpusC 48000 (Some 2)
           (default_format\<lparr>fp_min_p_time := Some 10, fp_use_inband_fec := Some True, fp_use_dtx := Some True, fp_stereo := Some False\<rparr>),
         new_params fb PT_AV1 (Some PT_AV1_RTX) Av1S 90000 None
           (default_format\<lparr>fp_level_idx := Some 5, fp_profile := Some 0, fp_tier := Some 0\<rparr>),
         new_params fb PT_VP9 (Some PT_VP9_RTX) Vp9S 90000 None default_format];
          params = (if av1 then params else filter (\<lambda>p. pp_codec p \<noteq> Av1S) params)
      in map (\<lambda>p. p\<lparr>pp_fb_fir := False, pp_fb_remb := False\<rparr>) params)"

record rtc_config =
  rc_rtp_mode :: bool
  rc_ufrag :: string
  rc_pass :: string
  rc_send_buffer_video :: nat
  rc_extensions :: "nat \<Rightarrow> extension option"
  rc_stats_interval :: "duration option"
  rc_params :: "payload_params list"
  rc_candidate :: string

text \<open>\<open>std\<close> is str0m's standard extension map; \<open>u\<close> and \<open>p\<close> are the random bytes of the credentials.\<close>

definition build_cfg ::
  "(nat \<Rightarrow> extension option) \<Rightarrow> bool \<Rightarrow> 8 word list \<Rightarrow> 8 word list \<Rightarrow> string \<Rightarrow> bool \<Rightarrow> bool \<Rightarrow> bool \<Rightarrow> rtc_config \<times> string" where
  "build_cfg std fb u p public_addr stats av1 audio_only =
     (let ext = std(DD_EXT_ID \<mapsto> DdExt RTP_EXTENSION_URI);
          ext = (if audio_only then [MID_EXT_ID \<mapsto> RtpMid] else ext)
      in (\<lparr>rc_rtp_mode = True, rc_ufrag = hex u, rc_pass = hex p, rc_send_buffer_video = VIDEO_SEND_BUFFER,
           rc_extensions = ext, rc_stats_interval = (if stats then Some (secs 1) else None),
           rc_params = codec_params fb av1, rc_candidate = public_addr\<rparr>, hex u))"

definition build ::
  "(nat \<Rightarrow> extension option) \<Rightarrow> bool \<Rightarrow> 8 word list \<Rightarrow> 8 word list \<Rightarrow> string \<Rightarrow> bool \<Rightarrow> rtc_config \<times> string" where
  "build std fb u p public_addr stats = build_cfg std fb u p public_addr stats True False"

definition build_audio ::
  "(nat \<Rightarrow> extension option) \<Rightarrow> bool \<Rightarrow> 8 word list \<Rightarrow> 8 word list \<Rightarrow> string \<Rightarrow> rtc_config \<times> string" where
  "build_audio std fb u p public_addr = build_cfg std fb u p public_addr False True True"

definition build_with ::
  "(nat \<Rightarrow> extension option) \<Rightarrow> bool \<Rightarrow> 8 word list \<Rightarrow> 8 word list \<Rightarrow> string \<Rightarrow> bool \<Rightarrow> bool \<Rightarrow> rtc_config \<times> string" where
  "build_with std fb u p public_addr stats av1 = build_cfg std fb u p public_addr stats av1 False"

text \<open>
  The table is the PeerConnection's own at the time of the call: str0m starts it from the
  configuration and rewrites it when it accepts an offer.
\<close>

definition codec_of_pt :: "payload_params list \<Rightarrow> nat \<Rightarrow> str0m_codec option" where
  "codec_of_pt table pt = map_option pp_codec (List.find (\<lambda>p. pp_pt p = pt) table)"

text \<open>\<open>sub_video_pt\<close> of \<open>screen.rs\<close>: the payload type a viewer gets a codec under.\<close>

fun sub_video_pt :: "screen_video_codec \<Rightarrow> nat" where
  "sub_video_pt Av1C = PT_AV1"
| "sub_video_pt Vp9C = PT_VP9"

section \<open>What a publisher can negotiate\<close>

lemma codec_of_pt_built:
  "codec_of_pt (rc_params (fst (build_cfg std fb u p addr stats av1 audio))) pt =
     (if pt = PT_OPUS then Some OpusC else if pt = PT_AV1 \<and> av1 then Some Av1S else if pt = PT_VP9 then Some Vp9S else None)"
  by (simp add: codec_of_pt_def build_cfg_def codec_params_def new_params_def Let_def PT_OPUS_def PT_AV1_def PT_VP9_def)

definition media_inv :: "(nat \<Rightarrow> str0m_codec option) \<Rightarrow> str0m_codec option \<times> pub_media \<Rightarrow> bool" where
  "media_inv codec_of cm \<longleftrightarrow>
     list_all (\<lambda>pt. Option.bind (codec_of pt) video_codec \<noteq> None) (pm_video_pts (snd cm))
     \<and> list_all (\<lambda>pt. codec_of pt = Some OpusC) (pm_audio_pts (snd cm))
     \<and> (\<forall>v. Option.bind (fst cm) video_codec = Some v \<longrightarrow> (\<exists>pt \<in> set (pm_video_pts (snd cm)). Option.bind (codec_of pt) video_codec = Some v))"

lemma take_section_inv: "media_inv codec_of cm \<Longrightarrow> media_inv codec_of (take_section codec_of s cm)"
proof -
  assume i: "media_inv codec_of cm"
  obtain codec m where cm: "cm = (codec, m)" by fastforce
  consider "sec_kind s = ''video'' \<and> pm_video_mid m = None" | "sec_kind s = ''audio''" "\<not> (sec_kind s = ''video'' \<and> pm_video_mid m = None)"
    | "sec_kind s \<noteq> ''audio''" "\<not> (sec_kind s = ''video'' \<and> pm_video_mid m = None)" by blast
  then show ?thesis
  proof cases
    case 1
    then show ?thesis using i
      by (auto simp: media_inv_def cm take_section_def list_all_iff split: option.splits list.splits bind_splits)
  next
    case 2
    then show ?thesis using i by (auto simp: media_inv_def cm take_section_def list_all_iff)
  next
    case 3
    then show ?thesis using i by (auto simp: media_inv_def cm take_section_def)
  qed
qed

lemma negotiate_inv:
  assumes "negotiate codec_of answer = Some (v, m)"
  shows "list_all (\<lambda>pt. Option.bind (codec_of pt) video_codec \<noteq> None) (pm_video_pts m)"
    "list_all (\<lambda>pt. codec_of pt = Some OpusC) (pm_audio_pts m)"
    "\<exists>pt \<in> set (pm_video_pts m). Option.bind (codec_of pt) video_codec = Some v"
proof -
  obtain c where c: "fold (take_section codec_of) (filter (\<lambda>s. \<not> sec_rejected s) (sections answer)) (None, no_media) = (Some c, m)"
    "video_codec c = Some v"
    using assms by (auto simp: negotiate_def split: prod.splits option.splits)
  have "media_inv codec_of (fold (take_section codec_of) ss cm)" if "media_inv codec_of cm" for ss cm
    using that by (induction ss arbitrary: cm) (simp_all add: take_section_inv)
  moreover have "media_inv codec_of (None, no_media)" by (simp add: media_inv_def no_media_def)
  ultimately have "media_inv codec_of (Some c, m)" using c(1) by metis
  then show "list_all (\<lambda>pt. Option.bind (codec_of pt) video_codec \<noteq> None) (pm_video_pts m)"
    "list_all (\<lambda>pt. codec_of pt = Some OpusC) (pm_audio_pts m)"
    "\<exists>pt \<in> set (pm_video_pts m). Option.bind (codec_of pt) video_codec = Some v"
    using c(2) by (auto simp: media_inv_def)
qed

text \<open>
  What str0m does to a table when it accepts an offer, as far as the code relies on it: a codec may
  get the offer's payload type, or go, but no codec comes in that was not configured.
\<close>

definition offer_table :: "rtc_config \<Rightarrow> payload_params list \<Rightarrow> bool" where
  "offer_table cfg table \<longleftrightarrow> (\<forall>p \<in> set table. \<exists>q \<in> set (rc_params cfg). pp_codec p = pp_codec q)"

lemma offer_table_codec: "offer_table cfg table \<Longrightarrow> codec_of_pt table pt = Some c \<Longrightarrow> \<exists>q \<in> set (rc_params cfg). pp_codec q = c"
  by (auto simp: codec_of_pt_def offer_table_def find_Some_iff) (metis nth_mem)

text \<open>
  C33. A screen share that was negotiated carries only what its viewers can be given. Whatever the
  answer says, under whatever payload types the offer gave the configured codecs: the video payload
  types are of AV1 or VP9 and include one of the session's codec, the audio ones are of Opus, and no
  payload type is both; the session's codec is VP9 where AV1 is not configured; and the payload type
  its viewers are sent it under is that of this codec in the configuration of their connections.
\<close>

theorem negotiated_media_known:
  assumes "offer_table (fst (build_cfg std fb u p addr stats av1 audio)) table"
    and "negotiate (codec_of_pt table) answer = Some (v, m)"
  shows "(\<forall>pt \<in> set (pm_video_pts m). Option.bind (codec_of_pt table pt) video_codec \<noteq> None)
    \<and> (\<exists>pt \<in> set (pm_video_pts m). Option.bind (codec_of_pt table pt) video_codec = Some v)
    \<and> (\<forall>pt \<in> set (pm_audio_pts m). codec_of_pt table pt = Some OpusC)
    \<and> set (pm_video_pts m) \<inter> set (pm_audio_pts m) = {} \<and> (av1 \<or> v = Vp9C)
    \<and> Option.bind (codec_of_pt (rc_params (fst (build std' fb' u' p' addr' stats'))) (sub_video_pt v)) video_codec = Some v"
proof -
  note n = negotiate_inv [OF assms(2), unfolded list_all_iff]
  obtain pt c where c: "codec_of_pt table pt = Some c" "video_codec c = Some v"
    using n(3) by (auto simp: bind_eq_Some_conv)
  obtain q where q: "q \<in> set (rc_params (fst (build_cfg std fb u p addr stats av1 audio)))" "pp_codec q = c"
    using offer_table_codec [OF assms(1) c(1)] by blast
  have "av1 \<or> v = Vp9C"
    using q c(2) by (auto simp: build_cfg_def codec_params_def new_params_def Let_def split: if_splits)
  moreover have "set (pm_video_pts m) \<inter> set (pm_audio_pts m) = {}"
  proof -
    have "video_codec OpusC = None" by simp
    with n(1,2) show ?thesis by fastforce
  qed
  moreover have "Option.bind (codec_of_pt (rc_params (fst (build std' fb' u' p' addr' stats'))) (sub_video_pt v)) video_codec = Some v"
    by (cases v) (simp_all add: build_def codec_of_pt_built PT_OPUS_def PT_AV1_def PT_VP9_def)
  ultimately show ?thesis using n by blast
qed

text \<open>The offer has VP9 as 100.\<close>

theorem negotiated_media_known_witness:
  "\<exists>m. negotiate (codec_of_pt [new_params True 100 (Some 101) Vp9S 90000 None default_format])
      (''m=video 9 RTP 100 101'' @ [CHR 0x0A] @ ''a=mid:0'') = Some (Vp9C, m)
    \<and> (\<exists>pt \<in> set (pm_video_pts m). Option.bind (codec_of_pt [new_params True 100 (Some 101) Vp9S 90000 None default_format] pt)
          video_codec = Some Vp9C)"
proof -
  let ?t = "[new_params True 100 (Some 101) Vp9S 90000 None default_format]"
  let ?a = "''m=video 9 RTP 100 101'' @ [CHR 0x0A] @ ''a=mid:0''"
  have "filter (\<lambda>s. \<not> sec_rejected s) (sections ?a) = [\<lparr>sec_kind = ''video'', sec_mid = ''0'', sec_pts = [100, 101], sec_rejected = False\<rparr>]"
  proof -
    have w: "split_whitespace ''video 9 RTP 100 101'' = [''video'', ''9'', ''RTP'', ''100'', ''101'']"
      by (simp add: split_whitespace_ascii ascii_ws_def)
    have l: "lines ?a = [''m=video 9 RTP 100 101'', ''a=mid:0'']" by code_simp
    have p: "parse_uint 256 ''100'' = Some 100" "parse_uint 256 ''101'' = Some 101" "trim ''0'' = ''0''" by code_simp+
    show ?thesis unfolding sections_def l by (simp add: sdp_line_def strip_prefix_def w p List.map_filter_simps)
  qed
  moreover have "codec_of_pt ?t 100 = Some Vp9S" by (simp add: codec_of_pt_def new_params_def)
  ultimately obtain m where n: "negotiate (codec_of_pt ?t) ?a = Some (Vp9C, m)" by (simp add: negotiate_def take_section_def no_media_def)
  have "offer_table (fst (build_cfg Map.empty True [1] [2] ''1.2.3.4:10101'' False False False)) ?t"
    by (simp add: offer_table_def build_cfg_def codec_params_def new_params_def Let_def)
  from negotiated_media_known [OF this n] n show ?thesis by blast
qed

end
