(* ===== verification/RoomFeed.thy ===== *)
theory RoomFeed
  imports RoomProps Presence
begin

text \<open>
  What a room tells the presence hub is what the room is. A step emits events only for members
  whose face changed, and every event agrees with the room as the step leaves it; a change without
  an event is one a reader need not see yet. The hub's subscribers follow in theory \<open>System\<close>.
\<close>

section \<open>Events as frames, members as faces\<close>

text \<open>\<open>peer_joined\<close>, \<open>peer_updated\<close> and \<open>peer_left\<close> of the hub push these frames.\<close>

fun event_frame :: "presence_event \<Rightarrow> frame" where
  "event_frame (PresenceJoined rm i) = PeerJoinedF rm i"
| "event_frame (PresenceUpdated rm i) = PeerUpdatedF rm i"
| "event_frame (PresenceLeft rm p) = PeerLeftF rm p"

fun event_peer :: "presence_event \<Rightarrow> string" where
  "event_peer (PresenceJoined rm i) = pi_id i"
| "event_peer (PresenceUpdated rm i) = pi_id i"
| "event_peer (PresenceLeft rm p) = p"

lemma frame_key_event [simp]: "frame_key (event_frame ev) = (event_room ev, event_peer ev)"
  by (cases ev) simp_all

lemma not_snapshot_event [simp]: "\<not> is_snapshot (event_frame ev)"
  by (cases ev) simp_all

text \<open>
  What a member looks like: its info, the info without its screen share, and whether its share
  (if it has one) has had its first video packet.
\<close>

definition face_of :: "world \<Rightarrow> entry \<Rightarrow> peer_info \<times> peer_info \<times> bool" where
  "face_of w e =
     (entry_info w e, entry_info w (e\<lparr>en_screen_session := None\<rparr>),
      case en_screen_session e of None \<Rightarrow> True | Some s \<Rightarrow> so_first_video (w_session w s))"

definition face :: "world \<Rightarrow> string \<Rightarrow> (peer_info \<times> peer_info \<times> bool) option" where
  "face w pid = map_option (face_of w) (hget (w_peers w) pid)"

text \<open>A reader may take a member for its info; before the first video also for the info without the share.\<close>

fun agrees :: "(peer_info \<times> peer_info \<times> bool) option \<Rightarrow> peer_info option \<Rightarrow> bool" where
  "agrees None v \<longleftrightarrow> v = None"
| "agrees (Some (i, j, live)) v \<longleftrightarrow> v = Some i \<or> (\<not> live \<and> v = Some j)"

lemma agrees_face: "hget (w_peers w) pid = Some e \<Longrightarrow> agrees (face w pid) (Some (entry_info w e))"
  by (simp add: face_def face_of_def)

text \<open>Members are registered under their own ids.\<close>

definition keyed :: "world \<Rightarrow> bool" where
  "keyed w \<longleftrightarrow> (\<forall>pid e. hget (w_peers w) pid = Some e \<longrightarrow> po_id (w_peer w (en_peer e)) = pid)"

lemma reg_inv_keyed: "reg_inv w \<Longrightarrow> keyed w"
  using reg_invD(2) member_of unfolding keyed_def by blast

lemma keyedD: "keyed w \<Longrightarrow> hget (w_peers w) pid = Some e \<Longrightarrow> pi_id (entry_info w e) = pid"
  by (simp add: keyed_def entry_info_def)

section \<open>Calm steps\<close>

definition calm :: "string set \<Rightarrow> world \<Rightarrow> world \<Rightarrow> bool" where
  "calm K w w' \<longleftrightarrow> w_room_id w' = w_room_id w \<and> w_presence w' = w_presence w \<and> (\<forall>pid. pid \<notin> K \<longrightarrow> face w' pid = face w pid)"

lemma calm_trans: "calm K w w1 \<Longrightarrow> calm L w1 w2 \<Longrightarrow> calm (K \<union> L) w w2"
  by (simp add: calm_def)

lemma calm_after: "calm K w w1 \<Longrightarrow> calm {} w1 w2 \<Longrightarrow> calm K w w2"
  by (simp add: calm_def)

lemma calm_before: "calm {} w w1 \<Longrightarrow> calm K w1 w2 \<Longrightarrow> calm K w w2"
  by (simp add: calm_def)

lemma entry_info_cong:
  "(\<And>s. en_screen_session e = Some s \<Longrightarrow> so_has_system_audio (w_session w' s) = so_has_system_audio (w_session w s)
      \<and> so_video_codec (w_session w' s) = so_video_codec (w_session w s)) \<Longrightarrow>
   po_id (w_peer w' (en_peer e)) = po_id (w_peer w (en_peer e)) \<Longrightarrow>
   po_client_id (w_peer w' (en_peer e)) = po_client_id (w_peer w (en_peer e)) \<Longrightarrow>
   po_chat_only (w_peer w' (en_peer e)) = po_chat_only (w_peer w (en_peer e)) \<Longrightarrow> entry_info w' e = entry_info w e"
  by (cases "en_screen_session e") (auto simp: entry_info_def)

lemma face_of_same: "w_peer w' = w_peer w \<Longrightarrow> w_session w' = w_session w \<Longrightarrow> face_of w' = face_of w"
  by (rule ext) (simp add: face_of_def entry_info_def cong: option.case_cong)

text \<open>The same entries, and what entries look at is the same.\<close>

lemma calm_same:
  assumes "w_room_id w' = w_room_id w" and "w_presence w' = w_presence w"
    and "\<And>pid. pid \<notin> K \<Longrightarrow> map_option profile (hget (w_peers w') pid) = map_option profile (hget (w_peers w) pid)"
    and "\<And>pid e s. pid \<notin> K \<Longrightarrow> hget (w_peers w) pid = Some e \<Longrightarrow> en_screen_session e = Some s \<Longrightarrow>
        snd (standing (w_session w' s)) = snd (standing (w_session w s))"
    and "\<And>pid e. pid \<notin> K \<Longrightarrow> hget (w_peers w) pid = Some e \<Longrightarrow>
        po_id (w_peer w' (en_peer e)) = po_id (w_peer w (en_peer e))
      \<and> po_client_id (w_peer w' (en_peer e)) = po_client_id (w_peer w (en_peer e))
      \<and> po_chat_only (w_peer w' (en_peer e)) = po_chat_only (w_peer w (en_peer e))"
  shows "calm K w w'"
proof -
  have "face w' pid = face w pid" if k: "pid \<notin> K" for pid
  proof (cases "hget (w_peers w) pid")
    case None
    with assms(3) [OF k] show ?thesis by (simp add: face_def)
  next
    case (Some e)
    with assms(3) [OF k] obtain e' where e': "hget (w_peers w') pid = Some e'" "profile e' = profile e" by auto
    have "face_of w' e = face_of w e"
      using assms(4) [OF k Some] assms(5) [OF k Some]
      by (auto simp: face_of_def standing_def intro!: entry_info_cong split: option.split)
    moreover have "face_of w' e' = face_of w' e"
      using e'(2) by (cases e'; cases e) (simp add: profile_def face_of_def entry_info_def)
    ultimately show ?thesis using Some e'(1) by (simp add: face_def)
  qed
  with assms(1,2) show ?thesis by (simp add: calm_def)
qed

interpretation calm: keeps "calm {}"
proof unfold_locales
  show "hget (w_peers w) pid = Some e \<Longrightarrow> profile e' = profile e \<Longrightarrow> calm {} w (set_entry pid e' w)" for w pid e e'
    by (rule calm_same) (auto simp: set_entry_def hashmap_laws)
  show "standing so = standing (w_session w s) \<Longrightarrow> calm {} w (set_session s so w)" for so w s
    by (rule calm_same) (auto simp: set_session_def)
  show "calm {} w (peer_send r m w)" for w r m
    by (rule calm_same) (auto simp: peer_send_def Let_def)
  show "calm {} w (cancel_peer r w)" for w r
    by (rule calm_same) (auto simp: cancel_peer_def)
  show "calm {} w (spawn_task t w)" for w t
    by (rule calm_same) (auto simp: spawn_task_def)
qed (auto simp: calm_def face_def intro!: arg_cong2 [where f = map_option] face_of_same)

lemma calm_ungrace: "calm {} w (cancel_grace g w)"
  by (rule calm_same) (auto simp: cancel_grace_def split: option.split)

lemmas calm_chain [trans] = calm.trans

lemma calm_set_entry:
  "calm {pid} w (set_entry pid e w)"
  by (rule calm_same) (auto simp: set_entry_def hashmap_laws)

lemma calm_stream:
  "snd (standing so) = snd (standing (w_session w s)) \<Longrightarrow> calm {} w (set_session s so w)"
  by (rule calm_same) (auto simp: set_session_def)

lemma calm_tokens: "calm {} w (w\<lparr>w_sessions_by_token := t\<rparr>)"
  by (rule calm_same) auto

lemma calm_tasks: "calm {} w (w\<lparr>w_tasks := t\<rparr>)"
  by (rule calm_same) auto

section \<open>Telling steps\<close>

text \<open>
  From one state to a later one every event agrees with the later state, and whoever changed
  without an event, outside \<open>K\<close>, may be seen as before.
\<close>

definition telling :: "string set \<Rightarrow> world \<Rightarrow> world \<Rightarrow> bool" where
  "telling K w w' \<longleftrightarrow> w_room_id w' = w_room_id w \<and>
     (\<exists>evs. w_presence w' = w_presence w @ evs
      \<and> (\<forall>ev \<in> set evs. event_room ev = w_room_id w \<and> event_peer ev \<notin> K
           \<and> agrees (face w' (event_peer ev)) (frame_val (event_frame ev)))
      \<and> (\<forall>pid v. pid \<notin> K \<longrightarrow> pid \<notin> event_peer ` set evs \<longrightarrow> agrees (face w pid) v \<longrightarrow> agrees (face w' pid) v))"

lemma telling_calm: "calm K w w' \<Longrightarrow> telling K w w'"
  unfolding calm_def telling_def by (auto intro!: exI [of _ "[]"])

lemma telling_refl: "telling {} w w"
  by (rule telling_calm) (rule calm.refl)

lemma telling_after: "telling K w w1 \<Longrightarrow> calm {} w1 w2 \<Longrightarrow> telling K w w2"
  unfolding calm_def telling_def by auto

lemma telling_before: "calm {} w w1 \<Longrightarrow> telling K w1 w2 \<Longrightarrow> telling K w w2"
  unfolding calm_def telling_def by auto

lemma face_presence [simp]: "face (presence ev w) pid = face w pid"
  using face_of_same [of "presence ev w" w] by (simp add: face_def presence_def)

lemma telling_tell:
  assumes "telling K w w1" and "event_room ev = w_room_id w1"
    and "agrees (face w1 (event_peer ev)) (frame_val (event_frame ev))"
  shows "telling (K - {event_peer ev}) w (presence ev w1)"
proof -
  from assms(1) obtain evs where evs: "w_presence w1 = w_presence w @ evs"
    "\<And>x. x \<in> set evs \<Longrightarrow> event_room x = w_room_id w \<and> event_peer x \<notin> K \<and> agrees (face w1 (event_peer x)) (frame_val (event_frame x))"
    "\<And>pid v. pid \<notin> K \<Longrightarrow> pid \<notin> event_peer ` set evs \<Longrightarrow> agrees (face w pid) v \<Longrightarrow> agrees (face w1 pid) v"
    and rm: "w_room_id w1 = w_room_id w" unfolding telling_def by blast
  have "w_presence (presence ev w1) = w_presence w @ evs @ [ev]" "w_room_id (presence ev w1) = w_room_id w"
    using evs(1) rm by (simp_all add: presence_def)
  with evs(2,3) assms(2,3) rm show ?thesis
    unfolding telling_def face_presence by (intro conjI exI [of _ "evs @ [ev]"]) auto
qed

lemma telling_let:
  assumes "telling K w w'" and "\<And>pid v. pid \<in> K \<Longrightarrow> agrees (face w pid) v \<Longrightarrow> agrees (face w' pid) v"
  shows "telling {} w w'"
  using assms unfolding telling_def by blast

text \<open>An update told of a member whose entry changed and who is as it was read since.\<close>

lemma telling_updated:
  assumes "telling K w w1" and "K \<subseteq> {pid}" and "hget (w_peers v) pid = Some e" and "pi_id (entry_info v e) = pid" and "face w1 pid = face v pid"
  shows "telling {} w (presence (PresenceUpdated (w_room_id w1) (entry_info v e)) w1)"
proof -
  have "telling (K - {event_peer (PresenceUpdated (w_room_id w1) (entry_info v e))}) w (presence (PresenceUpdated (w_room_id w1) (entry_info v e)) w1)"
    by (rule telling_tell [OF assms(1)]) (use assms(4,5) agrees_face [OF assms(3)] in simp_all)
  moreover have "K - {event_peer (PresenceUpdated (w_room_id w1) (entry_info v e))} = {}" using assms(2,4) by auto
  ultimately show ?thesis by (simp only:)
qed

lemma calm_face: "calm {} w w' \<Longrightarrow> face w' pid = face w pid"
  by (simp add: calm_def)

lemma calm_member: "calm {} w w' \<Longrightarrow> hget (w_peers w') pid = None \<longleftrightarrow> hget (w_peers w) pid = None"
  using calm_face [of w w' pid] by (simp add: face_def) (metis map_option_is_None)

lemma keyed_iff: "keyed w \<longleftrightarrow> (\<forall>pid i x. face w pid = Some (i, x) \<longrightarrow> pi_id i = pid)"
proof -
  have pi: "pi_id (fst (face_of w e)) = po_id (w_peer w (en_peer e))" for e by (simp add: entry_info_def face_of_def)
  show ?thesis
  proof (intro iffI allI impI)
    fix pid i x assume "keyed w" and f: "face w pid = Some (i, x)"
    from f obtain e where "hget (w_peers w) pid = Some e" "face_of w e = (i, x)" by (auto simp: face_def)
    with pi [of e] \<open>keyed w\<close> show "pi_id i = pid" by (simp add: keyed_def)
  next
    assume f: "\<forall>pid i x. face w pid = Some (i, x) \<longrightarrow> pi_id i = pid"
    have "po_id (w_peer w (en_peer e)) = pid" if "hget (w_peers w) pid = Some e" for pid e
      using f that pi [of e] by (metis face_def option.map(2) prod.collapse)
    then show "keyed w" by (simp add: keyed_def)
  qed
qed

lemma calm_keyed: "calm {} w w' \<Longrightarrow> keyed w \<Longrightarrow> keyed w'"
  unfolding keyed_iff by (simp add: calm_face)

lemma telling_entry:
  assumes "keyed w" and "hget (w_peers w) pid = Some e" and "en_peer e1 = en_peer e"
    and "calm {} (set_entry pid e1 w) w2" and "entry_info v e1 = entry_info (set_entry pid e1 w) e1"
  shows "telling {} w (presence (PresenceUpdated (w_room_id w2) (entry_info v e1)) w2)"
  unfolding assms(5)
proof (rule telling_updated [OF _ subset_refl])
  show "telling {pid} w w2" by (rule telling_calm [OF calm_after [OF calm_set_entry assms(4)]])
  show "hget (w_peers (set_entry pid e1 w)) pid = Some e1" by (simp add: set_entry_def hashmap_laws)
  show "pi_id (entry_info (set_entry pid e1 w) e1) = pid"
    using assms(1-3) by (simp add: entry_info_def keyed_def set_entry_def)
  show "face w2 pid = face (set_entry pid e1 w) pid" by (rule calm_face [OF assms(4)])
qed

section \<open>A member's own state\<close>

lemma tell_display_name: "keyed w \<Longrightarrow> telling {} w (set_display_name pid name w)"
  unfolding set_display_name_def Let_def
  by (auto split: option.split intro!: telling_refl telling_entry calm.broadcast)

lemma set_muted_calm: "calm {} w (set_muted a m w)"
  by (simp add: set_muted_def calm.refl calm.cells split: option.split)

lemma set_muted_info: "entry_info (set_muted a m w) e = entry_info w e"
  by (simp add: set_muted_def entry_info_def split: option.split)

lemma tell_state: "keyed w \<Longrightarrow> telling {} w (set_state pid m d w)"
  unfolding set_state_def Let_def
  by (auto split: option.split simp: set_muted_info
    intro!: telling_refl telling_entry calm.trans [OF set_muted_calm calm.broadcast])

section \<open>Screen shares\<close>

lemma calm_first:
  "(\<And>p e. hget (w_peers w) p = Some e \<Longrightarrow> en_screen_session e = Some s \<Longrightarrow> p \<in> K) \<Longrightarrow> calm K w (set_session s so w)"
  by (rule calm_same) (auto simp: set_session_def)

lemma owner_of:
  assumes "reg_inv w" and "hget (w_peers w) p = Some e" and "en_screen_session e = Some s"
  shows "so_publisher_id (w_session w s) = p" "\<not> so_closed (w_session w s)" "s < w_next w"
  using reg_invD(5,6) [OF assms(1)] member_of [OF assms(2)] assms(3) by metis+

lemma tell_ready:
  assumes "keyed v" and "telling K w v" and "K \<subseteq> {so_publisher_id (w_session v s)}"
    and "so_closed (w_session v s) \<or> hget (w_peers v) (so_publisher_id (w_session v s)) = None \<Longrightarrow> K = {}"
  shows "telling {} w (first_screen_video_ready s v)"
proof (cases "so_closed (w_session v s) \<or> hget (w_peers v) (so_publisher_id (w_session v s)) = None")
  case True
  with assms(2) assms(4) [OF True] show ?thesis by (auto simp: first_screen_video_ready_def Let_def)
next
  case False
  define pub where "pub = so_publisher_id (w_session v s)"
  from False obtain e where e: "hget (w_peers v) pub = Some e" by (auto simp: pub_def)
  define w1 where "w1 = fold (\<lambda>r u. peer_send r (available_msg (w_session v s) pub) (peer_send r (PeerInfoChanged (entry_info v e)) u))
      (other_peers v pub) v"
  have c: "calm {} v w1" unfolding w1_def by (rule calm.loop) (rule calm.trans [OF calm.send calm.send])
  have "telling {} w (presence (PresenceUpdated (w_room_id w1) (entry_info v e)) w1)"
    by (rule telling_updated [OF telling_after [OF assms(2) c] _ e keyedD [OF assms(1) e] calm_face [OF c]])
      (use assms(3) pub_def in simp)
  moreover from this have "telling {} w (send_encode pub EncodePause (presence (PresenceUpdated (w_room_id w1) (entry_info v e)) w1))"
    unfolding send_encode_def by (rule telling_after) (rule calm.send_to)
  ultimately show ?thesis
    using False e by (simp add: first_screen_video_ready_def Let_def w1_def pub_def)
qed

lemma tell_first_video: "reg_inv w \<Longrightarrow> telling {} w (screen_first_video s w)"
proof -
  assume inv: "reg_inv w"
  define v where "v = set_session s ((w_session w s)\<lparr>so_first_video := True\<rparr>) w"
  define K where "K = {p. \<exists>e. hget (w_peers w) p = Some e \<and> en_screen_session e = Some s}"
  have sel: "w_peers v = w_peers w" "so_publisher_id (w_session v s) = so_publisher_id (w_session w s)"
    "so_closed (w_session v s) = so_closed (w_session w s)" by (simp_all add: v_def set_session_def)
  have "calm K w v" unfolding v_def by (rule calm_first) (auto simp: K_def)
  moreover have "keyed v" using reg_inv_keyed [OF inv] by (simp add: keyed_def v_def set_session_def)
  moreover have "K \<subseteq> {so_publisher_id (w_session v s)}"
    "so_closed (w_session v s) \<or> hget (w_peers v) (so_publisher_id (w_session v s)) = None \<Longrightarrow> K = {}"
    using owner_of [OF inv] by (auto simp: K_def sel)
  ultimately have "telling {} w (first_screen_video_ready s v)" by (intro tell_ready telling_calm)
  then show ?thesis by (simp add: screen_first_video_def v_def telling_refl)
qed

lemma tell_end: "keyed w \<Longrightarrow> telling {} w (end_screen_share_session s w)"
proof (cases "so_closed (w_session w s)")
  case True
  then show ?thesis by (simp add: end_screen_share_session_def telling_refl)
next
  case False
  assume k: "keyed w"
  define so where "so = w_session w s"
  define w1 where "w1 = set_session s (so\<lparr>so_closed := True, so_subscribers := [], so_grace := None\<rparr>) w"
  define w3 where "w3 = close_publisher_pc s (cancel_grace (so_grace so) w1)"
  define w4 where "w4 = set_session s ((w_session w3 s)\<lparr>so_cancelled := True\<rparr>) w3"
  define pub where "pub = so_publisher_id (w_session w4 s)"
  define w6 where "w6 = (fold (close_stale_sub pub) (hvals (so_subscribers so)) w4)
      \<lparr>w_sessions_by_token := hdel (so_token so) (w_sessions_by_token (fold (close_stale_sub pub) (hvals (so_subscribers so)) w4))\<rparr>"
  define w7 where "w7 = clear_owner pub s w6"
  have "calm {} w w1" unfolding w1_def so_def by (rule calm_stream) (simp add: standing_def)
  also have "calm {} w1 w3" unfolding w3_def by (rule calm.trans [OF calm_ungrace calm.close_publisher_pc])
  also have "calm {} w3 w4" unfolding w4_def by (rule calm_stream) (simp add: standing_def)
  also have "calm {} w4 w6" unfolding w6_def by (rule calm.trans [OF calm.loop calm_tokens]) (rule calm.close_stale_sub)
  finally have c6: "calm {} w w6" .
  have c7: "calm (if hget (w_peers w6) pub = None then {} else {pub}) w6 w7"
    by (auto simp: w7_def clear_owner_def calm_set_entry calm.refl telling_refl split: option.split)
      (simp add: calm_def)
  have k7: "keyed w7"
    using calm_keyed [OF c6 k] by (auto simp: w7_def clear_owner_def keyed_def set_entry_def hashmap_laws split: option.split)
  have none: "hget (w_peers w7) pub = None \<longleftrightarrow> hget (w_peers w6) pub = None"
    by (auto simp: w7_def clear_owner_def set_entry_def hashmap_laws split: option.split)
  have t7: "telling (if hget (w_peers w6) pub = None then {} else {pub}) w w7"
    by (rule telling_calm [OF calm_before [OF c6 c7]])
  have ended: "end_screen_share_session s w =
      (case hget (w_peers w7) pub of
         Some e \<Rightarrow>
           let info = entry_info w7 e;
               w8 = fold (\<lambda>r v. let v1 = peer_send r (ShareEnded pub) v
                                in if po_id (w_peer v1 r) \<noteq> pi_id info
                                   then peer_send r (PeerInfoChanged info) v1 else v1) (all_peers w7) w7
           in presence (PresenceUpdated (w_room_id w8) info) w8
       | None \<Rightarrow> broadcast (all_peers w7) (ShareEnded pub) w7)"
    using False
    by (simp only: end_screen_share_session_def Let_def so_def [symmetric] w1_def [symmetric]
      w3_def [symmetric] w4_def [symmetric] pub_def [symmetric] w6_def [symmetric] w7_def [symmetric] if_False)
  show ?thesis
  proof (cases "hget (w_peers w7) pub")
    case None
    then show ?thesis using t7 none by (simp add: ended telling_after [OF _ calm.broadcast])
  next
    case (Some e)
    have f: "calm {} v (fold (\<lambda>r v. let v1 = peer_send r (ShareEnded pub) v
        in if po_id (w_peer v1 r) \<noteq> pid then peer_send r (PeerInfoChanged info) v1 else v1) rs v)" for info pid rs v
      by (rule calm.loop) (auto simp: Let_def intro: calm.trans calm.send)
    show ?thesis
      unfolding ended Some option.case Let_def
      by (rule telling_updated [OF telling_after [OF t7 f [unfolded Let_def]] _ Some keyedD [OF k7 Some] calm_face [OF f [unfolded Let_def]]])
        auto
  qed
qed

lemma tell_resume: "keyed w \<Longrightarrow> telling {} w (handle_screen_share_resume r token w)"
proof (cases "hget (w_sessions_by_token w) token")
  case None
  then show ?thesis
    by (simp add: handle_screen_share_resume_def Let_def telling_calm [OF calm.screen_error])
next
  case (Some s)
  assume k: "keyed w"
  let ?pid = "po_id (w_peer w r)"
  define so where "so = w_session w s"
  define old where "old = so_publisher_id so"
  have taken: "telling {} w (case hget (w_peers w4) ?pid of None \<Rightarrow> w4 | Some e4 \<Rightarrow>
        peer_send r (ShareStarted token) (presence (PresenceUpdated (w_room_id (w5 e4)) (entry_info w4 e4)) (w5 e4)))"
    if e: "hget (w_peers w) ?pid = Some e"
      and w4: "w4 = fold (close_stale_sub old) (hvals (so_subscribers so)) (cancel_grace (so_grace so)
        (set_entry ?pid (e\<lparr>en_screen_session := Some s\<rparr>) (set_session s (so\<lparr>so_publisher_id := ?pid, so_grace := None, so_subscribers := []\<rparr>) w)))"
      and w5: "\<And>e4. calm {} w4 (w5 e4)" for e w4 w5
  proof -
    let ?w1 = "set_session s (so\<lparr>so_publisher_id := ?pid, so_grace := None, so_subscribers := []\<rparr>) w"
    let ?w2 = "set_entry ?pid (e\<lparr>en_screen_session := Some s\<rparr>) ?w1"
    have c1: "calm {} w ?w1" unfolding so_def by (rule calm_stream) (simp add: standing_def)
    have c4: "calm {} ?w2 w4"
      unfolding w4 by (rule calm.trans [OF calm_ungrace calm.loop]) (rule calm.close_stale_sub)
    have t4: "telling {?pid} w w4"
      by (rule telling_calm [OF calm_after [OF calm_before [OF c1 calm_set_entry] c4]])
    have "keyed ?w2"
      using k e by (auto simp: keyed_def set_entry_def set_session_def hashmap_laws)
    then have k4: "keyed w4" using calm_keyed [OF c4] by simp
    have "hget (w_peers w4) ?pid \<noteq> None"
      unfolding calm_member [OF c4] by (simp add: set_entry_def hashmap_laws)
    then obtain e4 where e4: "hget (w_peers w4) ?pid = Some e4" by blast
    have "telling {} w (presence (PresenceUpdated (w_room_id (w5 e4)) (entry_info w4 e4)) (w5 e4))"
      by (rule telling_updated [OF telling_after [OF t4 w5] subset_refl e4 keyedD [OF k4 e4] calm_face [OF w5]])
    then show ?thesis using e4 telling_after [OF _ calm.send] by simp
  qed
  have f: "calm {} v (fold (\<lambda>q v. peer_send q a (peer_send q b (peer_send q c v))) rs v)" for a b c rs v
    by (rule calm.loop) (rule calm.trans [OF calm.send calm.trans [OF calm.send calm.send]])
  show ?thesis
    unfolding handle_screen_share_resume_def Let_def Some option.case so_def [symmetric] old_def [symmetric]
    using taken [OF _ refl f] by (auto split: option.split intro: telling_refl telling_calm [OF calm.screen_error])
qed

lemma calm_setup:
  assumes "reg_inv w" and "setup_screen_pub r d token res w = (x, w1)"
  shows "calm {} w w1" "x = Some (s, sdp) \<Longrightarrow> \<not> so_first_video (w_session w1 s)"
proof -
  define q where "q = w_next w"
  define v where "v = w\<lparr>w_session := (w_session w)(q := new_session (po_id (w_peer w r)) token d (q + 1)
        (case setup_codec res of Some (c, _) \<Rightarrow> c | None \<Rightarrow> Vp9C)),
      w_pc := (w_pc w)(q + 1 := \<lparr>px_closed = False, px_owner = OfSession q\<rparr>), w_next := q + 2\<rparr>"
  have "calm {} w v"
    by (rule calm_same) (use owner_of(3) [OF assms(1)] in \<open>auto simp: v_def q_def\<close>)
  moreover have "res \<noteq> BadOffer \<Longrightarrow> (x, w1) = (case setup_codec res of Some (c, sdp) \<Rightarrow> (Some (q, sdp), v) | None \<Rightarrow> (None, close_publisher_pc q v))"
    using assms(2) by (cases "setup_codec res") (simp_all add: setup_screen_pub_def Let_def q_def v_def)
  moreover have "res = BadOffer \<Longrightarrow> (x, w1) = (None, w)" using assms(2) by (simp add: setup_screen_pub_def)
  ultimately show "calm {} w w1"
    by (cases "res = BadOffer"; cases "setup_codec res") (auto intro: calm.refl calm.trans [OF _ calm.close_publisher_pc])
  show "\<not> so_first_video (w_session w1 s)" if "x = Some (s, sdp)"
    using assms(2) that
    by (auto simp: setup_screen_pub_def Let_def new_session_def split: if_splits option.splits)
qed

lemma tell_share_start:
  assumes "reg_inv w"
  shows "telling {} w (handle_screen_share_start r d token res w)"
proof -
  obtain x w1 where su: "setup_screen_pub r d token res w = (x, w1)" by (cases "setup_screen_pub r d token res w")
  let ?pid = "po_id (w_peer w r)"
  note c1 = calm_setup(1) [OF assms su]
  have fails: "telling {} w (send_screen_error r a b w1)" "telling {} w (close_publisher_pc s w1)" "telling {} w (send_screen_error r a b w)" for a b s
    by (rule telling_calm [OF calm.trans [OF c1 calm.screen_error]], rule telling_calm [OF calm.trans [OF c1 calm.close_publisher_pc]],
        rule telling_calm [OF calm.screen_error])
  have started: "telling {} w (peer_send r m2 (peer_send r m1 ((set_entry ?pid (e\<lparr>en_screen_session := Some s\<rparr>) w1)\<lparr>w_sessions_by_token := toks\<rparr>)))"
    if x: "x = Some (s, sdp)" and e: "hget (w_peers w1) ?pid = Some e" "en_screen_session e = None" for s sdp e m1 m2 toks
  proof -
    let ?w2 = "set_entry ?pid (e\<lparr>en_screen_session := Some s\<rparr>) w1"
    let ?w = "peer_send r m2 (peer_send r m1 (?w2\<lparr>w_sessions_by_token := toks\<rparr>))"
    have c2: "calm {} ?w2 ?w" by (rule calm.trans [OF calm_tokens calm.trans [OF calm.send calm.send]])
    have "\<not> so_first_video (w_session w1 s)" by (rule calm_setup(2) [OF assms su x])
    moreover have "entry_info ?w2 (e\<lparr>en_screen_session := None\<rparr>) = entry_info w1 e" by (simp add: entry_info_def set_entry_def e(2))
    ultimately have "agrees (face ?w2 ?pid) v" if "agrees (face w1 ?pid) v" for v
      using that e by (simp add: face_def face_of_def set_entry_def hashmap_laws)
    then show ?thesis
      by (intro telling_let [OF telling_calm [OF calm_after [OF calm_before [OF c1 calm_set_entry] c2]]])
        (auto simp: calm_face [OF c2] calm_face [OF c1])
  qed
  show ?thesis
    unfolding handle_screen_share_start_def su Let_def prod.case
    using fails started by (auto split: option.split)
qed

section \<open>Joining and leaving\<close>

lemma calm_new_peer:
  assumes "reg_inv w" and "new_peer pid h w = (r, w1)"
  shows "calm {} w w1"
proof (rule calm_same)
  show "po_id (w_peer w1 (en_peer e)) = po_id (w_peer w (en_peer e))
      \<and> po_client_id (w_peer w1 (en_peer e)) = po_client_id (w_peer w (en_peer e))
      \<and> po_chat_only (w_peer w1 (en_peer e)) = po_chat_only (w_peer w (en_peer e))"
    if "hget (w_peers w) p = Some e" for p e
    using reg_invD(2) [OF assms(1) member_of [OF that]] assms(2) by (auto simp: new_peer_def Let_def split: if_splits)
qed (use assms(2) in \<open>auto simp: new_peer_def Let_def split: if_splits\<close>)

lemma calm_evict:
  assumes "reg_inv w" and "evict cid w = (evs, w1)" and "K = (\<lambda>ev. po_id (w_peer w (en_peer ev))) ` set evs"
  shows "calm K w w1" "\<And>pid. pid \<in> K \<Longrightarrow> face w1 pid = None \<and> face w pid \<noteq> None" "w_peer w1 = w_peer w"
proof -
  define ids where "ids = (if cid = [] then [] else map (\<lambda>e. po_id (w_peer w (en_peer e)))
      (filter (\<lambda>e. po_client_id (w_peer w (en_peer e)) = cid) (hvals (w_peers w))))"
  have evs: "evs = List.map_filter (\<lambda>pid. hget (w_peers w) pid) ids"
    and w1: "w_peers w1 = fold hdel ids (w_peers w)" "w_room_id w1 = w_room_id w" "w_presence w1 = w_presence w"
      "w_session w1 = w_session w" and p1: "w_peer w1 = w_peer w"
    using assms(2) by (auto simp: evict_def Let_def ids_def List.map_filter_simps split: if_splits)
  have wf: "hwf (w_peers w)" using reg_invD(1) [OF assms(1)] by (simp add: members_hget)
  have k: "po_id (w_peer w (en_peer e)) = pid" if "hget (w_peers w) pid = Some e" for pid e
    using reg_inv_keyed [OF assms(1)] that by (simp add: keyed_def)
  have there: "\<exists>e. hget (w_peers w) pid = Some e" if "pid \<in> set ids" for pid
    using that k by (auto simp: ids_def hvals_iff [OF wf] split: if_splits)
  have K: "pid \<in> K \<longleftrightarrow> pid \<in> set ids" for pid
  proof
    assume "pid \<in> K"
    then show "pid \<in> set ids" using k by (auto simp: assms(3) evs List.map_filter_def)
  next
    assume i: "pid \<in> set ids"
    then obtain e where "hget (w_peers w) pid = Some e" using there by blast
    with i k [OF this] show "pid \<in> K" unfolding assms(3) evs List.map_filter_def by force
  qed
  have h: "hget (fold hdel ids m) pid = (if pid \<in> set ids then None else hget m pid)" for m :: "(string, entry) hashmap" and pid
    by (induction ids arbitrary: m) (auto simp: hashmap_laws)
  have f: "face w1 pid = (if pid \<in> K then None else face w pid)" for pid
    using face_of_same [OF p1 w1(4)] by (simp add: face_def w1(1) h K)
  then show "calm K w w1" using w1 by (simp add: calm_def)
  show "face w1 pid = None \<and> face w pid \<noteq> None" if "pid \<in> K" for pid
    using that f there [of pid] K by (auto simp: face_def)
  show "w_peer w1 = w_peer w" by (rule p1)
qed

text \<open>The leavings of the evicted; only the feed changes.\<close>

definition tell_left :: "entry \<Rightarrow> world \<Rightarrow> world" where
  "tell_left ev v = presence (PresenceLeft (w_room_id v) (po_id (w_peer v (en_peer ev)))) v"

lemma tell_left_same: "w_peer (fold tell_left evs v) = w_peer v" "face (fold tell_left evs v) pid = face v pid"
proof (induction evs arbitrary: v)
  case (Cons ev evs)
  { case 1 then show ?case using Cons(1) [of "tell_left ev v"] by (simp add: tell_left_def presence_def) }
  { case 2 then show ?case using Cons(2) [of "tell_left ev v"] by (simp add: tell_left_def) }
qed simp_all

lemma telling_lefts:
  "telling K w v \<Longrightarrow> (\<And>ev. ev \<in> set evs \<Longrightarrow> face v (po_id (w_peer v (en_peer ev))) = None) \<Longrightarrow>
   telling (K - (\<lambda>ev. po_id (w_peer v (en_peer ev))) ` set evs) w (fold tell_left evs v)"
proof (induction evs arbitrary: K v)
  case (Cons ev evs)
  let ?p = "po_id (w_peer v (en_peer ev))"
  have t: "telling (K - {?p}) w (tell_left ev v)"
    using telling_tell [OF Cons.prems(1), of "PresenceLeft (w_room_id v) ?p"] Cons.prems(2) [of ev] by (simp add: tell_left_def)
  have same: "w_peer (tell_left ev v) = w_peer v" "face (tell_left ev v) q = face v q" for q
    by (simp add: tell_left_def presence_def) (simp add: tell_left_def)
  have "telling (K - {?p} - (\<lambda>ev. po_id (w_peer v (en_peer ev))) ` set evs) w (fold tell_left evs (tell_left ev v))"
    using Cons.IH [OF t] Cons.prems(2) by (simp add: same)
  moreover have "K - {?p} - (\<lambda>ev. po_id (w_peer v (en_peer ev))) ` set evs = K - (\<lambda>ev. po_id (w_peer v (en_peer ev))) ` set (ev # evs)"
    by auto
  ultimately show ?case by simp
qed simp

lemma tell_add_peer:
  assumes "reg_inv w" and "hget (w_peers w) (po_id (w_peer w r)) = None"
  shows "telling {} w (add_peer env r name w)"
proof -
  obtain evs w1 where ev: "evict (po_client_id (w_peer w r)) w = (evs, w1)"
    by (cases "evict (po_client_id (w_peer w r)) w")
  define K where "K = (\<lambda>ev. po_id (w_peer w (en_peer ev))) ` set evs"
  note c1 = calm_evict [OF assms(1) ev K_def]
  define e where "e = new_entry r name"
  define pid where "pid = po_id (w_peer w r)"
  define w2 where "w2 = set_entry pid e w1"
  define w3 where "w3 = fold (dismiss (all_peers w1)) evs w2"
  define w5 where "w5 = broadcast (all_peers w1) (PeerJoined (entry_info w1 e)) (peer_send r (Welcome (po_id (w_peer w3 r)) (room_peers w1)) w3)"
  define w6 where "w6 = (if evs \<noteq> [] then signal_all env w5 else w5)"
  have "calm {} w2 w3" unfolding w3_def by (rule calm.loop) (rule calm.dismiss)
  also have "calm {} w3 w5" unfolding w5_def by (rule calm.trans [OF calm.send calm.broadcast])
  also have "calm {} w5 w6" by (simp add: w6_def calm.signal_all calm.refl)
  finally have c6: "calm {} w2 w6" .
  have "same_core w2 w3" unfolding w3_def by (rule core.loop) (rule core.dismiss)
  also have "same_core w3 w5" unfolding w5_def by (rule core.trans [OF core.send core.broadcast])
  also have "same_core w5 w6" by (simp add: w6_def core.signal_all)
  finally have id6: "po_id (w_peer w6 q) = po_id (w_peer w q)" for q
    using same_core_sel(6) [of w2 w6 q] c1(3) by (simp add: w2_def set_entry_def)
  have new: "pid \<notin> K" using c1(2) [of pid] assms(2) by (auto simp: pid_def face_def)
  have gone: "face w6 p = None" if "p \<in> K" for p
  proof -
    have "p \<noteq> pid" using that new by blast
    then have "face w2 p = face w1 p" using calm_set_entry [of pid w1 e] by (simp add: w2_def calm_def)
    with c1(2) [OF that] calm_face [OF c6] show ?thesis by simp
  qed
  have t6: "telling (K \<union> {pid}) w w6"
    by (rule telling_calm [OF calm_after [OF calm_trans [OF c1(1) calm_set_entry] c6 [unfolded w2_def]]])
  define w7 where "w7 = fold tell_left evs w6"
  have "telling (K \<union> {pid} - (\<lambda>ev. po_id (w_peer w6 (en_peer ev))) ` set evs) w w7"
    unfolding w7_def by (rule telling_lefts [OF t6]) (auto simp: id6 K_def intro!: gone)
  moreover have "K \<union> {pid} - (\<lambda>ev. po_id (w_peer w6 (en_peer ev))) ` set evs = {pid}"
    using new by (auto simp: id6 K_def)
  ultimately have t7: "telling {pid} w w7" by simp
  have info: "entry_info w2 e = entry_info w1 e" by (simp add: w2_def set_entry_def entry_info_def cong: option.case_cong)
  have "face w7 pid = face w2 pid" by (simp add: w7_def tell_left_same calm_face [OF c6])
  moreover have "hget (w_peers w2) pid = Some e" by (simp add: w2_def set_entry_def hashmap_laws)
  ultimately have a: "agrees (face w7 pid) (Some (entry_info w1 e))" using agrees_face [of w2 pid e] info by simp
  have p: "pi_id (entry_info w1 e) = pid" by (simp add: entry_info_def e_def new_entry_def c1(3) pid_def)
  have "telling {} w (presence (PresenceJoined (w_room_id w7) (entry_info w1 e)) w7)"
    using telling_tell [OF t7, of "PresenceJoined (w_room_id w7) (entry_info w1 e)"] a p by simp
  moreover have "add_peer env r name w = presence (PresenceJoined (w_room_id w7) (entry_info w1 e)) w7"
    by (simp add: add_peer_def ev Let_def w3_def w5_def w6_def w7_def w2_def e_def pid_def c1(3) tell_left_def [abs_def])
  ultimately show ?thesis by simp
qed

lemma tell_join:
  assumes "reg_inv w" and "hget (w_peers w) pid = None"
  shows "telling {} w (join env pid h w)"
proof -
  obtain r w1 where n: "new_peer pid h w = (r, w1)" by (cases "new_peer pid h w")
  note i = new_peer_inv [OF assms(1) n]
  have "telling {} w1 (add_peer env r (he_display_name h) w1)"
    by (rule tell_add_peer) (use i assms(2) in auto)
  then have t: "telling {} w (add_peer env r (he_display_name h) w1)"
    by (rule telling_before [OF calm_new_peer [OF assms(1) n]])
  then show ?thesis
    using telling_after [OF t calm.signal_all] by (simp add: join_def n Let_def)
qed

lemma calm_spawn: "calm {} w (spawn_task t w)"
  by (rule calm_same) (auto simp: spawn_task_def)

lemma calm_start_grace: "calm {} w (start_screen_share_grace s now w)"
proof -
  have "calm {} w (set_session s ((w_session w s)\<lparr>so_grace := g\<rparr>) (w\<lparr>w_next := w_next w + 1\<rparr>))" for g
    by (rule calm.trans [OF calm.fresh calm_stream]) (simp_all add: standing_def)
  from calm.trans [OF this calm.trans [OF calm_ungrace calm_spawn]] show ?thesis
    by (simp add: start_screen_share_grace_def Let_def calm.refl)
qed

lemma tell_remove_peer: "telling {} w (remove_peer env now pid w)"
proof (cases "hget (w_peers w) pid")
  case None
  then show ?thesis by (simp add: remove_peer_def telling_refl)
next
  case (Some e)
  define w1 where "w1 = w\<lparr>w_peers := hdel pid (w_peers w), w_tracks := hdel pid (w_tracks w)\<rparr>"
  define w2 where "w2 = close_entry_subs e w1"
  define w3 where "w3 = (case en_screen_session e of None \<Rightarrow> w2 | Some s \<Rightarrow> start_screen_share_grace s now w2)"
  define w5 where "w5 = broadcast (all_peers w1) (PeerLeft pid) (cancel_peer (en_peer e) w3)"
  define w6 where "w6 = (if \<not> po_chat_only (w_peer w5 (en_peer e)) then signal_all env w5 else w5)"
  have c1: "calm {pid} w w1" by (rule calm_same) (auto simp: w1_def hashmap_laws)
  have "calm {} w1 w2" unfolding w2_def by (rule calm.close_entry_subs)
  also have "calm {} w2 w3" by (simp add: w3_def calm.refl calm_start_grace split: option.split)
  also have "calm {} w3 w5" unfolding w5_def by (rule calm.trans [OF calm.cancel calm.broadcast])
  also have "calm {} w5 w6" by (simp add: w6_def calm.signal_all calm.refl)
  finally have c6: "calm {} w1 w6" .
  have "face w6 pid = None" by (simp add: calm_face [OF c6]) (simp add: face_def w1_def hashmap_laws)
  then have "telling {} w (presence (PresenceLeft (w_room_id w6) pid) w6)"
    using telling_tell [OF telling_calm [OF calm_after [OF c1 c6]], of "PresenceLeft (w_room_id w6) pid"] by simp
  then show ?thesis
    by (simp only: remove_peer_def Some option.case Let_def w1_def [symmetric] w2_def [symmetric] w3_def [symmetric]
      w5_def [symmetric] w6_def [symmetric])
qed

lemma tell_leave: "telling {} w (leave env now r w)"
proof -
  have "telling {} w (remove_peer env now (po_id (w_peer w r)) (cancel_peer r w))"
    by (rule telling_before [OF calm.cancel tell_remove_peer])
  from this telling_after [OF this calm.audio_close] show ?thesis
    by (simp add: leave_def Let_def split: option.split)
qed

section \<open>Every step\<close>

lemmas tells = tell_display_name tell_state tell_share_start tell_end tell_resume tell_first_video
lemmas calm_tells = calm.chat calm.chat_delete calm.answer calm.renegotiate calm.client_offer calm.subscribe
  calm.remove_screen_sub calm.mode_change calm.ping

lemma tell_share_stop: "keyed w \<Longrightarrow> telling {} w (handle_screen_share_stop r w)"
  by (simp add: handle_screen_share_stop_def telling_refl tell_end split: option.split)

lemma tell_dispatch: "reg_inv w \<Longrightarrow> telling {} w (dispatch cx r m w)"
  using reg_inv_keyed [of w]
  by (cases "(cx, r, m, w)" rule: dispatch.cases)
    (auto intro: tells tell_share_stop telling_refl telling_calm [OF calm_tells(1)] telling_calm [OF calm_tells(2)]
      telling_calm [OF calm_tells(3)] telling_calm [OF calm_tells(4)] telling_calm [OF calm_tells(5)]
      telling_calm [OF calm_tells(6)] telling_calm [OF calm_tells(7)] telling_calm [OF calm_tells(8)])

lemma tell_message: "reg_inv w \<Longrightarrow> telling {} w (handle_client_message cx r m w)"
  using tell_dispatch [of w cx r] telling_calm [OF calm.ping]
  by (auto simp: handle_client_message_def telling_refl simp del: dispatch.simps split: client_msg.split option.split)

lemma tell_task: "keyed w \<Longrightarrow> telling {} w (run_task cx t w)"
  by (auto simp: run_task_def telling_refl tell_end telling_calm [OF calm.signal_all] split: room_task.split option.split)

lemma calm_written: "calm {} w (w\<lparr>w_peer := (w_peer w)(r := (w_peer w r)\<lparr>po_out := x\<rparr>)\<rparr>)"
  by (rule calm_same) auto

lemma tell_step: "reg_inv w \<Longrightarrow> room_enabled w ce \<Longrightarrow> telling {} w (next_world w ce)"
proof -
  assume inv: "reg_inv w" and en: "room_enabled w ce"
  obtain cx e where ce: "ce = (cx, e)" by (cases ce)
  note k = reg_inv_keyed [OF inv]
  show ?thesis
  proof (cases e)
    case (Task i)
    then show ?thesis
      using telling_before [OF calm_tasks tell_task [OF calm_keyed [OF calm_tasks k]]] telling_refl
      by (simp add: next_world_def ce)
  next
    case (Join pid f)
    then show ?thesis using en tell_join [OF inv] by (simp add: next_world_def ce telling_refl split: option.split)
  qed (use inv k in \<open>simp_all add: next_world_def ce tell_message tell_leave tell_first_video
        telling_calm [OF calm.first_audio_packet] telling_calm [OF calm.close_sub_pc] telling_calm [OF calm.close_publisher_pc]
        telling_calm [OF calm_written] telling_calm [OF calm.close_room]\<close>)
qed

end
