(* ===== verification/System.thy ===== *)
theory System
  imports Boot RoomFeed
begin

text \<open>
  The server as one system: the state \<open>main.rs\<close> builds, HTTP requests, what happens in the rooms,
  the presence streams and the janitor, in any order. A room makes its presence events while it is
  locked and pushes them to the hub after it has released the lock, so they wait beside the state
  until they are pushed, in whatever order; beside it is also what the readers have seen so far.
\<close>

section \<open>The code, composed\<close>

text \<open>The room of a live upload, as the chat asks the file store.\<close>

definition file_room :: "file_store \<Rightarrow> instant \<Rightarrow> string \<Rightarrow> string option" where
  "file_room st now uid = map_option fe_room_id (get_at st uid now)"

definition room_cx :: "app \<Rightarrow> step_ctx \<Rightarrow> step_ctx" where
  "room_cx a cx = cx\<lparr>cx_files := file_room (ap_files a) (cx_now cx)\<rparr>"

record server =
  sv_app :: app
  sv_views :: "nat \<Rightarrow> view"
  sv_pending :: "(frame \<times> bool) list"
  sv_stale :: "(string \<times> string) set"

definition happen_in :: "string \<Rightarrow> step_ctx \<Rightarrow> room_event \<Rightarrow> server \<Rightarrow> server" where
  "happen_in slug cx e s =
     (case hget (ap_rooms (sv_app s)) slug of
        None \<Rightarrow> s
      | Some w \<Rightarrow>
          let w' = room_step (room_cx (sv_app s) cx) e w;
              evs = drop (length (w_presence w)) (w_presence w')
          in s\<lparr>sv_app := (sv_app s)\<lparr>ap_rooms := hput slug w' (ap_rooms (sv_app s))\<rparr>,
               sv_pending := sv_pending s @ map (\<lambda>f. (f, False)) (map event_frame evs)\<rparr>)"

text \<open>One of the handlers gets to push its event; a subscriber that is full gets the rooms of now.\<close>

definition publish :: "nat \<Rightarrow> server \<Rightarrow> server" where
  "publish n s =
     (if n < length (sv_pending s)
      then s\<lparr>sv_app := (sv_app s)\<lparr>ap_hub := push (fst (sv_pending s ! n)) (presence_rooms (sv_app s)) (ap_hub (sv_app s))\<rparr>,
             sv_stale := restale frame_key (sv_pending s ! n) (sv_stale s),
             sv_pending := overtake frame_key n (sv_pending s)\<rparr>
      else s)"

datatype happening =
    Request "string \<Rightarrow> duration option" draws request
  | InRoom string step_ctx room_event
  | Published nat
  | Upgraded role
  | Disconnected nat
  | FrameSent nat nat
  | StreamGone nat nat
  | Janitor instant
  | Stop

fun sys_step :: "ext \<Rightarrow> app_consts \<Rightarrow> server \<Rightarrow> happening \<Rightarrow> server" where
  "sys_step x k s (Request lim d rq) =
     (case handle x k lim d rq (sv_app s) of None \<Rightarrow> s | Some (r, a, up) \<Rightarrow> s\<lparr>sv_app := a\<rparr>)"
| "sys_step x k s (InRoom slug cx e) = happen_in slug cx e s"
| "sys_step x k s (Published n) = publish n s"
| "sys_step x k s (Upgraded r) = s\<lparr>sv_app := snd (ws_connected r (sv_app s))\<rparr>"
| "sys_step x k s (Disconnected i) = s\<lparr>sv_app := ws_disconnected i (sv_app s)\<rparr>"
| "sys_step x k s (FrameSent cancel i) =
     (case List.map_filter (\<lambda>(it, a). case it of FrameItem f \<Rightarrow> Some (f, a) | _ \<Rightarrow> None) (stream_next cancel i False (sv_app s)) of
        [] \<Rightarrow> s
      | (f, a) # _ \<Rightarrow> s\<lparr>sv_app := a, sv_views := (sv_views s)(i := merge f (sv_views s i))\<rparr>)"
| "sys_step x k s (StreamGone reg i) = s\<lparr>sv_app := stream_drop reg i (sv_app s)\<rparr>"
| "sys_step x k s (Janitor now) = s\<lparr>sv_app := (sv_app s)\<lparr>ap_files := sweep (ap_files (sv_app s)) now\<rparr>\<rparr>"
| "sys_step x k s Stop = s\<lparr>sv_app := shutdown (sv_app s)\<rparr>"

text \<open>Peer ids and tokens are random in the code, so they are fresh in their room.\<close>

fun sys_enabled :: "server \<Rightarrow> happening \<Rightarrow> bool" where
  "sys_enabled s (InRoom slug cx e) \<longleftrightarrow>
     (case hget (ap_rooms (sv_app s)) slug of None \<Rightarrow> True | Some w \<Rightarrow> room_enabled w (room_cx (sv_app s) cx, e))"
| "sys_enabled s _ \<longleftrightarrow> True"

section \<open>What the state admits\<close>

definition truth :: "app \<Rightarrow> string \<times> string \<Rightarrow> (peer_info \<times> peer_info \<times> bool) option" where
  "truth a k = (case hget (ap_rooms a) (fst k) of None \<Rightarrow> None | Some w \<Rightarrow> face w (snd k))"

definition rooms_ok :: "app \<Rightarrow> bool" where
  "rooms_ok a \<longleftrightarrow> (\<forall>slug w. hget (ap_rooms a) slug = Some w \<longrightarrow> reg_inv w \<and> w_room_id w = slug)"

lemma find_member:
  "(\<And>p e. (p, e) \<in> set m \<Longrightarrow> pi_id (g e) = p) \<Longrightarrow> List.find (\<lambda>i. pi_id i = pid) (map g (map snd m)) = map_option g (map_of m pid)"
proof (induction m)
  case (Cons x m)
  obtain p e where x: "x = (p, e)" by (cases x)
  then have p: "pi_id (g e) = p" using Cons.prems [of p e] by simp
  have "List.find (\<lambda>i. pi_id i = pid) (map g (map snd m)) = map_option g (map_of m pid)"
    by (rule Cons.IH) (use Cons.prems in simp)
  with x p show ?case by simp
qed simp

lemma member_snapshot:
  assumes "rooms_ok a"
  shows "agrees (truth a k) (member (presence_rooms a) k)"
proof -
  obtain slug pid where k: "k = (slug, pid)" by (cases k)
  have "map_of (map (\<lambda>(slug, w). (slug, room_peers w)) rs) slug = map_option room_peers (map_of rs slug)" for rs
    by (induction rs) auto
  then have l: "map_of (presence_rooms a) slug = map_option room_peers (hget (ap_rooms a) slug)"
    by (simp add: presence_rooms_def hget_def)
  show ?thesis
  proof (cases "hget (ap_rooms a) slug")
    case None
    then show ?thesis by (simp add: k truth_def member_def l)
  next
    case (Some w)
    then have inv: "reg_inv w" using assms by (simp add: rooms_ok_def)
    have "pi_id (entry_info w e) = p" if "(p, e) \<in> set (w_peers w)" for p e
    proof -
      have "(p, en_peer e, en_screen_session e) \<in> set (members w)" using that by (force simp: members_def)
      from reg_invD(2) [OF inv this] show ?thesis by (simp add: entry_info_def)
    qed
    from find_member [of "w_peers w" "entry_info w" pid, OF this]
    have "List.find (\<lambda>i. pi_id i = pid) (room_peers w) = map_option (entry_info w) (hget (w_peers w) pid)"
      by (simp add: room_peers_def hvals_def hget_def)
    moreover have "map_of (presence_rooms a) slug = Some (room_peers w)" by (simp add: l Some)
    ultimately have "member (presence_rooms a) k = map_option (entry_info w) (hget (w_peers w) pid)"
      by (simp add: k member_def)
    then show ?thesis
      by (cases "hget (w_peers w) pid") (simp_all add: k truth_def Some face_def face_of_def)
  qed
qed

interpretation lobby: tolerant_feed merge frame_key frame_val is_snapshot
  "\<lambda>a k v. agrees (truth a k) v" "\<lambda>a. Snapshot (presence_rooms a)" rooms_ok
  by unfold_locales (simp_all add: member_snapshot)

section \<open>The streams\<close>

definition streams_ok :: "(frame \<times> bool) list \<Rightarrow> (string \<times> string) set \<Rightarrow> app \<Rightarrow> (nat \<Rightarrow> view) \<Rightarrow> hub \<Rightarrow> bool" where
  "streams_ok pend stale a vs h \<longleftrightarrow>
     (\<forall>i q. hget (hb_subs h) i = Some q \<longrightarrow> length q \<le> OUT_BUF_LEN \<and> lobby.current pend stale a (vs i) q)"

lemma streams_cong: "truth a' = truth a \<Longrightarrow> streams_ok pend stale a' vs h = streams_ok pend stale a vs h"
  by (simp add: streams_ok_def lobby.current_def)

lemma truthful_cong: "truth a' = truth a \<Longrightarrow> lobby.truthful pend a' = lobby.truthful pend a"
  by (simp add: lobby.truthful_def)

lemma streams_push:
  assumes "streams_ok pend stale a vs h" and "rooms_ok a" and "lobby.truthful pend a" and "n < length pend"
  shows "streams_ok (overtake frame_key n pend) (restale frame_key (pend ! n) stale) a vs
           (push (fst (pend ! n)) (presence_rooms a) h)"
proof -
  let ?f = "fst (pend ! n)"
  have "length q' \<le> OUT_BUF_LEN \<and> lobby.current (overtake frame_key n pend) (restale frame_key (pend ! n) stale) a (vs i) q'"
    if "hget (hb_subs (push ?f (presence_rooms a) h)) i = Some q'" for i q'
  proof -
    from that obtain q where q: "hget (hb_subs h) i = Some q"
      "q' = (if length q < OUT_BUF_LEN then q @ [?f] else [Snapshot (presence_rooms a)])" by (auto simp: push_queue)
    with assms(1) have "lobby.current pend stale a (vs i) q" by (simp add: streams_ok_def)
    from lobby.current_delivered [OF assms(3) this assms(4)] lobby.current_snapshot [OF assms(2)] q(2)
    show ?thesis by (auto simp: OUT_BUF_LEN_def)
  qed
  then show ?thesis by (simp add: streams_ok_def)
qed

lemma streams_subscribe:
  "streams_ok pend stale a vs h \<Longrightarrow> rooms_ok a \<Longrightarrow> streams_ok pend stale a vs (snd (Presence.subscribe (presence_rooms a) h))"
  using lobby.current_snapshot [of a pend stale]
  by (auto simp: streams_ok_def Presence.subscribe_def Let_def hashmap_simps OUT_BUF_LEN_def)

lemma streams_unsubscribe: "streams_ok pend stale a vs h \<Longrightarrow> streams_ok pend stale a vs (unsubscribe i h)"
  by (auto simp: streams_ok_def unsubscribe_def hashmap_simps)

lemma streams_read:
  "streams_ok pend stale a vs h \<Longrightarrow> next_frame i h = Some (f, h') \<Longrightarrow> streams_ok pend stale a (vs(i := merge f (vs i))) h'"
proof -
  assume ok: "streams_ok pend stale a vs h" and n: "next_frame i h = Some (f, h')"
  then obtain q where q: "hget (hb_subs h) i = Some (f # q)" "h' = h\<lparr>hb_subs := hput i q (hb_subs h)\<rparr>"
    by (auto simp: next_frame_def split: option.splits list.splits)
  with ok have "length (f # q) \<le> OUT_BUF_LEN" "lobby.current pend stale a (vs i) (f # q)" unfolding streams_ok_def by blast+
  then have "length q \<le> OUT_BUF_LEN" "lobby.current pend stale a (merge f (vs i)) q" by (simp, blast intro: lobby.current_read)
  with ok show ?thesis unfolding streams_ok_def q(2) by (auto simp: hashmap_laws(1))
qed

definition app_ok :: "server \<Rightarrow> app \<Rightarrow> (nat \<Rightarrow> view) \<Rightarrow> bool" where
  "app_ok s a vs \<longleftrightarrow> rooms_ok a \<and> lobby.truthful (sv_pending s) a \<and> streams_ok (sv_pending s) (sv_stale s) a vs (ap_hub a)"

definition sys_inv :: "server \<Rightarrow> bool" where
  "sys_inv s \<longleftrightarrow> app_ok s (sv_app s) (sv_views s)"

lemma truth_cong: "ap_rooms a' = ap_rooms a \<Longrightarrow> truth a' = truth a"
  by (simp add: truth_def fun_eq_iff)

lemma sys_inv_app: "app_ok s a vs \<Longrightarrow> sys_inv (s\<lparr>sv_app := a, sv_views := vs\<rparr>)" "app_ok s a (sv_views s) \<Longrightarrow> sys_inv (s\<lparr>sv_app := a\<rparr>)"
  by (simp_all add: sys_inv_def app_ok_def)

lemma sys_inv_cong:
  assumes "sys_inv s" and "truth a' = truth (sv_app s)" and "rooms_ok a'"
    and "streams_ok (sv_pending s) (sv_stale s) (sv_app s) vs (ap_hub a')"
  shows "app_ok s a' vs"
  using assms(1,3,4) unfolding sys_inv_def app_ok_def truthful_cong [OF assms(2)] streams_cong [OF assms(2)] by blast

lemma sys_inv_same:
  assumes "sys_inv s" and "ap_rooms a' = ap_rooms (sv_app s)" and "ap_hub a' = ap_hub (sv_app s)"
  shows "app_ok s a' (sv_views s)"
  using assms(1) by (intro sys_inv_cong) (simp_all add: assms(2,3) truth_cong [OF assms(2)] sys_inv_def app_ok_def rooms_ok_def)

section \<open>Requests\<close>

definition rooms_kept :: "app \<Rightarrow> app \<Rightarrow> (role \<times> string) option \<Rightarrow> bool" where
  "rooms_kept a a' up \<longleftrightarrow> ap_rooms a' = ap_rooms a
     \<and> (ap_hub a' = ap_hub a \<or> ap_hub a' = snd (Presence.subscribe (presence_rooms a) (ap_hub a)))"

lemma store_result_rooms: "store_result res what f a = (r, a1) \<Longrightarrow> ap_rooms a1 = ap_rooms a \<and> ap_hub a1 = ap_hub a"
  by (auto simp: store_result_def split: prod.splits sum.splits)

lemma admin_rooms: "admin x k d rq segs a = Some (r, a1) \<Longrightarrow> rooms_kept a a1 None"
  by (cases "(x, k, d, rq, segs, a)" rule: admin.cases)
    (auto simp: Let_def rooms_kept_def split: if_splits prod.splits dest!: store_result_rooms)

lemma route_rooms: "leaves (rooms_kept a) (route x k d rq a)"
proof -
  have same: "rooms_kept a a up" for up by (simp add: rooms_kept_def)
  have lg: "leaves (rooms_kept a) (answer_with (login x k d rq a))"
  proof (cases "login x k d rq a")
    case (Some p)
    then obtain r a' where p: "login x k d rq a = Some (r, a')" by (cases p) auto
    have "rooms_kept a a' None" by (subst login_keeps [OF p]) (simp add: rooms_kept_def)
    with p show ?thesis by (simp add: leaves_answer_with)
  qed (simp add: leaves_answer_with)
  have lo: "leaves (rooms_kept a) (answer_with (map_option (\<lambda>r. (r, a)) (logout k)))"
    by (auto simp: leaves_answer_with same split: option.split)
  have pr: "leaves (rooms_kept a) (answer_with (Some (presence_stream x k d rq a)))"
    by (auto simp: leaves_answer_with rooms_kept_def presence_stream_def ws_add_def Let_def split: prod.split)
  have fl: "leaves (rooms_kept a) (let (r, files) = rf in answer r (a\<lparr>ap_files := files\<rparr>))" for rf
    by (cases rf) (simp add: leaves_answer rooms_kept_def)
  have ad: "leaves (rooms_kept a) (answer_with (admin x k d rq segs a))" for segs
    by (auto simp: leaves_answer_with split: option.split intro: admin_rooms)
  have api: "leaves (rooms_kept a) (route_api x k d rq segs a)" for segs
    unfolding route_api_def Let_def [of "rq_method rq = GET \<or> rq_method rq = HEAD"] Let_def [of "rq_method rq = POST"]
      Let_def [of "authenticated x k d rq a"]
    by (intro leaves_if lg lo pr ad fl) (simp_all add: leaves_answer leaves_static same)
  have ws: "leaves (rooms_kept a) (route_ws x k d rq room a)" for room
    by (auto simp: route_ws_def leaves_def answer_def same split: option.split sum.split)
  show ?thesis
    unfolding route_def Let_def
    by (intro leaves_if api ws leaves_None) (simp_all add: leaves_answer leaves_static same)
qed

lemma handle_rooms: "leaves (rooms_kept a) (handle x k lim d rq a)"
proof -
  have "leaves (rooms_kept a) (answer r a)" for r by (simp add: leaves_answer rooms_kept_def)
  then show ?thesis using route_rooms by (auto simp: handle_def Let_def split: option.split)
qed

lemma request_inv: "sys_inv s \<Longrightarrow> sys_inv (sys_step x k s (Request lim d rq))"
proof (cases "handle x k lim d rq (sv_app s)")
  case (Some rau)
  assume inv: "sys_inv s"
  obtain r a' up where rau: "rau = (r, a', up)" by (cases rau)
  with Some handle_rooms [of "sv_app s" x k lim d rq] have k: "rooms_kept (sv_app s) a' up" by (simp add: leaves_def)
  then have r: "ap_rooms a' = ap_rooms (sv_app s)" by (simp add: rooms_kept_def)
  from inv have ok: "rooms_ok (sv_app s)" "streams_ok (sv_pending s) (sv_stale s) (sv_app s) (sv_views s) (ap_hub (sv_app s))"
    by (simp_all add: sys_inv_def app_ok_def)
  then have "streams_ok (sv_pending s) (sv_stale s) (sv_app s) (sv_views s) (ap_hub a')"
    using k streams_subscribe by (auto simp: rooms_kept_def)
  moreover have "rooms_ok a'" using ok(1) r by (simp add: rooms_ok_def)
  ultimately have "app_ok s a' (sv_views s)" by (intro sys_inv_cong inv truth_cong r)
  with Some rau show ?thesis by (simp add: sys_inv_app)
qed simp

section \<open>What happens in a room\<close>

lemma next_world_room: "next_world w (cx, e) = room_step cx e w"
  by (simp add: next_world_def)

lemma rooms_ok_put:
  "rooms_ok a \<Longrightarrow> reg_inv w' \<Longrightarrow> w_room_id w' = slug \<Longrightarrow> rooms_ok (a\<lparr>ap_rooms := hput slug w' (ap_rooms a)\<rparr>)"
  by (auto simp: rooms_ok_def hashmap_laws(1))

lemma room_inv:
  assumes inv: "sys_inv s" and en: "sys_enabled s (InRoom slug cx e)"
  shows "sys_inv (happen_in slug cx e s)"
proof (cases "hget (ap_rooms (sv_app s)) slug")
  case None
  with inv show ?thesis by (simp add: happen_in_def)
next
  case (Some w)
  let ?a = "sv_app s"
  let ?w' = "room_step (room_cx ?a cx) e w"
  let ?a' = "?a\<lparr>ap_rooms := hput slug ?w' (ap_rooms ?a)\<rparr>"
  from inv have r: "rooms_ok ?a" and t: "lobby.truthful (sv_pending s) ?a"
    and st: "streams_ok (sv_pending s) (sv_stale s) ?a (sv_views s) (ap_hub ?a)" by (simp_all add: sys_inv_def app_ok_def)
  with Some have w: "reg_inv w" "w_room_id w = slug" by (simp_all add: rooms_ok_def)
  have en': "room_enabled w (room_cx ?a cx, e)" using en Some by simp
  have w': "reg_inv ?w'" using room_step_inv [OF w(1) en'] by (simp add: next_world_def)
  have "telling {} w ?w'" using tell_step [OF w(1) en'] by (simp add: next_world_def)
  then obtain evs where evs: "w_room_id ?w' = slug" "w_presence ?w' = w_presence w @ evs"
    "\<And>ev. ev \<in> set evs \<Longrightarrow> event_room ev = slug \<and> agrees (face ?w' (event_peer ev)) (frame_val (event_frame ev))"
    "\<And>pid v. pid \<notin> event_peer ` set evs \<Longrightarrow> agrees (face w pid) v \<Longrightarrow> agrees (face ?w' pid) v"
    unfolding telling_def w(2) by blast
  let ?fs = "map event_frame evs"
  have truth: "truth ?a' (slug', pid) = (if slug' = slug then face ?w' pid else truth ?a (slug', pid))" for slug' pid
    by (simp add: truth_def hashmap_laws(1))
  have key: "frame_key (event_frame ev) = (slug, event_peer ev)" if "ev \<in> set evs" for ev
    using evs(3) [OF that] by (cases ev) auto
  have told: "\<not> is_snapshot f \<and> agrees (truth ?a' (frame_key f)) (frame_val f)" if "f \<in> set ?fs" for f
  proof -
    from that obtain ev where ev: "ev \<in> set evs" "f = event_frame ev" by auto
    then have "agrees (truth ?a' (slug, event_peer ev)) (frame_val f)" using evs(3) by (simp add: truth)
    then show ?thesis using key [OF ev(1)] ev(2) by (cases ev) auto
  qed
  have kept: "agrees (truth ?a' k) v" if k: "k \<notin> frame_key ` set ?fs" and ag: "agrees (truth ?a k) v" for k v
  proof -
    obtain sl pid where sp: "k = (sl, pid)" by (cases k)
    show ?thesis
    proof (cases "sl = slug")
      case True
      then have "truth ?a k = face w pid" by (simp add: sp truth_def Some)
      moreover have "pid \<notin> event_peer ` set evs" using k key True by (force simp: sp)
      ultimately show ?thesis using ag evs(4) True by (simp add: sp truth)
    next
      case False
      with ag show ?thesis by (simp add: sp truth)
    qed
  qed
  have "lobby.truthful (sv_pending s @ map (\<lambda>f. (f, False)) ?fs) ?a'" by (rule lobby.truthful_made [OF t told kept])
  moreover have "streams_ok (sv_pending s @ map (\<lambda>f. (f, False)) ?fs) (sv_stale s) ?a' (sv_views s) (ap_hub ?a)"
    using st lobby.current_made [OF _ kept] unfolding streams_ok_def by blast
  moreover have "rooms_ok ?a'" by (rule rooms_ok_put [OF r w' evs(1)])
  ultimately show ?thesis by (simp add: happen_in_def Some Let_def evs(2) sys_inv_def app_ok_def)
qed

lemma publish_inv: "sys_inv s \<Longrightarrow> sys_inv (publish n s)"
proof (cases "n < length (sv_pending s)")
  case True
  assume "sys_inv s"
  then have ok: "rooms_ok (sv_app s)" "lobby.truthful (sv_pending s) (sv_app s)"
    "streams_ok (sv_pending s) (sv_stale s) (sv_app s) (sv_views s) (ap_hub (sv_app s))" by (simp_all add: sys_inv_def app_ok_def)
  let ?a = "(sv_app s)\<lparr>ap_hub := push (fst (sv_pending s ! n)) (presence_rooms (sv_app s)) (ap_hub (sv_app s))\<rparr>"
  have t: "truth ?a = truth (sv_app s)" by (rule truth_cong) simp
  have "rooms_ok ?a" using ok(1) by (simp add: rooms_ok_def)
  with True streams_push [OF ok(3,1,2) True] lobby.truthful_delivered [OF ok(2) True] show ?thesis
    by (simp add: publish_def sys_inv_def app_ok_def truthful_cong [OF t] streams_cong [OF t])
qed (simp add: publish_def)

lemma stop_inv: "sys_inv s \<Longrightarrow> app_ok s (shutdown (sv_app s)) (sv_views s)"
proof -
  let ?a = "sv_app s"
  assume inv: "sys_inv s"
  then have r: "rooms_ok ?a" and st: "streams_ok (sv_pending s) (sv_stale s) ?a (sv_views s) (ap_hub ?a)"
    by (simp_all add: sys_inv_def app_ok_def)
  have "map_of (map (\<lambda>(slug, w). (slug, close_room w)) rs) slug = map_option close_room (map_of rs slug)" for rs slug
    by (induction rs) auto
  then have h: "hget (ap_rooms (shutdown a)) slug = map_option close_room (hget (ap_rooms a) slug)" for a slug
    by (simp add: shutdown_def hget_def)
  have "face (close_room w) pid = face w pid" "w_room_id (close_room w) = w_room_id w" for w pid
    using calm.close_room [of w] by (simp_all add: calm_def)
  then have "truth (shutdown ?a) = truth ?a" and "rooms_ok (shutdown ?a)"
    using r reg_inv_core [OF core.close_room] by (auto simp: truth_def h fun_eq_iff rooms_ok_def split: option.split)
  with inv st show ?thesis by (intro sys_inv_cong) (simp_all add: shutdown_def)
qed

lemma stream_next_frame:
  "List.map_filter (\<lambda>(it, a'). case it of FrameItem f \<Rightarrow> Some (f, a') | _ \<Rightarrow> None) (stream_next cancel i False a)
     = (case next_frame i (ap_hub a) of Some (f, h) \<Rightarrow> [(f, a\<lparr>ap_hub := h\<rparr>)] | None \<Rightarrow> [])"
  by (simp add: stream_next_def List.map_filter_def split: option.split)

lemma sys_step_inv: "sys_inv s \<Longrightarrow> sys_enabled s e \<Longrightarrow> sys_inv (sys_step x k s e)"
proof -
  assume inv: "sys_inv s" and en: "sys_enabled s e"
  note same = sys_inv_app(2) [OF sys_inv_same [OF inv]]
  from inv have r: "rooms_ok (sv_app s)" and st: "streams_ok (sv_pending s) (sv_stale s) (sv_app s) (sv_views s) (ap_hub (sv_app s))"
    by (simp_all add: sys_inv_def app_ok_def)
  show ?thesis
  proof (cases e)
    case (Request lim d rq)
    with request_inv [OF inv] show ?thesis by simp
  next
    case (InRoom slug cx e')
    with room_inv inv en show ?thesis by simp
  next
    case (Published n)
    with publish_inv [OF inv] show ?thesis by simp
  next
    case (FrameSent cancel i)
    show ?thesis
    proof (cases "next_frame i (ap_hub (sv_app s))")
      case None
      then show ?thesis using inv by (simp add: FrameSent stream_next_frame)
    next
      case (Some fh)
      then obtain f h where fh: "next_frame i (ap_hub (sv_app s)) = Some (f, h)" by (cases fh) auto
      let ?a = "(sv_app s)\<lparr>ap_hub := h\<rparr>"
      have "truth ?a = truth (sv_app s)" by (rule truth_cong) simp
      moreover have "rooms_ok ?a" using r by (simp add: rooms_ok_def)
      ultimately have "app_ok s ?a ((sv_views s)(i := merge f (sv_views s i)))"
        using streams_read [OF st fh] by (intro sys_inv_cong inv) simp_all
      then show ?thesis by (simp add: FrameSent stream_next_frame fh sys_inv_app)
    qed
  next
    case (StreamGone reg i)
    have "truth (stream_drop reg i (sv_app s)) = truth (sv_app s)" by (rule truth_cong) (simp add: stream_drop_def)
    moreover have "rooms_ok (stream_drop reg i (sv_app s))" using r by (simp add: rooms_ok_def stream_drop_def)
    ultimately have "app_ok s (stream_drop reg i (sv_app s)) (sv_views s)"
      using streams_unsubscribe [OF st] by (intro sys_inv_cong inv) (simp_all add: stream_drop_def)
    then show ?thesis by (simp add: StreamGone sys_inv_app)
  next
    case Stop
    then show ?thesis using sys_inv_app(2) [OF stop_inv [OF inv]] by simp
  qed (auto simp: ws_connected_def ws_disconnected_def split: prod.split intro: same)
qed

interpretation server: stepper "sys_step x k" sys_enabled sys_inv for x k
  by unfold_locales (rule sys_step_inv)

definition started :: "app \<Rightarrow> (nat \<Rightarrow> view) \<Rightarrow> server" where
  "started a vs = \<lparr>sv_app = a, sv_views = vs, sv_pending = [], sv_stale = {}\<rparr>"

lemma boot_inv: "boot x s d = (Inr (k, a), ops) \<Longrightarrow> sys_inv (started a vs)"
proof -
  assume "boot x s d = (Inr (k, a), ops)"
  then have a: "ap_rooms a = map (\<lambda>slug. (slug, new_room slug)) ROOMS" "ap_hub a = new_hub"
    by (auto elim!: boot_InrD simp: build_app_def)
  have "hget (ap_rooms a) slug = Some w \<Longrightarrow> w = new_room slug" for slug w
    by (auto simp: a(1) dest!: hget_SomeD)
  moreover have "w_room_id (new_room slug) = slug" for slug by (simp add: new_room_def)
  ultimately have "rooms_ok a" using new_room_inv unfolding rooms_ok_def by metis
  then show ?thesis by (simp add: sys_inv_def app_ok_def started_def lobby.truthful_def streams_ok_def a(2) new_hub_def)
qed

text \<open>
  C4. The presence streams show the rooms. Whatever requests, joins, leaves, shares, timers,
  shutdown and slow readers there were since the start, and whatever order the rooms' handlers
  pushed their events in once they had released the room: a stream's backlog is at most eight
  frames, and of every member no event of whom is still to be pushed, or was pushed after a newer
  one of the same member, who reads the stream sees exactly whether it is in the room, and with
  what name, mute state and screen share - except that a share whose first video has not come yet
  may be hidden. A backlog that was dropped for a snapshot loses nothing.
\<close>

theorem streams_show_rooms:
  assumes "boot x st d = (Inr (k, a0), ops)" and "valid_run (sys_step x k) sys_enabled (started a0 vs0) hs"
    and "s = foldl (sys_step x k) (started a0 vs0) hs" and "hget (hb_subs (ap_hub (sv_app s))) i = Some q"
    and "hget (ap_rooms (sv_app s)) slug = Some w"
    and "(slug, pid) \<notin> frame_key ` fst ` set (sv_pending s)" and "(slug, pid) \<notin> sv_stale s"
    and "v = foldl (\<lambda>v f. merge f v) (sv_views s i) q (slug, pid)"
  shows "length q \<le> OUT_BUF_LEN \<and>
    (case hget (w_peers w) pid of
       None \<Rightarrow> v = None
     | Some e \<Rightarrow> v = Some (entry_info w e)
        \<or> (\<exists>sess. en_screen_session e = Some sess \<and> so_first_video (w_session w sess) = False
              \<and> v = Some (entry_info w (e\<lparr>en_screen_session := None\<rparr>))))"
proof -
  have "sys_inv s" using server.inv_run [OF boot_inv [OF assms(1)] assms(2)] assms(3) by simp
  then have "length q \<le> OUT_BUF_LEN" and c: "lobby.current (sv_pending s) (sv_stale s) (sv_app s) (sv_views s i) q"
    using assms(4) by (simp_all add: sys_inv_def app_ok_def streams_ok_def)
  moreover have "agrees (truth (sv_app s) (slug, pid)) v"
    using c newest_none [OF assms(6)] assms(7) unfolding lobby.current_def feed.read_def assms(8) by blast
  ultimately show ?thesis
    by (auto simp: truth_def assms(5) face_def face_of_def split: option.splits)
qed

definition stream_request :: "string \<Rightarrow> request" where
  "stream_request ck = toy_request GET ''/api/presence'' [(''cookie'', ck)] []"

lemma stream_opened:
  assumes "session_of toy_ext k (toy_draws 0) (stream_request ck) a \<noteq> None" and "ap_hub a = new_hub"
  shows "\<exists>a'. sys_step toy_ext k (started a vs) (Request (\<lambda>_. None) (toy_draws 0) (stream_request ck)) = started a' vs
    \<and> ap_rooms a' = ap_rooms a \<and> hb_subs (ap_hub a') = [(1, [Snapshot (presence_rooms a)])]"
proof -
  have c: "clean_path ''/api/presence'' = ''/api/presence''" by code_simp
  have sg: "split_on (CHR ''/'') ''api/presence'' = [''api'', ''presence'']" by code_simp
  have p: "rq_path (stream_request ck) = ''/api/presence''" "rq_method (stream_request ck) = GET"
    by (simp_all add: stream_request_def toy_request_def)
  have "authenticated toy_ext k (toy_draws 0) (stream_request ck) a" using assms(1) by (simp add: authenticated_def)
  then have "handle toy_ext k (\<lambda>_. None) (toy_draws 0) (stream_request ck) a
      = answer_with (Some (presence_stream toy_ext k (toy_draws 0) (stream_request ck) a))"
    by (simp add: handle_def route_def route_api_def Let_def p c sg starts_with_def)
  then show ?thesis
    by (auto simp: started_def answer_with_def presence_stream_def Presence.subscribe_def ws_add_def Let_def assms(2) new_hub_def
      hput_def split: prod.split)
qed

lemma admin_session:
  assumes "from_headers toy_crypto (ac_session_secret k) [ck] 0
    = Some \<lparr>sn_role = Admin, sn_generation = 0, sn_admin_version = ac_admin_ver k, sn_entry_id = []\<rparr>"
  shows "session_of toy_ext k (toy_draws 0) (stream_request ck) a \<noteq> None"
proof -
  have x: "ex_crypto toy_ext = toy_crypto" "dr_time (toy_draws 0) = 0" "header_all ''cookie'' (rq_headers (stream_request ck)) = [ck]"
    by (simp_all add: toy_ext_def toy_draws_def stream_request_def toy_request_def header_all_def)
  show ?thesis
    unfolding session_of_def valid_session_def x assms by (simp add: session_live_def constant_time_str_eq_refl)
qed

definition lurker_joins :: "step_ctx \<times> room_event" where
  "lurker_joins = joins 0 ''p'' ''c'' True"

lemma lurker_joined:
  "let w = room_step (room_cx a (fst lurker_joins)) (snd lurker_joins) (new_room ''room1'')
   in map_option (entry_info w) (hget (w_peers w) ''p'')
        = Some (ex_peer ''p''\<lparr>pi_display_name := ''n'', pi_client_id := ''c'', pi_chat_only := True\<rparr>)
      \<and> map_option en_screen_session (hget (w_peers w) ''p'') = Some None \<and> length (w_presence w) = 1"
proof -
  have e: "snd lurker_joins = Join ''p'' (Envelope ''hello'' (HelloData \<lparr>he_display_name = ''n'', he_client_id = ''c'', he_chat_only = True\<rparr>))"
    "cx_env (room_cx a (fst lurker_joins)) = cx_env (example_cx 0 ''t'')"
    by (simp_all add: lurker_joins_def joins_def room_cx_def)
  show ?thesis unfolding Let_def e room_step.simps by code_simp
qed

theorem streams_show_rooms_witness:
  "\<exists>k a0 ops hs s q. boot toy_ext (toy_startup []) Map.empty = (Inr (k, a0), ops)
    \<and> s = foldl (sys_step toy_ext k) (started a0 (\<lambda>_ _. None)) hs \<and> hget (hb_subs (ap_hub (sv_app s))) 1 = Some q
    \<and> foldl (\<lambda>v f. merge f v) (sv_views s 1) q (''room1'', ''p'')
        = Some (ex_peer ''p''\<lparr>pi_display_name := ''n'', pi_client_id := ''c'', pi_chat_only := True\<rparr>)"
proof -
  let ?k = "fst (build_app toy_ext toy_config (replicate 32 (CHR ''s'')) (replicate 32 (CHR ''t'')) \<lparr>cs_entries = [], cs_file = Some []\<rparr> None)"
  let ?v = "\<lambda>_ _. None :: peer_info option"
  obtain a0 ops where b: "boot toy_ext (toy_startup []) Map.empty = (Inr (?k, a0), ops)"
    and a0: "a0 = snd (build_app toy_ext toy_config (replicate 32 (CHR ''s'')) (replicate 32 (CHR ''t'')) \<lparr>cs_entries = [], cs_file = Some []\<rparr> None)"
    using toy_boot [of "[]"] by auto
  have av: "list_all cookie_safe (ac_admin_ver ?k)"
    using sign_chars [OF toy_crypto_ok] by (auto simp: build_app_def toy_ext_def admin_password_version_def list_all_iff cookie_safe_def)
  define ck where "ck = takeWhile (\<lambda>ch. ch \<noteq> CHR '';'') (session_cookie toy_crypto True (ac_session_secret ?k) Admin 0 (ac_admin_ver ?k) [] 0 [])"
  have "from_headers toy_crypto (ac_session_secret ?k) [ck] 0
      = Some \<lparr>sn_role = Admin, sn_generation = 0, sn_admin_version = ac_admin_ver ?k, sn_entry_id = []\<rparr>"
    unfolding ck_def by (rule cookie_session [OF toy_crypto_ok av]) (simp_all add: SESSION_TTL_def unix_secs_def)
  then have "session_of toy_ext ?k (toy_draws 0) (stream_request ck) a0 \<noteq> None" by (rule admin_session)
  from stream_opened [OF this, of ?v] obtain a1 where a1:
    "sys_step toy_ext ?k (started a0 ?v) (Request (\<lambda>_. None) (toy_draws 0) (stream_request ck)) = started a1 ?v"
    "ap_rooms a1 = ap_rooms a0" "hb_subs (ap_hub a1) = [(1, [Snapshot (presence_rooms a0)])]"
    by (auto simp: a0 build_app_def)
  let ?hs = "[Request (\<lambda>_. None) (toy_draws 0) (stream_request ck), InRoom ''room1'' (fst lurker_joins) (snd lurker_joins), Published 0]"
  define s2 where "s2 = happen_in ''room1'' (fst lurker_joins) (snd lurker_joins) (started a1 ?v)"
  have r1: "hget (ap_rooms a1) ''room1'' = Some (new_room ''room1'')"
    by (simp add: a1(2) a0 build_app_def ROOMS_def hget_Cons)
  let ?w = "room_step (room_cx a1 (fst lurker_joins)) (snd lurker_joins) (new_room ''room1'')"
  obtain ev where ev: "w_presence ?w = [ev]" using lurker_joined [of a1] by (auto simp: Let_def length_Suc_conv)
  obtain e where e: "hget (w_peers ?w) ''p'' = Some e" "en_screen_session e = None"
    "entry_info ?w e = ex_peer ''p''\<lparr>pi_display_name := ''n'', pi_client_id := ''c'', pi_chat_only := True\<rparr>"
    using lurker_joined [of a1] by (auto simp: Let_def)
  have s2: "sv_pending s2 = [(event_frame ev, False)]" "sv_stale s2 = {}" "ap_hub (sv_app s2) = ap_hub a1"
      "hget (ap_rooms (sv_app s2)) ''room1'' = Some ?w"
    using ev r1 by (simp_all add: s2_def happen_in_def started_def Let_def new_room_def hashmap_laws(1))
  define s where "s = publish 0 s2"
  have s: "sv_pending s = []" "sv_stale s = {}" "hget (ap_rooms (sv_app s)) ''room1'' = Some ?w"
    using s2 by (simp_all add: s_def publish_def overtake_def restale_def)
  obtain q where q: "hget (hb_subs (ap_hub (sv_app s))) 1 = Some q"
    using a1(3) by (auto simp: s_def publish_def s2 push_queue hget_Cons)
  have run: "s = foldl (sys_step toy_ext ?k) (started a0 ?v) ?hs"
    by (simp only: foldl.simps a1(1) sys_step.simps(2,3) s2_def s_def)
  have "sv_app (started a1 ?v) = a1" by (simp add: started_def)
  then have en: "valid_run (sys_step toy_ext ?k) sys_enabled (started a0 ?v) ?hs"
    using r1 by (simp only: valid_run.simps a1(1) sys_enabled.simps option.case) (simp add: lurker_joins_def joins_def new_room_def)
  from streams_show_rooms [OF b en run q s(3) _ _ refl, of "''p''"] e s(1,2)
  have "foldl (\<lambda>v f. merge f v) (sv_views s 1) q (''room1'', ''p'')
      = Some (ex_peer ''p''\<lparr>pi_display_name := ''n'', pi_client_id := ''c'', pi_chat_only := True\<rparr>)" by simp
  with b run q show ?thesis by blast
qed

end
