(* ===== verification/ScreenViewers.thy ===== *)
theory ScreenViewers
  imports ScreenMedia
begin

text \<open>
  \<open>backend/src/sfu/screen.rs\<close>, the viewers of a screen share among each other: the events of a
  viewer's PC (\<open>ScreenSub::on_event\<close>: the relayed keyframe request, the loss report with its
  floating-point conversion), \<open>request_keyframe\<close>, and a session as a whole under packets of
  the publisher, events of its viewers, ticks of \<open>auto_downgrade_loop\<close> and viewers that come
  and go. The lemmas show that what a viewer is sent does not depend on the other viewers.
\<close>

section \<open>The code: a loss report\<close>

text \<open>
  A floating-point number of \<open>p\<close> significant bits and smallest positive value
  \<open>2\<^sup>-\<^sup>u\<close> (an \<open>f32\<close> has \<open>p = 24\<close> and \<open>u = 149\<close>): a finite non-negative one is a multiple of
  that value, of which \<open>Finite\<close> holds the multiplicity; \<open>Negative\<close> is one with the sign bit set.
\<close>

datatype float_value = NaN | Negative | Finite nat | Infinity

fun bits :: "nat \<Rightarrow> nat" where
  "bits n = (if n = 0 then 0 else Suc (bits (n div 2)))"

declare bits.simps [simp del]

text \<open>Rounding to \<open>p\<close> significant bits, to nearest and ties to even, as every float operation rounds.\<close>

definition round_float :: "nat \<Rightarrow> nat \<Rightarrow> nat" where
  "round_float p n =
     (let e = 2 ^ (bits n - p); q = n div e; r = n mod e
      in (if 2 * r > e \<or> (2 * r = e \<and> odd q) then q + 1 else q) * e)"

text \<open>\<open>loss.clamp(0.0, 1.0)\<close>.\<close>

fun clamp01 :: "nat \<Rightarrow> float_value \<Rightarrow> float_value" where
  "clamp01 u NaN = NaN"
| "clamp01 u Negative = Finite 0"
| "clamp01 u (Finite n) = Finite (min n (2 ^ u))"
| "clamp01 u Infinity = Finite (2 ^ u)"

text \<open>\<open>x as u32\<close>: towards zero, saturating, and 0 for NaN.\<close>

fun float_as_u32 :: "nat \<Rightarrow> float_value \<Rightarrow> nat" where
  "float_as_u32 u NaN = 0"
| "float_as_u32 u Negative = 0"
| "float_as_u32 u (Finite n) = min (n div 2 ^ u) (2 ^ 32 - 1)"
| "float_as_u32 u Infinity = 2 ^ 32 - 1"

fun times_1000 :: "nat \<Rightarrow> float_value \<Rightarrow> float_value" where
  "times_1000 p (Finite n) = Finite (round_float p (1000 * n))"
| "times_1000 p x = x"

definition loss_per_mille :: "nat \<Rightarrow> nat \<Rightarrow> float_value \<Rightarrow> nat" where
  "loss_per_mille p u loss = float_as_u32 u (times_1000 p (clamp01 u loss))"

section \<open>The code: a viewer's events and the keyframe request\<close>

text \<open>What str0m reports on a viewer's PC, as far as \<open>on_event\<close> looks at it.\<close>

datatype viewer_pc_event = WantsKeyframe | EgressStats string "float_value option" | OtherEvent

text \<open>
  \<open>ScreenSub::on_event\<close> of a viewer with the video section \<open>mid\<close>: whether the session is asked
  for a keyframe, and the viewer. Losses are \<open>f32\<close>.
\<close>

fun viewer_on_event :: "string \<Rightarrow> viewer_pc_event \<Rightarrow> screen_sub \<Rightarrow> bool \<times> screen_sub" where
  "viewer_on_event mid WantsKeyframe s = (True, s)"
| "viewer_on_event mid (EgressStats m loss) s =
     (False, case loss of
        Some x \<Rightarrow> if m = mid then s\<lparr>sb_layer := (sb_layer s)\<lparr>lc_loss_per_mille := loss_per_mille 24 149 x\<rparr>\<rparr> else s
      | None \<Rightarrow> s)"
| "viewer_on_event mid OtherEvent s = (False, s)"

definition request_keyframe :: "pub_media \<Rightarrow> screen_write list" where
  "request_keyframe pm = (case pm_video_mid pm of None \<Rightarrow> [] | Some mid \<Rightarrow> [KeyframeToPublisher])"

section \<open>A session and its viewers\<close>

text \<open>
  \<open>FromViewer pc mid ev\<close> is an event of the viewer on that PC, whose video section is \<open>mid\<close>;
  \<open>Negotiated\<close> and \<open>Closed\<close> are what makes its streams there and closes it; \<open>Joins\<close> and \<open>Leaves\<close> are the changes of the viewers' view that \<open>refresh_view\<close> publishes.
\<close>

datatype session_event =
    FromPublisher nat rtp_packet "8 word list option"
  | FromViewer nat string viewer_pc_event
  | Negotiated nat
  | Closed nat
  | Tick share_mode int
  | Joins screen_sub
  | Leaves nat

definition on_viewer :: "nat \<Rightarrow> (screen_sub \<Rightarrow> screen_sub) \<Rightarrow> screen_media \<Rightarrow> screen_media" where
  "on_viewer pc f m = m\<lparr>sm_subs := map (\<lambda>s. if sb_pc s = pc then f s else s) (sm_subs m)\<rparr>"

text \<open>Streams once negotiated stay until the connection is closed, and that is for good.\<close>

definition negotiated :: "screen_sub \<Rightarrow> screen_sub" where
  "negotiated s = (if sb_stream s = NotYet then s\<lparr>sb_stream := Sending\<rparr> else s)"

definition closed :: "screen_sub \<Rightarrow> screen_sub" where
  "closed s = s\<lparr>sb_stream := Ended\<rparr>"

fun session_step :: "pub_media \<Rightarrow> session_event \<Rightarrow> screen_media \<Rightarrow> screen_write list \<times> screen_media" where
  "session_step pm (FromPublisher pt pkt dd) m = snd (session_on_packet pt pkt dd m)"
| "session_step pm (FromViewer pc mid ev) m =
     (if \<exists>s \<in> set (sm_subs m). sb_pc s = pc \<and> fst (viewer_on_event mid ev s) then request_keyframe pm else [],
      on_viewer pc (snd \<circ> viewer_on_event mid ev) m)"
| "session_step pm (Negotiated pc) m = ([], on_viewer pc negotiated m)"
| "session_step pm (Closed pc) m = ([], on_viewer pc closed m)"
| "session_step pm (Tick mode now_ns) m = auto_downgrade_tick mode now_ns m"
| "session_step pm (Joins s) m = ([], m\<lparr>sm_subs := sm_subs m @ [s]\<rparr>)"
| "session_step pm (Leaves pc) m = ([], m\<lparr>sm_subs := filter (\<lambda>s. sb_pc s \<noteq> pc) (sm_subs m)\<rparr>)"

fun session_run :: "pub_media \<Rightarrow> session_event list \<Rightarrow> screen_media \<Rightarrow> screen_write list" where
  "session_run pm [] m = []"
| "session_run pm (e # es) m =
     (case session_step pm e m of (ws, m') \<Rightarrow> ws @ session_run pm es m')"

section \<open>One viewer alone\<close>

text \<open>The writes to one PC, the session with only that viewer, and the events that concern it.\<close>

fun to_pc :: "nat \<Rightarrow> screen_write \<Rightarrow> bool" where
  "to_pc pc (VideoTo p q pkt) = (p = pc)"
| "to_pc pc (AudioTo p q pkt) = (p = pc)"
| "to_pc pc KeyframeToPublisher = False"

definition alone :: "nat \<Rightarrow> screen_media \<Rightarrow> screen_media" where
  "alone pc m = m\<lparr>sm_subs := filter (\<lambda>s. sb_pc s = pc) (sm_subs m)\<rparr>"

fun concerns :: "nat \<Rightarrow> session_event \<Rightarrow> bool" where
  "concerns pc (FromViewer p mid ev) = (p = pc)"
| "concerns pc (Negotiated p) = (p = pc)"
| "concerns pc (Closed p) = (p = pc)"
| "concerns pc (Joins s) = (sb_pc s = pc)"
| "concerns pc (Leaves p) = (p = pc)"
| "concerns pc e = True"

lemma keeps_pc [simp]:
  "sb_pc (snd (sub_forward_video pkt desc s)) = sb_pc s"
  "sb_pc (snd (sub_forward_audio pkt s)) = sb_pc s"
  "sb_pc (snd (viewer_on_event mid ev s)) = sb_pc s"
    apply (simp add: sub_forward_video_def split: prod.splits)
   apply (simp add: sub_forward_audio_def split: prod.splits)
  by (cases "(mid, ev, s)" rule: viewer_on_event.cases) (simp_all split: option.splits)

lemma keeps_pc_stream [simp]: "sb_pc (negotiated s) = sb_pc s" "sb_pc (closed s) = sb_pc s"
  by (simp_all add: negotiated_def closed_def)

lemma writes_own:
  "w \<in> set (fst (sub_forward_video pkt desc s)) \<Longrightarrow> to_pc pc w = (sb_pc s = pc)"
  "w \<in> set (fst (sub_forward_audio pkt s)) \<Longrightarrow> to_pc pc w = (sb_pc s = pc)"
  by (auto simp: sub_forward_video_def sub_forward_audio_def split: prod.splits option.splits if_splits)

lemma each_sub_alone:
  assumes "\<And>s. sb_pc (snd (f s)) = sb_pc s" and "\<And>s w. w \<in> set (fst (f s)) \<Longrightarrow> to_pc pc w = (sb_pc s = pc)"
  shows "filter (to_pc pc) (fst (each_sub f ss)) = fst (each_sub f (filter (\<lambda>s. sb_pc s = pc) ss))"
    and "filter (\<lambda>s. sb_pc s = pc) (snd (each_sub f ss)) = snd (each_sub f (filter (\<lambda>s. sb_pc s = pc) ss))"
    and "filter (to_pc pc) (fst (each_sub f (filter (\<lambda>s. sb_pc s = pc) ss))) = fst (each_sub f (filter (\<lambda>s. sb_pc s = pc) ss))"
proof -
  have "filter (to_pc pc) (fst (f s)) = (if sb_pc s = pc then fst (f s) else [])" for s
    using assms(2) [of _ s] by (auto simp: filter_id_conv filter_empty_conv)
  then show "filter (to_pc pc) (fst (each_sub f ss)) = fst (each_sub f (filter (\<lambda>s. sb_pc s = pc) ss))"
    and "filter (to_pc pc) (fst (each_sub f (filter (\<lambda>s. sb_pc s = pc) ss))) = fst (each_sub f (filter (\<lambda>s. sb_pc s = pc) ss))"
    by (induction ss) (simp_all add: each_sub_def)
  show "filter (\<lambda>s. sb_pc s = pc) (snd (each_sub f ss)) = snd (each_sub f (filter (\<lambda>s. sb_pc s = pc) ss))"
    by (induction ss) (simp_all add: each_sub_def assms(1))
qed

lemmas forwarding_alone =
  each_sub_alone [OF keeps_pc(1) writes_own(1)] each_sub_alone [OF keeps_pc(2) writes_own(2)]

lemma packet_alone:
  "filter (to_pc pc) (fst (snd (session_on_packet pt pkt dd m)))
     = filter (to_pc pc) (fst (snd (session_on_packet pt pkt dd (alone pc m))))"
  "alone pc (snd (snd (session_on_packet pt pkt dd m))) = snd (snd (session_on_packet pt pkt dd (alone pc m)))"
  by (simp_all add: session_on_packet_def on_video_def alone_def Let_def case_prod_beta forwarding_alone)

lemma tick_subs:
  "snd (auto_downgrade_tick mode now m) =
     m\<lparr>sm_subs := map (\<lambda>s. s\<lparr>sb_layer := snd (eval_auto_downgrade now (policy mode) (sb_layer s))\<rparr>) (sm_subs m)\<rparr>"
proof -
  have "map2 (\<lambda>s r. s\<lparr>sb_layer := snd r\<rparr>) ss (map g ss) = map (\<lambda>s. s\<lparr>sb_layer := snd (g s)\<rparr>) ss"
    for g :: "screen_sub \<Rightarrow> bool \<times> layer_ctl" and ss
    by (induction ss) auto
  then show ?thesis by (simp add: auto_downgrade_tick_def Let_def)
qed

lemma tick_writes: "filter (to_pc pc) (fst (auto_downgrade_tick mode now m)) = []"
  by (simp add: auto_downgrade_tick_def Let_def)

lemma request_writes [simp]: "filter (to_pc pc) (request_keyframe pm) = []"
  by (simp add: request_keyframe_def split: option.split)

lemma viewers_same:
  assumes "\<And>s. sb_pc (f s) = sb_pc s"
  shows "filter (\<lambda>s. sb_pc s = pc) (map (\<lambda>s. if sb_pc s = pc then f s else s) ss)
     = map (\<lambda>s. if sb_pc s = pc then f s else s) (filter (\<lambda>s. sb_pc s = pc) ss)"
  by (induction ss) (auto simp: assms)

lemma viewers_other:
  assumes "\<And>s. sb_pc (f s) = sb_pc s" and "p \<noteq> pc"
  shows "filter (\<lambda>s. sb_pc s = pc) (map (\<lambda>s. if sb_pc s = p then f s else s) ss) = filter (\<lambda>s. sb_pc s = pc) ss"
  using assms(2) by (induction ss) (auto simp: assms(1))

lemma on_viewer_alone:
  assumes "\<And>s. sb_pc (f s) = sb_pc s"
  shows "alone pc (on_viewer p f m) = (if p = pc then on_viewer p f (alone pc m) else alone pc m)"
  using viewers_same [of f, OF assms] viewers_other [of f, OF assms] by (simp add: on_viewer_def alone_def)

lemma step_alone:
  assumes "concerns pc e"
  shows "filter (to_pc pc) (fst (session_step pm e m)) = filter (to_pc pc) (fst (session_step pm e (alone pc m)))"
    and "alone pc (snd (session_step pm e m)) = snd (session_step pm e (alone pc m))"
proof -
  have "filter (to_pc pc) (fst (session_step pm e m)) = filter (to_pc pc) (fst (session_step pm e (alone pc m)))
    \<and> alone pc (snd (session_step pm e m)) = snd (session_step pm e (alone pc m))"
  proof (cases e)
    case (FromPublisher pt pkt dd)
    then show ?thesis using packet_alone [of pc pt pkt dd m] by simp
  next
    case (FromViewer p mid ev)
    with assms show ?thesis by (simp add: on_viewer_alone)
  next
    case (Negotiated p)
    with assms show ?thesis by (simp add: on_viewer_alone)
  next
    case (Closed p)
    with assms show ?thesis by (simp add: on_viewer_alone)
  next
    case (Tick mode now)
    then show ?thesis by (simp add: tick_subs tick_writes alone_def filter_map comp_def)
  next
    case (Joins s)
    with assms show ?thesis by (simp add: alone_def)
  next
    case (Leaves p)
    with assms show ?thesis by (simp add: alone_def)
  qed
  then show "filter (to_pc pc) (fst (session_step pm e m)) = filter (to_pc pc) (fst (session_step pm e (alone pc m)))"
    and "alone pc (snd (session_step pm e m)) = snd (session_step pm e (alone pc m))" by simp_all
qed

lemma step_other:
  assumes "\<not> concerns pc e"
  shows "filter (to_pc pc) (fst (session_step pm e m)) = []"
    and "alone pc (snd (session_step pm e m)) = alone pc m"
proof -
  have "filter (to_pc pc) (fst (session_step pm e m)) = [] \<and> alone pc (snd (session_step pm e m)) = alone pc m"
  proof (cases e)
    case (FromViewer p mid ev)
    with assms show ?thesis by (simp add: on_viewer_alone)
  next
    case (Negotiated p)
    with assms show ?thesis by (simp add: on_viewer_alone)
  next
    case (Closed p)
    with assms show ?thesis by (simp add: on_viewer_alone)
  next
    case (Leaves p)
    with assms have "filter (\<lambda>s. sb_pc s = pc) (filter (\<lambda>s. sb_pc s \<noteq> p) ss) = filter (\<lambda>s. sb_pc s = pc) ss" for ss :: "screen_sub list"
      unfolding filter_filter by (intro filter_cong refl) auto
    with Leaves show ?thesis by (simp add: alone_def del: filter_filter)
  qed (use assms in \<open>simp_all add: alone_def\<close>)
  then show "filter (to_pc pc) (fst (session_step pm e m)) = []"
    and "alone pc (snd (session_step pm e m)) = alone pc m" by simp_all
qed

text \<open>
  C38. Viewers of a screen share do not affect each other: whatever the publisher sends, whatever
  the viewers report and ask for, and whoever joins and leaves, the packets written to one
  viewer's connection are those of the same session with that viewer alone in it, under the
  events that concern it; another viewer's losses, layers and departures change nothing.
\<close>
theorem viewers_independent:
  "filter (to_pc pc) (session_run pm es m)
     = filter (to_pc pc) (session_run pm (filter (concerns pc) es) (alone pc m))"
proof (induction es arbitrary: m)
  case Nil
  then show ?case by simp
next
  case (Cons e es)
  then show ?case
    using step_alone [of pc e pm m] step_other [of pc e pm m] Cons [of "snd (session_step pm e m)"]
    by (cases "concerns pc e") (simp_all add: case_prod_beta)
qed

section \<open>The numbers of a viewer\<close>

fun video_number :: "nat \<Rightarrow> screen_write \<Rightarrow> nat option" where
  "video_number pc (VideoTo p q pkt) = (if p = pc then Some q else None)"
| "video_number pc w = None"

definition video_numbers :: "nat \<Rightarrow> screen_write list \<Rightarrow> nat list" where
  "video_numbers pc ws = List.map_filter (video_number pc) ws"

lemma video_numbers_append: "video_numbers pc (ws @ vs) = video_numbers pc ws @ video_numbers pc vs"
  by (simp add: video_numbers_def List.map_filter_def)

text \<open>
  After a step a viewer that stays has been sent the next numbers, none or one, if its streams are
  there; frames that come while they are not are counted and not sent.
\<close>

definition numbers_step :: "nat \<Rightarrow> screen_write list \<Rightarrow> screen_sub \<Rightarrow> screen_sub \<Rightarrow> bool" where
  "numbers_step pc ws s s' \<longleftrightarrow>
     video_numbers pc ws = (if sb_stream s = Sending then [Suc (sf_seq (sb_fwd s))..<Suc (sf_seq (sb_fwd s'))] else [])
     \<and> sf_seq (sb_fwd s) \<le> sf_seq (sb_fwd s')
     \<and> (sb_stream s = Sending \<longrightarrow> sb_stream s' \<noteq> NotYet) \<and> (sb_stream s = Ended \<longrightarrow> sb_stream s' = Ended)"

lemma no_numbers [simp]: "video_numbers pc [] = []"
  by (simp add: video_numbers_def List.map_filter_simps)

lemma forward_numbers:
  "sb_pc s = pc \<Longrightarrow> numbers_step pc (fst (sub_forward_video pkt desc s)) s (snd (sub_forward_video pkt desc s))"
  "numbers_step pc (fst (sub_forward_audio pkt s)) s (snd (sub_forward_audio pkt s))"
proof -
  obtain r f where f: "forward_video (sb_layer s) desc (sb_fwd s) = (r, f)" by (cases "forward_video (sb_layer s) desc (sb_fwd s)")
  then show "sb_pc s = pc \<Longrightarrow> numbers_step pc (fst (sub_forward_video pkt desc s)) s (snd (sub_forward_video pkt desc s))"
    using forward_video_result(1) [of "sb_layer s" desc "sb_fwd s" _ f] forward_video_result(2) [of "sb_layer s" desc "sb_fwd s" f]
    by (cases r) (auto simp: sub_forward_video_def numbers_step_def video_numbers_def List.map_filter_simps)
  show "numbers_step pc (fst (sub_forward_audio pkt s)) s (snd (sub_forward_audio pkt s))"
    by (simp add: sub_forward_audio_def numbers_step_def video_numbers_def List.map_filter_simps split: prod.split)
qed

lemma stream_numbers:
  "numbers_step pc [] s s" "numbers_step pc [] s (negotiated s)" "numbers_step pc [] s (closed s)"
  by (simp_all add: numbers_step_def negotiated_def closed_def)

lemma event_numbers:
  "sf_seq (sb_fwd (snd (viewer_on_event mid ev s))) = sf_seq (sb_fwd s)" "sb_stream (snd (viewer_on_event mid ev s)) = sb_stream s"
  by (cases "(mid, ev, s)" rule: viewer_on_event.cases; simp split: option.splits)+

lemma request_numbers: "video_numbers pc (request_keyframe pm) = []"
  by (simp add: request_keyframe_def video_numbers_def List.map_filter_simps split: option.split)

lemma tick_numbers: "video_numbers pc (fst (auto_downgrade_tick mode now m)) = []"
  by (simp add: auto_downgrade_tick_def Let_def video_numbers_def List.map_filter_simps)

text \<open>The session with one viewer alone.\<close>

lemma alone_step_numbers:
  assumes "sm_subs m = [s]" and "sb_pc s = pc" and "\<forall>s. e \<noteq> Joins s" and "e \<noteq> Leaves pc"
  shows "\<exists>s'. sm_subs (snd (session_step pm e m)) = [s'] \<and> sb_pc s' = pc
    \<and> numbers_step pc (fst (session_step pm e m)) s s'"
proof (cases e)
  case (FromPublisher pt pkt dd)
  with assms(1,2) stream_numbers(1) show ?thesis
    by (simp add: session_on_packet_def on_video_def each_sub_def Let_def case_prod_beta forward_numbers)
next
  case (FromViewer p mid ev)
  with assms(1,2) show ?thesis
    by (simp add: on_viewer_def numbers_step_def event_numbers request_numbers)
next
  case (Negotiated p)
  with assms(1,2) stream_numbers show ?thesis by (simp add: on_viewer_def)
next
  case (Closed p)
  with assms(1,2) stream_numbers show ?thesis by (simp add: on_viewer_def)
next
  case (Tick mode now)
  with assms(1,2) show ?thesis by (simp add: tick_subs numbers_step_def tick_numbers)
next
  case (Leaves p)
  with assms stream_numbers show ?thesis by simp
qed (use assms(3) in simp)

fun joining :: "nat \<Rightarrow> session_event \<Rightarrow> bool" where
  "joining pc (Joins s) = (sb_pc s = pc)"
| "joining pc e = False"

lemma numbers_of_filter: "video_numbers pc (filter (to_pc pc) ws) = video_numbers pc ws"
proof (induction ws)
  case (Cons w ws)
  then show ?case by (cases w) (simp_all add: video_numbers_def List.map_filter_simps)
qed simp

lemma step_numbers:
  assumes "sm_subs (alone pc m) = [s]" and "\<not> joining pc e" and "e \<noteq> Leaves pc"
  shows "\<exists>s'. sm_subs (alone pc (snd (session_step pm e m))) = [s']
    \<and> numbers_step pc (fst (session_step pm e m)) s s'"
proof (cases "concerns pc e")
  case True
  have "sb_pc s = pc" using assms(1) by (auto simp: alone_def filter_eq_Cons_iff)
  moreover have "\<forall>s. e \<noteq> Joins s" using True assms(2) by (cases e) auto
  ultimately show ?thesis
    using alone_step_numbers [OF assms(1), of pc e pm] assms(3) step_alone [OF True, of pm m]
      numbers_of_filter [of pc "fst (session_step pm e m)"] numbers_of_filter [of pc "fst (session_step pm e (alone pc m))"]
    by (auto simp: numbers_step_def)
next
  case False
  with step_other [OF False, of pm m] numbers_of_filter [of pc "fst (session_step pm e m)"] assms(1) show ?thesis
    by (simp add: numbers_step_def)
qed

lemma gone_numbers:
  assumes "sm_subs (alone pc m) = []" and "\<not> joining pc e"
  shows "sm_subs (alone pc (snd (session_step pm e m))) = []" and "video_numbers pc (fst (session_step pm e m)) = []"
proof -
  have "sm_subs (alone pc (snd (session_step pm e m))) = [] \<and> filter (to_pc pc) (fst (session_step pm e m)) = []"
  proof (cases "concerns pc e")
    case True
    show ?thesis unfolding step_alone [OF True, of pm m] using assms True
      by (cases e) (simp_all add: session_on_packet_def on_video_def each_sub_def Let_def case_prod_beta on_viewer_def
        tick_subs tick_writes)
  next
    case False
    with assms(1) show ?thesis by (simp add: step_other)
  qed
  then show "sm_subs (alone pc (snd (session_step pm e m))) = []" and "video_numbers pc (fst (session_step pm e m)) = []"
    using numbers_of_filter [of pc "fst (session_step pm e m)"] by (simp_all add: video_numbers_def List.map_filter_simps)
qed

text \<open>
  C27. Deliberate drops never look like loss, in a session with any number of viewers: whatever the
  publisher sends, whatever layers are chosen and whoever comes and goes, the video packets written
  to a viewer's connection are numbered consecutively, from a number after its random start - the
  one after it, when the viewer's streams were there from the start - until it leaves or its
  connection is closed, after which there are none.
\<close>
theorem session_numbers_consecutive:
  assumes "filter (\<lambda>s. sb_pc s = pc) (sm_subs m) = [s]" and "list_all (\<lambda>e. \<not> joining pc e) es"
  shows "\<exists>first n. video_numbers pc (session_run pm es m) = [first..<first + n] \<and> sf_seq (sb_fwd s) < first
    \<and> (sb_stream s = Sending \<longrightarrow> first = Suc (sf_seq (sb_fwd s))) \<and> (sb_stream s = Ended \<longrightarrow> n = 0)"
proof -
  let ?P = "\<lambda>s xs. \<exists>first n. xs = [first..<first + n] \<and> sf_seq (sb_fwd s) < first
    \<and> (sb_stream s = Sending \<longrightarrow> first = Suc (sf_seq (sb_fwd s))) \<and> (sb_stream s = Ended \<longrightarrow> n = 0)"
  have none: "?P s []" for s :: screen_sub by (rule exI [of _ "Suc (sf_seq (sb_fwd s))"], rule exI [of _ 0]) simp
  have gone: "video_numbers pc (session_run pm es m) = []"
    if "sm_subs (alone pc m) = []" "list_all (\<lambda>e. \<not> joining pc e) es" for es m
    using that
  proof (induction es arbitrary: m)
    case (Cons e es)
    then show ?case using gone_numbers [of pc m e pm] by (simp add: case_prod_beta video_numbers_append)
  qed simp
  have join: "?P s (video_numbers pc ws @ xs)" if st: "numbers_step pc ws s s'" and rest: "?P s' xs" for s s' ws xs
  proof -
    let ?a = "sf_seq (sb_fwd s)" and ?b = "sf_seq (sb_fwd s')"
    from rest obtain first n where x: "xs = [first..<first + n]" "?b < first" "sb_stream s' = Sending \<longrightarrow> first = Suc ?b"
      "sb_stream s' = Ended \<longrightarrow> n = 0" by blast
    show ?thesis
    proof (cases "sb_stream s")
      case Sending
      with st x have "xs = [Suc ?b..<Suc ?b + n]" by (cases "sb_stream s'") (simp_all add: numbers_step_def)
      moreover have "[Suc ?a..<Suc ?b] @ [Suc ?b..<Suc ?b + n] = [Suc ?a..<Suc ?a + (?b - ?a + n)]"
        using st upt_add_eq_append [of "Suc ?a" "Suc ?b" n] by (simp add: numbers_step_def del: upt_Suc)
      ultimately have "video_numbers pc ws @ xs = [Suc ?a..<Suc ?a + (?b - ?a + n)]"
        using st Sending by (simp add: numbers_step_def del: upt_Suc)
      with Sending show ?thesis by (intro exI [of _ "Suc ?a"] exI [of _ "?b - ?a + n"]) simp
    next
      case NotYet
      with st x show ?thesis by (intro exI [of _ first] exI [of _ n]) (simp add: numbers_step_def)
    next
      case Ended
      with st x show ?thesis by (intro exI [of _ first] exI [of _ 0]) (simp add: numbers_step_def)
    qed
  qed
  have "?P s (video_numbers pc (session_run pm es m))"
    if "sm_subs (alone pc m) = [s]" "list_all (\<lambda>e. \<not> joining pc e) es" for s
    using that
  proof (induction es arbitrary: m s)
    case Nil
    then show ?case using none [of s] by simp
  next
    case (Cons e es)
    show ?case
    proof (cases "e = Leaves pc")
      case True
      then have "sm_subs (alone pc (snd (session_step pm e m))) = []" by (simp add: alone_def)
      with gone [of "snd (session_step pm e m)" es] Cons.prems(2) True none [of s] show ?thesis
        by (simp add: video_numbers_append)
    next
      case False
      then obtain s' where s': "sm_subs (alone pc (snd (session_step pm e m))) = [s']"
        "numbers_step pc (fst (session_step pm e m)) s s'"
        using step_numbers [of pc m s e pm] Cons.prems by auto
      from Cons.IH [OF s'(1)] Cons.prems(2) have "?P s' (video_numbers pc (session_run pm es (snd (session_step pm e m))))" by simp
      from join [OF s'(2) this] show ?thesis by (simp only: session_run.simps case_prod_beta video_numbers_append)
    qed
  qed
  with assms show ?thesis by (simp add: alone_def)
qed

definition example_viewer :: "nat \<Rightarrow> sub_stream \<Rightarrow> screen_sub" where
  "example_viewer pc st = \<lparr>sb_peer_id = ''v'', sb_pc = pc, sb_audio_mid = False, sb_layer = new_layer_ctl 2,
     sb_fwd = new_forward 2 40, sb_roc_base = None, sb_stream = st\<rparr>"

definition example_session :: screen_media where
  "example_session = \<lparr>sm_video_pts = [98], sm_audio_pts = [], sm_has_system_audio = False, sm_adapter = new_adapter Vp9C,
     sm_first_video = False, sm_subs = [example_viewer 1 NotYet, example_viewer 2 Sending]\<rparr>"

theorem session_numbers_consecutive_witness:
  "\<exists>n. video_numbers 2 (session_run no_media [FromViewer 1 ''0'' WantsKeyframe, Leaves 1, Tick Sharp 7, Closed 2] example_session)
     = [41..<41 + n]"
proof -
  have "filter (\<lambda>s. sb_pc s = 2) (sm_subs example_session) = [example_viewer 2 Sending]"
    by (simp add: example_session_def example_viewer_def)
  from session_numbers_consecutive [OF this, of "[FromViewer 1 ''0'' WantsKeyframe, Leaves 1, Tick Sharp 7, Closed 2]" no_media]
  show ?thesis by (auto simp: example_viewer_def new_forward_def simp del: session_run.simps)
qed

section \<open>Losses\<close>

lemma bits_bound: "n < 2 ^ j \<Longrightarrow> bits n \<le> j"
proof (induction j arbitrary: n)
  case (Suc j)
  then have "bits (n div 2) \<le> j" by simp
  then show ?case by (simp add: bits.simps [of n])
qed (simp add: bits.simps)

lemma round_float_bounds:
  fixes p n j k :: nat
  assumes "n < 2 ^ j" and "2 ^ (j - p) dvd k"
  shows "k \<le> n \<Longrightarrow> k \<le> round_float p n" and "n \<le> k \<Longrightarrow> round_float p n \<le> k"
proof -
  define e :: nat where "e = 2 ^ (bits n - p)"
  have "e dvd 2 ^ (j - p)" using bits_bound [OF assms(1)] by (simp add: e_def le_imp_power_dvd)
  with assms(2) obtain c where k: "k = c * e" by (metis dvd_trans dvd_def mult.commute)
  have e: "0 < e" by (simp add: e_def)
  have r: "round_float p n = (if 2 * (n mod e) > e \<or> (2 * (n mod e) = e \<and> odd (n div e)) then n div e + 1 else n div e) * e"
    by (simp add: round_float_def Let_def e_def)
  show "k \<le> n \<Longrightarrow> k \<le> round_float p n"
  proof -
    assume "k \<le> n"
    then have "c \<le> n div e" using e by (simp add: k less_eq_div_iff_mult_less_eq)
    then show ?thesis by (simp add: r k)
  qed
  show "n \<le> k \<Longrightarrow> round_float p n \<le> k"
  proof -
    assume "n \<le> k"
    then have "n div e < c \<or> n mod e = 0 \<and> n div e \<le> c"
      using e by (metis k div_le_mono le_neq_implies_less less_eq_div_iff_mult_less_eq
          mod_mult_self2_is_0 nonzero_mult_div_cancel_right not_less order_refl mod_eq_0_iff_dvd dvd_triv_right div_mult_mod_eq add_cancel_right_right le_antisym mult_le_mono1)
    then show ?thesis using e by (auto simp: r k)
  qed
qed

text \<open>
  The per-mille value of a loss is the exact number of whole per mille or one more, never above
  1000, so a loss at or above a policy's threshold always counts as such.
\<close>

lemma loss_reported:
  fixes n :: nat
  defines "exact \<equiv> 1000 * min n (2 ^ 149) div 2 ^ 149"
  shows "exact \<le> loss_per_mille 24 149 (Finite n)" and "loss_per_mille 24 149 (Finite n) \<le> exact + 1"
    and "loss_per_mille 24 149 (Finite n) \<le> 1000"
proof -
  let ?u = "2 ^ 149 :: nat" and ?x = "1000 * min n (2 ^ 149)"
  have x: "?x < 2 ^ 160" "?x \<le> 1000 * ?u" by simp_all
  have dvd: "2 ^ (160 - 24) dvd k * ?u" for k by (rule dvd_mult) (simp add: le_imp_power_dvd)
  have low: "exact * ?u \<le> round_float 24 ?x"
    by (rule round_float_bounds(1) [OF x(1) dvd]) (simp add: exact_def)
  have "?x \<le> (exact + 1) * ?u" unfolding exact_def
    using dividend_less_div_times [of ?u ?x] by (simp only: add_mult_distrib) simp
  then have high: "round_float 24 ?x \<le> (exact + 1) * ?u" by (rule round_float_bounds(2) [OF x(1) dvd])
  have top: "round_float 24 ?x \<le> 1000 * ?u" by (rule round_float_bounds(2) [OF x(1) dvd x(2)])
  have L: "loss_per_mille 24 149 (Finite n) = min (round_float 24 ?x div ?u) (2 ^ 32 - 1)"
    by (simp only: loss_per_mille_def clamp01.simps times_1000.simps float_as_u32.simps)
  have "round_float 24 ?x div ?u \<le> 1000" using div_le_mono [OF top, of ?u] by simp
  then have L': "loss_per_mille 24 149 (Finite n) = round_float 24 ?x div ?u" unfolding L by simp
  then show "loss_per_mille 24 149 (Finite n) \<le> 1000" using \<open>_ \<le> 1000\<close> by simp
  show "exact \<le> loss_per_mille 24 149 (Finite n)" unfolding L' using div_le_mono [OF low, of ?u] by simp
  show "loss_per_mille 24 149 (Finite n) \<le> exact + 1" unfolding L' using div_le_mono [OF high, of ?u] by simp
qed

text \<open>A started session has negotiated its video, so its keyframe requests reach the publisher's PC.\<close>

lemma take_section_mid:
  "(pm_video_mid (snd cm) \<noteq> None \<or> fst cm = None) \<Longrightarrow>
   pm_video_mid (snd (take_section codec_of s cm)) \<noteq> None \<or> fst (take_section codec_of s cm) = None"
  by (cases cm) (auto simp: take_section_def)

lemma negotiated_keyframes:
  assumes "negotiate codec_of answer = Some (v, pm)"
  shows "request_keyframe pm = [KeyframeToPublisher]"
proof -
  obtain c where c: "fold (take_section codec_of) (filter (\<lambda>s. \<not> sec_rejected s) (sections answer)) (None, no_media) = (Some c, pm)"
    using assms by (auto simp: negotiate_def split: prod.splits option.splits)
  have "pm_video_mid (snd (fold (take_section codec_of) ss cm)) \<noteq> None \<or> fst (fold (take_section codec_of) ss cm) = None"
    if "pm_video_mid (snd cm) \<noteq> None \<or> fst cm = None" for ss cm
    using that by (induction ss arbitrary: cm) (simp_all only: fold_simps comp_apply take_section_mid)
  from this [of "(None, no_media)", unfolded fst_conv] c have "pm_video_mid pm \<noteq> None" by (metis fst_conv option.distinct(1) snd_conv)
  then show ?thesis by (auto simp: request_keyframe_def)
qed

end
