(* ===== verification/Viewers.thy ===== *)
theory Viewers
  imports RoomProps ScreenViewers
begin

text \<open>
  Who watches a screen share. A viewer's PeerConnection is known to two maps, that of the viewer's
  own entry and that of the session, which different handlers change in several steps, and closing
  the PeerConnection calls back into the room. The lemmas show that over every run an open one is
  in both: so whoever unsubscribes, leaves or is evicted, and whoever watched a session that ended
  or went to another connection, is sent nothing more.
\<close>

section \<open>The invariant\<close>

definition pc_of :: "world \<Rightarrow> nat \<Rightarrow> pc_obj" where
  "pc_of w sb = w_pc w (ss_pc (w_sub w sb))"

definition watching :: "world \<Rightarrow> nat \<Rightarrow> bool" where
  "watching w sb \<longleftrightarrow> px_owner (pc_of w sb) = OfSub sb \<and> \<not> px_closed (pc_of w sb)"

text \<open>The viewer's entry holds it under the publisher, the registered session under the viewer.\<close>

definition listed :: "world \<Rightarrow> string \<Rightarrow> string \<Rightarrow> nat \<Rightarrow> bool" where
  "listed w sid pub sb \<longleftrightarrow> (\<exists>e. hget (w_peers w) sid = Some e \<and> hget (en_screen_subs e) pub = Some sb)"

definition admitted :: "world \<Rightarrow> nat \<Rightarrow> bool" where
  "admitted w sb \<longleftrightarrow>
     listed w (ss_peer_id (w_sub w sb)) (so_publisher_id (w_session w (ss_session (w_sub w sb)))) sb
   \<and> hget (so_subscribers (w_session w (ss_session (w_sub w sb)))) (ss_peer_id (w_sub w sb)) = Some sb
   \<and> (so_token (w_session w (ss_session (w_sub w sb))), ss_session (w_sub w sb)) \<in> set (w_sessions_by_token w)"

text \<open>
  \<open>X\<close> are the viewers that a handler has taken from a map and not closed yet, \<open>Z\<close> sessions whose
  viewers it has taken. Between steps both are empty.
\<close>

definition viewers :: "nat set \<Rightarrow> nat set \<Rightarrow> world \<Rightarrow> bool" where
  "viewers X Z w \<longleftrightarrow>
     (\<forall>pc sb. px_owner (w_pc w pc) = OfSub sb \<longrightarrow> pc < w_next w \<and> sb < w_next w)
   \<and> (\<forall>s sid sb. (sid, sb) \<in> set (so_subscribers (w_session w s)) \<longrightarrow>
        s < w_next w \<and> ss_pc (w_sub w sb) < w_next w \<and> px_owner (pc_of w sb) = OfSub sb
        \<and> ss_peer_id (w_sub w sb) = sid \<and> ss_session (w_sub w sb) = s)
   \<and> (\<forall>sb. watching w sb \<longrightarrow> sb \<in> X \<or> admitted w sb)
   \<and> (\<forall>s \<in> Z. so_subscribers (w_session w s) = [])"

text \<open>The registered sessions have distinct publishers, and a member's is the one in its entry.\<close>

definition owners :: "world \<Rightarrow> bool" where
  "owners w \<longleftrightarrow>
     (\<forall>t s t' s'. (t, s) \<in> set (w_sessions_by_token w) \<longrightarrow> (t', s') \<in> set (w_sessions_by_token w) \<longrightarrow>
        so_publisher_id (w_session w s) = so_publisher_id (w_session w s') \<longrightarrow> s = s')
   \<and> (\<forall>t s r x. (t, s) \<in> set (w_sessions_by_token w) \<longrightarrow> (so_publisher_id (w_session w s), r, x) \<in> set (members w) \<longrightarrow>
        x = Some s)"

lemma viewersD:
  assumes "viewers X Z w"
  shows "px_owner (w_pc w pc) = OfSub sb \<Longrightarrow> pc < w_next w \<and> sb < w_next w"
    and "(sid, sb) \<in> set (so_subscribers (w_session w s)) \<Longrightarrow> s < w_next w \<and> ss_pc (w_sub w sb) < w_next w
      \<and> px_owner (pc_of w sb) = OfSub sb \<and> ss_peer_id (w_sub w sb) = sid \<and> ss_session (w_sub w sb) = s"
    and "watching w sb \<Longrightarrow> sb \<notin> X \<Longrightarrow> admitted w sb"
    and "s \<in> Z \<Longrightarrow> so_subscribers (w_session w s) = []"
  using assms unfolding viewers_def by blast+

lemma viewers_mono: "viewers X Z w \<Longrightarrow> X \<subseteq> X' \<Longrightarrow> Z' \<subseteq> Z \<Longrightarrow> viewers X' Z' w"
  unfolding viewers_def by blast

section \<open>Writes that change no viewer\<close>

definition still :: "world \<Rightarrow> world \<Rightarrow> bool" where
  "still w w' \<longleftrightarrow> (\<forall>X Z. viewers X Z w \<longrightarrow> viewers X Z w')"

lemma stillD: "still w w' \<Longrightarrow> viewers X Z w \<Longrightarrow> viewers X Z w'"
  by (simp add: still_def)

lemma still_refl [simp]: "still w w"
  by (simp add: still_def)

lemma still_trans: "still w w1 \<Longrightarrow> still w1 w2 \<Longrightarrow> still w w2"
  by (simp add: still_def)

text \<open>It is enough that no viewer opens, no session gains one, and those not excused stay admitted.\<close>

lemma viewers_less:
  assumes "viewers X Z w" and "w_next w \<le> w_next w'"
    and sub: "\<forall>sb. ss_pc (w_sub w' sb) = ss_pc (w_sub w sb) \<and> ss_peer_id (w_sub w' sb) = ss_peer_id (w_sub w sb)
      \<and> ss_session (w_sub w' sb) = ss_session (w_sub w sb)"
    and pc: "\<forall>pc. px_owner (w_pc w' pc) = px_owner (w_pc w pc) \<and> (px_closed (w_pc w pc) \<longrightarrow> px_closed (w_pc w' pc))"
    and subs: "\<forall>s. set (so_subscribers (w_session w' s)) \<subseteq> set (so_subscribers (w_session w s))"
    and adm: "\<And>sb. watching w' sb \<Longrightarrow> sb \<notin> X' \<Longrightarrow> sb \<in> X \<or> admitted w sb \<Longrightarrow> admitted w' sb"
  shows "viewers X' Z w'"
proof -
  note v = viewersD [OF assms(1)] and next_le = less_le_trans [OF _ assms(2)]
  have pc_of: "px_owner (pc_of w' sb) = px_owner (pc_of w sb)" "px_closed (pc_of w sb) \<Longrightarrow> px_closed (pc_of w' sb)" for sb
    using sub pc by (auto simp: pc_of_def)
  show ?thesis
    unfolding viewers_def
  proof (intro conjI allI impI ballI)
    fix pc sb assume "px_owner (w_pc w' pc) = OfSub sb"
    then show "pc < w_next w'" "sb < w_next w'" using pc v(1) next_le by metis+
  next
    fix s sid sb assume "(sid, sb) \<in> set (so_subscribers (w_session w' s))"
    then have "(sid, sb) \<in> set (so_subscribers (w_session w s))" using subs by blast
    from v(2) [OF this] show "s < w_next w'" "ss_pc (w_sub w' sb) < w_next w'" "px_owner (pc_of w' sb) = OfSub sb"
      "ss_peer_id (w_sub w' sb) = sid" "ss_session (w_sub w' sb) = s"
      using next_le sub by (auto simp: pc_of(1))
  next
    fix sb assume w: "watching w' sb"
    then have "watching w sb" using pc_of by (auto simp: watching_def)
    with adm [OF w] v(3) show "sb \<in> X' \<or> admitted w' sb" by blast
  next
    fix s assume "s \<in> Z"
    then have "so_subscribers (w_session w s) = []" by (rule v(4))
    then show "so_subscribers (w_session w' s) = []" using subs by (metis empty_set subset_empty set_empty)
  qed
qed

text \<open>What the viewers are read from, without entries.\<close>

definition same_viewing :: "world \<Rightarrow> world \<Rightarrow> bool" where
  "same_viewing w w' \<longleftrightarrow> w_next w \<le> w_next w' \<and> w_sessions_by_token w' = w_sessions_by_token w
   \<and> (\<forall>sb. ss_pc (w_sub w' sb) = ss_pc (w_sub w sb) \<and> ss_peer_id (w_sub w' sb) = ss_peer_id (w_sub w sb)
        \<and> ss_session (w_sub w' sb) = ss_session (w_sub w sb))
   \<and> (\<forall>pc. px_owner (w_pc w' pc) = px_owner (w_pc w pc) \<and> (px_closed (w_pc w pc) \<longrightarrow> px_closed (w_pc w' pc)))
   \<and> (\<forall>s. so_subscribers (w_session w' s) = so_subscribers (w_session w s)
        \<and> so_publisher_id (w_session w' s) = so_publisher_id (w_session w s) \<and> so_token (w_session w' s) = so_token (w_session w s))"

lemma still_frame:
  assumes "same_viewing w w'" and "\<And>sid pub sb. listed w sid pub sb \<Longrightarrow> listed w' sid pub sb"
  shows "still w w'"
  unfolding still_def
proof (intro allI impI)
  fix X Z assume v: "viewers X Z w"
  have "admitted w sb \<Longrightarrow> admitted w' sb" for sb
    using assms by (simp add: admitted_def same_viewing_def)
  then show "viewers X Z w'"
    using assms(1) by (intro viewers_less [OF v]) (auto simp: same_viewing_def)
qed

lemma listed_same: "w_peers w' = w_peers w \<Longrightarrow> listed w' = listed w"
  by (simp add: listed_def fun_eq_iff)

lemma same_registry_still: "same_registry w w' \<Longrightarrow> still w w'"
  by (rule still_frame) (auto simp: same_registry_def registry_def same_viewing_def listed_def)

lemmas quiet_still = quiet [THEN same_registry_still]

lemma still_entry:
  "hget (w_peers w) pid = Some e \<Longrightarrow> en_screen_subs e' = en_screen_subs e \<Longrightarrow> still w (set_entry pid e' w)"
  by (rule still_frame) (auto simp: same_viewing_def listed_def set_entry_def hashmap_laws)

lemma still_session:
  "so_subscribers so = so_subscribers (w_session w s) \<Longrightarrow> so_publisher_id so = so_publisher_id (w_session w s) \<Longrightarrow>
   so_token so = so_token (w_session w s) \<Longrightarrow> still w (set_session s so w)"
  by (rule still_frame) (auto simp: same_viewing_def listed_def set_session_def)

lemma still_spawn: "still w (spawn_task t w)"
  by (rule still_frame) (auto simp: same_viewing_def listed_def spawn_task_def)

lemma still_ungrace: "still w (cancel_grace g w)"
  by (rule still_frame) (auto simp: same_viewing_def listed_def cancel_grace_def split: option.split)

lemma still_next: "w_next w \<le> n \<Longrightarrow> still w (w\<lparr>w_next := n\<rparr>)"
  by (rule still_frame) (auto simp: same_viewing_def listed_def)

interpretation still: hushed still
proof unfold_locales
  show "still w w1 \<Longrightarrow> still w1 w2 \<Longrightarrow> still w w2" for w w1 w2 by (rule still_trans)
  show "still w (w\<lparr>w_tracks := a\<rparr>)" "still w (w\<lparr>w_audio := b\<rparr>)" "still w (w\<lparr>w_trk := c\<rparr>)" "still w (w\<lparr>w_closed := z\<rparr>)"
    "still w (mark_closed pc w)" "still w (w\<lparr>w_sub := (w_sub w)(sb := (w_sub w sb)\<lparr>ss_pending_offer := False\<rparr>)\<rparr>)"
    for w a b c z pc sb
    by (rule still_frame; simp add: same_viewing_def listed_def mark_closed_def)+
  show "profile e' = profile e \<Longrightarrow> hget (w_peers w) pid = Some e \<Longrightarrow> en_screen_subs e' = en_screen_subs e \<Longrightarrow>
    still w (set_entry pid e' w)" for w pid e e' by (rule still_entry)
  show "standing so = standing (w_session w s) \<Longrightarrow> so_subscribers so = so_subscribers (w_session w s) \<Longrightarrow>
    still w (set_session s so w)" for so w s by (rule still_session) (simp_all add: standing_def)
qed (rule still_refl quiet_still still_spawn still_next; assumption?)+

section \<open>Closing\<close>

text \<open>A close takes from \<open>X\<close> the viewers of the PeerConnection that it closes.\<close>

definition closing :: "(nat \<Rightarrow> world \<Rightarrow> world) \<Rightarrow> bool" where
  "closing close \<longleftrightarrow> (\<forall>X Z pc w. viewers X Z w \<longrightarrow> viewers (X - {sb. ss_pc (w_sub w sb) = pc}) Z (close pc w))"

lemma closingD: "closing close \<Longrightarrow> viewers (insert sb X) Z w \<Longrightarrow> viewers X Z (close (ss_pc (w_sub w sb)) w)"
  unfolding closing_def by (elim allE impE, assumption) (erule viewers_mono, auto)

lemma closing_mark: "closing mark_closed"
  unfolding closing_def
proof (intro allI impI)
  fix X Z pc w assume v: "viewers X Z w"
  show "viewers (X - {sb. ss_pc (w_sub w sb) = pc}) Z (mark_closed pc w)"
  proof (rule viewers_less [OF v])
    fix sb assume "watching (mark_closed pc w) sb" and sb: "sb \<notin> X - {sb. ss_pc (w_sub w sb) = pc}" "sb \<in> X \<or> admitted w sb"
    then have "ss_pc (w_sub w sb) \<noteq> pc" by (auto simp: watching_def pc_of_def mark_closed_def)
    with sb show "admitted (mark_closed pc w) sb" by (simp add: admitted_def listed_def mark_closed_def)
  qed (simp_all add: mark_closed_def)
qed

lemma viewers_closed:
  "viewers X Z w \<Longrightarrow> px_closed (w_pc w pc) \<Longrightarrow> viewers (X - {sb. ss_pc (w_sub w sb) = pc}) Z w"
  by (rule viewers_less) (auto simp: watching_def pc_of_def)

lemma closing_again: "closing close_again"
  using closing_mark viewers_closed by (simp add: closing_def close_again_def)

lemma viewers_detach:
  assumes "detach_sub sid pub only w = (r, w1)" and "viewers X Z w"
  shows "viewers (X \<union> set_option r) Z w1"
proof (cases r)
  case None
  then have "w1 = w" using assms(1) by (auto simp: detach_sub_def split: option.splits if_splits)
  with assms(2) None show ?thesis by simp
next
  case (Some sb)
  then obtain e where e: "hget (w_peers w) sid = Some e" "hget (en_screen_subs e) pub = Some sb"
    and w1: "w1 = set_entry sid (e\<lparr>en_screen_subs := hdel pub (en_screen_subs e)\<rparr>) w"
    using assms(1) by (auto simp: detach_sub_def split: option.splits if_splits)
  have "admitted w1 sb'" if "admitted w sb'" "sb' \<noteq> sb" for sb'
    using that e by (auto simp: admitted_def listed_def w1 set_entry_def hashmap_laws)
  then show ?thesis
    by (intro viewers_less [OF assms(2)]) (auto simp: Some w1 set_entry_def)
qed

lemma viewers_unlist:
  assumes "viewers X Z w" and "hget (so_subscribers (w_session w s)) sid = Some sb"
  shows "viewers (insert sb X) Z (set_session s ((w_session w s)\<lparr>so_subscribers := hdel sid (so_subscribers (w_session w s))\<rparr>) w)"
    (is "viewers _ _ ?w")
proof -
  have "admitted ?w sb'" if "admitted w sb'" "sb' \<noteq> sb" for sb'
    using that assms(2) by (auto simp: admitted_def listed_def set_session_def hashmap_laws)
  then show ?thesis
    by (intro viewers_less [OF assms(1)]) (auto simp: set_session_def hdel_filter)
qed

lemma viewers_remove_sub:
  assumes "closing close" and "viewers X Z w"
  shows "viewers X Z (remove_sub_with close sid pub only w)"
proof -
  obtain r w1 where d: "detach_sub sid pub only w = (r, w1)" by (cases "detach_sub sid pub only w")
  define w2 where "w2 = (case r of None \<Rightarrow> w1 | Some sb \<Rightarrow> close (ss_pc (w_sub w1 sb)) w1)"
  have v2: "viewers X Z w2"
    using viewers_detach [OF d assms(2)] closingD [OF assms(1)] by (cases r) (simp_all add: w2_def)
  have v3: "viewers X Z (close (ss_pc (w_sub w2 sb)) (set_session s ((w_session w2 s)\<lparr>so_subscribers := subs\<rparr>) w2))"
    if "hget (so_subscribers (w_session w2 s)) sid = Some sb" "hdel sid (so_subscribers (w_session w2 s)) = subs" for s sb subs
    using closingD [OF assms(1) viewers_unlist [OF v2 that(1)]] that(2) by (simp add: set_session_def)
  show ?thesis
    unfolding remove_sub_with_def d Let_def prod.case w2_def [symmetric]
    using v2 v3 stillD [OF still.send_to] by (auto simp: send_encode_def split: option.split)
qed

lemma closing_sub_pc: "closing close_sub_pc"
  unfolding closing_def
proof (intro allI impI)
  fix X Z pc w assume v: "viewers X Z w"
  have "viewers (X - {sb. ss_pc (w_sub w sb) = pc}) Z (mark_closed pc w)"
    using closing_mark v by (simp add: closing_def)
  with viewers_remove_sub [OF closing_again this] viewers_closed [OF v]
  show "viewers (X - {sb. ss_pc (w_sub w sb) = pc}) Z (close_sub_pc pc w)"
    by (simp add: close_sub_pc_def Let_def split: pc_owner.split)
qed

lemma still_remove_sub: "still w (remove_screen_sub sid pub only w)"
  unfolding still_def remove_screen_sub_def using viewers_remove_sub [OF closing_sub_pc] by blast

lemma still_close_sub: "still w (close_sub_pc pc w)"
  unfolding still_def
proof (intro allI impI)
  fix X Z assume "viewers X Z w"
  with closing_sub_pc have "viewers (X - {sb. ss_pc (w_sub w sb) = pc}) Z (close_sub_pc pc w)" by (simp add: closing_def)
  then show "viewers X Z (close_sub_pc pc w)" by (rule viewers_mono) auto
qed

section \<open>Taking all viewers of a session, or of an entry\<close>

text \<open>Only sessions without viewers have that publisher.\<close>

definition barred :: "nat set \<Rightarrow> string \<Rightarrow> world \<Rightarrow> bool" where
  "barred Z pub w \<longleftrightarrow> (\<forall>(t, s) \<in> set (w_sessions_by_token w). so_publisher_id (w_session w s) = pub \<longrightarrow> s \<in> Z)"

lemma barred_core: "same_core w w' \<Longrightarrow> barred Z pub w \<Longrightarrow> barred Z pub w'"
  using same_core_sel(2,3) [of w w'] by (simp add: barred_def)

lemma viewers_drop_entry:
  assumes "viewers X Z w" and "barred Z pub w"
  shows "viewers X Z (drop_entry_sub sid pub w)"
proof (cases "hget (w_peers w) sid")
  case None
  with assms(1) show ?thesis by (simp add: drop_entry_sub_def)
next
  case (Some e)
  have other: "so_publisher_id (w_session w (ss_session (w_sub w sb))) \<noteq> pub" if "admitted w sb" for sb
    using that assms(2) viewersD(4) [OF assms(1)] by (fastforce simp: admitted_def barred_def)
  have "admitted (drop_entry_sub sid pub w) sb" if "admitted w sb" for sb
    using that other [OF that] Some by (auto simp: admitted_def listed_def drop_entry_sub_def set_entry_def hashmap_laws)
  then show ?thesis
    by (intro viewers_less [OF assms(1)]) (auto simp: Some drop_entry_sub_def set_entry_def)
qed

lemma viewers_close_stale:
  "viewers (X \<union> set sbs) Z w \<Longrightarrow> barred Z pub w \<Longrightarrow> viewers X Z (fold (close_stale_sub pub) sbs w)"
proof (induction sbs arbitrary: w)
  case (Cons sb sbs)
  have "viewers (X \<union> set sbs) Z (close_sub_pc (ss_pc (w_sub w sb)) w)"
    using Cons.prems(1) by (intro closingD [OF closing_sub_pc]) simp
  then have "viewers (X \<union> set sbs) Z (close_stale_sub pub sb w)"
    unfolding close_stale_sub_def by (rule viewers_drop_entry) (rule barred_core [OF core.close_sub_pc Cons.prems(2)])
  then show ?case using Cons.IH barred_core [OF core.close_stale_sub Cons.prems(2)] by simp
qed simp

lemma viewers_close_subs:
  "viewers (X \<union> set sbs) Z w \<Longrightarrow> viewers X Z (fold (\<lambda>sb v. close_sub_pc (ss_pc (w_sub v sb)) v) sbs w)"
proof (induction sbs arbitrary: w)
  case (Cons sb sbs)
  have "viewers (X \<union> set sbs) Z (close_sub_pc (ss_pc (w_sub w sb)) w)"
    using Cons.prems(1) by (intro closingD [OF closing_sub_pc]) simp
  then show ?case using Cons.IH by simp
qed simp

lemma viewers_take_entry:
  assumes "viewers X Z w"
    and "\<And>sid e. hget (w_peers w) sid = Some e \<Longrightarrow> hget peers sid \<noteq> Some e \<Longrightarrow> set (hvals (en_screen_subs e)) \<subseteq> Y"
  shows "viewers (X \<union> Y) Z (w\<lparr>w_peers := peers, w_tracks := x\<rparr>)"
proof -
  have "admitted (w\<lparr>w_peers := peers, w_tracks := x\<rparr>) sb" if "admitted w sb" "sb \<notin> Y" for sb
  proof -
    from that(1) obtain e where e: "hget (w_peers w) (ss_peer_id (w_sub w sb)) = Some e"
      "hget (en_screen_subs e) (so_publisher_id (w_session w (ss_session (w_sub w sb)))) = Some sb"
      by (auto simp: admitted_def listed_def)
    then have "sb \<in> set (hvals (en_screen_subs e))" by (force simp: hvals_def dest: hget_SomeD)
    with assms(2) [OF e(1)] that(2) have "hget peers (ss_peer_id (w_sub w sb)) = Some e" by blast
    with that(1) e show ?thesis by (auto simp: admitted_def listed_def)
  qed
  then show ?thesis by (intro viewers_less [OF assms(1)]) auto
qed

text \<open>A session loses all its viewers, and may change hands.\<close>

lemma viewers_take_session:
  assumes "viewers X Z w" and "so_subscribers so = []" and "so_token so = so_token (w_session w s)"
  shows "viewers (X \<union> set (hvals (so_subscribers (w_session w s)))) (insert s Z) (set_session s so w)"
proof -
  have "admitted (set_session s so w) sb" if "admitted w sb" "sb \<notin> set (hvals (so_subscribers (w_session w s)))" for sb
  proof -
    have "ss_session (w_sub w sb) \<noteq> s"
      using that by (force simp: admitted_def hvals_def dest: hget_SomeD)
    with that(1) show ?thesis by (auto simp: admitted_def listed_def set_session_def)
  qed
  then have "viewers (X \<union> set (hvals (so_subscribers (w_session w s)))) Z (set_session s so w)"
    by (intro viewers_less [OF assms(1)]) (auto simp: set_session_def assms(2))
  then show ?thesis using assms(2) by (auto simp: viewers_def set_session_def)
qed

section \<open>New objects\<close>

lemma viewers_fresh:
  assumes "viewers X Z w" and "reg_inv w" and "w_next w \<le> w_next w'" and "w_peers w' = w_peers w"
    and "w_sessions_by_token w' = w_sessions_by_token w"
    and old: "\<forall>n < w_next w. w_sub w' n = w_sub w n \<and> w_session w' n = w_session w n"
    and ses: "\<forall>s. w_session w' s = w_session w s \<or> so_subscribers (w_session w' s) = []"
    and pcs: "\<forall>pc. w_pc w' pc = w_pc w pc \<or> w_next w \<le> pc \<and> pc < w_next w' \<and>
      (\<forall>sb. px_owner (w_pc w' pc) = OfSub sb \<longrightarrow> sb \<in> N \<and> sb < w_next w')"
  shows "viewers (X \<union> N) Z w'"
proof -
  note v = viewersD [OF assms(1)] and le = less_le_trans [OF _ assms(3)]
  have kept: "w_pc w' pc = w_pc w pc" if "pc < w_next w" for pc using pcs that by (metis not_le)
  have adm: "admitted w' sb" if "admitted w sb" "sb < w_next w" for sb
  proof -
    have "ss_session (w_sub w sb) < w_next w"
      using that(1) reg_invD(5) [OF assms(2)] by (auto simp: admitted_def)
    with that old assms(4,5) show ?thesis by (simp add: admitted_def listed_def)
  qed
  show ?thesis
    unfolding viewers_def
  proof (intro conjI allI impI ballI)
    fix pc sb assume "px_owner (w_pc w' pc) = OfSub sb"
    with pcs v(1) le show "pc < w_next w'" "sb < w_next w'" by metis+
  next
    fix s sid sb assume "(sid, sb) \<in> set (so_subscribers (w_session w' s))"
    moreover from this have "w_session w' s = w_session w s" using ses by fastforce
    ultimately have s: "s < w_next w" "ss_pc (w_sub w sb) < w_next w" "px_owner (pc_of w sb) = OfSub sb"
      "ss_peer_id (w_sub w sb) = sid" "ss_session (w_sub w sb) = s"
      using v(2) by metis+
    from v(1) s(3) have "sb < w_next w" by (auto simp: pc_of_def)
    with s old kept le show "s < w_next w'" "ss_pc (w_sub w' sb) < w_next w'" "px_owner (pc_of w' sb) = OfSub sb"
      "ss_peer_id (w_sub w' sb) = sid" "ss_session (w_sub w' sb) = s" by (auto simp: pc_of_def)
  next
    fix sb assume w: "watching w' sb"
    show "sb \<in> X \<union> N \<or> admitted w' sb"
    proof (cases "sb \<in> N")
      case False
      with w pcs have pc: "pc_of w' sb = w_pc w (ss_pc (w_sub w' sb))" by (auto simp: watching_def pc_of_def)
      with w v(1) have sb: "sb < w_next w" by (auto simp: watching_def)
      with pc old w have "watching w sb" by (simp add: watching_def pc_of_def)
      with v(3) adm [OF _ sb] show ?thesis by blast
    qed simp
  next
    fix s assume "s \<in> Z"
    from v(4) [OF this] ses show "so_subscribers (w_session w' s) = []" by metis
  qed
qed

section \<open>Publishers\<close>

lemma owners_core: "same_core w w' \<Longrightarrow> owners w \<Longrightarrow> owners w'"
  using same_core_sel(1-3) [of w w'] by (simp add: owners_def)

lemma owners_less:
  "owners w \<Longrightarrow> set (members w') \<subseteq> set (members w) \<Longrightarrow> w_sessions_by_token w' = w_sessions_by_token w \<Longrightarrow>
   (\<And>s. so_publisher_id (w_session w' s) = so_publisher_id (w_session w s)) \<Longrightarrow> owners w'"
  unfolding owners_def by auto

lemma ownersD:
  assumes "owners w"
  shows "(t, s) \<in> set (w_sessions_by_token w) \<Longrightarrow> (t', s') \<in> set (w_sessions_by_token w) \<Longrightarrow>
      so_publisher_id (w_session w s) = so_publisher_id (w_session w s') \<Longrightarrow> s = s'"
    and "(t, s) \<in> set (w_sessions_by_token w) \<Longrightarrow> hget (w_peers w) (so_publisher_id (w_session w s)) = Some e \<Longrightarrow>
      en_screen_session e = Some s"
    and "(t, s) \<in> set (w_sessions_by_token w) \<Longrightarrow> (so_publisher_id (w_session w s), r, x) \<in> set (members w) \<Longrightarrow> x = Some s"
  using assms member_of unfolding owners_def by blast+

section \<open>Ending a session\<close>

lemma end_viewers:
  assumes "reg_inv w" and "owners w" and "viewers {} {} w"
    and "so_closed (w_session w s) \<or> (so_token (w_session w s), s) \<in> set (w_sessions_by_token w)"
  shows "viewers {} {} (end_screen_share_session s w) \<and> owners (end_screen_share_session s w)"
proof (cases "so_closed (w_session w s)")
  case True
  with assms show ?thesis by (simp add: end_screen_share_session_def)
next
  case False
  define so where "so = w_session w s"
  define w1 where "w1 = set_session s (so\<lparr>so_closed := True, so_subscribers := [], so_grace := None\<rparr>) w"
  define w3 where "w3 = close_publisher_pc s (cancel_grace (so_grace so) w1)"
  define w4 where "w4 = set_session s ((w_session w3 s)\<lparr>so_cancelled := True\<rparr>) w3"
  define pub where "pub = so_publisher_id (w_session w4 s)"
  define w5 where "w5 = fold (close_stale_sub pub) (hvals (so_subscribers so)) w4"
  define w6 where "w6 = w5\<lparr>w_sessions_by_token := hdel (so_token so) (w_sessions_by_token w5)\<rparr>"
  have reg: "(so_token so, s) \<in> set (w_sessions_by_token w)" using assms(4) False by (simp add: so_def)
  have c13: "same_core w1 w3" unfolding w3_def by (rule same_core_trans; rule core_intros)
  have c34: "same_core w3 w4" unfolding w4_def by (rule set_session_core; simp)
  have c14: "same_core w1 w4" by (rule same_core_trans [OF c13 c34])
  have c15: "same_core w1 w5" unfolding w5_def by (rule same_core_trans [OF c14 same_core_fold]) (rule core_intros)
  have pub: "pub = so_publisher_id so" using same_core_sel(3) [OF c14, of s] by (simp add: pub_def w1_def set_session_def)
  have "barred {s} pub w1"
    using ownersD(1) [OF assms(2) _ reg] by (auto simp: barred_def w1_def set_session_def pub so_def)
  then have barred: "barred {s} pub w4" by (rule barred_core [OF c14])
  have "viewers (set (hvals (so_subscribers so))) {s} w1"
    using viewers_take_session [OF assms(3), of "so\<lparr>so_closed := True, so_subscribers := [], so_grace := None\<rparr>" s]
    by (simp add: w1_def so_def)
  then have "viewers (set (hvals (so_subscribers so))) {s} w3"
    unfolding w3_def by (intro stillD [OF still.close_publisher_pc] stillD [OF still_ungrace])
  then have "viewers (set (hvals (so_subscribers so))) {s} w4"
    unfolding w4_def by (rule stillD [OF still_session, rotated 3]) simp_all
  then have v5: "viewers {} {s} w5"
    using viewers_close_stale [of "{}" "hvals (so_subscribers so)"] barred by (simp add: w5_def)
  have toks: "w_sessions_by_token w5 = w_sessions_by_token w"
    using same_core_sel(2) [OF c15] by (simp add: w1_def set_session_def)
  have "admitted w6 sb" if a: "admitted w5 sb" for sb
  proof -
    let ?s = "ss_session (w_sub w5 sb)"
    have "?s \<noteq> s" using a viewersD(4) [OF v5, of s] by (auto simp: admitted_def)
    moreover have "(so_token (w_session w5 ?s), ?s) \<in> set (w_sessions_by_token w)" using a by (simp add: admitted_def toks)
    ultimately have "so_token (w_session w5 ?s) \<noteq> so_token so"
      using reg reg_invD(4) [OF assms(1)] by (metis hget_iff option.inject)
    with a show ?thesis by (auto simp: admitted_def listed_def w6_def hdel_filter)
  qed
  then have v6: "viewers {} {} w6"
    by (intro viewers_less [OF viewers_mono [OF v5, of "{}" "{}"]]) (simp_all add: w6_def)
  have v7: "viewers {} {} (clear_owner pub s w6)"
    by (rule stillD [OF _ v6]) (auto simp: clear_owner_def intro: still_entry split: option.split)
  have m6: "members w6 = members w" "so_publisher_id (w_session w6 q) = so_publisher_id (w_session w q)" for q
    using same_core_sel(1,3) [OF c15] by (simp_all add: w6_def w1_def set_session_def members_def so_def)
  have other: "so_publisher_id (w_session w q) \<noteq> pub" "(t, q) \<in> set (w_sessions_by_token w)"
    if "(t, q) \<in> set (w_sessions_by_token w6)" for t q
  proof -
    from that have t: "(t, q) \<in> set (w_sessions_by_token w)" "t \<noteq> so_token so" by (auto simp: w6_def toks hdel_filter)
    then have "q \<noteq> s" using reg_invD(5) [OF assms(1)] by (auto simp: so_def)
    with ownersD(1) [OF assms(2) t(1) reg] t(1) pub
    show "so_publisher_id (w_session w q) \<noteq> pub" "(t, q) \<in> set (w_sessions_by_token w)" by (auto simp: so_def)
  qed
  have mem: "(p, r, x) \<in> set (members w)" if "(p, r, x) \<in> set (members (clear_owner pub s w6))" "p \<noteq> pub" for p r x
    using that members_set_session(1) [of w6] reg_invD(1) [OF assms(1)] m6(1)
    by (auto simp: clear_owner_def split: option.splits if_splits)
  have same7: "w_sessions_by_token (clear_owner pub s w6) = w_sessions_by_token w6" "w_session (clear_owner pub s w6) = w_session w6"
    by (simp_all add: clear_owner_def set_entry_def split: option.split)
  have o7: "owners (clear_owner pub s w6)"
    unfolding owners_def same7 m6(2)
  proof (intro conjI allI impI)
    fix t q t' q' assume a: "(t, q) \<in> set (w_sessions_by_token w6)" "(t', q') \<in> set (w_sessions_by_token w6)"
      "so_publisher_id (w_session w q) = so_publisher_id (w_session w q')"
    show "q = q'" by (rule ownersD(1) [OF assms(2) other(2) [OF a(1)] other(2) [OF a(2)] a(3)])
  next
    fix t q r x assume a: "(t, q) \<in> set (w_sessions_by_token w6)"
      "(so_publisher_id (w_session w q), r, x) \<in> set (members (clear_owner pub s w6))"
    show "x = Some q" by (rule ownersD(3) [OF assms(2) other(2) [OF a(1)] mem [OF a(2) other(1) [OF a(1)]]])
  qed
  have "ended_session s w = clear_owner pub s w6"
    by (simp add: ended_session_def closed_session_def Let_def so_def [symmetric] w1_def [symmetric] w3_def [symmetric]
      w4_def [symmetric] pub_def [symmetric] w5_def [symmetric] w6_def [symmetric])
  then have q: "same_registry (clear_owner pub s w6) (end_screen_share_session s w)" using end_session_tail [OF False] by simp
  show ?thesis using stillD [OF same_registry_still [OF q] v7] owners_core [OF same_registry_core [OF q] o7] by blast
qed

section \<open>Resuming\<close>

lemma resume_viewers:
  assumes "reg_inv w" and "owners w" and "viewers {} {} w"
  shows "viewers {} {} (handle_screen_share_resume r token w) \<and> owners (handle_screen_share_resume r token w)"
proof (cases rule: resume_cases [where r = r and token = token and w = w])
  case same
  with assms show ?thesis by simp
next
  case (refused x y)
  then show ?thesis
    using stillD [OF still.screen_error assms(3)] owners_core [OF core.screen_error assms(2)] by simp
next
  case (taken s e)
  define pid where "pid = po_id (w_peer w r)"
  define so where "so = w_session w s"
  define w1 where "w1 = set_session s (so\<lparr>so_publisher_id := pid, so_grace := None, so_subscribers := []\<rparr>) w"
  define w3 where "w3 = cancel_grace (so_grace so) (set_entry pid (e\<lparr>en_screen_session := Some s\<rparr>) w1)"
  define w4 where "w4 = fold (close_stale_sub (so_publisher_id so)) (hvals (so_subscribers so)) w3"
  note reg = hget_SomeD [OF taken(1)] and i = reg_invD [OF assms(1)]
  have e: "hget (w_peers w) pid = Some e" using taken(2) by (simp add: pid_def)
  have tokens: "w_sessions_by_token w3 = w_sessions_by_token w"
    "so_publisher_id (w_session w3 q) = (if q = s then pid else so_publisher_id (w_session w q))" for q
    by (simp_all add: w3_def w1_def cancel_grace_def set_entry_def set_session_def split: option.split)
  have mine: "q = s" if "(t, q) \<in> set (w_sessions_by_token w)" "so_publisher_id (w_session w q) = pid" for t q
    using ownersD(2) [OF assms(2) that(1)] that(2) e taken(5) by auto
  have "members w3 = members (set_entry pid (e\<lparr>en_screen_session := Some s\<rparr>) w)"
    by (simp add: members_def w3_def w1_def cancel_grace_def set_entry_def set_session_def split: option.split)
  then have mem: "(p, q, x) \<in> set (members w3) \<longleftrightarrow>
      (p \<noteq> pid \<and> (p, q, x) \<in> set (members w)) \<or> (p = pid \<and> q = en_peer e \<and> x = Some s)" for p q x
    using members_set_session(1) [OF i(1) e, of p q x "Some s"] by simp
  have "owners w3"
    unfolding owners_def tokens mem
  proof (intro conjI allI impI)
    fix t q t' q' assume "(t, q) \<in> set (w_sessions_by_token w)" "(t', q') \<in> set (w_sessions_by_token w)"
      "(if q = s then pid else so_publisher_id (w_session w q)) = (if q' = s then pid else so_publisher_id (w_session w q'))"
    then show "q = q'" using mine [of t q] mine [of t' q'] ownersD(1) [OF assms(2), of t q t' q'] by (auto split: if_splits)
  next
    fix t q r x assume "(t, q) \<in> set (w_sessions_by_token w)"
      "((if q = s then pid else so_publisher_id (w_session w q)) \<noteq> pid \<and>
          ((if q = s then pid else so_publisher_id (w_session w q)), r, x) \<in> set (members w))
       \<or> ((if q = s then pid else so_publisher_id (w_session w q)) = pid \<and> r = en_peer e \<and> x = Some s)"
    note a = this
    show "x = Some q"
    proof (cases "q = s")
      case True
      with a(2) show ?thesis by simp
    next
      case False
      then have "so_publisher_id (w_session w q) \<noteq> pid" using mine [OF a(1)] by blast
      with a(2) False have "(so_publisher_id (w_session w q), r, x) \<in> set (members w)" by simp
      then show ?thesis by (rule ownersD(3) [OF assms(2) a(1)])
    qed
  qed
  then have o4: "owners w4" unfolding w4_def by (rule owners_core [OF same_core_fold, rotated]) (rule core_intros)
  have barred: "barred {s} (so_publisher_id so) w3"
    using ownersD(1) [OF assms(2) _ reg] by (auto simp: barred_def tokens so_def)
  have "viewers (set (hvals (so_subscribers so))) {s} w1"
    using viewers_take_session [OF assms(3), of "so\<lparr>so_publisher_id := pid, so_grace := None, so_subscribers := []\<rparr>" s]
    by (simp add: w1_def so_def)
  then have "viewers (set (hvals (so_subscribers so))) {s} w3"
    unfolding w3_def by (intro stillD [OF still_ungrace] stillD [OF still_entry [of w1 pid e]]) (simp_all add: w1_def set_session_def e)
  then have "viewers {} {s} w4"
    using viewers_close_stale [of "{}" "hvals (so_subscribers so)"] barred by (simp add: w4_def)
  then have v4: "viewers {} {} w4" by (rule viewers_mono) simp_all
  have q: "same_registry w4 (handle_screen_share_resume r token w)"
    using resume_tail [OF taken] by (simp add: resumed_session_def w4_def w3_def w1_def pid_def so_def)
  show ?thesis using stillD [OF same_registry_still [OF q] v4] owners_core [OF same_registry_core [OF q] o4] by blast
qed

section \<open>Starting and subscribing\<close>

lemma setup_viewers:
  assumes "reg_inv w" and "viewers {} {} w" and "setup_screen_pub r d token res w = (o', w1)"
  shows "viewers {} {} w1"
proof (cases "res = BadOffer")
  case True
  with assms show ?thesis by (simp add: setup_screen_pub_def)
next
  case False
  define v where "v = w\<lparr>w_session := (w_session w)(w_next w := new_session (po_id (w_peer w r)) token d (w_next w + 1)
        (case setup_codec res of Some (c, _) \<Rightarrow> c | None \<Rightarrow> Vp9C)),
      w_pc := (w_pc w)(w_next w + 1 := \<lparr>px_closed = False, px_owner = OfSession (w_next w)\<rparr>), w_next := w_next w + 1 + 1\<rparr>"
  have v: "viewers {} {} v"
    using viewers_fresh [OF assms(2,1), of v "{}"] by (auto simp: v_def new_session_def)
  have "setup_screen_pub r d token res w =
      (case setup_codec res of Some (c, sdp) \<Rightarrow> (Some (w_next w, sdp), v) | None \<Rightarrow> (None, close_publisher_pc (w_next w) v))"
    using False by (cases "setup_codec res") (simp_all add: setup_screen_pub_def Let_def v_def)
  with assms(3) v stillD [OF still.close_publisher_pc v] show ?thesis by (auto split: option.splits)
qed

text \<open>The four ways a start ends.\<close>

lemma start_cases:
  assumes "setup_screen_pub r d token res w = (o', w1)"
  obtains (busy) "session_of w (po_id (w_peer w r)) \<noteq> None" "handle_screen_share_start r d token res w = send_screen_error r [] AlreadyPublishing w"
  | (failed) "handle_screen_share_start r d token res w = send_screen_error r [] InternalErr w1"
  | (late) s where "handle_screen_share_start r d token res w = close_publisher_pc s w1"
  | (started) s sdp e where "o' = Some (s, sdp)" "hget (w_peers w1) (po_id (w_peer w r)) = Some e" "en_screen_session e = None"
      "same_registry (set_entry (po_id (w_peer w r)) (e\<lparr>en_screen_session := Some s\<rparr>) w1
        \<lparr>w_sessions_by_token := hput token s (w_sessions_by_token w1)\<rparr>) (handle_screen_share_start r d token res w)"
proof (cases "session_of w (po_id (w_peer w r)) \<noteq> None")
  case True
  then show ?thesis by (intro busy) (simp_all add: handle_screen_share_start_def)
next
  case idle: False
  show ?thesis
  proof (cases o')
    case None
    with idle assms show ?thesis by (intro failed) (simp add: handle_screen_share_start_def)
  next
    case (Some q)
    obtain s sdp where q: "q = (s, sdp)" by (cases q)
    show ?thesis
    proof (cases "\<exists>e. hget (w_peers w1) (po_id (w_peer w r)) = Some e \<and> en_screen_session e = None")
      case True
      then obtain e where e: "hget (w_peers w1) (po_id (w_peer w r)) = Some e" "en_screen_session e = None" by blast
      have "same_registry v (peer_send r b (peer_send r a v))" for v a b
        by (rule same_registry_trans; rule peer_send_quiet)
      with idle assms Some q e show ?thesis
        by (intro started) (simp_all add: handle_screen_share_start_def Let_def, simp add: set_entry_def)
    next
      case False
      have "handle_screen_share_start r d token res w = close_publisher_pc s w1"
      proof (cases "hget (w_peers w1) (po_id (w_peer w r))")
        case None
        with idle assms Some q show ?thesis by (simp add: handle_screen_share_start_def)
      next
        case e: (Some e)
        with False have "en_screen_session e \<noteq> None" by auto
        with e idle assms Some q show ?thesis
          by (simp only: handle_screen_share_start_def Let_def if_False option.case prod.case)
      qed
      then show ?thesis by (rule late)
    qed
  qed
qed

lemma setup_same:
  assumes "reg_inv w" and "setup_screen_pub r d token res w = (o', w1)"
  shows "members w1 = members w" and "w_sessions_by_token w1 = w_sessions_by_token w"
    and "(t, q) \<in> set (w_sessions_by_token w) \<Longrightarrow> so_publisher_id (w_session w1 q) = so_publisher_id (w_session w q)"
proof -
  show "members w1 = members w" "w_sessions_by_token w1 = w_sessions_by_token w"
    using setup_inv [OF assms] by (simp_all add: members_def)
  assume "(t, q) \<in> set (w_sessions_by_token w)"
  then have "q \<noteq> w_next w" using reg_invD(5) [OF assms(1)] by blast
  then show "so_publisher_id (w_session w1 q) = so_publisher_id (w_session w q)"
    using assms(2) by (auto simp: setup_screen_pub_def Let_def close_publisher_pc_def spawn_task_def mark_closed_def
      split: if_splits option.splits)
qed

lemma owners_setup:
  "reg_inv w \<Longrightarrow> owners w \<Longrightarrow> setup_screen_pub r d token res w = (o', w1) \<Longrightarrow> owners w1"
  unfolding owners_def using setup_same by metis

lemma owners_register:
  assumes "reg_inv w" and "owners w" and "hget (w_peers w) pid = Some e" and "en_screen_session e = None"
    and "so_publisher_id (w_session w s) = pid" and "hget (w_sessions_by_token w) token = None"
  shows "owners (set_entry pid (e\<lparr>en_screen_session := Some s\<rparr>) w\<lparr>w_sessions_by_token := hput token s (w_sessions_by_token w)\<rparr>)"
proof -
  let ?w1 = "set_entry pid (e\<lparr>en_screen_session := Some s\<rparr>) w"
  let ?w = "?w1\<lparr>w_sessions_by_token := hput token s (w_sessions_by_token w)\<rparr>"
  have same: "w_session ?w = w_session w" "members ?w = members ?w1" by (simp_all add: set_entry_def members_def)
  have toks: "(t, q) \<in> set (w_sessions_by_token ?w) \<longleftrightarrow> (t, q) \<in> set (w_sessions_by_token w) \<or> (t, q) = (token, s)" for t q
    using assms(6) by (auto simp: hput_fresh)
  have other: "so_publisher_id (w_session w q) \<noteq> pid" if "(t, q) \<in> set (w_sessions_by_token w)" for t q
    using ownersD(2) [OF assms(2) that] assms(3,4) by auto
  note mem = members_set_session(1) [OF reg_invD(1) [OF assms(1)] assms(3), where x = "Some s"]
  show ?thesis
    unfolding owners_def same toks mem
  proof (intro conjI allI impI)
    fix t q t' q' assume "(t, q) \<in> set (w_sessions_by_token w) \<or> (t, q) = (token, s)"
      "(t', q') \<in> set (w_sessions_by_token w) \<or> (t', q') = (token, s)"
      "so_publisher_id (w_session w q) = so_publisher_id (w_session w q')"
    then show "q = q'" using other [of t q] other [of t' q'] assms(5) ownersD(1) [OF assms(2), of t q t' q'] by auto
  next
    fix t q r x assume "(t, q) \<in> set (w_sessions_by_token w) \<or> (t, q) = (token, s)"
      "(so_publisher_id (w_session w q) \<noteq> pid \<and> (so_publisher_id (w_session w q), r, x) \<in> set (members w))
       \<or> (so_publisher_id (w_session w q) = pid \<and> r = en_peer e \<and> x = Some s)"
    then show "x = Some q" using other [of t q] assms(5) ownersD(3) [OF assms(2), of t q r x] by auto
  qed
qed

lemma start_viewers:
  assumes "reg_inv w" and "owners w" and "viewers {} {} w" and "hget (w_sessions_by_token w) token = None"
  shows "viewers {} {} (handle_screen_share_start r d token res w) \<and> owners (handle_screen_share_start r d token res w)"
proof -
  obtain o' w1 where su: "setup_screen_pub r d token res w = (o', w1)" by (cases "setup_screen_pub r d token res w")
  have v1: "viewers {} {} w1" by (rule setup_viewers [OF assms(1,3) su])
  have o1: "owners w1" by (rule owners_setup [OF assms(1,2) su])
  from su show ?thesis
  proof (cases rule: start_cases)
    case busy
    then show ?thesis using stillD [OF still.screen_error assms(3)] owners_core [OF core.screen_error assms(2)] by simp
  next
    case failed
    then show ?thesis using stillD [OF still.screen_error v1] owners_core [OF core.screen_error o1] by simp
  next
    case (late s)
    then show ?thesis using stillD [OF still.close_publisher_pc v1] owners_core [OF core.close_publisher_pc o1] by simp
  next
    case (started s sdp e)
    note i = setup_inv [OF assms(1) su]
    let ?w = "set_entry (po_id (w_peer w r)) (e\<lparr>en_screen_session := Some s\<rparr>) w1
        \<lparr>w_sessions_by_token := hput token s (w_sessions_by_token w1)\<rparr>"
    have tok: "hget (w_sessions_by_token w1) token = None" using i assms(4) by simp
    have "still (set_entry (po_id (w_peer w r)) (e\<lparr>en_screen_session := Some s\<rparr>) w1) ?w"
      unfolding still_def
    proof (intro allI impI)
      fix X Z assume v: "viewers X Z (set_entry (po_id (w_peer w r)) (e\<lparr>en_screen_session := Some s\<rparr>) w1)"
      show "viewers X Z ?w"
        by (rule viewers_less [OF v]) (auto simp: admitted_def listed_def set_entry_def hput_fresh tok)
    qed
    moreover have "still w1 (set_entry (po_id (w_peer w r)) (e\<lparr>en_screen_session := Some s\<rparr>) w1)"
      by (rule still_entry [OF started(2)]) simp
    ultimately have "viewers {} {} ?w" using v1 by (blast intro: stillD)
    moreover have "owners ?w"
      by (rule owners_register [OF _ o1 started(2,3) _ tok]) (use i started(1) in simp_all)
    ultimately show ?thesis
      using stillD [OF same_registry_still [OF started(4)]] owners_core [OF same_registry_core [OF started(4)]] by blast
  qed
qed

lemma set_hput: "set (hput k v m) \<subseteq> insert (k, v) (set m)"
  by (induction m) (auto simp: hput_def)

lemma subscribe_viewers:
  assumes "reg_inv w" and "viewers {} {} w"
  shows "viewers {} {} (handle_screen_share_subscribe r d offer w)"
proof (cases "session_of w (su_publisher_id d)")
  case None
  then show ?thesis using stillD [OF still.screen_error assms(2)] by (simp add: handle_screen_share_subscribe_def Let_def)
next
  case (Some s)
  let ?sid = "po_id (w_peer w r)"
  define pub where "pub = so_publisher_id (w_session w s)"
  define sb where "sb = w_next w"
  define pc where "pc = sb + 1"
  define w1 where "w1 = w\<lparr>w_sub := (w_sub w)(sb := \<lparr>ss_peer_id = ?sid, ss_pc = pc, ss_session = s,
        ss_pending_offer = (offer \<noteq> None), ss_target = min (int (unat (su_preferred_temporal_layer d))) 2\<rparr>),
      w_pc := (w_pc w)(pc := \<lparr>px_closed = False, px_owner = OfSub sb\<rparr>), w_next := pc + 1\<rparr>"
  define w2 where "w2 = set_session s ((w_session w1 s)\<lparr>so_subscribers := hput ?sid sb (so_subscribers (w_session w1 s))\<rparr>) w1"
  define already where "already \<longleftrightarrow> (case hget (w_peers w) ?sid of Some e \<Rightarrow> hget (en_screen_subs e) (su_publisher_id d) \<noteq> None | None \<Rightarrow> False)"
  from Some obtain ep where "hget (w_peers w) (su_publisher_id d) = Some ep" "en_screen_session ep = Some s"
    by (auto simp: session_of_def split: option.splits)
  then have reg: "(so_token (w_session w s), s) \<in> set (w_sessions_by_token w)" and pub_id: "su_publisher_id d = pub"
    using reg_invD(6) [OF assms(1)] member_of pub_def by metis+
  have open': "\<not> so_closed (w_session w1 s)" and s: "s < w_next w"
    using reg_invD(5) [OF assms(1) reg] by (simp_all add: w1_def)
  have w1: "viewers {sb} {} w1"
    using viewers_fresh [OF assms(2,1), of w1 "{sb}"] by (auto simp: w1_def sb_def pc_def)
  have fail: "viewers {} {} (send_screen_error r pub x (close_sub_pc pc w1))" for x
    using stillD [OF still.screen_error closingD [OF closing_sub_pc w1]] by (simp add: w1_def)
  have w2: "w_peers w2 = w_peers w" "w_session w2 s = (w_session w s)\<lparr>so_subscribers := hput ?sid sb (so_subscribers (w_session w s))\<rparr>"
    "w_sessions_by_token w2 = w_sessions_by_token w" "ss_pc (w_sub w2 sb) = pc" "ss_peer_id (w_sub w2 sb) = ?sid" "ss_session (w_sub w2 sb) = s"
    by (simp_all add: w2_def w1_def set_session_def)
  have v2: "viewers {sb} {} w2" and lists: "\<And>sb'. admitted w2 sb' \<Longrightarrow> sb' \<noteq> sb \<Longrightarrow> \<not> listed w2 ?sid pub sb'" if new: "\<not> already"
  proof -
    have free: "\<not> listed v ?sid pub sb'" if "w_peers v = w_peers w" for v sb'
      using new that by (auto simp: already_def listed_def pub_id)
    then show "admitted w2 sb' \<Longrightarrow> sb' \<noteq> sb \<Longrightarrow> \<not> listed w2 ?sid pub sb'" for sb' by (simp add: w2)
    have "admitted w2 sb'" if a: "admitted w1 sb'" "sb' \<noteq> sb" for sb'
    proof -
      have "\<not> (ss_session (w_sub w1 sb') = s \<and> ss_peer_id (w_sub w1 sb') = ?sid)"
        using a(1) free [of w1 sb'] by (auto simp: admitted_def pub_def w1_def)
      with a(1) show ?thesis by (auto simp: admitted_def listed_def w2_def set_session_def hashmap_laws)
    qed
    then have adm: "sb' \<in> {sb} \<or> admitted w2 sb'" if "watching w2 sb'" for sb'
      using that viewersD(3) [OF w1, of sb'] by (auto simp: watching_def pc_of_def w2_def set_session_def)
    have subs: "(p, sb') \<in> set (so_subscribers (w_session w1 q)) \<or> (p = ?sid \<and> sb' = sb \<and> q = s)"
      if "(p, sb') \<in> set (so_subscribers (w_session w2 q))" for p sb' q
      using that set_hput [of ?sid sb "so_subscribers (w_session w1 s)"] by (auto simp: w2_def set_session_def split: if_splits)
    have same: "w_pc w2 = w_pc w1" "w_sub w2 = w_sub w1" "w_next w2 = w_next w1" "pc_of w2 = pc_of w1"
      by (simp_all add: w2_def set_session_def pc_of_def fun_eq_iff)
    have new_sub: "s < w_next w1" "ss_pc (w_sub w1 sb) < w_next w1" "px_owner (pc_of w1 sb) = OfSub sb"
      "ss_peer_id (w_sub w1 sb) = ?sid" "ss_session (w_sub w1 sb) = s"
      using s by (simp_all add: w1_def pc_of_def sb_def pc_def)
    show "viewers {sb} {} w2"
      unfolding viewers_def same using viewersD(1) [OF w1] viewersD(2) [OF w1] subs new_sub adm by blast
  qed
  have gone: "viewers {} {} (remove_screen_sub ?sid pub (Some pc) w2)" if "\<not> already" "hget (w_peers w2) ?sid = None"
  proof -
    have "viewers {} {} (close_sub_pc (ss_pc (w_sub w2 sb)) (set_session s ((w_session w2 s)\<lparr>so_subscribers := hdel ?sid (so_subscribers (w_session w2 s))\<rparr>) w2))"
    proof -
      have "viewers {sb} {} (set_session s ((w_session w2 s)\<lparr>so_subscribers := hdel ?sid (so_subscribers (w_session w2 s))\<rparr>) w2)"
        using viewers_unlist [OF v2 [OF that(1)], of s ?sid sb] by (simp add: w2 hashmap_laws)
      from closingD [OF closing_sub_pc this] show ?thesis by (simp add: set_session_def)
    qed
    moreover define w3 where "w3 = close_sub_pc (ss_pc (w_sub w2 sb)) (set_session s ((w_session w2 s)\<lparr>so_subscribers := hdel ?sid (so_subscribers (w_session w2 s))\<rparr>) w2)"
    ultimately have w3: "viewers {} {} w3" by simp
    have "detach_sub ?sid pub (Some pc) w2 = (None, w2)" "session_of w2 pub = Some s"
      using that(2) \<open>session_of w (su_publisher_id d) = Some s\<close> by (simp_all add: detach_sub_def session_of_def w2 pub_id)
    moreover have "hget (so_subscribers (w_session w2 s)) ?sid = Some sb" "sub_matches w2 (Some pc) sb"
      by (simp_all add: w2 hashmap_laws sub_matches_def)
    ultimately have "remove_screen_sub ?sid pub (Some pc) w2
        = (if hdel ?sid (so_subscribers (w_session w2 s)) = [] then send_encode pub EncodePause w3 else w3)"
      by (simp only: remove_screen_sub_def remove_sub_with_def Let_def prod.case option.case w3_def if_True)
    then show ?thesis using w3 stillD [OF still.send_to w3] by (simp add: send_encode_def)
  qed
  have told: "viewers {} {} (peer_send r m (set_entry ?sid (e\<lparr>en_screen_subs := hput pub sb (en_screen_subs e)\<rparr>) w2))"
    if "\<not> already" "hget (w_peers w2) ?sid = Some e" for e m
  proof (rule stillD [OF still.send])
    show "viewers {} {} (set_entry ?sid (e\<lparr>en_screen_subs := hput pub sb (en_screen_subs e)\<rparr>) w2)" (is "viewers _ _ ?w")
    proof (rule viewers_less [OF v2 [OF that(1)]])
      fix sb' assume "sb' \<in> {sb} \<or> admitted w2 sb'"
      then consider "sb' = sb" | "admitted w2 sb'" "sb' \<noteq> sb" by blast
      then show "admitted ?w sb'"
      proof cases
        case 1
        have "listed ?w ?sid pub sb" by (auto simp: listed_def set_entry_def hashmap_laws)
        then show ?thesis using reg by (simp add: 1 admitted_def w2 set_entry_def pub_def hashmap_laws)
      next
        case 2
        with lists [OF that(1) 2] that(2) show ?thesis by (auto simp: admitted_def listed_def set_entry_def hashmap_laws)
      qed
    qed (simp_all add: set_entry_def)
  qed
  then have resumed: "viewers {} {} (send_encode pub EncodeResume (peer_send r m (set_entry ?sid (e\<lparr>en_screen_subs := hput pub sb (en_screen_subs e)\<rparr>) w2)))"
    if "\<not> already" "hget (w_peers w2) ?sid = Some e" for e m
    unfolding send_encode_def using that by (intro stillD [OF still.send_to])
  show ?thesis
  proof (cases already)
    case True
    then show ?thesis using assms(2) Some by (simp add: handle_screen_share_subscribe_def Let_def already_def [symmetric])
  next
    case False
    show ?thesis
      unfolding handle_screen_share_subscribe_def Let_def Some option.case pub_def [symmetric] sb_def [symmetric]
        pc_def [symmetric] w1_def [symmetric] w2_def [symmetric] already_def [symmetric]
      using assms(2) fail gone [OF False] told [OF False] resumed [OF False] by (auto split: option.split)
  qed
qed

section \<open>Leaving and joining\<close>

lemma still_start_grace: "still w (start_screen_share_grace s now w)"
  unfolding start_screen_share_grace_def Let_def
  by (auto intro!: still_trans [OF still_next still_trans [OF still_session still_trans [OF still_ungrace still_spawn]]])

lemma owners_start_grace: "owners w \<Longrightarrow> owners (start_screen_share_grace s now w)"
  by (erule owners_less) (auto simp: start_screen_share_grace_def Let_def spawn_task_def cancel_grace_def set_session_def
    members_def split: option.split)

lemma remove_peer_viewers:
  assumes "owners w" and "viewers {} {} w"
  shows "viewers {} {} (remove_peer env now pid w) \<and> owners (remove_peer env now pid w)"
proof (cases "hget (w_peers w) pid")
  case None
  with assms show ?thesis by (simp add: remove_peer_def)
next
  case (Some e)
  define w1 where "w1 = w\<lparr>w_peers := hdel pid (w_peers w), w_tracks := hdel pid (w_tracks w)\<rparr>"
  have "viewers ({} \<union> set (hvals (en_screen_subs e))) {} w1"
    unfolding w1_def by (rule viewers_take_entry [OF assms(2)]) (use Some in \<open>auto simp: hashmap_laws split: if_splits\<close>)
  then have v2: "viewers {} {} (close_entry_subs e w1)"
    unfolding close_entry_subs_def by (rule viewers_close_subs)
  have "owners w1"
    by (rule owners_less [OF assms(1)]) (auto simp: w1_def members_def hdel_filter)
  then have o2: "owners (close_entry_subs e w1)" by (rule owners_core [OF core.close_entry_subs])
  have "viewers {} {} (after_grace now pid e w) \<and> owners (after_grace now pid e w)"
    using v2 o2 stillD [OF still_start_grace v2] owners_start_grace [OF o2]
    by (simp add: after_grace_def Let_def w1_def split: option.split)
  with remove_peer_tail [OF Some, of now env] show ?thesis
    using stillD [OF same_registry_still] owners_core [OF same_registry_core] by blast
qed

lemma leave_viewers:
  assumes "owners w" and "viewers {} {} w"
  shows "viewers {} {} (leave env now r w) \<and> owners (leave env now r w)"
proof -
  have "viewers {} {} (cancel_peer r w)" "owners (cancel_peer r w)"
    by (rule stillD [OF still.cancel assms(2)], rule owners_core [OF core.cancel assms(1)])
  note i = remove_peer_viewers [OF this(2,1), of env now "po_id (w_peer w r)"]
  show ?thesis unfolding leave_def Let_def
    using i stillD [OF still.audio_close] owners_core [OF core.audio_close] by (auto split: option.split)
qed

lemma evicted_in:
  assumes "evict cid w = (evs, w1)" and "hget (w_peers w) sid = Some e" and "hget (w_peers w1) sid \<noteq> Some e"
  shows "e \<in> set evs"
proof (cases "cid = []")
  case True
  with assms show ?thesis by (simp add: evict_def)
next
  case False
  define ids where "ids = map (\<lambda>e. po_id (w_peer w (en_peer e)))
      (filter (\<lambda>e. po_client_id (w_peer w (en_peer e)) = cid) (hvals (w_peers w)))"
  have "evs = List.map_filter (\<lambda>pid. hget (w_peers w) pid) ids" "w_peers w1 = fold hdel ids (w_peers w)"
    using assms(1) False by (auto simp: evict_def Let_def ids_def)
  moreover have "hget (fold hdel ids m) sid = (if sid \<in> set ids then None else hget m sid)" for m :: "(string, entry) hashmap"
    by (induction ids arbitrary: m) (auto simp: hashmap_laws)
  ultimately show ?thesis
    using assms(2,3) by (force simp: List.map_filter_def split: if_splits)
qed

lemma viewers_dismiss:
  "viewers (\<Union>e \<in> set evs. set (hvals (en_screen_subs e))) {} w \<Longrightarrow> viewers {} {} (fold (dismiss others) evs w)"
proof (induction evs arbitrary: w)
  case (Cons e evs)
  let ?X = "\<Union>e \<in> set evs. set (hvals (en_screen_subs e))"
  have "viewers (?X \<union> set (hvals (en_screen_subs e))) {} (cancel_peer (en_peer e) w)"
    using stillD [OF still.cancel Cons.prems] by (simp add: Un_commute)
  then have "viewers ?X {} (close_entry_subs e (cancel_peer (en_peer e) w))"
    unfolding close_entry_subs_def by (rule viewers_close_subs)
  then have "viewers ?X {} (dismiss others e w)"
    unfolding dismiss_def Let_def by (rule stillD [OF still.broadcast])
  then show ?case using Cons.IH by simp
qed simp

lemma add_peer_viewers:
  assumes "reg_inv w" and "owners w" and "viewers {} {} w" and none: "hget (w_peers w) (po_id (w_peer w r)) = None"
    and fresh: "\<forall>(t, s) \<in> set (w_sessions_by_token w). so_publisher_id (w_session w s) \<noteq> po_id (w_peer w r)"
  shows "viewers {} {} (add_peer env r name w) \<and> owners (add_peer env r name w)"
proof -
  obtain evs w1 where ev: "evict (po_client_id (w_peer w r)) w = (evs, w1)"
    by (cases "evict (po_client_id (w_peer w r)) w")
  let ?pid = "po_id (w_peer w1 r)" and ?X = "\<Union>e \<in> set evs. set (hvals (en_screen_subs e))"
  define w2 where "w2 = set_entry ?pid (new_entry r name) w1"
  obtain peers x where w1: "w1 = w\<lparr>w_peers := peers, w_tracks := x\<rparr>"
  proof (cases "po_client_id (w_peer w r) = []")
    case True
    then have "w1 = w\<lparr>w_peers := w_peers w, w_tracks := w_tracks w\<rparr>" using ev by (simp add: evict_def)
    then show ?thesis by (rule that)
  next
    case False
    then show ?thesis using ev by (intro that) (auto simp: evict_def Let_def)
  qed
  have e: "set (members w1) \<subseteq> set (members w)" using evict_inv [OF assms(1) ev] by blast
  have none1: "hget (w_peers w1) ?pid = None"
  proof -
    have "?pid \<notin> fst ` set (members w)" using none by (force simp: hget_None_iff members_def w1)
    then have "?pid \<notin> fst ` set (members w1)" using e by auto
    then show ?thesis by (force simp: hget_None_iff members_def)
  qed
  have "viewers ({} \<union> ?X) {} w1"
    unfolding w1
    by (rule viewers_take_entry [OF assms(3)]) (use evicted_in [OF ev] in \<open>fastforce simp: w1\<close>)
  moreover have "still w1 w2"
    by (rule still_frame) (use none1 in \<open>auto simp: w2_def same_viewing_def listed_def set_entry_def hashmap_laws\<close>)
  ultimately have v2: "viewers ?X {} w2" by (simp add: stillD)
  have "owners w1" by (rule owners_less [OF assms(2) e]) (simp_all add: w1)
  then have o2: "owners w2"
    using fresh members_add [OF none1, of r name] unfolding owners_def by (auto simp: w2_def set_entry_def w1)
  note tail = add_peer_tail [OF ev, of name env, folded w2_def]
  show ?thesis
    using stillD [OF same_registry_still [OF tail] viewers_dismiss [OF v2]]
      owners_core [OF add_peer_core [OF ev, of name env, folded w2_def] o2] by blast
qed

lemma join_viewers:
  assumes "reg_inv w" and "owners w" and "viewers {} {} w" and "hget (w_peers w) pid = None"
    and "\<forall>(t, s) \<in> set (w_sessions_by_token w). so_publisher_id (w_session w s) \<noteq> pid"
  shows "viewers {} {} (join env pid h w) \<and> owners (join env pid h w)"
proof -
  obtain r w1 where n: "new_peer pid h w = (r, w1)" by (cases "new_peer pid h w")
  note i = new_peer_inv [OF assms(1) n]
  have w1: "w_sessions_by_token w1 = w_sessions_by_token w" "w_session w1 = w_session w" "w_sub w1 = w_sub w"
    "w_next w1 = w_next w + 3" "\<forall>q. w_pc w1 q = w_pc w q \<or> (q = w_next w + 2 \<and> px_owner (w_pc w1 q) = OfAudio (w_next w + 1))"
    using n by (auto simp: new_peer_def Let_def split: if_splits)
  have "viewers ({} \<union> {}) {} w1"
    by (rule viewers_fresh [OF assms(3,1)]) (use i w1 in auto)
  moreover have "owners w1" by (rule owners_less [OF assms(2)]) (use i w1 in auto)
  ultimately have a: "viewers {} {} (add_peer env r (he_display_name h) w1) \<and> owners (add_peer env r (he_display_name h) w1)"
    using i w1 assms(4,5) by (intro add_peer_viewers) simp_all
  then show ?thesis
    using stillD [OF still.signal_all] owners_core [OF core.signal_all] by (simp add: join_def n Let_def)
qed

section \<open>Every step\<close>

lemma still_presence: "still w (presence ev w)"
  by (rule quiet_still(5))

lemma still_display_name: "still w (set_display_name pid name w)"
  unfolding set_display_name_def Let_def
  by (auto split: option.split intro!: still_trans [OF still_entry still_trans [OF still.broadcast still_presence]])

lemma still_muted: "still w (set_muted a m w)"
  by (simp add: set_muted_def still.cells split: option.split)

lemma still_state: "still w (set_state pid m d w)"
  unfolding set_state_def Let_def
  by (auto split: option.split intro!: still_trans [OF still_entry still_trans [OF still_muted still_trans [OF still.broadcast still_presence]]])

lemma still_first_video: "still w (screen_first_video s w)"
proof -
  have told: "still v (fold (\<lambda>r u. peer_send r a (peer_send r b u)) rs v)" for a b rs v
    by (rule still.loop) (rule still_trans [OF still.send still.send])
  have "still v (first_screen_video_ready s v)" for v
    unfolding first_screen_video_ready_def Let_def send_encode_def
    by (auto split: option.split intro!: still_trans [OF told still_presence]
      still_trans [OF still_trans [OF told still_presence] still.send_to])
  then show ?thesis
    unfolding screen_first_video_def using still_trans [OF still_session [of "(w_session w s)\<lparr>so_first_video := True\<rparr>" w s]] by simp
qed

lemma still_written: "still w (w\<lparr>w_peer := (w_peer w)(r := p)\<rparr>)"
  by (rule still_frame) (simp_all add: same_viewing_def listed_def)

lemma still_tasks: "still w (w\<lparr>w_tasks := ts\<rparr>)"
  by (rule still_frame) (simp_all add: same_viewing_def listed_def)

definition viewing_inv :: "world \<Rightarrow> bool" where
  "viewing_inv w \<longleftrightarrow> reg_inv w \<and> owners w \<and> viewers {} {} w"

text \<open>
  A join brings a peer id that neither a member has nor the publisher of a session that waits for
  its publisher: ids are ULIDs with random bits.
\<close>

fun fresh_enabled :: "world \<Rightarrow> step_ctx \<times> room_event \<Rightarrow> bool" where
  "fresh_enabled w (cx, Join pid f) \<longleftrightarrow>
     hget (w_peers w) pid = None \<and> list_all (\<lambda>(t, s). so_publisher_id (w_session w s) \<noteq> pid) (w_sessions_by_token w)"
| "fresh_enabled w (cx, e) \<longleftrightarrow> room_enabled w (cx, e)"

lemma fresh_room_enabled: "fresh_enabled w ce \<Longrightarrow> room_enabled w ce"
  by (cases "(w, ce)" rule: fresh_enabled.cases) auto

text \<open>What is still and leaves the core alone keeps both halves.\<close>

lemma viewing_quiet:
  "viewing_inv w \<Longrightarrow> still w w' \<Longrightarrow> same_core w w' \<Longrightarrow> viewers {} {} w' \<and> owners w'"
  unfolding viewing_inv_def using stillD owners_core by blast

lemma viewing_end:
  assumes "viewing_inv w" and "so_closed (w_session w s) \<or> (so_token (w_session w s), s) \<in> set (w_sessions_by_token w)"
  shows "viewers {} {} (end_screen_share_session s w) \<and> owners (end_screen_share_session s w)"
  using assms end_viewers unfolding viewing_inv_def by blast

lemma viewing_stop: "viewing_inv w \<Longrightarrow> viewers {} {} (handle_screen_share_stop r w) \<and> owners (handle_screen_share_stop r w)"
proof -
  assume inv: "viewing_inv w"
  have "(so_token (w_session w s), s) \<in> set (w_sessions_by_token w)" if "session_of w pid = Some s" for pid s
  proof -
    from that obtain e where "hget (w_peers w) pid = Some e" "en_screen_session e = Some s"
      by (auto simp: session_of_def split: option.splits)
    then show ?thesis using reg_invD(6) member_of inv unfolding viewing_inv_def by metis
  qed
  then show ?thesis
    using inv viewing_end [OF inv] by (auto simp: handle_screen_share_stop_def viewing_inv_def split: option.split)
qed

lemma viewing_dispatch:
  assumes "viewing_inv w" and "hget (w_sessions_by_token w) (cx_token cx) = None"
  shows "viewers {} {} (dispatch cx r m w) \<and> owners (dispatch cx r m w)"
proof -
  note q = viewing_quiet [OF assms(1)] and i = assms(1) [unfolded viewing_inv_def]
  have "viewers {} {} (handle_screen_share_subscribe r d offer w) \<and> owners (handle_screen_share_subscribe r d offer w)" for d offer
    using i subscribe_viewers owners_core [OF core.subscribe] by blast
  moreover have "viewers {} {} (handle_screen_share_start r d (cx_token cx) res w) \<and> owners (handle_screen_share_start r d (cx_token cx) res w)" for d res
    using i assms(2) by (intro start_viewers) simp_all
  moreover have "viewers {} {} (handle_screen_share_resume r t w) \<and> owners (handle_screen_share_resume r t w)" for t
    using i by (intro resume_viewers) simp_all
  ultimately show ?thesis
    using viewing_stop [OF assms(1)] i
    by (cases "(cx, r, m, w)" rule: dispatch.cases)
      (simp_all add: q still.chat core.chat still.chat_delete core.chat_delete still.answer core.answer
        still_display_name set_display_name_core still_state set_state_core still.renegotiate core.renegotiate
        still.client_offer core.client_offer still_remove_sub core.remove_screen_sub still.mode_change core.mode_change)
qed

lemma viewing_message:
  assumes "viewing_inv w" and "hget (w_sessions_by_token w) (cx_token cx) = None"
  shows "viewers {} {} (handle_client_message cx r m w) \<and> owners (handle_client_message cx r m w)"
  using viewing_dispatch [OF assms] viewing_quiet [OF assms(1) still.ping core.ping] assms(1)
  by (auto simp: handle_client_message_def viewing_inv_def simp del: dispatch.simps split: client_msg.split option.split)

lemma viewing_task:
  assumes "viewing_inv w" and "\<And>s tok at. t = GraceTimer s tok at \<Longrightarrow>
    so_closed (w_session w s) \<or> (so_token (w_session w s), s) \<in> set (w_sessions_by_token w)"
  shows "viewers {} {} (run_task cx t w) \<and> owners (run_task cx t w)"
proof (cases t)
  case SignalAllTask
  then show ?thesis using viewing_quiet [OF assms(1) still.signal_all core.signal_all] by (simp add: run_task_def)
next
  case (EndSessionTask token)
  have "(so_token (w_session w s), s) \<in> set (w_sessions_by_token w)" if "hget (w_sessions_by_token w) token = Some s" for s
    using assms(1) reg_invD(5) hget_SomeD [OF that] unfolding viewing_inv_def by metis
  with viewing_end [OF assms(1)] assms(1) show ?thesis
    by (auto simp: run_task_def EndSessionTask viewing_inv_def split: option.split)
next
  case (GraceTimer s tok at)
  with viewing_end [OF assms(1)] assms show ?thesis by (simp add: run_task_def viewing_inv_def)
qed

lemma viewing_step: "viewing_inv w \<Longrightarrow> fresh_enabled w ce \<Longrightarrow> viewing_inv (next_world w ce)"
proof -
  assume inv: "viewing_inv w" and en: "fresh_enabled w ce"
  obtain cx e where ce: "ce = (cx, e)" by (cases ce)
  note q = viewing_quiet [OF inv] and i = inv [unfolded viewing_inv_def]
  have "viewers {} {} (room_step cx e w) \<and> owners (room_step cx e w)"
  proof (cases e)
    case (Join pid f)
    with en i show ?thesis
      by (auto simp: ce list_all_iff split: option.split intro!: join_viewers [THEN conjunct1] join_viewers [THEN conjunct2])
  next
    case (Message r m)
    with en viewing_message [OF inv] show ?thesis by (simp add: ce)
  next
    case (Leave r)
    with i leave_viewers show ?thesis by simp
  next
    case (Task j)
    define v where "v = w\<lparr>w_tasks := take j (w_tasks w) @ drop (Suc j) (w_tasks w)\<rparr>"
    have v: "viewing_inv v"
      using q [OF still_tasks without_task_core, of j] reg_inv_core [OF without_task_core] i
      unfolding viewing_inv_def v_def by blast
    have "viewers {} {} (run_task cx (w_tasks w ! j) v) \<and> owners (run_task cx (w_tasks w ! j) v)" if "j < length (w_tasks w)"
    proof (rule viewing_task [OF v])
      fix s tok at assume "w_tasks w ! j = GraceTimer s tok at"
      then have "GraceTimer s tok at \<in> set (w_tasks w)" using that by (metis nth_mem)
      then have "(s, tok) \<in> timed w" unfolding timed_def by blast
      from reg_invD(7) [OF _ this, unfolded timer_ok_def] i
      show "so_closed (w_session v s) \<or> (so_token (w_session v s), s) \<in> set (w_sessions_by_token v)"
        by (auto simp: v_def)
    qed
    with Task i show ?thesis by (simp add: v_def)
  qed (simp_all add: q still.first_audio_packet core.first_audio_packet still_first_video first_video_core
      still_close_sub core.close_sub_pc still.close_publisher_pc core.close_publisher_pc still_written written_core
      still.close_room core.close_room)
  then show ?thesis
    using room_step_inv [OF _ fresh_room_enabled [OF en]] i unfolding viewing_inv_def by (simp add: next_world_def ce)
qed

interpretation viewing: stepper next_world fresh_enabled viewing_inv
  by unfold_locales (rule viewing_step)

lemma new_room_viewing: "viewing_inv (new_room room_id)"
  using new_room_inv
  by (auto simp: viewing_inv_def owners_def viewers_def new_room_def new_session_def watching_def pc_of_def)

section \<open>The property\<close>

text \<open>The viewers in the media part of a session, as \<open>refresh_view\<close> publishes them.\<close>

definition view_of :: "world \<Rightarrow> nat \<Rightarrow> (string \<times> nat) list" where
  "view_of w s = map (\<lambda>(sid, sb). (sid, ss_pc (w_sub w sb))) (so_subscribers (w_session w s))"

text \<open>A member's entry holds the connection as its subscription to the session's publisher.\<close>

definition subscribed :: "world \<Rightarrow> nat \<Rightarrow> nat \<Rightarrow> bool" where
  "subscribed w s pc \<longleftrightarrow>
     list_ex (\<lambda>(sid, e). case hget (en_screen_subs e) (so_publisher_id (w_session w s)) of
                           None \<Rightarrow> False | Some sb \<Rightarrow> ss_pc (w_sub w sb) = pc) (w_peers w)"

definition fresh_run_ok :: "string \<Rightarrow> (step_ctx \<times> room_event) list \<Rightarrow> bool" where
  "fresh_run_ok rm es = valid_run next_world fresh_enabled (new_room rm) es"

lemma view_open:
  assumes "viewing_inv w" and "(sid, pc) \<in> set (view_of w s)" and "\<not> px_closed (w_pc w pc)"
  shows "subscribed w s pc"
proof -
  from assms(2) obtain sb where sb: "(sid, sb) \<in> set (so_subscribers (w_session w s))" "ss_pc (w_sub w sb) = pc"
    by (auto simp: view_of_def)
  have v: "viewers {} {} w" using assms(1) by (simp add: viewing_inv_def)
  note i = viewersD(2) [OF v sb(1)]
  with assms(3) sb(2) have "watching w sb" by (simp add: watching_def pc_of_def)
  then have "admitted w sb" using viewersD(3) [OF v] by blast
  with i obtain e where "hget (w_peers w) sid = Some e" "hget (en_screen_subs e) (so_publisher_id (w_session w s)) = Some sb"
    by (auto simp: admitted_def listed_def)
  with sb(2) show ?thesis by (auto simp: subscribed_def list_ex_iff intro!: bexI [OF _ hget_SomeD])
qed

lemma packet_to_view:
  "x \<in> set (fst (snd (session_on_packet pt pkt dd m))) \<Longrightarrow> to_pc pc x \<Longrightarrow> \<exists>b \<in> set (sm_subs m). sb_pc b = pc"
  by (auto simp: session_on_packet_def on_video_def each_sub_def Let_def writes_own split: prod.splits if_splits) blast

text \<open>
  C39. Screen media goes only to members that subscribed to it: after any run of a room, when a
  packet of a publisher is handed to the viewers that its session shows, every write to a connection
  that is not closed is to a member of the room whose own entry holds that connection as its
  subscription to the session's present publisher. So whoever has unsubscribed, left, or been
  evicted, and whoever watched a session before it ended or was resumed by another connection, is
  sent nothing more.
\<close>
theorem media_only_to_subscribers:
  assumes "fresh_run_ok rm es"
    and "map (\<lambda>b. (sb_peer_id b, sb_pc b)) (sm_subs m) = view_of (run_room rm es) s"
    and "x \<in> set (fst (snd (session_on_packet pt pkt dd m)))" and "to_pc pc x"
    and "\<not> px_closed (w_pc (run_room rm es) pc)"
  shows "subscribed (run_room rm es) s pc"
proof -
  have inv: "viewing_inv (run_room rm es)"
    using viewing.inv_run [OF new_room_viewing] assms(1) by (simp add: fresh_run_ok_def run_room_def)
  from packet_to_view [OF assms(3,4)] obtain b where b: "b \<in> set (sm_subs m)" "sb_pc b = pc" by auto
  then have "(sb_peer_id b, pc) \<in> set (view_of (run_room rm es) s)" unfolding assms(2) [symmetric] by force
  then show ?thesis using assms(5) by (rule view_open [OF inv])
qed

text \<open>Two join, the first shares, the second subscribes.\<close>

definition watched :: "(step_ctx \<times> room_event) list" where
  "watched = [joins 0 ''a'' ''c'' False, shares 0 0 ''t'', joins 1 ''b'' ''d'' False,
     (example_cx 2 ''u'', Message 5 (CShareSubscribe (Some \<lparr>su_publisher_id = ''a'', su_preferred_temporal_layer = 2\<rparr>)))]"

lemma watched_ok:
  "fresh_run_ok ''r'' watched" "view_of (run_room ''r'' watched) 3 = [(''b'', 9)]" "\<not> px_closed (w_pc (run_room ''r'' watched) 9)"
  by code_simp+

definition watched_media :: screen_media where
  "watched_media = \<lparr>sm_video_pts = [98], sm_audio_pts = [], sm_has_system_audio = False, sm_adapter = Vp9,
     sm_first_video = True, sm_subs = [(example_viewer 9 Sending)\<lparr>sb_peer_id := ''b''\<rparr>]\<rparr>"

theorem media_only_to_subscribers_witness:
  "subscribed (run_room ''r'' watched) 3 9"
proof -
  let ?pkt = "\<lparr>rp_seq = 1, rp_ts = 0, rp_marker = True, rp_payload = [8]\<rparr>"
  have x: "VideoTo 9 41 ?pkt \<in> set (fst (snd (session_on_packet 98 ?pkt None watched_media)))" by code_simp
  have v: "map (\<lambda>b. (sb_peer_id b, sb_pc b)) (sm_subs watched_media) = view_of (run_room ''r'' watched) 3"
    unfolding watched_ok(2) by code_simp
  show ?thesis by (rule media_only_to_subscribers [OF watched_ok(1) v x _ watched_ok(3)]) simp
qed

end
