(* ===== verification/Spec2Isabelle.thy ===== *)
theory Spec2Isabelle
  imports Limiter FileStore BitReader Dd Codec Audio AudioSlots Text ScreenMedia RoomProps Access Mux Conn Listener Updater
    Secrets RateLimit LoadClient Boot LoadTest ConnFile Rtc System ScreenViewers
    RoomGrace Viewers
begin

text \<open>
  Verification development of voice-hub: a voice-chat server with a selective forwarding unit (the Rust
  crate under \<open>backend/\<close>), the load generator that exercises it (\<open>loadclient.rs\<close>, \<open>bin/loadtest\<close>) and
  the desktop shell (\<open>src-tauri/\<close>). Paths below are relative to \<open>backend/src\<close> unless they name
  \<open>src-tauri\<close>.

  The parts of the program and how they interact. \<open>main.rs\<close> reads the configuration and the secrets and
  builds one \<open>App\<close>: the rooms, the presence hub, the file store, the connection passwords, the login
  limiter and the registry of live connections. \<open>http/server.rs\<close> routes a request through the API rate
  limiter and the session gates to the handlers. A WebSocket upgrade leads to a room (\<open>sfu/mod.rs\<close>): its
  messages change the room's registry, the audio slots (\<open>sfu/audio.rs\<close>) and the screen-share sessions
  (\<open>sfu/screen.rs\<close>); the room's events go to the presence hub and from there to the presence streams. Media
  arrives as datagrams on the sockets of \<open>sfu/net.rs\<close>, is routed to a PeerConnection, and is forwarded
  by \<open>audio.rs\<close> and \<open>screen.rs\<close>, the latter with the layer information of \<open>codec.rs\<close> and \<open>dd.rs\<close>.

  Which theory models what.

  Foundations. \<open>Prelude\<close>: times, hash maps behind the interface \<open>kv_store\<close>, early returns (\<open>tryE\<close>), decimal
  numbers, runs and the interface \<open>stepper\<close>. \<open>Text\<close>: the string methods of the standard library on bytes of
  UTF-8. \<open>Util\<close>: \<open>util.rs\<close> (hex, ULIDs, seconds). \<open>HttpText\<close>: the text half of \<open>http/mod.rs\<close>. \<open>Serde\<close>: JSON values
  and what derived (de)serializers do with them, behind the interface \<open>wire_type\<close>.

  Authentication. \<open>Limiter\<close>: \<open>auth/limiter.rs\<close>. \<open>Password\<close>: \<open>auth/password.rs\<close>. \<open>ConnPass\<close>: \<open>auth/connpass.rs\<close>;
  \<open>ConnFile\<close>: its file and the times of \<open>util.rs\<close> in it. \<open>Secrets\<close>: \<open>auth/secrets.rs\<close>, the disk as a map and a
  write as a list of disk operations, so that a crash is a prefix of it. \<open>Session\<close>: \<open>auth/session.rs\<close> and
  \<open>auth/mod.rs\<close>. \<open>Access\<close>: what these promise together.

  HTTP. \<open>Config\<close>: \<open>config.rs\<close> and the client's address. \<open>RateLimit\<close>: \<open>ratelimit.rs\<close>. \<open>Sniff\<close>: \<open>http/sniff.rs\<close>.
  \<open>FileStore\<close>: \<open>filestore.rs\<close>. \<open>Upload\<close>: \<open>http/upload.rs\<close>. \<open>Ws\<close>: the handshake of \<open>http/ws.rs\<close>. \<open>Presence\<close>:
  \<open>presence.rs\<close>. \<open>Handlers\<close>: \<open>http/handlers.rs\<close> and \<open>turn.rs\<close>, with the state \<open>app\<close>. \<open>Server\<close>: \<open>http/server.rs\<close>.
  \<open>Boot\<close>: \<open>main.rs\<close> and \<open>bin/hashpass.rs\<close>.

  Rooms. \<open>Protocol\<close> and \<open>Wire\<close>: \<open>sfu/protocol.rs\<close>, the messages and their JSON. \<open>RoomState\<close>, \<open>ScreenShare\<close>,
  \<open>Room\<close>: the state of a room (record \<open>world\<close>) and its handlers, from \<open>sfu/mod.rs\<close>, \<open>sfu/screen.rs\<close> and the
  signalling of \<open>sfu/audio.rs\<close>. Everything behind an \<open>Arc\<close> is a numbered cell of the state; a handler is one
  function from state to state, in the order of its critical sections and sends; what the code spawns is a
  list of tasks that later steps run. \<open>Conn\<close>: one WebSocket connection, its reader and writer. \<open>RoomKeeps\<close>,
  \<open>RoomInv\<close>, \<open>RoomFrame\<close>, \<open>RoomGrace\<close>: what handlers leave alone, the invariant of the registry, what they may
  write, and whose grace timers they cancel. \<open>RoomProps\<close>: the properties of rooms over runs. \<open>RoomFeed\<close>: the
  events a room emits are its changes.

  Media. \<open>BitReader\<close>, \<open>Dd\<close>: \<open>sfu/dd.rs\<close>. \<open>Codec\<close>: \<open>sfu/codec.rs\<close>. \<open>Audio\<close>: the packets of \<open>sfu/audio.rs\<close>;
  \<open>AudioSlots\<close>: its pool of slots. \<open>ScreenMedia\<close>: the packets, the layer control and the negotiation of
  \<open>sfu/screen.rs\<close>; \<open>ScreenViewers\<close>: a session under the events of all its viewers, their streams
  (\<open>sub_stream\<close>: negotiated or not, closed) included; \<open>Viewers\<close>: which members the packets of a session can
  reach. \<open>Rtc\<close>: \<open>sfu/rtc.rs\<close>. \<open>Stun\<close>, \<open>Mux\<close>: \<open>sfu/net.rs\<close>, STUN and the outbox, and the sockets, routes and
  the driver of a PeerConnection.

  \<open>System\<close>: the server as a whole, in which requests, room events, streams, the janitor and the shutdown
  interleave. A room's handler makes its presence events under the lock of the room and pushes them after
  it has released it, so they are pending (\<open>sv_pending\<close>, in \<open>Presence\<close> \<open>pn_pending\<close>) until a step of its own
  pushes any one of them; a member whose newer event was pushed first is overtaken (\<open>sv_stale\<close>,
  \<open>pn_stale\<close>).

  Load generator: \<open>LoadMedia\<close> and \<open>LoadClient\<close> (\<open>loadclient.rs\<close>), \<open>LoadTest\<close> (\<open>bin/loadtest/main.rs\<close>). Desktop: \<open>Listener\<close> (\<open>src-tauri/src/listener.rs\<close>, \<open>shortcut.rs\<close>, \<open>tray_flash.rs\<close>, \<open>commands.rs\<close>), \<open>Updater\<close>
  (\<open>updater.rs\<close>, \<open>connection.rs\<close>, \<open>tray.rs\<close>).

  What the lemmas show. Each component has an invariant and a lemma that every operation keeps it; the
  locale \<open>stepper\<close> (interpreted for the file store, the connection passwords, the dependency
  descriptors, the chain tracker, the voices, the slot pool, the layer control, the viewers, the rooms, the
  hub and the whole server) carries it over runs. A room's handlers are walked through once per locale:
  \<open>world_pred\<close> (predicates that the primitive writes keep: queues, the room id of events, pending tasks)
  and \<open>keeps\<close> (relations: the core of the registry, the faces of the members). \<open>delta_feed\<close> says when a
  queue of deltas with snapshots converges, \<open>tolerant_feed\<close> extends it for readers that may be behind on
  purpose, because an event of theirs is pending or was overtaken; they are interpreted for the hub's frames
  and for the whole server. \<open>wire_type\<close> says that a payload is read back; it is interpreted for the payloads of the protocol and of the files. On these rest:
  the gates of the routes, that logins open and password changes end sessions, that restarts log nobody
  out; the membership, ownership, grace window, queues and audio slots of rooms; that chat reaches everybody
  and screen media only those who subscribed; that streams show the rooms but for late events; refinements
  of the limiter and the chain tracker to specifications without their bookkeeping; round trips of parsers and printers; bounds of every buffer; termination of loops.

  Machine integers are \<open>word\<close> where they can wrap (counters, RTP fields, header bits); lengths and times
  are natural numbers, as the code's 64 bits hold them. Recursion is structural or has a measure, but for
  two loops that need not end by themselves: \<open>glob_loop\<close> of \<open>Ws\<close>, proved total, and the driver \<open>poll\<close> of \<open>Mux\<close>,
  total where the engine's outputs end. No definition has fuel: None is a panic, an error or
  not returning, and says which where it stands.

  Third-party code is an argument: str0m (record \<open>rtc_env\<close> and the engine of \<open>Mux\<close>), Argon2, HMAC and Base64
  (\<open>crypto\<close>, with the law \<open>crypto_ok\<close>), tower-http, the multipart parser and dates (\<open>ext\<close>), the calendar
  (\<open>time_lib\<close>), JSON text (a reader and a printer), f64 arithmetic (\<open>RateLimit\<close>), the disk's answers and the
  random bytes (\<open>draws\<close>, \<open>startup\<close>). Each law that a proof uses is a named hypothesis with an instance.

  Not modelled. The text of JSON, the inside of str0m, DTLS and SRTP: third-party code. The scheduling of
  tokio: handlers are atomic and interleave as steps (so a grace timer that was cancelled before its time
  never fires, where the code's \<open>select!\<close> may take either when both are ready); only the pushes to the hub are steps of
  their own, and \<open>Presence\<close> shows what a stale update does. Failures to remove a file are modelled for
  uploads; the janitor's removals are taken to succeed. The layout of
  socket addresses for sendmmsg, the relay of the TURN server and the upgrade of the HTTP connection:
  calls into libraries. Log lines. The statistics, the sampling of /proc and the reports of the
  load test: floating point and printing. The test kit, tests, the frontend (TypeScript) and the
  registration of windows and plugins with tauri.
\<close>

end
